(* ===== verification/Prelude.thy ===== *)
theory Prelude
  imports Complex_Main "HOL-Library.AList"
begin

text \<open>
  Shared vocabulary of the development.

  \<^item> Python errors that the modelled functions raise are values of \<open>pyerr\<close>; a function
    that may raise returns \<open>pyerr + 'a\<close>.
  \<^item> A Python \<open>dict\<close> keeps insertion order, so it is an association list; \<open>dget\<close>,
    \<open>dset\<close>, \<open>dsetdefault\<close> and \<open>dpop\<close> are \<open>d.get(k)\<close>, \<open>d[k] = v\<close>,
    \<open>d.setdefault(k, v)\<close> and \<open>d.pop(k, None)\<close>. The tables of the private SQLite stores
    with a primary key are kept the same way.
  \<^item> A Python \<open>float\<close> that the code only adds, scales and compares is a \<open>real\<close>; where the
    code itself tests for NaN or infinities it is a \<open>pyfloat\<close>, and a value whose type the code
    tests (a setting, a JSON field) is a \<open>pynum\<close>. Clock
    readings (\<open>time.time()\<close>, \<open>time.monotonic()\<close>) are arguments of type \<open>real\<close>.
  \<^item> Strings are 8-bit; the ellipsis character that clipping appends is code 128.
  \<^item> The generic interfaces several components rely on are the locales \<open>op_system\<close> and
    \<open>measured_system\<close> below (operations, their invariant and a growing measure) and
    \<open>keyed_store\<close> (look-up laws).
\<close>

section \<open>Errors\<close>

datatype pyerr = ValueError | TypeError | OverflowError

section \<open>Dictionaries\<close>

type_synonym ('k, 'v) dict = "('k \<times> 'v) list"

fun dget :: "('k, 'v) dict \<Rightarrow> 'k \<Rightarrow> 'v option" where
  "dget [] k = None"
| "dget ((k', v) # d) k = (if k = k' then Some v else dget d k)"

fun dset :: "'k \<Rightarrow> 'v \<Rightarrow> ('k, 'v) dict \<Rightarrow> ('k, 'v) dict" where
  "dset k v [] = [(k, v)]"
| "dset k v ((k', v') # d) = (if k = k' then (k, v) # d else (k', v') # dset k v d)"

definition dpop :: "'k \<Rightarrow> ('k, 'v) dict \<Rightarrow> ('k, 'v) dict" where
  "dpop k d = filter (\<lambda>p. fst p \<noteq> k) d"

definition dget_or :: "('k, 'v) dict \<Rightarrow> 'k \<Rightarrow> 'v \<Rightarrow> 'v" where
  "dget_or d k v = (case dget d k of None \<Rightarrow> v | Some w \<Rightarrow> w)"

definition dsetdefault :: "'k \<Rightarrow> 'v \<Rightarrow> ('k, 'v) dict \<Rightarrow> ('k, 'v) dict" where
  "dsetdefault k v d = (case dget d k of None \<Rightarrow> dset k v d | Some _ \<Rightarrow> d)"

abbreviation dkeys :: "('k, 'v) dict \<Rightarrow> 'k list" where
  "dkeys d \<equiv> map fst d"

abbreviation dwf :: "('k, 'v) dict \<Rightarrow> bool" where
  "dwf d \<equiv> distinct (map fst d)"

lemma dget_dset [simp]: "dget (dset k v d) k' = (if k' = k then Some v else dget d k')"
  by (induction d) auto

lemma dget_dpop [simp]: "dget (dpop k d) k' = (if k' = k then None else dget d k')"
  by (induction d) (auto simp: dpop_def)

lemma dget_None_iff: "dget d k = None \<longleftrightarrow> k \<notin> set (dkeys d)"
proof (induction d)
  case (Cons p d)
  then show ?case by (cases p) auto
qed simp

lemma dget_SomeD: "dget d k = Some v \<Longrightarrow> (k, v) \<in> set d"
  by (induction d) (auto split: if_splits)

lemma dget_filter_None: "dget d k = None \<Longrightarrow> dget (filter P d) k = None"
  by (induction d) (auto split: if_splits)

lemma dget_filter: "dwf d \<Longrightarrow>
    dget (filter P d) k = (case dget d k of None \<Rightarrow> None | Some v \<Rightarrow> if P (k, v) then Some v else None)"
proof (induction d)
  case (Cons p d)
  obtain a b where p: "p = (a, b)" by (cases p)
  with Cons.prems have "dget d a = None" by (simp add: dget_None_iff del: set_map)
  with Cons p show ?case by (auto simp: dget_filter_None)
qed simp

lemma dget_in_set: "dwf d \<Longrightarrow> (k, v) \<in> set d \<Longrightarrow> dget d k = Some v"
  by (induction d) (auto simp: rev_image_eqI)

lemma dget_iff: "dwf d \<Longrightarrow> dget d k = Some v \<longleftrightarrow> (k, v) \<in> set d"
  by (auto intro: dget_in_set dest: dget_SomeD)

lemma set_dkeys_dset [simp]: "set (dkeys (dset k v d)) = insert k (set (dkeys d))"
proof (induction d)
  case (Cons p d)
  then show ?case by (cases p) (auto simp del: set_map)
qed simp

lemma dwf_dset [simp, intro]: "dwf d \<Longrightarrow> dwf (dset k v d)"
proof (induction d)
  case (Cons p d)
  then show ?case
    using set_dkeys_dset [of k v d] by (cases p) (auto simp del: set_dkeys_dset)
qed simp

lemma dwf_filter [simp, intro]: "dwf d \<Longrightarrow> dwf (filter P d)"
  by (induction d) auto

lemma dwf_dpop [simp, intro]: "dwf d \<Longrightarrow> dwf (dpop k d)"
  by (simp add: dpop_def)

lemma set_dsetD: "p \<in> set (dset k v d) \<Longrightarrow> p = (k, v) \<or> p \<in> set d"
  by (induction d) (auto split: if_splits)

lemma dget_dsetdefault [simp]:
  "dget (dsetdefault k v d) k' = (if k' = k \<and> dget d k = None then Some v else dget d k')"
  by (auto simp: dsetdefault_def split: option.splits)

lemma dget_or_dset [simp]: "dget_or (dset k v d) k' w = (if k' = k then v else dget_or d k' w)"
  by (simp add: dget_or_def)

text \<open>
  The sum of a quantity over the values of a dictionary, and how writing one key moves it.
\<close>

definition dsum :: "('v \<Rightarrow> 'n::comm_monoid_add) \<Rightarrow> ('k, 'v) dict \<Rightarrow> 'n" where
  "dsum f d = sum_list (map (f \<circ> snd) d)"

lemma dsum_dset_new:
  fixes f :: "'v \<Rightarrow> 'n::ab_group_add"
  shows "dget d k = None \<Longrightarrow> dsum f (dset k v d) = dsum f d + f v"
  by (induction d) (auto simp: dsum_def add.assoc split: if_splits)

lemma dsum_dset_old:
  fixes f :: "'v \<Rightarrow> 'n::ab_group_add"
  shows "dget d k = Some w \<Longrightarrow> dsum f (dset k v d) = dsum f d - f w + f v"
  by (induction d) (auto simp: dsum_def algebra_simps split: if_splits)

section \<open>Look-up interface\<close>

text \<open>
  What the components rely on when they keep rows under a key: a read after a write gives the
  written row, other keys are untouched, and a removed key is gone.
\<close>

locale keyed_store =
  fixes lookup :: "'m \<Rightarrow> 'k \<Rightarrow> 'v option"
    and put :: "'k \<Rightarrow> 'v \<Rightarrow> 'm \<Rightarrow> 'm"
    and remove :: "'k \<Rightarrow> 'm \<Rightarrow> 'm"
  assumes lookup_put: "lookup (put k v m) k' = (if k' = k then Some v else lookup m k')"
    and lookup_remove: "lookup (remove k m) k' = (if k' = k then None else lookup m k')"
begin

lemma lookup_put_same: "lookup (put k v m) k = Some v"
  by (simp add: lookup_put)

lemma put_frame: "k' \<noteq> k \<Longrightarrow> lookup (put k v m) k' = lookup m k'"
  by (simp add: lookup_put)

lemma remove_frame: "k' \<noteq> k \<Longrightarrow> lookup (remove k m) k' = lookup m k'"
  by (simp add: lookup_remove)

lemma put_put: "lookup (put k v (put k w m)) = lookup (put k v m)"
  by (rule ext) (simp add: lookup_put)

lemma put_swap: "k \<noteq> k' \<Longrightarrow> lookup (put k v (put k' w m)) = lookup (put k' w (put k v m))"
  by (rule ext) (simp add: lookup_put)

end

interpretation py_dict: keyed_store dget dset dpop
  by unfold_locales simp_all

section \<open>Operations, invariants and growing measures\<close>

text \<open>
  A component is a state and a set of operations on it; a run applies a list of them. Every
  operation keeps the invariant, hence so does every run. Where a quantity of the state never
  goes down (a fence, an event log, a spend total), runs never take it down either.
\<close>

locale op_system =
  fixes step :: "'op \<Rightarrow> 's \<Rightarrow> 's"
    and inv :: "'s \<Rightarrow> bool"
  assumes step_inv: "inv s \<Longrightarrow> inv (step op s)"
begin

lemma run_inv: "inv s \<Longrightarrow> inv (fold step ops s)"
  by (induction ops arbitrary: s) (auto intro: step_inv)

end

locale measured_system = op_system step inv
  for step :: "'op \<Rightarrow> 's \<Rightarrow> 's" and inv :: "'s \<Rightarrow> bool" +
  fixes measure_of :: "'s \<Rightarrow> 'n::preorder"
  assumes step_mono: "inv s \<Longrightarrow> measure_of s \<le> measure_of (step op s)"
begin

lemma run_mono: "inv s \<Longrightarrow> measure_of s \<le> measure_of (fold step ops s)"
proof (induction ops arbitrary: s)
  case (Cons op ops)
  have "measure_of s \<le> measure_of (step op s)"
    using Cons.prems by (rule step_mono)
  also have "\<dots> \<le> measure_of (fold step ops (step op s))"
    using Cons.prems by (intro Cons.IH step_inv)
  finally show ?case by simp
qed simp

end

section \<open>Numbers as JSON and settings carry them\<close>

datatype pyfloat = Fin real | Inf | NegInf | NaN

text \<open>IEEE comparisons: every comparison with NaN is false.\<close>

instantiation pyfloat :: ord
begin

definition less_eq_pyfloat :: "pyfloat \<Rightarrow> pyfloat \<Rightarrow> bool" where
  "less_eq_pyfloat a b =
     (case (a, b) of (NaN, _) \<Rightarrow> False | (_, NaN) \<Rightarrow> False
      | (NegInf, _) \<Rightarrow> True | (_, Inf) \<Rightarrow> True | (Fin x, Fin y) \<Rightarrow> x \<le> y | _ \<Rightarrow> False)"

definition less_pyfloat :: "pyfloat \<Rightarrow> pyfloat \<Rightarrow> bool" where
  "less_pyfloat a b =
     (case (a, b) of (NaN, _) \<Rightarrow> False | (_, NaN) \<Rightarrow> False
      | (Fin x, Fin y) \<Rightarrow> x < y | (NegInf, NegInf) \<Rightarrow> False | (NegInf, _) \<Rightarrow> True
      | (Inf, _) \<Rightarrow> False | (_, Inf) \<Rightarrow> True | _ \<Rightarrow> False)"

instance ..

end

lemma pyfloat_cmp [simp]:
  "Fin x \<le> Fin y \<longleftrightarrow> x \<le> y" "Fin x < Fin y \<longleftrightarrow> x < y"
  "Fin x \<le> Inf" "Fin x < Inf" "\<not> Inf < a" "\<not> NaN < a" "\<not> a < NaN" "\<not> NaN \<le> a" "\<not> a \<le> NaN"
  "\<not> Inf \<le> Fin x" "NegInf < Fin x" "NegInf \<le> Fin x" "\<not> Fin x < NegInf" "\<not> Fin x \<le> NegInf"
  by (auto simp: less_eq_pyfloat_def less_pyfloat_def split: pyfloat.splits)

text \<open>Python's \<open>min(a, b)\<close> and \<open>max(a, b)\<close>: the first argument unless the second is strictly better.\<close>

definition py_min :: "pyfloat \<Rightarrow> pyfloat \<Rightarrow> pyfloat" where
  "py_min a b = (if b < a then b else a)"

definition py_max :: "pyfloat \<Rightarrow> pyfloat \<Rightarrow> pyfloat" where
  "py_max a b = (if a < b then b else a)"

datatype pynum = PNone | PBool bool | PInt int | PFlt pyfloat | PStr string

text \<open>\<open>float(value)\<close>; \<open>parse\<close> reads a string. \<open>Inl\<close> is the \<open>TypeError\<close> or \<open>ValueError\<close>.\<close>

fun to_float :: "(string \<Rightarrow> pyfloat option) \<Rightarrow> pynum \<Rightarrow> pyerr + pyfloat" where
  "to_float parse PNone = Inl TypeError"
| "to_float parse (PBool b) = Inr (Fin (if b then 1 else 0))"
| "to_float parse (PInt i) = Inr (Fin (of_int i))"
| "to_float parse (PFlt x) = Inr x"
| "to_float parse (PStr t) = (case parse t of None \<Rightarrow> Inl ValueError | Some x \<Rightarrow> Inr x)"

definition finite_nonneg_float :: "pyfloat \<Rightarrow> real option" where
  "finite_nonneg_float x = (case x of Fin r \<Rightarrow> if 0 \<le> r then Some r else None | _ \<Rightarrow> None)"

text \<open>Round half to even at \<open>d\<close> decimal digits, as \<open>round(x, d)\<close> does.\<close>

definition round_even :: "real \<Rightarrow> int" where
  "round_even y =
     (let f = \<lfloor>y\<rfloor>; r = y - of_int f
      in if r < 1/2 then f else if r > 1/2 then f + 1 else if even f then f else f + 1)"

definition py_round :: "nat \<Rightarrow> real \<Rightarrow> real" where
  "py_round d x = of_int (round_even (x * 10 ^ d)) / 10 ^ d"

lemma round_even_close: "\<bar>of_int (round_even y) - y\<bar> \<le> 1/2"
proof -
  have "of_int \<lfloor>y\<rfloor> \<le> y" and "y < of_int \<lfloor>y\<rfloor> + 1"
    by linarith+
  then show ?thesis by (auto simp: round_even_def Let_def)
qed

lemma round_even_of_int [simp]: "round_even (of_int i) = i"
  by (simp add: round_even_def)

lemma py_round_close: "\<bar>py_round d x - x\<bar> \<le> 1 / (2 * 10 ^ d)"
proof -
  let ?e = "of_int (round_even (x * 10 ^ d)) - x * 10 ^ d"
  have "py_round d x - x = ?e / 10 ^ d"
    by (simp add: py_round_def diff_divide_distrib)
  then have "\<bar>py_round d x - x\<bar> = \<bar>?e\<bar> / 10 ^ d"
    by simp
  also have "\<dots> \<le> (1/2) / 10 ^ d"
    using round_even_close by (intro divide_right_mono) auto
  finally show ?thesis by (simp add: field_simps)
qed

section \<open>Lists\<close>

lemma length_filter_impl:
  "(\<And>x. x \<in> set xs \<Longrightarrow> P x \<Longrightarrow> Q x) \<Longrightarrow> length (filter P xs) \<le> length (filter Q xs)"
  by (induction xs) (auto intro: le_SucI)

lemma sum_list_map_update:
  fixes g :: "'a \<Rightarrow> 'n::ab_group_add"
  shows "distinct (map f xs) \<Longrightarrow> x \<in> set xs \<Longrightarrow>
    sum_list (map g (map (\<lambda>r. if f r = f x then u r else r) xs)) = sum_list (map g xs) - g x + g (u x)"
proof (induction xs)
  case (Cons y ys)
  show ?case
  proof (cases "f y = f x")
    case True
    with Cons.prems have "x = y" by (auto simp: rev_image_eqI)
    have "map (\<lambda>r. if f r = f x then u r else r) ys = map id ys"
      using Cons.prems True by (intro map_cong) (auto simp: rev_image_eqI)
    with \<open>x = y\<close> show ?thesis by (simp add: algebra_simps del: map_map)
  next
    case False
    with Cons show ?thesis by (auto simp: algebra_simps)
  qed
qed simp

lemma find_rev_SomeD: "find P (rev xs) = Some x \<Longrightarrow> x \<in> set xs \<and> P x"
  by (auto simp: find_Some_iff) (metis nth_mem length_rev set_rev)

section \<open>Text\<close>

definition clip :: "nat \<Rightarrow> string \<Rightarrow> string" where
  "clip limit t = (if length t \<le> limit then t else take (limit - 1) t @ [char_of (128::nat)])"

lemma length_clip: "0 < limit \<Longrightarrow> length (clip limit t) \<le> limit"
  by (auto simp: clip_def)

definition is_space :: "char \<Rightarrow> bool" where
  "is_space c = (let n = (of_char c :: nat) in (9 \<le> n \<and> n \<le> 13) \<or> (28 \<le> n \<and> n \<le> 32) \<or> n = 133 \<or> n = 160)"

definition py_strip :: "string \<Rightarrow> string" where
  "py_strip t = rev (dropWhile is_space (rev (dropWhile is_space t)))"

definition lower_char :: "char \<Rightarrow> char" where
  "lower_char c =
     (let n = (of_char c :: nat)
      in if 65 \<le> n \<and> n \<le> 90 \<or> 192 \<le> n \<and> n \<le> 222 \<and> n \<noteq> 215 then char_of (n + 32) else c)"


definition py_lower :: "string \<Rightarrow> string" where
  "py_lower t = map lower_char t"

fun starts_with :: "string \<Rightarrow> string \<Rightarrow> bool" where
  "starts_with t [] = True"
| "starts_with [] (p # ps) = False"
| "starts_with (c # t) (p # ps) = (c = p \<and> starts_with t ps)"

definition ends_with :: "string \<Rightarrow> string \<Rightarrow> bool" where
  "ends_with t p = starts_with (rev t) (rev p)"

fun contains :: "string \<Rightarrow> string \<Rightarrow> bool" where
  "contains [] p = (p = [])"
| "contains (c # t) p = (starts_with (c # t) p \<or> contains t p)"

lemma starts_with_iff: "starts_with t p \<longleftrightarrow> (\<exists>r. t = p @ r)"
  by (induction t p rule: starts_with.induct) auto

text \<open>Decimal digits of an integer, as \<open>str(n)\<close> prints it.\<close>

fun str_nat :: "nat \<Rightarrow> string" where
  "str_nat n = (if n < 10 then [char_of (48 + n)] else str_nat (n div 10) @ [char_of (48 + n mod 10)])"

declare str_nat.simps [simp del]

definition str_int :: "int \<Rightarrow> string" where
  "str_int i = (if i < 0 then CHR ''-'' # str_nat (nat (- i)) else str_nat (nat i))"

end
