(* ===== verification/Rate_Limiter.thy ===== *)
theory Rate_Limiter
  imports Prelude
begin

text \<open>
  The sliding-window rate limiter of \<open>src/rate_limiter.py\<close>: one list of admission times per
  key, pruned to the window on every check, with a periodic purge of stale keys. The lock makes
  \<open>check\<close> atomic, so a step of the model is one call with the clock reading it takes.
\<close>

record rate_limiter =
  rl_max_requests :: int
  rl_window :: real
  rl_log :: "(string, real list) dict"
  rl_last_cleanup :: real
  rl_cleanup_interval :: real

definition rl_init :: "int \<Rightarrow> real \<Rightarrow> real \<Rightarrow> rate_limiter" where
  "rl_init max_requests window now =
     \<lparr>rl_max_requests = max_requests, rl_window = window, rl_log = [],
      rl_last_cleanup = now, rl_cleanup_interval = max (window * 2) 120\<rparr>"

definition rl_maybe_cleanup :: "real \<Rightarrow> rate_limiter \<Rightarrow> rate_limiter" where
  "rl_maybe_cleanup now s =
     (if now - rl_last_cleanup s < rl_cleanup_interval s then s
      else let cutoff = now - rl_window s
           in s\<lparr>rl_last_cleanup := now,
                rl_log := filter (\<lambda>(k, v). \<not> (v = [] \<or> last v \<le> cutoff)) (rl_log s)\<rparr>)"

definition rl_check :: "string \<Rightarrow> real \<Rightarrow> rate_limiter \<Rightarrow> bool \<times> rate_limiter" where
  "rl_check key now s0 =
     (let s = rl_maybe_cleanup now s0;
          timestamps = filter (\<lambda>t. now - rl_window s < t) (dget_or (rl_log s) key [])
      in if rl_max_requests s \<le> int (length timestamps)
         then (False, s\<lparr>rl_log := dset key timestamps (rl_log s)\<rparr>)
         else (True, s\<lparr>rl_log := dset key (timestamps @ [now]) (rl_log s)\<rparr>))"

text \<open>A run of calls \<open>(key, now)\<close>; it also collects the admitted ones, oldest first.\<close>

fun rl_run :: "(string \<times> real) list \<Rightarrow> rate_limiter \<Rightarrow> (string \<times> real) list \<times> rate_limiter" where
  "rl_run [] s = ([], s)"
| "rl_run ((key, now) # calls) s =
     (case rl_check key now s of (ok, s') \<Rightarrow>
        (case rl_run calls s' of (adm, s'') \<Rightarrow> ((if ok then (key, now) # adm else adm), s'')))"

definition admitted_at :: "string \<Rightarrow> (string \<times> real) list \<Rightarrow> real list" where
  "admitted_at key adm = map snd (filter (\<lambda>p. fst p = key) adm)"

section \<open>Invariant\<close>

text \<open>
  \<open>h\<close> is the list of all admission times of a key, \<open>xs\<close> what its log still holds: whatever
  of \<open>h\<close> is inside the window at \<open>now\<close> or later is in \<open>xs\<close>, and \<open>xs\<close> adds nothing.
\<close>

definition window_log :: "real list \<Rightarrow> real \<Rightarrow> real \<Rightarrow> real list \<Rightarrow> bool" where
  "window_log h now w xs \<longleftrightarrow> sorted h \<and> (\<forall>t \<in> set h. t \<le> now) \<and> sorted xs \<and> (\<forall>t \<in> set xs. t \<le> now)
     \<and> (\<forall>c \<ge> now - w. filter (\<lambda>t. c < t) xs = filter (\<lambda>t. c < t) h)"

definition rl_tracks :: "(string \<times> real) list \<Rightarrow> real \<Rightarrow> rate_limiter \<Rightarrow> bool" where
  "rl_tracks hist now s \<longleftrightarrow> dwf (rl_log s) \<and> 0 \<le> rl_window s
     \<and> (\<forall>key. window_log (admitted_at key hist) now (rl_window s) (dget_or (rl_log s) key []))"

lemma sorted_le_last: "sorted xs \<Longrightarrow> x \<in> set xs \<Longrightarrow> x \<le> last xs"
  by (induction xs) (auto split: if_splits intro: order_trans)

lemma window_log_later: "window_log h now w xs \<Longrightarrow> now \<le> now' \<Longrightarrow> window_log h now' w xs"
  unfolding window_log_def by (meson diff_right_mono order_trans)

lemma window_log_gone:
  assumes "window_log h now w xs" and "xs = [] \<or> last xs \<le> now - w"
  shows "window_log h now w []"
proof -
  have "t \<le> now - w" if "t \<in> set xs" for t
    using assms that sorted_le_last [of xs t] by (auto simp: window_log_def)
  then have "filter (\<lambda>t. c < t) xs = []" if "now - w \<le> c" for c
    using that by (force simp: filter_empty_conv)
  with assms(1) show ?thesis by (simp add: window_log_def)
qed

lemma window_log_prune:
  assumes "window_log h now w xs"
  shows "window_log h now w (filter (\<lambda>t. now - w < t) xs)"
proof -
  have "filter (\<lambda>t. c < t) (filter (\<lambda>t. now - w < t) xs) = filter (\<lambda>t. c < t) xs" if "now - w \<le> c" for c
    using that by (auto simp: filter_filter intro!: filter_cong)
  with assms show ?thesis by (auto simp: window_log_def sorted_wrt_filter)
qed

lemma window_log_add: "window_log h now w xs \<Longrightarrow> window_log (h @ [now]) now w (xs @ [now])"
  by (auto simp: window_log_def sorted_append)

lemma rl_check_frame:
  "rl_window (snd (rl_check k now s)) = rl_window s"
  "rl_max_requests (snd (rl_check k now s)) = rl_max_requests s"
  by (auto simp: rl_check_def rl_maybe_cleanup_def Let_def)

lemma rl_cleanup_frame:
  "rl_window (rl_maybe_cleanup now s) = rl_window s"
  "rl_max_requests (rl_maybe_cleanup now s) = rl_max_requests s"
  by (auto simp: rl_maybe_cleanup_def Let_def)

lemma rl_tracks_later: "rl_tracks hist now s \<Longrightarrow> now \<le> now' \<Longrightarrow> rl_tracks hist now' s"
  unfolding rl_tracks_def by (blast intro: window_log_later)

lemma rl_tracks_cleanup:
  assumes "rl_tracks hist now s"
  shows "rl_tracks hist now (rl_maybe_cleanup now s)"
proof -
  have wf: "dwf (rl_log s)" using assms by (simp add: rl_tracks_def)
  have "dget_or (rl_log (rl_maybe_cleanup now s)) key [] = dget_or (rl_log s) key []
      \<or> dget_or (rl_log (rl_maybe_cleanup now s)) key [] = []
        \<and> (dget_or (rl_log s) key [] = [] \<or> last (dget_or (rl_log s) key []) \<le> now - rl_window s)" for key
    using wf by (auto simp: rl_maybe_cleanup_def Let_def dget_or_def dget_filter split: option.splits)
  then have "window_log (admitted_at key hist) now (rl_window s)
      (dget_or (rl_log (rl_maybe_cleanup now s)) key [])" for key
    using assms window_log_gone unfolding rl_tracks_def by metis
  moreover have "dwf (rl_log (rl_maybe_cleanup now s))"
    using wf by (auto simp: rl_maybe_cleanup_def Let_def)
  ultimately show ?thesis using assms by (simp add: rl_tracks_def rl_cleanup_frame)
qed

lemma admitted_at_append [simp]:
  "admitted_at key (hist @ [(k, now)]) = (if k = key then admitted_at key hist @ [now] else admitted_at key hist)"
  by (simp add: admitted_at_def)

lemma rl_tracks_check:
  assumes tr: "rl_tracks hist now0 s0" and now: "now0 \<le> now"
  shows "rl_tracks (if fst (rl_check k now s0) then hist @ [(k, now)] else hist) now
           (snd (rl_check k now s0))"
    and "fst (rl_check k now s0) \<longleftrightarrow>
           int (length (filter (\<lambda>t. now - rl_window s0 < t) (admitted_at k hist))) < rl_max_requests s0"
proof -
  define s where "s = rl_maybe_cleanup now s0"
  have s: "rl_tracks hist now s" and wm: "rl_window s = rl_window s0" "rl_max_requests s = rl_max_requests s0"
    unfolding s_def by (intro rl_tracks_cleanup rl_tracks_later [OF tr now] rl_cleanup_frame)+
  let ?ts = "filter (\<lambda>t. now - rl_window s < t) (dget_or (rl_log s) k [])"
  have pr: "window_log (admitted_at k hist) now (rl_window s) ?ts"
    and ts: "?ts = filter (\<lambda>t. now - rl_window s < t) (admitted_at k hist)"
  proof -
    have k: "window_log (admitted_at k hist) now (rl_window s) (dget_or (rl_log s) k [])"
      using s by (simp add: rl_tracks_def)
    then show "window_log (admitted_at k hist) now (rl_window s) ?ts"
      by (rule window_log_prune)
    from k show "?ts = filter (\<lambda>t. now - rl_window s < t) (admitted_at k hist)"
      by (simp add: window_log_def)
  qed
  have chk: "rl_check k now s0 =
     (if rl_max_requests s \<le> int (length ?ts) then (False, s\<lparr>rl_log := dset k ?ts (rl_log s)\<rparr>)
      else (True, s\<lparr>rl_log := dset k (?ts @ [now]) (rl_log s)\<rparr>))"
    by (simp add: rl_check_def s_def Let_def)
  show "fst (rl_check k now s0) \<longleftrightarrow>
      int (length (filter (\<lambda>t. now - rl_window s0 < t) (admitted_at k hist))) < rl_max_requests s0"
    unfolding chk ts by (auto simp: wm)
  show "rl_tracks (if fst (rl_check k now s0) then hist @ [(k, now)] else hist) now
      (snd (rl_check k now s0))"
    using s pr window_log_add [OF pr] unfolding chk rl_tracks_def by simp
qed

section \<open>The reference: count the admissions of the last window\<close>

text \<open>
  The specification keeps every admission and admits a call when fewer than the limit fall in
  the window before it. Neither pruning nor the periodic purge may change an answer.
\<close>

fun window_spec :: "int \<Rightarrow> real \<Rightarrow> (string \<times> real) list \<Rightarrow> (string \<times> real) list \<Rightarrow> (string \<times> real) list" where
  "window_spec mx w [] hist = []"
| "window_spec mx w ((key, now) # calls) hist =
     (if int (length (filter (\<lambda>t. now - w < t) (admitted_at key hist))) < mx
      then (key, now) # window_spec mx w calls (hist @ [(key, now)])
      else window_spec mx w calls hist)"

lemma rl_run_tracks:
  "rl_tracks hist now0 s \<Longrightarrow> sorted (now0 # map snd calls) \<Longrightarrow>
   fst (rl_run calls s) = window_spec (rl_max_requests s) (rl_window s) calls hist"
proof (induction calls arbitrary: hist now0 s)
  case (Cons c calls)
  obtain key now where c: "c = (key, now)" by (cases c)
  have now: "now0 \<le> now" and rest: "sorted (now # map snd calls)"
    using Cons.prems(2) c by auto
  obtain ok s' where chk: "rl_check key now s = (ok, s')" by fastforce
  have tr: "rl_tracks (if ok then hist @ [(key, now)] else hist) now s'"
    and ok: "ok \<longleftrightarrow> int (length (filter (\<lambda>t. now - rl_window s < t) (admitted_at key hist))) < rl_max_requests s"
    using rl_tracks_check [OF Cons.prems(1) now, of key] chk by simp_all
  have fr: "rl_window s' = rl_window s" "rl_max_requests s' = rl_max_requests s"
    using rl_check_frame [of key now s] chk by simp_all
  show ?case
    using Cons.IH [OF tr rest] chk ok c by (auto simp: fr split: prod.splits)
qed simp

lemma rl_tracks_init: "0 \<le> w \<Longrightarrow> rl_tracks [] now0 (rl_init mx w now0)"
  by (simp add: rl_tracks_def rl_init_def admitted_at_def dget_or_def window_log_def)

text \<open>
  C21: when the clock readings are in order the limiter admits exactly the calls the sliding-window
  specification admits, so pruning and the periodic purge of stale keys are unobservable. The
  order is that in which the calls take the lock; the code reads the clock just before, so for calls
  that overlap it is an assumption.
\<close>

theorem rl_run_refines_window_spec:
  assumes "sorted (now0 # map snd calls)" and "0 \<le> w"
  shows "fst (rl_run calls (rl_init mx w now0)) = window_spec mx w calls []"
  using rl_run_tracks [OF rl_tracks_init [OF assms(2)] assms(1), of mx] by (simp add: rl_init_def)

theorem rl_run_refines_window_spec_witness:
  "fst (rl_run [(''a'', 1), (''a'', 2), (''a'', 200)] (rl_init 1 60 0))
     = window_spec 1 60 [(''a'', 1), (''a'', 2), (''a'', 200)] []"
  by (rule rl_run_refines_window_spec) simp_all

lemma window_spec_bound:
  assumes "sorted (map snd (hist @ calls))" and "0 \<le> mx"
    and "\<forall>T. int (length (filter (\<lambda>t. T - w < t \<and> t \<le> T) (admitted_at key hist))) \<le> mx"
  shows "int (length (filter (\<lambda>t. T - w < t \<and> t \<le> T)
           (admitted_at key (hist @ window_spec mx w calls hist)))) \<le> mx"
  using assms
proof (induction calls arbitrary: hist T)
  case (Cons c calls)
  obtain k now where c: "c = (k, now)" by (cases c)
  show ?case
  proof (cases "int (length (filter (\<lambda>t. now - w < t) (admitted_at k hist))) < mx")
    case False
    with Cons c show ?thesis by (simp add: sorted_append)
  next
    case True
    have le: "\<forall>t \<in> set (admitted_at key hist). t \<le> now"
      using Cons.prems(1) c by (auto simp: admitted_at_def sorted_append)
    have "int (length (filter (\<lambda>t. T - w < t \<and> t \<le> T) (admitted_at key (hist @ [(k, now)])))) \<le> mx" for T
    proof (cases "k = key \<and> T - w < now \<and> now \<le> T")
      case False
      with Cons.prems(3) show ?thesis by (auto simp: admitted_at_def)
    next
      case now: True
      have "length (filter (\<lambda>t. T - w < t \<and> t \<le> T) (admitted_at key hist))
          \<le> length (filter (\<lambda>t. now - w < t) (admitted_at key hist))"
        using now by (intro length_filter_impl) auto
      with True now show ?thesis by (simp add: admitted_at_def)
    qed
    with Cons.IH [of "hist @ [(k, now)]" T] Cons.prems(1,2) c True show ?thesis by simp
  qed
qed simp

text \<open>
  in no interval of one window's length are more than \<open>max_requests\<close> calls of a key
  admitted, wherever the interval lies.
\<close>

theorem rl_window_bound:
  assumes "sorted (now0 # map snd calls)" and "0 \<le> w" and "0 \<le> mx"
  shows "int (length (filter (\<lambda>t. T - w < t \<and> t \<le> T)
           (admitted_at key (fst (rl_run calls (rl_init mx w now0)))))) \<le> mx"
proof -
  have "fst (rl_run calls (rl_init mx w now0)) = window_spec mx w calls []"
    using rl_run_tracks [OF rl_tracks_init [OF assms(2)] assms(1), of mx] by (simp add: rl_init_def)
  with window_spec_bound [of "[]" calls mx w key T] assms show ?thesis
    by (simp add: admitted_at_def)
qed

theorem rl_window_bound_witness:
  "int (length (filter (\<lambda>t. 61 - 60 < t \<and> t \<le> (61::real)) (admitted_at ''a''
     (fst (rl_run [(''a'', 1), (''a'', 2), (''a'', 61)] (rl_init 1 60 0)))))) \<le> 1"
  by (rule rl_window_bound) simp_all

end
