(* ===== verification/Backoff.thy ===== *)
theory Backoff
  imports Prelude
begin

text \<open>
  Capped exponential back-off, the contract shared by \<open>src/retry_policy.py\<close> (\<open>delay\<close>),
  \<open>src/probe_backoff.py\<close> (\<open>_window\<close>) and \<open>src/work_lease.py\<close> (\<open>release\<close>). All three compute
  \<open>min(cap, base * (2 ** n))\<close> with a float base and an unbounded Python integer \<open>2 ** n\<close>. The
  product converts that integer to a float first, which raises \<open>OverflowError\<close> as soon as it is
  not below the float range, that is for every \<open>n \<ge> 1024\<close>; the cap is applied too late to
  prevent it. (A product of two floats that leaves the range is \<open>inf\<close> and is capped.)
\<close>

definition scale_pow2 :: "real \<Rightarrow> nat \<Rightarrow> pyerr + real" where
  "scale_pow2 base n = (if n < 1024 then Inr (base * 2 ^ n) else Inl OverflowError)"

definition capped_pow2 :: "real \<Rightarrow> real \<Rightarrow> nat \<Rightarrow> pyerr + real" where
  "capped_pow2 cap base n = (case scale_pow2 base n of Inl e \<Rightarrow> Inl e | Inr x \<Rightarrow> Inr (min cap x))"

lemma capped_pow2_simps:
  "n < 1024 \<Longrightarrow> capped_pow2 cap base n = Inr (min cap (base * 2 ^ n))"
  "1024 \<le> n \<Longrightarrow> capped_pow2 cap base n = Inl OverflowError"
  by (simp_all add: capped_pow2_def scale_pow2_def)

text \<open>
  The contract a client of a back-off schedule relies on: the first window is the base, each
  further failure doubles it up to the cap, and past the float range the schedule raises.
\<close>

locale capped_backoff =
  fixes window :: "nat \<Rightarrow> pyerr + real" and base cap :: real
  assumes base_pos: "0 < base" and base_le_cap: "base \<le> cap"
    and window_first: "window 0 = Inr base"
    and window_next: "Suc n < 1024 \<Longrightarrow> window n = Inr d \<Longrightarrow> window (Suc n) = Inr (min cap (2 * d))"
    and window_raises: "1024 \<le> n \<Longrightarrow> window n = Inl OverflowError"
begin

lemma window_closed: "n < 1024 \<Longrightarrow> window n = Inr (min cap (base * 2 ^ n))"
proof (induction n)
  case 0
  show ?case using window_first base_le_cap by simp
next
  case (Suc n)
  have "min cap (2 * min cap (base * 2 ^ n)) = min cap (base * 2 ^ Suc n)"
    using base_pos base_le_cap by (auto simp: min_def)
  with Suc window_next [of n "min cap (base * 2 ^ n)"] show ?case by simp
qed

lemma window_returns_iff: "(\<exists>d. window n = Inr d) \<longleftrightarrow> n < 1024"
  using window_closed [of n] window_raises [of n] by (cases "n < 1024") auto

lemma window_bounds:
  assumes "window n = Inr d"
  shows "base \<le> d" and "d \<le> cap"
proof -
  have "n < 1024" using assms window_returns_iff by blast
  then have "d = min cap (base * 2 ^ n)" using assms window_closed by simp
  moreover have "base \<le> base * 2 ^ n" using base_pos by simp
  ultimately show "base \<le> d" and "d \<le> cap" using base_le_cap by auto
qed

lemma window_mono: "m \<le> n \<Longrightarrow> window m = Inr d \<Longrightarrow> window n = Inr d' \<Longrightarrow> d \<le> d'"
proof -
  assume "m \<le> n" and w: "window m = Inr d" "window n = Inr d'"
  then have "m < 1024" "n < 1024" using window_returns_iff by blast+
  then have "d = min cap (base * 2 ^ m)" and "d' = min cap (base * 2 ^ n)"
    using w window_closed by simp_all
  moreover have "base * 2 ^ m \<le> base * 2 ^ n"
    using base_pos \<open>m \<le> n\<close> by (simp add: power_increasing)
  ultimately show "d \<le> d'" by auto
qed

end

lemma capped_backoff_capped_pow2:
  assumes "0 < base" and "base \<le> cap"
  shows "capped_backoff (capped_pow2 cap base) base cap"
proof
  fix n d
  assume "Suc n < 1024" and "capped_pow2 cap base n = Inr d"
  then show "capped_pow2 cap base (Suc n) = Inr (min cap (2 * d))"
    using assms by (auto simp: capped_pow2_simps min_def)
qed (use assms in \<open>simp_all add: capped_pow2_simps\<close>)

end
