(* ===== verification/Retry_Policy.thy ===== *)
theory Retry_Policy
  imports Backoff
begin

text \<open>
  Classification of failed provider calls and the wait before a retry, \<open>src/retry_policy.py\<close>.
  A transport exception is the list of class names of its MRO, as \<open>_exc_class_names\<close> reads it.
  The string-to-float parser and \<open>email.utils.parsedate_to_datetime\<close> are arguments of
  \<open>parse_retry_after\<close> (\<open>None\<close> when they raise or give nothing; a date is given in seconds since
  the epoch, UTC when it carries no zone), and so is the random draw of \<open>delay\<close>.
\<close>

datatype retry_class = RETRY_NOW | RETRY_BACKOFF | NO_RETRY | OUTCOME_UNKNOWN

definition retry_class_str :: "retry_class \<Rightarrow> string" where
  "retry_class_str c = (case c of RETRY_NOW \<Rightarrow> ''retry_now'' | RETRY_BACKOFF \<Rightarrow> ''retry_backoff''
     | NO_RETRY \<Rightarrow> ''no_retry'' | OUTCOME_UNKNOWN \<Rightarrow> ''outcome_unknown'')"

definition retry_now_statuses :: "int list" where
  "retry_now_statuses = [429, 502, 503, 504]"

definition backoff_exc_names :: "string list" where
  "backoff_exc_names = [''ConnectTimeout'', ''ConnectError'', ''PoolTimeout'',
     ''WriteTimeout'', ''WriteError'', ''CloseError'', ''LocalProtocolError'']"

definition outcome_unknown_exc_names :: "string list" where
  "outcome_unknown_exc_names = [''ReadTimeout'', ''ReadError'', ''RemoteProtocolError'']"

definition meets :: "string list \<Rightarrow> string list \<Rightarrow> bool" where
  "meets xs ys \<longleftrightarrow> list_ex (\<lambda>x. x \<in> set ys) xs"

type_synonym headers = "(string, string) dict"

definition find_header :: "headers option \<Rightarrow> string \<Rightarrow> string option" where
  "find_header hs name =
     (case hs of None \<Rightarrow> None
      | Some d \<Rightarrow> map_option snd (find (\<lambda>(k, v). py_lower k = py_lower name) d))"

definition classify_http :: "int option \<Rightarrow> headers option \<Rightarrow> string list option \<Rightarrow> retry_class" where
  "classify_http status hdrs exc =
     (case status of
        Some st \<Rightarrow>
          if st \<in> set retry_now_statuses then RETRY_NOW
          else if 500 \<le> st \<and> st < 600 then RETRY_BACKOFF
          else NO_RETRY
      | None \<Rightarrow>
          (case exc of
             Some names \<Rightarrow>
               if meets names outcome_unknown_exc_names then OUTCOME_UNKNOWN
               else if meets names backoff_exc_names then RETRY_BACKOFF
               else RETRY_BACKOFF
           | None \<Rightarrow> NO_RETRY))"

definition parse_retry_after ::
  "(string \<Rightarrow> pyfloat option) \<Rightarrow> (string \<Rightarrow> real option) \<Rightarrow> headers option \<Rightarrow> real \<Rightarrow> pyfloat option" where
  "parse_retry_after float_of date_of hdrs now =
     (case find_header hdrs ''retry-after'' of
        None \<Rightarrow> None
      | Some raw0 \<Rightarrow>
          (let raw = py_strip raw0
           in if raw = [] then None
              else case float_of raw of
                     Some seconds \<Rightarrow> if Fin 0 \<le> seconds then Some seconds else None
                   | None \<Rightarrow>
                       (case date_of raw of
                          None \<Rightarrow> None
                        | Some date \<Rightarrow> Some (Fin (max (date - now) 0)))))"

text \<open>
  \<open>u\<close> is the draw of \<open>random()\<close>, in \<open>[0, 1)\<close>; \<open>rng.uniform(0.0, c)\<close> is \<open>0 + (c - 0) * u\<close>.
\<close>

definition retry_delay :: "int \<Rightarrow> pyfloat option \<Rightarrow> real \<Rightarrow> real \<Rightarrow> real \<Rightarrow> pyerr + pyfloat" where
  "retry_delay attempt retry_after base cap u =
     (case retry_after of
        Some ra \<Rightarrow> Inr (py_max (Fin 0) (py_min ra (Fin cap)))
      | None \<Rightarrow>
          (let attempt' = max 1 attempt
           in case capped_pow2 cap base (nat (attempt' - 1)) of
                Inl e \<Rightarrow> Inl e
              | Inr top_s \<Rightarrow> Inr (Fin (0 + (top_s - 0) * u))))"

record retry_budget =
  total_seconds :: real
  rb_deadline :: "real option"

definition rb_start :: "real \<Rightarrow> retry_budget \<Rightarrow> retry_budget" where
  "rb_start now b = b\<lparr>rb_deadline := Some (now + total_seconds b)\<rparr>"

definition rb_exhausted :: "real \<Rightarrow> retry_budget \<Rightarrow> bool" where
  "rb_exhausted now b = (case rb_deadline b of None \<Rightarrow> False | Some d \<Rightarrow> d \<le> now)"

definition rb_remaining :: "real \<Rightarrow> retry_budget \<Rightarrow> real" where
  "rb_remaining now b = (case rb_deadline b of None \<Rightarrow> total_seconds b | Some d \<Rightarrow> max 0 (d - now))"

definition error_class_for :: "int option \<Rightarrow> string list option \<Rightarrow> string" where
  "error_class_for status exc =
     (case status of
        Some st \<Rightarrow>
          if st = 429 then ''resource.rate_limited''
          else if 500 \<le> st \<and> st < 600 then ''transport.llm_service_error''
          else if st \<in> {401, 403} then ''permission.denied''
          else if st = 404 then ''resource.not_found''
          else if st = 413 then ''schema.invalid_upload''
          else if st = 409 then ''conflict.concurrent_write''
          else if st = 408 then ''timeout.request''
          else if st = 499 then ''cancelled.client''
          else ''schema.contract_violation''
      | None \<Rightarrow>
          (case exc of
             Some names \<Rightarrow>
               if ''ReadTimeout'' \<in> set names then ''timeout.deadline_exceeded''
               else if meets names outcome_unknown_exc_names then ''transport.connection_reset''
               else if meets names [''ConnectTimeout'', ''PoolTimeout'', ''WriteTimeout'']
                 then ''timeout.deadline_exceeded''
               else ''transport.network_unreachable''
           | None \<Rightarrow> ''unknown.unmapped_exception''))"

section \<open>The back-off contract\<close>

text \<open>The ceiling of \<open>delay\<close> with its default base and cap, by number of earlier failures.\<close>

definition default_ceiling :: "nat \<Rightarrow> pyerr + real" where
  "default_ceiling n = capped_pow2 60 (1/2) n"

interpretation retry_ceiling: capped_backoff default_ceiling "1/2" 60
  unfolding default_ceiling_def [abs_def] by (rule capped_backoff_capped_pow2) simp_all

section \<open>Properties\<close>

lemma meets_iff: "meets xs ys \<longleftrightarrow> set xs \<inter> set ys \<noteq> {}"
  by (auto simp: meets_def list_ex_iff)

text \<open>
  an attempt is classified as safe to send again exactly when the provider answered 429 or a
  5xx, or when no answer arrived and the exception belongs to no class raised after bytes were
  exchanged. A 4xx other than 429 and an unknown outcome are never handed back as retryable.
\<close>

theorem classify_http_retryable_iff:
  "classify_http status hdrs exc \<in> {RETRY_NOW, RETRY_BACKOFF} \<longleftrightarrow>
     (\<exists>st. status = Some st \<and> (st = 429 \<or> (500 \<le> st \<and> st < 600)))
     \<or> (status = None \<and> (\<exists>names. exc = Some names \<and> set names \<inter> set outcome_unknown_exc_names = {}))"
  by (auto simp: classify_http_def retry_now_statuses_def meets_iff split: option.splits)

lemma py_clamp_bounds:
  assumes "0 \<le> cap"
  shows "\<exists>d. py_max (Fin 0) (py_min ra (Fin cap)) = Fin d \<and> 0 \<le> d \<and> d \<le> cap"
  using assms by (cases ra) (auto simp: py_max_def py_min_def)

text \<open>
  with the default base and cap, every wait lies between 0 and 60 seconds: whatever the
  provider put in \<open>Retry-After\<close> (huge, infinite, not a number), and whatever the draw, as long
  as the attempt number is at most 1024.
\<close>

theorem retry_delay_bounded:
  assumes "retry_after = None \<Longrightarrow> attempt \<le> 1024" and "0 \<le> u" and "u < 1"
  shows "\<exists>d. retry_delay attempt retry_after (1/2) 60 u = Inr (Fin d) \<and> 0 \<le> d \<and> d \<le> 60"
proof (cases retry_after)
  case (Some ra)
  then show ?thesis using py_clamp_bounds [of 60 ra] by (simp add: retry_delay_def)
next
  case None
  let ?n = "nat (max 1 attempt - 1)"
  have "?n < 1024" using assms(1) None by simp
  then obtain c where c: "default_ceiling ?n = Inr c"
    using retry_ceiling.window_returns_iff by blast
  have "1/2 \<le> c" "c \<le> 60"
    using retry_ceiling.window_bounds [OF c] by simp_all
  moreover from this have "c * u \<le> 60 * 1"
    using assms(2,3) by (intro mult_mono) auto
  moreover have "0 \<le> c * u" using assms(2) \<open>1/2 \<le> c\<close> by simp
  ultimately show ?thesis
    using None c by (simp add: retry_delay_def default_ceiling_def Let_def)
qed

theorem retry_delay_bounded_witness:
  "(\<exists>d. retry_delay 3 None (1/2) 60 (1/2) = Inr (Fin d) \<and> 0 \<le> d \<and> d \<le> 60)
   \<and> (\<exists>d. retry_delay 9000 (Some NaN) (1/2) 60 (1/2) = Inr (Fin d) \<and> 0 \<le> d \<and> d \<le> 60)"
proof
  show "\<exists>d. retry_delay 3 None (1/2) 60 (1/2) = Inr (Fin d) \<and> 0 \<le> d \<and> d \<le> 60"
    by (rule retry_delay_bounded) simp_all
  show "\<exists>d. retry_delay 9000 (Some NaN) (1/2) 60 (1/2) = Inr (Fin d) \<and> 0 \<le> d \<and> d \<le> 60"
    by (rule retry_delay_bounded) simp_all
qed

lemma parse_retry_after_nonneg:
  "parse_retry_after float_of date_of hdrs now = Some r \<Longrightarrow> Fin 0 \<le> r"
  by (auto simp: parse_retry_after_def Let_def split: option.splits if_splits)

lemma rb_remaining_zero_iff:
  "rb_remaining t (rb_start now b) = 0 \<longleftrightarrow> rb_exhausted t (rb_start now b)"
  by (auto simp: rb_remaining_def rb_exhausted_def rb_start_def max_def)

lemma rb_remaining_antimono:
  "t \<le> t' \<Longrightarrow> rb_remaining t' (rb_start now b) \<le> rb_remaining t (rb_start now b)"
  by (auto simp: rb_remaining_def rb_start_def)

end
