(* ===== verification/Probe_Backoff.thy ===== *)
theory Probe_Backoff
  imports Backoff "HOL-Library.List_Lexorder" "HOL-Library.Char_ord"
begin

text \<open>
  Skipping probes of servers that refuse connections, \<open>src/probe_backoff.py\<close>. The module keeps
  one row per \<open>scheme://host:port\<close>. Parameters: \<open>urllib.parse.urlsplit\<close> (\<open>None\<close> when it or its
  port accessor raises \<open>ValueError\<close>), the platform's \<open>errno.ECONNREFUSED\<close>, the clock. An exception
  is a finite tree of the objects the code follows: \<open>reason\<close>, \<open>__cause__\<close> and \<open>__context__\<close>, with
  \<open>NoExc\<close> for an absent one.
\<close>

record urlparts =
  up_scheme :: string
  up_hostname :: "string option"
  up_port :: "nat option"

datatype pexc = NoExc
  | PExc (ex_mro: "string list") (ex_errno: "int option") (ex_winerror: "int option")
      (ex_text: string) (ex_reason: pexc) (ex_cause: pexc) (ex_context: pexc)

definition fail_threshold :: nat where "fail_threshold = 2"
definition base_s :: real where "base_s = 60"
definition max_s :: real where "max_s = 900"

definition server_key :: "(string \<Rightarrow> urlparts option) \<Rightarrow> string \<Rightarrow> string" where
  "server_key urlsplit url =
     (case urlsplit (py_strip url) of
        None \<Rightarrow> []
      | Some parts \<Rightarrow>
          (let host = py_lower (case up_hostname parts of None \<Rightarrow> [] | Some h \<Rightarrow> h);
               port = (case up_port parts of
                         Some p \<Rightarrow> if p = 0 then (if up_scheme parts = ''https'' then 443 else 80) else p
                       | None \<Rightarrow> if up_scheme parts = ''https'' then 443 else 80)
           in if host = [] then []
              else py_lower (if up_scheme parts = [] then ''http'' else up_scheme parts)
                   @ ''://'' @ host @ '':'' @ str_nat port))"

definition refused_text :: "string list" where
  "refused_text = [''connection refused'', ''actively refused'', ''errno 111'', ''winerror 10061'']"

text \<open>\<open>seen\<close> counts the links of the cause chain followed; a wrapped \<open>reason\<close> starts afresh.\<close>

fun is_refused_from :: "int \<Rightarrow> nat \<Rightarrow> pexc \<Rightarrow> bool" where
  "is_refused_from econnrefused seen NoExc = False"
| "is_refused_from econnrefused seen (PExc mro errno winerror text reason cause context) =
     (if 6 \<le> seen then False
      else if ''ConnectionRefusedError'' \<in> set mro then True
      else if ''OSError'' \<in> set mro \<and> (errno = Some econnrefused \<or> errno = Some 10061) then True
      else if winerror = Some 10061 then True
      else if reason \<noteq> NoExc \<and> is_refused_from econnrefused 0 reason then True
      else if list_ex (contains (py_lower text)) refused_text then True
      else if cause \<noteq> NoExc then is_refused_from econnrefused (Suc seen) cause
      else is_refused_from econnrefused (Suc seen) context)"

definition is_refused :: "int \<Rightarrow> pexc \<Rightarrow> bool" where
  "is_refused econnrefused e = is_refused_from econnrefused 0 e"

fun after_scheme :: "string \<Rightarrow> string option" where
  "after_scheme [] = None"
| "after_scheme (c # t) = (if starts_with (c # t) ''://'' then Some (drop 2 t) else after_scheme t)"

definition before_last_colon :: "string \<Rightarrow> string" where
  "before_last_colon t =
     (if CHR '':'' \<in> set t then rev (tl (dropWhile (\<lambda>c. c \<noteq> CHR '':'') (rev t))) else t)"

definition loopback_connect_timeout :: "string \<Rightarrow> pexc \<Rightarrow> bool" where
  "loopback_connect_timeout key e =
     (let host = before_last_colon (case after_scheme key of None \<Rightarrow> key | Some r \<Rightarrow> r)
      in if \<not> list_ex (starts_with host) [''127.'', ''localhost'', ''[::1]'', ''::1''] then False
         else e \<noteq> NoExc \<and> ''ConnectTimeout'' \<in> set (ex_mro e))"

definition pb_window :: "nat \<Rightarrow> pyerr + real" where
  "pb_window fails = (let over = fails - fail_threshold in capped_pow2 max_s base_s over)"

record probe_row =
  pb_fails :: nat
  pb_until :: real
  pb_last_error :: string
  pb_last_at :: real

type_synonym probe_state = "(string, probe_row) dict"

definition pb_note_failure ::
  "(string \<Rightarrow> urlparts option) \<Rightarrow> int \<Rightarrow> string \<Rightarrow> pexc \<Rightarrow> real \<Rightarrow> probe_state \<Rightarrow> (pyerr + bool) \<times> probe_state" where
  "pb_note_failure urlsplit econnrefused url e now st =
     (let key = server_key urlsplit url
      in if key = [] then (Inr False, st)
         else if \<not> (is_refused econnrefused e \<or> loopback_connect_timeout key e) then (Inr False, st)
         else
           (let row0 = dget_or st key \<lparr>pb_fails = 0, pb_until = 0, pb_last_error = [], pb_last_at = 0\<rparr>;
                row = row0\<lparr>pb_fails := pb_fails row0 + 1, pb_last_error := take 200 (ex_text e),
                           pb_last_at := now\<rparr>
            in if fail_threshold \<le> pb_fails row
               then (case pb_window (pb_fails row) of
                       Inl err \<Rightarrow> (Inl err, dset key row st)
                     | Inr w \<Rightarrow> (Inr True, dset key (row\<lparr>pb_until := now + w\<rparr>) st))
               else (Inr False, dset key row st)))"

definition pb_note_success :: "(string \<Rightarrow> urlparts option) \<Rightarrow> string \<Rightarrow> probe_state \<Rightarrow> probe_state" where
  "pb_note_success urlsplit url st =
     (let key = server_key urlsplit url in if key = [] then st else dpop key st)"

definition pb_skipped :: "(string \<Rightarrow> urlparts option) \<Rightarrow> string \<Rightarrow> real \<Rightarrow> probe_state \<Rightarrow> bool" where
  "pb_skipped urlsplit url now st =
     (let key = server_key urlsplit url
      in if key = [] then False
         else case dget st key of None \<Rightarrow> False | Some row \<Rightarrow> now < pb_until row)"

text \<open>\<open>host_dead\<close> is the answer of \<open>llm_core._is_host_dead\<close>, \<open>None\<close> when it raises.\<close>

definition pb_should_skip ::
  "(string \<Rightarrow> urlparts option) \<Rightarrow> bool option \<Rightarrow> string \<Rightarrow> real \<Rightarrow> probe_state \<Rightarrow> bool" where
  "pb_should_skip urlsplit host_dead url now st =
     (if pb_skipped urlsplit url now st then True
      else case host_dead of Some b \<Rightarrow> b | None \<Rightarrow> False)"

definition pb_clear :: "(string \<Rightarrow> urlparts option) \<Rightarrow> string option \<Rightarrow> probe_state \<Rightarrow> nat \<times> probe_state" where
  "pb_clear urlsplit url st =
     (case url of
        None \<Rightarrow> (length st, [])
      | Some u \<Rightarrow> if u = [] then (length st, [])
          else (let key = server_key urlsplit u
                in (if dget st key \<noteq> None then 1 else 0, dpop key st)))"

record probe_status =
  ps_server :: string
  ps_failures :: nat
  ps_skipped :: bool
  ps_retry_in_s :: real
  ps_until :: "real option"
  ps_last_error :: string
  ps_last_at :: "real option"

definition pb_status :: "real \<Rightarrow> probe_state \<Rightarrow> probe_status list" where
  "pb_status now st =
     map (\<lambda>(key, row). \<lparr>ps_server = key, ps_failures = pb_fails row, ps_skipped = now < pb_until row,
             ps_retry_in_s = py_round 1 (max 0 (pb_until row - now)),
             ps_until = (if pb_until row = 0 then None else Some (pb_until row)),
             ps_last_error = pb_last_error row,
             ps_last_at = (if pb_last_at row = 0 then None else Some (pb_last_at row))\<rparr>)
       (sort_key fst st)"


section \<open>The window schedule\<close>

interpretation probe_window: capped_backoff "\<lambda>n. pb_window (n + 2)" 60 900
proof -
  have "(\<lambda>n. pb_window (n + 2)) = capped_pow2 900 60"
    by (simp add: pb_window_def fail_threshold_def max_s_def base_s_def Let_def fun_eq_iff)
  then show "capped_backoff (\<lambda>n. pb_window (n + 2)) 60 900"
    using capped_backoff_capped_pow2 [of 60 900] by simp
qed

section \<open>Properties\<close>

text \<open>Whether a failed probe counts: a refused connection, or a connect timeout to loopback.\<close>

definition counts_as_refusal :: "(string \<Rightarrow> urlparts option) \<Rightarrow> int \<Rightarrow> string \<Rightarrow> pexc \<Rightarrow> bool" where
  "counts_as_refusal urlsplit ec url e \<longleftrightarrow>
     server_key urlsplit url \<noteq> [] \<and> (is_refused ec e \<or> loopback_connect_timeout (server_key urlsplit url) e)"

definition refusals_of :: "(string \<Rightarrow> urlparts option) \<Rightarrow> string \<Rightarrow> probe_state \<Rightarrow> nat" where
  "refusals_of urlsplit url st =
     (case dget st (server_key urlsplit url) of None \<Rightarrow> 0 | Some row \<Rightarrow> pb_fails row)"

lemma note_failure_ignored:
  "\<not> counts_as_refusal urlsplit ec url e \<Longrightarrow> pb_note_failure urlsplit ec url e now st = (Inr False, st)"
  by (auto simp: counts_as_refusal_def pb_note_failure_def Let_def)

lemma note_failure_counts:
  "counts_as_refusal urlsplit ec url e \<Longrightarrow>
   refusals_of urlsplit url (snd (pb_note_failure urlsplit ec url e now st))
     = Suc (refusals_of urlsplit url st)"
  by (auto simp: counts_as_refusal_def pb_note_failure_def refusals_of_def dget_or_def Let_def
      split: option.splits sum.splits)

lemma note_failure_result:
  assumes "counts_as_refusal urlsplit ec url e"
  shows "fst (pb_note_failure urlsplit ec url e now st) =
    (if refusals_of urlsplit url st = 0 then Inr False
     else case pb_window (Suc (refusals_of urlsplit url st)) of Inl err \<Rightarrow> Inl err | Inr w \<Rightarrow> Inr True)"
  using assms
  by (auto simp: counts_as_refusal_def pb_note_failure_def refusals_of_def dget_or_def Let_def
      fail_threshold_def split: option.splits sum.splits)

lemma note_failure_until:
  assumes "counts_as_refusal urlsplit ec url e" and "0 < refusals_of urlsplit url st"
    and "pb_window (Suc (refusals_of urlsplit url st)) = Inr w"
  shows "pb_skipped urlsplit url t (snd (pb_note_failure urlsplit ec url e now st)) \<longleftrightarrow> t < now + w"
  using assms
  by (auto simp: counts_as_refusal_def pb_note_failure_def refusals_of_def pb_skipped_def dget_or_def
      Let_def fail_threshold_def split: option.splits)

text \<open>
  from the second consecutive refusal of a server on (and for the first 1025), its probes
  are skipped from that moment for a window of at least one and at most fifteen minutes, and for
  no longer; exactly one window is open at a time.
\<close>

theorem note_failure_opens_window:
  assumes "counts_as_refusal urlsplit ec url e"
    and "0 < refusals_of urlsplit url st" and "refusals_of urlsplit url st < 1025"
  shows "\<exists>w. fst (pb_note_failure urlsplit ec url e now st) = Inr True \<and> 60 \<le> w \<and> w \<le> 900
    \<and> (\<forall>t. pb_skipped urlsplit url t (snd (pb_note_failure urlsplit ec url e now st)) \<longleftrightarrow> t < now + w)"
proof -
  obtain n where n: "refusals_of urlsplit url st = Suc n" "n < 1024"
    using assms(2,3) by (cases "refusals_of urlsplit url st") auto
  then obtain w where w: "pb_window (n + 2) = Inr w"
    using probe_window.window_returns_iff by blast
  then have w': "pb_window (Suc (refusals_of urlsplit url st)) = Inr w" by (simp add: n)
  have "60 \<le> w" "w \<le> 900" using probe_window.window_bounds [OF w] by simp_all
  with note_failure_result [OF assms(1), of now st] note_failure_until [OF assms(1,2) w'] w' assms(2)
  show ?thesis by auto
qed

definition demo_urlsplit :: "string \<Rightarrow> urlparts option" where
  "demo_urlsplit u = Some \<lparr>up_scheme = ''http'', up_hostname = Some ''box'', up_port = Some 8080\<rparr>"

definition demo_refused :: pexc where
  "demo_refused = PExc [''ConnectionRefusedError'', ''OSError''] (Some 111) None ''refused'' NoExc NoExc NoExc"

lemma demo_counts: "counts_as_refusal demo_urlsplit 111 ''u'' demo_refused"
  by (simp add: counts_as_refusal_def demo_urlsplit_def demo_refused_def is_refused_def server_key_def Let_def
      py_lower_def)

lemma demo_once: "refusals_of demo_urlsplit ''u''
    (snd (pb_note_failure demo_urlsplit 111 ''u'' demo_refused 0 [])) = 1"
  by (simp add: note_failure_counts [OF demo_counts]) (simp add: refusals_of_def)

theorem note_failure_opens_window_witness:
  "\<exists>w. fst (pb_note_failure demo_urlsplit 111 ''u'' demo_refused 5
        (snd (pb_note_failure demo_urlsplit 111 ''u'' demo_refused 0 []))) = Inr True \<and> 60 \<le> w \<and> w \<le> 900
    \<and> (\<forall>t. pb_skipped demo_urlsplit ''u'' t (snd (pb_note_failure demo_urlsplit 111 ''u'' demo_refused 5
        (snd (pb_note_failure demo_urlsplit 111 ''u'' demo_refused 0 [])))) \<longleftrightarrow> t < 5 + w)"
  by (rule note_failure_opens_window [OF demo_counts]) (simp_all add: demo_once)

text \<open>A series of refused probes of one server.\<close>

definition pb_refuse_all ::
  "(string \<Rightarrow> urlparts option) \<Rightarrow> int \<Rightarrow> string \<Rightarrow> (pexc \<times> real) list \<Rightarrow> probe_state \<Rightarrow> probe_state" where
  "pb_refuse_all urlsplit ec url = fold (\<lambda>(e, now) st. snd (pb_note_failure urlsplit ec url e now st))"

lemma refuse_all_counts:
  "\<forall>p \<in> set es. counts_as_refusal urlsplit ec url (fst p) \<Longrightarrow>
   refusals_of urlsplit url (pb_refuse_all urlsplit ec url es st) = refusals_of urlsplit url st + length es"
  by (induction es arbitrary: st) (auto simp: pb_refuse_all_def note_failure_counts)

text \<open>
  the schedule does not end. After exactly 1025 consecutive refusals of a server the next
  one raises \<open>OverflowError\<close> out of \<open>note_failure\<close> (the probe that reported it fails), and it
  raises in no earlier call: \<open>2 ** over\<close> is turned into a float before the 900 second cap is
  applied.
\<close>

theorem note_failure_overflow_iff:
  assumes "\<forall>p \<in> set es. counts_as_refusal urlsplit ec url (fst p)" and "counts_as_refusal urlsplit ec url e"
  shows "fst (pb_note_failure urlsplit ec url e now (pb_refuse_all urlsplit ec url es [])) = Inl OverflowError
     \<longleftrightarrow> 1025 \<le> length es"
proof -
  let ?st = "pb_refuse_all urlsplit ec url es []"
  have n: "refusals_of urlsplit url ?st = length es"
    using refuse_all_counts [OF assms(1), of "[]"] by (simp add: refusals_of_def)
  show ?thesis
  proof (cases "length es")
    case 0
    with note_failure_result [OF assms(2), of now ?st] n show ?thesis by simp
  next
    case (Suc m)
    have "pb_window (Suc (length es)) = Inl OverflowError \<longleftrightarrow> 1024 \<le> m"
      using probe_window.window_raises [of m] probe_window.window_closed [of m] Suc
      by (cases "m < 1024") auto
    with note_failure_result [OF assms(2), of now ?st] n Suc show ?thesis
      by (auto simp: pb_window_def capped_pow2_def scale_pow2_def fail_threshold_def Let_def split: sum.splits)
  qed
qed

theorem note_failure_overflow_iff_witness:
  "fst (pb_note_failure demo_urlsplit 111 ''u'' demo_refused 7
     (pb_refuse_all demo_urlsplit 111 ''u'' (replicate 1025 (demo_refused, 0)) [])) = Inl OverflowError"
proof -
  have "\<forall>p \<in> set (replicate 1025 (demo_refused, 0 :: real)). counts_as_refusal demo_urlsplit 111 ''u'' (fst p)"
    by (simp add: demo_counts)
  from note_failure_overflow_iff [OF this demo_counts] show ?thesis by simp
qed

lemma note_success_forgets: "\<not> pb_skipped urlsplit url t (pb_note_success urlsplit url st)"
  by (auto simp: pb_skipped_def pb_note_success_def Let_def)

lemma note_success_other:
  "server_key urlsplit url' \<noteq> server_key urlsplit url \<Longrightarrow>
   pb_skipped urlsplit url' t (pb_note_success urlsplit url st) = pb_skipped urlsplit url' t st"
  by (auto simp: pb_skipped_def pb_note_success_def Let_def)

lemma pb_status_servers: "dwf st \<Longrightarrow> set (map ps_server (pb_status now st)) = set (dkeys st)"
  by (force simp: pb_status_def)

end
