(* ===== verification/Work_Lease.thy ===== *)
theory Work_Lease
  imports Backoff "HOL-Library.List_Lexorder" "HOL-Library.Char_ord"
begin

text \<open>
  Exclusive, fenced claims on background work, \<open>src/work_lease.py\<close>. The SQLite file is the record
  \<open>lease_db\<close> of its three tables, each keyed by scope; every mutation runs inside one
  \<open>BEGIN IMMEDIATE\<close> transaction, so an operation is one step from one committed state to the next
  and an exception leaves the state as it was. The clock and the random token are arguments.
  Watermark payloads are kept as the JSON text that is stored.
\<close>

record scope_row =
  sc_last_fence :: int
  sc_failures :: nat
  sc_retry_after :: real

record lease_row =
  lr_holder :: string
  lr_token :: string
  lr_fence :: int
  lr_acquired_at :: real
  lr_expires_at :: real

record watermark_row =
  wm_input_revision :: string
  wm_algorithm_version :: string
  wm_payload :: string
  wm_completed_at :: real
  wm_fence :: int

record lease_db =
  ldb_scopes :: "(string, scope_row) dict"
  ldb_leases :: "(string, lease_row) dict"
  ldb_watermarks :: "(string, watermark_row) dict"

definition empty_lease_db :: lease_db where
  "empty_lease_db = \<lparr>ldb_scopes = [], ldb_leases = [], ldb_watermarks = []\<rparr>"

record lease =
  l_scope :: string
  l_holder :: string
  l_token :: string
  l_fence :: int
  l_expires_at :: real

datatype denial = Held | Backoff

record lease_denied =
  ld_scope :: string
  ld_reason :: denial
  ld_until :: real
  ld_held_by :: string

definition denied_message :: "lease_denied \<Rightarrow> string" where
  "denied_message d =
     (if ld_reason d = Backoff then ld_scope d @ '' is backing off after a failed run''
      else ld_scope d @ '' is already being worked on by ''
           @ (if ld_held_by d = [] then ''another worker'' else ld_held_by d))"

definition new_scope_row :: scope_row where
  "new_scope_row = \<lparr>sc_last_fence = 0, sc_failures = 0, sc_retry_after = 0\<rparr>"

definition wl_acquire ::
  "string \<Rightarrow> string \<Rightarrow> real \<Rightarrow> real \<Rightarrow> string \<Rightarrow> lease_db \<Rightarrow> (pyerr + (lease_denied + lease)) \<times> lease_db" where
  "wl_acquire scope holder ttl now token db =
     (if scope = [] then (Inl ValueError, db)
      else
        let state = dget (ldb_scopes db) scope;
            last_fence = (case state of None \<Rightarrow> 0 | Some r \<Rightarrow> sc_last_fence r);
            retry_after = (case state of None \<Rightarrow> 0 | Some r \<Rightarrow> sc_retry_after r)
        in if now < retry_after
           then (Inr (Inl \<lparr>ld_scope = scope, ld_reason = Backoff, ld_until = retry_after, ld_held_by = []\<rparr>), db)
           else
             let current = dget (ldb_leases db) scope;
                 grant =
                   (let fence = last_fence + 1;
                        expires = now + max 1 ttl;
                        row = dget_or (ldb_scopes db) scope new_scope_row
                    in (Inr (Inr \<lparr>l_scope = scope, l_holder = holder, l_token = token, l_fence = fence,
                                  l_expires_at = expires\<rparr>),
                        db\<lparr>ldb_scopes := dset scope (row\<lparr>sc_last_fence := fence\<rparr>) (ldb_scopes db),
                           ldb_leases := dset scope \<lparr>lr_holder = holder, lr_token = token, lr_fence = fence,
                              lr_acquired_at = now, lr_expires_at = expires\<rparr> (ldb_leases db)\<rparr>))
             in case current of
                  Some c \<Rightarrow>
                    if now < lr_expires_at c
                    then (Inr (Inl \<lparr>ld_scope = scope, ld_reason = Held, ld_until = lr_expires_at c,
                                    ld_held_by = lr_holder c\<rparr>), db)
                    else grant
                | None \<Rightarrow> grant)"

text \<open>The row a lease still names: same scope, token and fence.\<close>

definition matching :: "lease \<Rightarrow> lease_db \<Rightarrow> lease_row option" where
  "matching l db =
     (case dget (ldb_leases db) (l_scope l) of
        None \<Rightarrow> None
      | Some r \<Rightarrow> if lr_token r = l_token l \<and> lr_fence r = l_fence l then Some r else None)"

definition wl_renew :: "lease \<Rightarrow> real \<Rightarrow> real \<Rightarrow> lease_db \<Rightarrow> bool \<times> lease_db" where
  "wl_renew l ttl now db =
     (case matching l db of
        None \<Rightarrow> (False, db)
      | Some r \<Rightarrow> (True, db\<lparr>ldb_leases :=
          dset (l_scope l) (r\<lparr>lr_expires_at := now + max 1 ttl\<rparr>) (ldb_leases db)\<rparr>))"

definition wl_is_current :: "lease \<Rightarrow> lease_db \<Rightarrow> bool" where
  "wl_is_current l db \<longleftrightarrow> matching l db \<noteq> None"

text \<open>
  \<open>commit_window\<close> holds the write lock of the store while \<open>body\<close> runs, so the publication sees
  the same committed state its check saw. \<open>body\<close> is told whether it may publish.
\<close>

definition wl_commit_window :: "lease \<Rightarrow> (bool \<Rightarrow> 'w \<Rightarrow> 'w) \<Rightarrow> 'w \<Rightarrow> lease_db \<Rightarrow> 'w \<times> lease_db" where
  "wl_commit_window l body world db = (body (matching l db \<noteq> None) world, db)"

definition backoff_delay :: "nat \<Rightarrow> pyerr + real" where
  "backoff_delay failures = capped_pow2 3600 30 (failures - 1)"

definition wl_release ::
  "lease \<Rightarrow> bool \<Rightarrow> string \<Rightarrow> string \<Rightarrow> string \<Rightarrow> real \<Rightarrow> bool \<Rightarrow> lease_db \<Rightarrow> (pyerr + bool) \<times> lease_db" where
  "wl_release l success input_revision algorithm_version payload now backoff db =
     (case matching l db of
        None \<Rightarrow> (Inr False, db)
      | Some _ \<Rightarrow>
          (let db1 = db\<lparr>ldb_leases := dpop (l_scope l) (ldb_leases db)\<rparr>
           in if success then
                (Inr True,
                 db1\<lparr>ldb_watermarks := dset (l_scope l)
                       \<lparr>wm_input_revision = input_revision, wm_algorithm_version = algorithm_version,
                        wm_payload = payload, wm_completed_at = now, wm_fence = l_fence l\<rparr> (ldb_watermarks db1),
                     ldb_scopes :=
                       (case dget (ldb_scopes db1) (l_scope l) of None \<Rightarrow> ldb_scopes db1
                        | Some r \<Rightarrow> dset (l_scope l) (r\<lparr>sc_failures := 0, sc_retry_after := 0\<rparr>) (ldb_scopes db1))\<rparr>)
              else if backoff then
                (let row = dget (ldb_scopes db1) (l_scope l);
                     failures = (case row of None \<Rightarrow> 0 | Some r \<Rightarrow> sc_failures r) + 1
                 in case backoff_delay failures of
                      Inl e \<Rightarrow> (Inl e, db)
                    | Inr delay \<Rightarrow>
                        (Inr True, db1\<lparr>ldb_scopes :=
                           (case row of None \<Rightarrow> ldb_scopes db1
                            | Some r \<Rightarrow> dset (l_scope l) (r\<lparr>sc_failures := failures,
                                         sc_retry_after := now + delay\<rparr>) (ldb_scopes db1))\<rparr>))
              else (Inr True, db1)))"

definition wl_watermark :: "string \<Rightarrow> lease_db \<Rightarrow> watermark_row option" where
  "wl_watermark scope db = dget (ldb_watermarks db) scope"

definition wl_is_unchanged :: "string \<Rightarrow> string \<Rightarrow> string \<Rightarrow> lease_db \<Rightarrow> bool" where
  "wl_is_unchanged scope input_revision algorithm_version db =
     (case wl_watermark scope db of None \<Rightarrow> False
      | Some m \<Rightarrow> wm_input_revision m = input_revision \<and> wm_algorithm_version m = algorithm_version)"

record lease_status =
  ls_scope :: string
  ls_last_fence :: int
  ls_failures :: nat
  ls_retry_after :: "real option"
  ls_backing_off :: bool
  ls_held_by :: "string option"
  ls_lease_expires_at :: "real option"
  ls_lease_expired :: bool
  ls_watermark :: "watermark_row option"

definition wl_status_row :: "real \<Rightarrow> lease_db \<Rightarrow> string \<times> scope_row \<Rightarrow> lease_status" where
  "wl_status_row now db = (\<lambda>(name, state).
     (let l = dget (ldb_leases db) name
      in \<lparr>ls_scope = name, ls_last_fence = sc_last_fence state, ls_failures = sc_failures state,
          ls_retry_after = (if sc_retry_after state = 0 then None else Some (sc_retry_after state)),
          ls_backing_off = now < sc_retry_after state,
          ls_held_by = map_option lr_holder l,
          ls_lease_expires_at = map_option lr_expires_at l,
          ls_lease_expired = (case l of None \<Rightarrow> False | Some r \<Rightarrow> lr_expires_at r \<le> now),
          ls_watermark = wl_watermark name db\<rparr>))"

definition wl_status :: "string option \<Rightarrow> real \<Rightarrow> lease_db \<Rightarrow> lease_status list" where
  "wl_status scope now db =
     map (wl_status_row now db)
       (sort_key fst (filter (\<lambda>p. case scope of None \<Rightarrow> True
            | Some s \<Rightarrow> s = [] \<or> fst p = s) (ldb_scopes db)))"

section \<open>Runs\<close>

datatype lease_op =
    OpAcquire string string real real string
  | OpRenew lease real real
  | OpRelease lease bool string string string real bool

fun lease_step :: "lease_op \<Rightarrow> lease_db \<Rightarrow> lease_db" where
  "lease_step (OpAcquire scope holder ttl now token) db = snd (wl_acquire scope holder ttl now token db)"
| "lease_step (OpRenew l ttl now) db = snd (wl_renew l ttl now db)"
| "lease_step (OpRelease l success inp alg payload now backoff) db =
     snd (wl_release l success inp alg payload now backoff db)"


section \<open>Invariant and growing fence\<close>

definition fence_of :: "lease_db \<Rightarrow> string \<Rightarrow> int" where
  "fence_of db scope = (case dget (ldb_scopes db) scope of None \<Rightarrow> 0 | Some r \<Rightarrow> sc_last_fence r)"

definition lease_inv :: "lease_db \<Rightarrow> bool" where
  "lease_inv db \<longleftrightarrow>
     (\<forall>scope r. dget (ldb_leases db) scope = Some r \<longrightarrow> lr_fence r \<le> fence_of db scope)
     \<and> (\<forall>scope m. dget (ldb_watermarks db) scope = Some m \<longrightarrow> wm_fence m \<le> fence_of db scope)"

lemma lease_inv_empty: "lease_inv empty_lease_db"
  by (simp add: lease_inv_def empty_lease_db_def)

lemma matching_SomeD:
  "matching l db = Some r \<Longrightarrow>
     dget (ldb_leases db) (l_scope l) = Some r \<and> lr_token r = l_token l \<and> lr_fence r = l_fence l"
  by (auto simp: matching_def split: option.splits if_splits)

text \<open>The four ways \<open>acquire\<close> can answer; a grant is the only one that changes the store.\<close>

lemma wl_acquire_cases:
  obtains (refused) r where "wl_acquire scope holder ttl now token db = (r, db)"
      "\<nexists>l. r = Inr (Inr l)"
  | (granted) "scope \<noteq> []"
      "\<forall>c. dget (ldb_leases db) scope = Some c \<longrightarrow> lr_expires_at c \<le> now"
      "wl_acquire scope holder ttl now token db =
        (Inr (Inr \<lparr>l_scope = scope, l_holder = holder, l_token = token,
                   l_fence = fence_of db scope + 1, l_expires_at = now + max 1 ttl\<rparr>),
         db\<lparr>ldb_scopes := dset scope
              ((dget_or (ldb_scopes db) scope new_scope_row)\<lparr>sc_last_fence := fence_of db scope + 1\<rparr>) (ldb_scopes db),
            ldb_leases := dset scope \<lparr>lr_holder = holder, lr_token = token, lr_fence = fence_of db scope + 1,
              lr_acquired_at = now, lr_expires_at = now + max 1 ttl\<rparr> (ldb_leases db)\<rparr>)"
  unfolding wl_acquire_def Let_def fence_of_def
  by (cases "scope = []"; cases "dget (ldb_leases db) scope"; force split: if_splits)

lemma fence_of_scopes_dset:
  "fence_of (db\<lparr>ldb_scopes := dset k row ks\<rparr>) scope =
     (if scope = k then sc_last_fence row else fence_of (db\<lparr>ldb_scopes := ks\<rparr>) scope)"
  by (simp add: fence_of_def)

lemma fence_of_frame [simp]:
  "fence_of (db\<lparr>ldb_leases := x\<rparr>) = fence_of db"
  "fence_of (db\<lparr>ldb_watermarks := y\<rparr>) = fence_of db"
  "fence_of (db\<lparr>ldb_scopes := z, ldb_leases := x\<rparr>) = fence_of (db\<lparr>ldb_scopes := z\<rparr>)"
  "fence_of (db\<lparr>ldb_scopes := z, ldb_leases := x, ldb_watermarks := y\<rparr>) = fence_of (db\<lparr>ldb_scopes := z\<rparr>)"
  by (auto simp: fence_of_def)

lemma fence_of_release [simp]: "fence_of (snd (wl_release l success inp alg payload now backoff db)) = fence_of db"
  by (rule ext) (auto simp: wl_release_def fence_of_def Let_def split: option.splits sum.splits)

lemma fence_of_renew [simp]: "fence_of (snd (wl_renew l ttl now db)) = fence_of db"
  by (auto simp: wl_renew_def split: option.splits)

lemma fence_of_acquire:
  "fence_of (snd (wl_acquire scope holder ttl now token db)) s =
     (case fst (wl_acquire scope holder ttl now token db) of
        Inr (Inr l) \<Rightarrow> if s = scope then fence_of db s + 1 else fence_of db s
      | _ \<Rightarrow> fence_of db s)"
  by (rule wl_acquire_cases [of scope holder ttl now token db])
     (auto simp: fence_of_scopes_dset split: sum.splits)

lemma fence_of_step_mono: "fence_of db \<le> fence_of (lease_step op db)"
  by (cases op) (auto simp: le_fun_def fence_of_acquire split: sum.splits)

lemma leases_release:
  "dget (ldb_leases (snd (wl_release l success inp alg payload now backoff db))) scope = Some r \<Longrightarrow>
   dget (ldb_leases db) scope = Some r"
  by (auto simp: wl_release_def Let_def split: option.splits sum.splits if_splits)

lemma leases_renew:
  "dget (ldb_leases (snd (wl_renew l ttl now db))) scope = Some r \<Longrightarrow>
   \<exists>r'. dget (ldb_leases db) scope = Some r' \<and> lr_fence r' = lr_fence r \<and> lr_token r' = lr_token r"
  by (auto simp: wl_renew_def dest!: matching_SomeD split: option.splits if_splits)

lemma leases_acquire:
  "dget (ldb_leases (snd (wl_acquire scope holder ttl now token db))) s = Some r \<Longrightarrow>
   dget (ldb_leases db) s = Some r \<or> (s = scope \<and> lr_fence r = fence_of db s + 1
     \<and> fence_of (snd (wl_acquire scope holder ttl now token db)) s = fence_of db s + 1)"
  by (rule wl_acquire_cases [of scope holder ttl now token db])
     (auto simp: fence_of_scopes_dset split: if_splits)

lemma watermarks_step:
  "dget (ldb_watermarks (lease_step op db)) scope = Some m \<Longrightarrow>
   dget (ldb_watermarks db) scope = Some m
   \<or> (\<exists>r. dget (ldb_leases db) scope = Some r \<and> wm_fence m = lr_fence r)"
proof (cases op)
  case (OpAcquire s holder ttl now token)
  assume "dget (ldb_watermarks (lease_step op db)) scope = Some m"
  with OpAcquire show ?thesis
    by (cases rule: wl_acquire_cases [of s holder ttl now token db]) auto
qed (auto simp: wl_renew_def wl_release_def Let_def dest!: matching_SomeD
     split: option.splits sum.splits if_splits)

lemma leases_step:
  assumes "dget (ldb_leases (lease_step op db)) scope = Some r"
  shows "(\<exists>r'. dget (ldb_leases db) scope = Some r' \<and> lr_fence r' = lr_fence r)
    \<or> (fence_of db scope < lr_fence r \<and> lr_fence r = fence_of (lease_step op db) scope)"
proof (cases op)
  case (OpAcquire s holder ttl now token)
  with assms leases_acquire [of s holder ttl now token db scope r] show ?thesis by auto
next
  case (OpRenew l ttl now)
  with assms leases_renew [of l ttl now db scope r] show ?thesis by auto
next
  case (OpRelease l success inp alg payload now backoff)
  with assms leases_release [of l success inp alg payload now backoff db scope r] show ?thesis by auto
qed

lemma fence_of_step_mono': "fence_of db scope \<le> fence_of (lease_step op db) scope"
  using fence_of_step_mono [of db op] by (simp add: le_fun_def)

lemma lease_step_inv:
  assumes inv: "lease_inv db"
  shows "lease_inv (lease_step op db)"
proof -
  have old: "lr_fence r \<le> fence_of (lease_step op db) scope" if "dget (ldb_leases db) scope = Some r" for scope r
    using that inv fence_of_step_mono' [of db scope op] by (force simp: lease_inv_def)
  have "lr_fence r \<le> fence_of (lease_step op db) scope"
    if "dget (ldb_leases (lease_step op db)) scope = Some r" for scope r
    using leases_step [OF that] old by force
  moreover have "wm_fence m \<le> fence_of (lease_step op db) scope"
    if m: "dget (ldb_watermarks (lease_step op db)) scope = Some m" for scope m
    using watermarks_step [OF m]
  proof
    assume "dget (ldb_watermarks db) scope = Some m"
    then have "wm_fence m \<le> fence_of db scope" using inv by (simp add: lease_inv_def)
    then show ?thesis using fence_of_step_mono' [of db scope op] by linarith
  qed (use old in auto)
  ultimately show ?thesis by (auto simp: lease_inv_def)
qed

interpretation lease_runs: measured_system lease_step lease_inv fence_of
  by unfold_locales (auto intro: lease_step_inv fence_of_step_mono)

text \<open>A lease that has been superseded: the scope has moved past its fence and no row names it.\<close>

definition superseded :: "lease \<Rightarrow> lease_db \<Rightarrow> bool" where
  "superseded l db \<longleftrightarrow> l_fence l < fence_of db (l_scope l)
     \<and> (\<forall>r. dget (ldb_leases db) (l_scope l) = Some r \<longrightarrow> l_fence l < lr_fence r)"

lemma superseded_step:
  assumes sup: "superseded l db"
  shows "superseded l (lease_step op db)"
proof -
  have "l_fence l < fence_of (lease_step op db) (l_scope l)"
    using sup fence_of_step_mono' [of db "l_scope l" op] by (simp add: superseded_def)
  moreover have "l_fence l < lr_fence r"
    if "dget (ldb_leases (lease_step op db)) (l_scope l) = Some r" for r
    using leases_step [OF that] sup by (force simp: superseded_def)
  ultimately show ?thesis by (auto simp: superseded_def)
qed

interpretation superseded_runs: op_system lease_step "superseded l" for l
  by unfold_locales (rule superseded_step)

lemma superseded_not_current: "superseded l db \<Longrightarrow> \<not> wl_is_current l db"
  by (force simp: superseded_def wl_is_current_def matching_def split: option.splits)

lemma acquire_supersedes:
  assumes "wl_acquire scope holder ttl now token db = (Inr (Inr new), db')"
    and "l_scope old = scope" and "l_fence old \<le> fence_of db scope"
  shows "superseded old db'"
  using assms
  by (cases rule: wl_acquire_cases [of scope holder ttl now token db])
     (auto simp: superseded_def fence_of_scopes_dset)


section \<open>The retry schedule\<close>

interpretation lease_backoff: capped_backoff "\<lambda>n. backoff_delay (n + 1)" 30 3600
proof -
  have "(\<lambda>n. backoff_delay (n + 1)) = capped_pow2 3600 30"
    by (simp add: backoff_delay_def fun_eq_iff)
  then show "capped_backoff (\<lambda>n. backoff_delay (n + 1)) 30 3600"
    using capped_backoff_capped_pow2 [of 30 3600] by simp
qed

section \<open>Properties\<close>

text \<open>
  C10: fencing. Once a scope has been granted again, a lease issued before (any lease whose
  fence the scope had already reached) is dead: after every later run of operations it is not
  current, \<open>commit_window\<close> tells its body not to publish, and its holder can neither renew nor
  release: both answer \<open>False\<close> and leave every row as it was, so the new holder's lease, the
  watermark and the back-off of the scope are out of its reach.
\<close>
theorem stale_lease_never_publishes:
  assumes "wl_acquire scope holder ttl now token db = (Inr (Inr new), db')"
    and "l_scope old = scope" and "l_fence old \<le> fence_of db scope"
    and "later = fold lease_step ops db'"
  shows "\<not> wl_is_current old later
    \<and> wl_commit_window old body world later = (body False world, later)
    \<and> wl_renew old ttl' now' later = (False, later)
    \<and> wl_release old success inp alg payload now' backoff later = (Inr False, later)"
proof -
  have "superseded old later"
    unfolding assms(4) using acquire_supersedes [OF assms(1-3)] by (rule superseded_runs.run_inv)
  then have "matching old later = None"
    using superseded_not_current by (simp add: wl_is_current_def)
  then show ?thesis by (simp add: wl_commit_window_def wl_is_current_def wl_renew_def wl_release_def)
qed

definition demo_db1 :: lease_db where
  "demo_db1 = snd (wl_acquire ''tidy'' ''a'' 10 0 ''t1'' empty_lease_db)"

definition demo_db2 :: lease_db where
  "demo_db2 = snd (wl_acquire ''tidy'' ''b'' 10 20 ''t2'' demo_db1)"

definition demo_stale :: lease where
  "demo_stale = \<lparr>l_scope = ''tidy'', l_holder = ''a'', l_token = ''t1'', l_fence = 1, l_expires_at = 10\<rparr>"

text \<open>The first holder was late: its lease was current until the second one was granted.\<close>

theorem stale_lease_never_publishes_witness:
  "wl_is_current demo_stale demo_db1 \<and> \<not> wl_is_current demo_stale demo_db2
   \<and> wl_commit_window demo_stale (\<lambda>ok w. if ok then w + 1 else w) (0::nat) demo_db2 = (0, demo_db2)
   \<and> wl_renew demo_stale 10 21 demo_db2 = (False, demo_db2)
   \<and> wl_release demo_stale True [] [] [] 21 False demo_db2 = (Inr False, demo_db2)"
proof -
  have acq: "wl_acquire ''tidy'' ''b'' 10 20 ''t2'' demo_db1
      = (Inr (Inr \<lparr>l_scope = ''tidy'', l_holder = ''b'', l_token = ''t2'', l_fence = 2, l_expires_at = 30\<rparr>), demo_db2)"
    by (simp add: demo_db2_def demo_db1_def wl_acquire_def empty_lease_db_def new_scope_row_def dget_or_def)
  have late: "l_scope demo_stale = ''tidy''" "l_fence demo_stale \<le> fence_of demo_db1 ''tidy''"
    by (simp_all add: demo_stale_def demo_db1_def wl_acquire_def empty_lease_db_def new_scope_row_def dget_or_def fence_of_def)
  have run: "demo_db2 = fold lease_step [] demo_db2" by simp
  have "wl_is_current demo_stale demo_db1"
    by (simp add: demo_stale_def demo_db1_def wl_is_current_def matching_def wl_acquire_def empty_lease_db_def)
  then show ?thesis
    using stale_lease_never_publishes [OF acq late run, of "\<lambda>ok w. if ok then w + 1 else w" "0::nat" 10 21 True "[]" "[]" "[]" False]
    by simp
qed

definition scope_free :: "string \<Rightarrow> real \<Rightarrow> lease_db \<Rightarrow> bool" where
  "scope_free scope now db \<longleftrightarrow>
     (case dget (ldb_scopes db) scope of None \<Rightarrow> 0 \<le> now | Some r \<Rightarrow> sc_retry_after r \<le> now)
     \<and> (case dget (ldb_leases db) scope of None \<Rightarrow> True | Some c \<Rightarrow> lr_expires_at c \<le> now)"

text \<open>
  exclusion. \<open>acquire\<close> grants exactly when the scope is not backing off and no unexpired
  lease of it is stored. A grant takes the next fence, runs past the present, and is the current
  lease of the scope; a refusal changes nothing and says when it is worth asking again.
\<close>

theorem acquire_grants_iff_free:
  assumes "scope \<noteq> []"
  shows "if scope_free scope now db
    then \<exists>l db'. wl_acquire scope holder ttl now token db = (Inr (Inr l), db') \<and> wl_is_current l db'
           \<and> l_fence l = fence_of db scope + 1 \<and> fence_of db' scope = l_fence l \<and> now + 1 \<le> l_expires_at l
    else \<exists>d. wl_acquire scope holder ttl now token db = (Inr (Inl d), db) \<and> now < ld_until d"
proof (cases "scope_free scope now db")
  case True
  show ?thesis
  proof (cases rule: wl_acquire_cases [of scope holder ttl now token db])
    case (refused r)
    with True assms show ?thesis
      by (auto simp: scope_free_def wl_acquire_def Let_def split: option.splits if_splits)
  next
    case granted
    with True show ?thesis
      by (simp add: wl_is_current_def matching_def fence_of_scopes_dset)
  qed
next
  case False
  with assms show ?thesis
    by (auto simp: scope_free_def wl_acquire_def Let_def not_le split: option.splits if_splits)
qed

theorem acquire_grants_iff_free_witness:
  "if scope_free ''tidy'' 5 demo_db1
    then \<exists>l db'. wl_acquire ''tidy'' ''b'' 10 5 ''t2'' demo_db1 = (Inr (Inr l), db') \<and> wl_is_current l db'
           \<and> l_fence l = fence_of demo_db1 ''tidy'' + 1 \<and> fence_of db' ''tidy'' = l_fence l \<and> 5 + 1 \<le> l_expires_at l
    else \<exists>d. wl_acquire ''tidy'' ''b'' 10 5 ''t2'' demo_db1 = (Inr (Inl d), demo_db1) \<and> 5 < ld_until d"
  by (rule acquire_grants_iff_free) simp

text \<open>
  releasing. A lease that is no longer current ends nothing and changes nothing. A current one
  is given up; after a failed run with back-off the scope refuses every holder until the delay
  (30 seconds to one hour, while fewer than 1024 failures preceded it) has passed.
\<close>

theorem release_backs_off:
  assumes "wl_is_current l db" and "dget (ldb_scopes db) (l_scope l) = Some sr" and "sc_failures sr < 1024"
  shows "\<exists>delay. 30 \<le> delay \<and> delay \<le> 3600
     \<and> fst (wl_release l False inp alg payload now True db) = Inr True
     \<and> \<not> wl_is_current l (snd (wl_release l False inp alg payload now True db))
     \<and> (\<forall>t < now + delay. \<forall>holder ttl token.
          fst (wl_acquire (l_scope l) holder ttl t token (snd (wl_release l False inp alg payload now True db)))
            = (if l_scope l = [] then Inl ValueError
               else Inr (Inl \<lparr>ld_scope = l_scope l, ld_reason = Backoff, ld_until = now + delay, ld_held_by = []\<rparr>)))"
proof -
  obtain delay where d: "backoff_delay (sc_failures sr + 1) = Inr delay"
    using lease_backoff.window_returns_iff assms(3) by blast
  have "30 \<le> delay" "delay \<le> 3600" using lease_backoff.window_bounds [OF d] by simp_all
  moreover have "wl_release l False inp alg payload now True db =
      (Inr True, db\<lparr>ldb_leases := dpop (l_scope l) (ldb_leases db),
         ldb_scopes := dset (l_scope l) (sr\<lparr>sc_failures := sc_failures sr + 1, sc_retry_after := now + delay\<rparr>) (ldb_scopes db)\<rparr>)"
    using assms d by (auto simp: wl_release_def wl_is_current_def Let_def split: option.splits)
  ultimately show ?thesis
    by (intro exI [of _ delay]) (simp add: wl_is_current_def matching_def wl_acquire_def Let_def)
qed

lemma release_stale: "\<not> wl_is_current l db \<Longrightarrow> wl_release l success inp alg payload now backoff db = (Inr False, db)"
  by (simp add: wl_is_current_def wl_release_def)

theorem release_backs_off_witness:
  "\<exists>delay::real. 30 \<le> delay \<and> delay \<le> 3600
     \<and> fst (wl_release \<lparr>l_scope = ''tidy'', l_holder = ''a'', l_token = ''t1'', l_fence = 1, l_expires_at = 10\<rparr>
              False [] [] [] 3 True demo_db1) = Inr True"
proof -
  let ?l = "\<lparr>l_scope = ''tidy'', l_holder = ''a'', l_token = ''t1'', l_fence = 1, l_expires_at = 10\<rparr>"
  have 1: "wl_is_current ?l demo_db1"
    and 2: "dget (ldb_scopes demo_db1) (l_scope ?l) = Some \<lparr>sc_last_fence = 1, sc_failures = 0, sc_retry_after = 0\<rparr>"
    by (simp_all add: demo_db1_def wl_acquire_def empty_lease_db_def new_scope_row_def dget_or_def
        wl_is_current_def matching_def)
  from release_backs_off [OF 1 2, of "[]" "[]" "[]" 3] show ?thesis by auto
qed

text \<open>
  after 1024 failed runs in a row, recording the next failure raises \<open>OverflowError\<close>, the
  transaction is rolled back, and the lease stays held until it expires.
\<close>

theorem release_overflow:
  assumes "wl_is_current l db" and "dget (ldb_scopes db) (l_scope l) = Some sr" and "1024 \<le> sc_failures sr"
  shows "wl_release l False inp alg payload now True db = (Inl OverflowError, db)
     \<and> wl_is_current l (snd (wl_release l False inp alg payload now True db))"
proof -
  have "backoff_delay (sc_failures sr + 1) = Inl OverflowError"
    using lease_backoff.window_raises assms(3) by blast
  then have "wl_release l False inp alg payload now True db = (Inl OverflowError, db)"
    using assms by (auto simp: wl_release_def wl_is_current_def Let_def split: option.splits)
  with assms show ?thesis by simp
qed

theorem release_overflow_witness:
  "wl_release \<lparr>l_scope = ''s'', l_holder = ''a'', l_token = ''t'', l_fence = 1025, l_expires_at = 10\<rparr>
      False [] [] [] 3 True
      \<lparr>ldb_scopes = [(''s'', \<lparr>sc_last_fence = 1025, sc_failures = 1024, sc_retry_after = 0\<rparr>)],
       ldb_leases = [(''s'', \<lparr>lr_holder = ''a'', lr_token = ''t'', lr_fence = 1025, lr_acquired_at = 0, lr_expires_at = 10\<rparr>)],
       ldb_watermarks = []\<rparr>
   = (Inl OverflowError,
      \<lparr>ldb_scopes = [(''s'', \<lparr>sc_last_fence = 1025, sc_failures = 1024, sc_retry_after = 0\<rparr>)],
       ldb_leases = [(''s'', \<lparr>lr_holder = ''a'', lr_token = ''t'', lr_fence = 1025, lr_acquired_at = 0, lr_expires_at = 10\<rparr>)],
       ldb_watermarks = []\<rparr>)"
  by (rule conjunct1, rule release_overflow
        [where sr = "\<lparr>sc_last_fence = 1025, sc_failures = 1024, sc_retry_after = 0\<rparr>"])
     (simp_all add: wl_is_current_def matching_def)

text \<open>
  A job whose input did not change: after a successful release the watermark answers
  \<open>is_unchanged\<close> for exactly the released revision and algorithm.
\<close>

lemma success_marks:
  assumes "wl_is_current l db"
  shows "wl_is_unchanged (l_scope l) r a (snd (wl_release l True inp alg payload now backoff db)) \<longleftrightarrow> r = inp \<and> a = alg"
  using assms by (auto simp: wl_is_current_def wl_release_def wl_is_unchanged_def wl_watermark_def Let_def split: option.splits)

end
