(* ===== verification/Budget_Account.thy ===== *)
theory Budget_Account
  imports Prelude
begin

text \<open>
  The token ledger of delegated work, \<open>src/budget_account.py\<close>: a run has a ceiling, a child is
  launched against a reservation, and its real usage is reconciled afterwards. The SQLite file
  (current schema, version 2) is the record \<open>budget_db\<close>: \<open>runs\<close> keyed by run id and
  \<open>reservations\<close> in id order with the next AUTOINCREMENT id. Each operation is one
  \<open>BEGIN IMMEDIATE\<close> transaction; \<open>now\<close> is the clock it reads. Token counts have already been
  through \<open>int()\<close>.
\<close>

record run_row =
  run_project_id :: string
  run_ceiling_tokens :: int
  run_ceiling_cost :: "real option"
  run_created_at :: real
  run_updated_at :: real

datatype res_status = Reserved | Reconciled | Released

record res_row =
  rr_id :: nat
  rr_run_id :: string
  rr_child_id :: string
  rr_status :: res_status
  rr_reserved_tokens :: int
  rr_reserved_cost :: "real option"
  rr_consumed_tokens :: int
  rr_consumed_cost :: "real option"
  rr_unpriced :: bool
  rr_created_at :: real
  rr_updated_at :: real
  rr_purpose :: string
  rr_usage_unknown :: bool
  rr_attempts :: int

record budget_db =
  bdb_runs :: "(string, run_row) dict"
  bdb_rows :: "res_row list"
  bdb_next_id :: nat

definition empty_budget_db :: budget_db where
  "empty_budget_db = \<lparr>bdb_runs = [], bdb_rows = [], bdb_next_id = 1\<rparr>"

record reservation =
  rs_reservation_id :: nat
  rs_run_id :: string
  rs_child_id :: string
  rs_reserved_tokens :: int
  rs_reserved_cost :: "real option"

record budget_exceeded =
  be_run_id :: string
  be_child_id :: string
  be_requested_tokens :: int
  be_ceiling_tokens :: int
  be_outstanding_tokens :: int
  be_available_tokens :: int

definition ba_open ::
  "string \<Rightarrow> int \<Rightarrow> real option \<Rightarrow> string \<Rightarrow> real \<Rightarrow> budget_db \<Rightarrow> (pyerr + unit) \<times> budget_db" where
  "ba_open run_id ceiling_tokens ceiling_cost project_id now db =
     (if run_id = [] then (Inl ValueError, db)
      else (Inr (), db\<lparr>bdb_runs := dsetdefault run_id
             \<lparr>run_project_id = project_id, run_ceiling_tokens = ceiling_tokens, run_ceiling_cost = ceiling_cost,
              run_created_at = now, run_updated_at = now\<rparr> (bdb_runs db)\<rparr>))"

definition rows_of :: "string \<Rightarrow> res_status \<Rightarrow> budget_db \<Rightarrow> res_row list" where
  "rows_of run_id st db = filter (\<lambda>r. rr_run_id r = run_id \<and> rr_status r = st) (bdb_rows db)"

definition outstanding_tokens :: "string \<Rightarrow> budget_db \<Rightarrow> int" where
  "outstanding_tokens run_id db =
     sum_list (map rr_reserved_tokens (rows_of run_id Reserved db))
     + sum_list (map rr_consumed_tokens (rows_of run_id Reconciled db))"

definition implicit_run :: "real \<Rightarrow> run_row" where
  "implicit_run now = \<lparr>run_project_id = [], run_ceiling_tokens = 0, run_ceiling_cost = None,
     run_created_at = now, run_updated_at = now\<rparr>"

definition touch_run :: "string \<Rightarrow> real \<Rightarrow> (string, run_row) dict \<Rightarrow> (string, run_row) dict" where
  "touch_run run_id now runs =
     dset run_id ((dget_or runs run_id (implicit_run now))\<lparr>run_updated_at := now\<rparr>) runs"

definition ba_reserve ::
  "string \<Rightarrow> string \<Rightarrow> int \<Rightarrow> real option \<Rightarrow> string \<Rightarrow> real \<Rightarrow> budget_db
     \<Rightarrow> (pyerr + (budget_exceeded + reservation)) \<times> budget_db" where
  "ba_reserve run_id child_id tokens0 cost purpose now db =
     (if run_id = [] then (Inl ValueError, db)
      else if child_id = [] then (Inl ValueError, db)
      else
        let tokens = max 0 tokens0;
            ceiling_tokens = (case dget (bdb_runs db) run_id of None \<Rightarrow> 0 | Some r \<Rightarrow> run_ceiling_tokens r);
            outstanding = outstanding_tokens run_id db;
            available = ceiling_tokens - outstanding
        in if 0 < ceiling_tokens \<and> max 0 available < tokens
           then (Inr (Inl \<lparr>be_run_id = run_id, be_child_id = child_id, be_requested_tokens = tokens,
                   be_ceiling_tokens = ceiling_tokens, be_outstanding_tokens = outstanding,
                   be_available_tokens = available\<rparr>), db)
           else
             let rid = bdb_next_id db
             in (Inr (Inr \<lparr>rs_reservation_id = rid, rs_run_id = run_id, rs_child_id = child_id,
                       rs_reserved_tokens = tokens, rs_reserved_cost = cost\<rparr>),
                 \<lparr>bdb_runs = touch_run run_id now (bdb_runs db),
                  bdb_rows = bdb_rows db @
                    [\<lparr>rr_id = rid, rr_run_id = run_id, rr_child_id = child_id, rr_status = Reserved,
                      rr_reserved_tokens = tokens, rr_reserved_cost = cost, rr_consumed_tokens = 0,
                      rr_consumed_cost = None, rr_unpriced = False, rr_created_at = now, rr_updated_at = now,
                      rr_purpose = purpose, rr_usage_unknown = False, rr_attempts = 1\<rparr>],
                  bdb_next_id = rid + 1\<rparr>))"

record reconciled =
  rc_reservation_id :: nat
  rc_run_id :: string
  rc_child_id :: string
  rc_consumed_tokens :: int
  rc_consumed_cost :: "real option"
  rc_unpriced :: bool
  rc_usage_unknown :: bool
  rc_attempts :: int

text \<open>The newest open reservation of a child (\<open>ORDER BY id DESC LIMIT 1\<close>).\<close>

definition is_open_row :: "string \<Rightarrow> string \<Rightarrow> res_row \<Rightarrow> bool" where
  "is_open_row run_id child_id r \<longleftrightarrow>
     rr_run_id r = run_id \<and> rr_child_id r = child_id \<and> rr_status r = Reserved"

definition newest_open :: "string \<Rightarrow> string \<Rightarrow> budget_db \<Rightarrow> res_row option" where
  "newest_open run_id child_id db = find (is_open_row run_id child_id) (rev (bdb_rows db))"

definition ba_reconcile ::
  "string \<Rightarrow> string \<Rightarrow> int \<Rightarrow> real option \<Rightarrow> string \<Rightarrow> bool \<Rightarrow> int \<Rightarrow> real \<Rightarrow> budget_db
     \<Rightarrow> (pyerr + reconciled) \<times> budget_db" where
  "ba_reconcile run_id child_id used_tokens0 used_cost purpose usage_unknown attempts0 now db =
     (if run_id = [] then (Inl ValueError, db)
      else if child_id = [] then (Inl ValueError, db)
      else
        let used_tokens = max 0 used_tokens0;
            unpriced = (used_cost = None \<and> \<not> usage_unknown);
            attempts = max 1 (if attempts0 = 0 then 1 else attempts0);
            (rid, db1) =
              (case newest_open run_id child_id db of
                 Some row \<Rightarrow>
                   (rr_id row,
                    db\<lparr>bdb_rows := map (\<lambda>r. if rr_id r = rr_id row
                         then r\<lparr>rr_status := Reconciled, rr_consumed_tokens := used_tokens,
                                rr_consumed_cost := used_cost, rr_unpriced := unpriced, rr_updated_at := now,
                                rr_usage_unknown := usage_unknown, rr_attempts := attempts,
                                rr_purpose := (if purpose \<noteq> [] then purpose else rr_purpose r)\<rparr>
                         else r) (bdb_rows db)\<rparr>)
               | None \<Rightarrow>
                   (bdb_next_id db,
                    db\<lparr>bdb_rows := bdb_rows db @
                         [\<lparr>rr_id = bdb_next_id db, rr_run_id = run_id, rr_child_id = child_id,
                           rr_status = Reconciled, rr_reserved_tokens = used_tokens, rr_reserved_cost = None,
                           rr_consumed_tokens = used_tokens, rr_consumed_cost = used_cost, rr_unpriced = unpriced,
                           rr_created_at = now, rr_updated_at = now, rr_purpose = purpose,
                           rr_usage_unknown = usage_unknown, rr_attempts = attempts\<rparr>],
                       bdb_next_id := bdb_next_id db + 1\<rparr>))
        in (Inr \<lparr>rc_reservation_id = rid, rc_run_id = run_id, rc_child_id = child_id,
                 rc_consumed_tokens = used_tokens, rc_consumed_cost = used_cost, rc_unpriced = unpriced,
                 rc_usage_unknown = usage_unknown, rc_attempts = attempts\<rparr>,
            db1\<lparr>bdb_runs := touch_run run_id now (bdb_runs db1)\<rparr>))"

definition ba_release :: "string \<Rightarrow> string \<Rightarrow> real \<Rightarrow> budget_db \<Rightarrow> bool \<times> budget_db" where
  "ba_release run_id child_id now db =
     (if run_id = [] \<or> child_id = [] then (False, db)
      else (list_ex (is_open_row run_id child_id) (bdb_rows db),
            db\<lparr>bdb_rows := map (\<lambda>r. if is_open_row run_id child_id r
                 then r\<lparr>rr_status := Released, rr_reserved_tokens := 0, rr_updated_at := now\<rparr> else r)
               (bdb_rows db)\<rparr>))"

section \<open>Snapshot\<close>

datatype cost = Unknown | Known real

record purpose_entry =
  pe_calls :: nat
  pe_attempts :: int
  pe_consumed_tokens :: int
  pe_known_cost :: real
  pe_unpriced_calls :: nat
  pe_unknown_usage_calls :: nat

definition zero_entry :: purpose_entry where
  "zero_entry = \<lparr>pe_calls = 0, pe_attempts = 0, pe_consumed_tokens = 0, pe_known_cost = 0,
     pe_unpriced_calls = 0, pe_unknown_usage_calls = 0\<rparr>"

definition purpose_label :: "res_row \<Rightarrow> string" where
  "purpose_label r = (if rr_purpose r = [] then ''unlabelled'' else rr_purpose r)"

definition or_one :: "int \<Rightarrow> int" where "or_one n = (if n = 0 then 1 else n)"

definition book_purpose :: "res_row \<Rightarrow> (string, purpose_entry) dict \<Rightarrow> (string, purpose_entry) dict" where
  "book_purpose r ps =
     (let e = dget_or ps (purpose_label r) zero_entry
      in dset (purpose_label r)
           (e\<lparr>pe_calls := pe_calls e + 1, pe_attempts := pe_attempts e + or_one (rr_attempts r),
              pe_consumed_tokens := pe_consumed_tokens e + rr_consumed_tokens r,
              pe_known_cost := pe_known_cost e + (case rr_consumed_cost r of None \<Rightarrow> 0 | Some c \<Rightarrow> c),
              pe_unknown_usage_calls := pe_unknown_usage_calls e + (if rr_usage_unknown r then 1 else 0),
              pe_unpriced_calls := pe_unpriced_calls e
                 + (if \<not> rr_usage_unknown r \<and> rr_unpriced r then 1 else 0)\<rparr>) ps)"

definition entry_cost :: "purpose_entry \<Rightarrow> cost" where
  "entry_cost e = (if pe_unpriced_calls e \<noteq> 0 \<or> pe_unknown_usage_calls e \<noteq> 0 then Unknown
                   else Known (pe_known_cost e))"

record budget_snapshot =
  bs_opened :: bool
  bs_ceiling_tokens :: int
  bs_ceiling_cost :: "real option"
  bs_reserved_tokens :: int
  bs_consumed_tokens :: int
  bs_consumed_cost :: cost
  bs_unpriced_usage_tokens :: int
  bs_unknown_usage_calls :: nat
  bs_purposes :: "(string, purpose_entry) dict"
  bs_remaining_tokens :: "int option"
  bs_children :: "res_row list"

definition ba_snapshot :: "string \<Rightarrow> budget_db \<Rightarrow> budget_snapshot" where
  "ba_snapshot run_id db =
     (let run_row = dget (bdb_runs db) run_id;
          rows = filter (\<lambda>r. rr_run_id r = run_id) (bdb_rows db);
          ceiling_tokens = (case run_row of None \<Rightarrow> 0 | Some r \<Rightarrow> run_ceiling_tokens r);
          reserved = sum_list (map rr_reserved_tokens (filter (\<lambda>r. rr_status r = Reserved) rows));
          done_rows = filter (\<lambda>r. rr_status r = Reconciled) rows;
          consumed = sum_list (map rr_consumed_tokens done_rows);
          unpriced = sum_list (map rr_consumed_tokens (filter rr_unpriced done_rows));
          known = sum_list (map (\<lambda>r. case rr_consumed_cost r of None \<Rightarrow> 0 | Some c \<Rightarrow> c) done_rows);
          unknown_calls = length (filter rr_usage_unknown done_rows);
          has_unpriced = (0 < unpriced \<or> 0 < unknown_calls);
          outstanding = reserved + consumed
      in \<lparr>bs_opened = (run_row \<noteq> None), bs_ceiling_tokens = ceiling_tokens,
          bs_ceiling_cost = (case run_row of None \<Rightarrow> None | Some r \<Rightarrow> run_ceiling_cost r),
          bs_reserved_tokens = reserved, bs_consumed_tokens = consumed,
          bs_consumed_cost = (if has_unpriced then Unknown else Known known),
          bs_unpriced_usage_tokens = unpriced, bs_unknown_usage_calls = unknown_calls,
          bs_purposes = fold book_purpose done_rows [],
          bs_remaining_tokens = (if 0 < ceiling_tokens then Some (ceiling_tokens - outstanding) else None),
          bs_children = rows\<rparr>)"

section \<open>Runs\<close>

datatype budget_op =
    BOpen string int "real option" string real
  | BReserve string string int "real option" string real
  | BReconcile string string int "real option" string bool int real
  | BRelease string string real

fun budget_step :: "budget_op \<Rightarrow> budget_db \<Rightarrow> budget_db" where
  "budget_step (BOpen r c cc p now) db = snd (ba_open r c cc p now db)"
| "budget_step (BReserve r ch t co p now) db = snd (ba_reserve r ch t co p now db)"
| "budget_step (BReconcile r ch t co p u a now) db = snd (ba_reconcile r ch t co p u a now db)"
| "budget_step (BRelease r ch now) db = snd (ba_release r ch now db)"


section \<open>Invariant\<close>

definition row_ok :: "res_row \<Rightarrow> bool" where
  "row_ok r \<longleftrightarrow> 0 \<le> rr_reserved_tokens r \<and> 0 \<le> rr_consumed_tokens r
     \<and> (rr_status r = Reserved \<longrightarrow> rr_consumed_tokens r = 0)
     \<and> (rr_status r = Released \<longrightarrow> rr_reserved_tokens r = 0 \<and> rr_consumed_tokens r = 0)"

definition budget_inv :: "budget_db \<Rightarrow> bool" where
  "budget_inv db \<longleftrightarrow> distinct (map rr_id (bdb_rows db)) \<and> (\<forall>r \<in> set (bdb_rows db). rr_id r < bdb_next_id db \<and> row_ok r)"

text \<open>What one row weighs against the ceiling of a run.\<close>

definition weight :: "string \<Rightarrow> res_row \<Rightarrow> int" where
  "weight run_id r =
     (if rr_run_id r \<noteq> run_id then 0
      else case rr_status r of Reserved \<Rightarrow> rr_reserved_tokens r | Reconciled \<Rightarrow> rr_consumed_tokens r | Released \<Rightarrow> 0)"

lemma outstanding_eq_weight: "outstanding_tokens run_id db = sum_list (map (weight run_id) (bdb_rows db))"
proof -
  have "sum_list (map rr_reserved_tokens (filter (\<lambda>r. rr_run_id r = run_id \<and> rr_status r = Reserved) rs))
      + sum_list (map rr_consumed_tokens (filter (\<lambda>r. rr_run_id r = run_id \<and> rr_status r = Reconciled) rs))
      = sum_list (map (weight run_id) rs)" for rs
    by (induction rs) (auto simp: weight_def split: res_status.splits)
  then show ?thesis by (simp add: outstanding_tokens_def rows_of_def)
qed

lemma newest_open_SomeD:
  "newest_open run_id child_id db = Some row \<Longrightarrow> row \<in> set (bdb_rows db) \<and> is_open_row run_id child_id row"
  by (auto simp: newest_open_def dest: find_rev_SomeD)

lemma budget_inv_append:
  assumes "budget_inv db" and "row_ok r" and "rr_id r = bdb_next_id db"
    and "bdb_rows db' = bdb_rows db @ [r]" and "bdb_next_id db' = bdb_next_id db + 1"
  shows "budget_inv db'"
  using assms by (fastforce simp: budget_inv_def)

lemma ba_reserve_inv: "budget_inv db \<Longrightarrow> budget_inv (snd (ba_reserve r ch t co p now db))"
  by (auto simp: ba_reserve_def Let_def row_ok_def intro!: budget_inv_append [of db])

lemma ba_reconcile_inv:
  assumes "budget_inv db"
  shows "budget_inv (snd (ba_reconcile r ch t co p u a now db))"
proof (cases "newest_open r ch db")
  case None
  with assms show ?thesis
    by (auto simp: ba_reconcile_def Let_def row_ok_def intro!: budget_inv_append [of db])
next
  case (Some row)
  with assms show ?thesis
    by (auto simp: ba_reconcile_def Let_def budget_inv_def row_ok_def o_def if_distrib [of rr_id] cong: if_cong)
qed

lemma ba_release_inv: "budget_inv db \<Longrightarrow> budget_inv (snd (ba_release r ch now db))"
  by (auto simp: ba_release_def row_ok_def is_open_row_def budget_inv_def o_def if_distrib [of rr_id] cong: if_cong)

lemma ba_open_inv: "budget_inv db \<Longrightarrow> budget_inv (snd (ba_open r c cc p now db))"
  by (simp add: ba_open_def budget_inv_def)

lemma budget_step_inv: "budget_inv db \<Longrightarrow> budget_inv (budget_step op db)"
  by (cases op) (auto simp: ba_open_inv ba_reserve_inv ba_reconcile_inv ba_release_inv)

interpretation budget_runs: op_system budget_step budget_inv
  by unfold_locales (rule budget_step_inv)

lemma budget_inv_empty: "budget_inv empty_budget_db"
  by (simp add: budget_inv_def empty_budget_db_def)

section \<open>What each operation does to the outstanding total\<close>

lemma outstanding_reserve:
  "outstanding_tokens run_id (snd (ba_reserve r ch t co p now db)) =
     (case fst (ba_reserve r ch t co p now db) of
        Inr (Inr res) \<Rightarrow> outstanding_tokens run_id db + (if r = run_id then rs_reserved_tokens res else 0)
      | _ \<Rightarrow> outstanding_tokens run_id db)"
  by (auto simp: ba_reserve_def outstanding_eq_weight Let_def weight_def)

lemma outstanding_reconcile:
  assumes "budget_inv db" and "r \<noteq> []" and "ch \<noteq> []"
  shows "outstanding_tokens run_id (snd (ba_reconcile r ch t co p u a now db)) =
     outstanding_tokens run_id db
     + (if r = run_id then max 0 t - (case newest_open r ch db of None \<Rightarrow> 0 | Some row \<Rightarrow> rr_reserved_tokens row) else 0)"
proof (cases "newest_open r ch db")
  case None
  with assms show ?thesis by (auto simp: ba_reconcile_def outstanding_eq_weight Let_def weight_def)
next
  case (Some row)
  have row: "row \<in> set (bdb_rows db)" "is_open_row r ch row"
    using newest_open_SomeD [OF Some] by auto
  have d: "distinct (map rr_id (bdb_rows db))" using assms(1) by (simp add: budget_inv_def)
  show ?thesis
    using assms(2,3) Some row(2) sum_list_map_update [OF d row(1), of "weight run_id"]
    by (auto simp: ba_reconcile_def outstanding_eq_weight Let_def weight_def is_open_row_def simp del: map_map)
qed

lemma outstanding_release:
  assumes "budget_inv db"
  shows "outstanding_tokens run_id (snd (ba_release r ch now db)) \<le> outstanding_tokens run_id db"
proof -
  have "weight run_id (if is_open_row r ch x then x\<lparr>rr_status := Released, rr_reserved_tokens := 0, rr_updated_at := now\<rparr> else x)
      \<le> weight run_id x" if "x \<in> set (bdb_rows db)" for x
    using assms that by (auto simp: budget_inv_def row_ok_def weight_def is_open_row_def split: res_status.splits)
  then show ?thesis
    by (auto simp: ba_release_def outstanding_eq_weight intro!: sum_list_mono)
qed

lemma outstanding_open [simp]: "outstanding_tokens run_id (snd (ba_open r c cc p now db)) = outstanding_tokens run_id db"
  by (simp add: ba_open_def outstanding_eq_weight)

definition ceiling_of :: "string \<Rightarrow> budget_db \<Rightarrow> int" where
  "ceiling_of run_id db = (case dget (bdb_runs db) run_id of None \<Rightarrow> 0 | Some r \<Rightarrow> run_ceiling_tokens r)"

lemma ceiling_touch: "(case dget (touch_run r now runs) run_id of None \<Rightarrow> 0 | Some x \<Rightarrow> run_ceiling_tokens x)
    = (case dget runs run_id of None \<Rightarrow> 0 | Some x \<Rightarrow> run_ceiling_tokens x)"
  by (cases "dget runs r") (auto simp: touch_run_def dget_or_def implicit_run_def split: option.splits)

lemma ceiling_kept:
  "ceiling_of run_id (snd (ba_reserve r ch t co p now db)) = ceiling_of run_id db"
  "ceiling_of run_id (snd (ba_reconcile r ch t co p u a now db)) = ceiling_of run_id db"
  "ceiling_of run_id (snd (ba_release r ch now db)) = ceiling_of run_id db"
  by (auto simp: ceiling_of_def ba_reserve_def ba_reconcile_def ba_release_def Let_def ceiling_touch
      split: prod.splits) (auto split: option.splits)


definition fits :: "string \<Rightarrow> int \<Rightarrow> budget_db \<Rightarrow> bool" where
  "fits run t db \<longleftrightarrow> ceiling_of run db \<le> 0 \<or> max 0 t \<le> max 0 (ceiling_of run db - outstanding_tokens run db)"

lemma reserve_granted:
  assumes "run \<noteq> []" and "child \<noteq> []" and "fits run t db"
  shows "\<exists>res db'. ba_reserve run child t co p now db = (Inr (Inr res), db') \<and> rs_reserved_tokens res = max 0 t"
proof -
  have "\<not> (0 < ceiling_of run db \<and> max 0 (ceiling_of run db - outstanding_tokens run db) < max 0 t)"
    using assms(3) by (auto simp: fits_def)
  from this [unfolded ceiling_of_def] assms(1,2) show ?thesis
    unfolding ba_reserve_def Let_def by (simp only: if_False simp_thms) simp
qed

lemma reserve_refused:
  assumes "run \<noteq> []" and "child \<noteq> []" and "\<not> fits run t db"
  shows "\<exists>ex. ba_reserve run child t co p now db = (Inr (Inl ex), db)
    \<and> be_available_tokens ex = ceiling_of run db - outstanding_tokens run db"
proof -
  have "0 < ceiling_of run db \<and> max 0 (ceiling_of run db - outstanding_tokens run db) < max 0 t"
    using assms(3) by (auto simp: fits_def)
  from this [unfolded ceiling_of_def] assms(1,2) show ?thesis
    unfolding ba_reserve_def Let_def ceiling_of_def by (simp only: if_True if_False simp_thms) simp
qed

section \<open>Properties\<close>

text \<open>
  a reservation is decided by the ceiling. It is granted exactly when it fits what the open
  reservations and the reconciled usage leave; then the outstanding total grows by exactly the
  reserved tokens and a positive reservation keeps it within the ceiling. A refusal carries the
  numbers it was decided on and leaves the store as it was.
\<close>

theorem reserve_respects_ceiling:
  assumes "run \<noteq> []" and "child \<noteq> []" and "0 < ceiling_of run db"
  shows "if max 0 t \<le> max 0 (ceiling_of run db - outstanding_tokens run db)
    then \<exists>res db'. ba_reserve run child t co p now db = (Inr (Inr res), db') \<and> rs_reserved_tokens res = max 0 t
           \<and> outstanding_tokens run db' = outstanding_tokens run db + max 0 t
           \<and> (0 < t \<longrightarrow> outstanding_tokens run db' \<le> ceiling_of run db)
    else \<exists>ex. ba_reserve run child t co p now db = (Inr (Inl ex), db)
           \<and> be_available_tokens ex = ceiling_of run db - outstanding_tokens run db"
proof (cases "fits run t db")
  case True
  then obtain res db' where r: "ba_reserve run child t co p now db = (Inr (Inr res), db')"
      "rs_reserved_tokens res = max 0 t"
    using reserve_granted [OF assms(1,2)] by blast
  have le: "max 0 t \<le> max 0 (ceiling_of run db - outstanding_tokens run db)"
    using True assms(3) by (simp add: fits_def)
  have "outstanding_tokens run db' = outstanding_tokens run db + max 0 t"
    using outstanding_reserve [of run run child t co p now db] r by simp
  with r le show ?thesis by auto
next
  case False
  then show ?thesis using reserve_refused [OF assms(1,2)] by (auto simp: fits_def)
qed

definition demo_budget :: budget_db where
  "demo_budget = snd (ba_open ''run'' 100 None [] 0 empty_budget_db)"

lemma demo_budget_facts:
  "budget_inv demo_budget" "ceiling_of ''run'' demo_budget = 100" "outstanding_tokens ''run'' demo_budget = 0"
  by (simp_all add: demo_budget_def ba_open_def empty_budget_db_def budget_inv_def ceiling_of_def
      dsetdefault_def outstanding_tokens_def rows_of_def)

theorem reserve_respects_ceiling_witness:
  "\<exists>ex. ba_reserve ''run'' ''kid'' 120 None [] 1 demo_budget = (Inr (Inl ex), demo_budget) \<and> be_available_tokens ex = 100"
  using reserve_respects_ceiling [of "''run''" "''kid''" demo_budget 120 None "[]" 1]
  by (simp add: demo_budget_facts)

text \<open>
  Children that report no more than they had reserved: every reconciliation of the run closes a
  reservation at least as large as the usage it books.
\<close>

fun honest :: "budget_op \<Rightarrow> budget_db \<Rightarrow> bool" where
  "honest (BReconcile r ch t co p u a now) db =
     (max 0 t \<le> (case newest_open r ch db of None \<Rightarrow> 0 | Some row \<Rightarrow> rr_reserved_tokens row))"
| "honest _ db = True"

fun honest_run :: "budget_op list \<Rightarrow> budget_db \<Rightarrow> bool" where
  "honest_run [] db = True"
| "honest_run (op # ops) db = (honest op db \<and> honest_run ops (budget_step op db))"

lemma honest_reserve:
  assumes "0 < ceiling_of run db" and "outstanding_tokens run db \<le> ceiling_of run db"
  shows "outstanding_tokens run (snd (ba_reserve r ch t co p now db)) \<le> ceiling_of run db"
proof -
  consider "r = [] \<or> ch = []" | "r \<noteq> []" "ch \<noteq> []" "\<not> fits r t db" | "r \<noteq> []" "ch \<noteq> []" "fits r t db" by blast
  then show ?thesis
  proof cases
    case 1
    with assms show ?thesis by (auto simp: ba_reserve_def)
  next
    case 2
    with reserve_refused [OF 2, of co p now] assms show ?thesis by auto
  next
    case 3
    obtain res db' where r: "ba_reserve r ch t co p now db = (Inr (Inr res), db')" "rs_reserved_tokens res = max 0 t"
      using reserve_granted [OF 3] by blast
    with outstanding_reserve [of run r ch t co p now db] 3(3) assms show ?thesis
      by (auto simp: fits_def max_def split: if_splits)
  qed
qed

lemma honest_step:
  assumes "budget_inv db" and "0 < ceiling_of run db" and "outstanding_tokens run db \<le> ceiling_of run db"
    and "honest op db"
  shows "ceiling_of run (budget_step op db) = ceiling_of run db
    \<and> outstanding_tokens run (budget_step op db) \<le> ceiling_of run db"
proof (cases op)
  case (BOpen r c cc p now)
  with assms show ?thesis
    by (auto simp: ba_open_def ceiling_of_def dsetdefault_def outstanding_eq_weight split: option.splits)
next
  case (BReserve r ch t co p now)
  with assms honest_reserve show ?thesis by (simp add: ceiling_kept)
next
  case (BReconcile r ch t co p u a now)
  show ?thesis
  proof (cases "r = [] \<or> ch = []")
    case True
    with BReconcile assms show ?thesis by (auto simp: ba_reconcile_def)
  next
    case False
    with BReconcile assms outstanding_reconcile [OF assms(1), of r ch run t co p u a now] show ?thesis
      by (auto simp: ceiling_kept)
  qed
next
  case (BRelease r ch now)
  with assms outstanding_release [OF assms(1), of run r ch now] show ?thesis by (simp add: ceiling_kept)
qed

lemma honest_run_within:
  "budget_inv db \<Longrightarrow> 0 < ceiling_of run db \<Longrightarrow> outstanding_tokens run db \<le> ceiling_of run db \<Longrightarrow>
   honest_run ops db \<Longrightarrow>
   ceiling_of run (fold budget_step ops db) = ceiling_of run db
   \<and> outstanding_tokens run (fold budget_step ops db) \<le> ceiling_of run db"
proof (induction ops arbitrary: db)
  case (Cons op ops)
  have "ceiling_of run (budget_step op db) = ceiling_of run db
      \<and> outstanding_tokens run (budget_step op db) \<le> ceiling_of run db"
    using Cons.prems by (intro honest_step) auto
  with Cons.IH [of "budget_step op db"] Cons.prems budget_step_inv [of db op] show ?case by simp
qed simp

text \<open>
  C9: the run budget holds across any interleaving. From a store within its ceiling, however
  reservations, releases, second \<open>open\<close> calls (with whatever ceiling) and reconciliations of
  several children interleave, the outstanding total never exceeds the ceiling first set, as
  long as no child reports more than its reservation.
\<close>

theorem run_budget_never_exceeded:
  assumes "budget_inv db" and "0 < ceiling_of run db" and "outstanding_tokens run db \<le> ceiling_of run db"
    and "honest_run ops db"
  shows "ceiling_of run (fold budget_step ops db) = ceiling_of run db
    \<and> outstanding_tokens run (fold budget_step ops db) \<le> ceiling_of run db"
  using assms by (rule honest_run_within)

definition demo_ops :: "budget_op list" where
  "demo_ops = [BOpen ''run'' 9999 None [] 1, BReserve ''run'' ''a'' 60 None [] 2, BReserve ''run'' ''b'' 60 None [] 3,
     BReconcile ''run'' ''a'' 50 (Some 1) [] False 1 4, BReserve ''run'' ''b'' 50 None [] 5]"

theorem run_budget_never_exceeded_witness:
  "ceiling_of ''run'' (fold budget_step demo_ops demo_budget) = ceiling_of ''run'' demo_budget
    \<and> outstanding_tokens ''run'' (fold budget_step demo_ops demo_budget) \<le> ceiling_of ''run'' demo_budget"
proof (rule run_budget_never_exceeded)
  show "honest_run demo_ops demo_budget"
    by (simp add: demo_ops_def demo_budget_def ba_open_def empty_budget_db_def ba_reserve_def outstanding_tokens_def
        rows_of_def dsetdefault_def touch_run_def dget_or_def newest_open_def is_open_row_def Let_def)
qed (simp_all add: demo_budget_facts)

lemma book_purpose_sums:
  "dsum pe_consumed_tokens (book_purpose r ps) = dsum pe_consumed_tokens ps + rr_consumed_tokens r"
  "dsum (int \<circ> pe_calls) (book_purpose r ps) = dsum (int \<circ> pe_calls) ps + 1"
  by (auto simp: book_purpose_def Let_def dget_or_def dsum_dset_new dsum_dset_old zero_entry_def split: option.splits)

lemma fold_book_purpose_sums:
  "dsum pe_consumed_tokens (fold book_purpose rs ps) = dsum pe_consumed_tokens ps + sum_list (map rr_consumed_tokens rs)"
  "dsum (int \<circ> pe_calls) (fold book_purpose rs ps) = dsum (int \<circ> pe_calls) ps + int (length rs)"
  by (induction rs arbitrary: ps) (auto simp: book_purpose_sums)

text \<open>
  the snapshot a coordinator reads is the ledger \<open>reserve\<close> decides on. Reserved and
  consumed add up to the outstanding total, what remains is the rest of the ceiling, and the
  per-purpose table splits the consumed tokens and the reconciled rows without loss.
\<close>
theorem snapshot_accounts:
  "bs_reserved_tokens (ba_snapshot run db) + bs_consumed_tokens (ba_snapshot run db) = outstanding_tokens run db
   \<and> bs_remaining_tokens (ba_snapshot run db) =
       (if 0 < ceiling_of run db then Some (ceiling_of run db - outstanding_tokens run db) else None)
   \<and> dsum pe_consumed_tokens (bs_purposes (ba_snapshot run db)) = bs_consumed_tokens (ba_snapshot run db)
   \<and> dsum (int \<circ> pe_calls) (bs_purposes (ba_snapshot run db)) = int (length (rows_of run Reconciled db))"
  by (simp add: ba_snapshot_def Let_def outstanding_tokens_def rows_of_def ceiling_of_def fold_book_purpose_sums
      filter_filter conj_commute) (simp add: dsum_def)

definition zero_call_db :: budget_db where
  "zero_call_db = snd (ba_reconcile ''run'' ''kid'' 0 None ''judge'' False 1 0 empty_budget_db)"

lemma zero_call_rows:
  "bdb_rows zero_call_db =
     [\<lparr>rr_id = 1, rr_run_id = ''run'', rr_child_id = ''kid'', rr_status = Reconciled, rr_reserved_tokens = 0,
       rr_reserved_cost = None, rr_consumed_tokens = 0, rr_consumed_cost = None, rr_unpriced = True,
       rr_created_at = 0, rr_updated_at = 0, rr_purpose = ''judge'', rr_usage_unknown = False, rr_attempts = 1\<rparr>]"
  by (simp add: zero_call_db_def ba_reconcile_def empty_budget_db_def newest_open_def Let_def)

text \<open>
  the run total and the per-purpose table apply different rules to an unpriced call. A
  reconciled call of zero tokens without a price leaves the run's cost a known 0.0, while the
  same call makes its purpose's cost unknown.
\<close>
theorem unpriced_zero_token_call_disagrees:
  "bs_consumed_cost (ba_snapshot ''run'' zero_call_db) = Known 0
   \<and> map_option entry_cost (dget (bs_purposes (ba_snapshot ''run'' zero_call_db)) ''judge'') = Some Unknown"
  by (simp add: ba_snapshot_def zero_call_rows book_purpose_def purpose_label_def dget_or_def zero_entry_def
      entry_cost_def Let_def)

lemma second_release_frees_nothing:
  "fst (ba_release run child now' (snd (ba_release run child now db))) = False"
proof -
  have "\<not> is_open_row run child (r\<lparr>rr_status := Released, rr_reserved_tokens := 0, rr_updated_at := now\<rparr>)" for r
    by (simp add: is_open_row_def)
  then show ?thesis by (auto simp: ba_release_def list_ex_iff)
qed

lemma second_open_keeps_ceiling:
  "dget (bdb_runs db) run = Some r \<Longrightarrow> snd (ba_open run c cc p now db) = db"
  by (auto simp: ba_open_def dsetdefault_def)

end
