(* ===== verification/Effect_Outbox.thy ===== *)
theory Effect_Outbox
  imports Prelude "HOL-Library.List_Lexorder" "HOL-Library.Char_ord"
begin

text \<open>
  The write-ahead record of effects that cannot be repeated, \<open>src/effect_outbox.py\<close>: the rows,
  their events, the legal moves, reconciliation and start-up recovery. Guarded dispatch is in
  theory \<open>Effect_Dispatch\<close>.

  The SQLite file is the record \<open>outbox\<close>. Each connection the code opens may fail; the outcome of
  the next accesses is the list \<open>ob_faults\<close> (\<open>True\<close> fails, an empty list means no more
  failures), so a theorem for every \<open>ob_faults\<close> covers every pattern of storage failures. A
  transaction that fails is rolled back. \<open>ob_calls\<close> is not part of the store: it records, in
  order, the effect ids whose transport was called.

  The unique partial index on \<open>(owner, kind, dedup_key)\<close> is \<open>index_clash\<close>, checked by every
  insert and update. Fresh ids, timestamps (\<open>_now()\<close>), the process's boot id, the digest of the
  arguments and the length of the JSON form of an evidence list are arguments; an evidence list
  whose JSON exceeds 8000 characters is stored cut off and reads back as the empty list.
\<close>

section \<open>Rows, events and the store\<close>

datatype eff_state = Prepared | Admitted | Dispatching | Succeeded | FailedBeforeEffect
  | Partial | OutcomeUnknown | Reconciled | Cancelled

datatype certainty = CNone | CConfirmed | CPartial | CUnknown

type_synonym evidence = "(string, string) dict"

record effect_row =
  ef_id :: string
  ef_owner :: string
  ef_session_id :: string
  ef_run_id :: string
  ef_call_id :: string
  ef_attempt_id :: string
  ef_tool :: string
  ef_kind :: string
  ef_destination :: string
  ef_identifier :: string
  ef_identifier_kind :: string
  ef_arguments_sha256 :: string
  ef_dedup_key :: "string option"
  ef_dedup_scope :: string
  ef_idempotency_key :: string
  ef_idempotency_scope :: string
  ef_state :: eff_state
  ef_certainty :: certainty
  ef_dispatch_count :: nat
  ef_external_ref :: string
  ef_resolution :: string
  ef_reason :: string
  ef_error_class :: string
  ef_evidence :: "evidence list"
  ef_boot_id :: string
  ef_created_at :: string
  ef_admitted_at :: "string option"
  ef_dispatch_started_at :: "string option"
  ef_settled_at :: "string option"
  ef_reconciled_at :: "string option"

record effect_event =
  ev_effect_id :: string
  ev_ts :: string
  ev_from :: "eff_state option"
  ev_to :: eff_state
  ev_certainty :: certainty
  ev_detail :: "(string, string) dict"

record outbox =
  ob_rows :: "(string, effect_row) dict"
  ob_events :: "effect_event list"
  ob_calls :: "string list"
  ob_faults :: "bool list"

datatype ob_error = IntentNotPersisted | InvalidTransition | SqliteError | BadOutcome

record effect_context =
  cx_owner :: string
  cx_session_id :: string
  cx_run_id :: string
  cx_call_id :: string
  cx_attempt_id :: string
  cx_tool :: string
  cx_admission_id :: string

definition empty_context :: effect_context where
  "empty_context = \<lparr>cx_owner = [], cx_session_id = [], cx_run_id = [], cx_call_id = [],
     cx_attempt_id = [], cx_tool = [], cx_admission_id = []\<rparr>"

text \<open>The arguments of \<open>prepare\<close>; \<open>rq_digest\<close> is \<open>arguments_digest(arguments)\<close>, if any.\<close>

record effect_request =
  rq_kind :: string
  rq_owner :: string
  rq_destination :: string
  rq_identifier :: string
  rq_identifier_kind :: string
  rq_digest :: "string option"
  rq_arguments_sha256 :: string
  rq_dedup_key :: "string option"
  rq_idempotency_key :: string
  rq_destination_enforces :: bool

fun transitions :: "eff_state \<Rightarrow> eff_state list" where
  "transitions Prepared = [Admitted, Cancelled]"
| "transitions Admitted = [Dispatching, Cancelled, FailedBeforeEffect]"
| "transitions Dispatching = [Succeeded, FailedBeforeEffect, Partial, OutcomeUnknown, Cancelled]"
| "transitions Partial = [Reconciled]"
| "transitions OutcomeUnknown = [Reconciled]"
| "transitions Cancelled = [Reconciled]"
| "transitions _ = []"

definition reconcilable_states :: "eff_state list" where
  "reconcilable_states = [OutcomeUnknown, Partial, Cancelled]"

text \<open>The predicate of the unique index: the row forbids another one with its key.\<close>

definition blocking :: "effect_row \<Rightarrow> bool" where
  "blocking r \<longleftrightarrow> ef_dedup_key r \<noteq> None \<and> ef_state r \<noteq> FailedBeforeEffect
     \<and> \<not> ((ef_state r = Reconciled \<or> ef_state r = Cancelled) \<and> ef_certainty r = CNone)"

definition same_key :: "effect_row \<Rightarrow> effect_row \<Rightarrow> bool" where
  "same_key r r' \<longleftrightarrow> ef_owner r = ef_owner r' \<and> ef_kind r = ef_kind r' \<and> ef_dedup_key r = ef_dedup_key r'"

definition index_clash :: "string \<Rightarrow> effect_row \<Rightarrow> (string, effect_row) dict \<Rightarrow> bool" where
  "index_clash eid r rows \<longleftrightarrow>
     blocking r \<and> list_ex (\<lambda>(k, r'). k \<noteq> eid \<and> blocking r' \<and> same_key r r') rows"

text \<open>One connection to the file: does it fail?\<close>

definition access :: "outbox \<Rightarrow> bool \<times> outbox" where
  "access w = (case ob_faults w of [] \<Rightarrow> (False, w) | b # bs \<Rightarrow> (b, w\<lparr>ob_faults := bs\<rparr>))"

definition ob_get :: "string \<Rightarrow> string option \<Rightarrow> outbox \<Rightarrow> effect_row option \<times> outbox" where
  "ob_get eid owner w =
     (case access w of
        (True, w1) \<Rightarrow> (None, w1)
      | (False, w1) \<Rightarrow>
          (case dget (ob_rows w1) eid of
             None \<Rightarrow> (None, w1)
           | Some r \<Rightarrow> ((case owner of None \<Rightarrow> Some r | Some o' \<Rightarrow> if ef_owner r = o' then Some r else None), w1)))"

definition ob_move ::
  "string \<Rightarrow> eff_state \<Rightarrow> certainty \<Rightarrow> eff_state list \<Rightarrow> (effect_row \<Rightarrow> effect_row) \<Rightarrow> (string, string) dict
     \<Rightarrow> string \<Rightarrow> outbox \<Rightarrow> (ob_error + effect_row) \<times> outbox" where
  "ob_move eid to_state cert allowed_from upd detail now w =
     (case access w of
        (True, w1) \<Rightarrow> (Inl SqliteError, w1)
      | (False, w1) \<Rightarrow>
          (case dget (ob_rows w1) eid of
             None \<Rightarrow> (Inl InvalidTransition, w1)
           | Some row \<Rightarrow>
               if ef_state row \<notin> set allowed_from \<or> to_state \<notin> set (transitions (ef_state row))
               then (Inl InvalidTransition, w1)
               else
                 let row' = (upd row)\<lparr>ef_state := to_state, ef_certainty := cert\<rparr>
                 in if index_clash eid row' (ob_rows w1) then (Inl SqliteError, w1)
                    else
                      let w2 = w1\<lparr>ob_rows := dset eid row' (ob_rows w1),
                                  ob_events := ob_events w1 @
                                    [\<lparr>ev_effect_id = eid, ev_ts = now, ev_from = Some (ef_state row), ev_to = to_state,
                                      ev_certainty = cert, ev_detail = detail\<rparr>]\<rparr>
                      in (case access w2 of
                            (True, w3) \<Rightarrow> (Inl SqliteError, w3)
                          | (False, w3) \<Rightarrow> (Inr row', w3))))"

datatype opened = Dedup effect_row | Fresh effect_row

definition or_else :: "string \<Rightarrow> string \<Rightarrow> string" where
  "or_else a b = (if a = [] then b else a)"

definition new_row :: "effect_request \<Rightarrow> effect_context \<Rightarrow> string \<Rightarrow> string \<Rightarrow> string \<Rightarrow> effect_row" where
  "new_row q cx eid boot now =
     \<lparr>ef_id = eid, ef_owner = or_else (rq_owner q) (cx_owner cx), ef_session_id = cx_session_id cx,
      ef_run_id = cx_run_id cx, ef_call_id = cx_call_id cx, ef_attempt_id = cx_attempt_id cx, ef_tool = cx_tool cx,
      ef_kind = clip 80 (rq_kind q), ef_destination = clip 500 (rq_destination q),
      ef_identifier = clip 300 (rq_identifier q),
      ef_identifier_kind = (if rq_identifier q = [] then ''none'' else rq_identifier_kind q),
      ef_arguments_sha256 = or_else (rq_arguments_sha256 q) (case rq_digest q of None \<Rightarrow> [] | Some d \<Rightarrow> d),
      ef_dedup_key = rq_dedup_key q,
      ef_dedup_scope = (if rq_dedup_key q = None \<or> rq_dedup_key q = Some [] then ''none'' else ''owner_kind_key''),
      ef_idempotency_key = clip 200 (rq_idempotency_key q),
      ef_idempotency_scope =
        (if rq_idempotency_key q \<noteq> [] \<and> rq_destination_enforces q then ''destination_enforced'' else ''none''),
      ef_state = Prepared, ef_certainty = CNone, ef_dispatch_count = 0, ef_external_ref = [], ef_resolution = [],
      ef_reason = [], ef_error_class = [], ef_evidence = [], ef_boot_id = boot, ef_created_at = now,
      ef_admitted_at = None, ef_dispatch_started_at = None, ef_settled_at = None, ef_reconciled_at = None\<rparr>"

definition ob_prepare ::
  "effect_request \<Rightarrow> effect_context \<Rightarrow> string \<Rightarrow> string \<Rightarrow> string \<Rightarrow> outbox \<Rightarrow> (ob_error + opened) \<times> outbox" where
  "ob_prepare q cx eid boot now w =
     (let row = new_row q cx eid boot now
      in case access w of
           (True, w1) \<Rightarrow> (Inl IntentNotPersisted, w1)
         | (False, w1) \<Rightarrow>
             if dget (ob_rows w1) eid \<noteq> None \<or> index_clash eid row (ob_rows w1)
             then (case find (\<lambda>(k, r'). blocking r' \<and> same_key row r') (ob_rows w1) of
                     Some (k, existing) \<Rightarrow> (Inr (Dedup existing), w1)
                   | None \<Rightarrow> (Inl IntentNotPersisted, w1))
             else
               let w2 = w1\<lparr>ob_rows := dset eid row (ob_rows w1),
                           ob_events := ob_events w1 @
                             [\<lparr>ev_effect_id = eid, ev_ts = now, ev_from = None, ev_to = Prepared,
                               ev_certainty = CNone, ev_detail = []\<rparr>]\<rparr>
               in (case ob_get eid None w2 of
                     (None, w3) \<Rightarrow> (Inl IntentNotPersisted, w3)
                   | (Some r, w3) \<Rightarrow> (Inr (Fresh r), w3)))"

text \<open>
  An operation of the module is one or more connections, and other threads and processes work
  between them. Each write is a definition of its own (\<open>ob_admit_write\<close>, \<open>ob_begin_write\<close>,
  \<open>ob_settle_write\<close>, \<open>ob_cancel_write\<close>, \<open>reconcile_answered\<close>, \<open>resolve_write\<close>) that takes what an
  earlier connection read as an argument; the operation composes the two. Theory \<open>Outbox_Runs\<close>
  interleaves the parts.
\<close>

definition ob_admit_write :: "string \<Rightarrow> string \<Rightarrow> outbox \<Rightarrow> (ob_error + effect_row) \<times> outbox" where
  "ob_admit_write eid now w =
     ob_move eid Admitted CNone [Prepared] (ef_admitted_at_update (\<lambda>_. Some now)) [] now w"

definition ob_admit :: "string \<Rightarrow> string \<Rightarrow> outbox \<Rightarrow> (ob_error + effect_row) \<times> outbox" where
  "ob_admit eid now w =
     (case ob_get eid None w of
        (None, w1) \<Rightarrow> (Inl IntentNotPersisted, w1)
      | (Some row, w1) \<Rightarrow>
          if ef_state row \<noteq> Prepared then (Inl IntentNotPersisted, w1)
          else (case ob_admit_write eid now w1 of
                  (Inl e, w2) \<Rightarrow> (Inl IntentNotPersisted, w2)
                | (Inr r, w2) \<Rightarrow> (Inr r, w2)))"

definition ob_begin_write :: "string \<Rightarrow> nat \<Rightarrow> string \<Rightarrow> outbox \<Rightarrow> (ob_error + effect_row) \<times> outbox" where
  "ob_begin_write eid count now w =
     ob_move eid Dispatching CUnknown [Admitted]
       (\<lambda>r. r\<lparr>ef_dispatch_started_at := Some now, ef_dispatch_count := count + 1\<rparr>) [] now w"

definition ob_begin_dispatch :: "string \<Rightarrow> string \<Rightarrow> outbox \<Rightarrow> (ob_error + effect_row) \<times> outbox" where
  "ob_begin_dispatch eid now w =
     (case access w of
        (True, w1) \<Rightarrow> (Inl SqliteError, w1)
      | (False, w1) \<Rightarrow>
          (let count = (case dget (ob_rows w1) eid of None \<Rightarrow> 0 | Some r \<Rightarrow> ef_dispatch_count r)
           in case ob_begin_write eid count now w1 of
                (Inl e, w2) \<Rightarrow> (Inl IntentNotPersisted, w2)
              | (Inr r, w2) \<Rightarrow> (Inr r, w2)))"

text \<open>\<open>settled_certainty\<close> is the table of \<open>settle\<close>; other outcomes are a \<open>ValueError\<close>.\<close>

fun settled_certainty :: "eff_state \<Rightarrow> certainty option" where
  "settled_certainty Succeeded = Some CConfirmed"
| "settled_certainty FailedBeforeEffect = Some CNone"
| "settled_certainty Partial = Some CPartial"
| "settled_certainty OutcomeUnknown = Some CUnknown"
| "settled_certainty _ = None"

definition stored_evidence :: "(evidence list \<Rightarrow> nat) \<Rightarrow> evidence list \<Rightarrow> evidence list" where
  "stored_evidence json_len h = (if json_len h \<le> 8000 then h else [])"

record settlement =
  st_reason :: string
  st_external_ref :: string
  st_error_class :: string
  st_evidence :: "evidence option"

definition plain_settlement :: settlement where
  "plain_settlement = \<lparr>st_reason = [], st_external_ref = [], st_error_class = [], st_evidence = None\<rparr>"

definition ob_settle_write ::
  "(evidence list \<Rightarrow> nat) \<Rightarrow> string \<Rightarrow> eff_state \<Rightarrow> certainty \<Rightarrow> settlement \<Rightarrow> effect_row option \<Rightarrow> string \<Rightarrow> outbox
     \<Rightarrow> (ob_error + effect_row) \<times> outbox" where
  "ob_settle_write json_len eid outcome cert s current now w =
     (let allowed =
            (if outcome = FailedBeforeEffect \<and> (case current of None \<Rightarrow> False | Some r \<Rightarrow> ef_state r = Admitted)
             then [Admitted] else [Dispatching]);
          history = (case current of None \<Rightarrow> [] | Some r \<Rightarrow> ef_evidence r)
            @ (case st_evidence s of None \<Rightarrow> [] | Some e \<Rightarrow> if e = [] then [] else [(''at'', now) # e])
      in ob_move eid outcome cert allowed
           (\<lambda>r. r\<lparr>ef_settled_at := Some now, ef_reason := clip 1000 (st_reason s),
                  ef_external_ref := clip 300 (st_external_ref s),
                  ef_error_class := clip 120 (st_error_class s),
                  ef_evidence := stored_evidence json_len history\<rparr>)
           [(''reason'', clip 300 (st_reason s)), (''error_class'', st_error_class s)] now w)"

definition ob_settle ::
  "(evidence list \<Rightarrow> nat) \<Rightarrow> string \<Rightarrow> eff_state \<Rightarrow> settlement \<Rightarrow> string \<Rightarrow> outbox
     \<Rightarrow> (ob_error + effect_row) \<times> outbox" where
  "ob_settle json_len eid outcome s now w =
     (case settled_certainty outcome of
        None \<Rightarrow> (Inl BadOutcome, w)
      | Some cert \<Rightarrow>
          (case ob_get eid None w of (current, w1) \<Rightarrow> ob_settle_write json_len eid outcome cert s current now w1))"

definition bool_str :: "bool \<Rightarrow> string" where
  "bool_str b = (if b then ''true'' else ''false'')"

text \<open>\<open>ob_cancel_write\<close> is the second half of \<open>cancel\<close>, with the certainty decided by the first.\<close>

definition ob_cancel_write :: "string \<Rightarrow> bool \<Rightarrow> string \<Rightarrow> string \<Rightarrow> outbox \<Rightarrow> (ob_error + effect_row) \<times> outbox" where
  "ob_cancel_write eid during reason now w =
     ob_move eid Cancelled (if during then CUnknown else CNone) [Prepared, Admitted, Dispatching]
       (\<lambda>r. r\<lparr>ef_settled_at := Some now, ef_reason := clip 1000 reason\<rparr>)
       [(''during_dispatch'', bool_str during)] now w"

definition ob_cancel :: "string \<Rightarrow> string \<Rightarrow> string \<Rightarrow> outbox \<Rightarrow> (ob_error + effect_row) \<times> outbox" where
  "ob_cancel eid reason now w =
     (case ob_get eid None w of
        (None, w1) \<Rightarrow> (Inl InvalidTransition, w1)
      | (Some current, w1) \<Rightarrow> ob_cancel_write eid (ef_state current = Dispatching) reason now w1)"


section \<open>Reconciliation\<close>

text \<open>
  What a finder says of a record: the destination could not be asked (it returned \<open>None\<close> or
  raised), the effect is there (with the external reference it gave, if any), or it is not
  listed, authoritatively or not yet.
\<close>

datatype found = Unreachable | Landed string | Absent bool

type_synonym finder = "effect_row \<Rightarrow> found"

datatype reconcile_reason = NotFound | NothingToReconcile | NoReconciler | NoIdentifier
  | StillUnknown | LandedReason | NotLanded | NotFoundYet | NotReconcilable eff_state | Resolved

record reconcile_answer =
  ra_ok :: bool
  ra_reason :: reconcile_reason
  ra_changed :: bool
  ra_effect :: "effect_row option"

definition ob_note_evidence :: "(evidence list \<Rightarrow> nat) \<Rightarrow> string \<Rightarrow> evidence list \<Rightarrow> outbox \<Rightarrow> outbox" where
  "ob_note_evidence json_len eid history w =
     (case access w of
        (True, w1) \<Rightarrow> w1
      | (False, w1) \<Rightarrow>
          (case dget (ob_rows w1) eid of
             None \<Rightarrow> w1
           | Some r \<Rightarrow> w1\<lparr>ob_rows := dset eid (r\<lparr>ef_evidence := stored_evidence json_len history\<rparr>) (ob_rows w1)\<rparr>))"

text \<open>
  \<open>reconcile\<close> reads the row, asks the destination, and writes what it answered.
  \<open>reconcilable\<close> is the guard on the row that was read; \<open>reconcile_answered\<close> is what follows the
  answer.
\<close>

definition reconcilable :: "effect_row \<Rightarrow> bool" where
  "reconcilable r \<longleftrightarrow> ef_state r \<in> set reconcilable_states \<and> \<not> (ef_state r = Cancelled \<and> ef_certainty r \<noteq> CUnknown)"

definition reconcile_answered ::
  "(evidence list \<Rightarrow> nat) \<Rightarrow> string \<Rightarrow> effect_row \<Rightarrow> found \<Rightarrow> string \<Rightarrow> outbox \<Rightarrow> (ob_error + reconcile_answer) \<times> outbox" where
  "reconcile_answered json_len eid rec answer now w =
     (case answer of
        Unreachable \<Rightarrow>
          (let w2 = ob_note_evidence json_len eid (ef_evidence rec @
                 [[(''at'', now), (''check'', ''reconcile''), (''result'', ''destination_unreachable'')]]) w
           in case ob_get eid None w2 of (r, w3) \<Rightarrow>
                (Inr \<lparr>ra_ok = True, ra_reason = StillUnknown, ra_changed = False, ra_effect = r\<rparr>, w3))
      | Landed ref \<Rightarrow>
          (let history = ef_evidence rec @ [[(''at'', now), (''check'', ''reconcile''), (''result'', ''found''),
                 (''external_ref'', ref)]]
           in case ob_move eid Reconciled CConfirmed reconcilable_states
                  (\<lambda>r. r\<lparr>ef_reconciled_at := Some now, ef_resolution := ''landed'',
                         ef_external_ref := clip 300 (or_else ref (ef_identifier rec)),
                         ef_evidence := stored_evidence json_len history\<rparr>)
                  [(''resolution'', ''landed'')] now w of
                (Inl e, w2) \<Rightarrow> (Inl e, w2)
              | (Inr r, w2) \<Rightarrow>
                  (Inr \<lparr>ra_ok = True, ra_reason = LandedReason, ra_changed = True, ra_effect = Some r\<rparr>, w2))
      | Absent True \<Rightarrow>
          (let history = ef_evidence rec @ [[(''at'', now), (''check'', ''reconcile''),
                 (''result'', ''absent_authoritative'')]]
           in case ob_move eid Reconciled CNone reconcilable_states
                  (\<lambda>r. r\<lparr>ef_reconciled_at := Some now, ef_resolution := ''not_landed'',
                         ef_evidence := stored_evidence json_len history\<rparr>)
                  [(''resolution'', ''not_landed'')] now w of
                (Inl e, w2) \<Rightarrow> (Inl e, w2)
              | (Inr r, w2) \<Rightarrow>
                  (Inr \<lparr>ra_ok = True, ra_reason = NotLanded, ra_changed = True, ra_effect = Some r\<rparr>, w2))
      | Absent False \<Rightarrow>
          (let w2 = ob_note_evidence json_len eid (ef_evidence rec @
                 [[(''at'', now), (''check'', ''reconcile''), (''result'', ''not_found_yet'')]]) w
           in case ob_get eid None w2 of (r, w3) \<Rightarrow>
                (Inr \<lparr>ra_ok = True, ra_reason = NotFoundYet, ra_changed = False, ra_effect = r\<rparr>, w3)))"

text \<open>\<open>given\<close> is the finder given by the caller, \<open>reg\<close> the one registered for the kind.\<close>

definition ob_reconcile ::
  "(evidence list \<Rightarrow> nat) \<Rightarrow> string \<Rightarrow> string option \<Rightarrow> finder option \<Rightarrow> (string \<Rightarrow> finder option) \<Rightarrow> string
     \<Rightarrow> outbox \<Rightarrow> (ob_error + reconcile_answer) \<times> outbox" where
  "ob_reconcile json_len eid owner given reg now w =
     (case ob_get eid owner w of
        (None, w1) \<Rightarrow> (Inr \<lparr>ra_ok = False, ra_reason = NotFound, ra_changed = False, ra_effect = None\<rparr>, w1)
      | (Some rec, w1) \<Rightarrow>
          if \<not> reconcilable rec
          then (Inr \<lparr>ra_ok = True, ra_reason = NothingToReconcile, ra_changed = False, ra_effect = Some rec\<rparr>, w1)
          else
            (case (case given of None \<Rightarrow> reg (ef_kind rec) | Some f \<Rightarrow> Some f) of
               None \<Rightarrow> (Inr \<lparr>ra_ok = True, ra_reason = NoReconciler, ra_changed = False, ra_effect = Some rec\<rparr>, w1)
             | Some finder \<Rightarrow>
                 if ef_identifier rec = []
                 then (Inr \<lparr>ra_ok = True, ra_reason = NoIdentifier, ra_changed = False, ra_effect = Some rec\<rparr>, w1)
                 else reconcile_answered json_len eid rec (finder rec) now w1))"

definition resolve_write ::
  "(evidence list \<Rightarrow> nat) \<Rightarrow> string \<Rightarrow> effect_row \<Rightarrow> bool \<Rightarrow> string \<Rightarrow> string \<Rightarrow> string
     \<Rightarrow> outbox \<Rightarrow> (ob_error + effect_row) \<times> outbox" where
  "resolve_write json_len eid rec landed note actor now w =
     (let resolution = (if landed then ''manual_landed'' else ''manual_not_landed'');
          history = ef_evidence rec @ [[(''at'', now), (''check'', ''manual''), (''landed'', bool_str landed),
                      (''actor'', clip 120 actor), (''note'', clip 500 note)]]
      in ob_move eid Reconciled (if landed then CConfirmed else CNone) reconcilable_states
           (\<lambda>r. r\<lparr>ef_reconciled_at := Some now, ef_resolution := resolution,
                  ef_evidence := stored_evidence json_len history\<rparr>)
           [(''resolution'', resolution)] now w)"

definition ob_resolve_manually ::
  "(evidence list \<Rightarrow> nat) \<Rightarrow> string \<Rightarrow> bool \<Rightarrow> string \<Rightarrow> string \<Rightarrow> string option \<Rightarrow> string
     \<Rightarrow> outbox \<Rightarrow> (ob_error + reconcile_answer) \<times> outbox" where
  "ob_resolve_manually json_len eid landed note actor owner now w =
     (case ob_get eid owner w of
        (None, w1) \<Rightarrow> (Inr \<lparr>ra_ok = False, ra_reason = NotFound, ra_changed = False, ra_effect = None\<rparr>, w1)
      | (Some rec, w1) \<Rightarrow>
          if ef_state rec \<notin> set reconcilable_states
          then (Inr \<lparr>ra_ok = False, ra_reason = NotReconcilable (ef_state rec), ra_changed = False, ra_effect = None\<rparr>, w1)
          else
            (case resolve_write json_len eid rec landed note actor now w1 of
               (Inl e, w2) \<Rightarrow> (Inl e, w2)
             | (Inr r, w2) \<Rightarrow> (Inr \<lparr>ra_ok = True, ra_reason = Resolved, ra_changed = True, ra_effect = Some r\<rparr>, w2)))"

section \<open>Queries and recovery\<close>

definition unresolved :: "effect_row \<Rightarrow> bool" where
  "unresolved r \<longleftrightarrow> ef_state r = OutcomeUnknown \<or> ef_state r = Partial
     \<or> (ef_state r = Cancelled \<and> ef_certainty r = CUnknown)"

text \<open>Rows with equal timestamps come in insertion order.\<close>

definition needs_reconciliation :: "string option \<Rightarrow> nat \<Rightarrow> (string, effect_row) dict \<Rightarrow> effect_row list" where
  "needs_reconciliation owner limit rows =
     take limit (sort_key ef_created_at
       (filter (\<lambda>r. unresolved r \<and> (case owner of None \<Rightarrow> True | Some o' \<Rightarrow> ef_owner r = o')) (map snd rows)))"

definition matches :: "string option \<Rightarrow> string \<Rightarrow> bool" where
  "matches want have = (case want of None \<Rightarrow> True | Some v \<Rightarrow> have = v)"

definition list_effects ::
  "string option \<Rightarrow> eff_state option \<Rightarrow> string option \<Rightarrow> string option \<Rightarrow> string option \<Rightarrow> int
     \<Rightarrow> (string, effect_row) dict \<Rightarrow> effect_row list" where
  "list_effects owner state session_id run_id kind limit rows =
     take (nat (max 1 (min limit 500))) (rev (sort_key ef_created_at
       (filter (\<lambda>r. matches owner (ef_owner r) \<and> (case state of None \<Rightarrow> True | Some st \<Rightarrow> ef_state r = st)
            \<and> matches session_id (ef_session_id r) \<and> matches run_id (ef_run_id r) \<and> matches kind (ef_kind r))
          (map snd rows))))"

definition ob_reconcile_pending ::
  "(evidence list \<Rightarrow> nat) \<Rightarrow> string option \<Rightarrow> (string \<Rightarrow> finder option) \<Rightarrow> nat \<Rightarrow> string \<Rightarrow> outbox \<Rightarrow> outbox" where
  "ob_reconcile_pending json_len owner reg limit now w =
     (case access w of
        (True, w1) \<Rightarrow> w1
      | (False, w1) \<Rightarrow>
          fold (\<lambda>r v. if reg (ef_kind r) = None then v
                      else snd (ob_reconcile json_len (ef_id r) owner None reg now v))
            (needs_reconciliation owner limit (ob_rows w1)) w1)"

definition recover_one :: "string \<Rightarrow> effect_row \<Rightarrow> nat \<times> nat \<times> outbox \<Rightarrow> nat \<times> nat \<times> outbox" where
  "recover_one now row = (\<lambda>(unknown, cancelled, w).
     if ef_state row = Dispatching then
       (case ob_move (ef_id row) OutcomeUnknown CUnknown [Dispatching]
            (\<lambda>r. r\<lparr>ef_settled_at := Some now, ef_reason := ''the process ended while the effect was dispatching'',
                   ef_error_class := ''process_restart''\<rparr>) [(''recovered'', ''true'')] now w of
          (Inl e, w1) \<Rightarrow> (unknown, cancelled, w1)
        | (Inr r, w1) \<Rightarrow> (unknown + 1, cancelled, w1))
     else
       (case ob_move (ef_id row) Cancelled CNone [ef_state row]
            (\<lambda>r. r\<lparr>ef_settled_at := Some now, ef_reason := ''the process ended before dispatch began'',
                   ef_error_class := ''process_restart''\<rparr>) [(''recovered'', ''true'')] now w of
          (Inl e, w1) \<Rightarrow> (unknown, cancelled, w1)
        | (Inr r, w1) \<Rightarrow> (unknown, cancelled + 1, w1)))"

definition orphan :: "string \<Rightarrow> effect_row \<Rightarrow> bool" where
  "orphan boot r \<longleftrightarrow> ef_state r \<in> {Prepared, Admitted, Dispatching} \<and> ef_boot_id r \<noteq> boot"

definition ob_recover_orphans :: "string \<Rightarrow> string \<Rightarrow> outbox \<Rightarrow> nat \<times> nat \<times> outbox" where
  "ob_recover_orphans boot now w =
     (case access w of
        (True, w1) \<Rightarrow> (0, 0, w1)
      | (False, w1) \<Rightarrow> fold (recover_one now) (filter (orphan boot) (map snd (ob_rows w1))) (0, 0, w1))"

definition count_state :: "eff_state \<Rightarrow> string option \<Rightarrow> (string, effect_row) dict \<Rightarrow> nat" where
  "count_state st owner rows = length (filter (\<lambda>(k, r). ef_state r = st \<and> matches owner (ef_owner r)) rows)"

definition all_states :: "eff_state list" where
  "all_states = [Prepared, Admitted, Dispatching, Succeeded, FailedBeforeEffect, Partial, OutcomeUnknown,
     Reconciled, Cancelled]"

record outbox_summary =
  os_by_state :: "(eff_state, nat) dict"
  os_unresolved :: nat
  os_total :: nat

definition ob_summary :: "string option \<Rightarrow> (string, effect_row) dict \<Rightarrow> outbox_summary" where
  "ob_summary owner rows =
     (let by_state = filter (\<lambda>(st, n). 0 < n) (map (\<lambda>st. (st, count_state st owner rows)) all_states)
      in \<lparr>os_by_state = by_state,
          os_unresolved = dget_or by_state OutcomeUnknown 0 + dget_or by_state Partial 0,
          os_total = sum_list (map snd by_state)\<rparr>)"

end
