(* ===== verification/Effect_Dispatch.thy ===== *)
theory Effect_Dispatch
  imports Effect_Outbox
begin

text \<open>
  Guarded dispatch and the tool layer's admission rows, \<open>src/effect_outbox.py\<close>. The transport is
  a parameter: what its call would answer, a value or an exception. \<open>call_transport\<close> records that
  it was called. Exceptions carry what the code looks at: which of the module's marker classes
  they are, their class name and their text.
\<close>

datatype exc_kind = KNotDispatched | KPartial | KOutcomeUnknown | KInterrupt | KOther

record texc =
  te_kind :: exc_kind
  te_name :: string
  te_text :: string

text \<open>A transport's return value: a mapping of strings, or something else.\<close>

datatype tvalue = VMap "(string, string) dict" | VOther

type_synonym answer = "texc + tvalue"

text \<open>
  \<open>interpret\<close>: the exception it raises, \<open>None\<close> when it gives no verdict (or no interpreter was
  given), or the outcome and its details.
\<close>

type_synonym interpreter = "tvalue \<Rightarrow> texc + (eff_state \<times> settlement) option"

definition no_interpreter :: interpreter where
  "no_interpreter v = Inr None"

text \<open>\<open>classify\<close>: \<open>None\<close> when it raises or gives no verdict of its own.\<close>

type_synonym classifier = "texc \<Rightarrow> eff_state option"

datatype raised =
    RaisedStore ob_error
  | RaisedTransport texc
  | RaisedInterpret texc
  | RaisedPartial "effect_row option"
  | RaisedUnknown "effect_row option"

datatype dispatch_result =
    Returned "tvalue option" "effect_row option" bool
  | Raised raised

definition call_transport :: "string \<Rightarrow> outbox \<Rightarrow> outbox" where
  "call_transport eid w = w\<lparr>ob_calls := ob_calls w @ [eid]\<rparr>"

definition ob_open_row ::
  "effect_request \<Rightarrow> effect_context \<Rightarrow> string \<Rightarrow> string \<Rightarrow> string \<Rightarrow> outbox \<Rightarrow> (ob_error + opened) \<times> outbox" where
  "ob_open_row q cx eid boot now w =
     (let fresh = (\<lambda>v. case ob_prepare q cx eid boot now v of
                 (Inl e, w1) \<Rightarrow> (Inl e, w1)
               | (Inr (Dedup r), w1) \<Rightarrow> (Inr (Dedup r), w1)
               | (Inr (Fresh r), w1) \<Rightarrow>
                   (case ob_admit (ef_id r) now w1 of
                      (Inl e, w2) \<Rightarrow> (Inl e, w2)
                    | (Inr r', w2) \<Rightarrow> (Inr (Fresh r'), w2)))
      in if cx_admission_id cx = [] then fresh w
         else case ob_get (cx_admission_id cx) None w of
                (Some joined, w1) \<Rightarrow> if ef_state joined = Admitted then (Inr (Fresh joined), w1) else fresh w1
              | (None, w1) \<Rightarrow> fresh w1)"

definition verdict_for_exception :: "texc \<Rightarrow> eff_state \<times> string \<times> string" where
  "verdict_for_exception x =
     (case te_kind x of
        KNotDispatched \<Rightarrow> (FailedBeforeEffect, te_name x, te_text x)
      | KPartial \<Rightarrow> (Partial, te_name x, te_text x)
      | KOutcomeUnknown \<Rightarrow> (OutcomeUnknown, te_name x, te_text x)
      | _ \<Rightarrow> (OutcomeUnknown, te_name x, te_name x @ '': '' @ te_text x))"

definition dedup_hit :: "effect_row \<Rightarrow> dispatch_result" where
  "dedup_hit row =
     (if ef_state row = Succeeded \<or> (ef_state row = Reconciled \<and> ef_certainty row = CConfirmed)
      then Returned None (Some row) False
      else if ef_state row = Partial then Raised (RaisedPartial (Some row))
      else Raised (RaisedUnknown (Some row)))"

definition value_ref :: "tvalue \<Rightarrow> string" where
  "value_ref v =
     (case v of VOther \<Rightarrow> []
      | VMap d \<Rightarrow> or_else (dget_or d ''external_ref'' []) (or_else (dget_or d ''message_id'' []) (dget_or d ''id'' [])))"

definition settle_value ::
  "(evidence list \<Rightarrow> nat) \<Rightarrow> string \<Rightarrow> tvalue \<Rightarrow> interpreter \<Rightarrow> string \<Rightarrow> outbox \<Rightarrow> (raised + effect_row) \<times> outbox" where
  "settle_value json_len eid v interpret now w =
     (let raise_store = (\<lambda>(r, w'). (case r of Inl e \<Rightarrow> Inl (RaisedStore e) | Inr row \<Rightarrow> Inr row, w'))
      in case interpret v of
           Inl x \<Rightarrow> (Inl (RaisedInterpret x), w)
         | Inr (Some (outcome, info)) \<Rightarrow> raise_store (ob_settle json_len eid outcome info now w)
         | Inr None \<Rightarrow>
             raise_store (ob_settle json_len eid Succeeded (plain_settlement\<lparr>st_external_ref := value_ref v\<rparr>) now w))"

definition handle_exception ::
  "(evidence list \<Rightarrow> nat) \<Rightarrow> string \<Rightarrow> texc \<Rightarrow> classifier option \<Rightarrow> string \<Rightarrow> outbox \<Rightarrow> dispatch_result \<times> outbox" where
  "handle_exception json_len eid x classify now w =
     (if te_kind x = KInterrupt then
        (Raised (RaisedTransport x), snd (ob_cancel eid (te_name x @ '' while dispatching'') now w))
      else
        let (outcome0, error_class, reason0) = verdict_for_exception x;
            (outcome, reason) =
              (case classify of
                 None \<Rightarrow> (outcome0, reason0)
               | Some c \<Rightarrow>
                   (case c x of
                      None \<Rightarrow> (outcome0, reason0)
                    | Some chosen \<Rightarrow>
                        if chosen \<in> {FailedBeforeEffect, Partial, OutcomeUnknown}
                        then (chosen, error_class @ '': '' @ te_text x) else (outcome0, reason0)));
            (row, w2) =
              (case ob_settle json_len eid outcome
                      (plain_settlement\<lparr>st_reason := reason, st_error_class := error_class\<rparr>) now w of
                 (Inr r, w1) \<Rightarrow> (Some r, w1)
               | (Inl e, w1) \<Rightarrow> ob_get eid None w1)
        in (if outcome = FailedBeforeEffect then Raised (RaisedTransport x)
            else if outcome = Partial then Raised (RaisedPartial row)
            else if te_kind x = KOutcomeUnknown then Raised (RaisedTransport x)
            else Raised (RaisedUnknown row), w2))"

text \<open>
  \<open>dispatch_effect\<close>, and its async twin, which has the same body. \<open>wrap_unknown\<close> and
  \<open>wrap_partial\<close> only choose the exception object raised for \<open>RaisedUnknown\<close> and
  \<open>RaisedPartial\<close>. With the outbox disabled the transport is called for no row; the call is
  recorded under the empty id.
\<close>

definition dispatch_effect ::
  "bool \<Rightarrow> (evidence list \<Rightarrow> nat) \<Rightarrow> effect_request \<Rightarrow> effect_context \<Rightarrow> string \<Rightarrow> string \<Rightarrow> string \<Rightarrow> answer
     \<Rightarrow> interpreter \<Rightarrow> classifier option \<Rightarrow> outbox \<Rightarrow> dispatch_result \<times> outbox" where
  "dispatch_effect enabled json_len q cx eid boot now answer interpret classify w =
     (if \<not> enabled then
        (case answer of
           Inl x \<Rightarrow> (Raised (RaisedTransport x), call_transport [] w)
         | Inr v \<Rightarrow> (Returned (Some v) None True, call_transport [] w))
      else
        case ob_open_row q cx eid boot now w of
          (Inl e, w1) \<Rightarrow> (Raised (RaisedStore e), w1)
        | (Inr (Dedup row), w1) \<Rightarrow> (dedup_hit row, w1)
        | (Inr (Fresh row), w1) \<Rightarrow>
            (case ob_begin_dispatch (ef_id row) now w1 of
               (Inl e, w2) \<Rightarrow> (Raised (RaisedStore e), w2)
             | (Inr r, w2) \<Rightarrow>
                 (let w3 = call_transport (ef_id row) w2
                  in case answer of
                       Inl x \<Rightarrow> handle_exception json_len (ef_id row) x classify now w3
                     | Inr v \<Rightarrow>
                         (case settle_value json_len (ef_id row) v interpret now w3 of
                            (Inl x, w4) \<Rightarrow> (Raised x, w4)
                          | (Inr r', w4) \<Rightarrow> (Returned (Some v) (Some r') True, w4)))))"

definition ob_open_admission ::
  "string \<Rightarrow> string \<Rightarrow> string \<Rightarrow> string \<Rightarrow> string \<Rightarrow> string \<Rightarrow> string \<Rightarrow> string \<Rightarrow> bool \<Rightarrow> string \<Rightarrow> string \<Rightarrow> string
     \<Rightarrow> string \<Rightarrow> outbox \<Rightarrow> (ob_error + opened) \<times> outbox" where
  "ob_open_admission kind tool owner destination sha session_id run_id call_id dedup attempt eid boot now w =
     (let cx = \<lparr>cx_owner = owner, cx_session_id = session_id, cx_run_id = run_id, cx_call_id = call_id,
                cx_attempt_id = attempt, cx_tool = tool, cx_admission_id = []\<rparr>;
          q = \<lparr>rq_kind = kind, rq_owner = owner, rq_destination = destination, rq_identifier = [],
               rq_identifier_kind = ''none'', rq_digest = None, rq_arguments_sha256 = sha,
               rq_dedup_key = (if dedup \<and> run_id \<noteq> [] \<and> call_id \<noteq> [] then Some (run_id @ '':'' @ call_id) else None),
               rq_idempotency_key = [], rq_destination_enforces = False\<rparr>
      in case ob_prepare q cx eid boot now w of
           (Inl e, w1) \<Rightarrow> (Inl e, w1)
         | (Inr (Dedup r), w1) \<Rightarrow> (Inr (Dedup r), w1)
         | (Inr (Fresh r), w1) \<Rightarrow>
             (case ob_admit (ef_id r) now w1 of
                (Inl e, w2) \<Rightarrow> (Inl e, w2)
              | (Inr r', w2) \<Rightarrow> (Inr (Fresh r'), w2)))"

datatype tool_status = TSucceeded | TPartial | TDenied | TConflict | TOtherStatus string

fun tool_status_str :: "tool_status \<Rightarrow> string" where
  "tool_status_str TSucceeded = ''succeeded''"
| "tool_status_str TPartial = ''partial''"
| "tool_status_str TDenied = ''denied''"
| "tool_status_str TConflict = ''conflict''"
| "tool_status_str (TOtherStatus t) = t"

definition finalize_admission ::
  "(evidence list \<Rightarrow> nat) \<Rightarrow> string \<Rightarrow> tool_status \<Rightarrow> string \<Rightarrow> string \<Rightarrow> bool \<Rightarrow> string \<Rightarrow> string
     \<Rightarrow> outbox \<Rightarrow> (ob_error + effect_row option) \<times> outbox" where
  "finalize_admission json_len eid status error reason explicit_not_dispatched external_ref now w =
     (let lift = (\<lambda>(r, v). (case r of Inl e \<Rightarrow> Inl e | Inr x \<Rightarrow> Inr (Some x), v));
          why = or_else reason error;
          why_status = or_else reason (or_else error (tool_status_str status))
      in case ob_get eid None w of
           (None, w1) \<Rightarrow> (Inr None, w1)
         | (Some row, w1) \<Rightarrow>
             if ef_state row \<in> {Succeeded, FailedBeforeEffect, Partial, OutcomeUnknown, Reconciled} then (Inr (Some row), w1)
             else if ef_state row = Admitted then
               (if status = TSucceeded
                then lift (ob_cancel eid
                  (''the handler completed without dispatching (for example a draft staged for approval)'') now w1)
                else lift (ob_settle json_len eid FailedBeforeEffect
                  (plain_settlement\<lparr>st_reason := why_status, st_error_class := ''before_dispatch''\<rparr>) now w1))
             else if ef_state row = Dispatching then
               (if status = TSucceeded
                then lift (ob_settle json_len eid Succeeded (plain_settlement\<lparr>st_external_ref := external_ref\<rparr>) now w1)
                else if status = TPartial
                then lift (ob_settle json_len eid Partial (plain_settlement\<lparr>st_reason := why\<rparr>) now w1)
                else if status = TDenied \<or> status = TConflict \<or> explicit_not_dispatched
                then lift (ob_settle json_len eid FailedBeforeEffect (plain_settlement\<lparr>st_reason := why_status\<rparr>) now w1)
                else lift (ob_settle json_len eid OutcomeUnknown
                  (plain_settlement\<lparr>st_reason := why_status, st_error_class := ''generic_after_dispatch''\<rparr>) now w1))
             else (Inr (Some row), w1))"

definition empty_outbox :: outbox where
  "empty_outbox = \<lparr>ob_rows = [], ob_events = [], ob_calls = [], ob_faults = []\<rparr>"

end
