(* ===== verification/Outbox_Safety.thy ===== *)
theory Outbox_Safety
  imports Effect_Dispatch
begin

text \<open>
  What the outbox promises. One invariant ties each row's state to its certainty, its dispatch
  count and the recorded transport calls, keeps the unique index, and makes the event log of each
  effect a legal path to its current state. Every write keeps it under every pattern of storage
  failures, given what its operation read before; theory \<open>Outbox_Runs\<close> interleaves the reads and
  writes of several threads. A row that was cancelled may have been called even when its
  certainty is \<open>none\<close>: \<open>cancel\<close> decides the certainty on a row it read before another thread's
  dispatch began.
\<close>

section \<open>The invariant\<close>

definition row_valid :: "effect_row \<Rightarrow> bool" where
  "row_valid r \<longleftrightarrow>
     (case ef_state r of
        Prepared \<Rightarrow> ef_certainty r = CNone \<and> ef_dispatch_count r = 0
      | Admitted \<Rightarrow> ef_certainty r = CNone \<and> ef_dispatch_count r = 0
      | Dispatching \<Rightarrow> ef_certainty r = CUnknown \<and> ef_dispatch_count r = 1
      | Succeeded \<Rightarrow> ef_certainty r = CConfirmed \<and> ef_dispatch_count r = 1
      | FailedBeforeEffect \<Rightarrow> ef_certainty r = CNone \<and> ef_dispatch_count r \<le> 1
      | Partial \<Rightarrow> ef_certainty r = CPartial \<and> ef_dispatch_count r = 1
      | OutcomeUnknown \<Rightarrow> ef_certainty r = CUnknown \<and> ef_dispatch_count r = 1
      | Reconciled \<Rightarrow> ef_certainty r \<in> {CConfirmed, CNone} \<and> ef_dispatch_count r \<le> 1
      | Cancelled \<Rightarrow> (ef_certainty r = CNone \<and> ef_dispatch_count r \<le> 1)
                   \<or> (ef_certainty r = CUnknown \<and> ef_dispatch_count r = 1))"

definition keys_ok :: "(string, effect_row) dict \<Rightarrow> bool" where
  "keys_ok rows \<longleftrightarrow> (\<forall>a b ra rb. dget rows a = Some ra \<longrightarrow> dget rows b = Some rb \<longrightarrow> a \<noteq> b \<longrightarrow>
     same_key ra rb \<longrightarrow> \<not> (blocking ra \<and> blocking rb))"

text \<open>The log of one effect: from no state, along legal moves.\<close>

fun log_end :: "effect_event list \<Rightarrow> eff_state option \<Rightarrow> eff_state option option" where
  "log_end [] st = Some st"
| "log_end (e # es) st =
     (if ev_from e = st \<and> (case st of None \<Rightarrow> ev_to e = Prepared | Some x \<Rightarrow> ev_to e \<in> set (transitions x))
      then log_end es (Some (ev_to e)) else None)"

definition log_of :: "string \<Rightarrow> outbox \<Rightarrow> effect_event list" where
  "log_of eid w = filter (\<lambda>e. ev_effect_id e = eid) (ob_events w)"

definition ob_inv :: "outbox \<Rightarrow> bool" where
  "ob_inv w \<longleftrightarrow> dwf (ob_rows w)
     \<and> (\<forall>eid r. dget (ob_rows w) eid = Some r \<longrightarrow> ef_id r = eid \<and> row_valid r)
     \<and> keys_ok (ob_rows w)
     \<and> distinct (ob_calls w)
     \<and> (\<forall>eid \<in> set (ob_calls w). \<exists>r. dget (ob_rows w) eid = Some r \<and> ef_dispatch_count r = 1)
     \<and> (\<forall>eid. log_end (log_of eid w) None = Some (map_option ef_state (dget (ob_rows w) eid)))"

lemma ob_inv_empty: "ob_inv empty_outbox"
  by (simp add: ob_inv_def empty_outbox_def keys_ok_def log_of_def)

lemma access_cases:
  obtains bs b where "access w = (b, w\<lparr>ob_faults := bs\<rparr>)"
  by (cases "ob_faults w") (auto simp: access_def intro: that [of _ "[]"])

lemma ob_inv_faults [simp]: "ob_inv (w\<lparr>ob_faults := bs\<rparr>) = ob_inv w"
  by (simp add: ob_inv_def log_of_def)

lemma access_inv: "access w = (b, w') \<Longrightarrow> ob_inv w \<Longrightarrow> ob_inv w'"
  by (cases rule: access_cases [of w]) auto

lemma access_frame:
  "access w = (b, w') \<Longrightarrow> ob_rows w' = ob_rows w \<and> ob_events w' = ob_events w \<and> ob_calls w' = ob_calls w"
  by (cases rule: access_cases [of w]) auto

lemma ob_get_frame:
  "ob_rows (snd (ob_get eid owner w)) = ob_rows w"
  "ob_calls (snd (ob_get eid owner w)) = ob_calls w"
  "ob_inv (snd (ob_get eid owner w)) = ob_inv w"
  by (cases rule: access_cases [of w]; auto simp: ob_get_def split: bool.splits option.splits)+

lemma ob_get_SomeD: "ob_get eid owner w = (Some r, w') \<Longrightarrow> dget (ob_rows w) eid = Some r \<and> dget (ob_rows w') eid = Some r"
  by (cases rule: access_cases [of w])
     (auto simp: ob_get_def split: bool.splits option.splits if_splits)

section \<open>Moves\<close>

text \<open>The fields an update may not touch: the row's identity and its key.\<close>

definition keeps_key :: "(effect_row \<Rightarrow> effect_row) \<Rightarrow> bool" where
  "keeps_key upd \<longleftrightarrow> (\<forall>r. ef_id (upd r) = ef_id r \<and> ef_owner (upd r) = ef_owner r \<and> ef_kind (upd r) = ef_kind r
     \<and> ef_dedup_key (upd r) = ef_dedup_key r \<and> ef_boot_id (upd r) = ef_boot_id r)"

definition moved_row :: "(effect_row \<Rightarrow> effect_row) \<Rightarrow> eff_state \<Rightarrow> certainty \<Rightarrow> effect_row \<Rightarrow> effect_row" where
  "moved_row upd to_state cert r = (upd r)\<lparr>ef_state := to_state, ef_certainty := cert\<rparr>"

definition moved_world ::
  "string \<Rightarrow> eff_state \<Rightarrow> certainty \<Rightarrow> (effect_row \<Rightarrow> effect_row) \<Rightarrow> (string, string) dict \<Rightarrow> string \<Rightarrow> effect_row
     \<Rightarrow> bool list \<Rightarrow> outbox \<Rightarrow> outbox" where
  "moved_world eid to_state cert upd detail now r bs w =
     w\<lparr>ob_faults := bs, ob_rows := dset eid (moved_row upd to_state cert r) (ob_rows w),
       ob_events := ob_events w @ [\<lparr>ev_effect_id = eid, ev_ts = now, ev_from = Some (ef_state r), ev_to = to_state,
          ev_certainty = cert, ev_detail = detail\<rparr>]\<rparr>"

lemma ob_move_cases:
  obtains (failed) e bs where "ob_move eid to_state cert al upd detail now w = (Inl e, w\<lparr>ob_faults := bs\<rparr>)"
  | (moved) x r bs where
      "ob_move eid to_state cert al upd detail now w = (x, moved_world eid to_state cert upd detail now r bs w)"
      "dget (ob_rows w) eid = Some r" "ef_state r \<in> set al" "to_state \<in> set (transitions (ef_state r))"
      "\<not> index_clash eid (moved_row upd to_state cert r) (ob_rows w)"
      "\<And>r'. x = Inr r' \<Longrightarrow> r' = moved_row upd to_state cert r"
proof -
  obtain b bs where a: "access w = (b, w\<lparr>ob_faults := bs\<rparr>)" by (rule access_cases)
  show thesis
  proof (cases "b \<or> dget (ob_rows w) eid = None")
    case True
    then have "\<exists>e. ob_move eid to_state cert al upd detail now w = (Inl e, w\<lparr>ob_faults := bs\<rparr>)"
      using a by (cases b) (auto simp: ob_move_def)
    then show thesis using failed by blast
  next
    case False
    then obtain r where r: "dget (ob_rows w) eid = Some r" and b: "\<not> b" by auto
    show thesis
    proof (cases "ef_state r \<notin> set al \<or> to_state \<notin> set (transitions (ef_state r))
        \<or> index_clash eid (moved_row upd to_state cert r) (ob_rows w)")
      case True
      then have "\<exists>e. ob_move eid to_state cert al upd detail now w = (Inl e, w\<lparr>ob_faults := bs\<rparr>)"
        using a r b by (auto simp: ob_move_def moved_row_def Let_def)
      then show thesis using failed by blast
    next
      case ok: False
      let ?w2 = "moved_world eid to_state cert upd detail now r bs w"
      obtain b' bs' where a': "access ?w2 = (b', ?w2\<lparr>ob_faults := bs'\<rparr>)" by (rule access_cases)
      have "?w2\<lparr>ob_faults := bs'\<rparr> = moved_world eid to_state cert upd detail now r bs' w"
        by (rule outbox.equality) (simp_all add: moved_world_def)
      moreover have "ob_move eid to_state cert al upd detail now w =
          (if b' then Inl SqliteError else Inr (moved_row upd to_state cert r), ?w2\<lparr>ob_faults := bs'\<rparr>)"
        using a a' r b ok by (auto simp: ob_move_def moved_row_def moved_world_def Let_def)
      ultimately show thesis using r ok by (intro moved) (auto split: if_splits)
    qed
  qed
qed

lemma log_end_append:
  "log_end (xs @ ys) st = (case log_end xs st of None \<Rightarrow> None | Some st' \<Rightarrow> log_end ys st')"
  by (induction xs st rule: log_end.induct) auto

lemma keys_ok_dset:
  assumes "keys_ok rows" and "\<not> index_clash eid r rows" and "dwf rows"
  shows "keys_ok (dset eid r rows)"
proof -
  have no: "\<not> (blocking r \<and> blocking r')" if "dget rows k = Some r'" "k \<noteq> eid" "same_key r r'" for k r'
    using assms(2) that dget_SomeD [OF that(1)] by (auto simp: index_clash_def list_ex_iff)
  have sym: "same_key a b \<Longrightarrow> same_key b a" for a b by (auto simp: same_key_def)
  show ?thesis
    using assms(1) no unfolding keys_ok_def by (auto split: if_splits dest: sym)
qed

lemma moved_world_inv:
  assumes inv: "ob_inv w" and r: "dget (ob_rows w) eid = Some r"
    and tr: "to_state \<in> set (transitions (ef_state r))"
    and nc: "\<not> index_clash eid (moved_row upd to_state cert r) (ob_rows w)"
    and kk: "keeps_key upd" and rv: "row_valid (moved_row upd to_state cert r)"
    and cnt: "ef_dispatch_count r \<le> ef_dispatch_count (upd r)"
  shows "ob_inv (moved_world eid to_state cert upd detail now r bs w)"
proof -
  let ?r' = "moved_row upd to_state cert r"
  have wf: "dwf (ob_rows w)" and ks: "keys_ok (ob_rows w)" and val: "row_valid r" and id: "ef_id r = eid"
    using inv r by (auto simp: ob_inv_def)
  have id': "ef_id ?r' = eid" using kk id by (simp add: moved_row_def keeps_key_def)
  have le1: "ef_dispatch_count ?r' \<le> 1"
    using rv by (auto simp: row_valid_def split: eff_state.splits)
  have keys: "keys_ok (dset eid ?r' (ob_rows w))" by (rule keys_ok_dset [OF ks nc wf])
  have calls: "\<exists>x. dget (dset eid ?r' (ob_rows w)) k = Some x \<and> ef_dispatch_count x = 1"
    if "k \<in> set (ob_calls w)" for k
  proof -
    obtain x where x: "dget (ob_rows w) k = Some x" "ef_dispatch_count x = 1"
      using inv \<open>k \<in> set (ob_calls w)\<close> unfolding ob_inv_def by blast
    show ?thesis
    proof (cases "k = eid")
      case True
      with x r cnt le1 show ?thesis by (simp add: moved_row_def)
    qed (use x in auto)
  qed
  have logs: "log_end (log_of k (moved_world eid to_state cert upd detail now r bs w)) None
      = Some (map_option ef_state (dget (dset eid ?r' (ob_rows w)) k))" for k
  proof -
    have "log_end (log_of k w) None = Some (map_option ef_state (dget (ob_rows w) k))"
      using inv by (simp add: ob_inv_def)
    then show ?thesis using r tr by (auto simp: log_of_def moved_world_def log_end_append moved_row_def)
  qed
  from inv wf keys calls logs rv id' show ?thesis
    by (auto simp: ob_inv_def moved_world_def log_of_def)
qed

lemma ob_move_inv:
  assumes "ob_inv w" and "keeps_key upd"
    and "\<And>r. dget (ob_rows w) eid = Some r \<Longrightarrow> ef_state r \<in> set al \<Longrightarrow>
        to_state \<in> set (transitions (ef_state r)) \<Longrightarrow> row_valid r \<Longrightarrow>
        row_valid (moved_row upd to_state cert r) \<and> ef_dispatch_count r \<le> ef_dispatch_count (upd r)"
  shows "ob_inv (snd (ob_move eid to_state cert al upd detail now w))"
proof (cases rule: ob_move_cases [of eid to_state cert al upd detail now w])
  case (failed e bs)
  with assms(1) show ?thesis by simp
next
  case (moved x r bs)
  have "row_valid r" using assms(1) moved(2) by (auto simp: ob_inv_def)
  with moved assms show ?thesis by (auto intro!: moved_world_inv)
qed

lemma ob_move_calls [simp]: "ob_calls (snd (ob_move eid to_state cert al upd detail now w)) = ob_calls w"
  by (cases rule: ob_move_cases [of eid to_state cert al upd detail now w]) (auto simp: moved_world_def)


section \<open>Every operation keeps the invariant\<close>

lemmas move_simps = keeps_key_def moved_row_def row_valid_def

lemma row_valid_evidence [simp]: "row_valid (r\<lparr>ef_evidence := x\<rparr>) = row_valid r"
  by (cases "ef_state r") (simp_all add: row_valid_def)

lemma row_validD: "ob_inv w \<Longrightarrow> dget (ob_rows w) eid = Some r \<Longrightarrow> row_valid r \<and> ef_id r = eid"
  by (auto simp: ob_inv_def)

lemma ob_inv_called:
  "ob_inv w \<Longrightarrow> eid \<in> set (ob_calls w) \<Longrightarrow> \<exists>r. dget (ob_rows w) eid = Some r \<and> ef_dispatch_count r = 1"
  unfolding ob_inv_def by blast

lemma ob_prepare_cases:
  obtains (unchanged) x bs where "ob_prepare q cx eid boot now w = (x, w\<lparr>ob_faults := bs\<rparr>)" "\<nexists>r. x = Inr (Fresh r)"
  | (inserted) x bs where
      "ob_prepare q cx eid boot now w = (x, w\<lparr>ob_faults := bs, ob_rows := dset eid (new_row q cx eid boot now) (ob_rows w),
         ob_events := ob_events w @ [\<lparr>ev_effect_id = eid, ev_ts = now, ev_from = None, ev_to = Prepared,
           ev_certainty = CNone, ev_detail = []\<rparr>]\<rparr>)"
      "dget (ob_rows w) eid = None" "\<not> index_clash eid (new_row q cx eid boot now) (ob_rows w)"
      "\<And>r. x = Inr (Fresh r) \<Longrightarrow> r = new_row q cx eid boot now" "\<nexists>r. x = Inr (Dedup r)"
proof -
  obtain b bs where a: "access w = (b, w\<lparr>ob_faults := bs\<rparr>)" by (rule access_cases)
  let ?row = "new_row q cx eid boot now"
  show thesis
  proof (cases "b \<or> dget (ob_rows w) eid \<noteq> None \<or> index_clash eid ?row (ob_rows w)")
    case True
    then have "\<exists>x. ob_prepare q cx eid boot now w = (x, w\<lparr>ob_faults := bs\<rparr>) \<and> (\<nexists>r. x = Inr (Fresh r))"
      using a by (cases b) (auto simp: ob_prepare_def Let_def split: option.splits)
    then show thesis using unchanged by blast
  next
    case False
    let ?w2 = "w\<lparr>ob_faults := bs, ob_rows := dset eid ?row (ob_rows w),
         ob_events := ob_events w @ [\<lparr>ev_effect_id = eid, ev_ts = now, ev_from = None, ev_to = Prepared,
           ev_certainty = CNone, ev_detail = []\<rparr>]\<rparr>"
    obtain b' bs' where a': "access ?w2 = (b', ?w2\<lparr>ob_faults := bs'\<rparr>)" by (rule access_cases)
    have eq: "?w2\<lparr>ob_faults := bs'\<rparr> = w\<lparr>ob_faults := bs', ob_rows := dset eid ?row (ob_rows w),
         ob_events := ob_events w @ [\<lparr>ev_effect_id = eid, ev_ts = now, ev_from = None, ev_to = Prepared,
           ev_certainty = CNone, ev_detail = []\<rparr>]\<rparr>"
      by (rule outbox.equality) simp_all
    have "ob_prepare q cx eid boot now w = (if b' then Inl IntentNotPersisted else Inr (Fresh ?row), ?w2\<lparr>ob_faults := bs'\<rparr>)"
      using False a a' by (auto simp: ob_prepare_def ob_get_def Let_def)
    with False show thesis unfolding eq by (intro inserted) (auto split: if_splits)
  qed
qed

lemma ob_prepare_inv:
  assumes inv: "ob_inv w"
  shows "ob_inv (snd (ob_prepare q cx eid boot now w))"
proof (cases rule: ob_prepare_cases [of q cx eid boot now w])
  case (unchanged x bs)
  with inv show ?thesis by simp
next
  case (inserted x bs)
  let ?row = "new_row q cx eid boot now"
  have wf: "dwf (ob_rows w)" and ks: "keys_ok (ob_rows w)" using inv by (auto simp: ob_inv_def)
  have rv: "row_valid ?row" and id: "ef_id ?row = eid" and st: "ef_state ?row = Prepared"
    by (simp_all add: new_row_def row_valid_def)
  have "eid \<notin> set (ob_calls w)" using inv inserted(2) by (force simp: ob_inv_def)
  with inserted wf rv id st inv keys_ok_dset [OF ks inserted(3) wf] show ?thesis
    by (auto simp: ob_inv_def log_of_def log_end_append)
qed

lemma ob_admit_write_inv: "ob_inv w \<Longrightarrow> ob_inv (snd (ob_admit_write eid now w))"
  unfolding ob_admit_write_def by (rule ob_move_inv) (auto simp: move_simps)

lemma ob_admit_inv: "ob_inv w \<Longrightarrow> ob_inv (snd (ob_admit eid now w))"
proof -
  assume inv: "ob_inv w"
  obtain r w1 where g: "ob_get eid None w = (r, w1)" by fastforce
  then have "ob_inv w1" using ob_get_frame(3) [of eid None w] inv by simp
  then have "ob_inv (snd (ob_admit_write eid now w1))" by (rule ob_admit_write_inv)
  with g \<open>ob_inv w1\<close> show ?thesis
    by (auto simp: ob_admit_def split: option.splits prod.splits sum.splits)
qed

lemma ob_begin_write_inv:
  assumes "ob_inv w" "\<And>r. dget (ob_rows w) eid = Some r \<Longrightarrow> count \<le> ef_dispatch_count r"
  shows "ob_inv (snd (ob_begin_write eid count now w))"
  unfolding ob_begin_write_def using assms(1)
  by (rule ob_move_inv) (use assms(2) in \<open>auto simp: move_simps\<close>)

lemma ob_begin_write_ok:
  assumes "ob_begin_write eid count now w = (Inr r, w')" "ob_inv w"
    and "\<And>r. dget (ob_rows w) eid = Some r \<Longrightarrow> count \<le> ef_dispatch_count r"
  shows "ob_inv w'" and "eid \<notin> set (ob_calls w)" and "ob_calls w' = ob_calls w"
    and "\<exists>r0. dget (ob_rows w) eid = Some r0 \<and> ef_dispatch_count r0 = 0"
    and "dget (ob_rows w') eid = Some r \<and> ef_dispatch_count r = 1"
proof -
  show inv': "ob_inv w'" using ob_begin_write_inv [OF assms(2,3), of eid now] assms(1) by simp
  let ?u = "\<lambda>r. r\<lparr>ef_dispatch_started_at := Some now, ef_dispatch_count := count + 1\<rparr>"
  from assms(1) have m: "ob_move eid Dispatching CUnknown [Admitted] ?u [] now w = (Inr r, w')"
    by (simp add: ob_begin_write_def)
  obtain r0 bs where r0: "w' = moved_world eid Dispatching CUnknown ?u [] now r0 bs w"
    "dget (ob_rows w) eid = Some r0" "ef_state r0 = Admitted" "r = moved_row ?u Dispatching CUnknown r0"
    by (cases rule: ob_move_cases [of eid Dispatching CUnknown "[Admitted]" ?u "[]" now w]) (use m in auto)
  have c0: "ef_dispatch_count r0 = 0"
    using row_validD [OF assms(2) r0(2)] r0(3) by (simp add: row_valid_def)
  then show "\<exists>r0. dget (ob_rows w) eid = Some r0 \<and> ef_dispatch_count r0 = 0" using r0(2) by blast
  show "eid \<notin> set (ob_calls w)" using ob_inv_called [OF assms(2), of eid] c0 r0(2) by auto
  show "ob_calls w' = ob_calls w" using r0(1) by (simp add: moved_world_def)
  show "dget (ob_rows w') eid = Some r \<and> ef_dispatch_count r = 1"
    using r0 c0 assms(3) [OF r0(2)] by (simp add: moved_world_def moved_row_def)
qed

lemma call_inv:
  assumes "ob_inv w" "eid \<notin> set (ob_calls w)" "dget (ob_rows w) eid = Some r" "ef_dispatch_count r = 1"
  shows "ob_inv (call_transport eid w)"
  using assms unfolding ob_inv_def by (auto simp: call_transport_def log_of_def)

lemma ob_begin_inv:
  assumes inv: "ob_inv w"
  shows "ob_inv (snd (ob_begin_dispatch eid now w))"
    and "ob_begin_dispatch eid now w = (Inr r, w') \<Longrightarrow> ob_inv (call_transport eid w')"
proof -
  obtain b w1 where a: "access w = (b, w1)" by fastforce
  have inv1: "ob_inv w1" using a inv access_inv by auto
  let ?c = "case dget (ob_rows w1) eid of None \<Rightarrow> 0 | Some r \<Rightarrow> ef_dispatch_count r"
  have c: "\<And>r. dget (ob_rows w1) eid = Some r \<Longrightarrow> ?c \<le> ef_dispatch_count r" by simp
  have "ob_inv (snd (ob_begin_write eid ?c now w1))" using c by (rule ob_begin_write_inv [OF inv1])
  then have wr: "ob_inv w2" if "ob_begin_write eid ?c now w1 = (x, w2)" for x w2 using that by simp
  from a inv1 wr show "ob_inv (snd (ob_begin_dispatch eid now w))"
    by (auto simp: ob_begin_dispatch_def Let_def split: bool.splits prod.splits sum.splits)
  assume "ob_begin_dispatch eid now w = (Inr r, w')"
  with a have m: "ob_begin_write eid ?c now w1 = (Inr r, w')"
    by (auto simp: ob_begin_dispatch_def Let_def split: bool.splits prod.splits sum.splits)
  have "ob_inv w'" "eid \<notin> set (ob_calls w')" "dget (ob_rows w') eid = Some r \<and> ef_dispatch_count r = 1"
    using ob_begin_write_ok [OF m inv1] c by simp_all
  then show "ob_inv (call_transport eid w')" by (blast intro: call_inv)
qed

lemma ob_begin_invD:
  assumes "ob_inv w"
  shows "ob_begin_dispatch eid now w = (Inl e, w') \<Longrightarrow> ob_inv w'"
    and "ob_begin_dispatch eid now w = (Inr r, w') \<Longrightarrow> ob_inv (call_transport eid w')"
  using ob_begin_inv [OF assms, of eid now] by auto

lemma ob_settle_write_inv:
  assumes "ob_inv w" "settled_certainty outcome = Some cert"
  shows "ob_inv (snd (ob_settle_write jl eid outcome cert s current now w))"
  unfolding ob_settle_write_def Let_def using assms(1)
  by (rule ob_move_inv)
    (use assms(2) in \<open>cases outcome; auto simp: move_simps split: eff_state.splits if_splits\<close>)+

lemma ob_settle_inv: "ob_inv w \<Longrightarrow> ob_inv (snd (ob_settle jl eid outcome s now w))"
proof (cases "settled_certainty outcome")
  case (Some cert)
  assume inv: "ob_inv w"
  obtain cur w1 where g: "ob_get eid None w = (cur, w1)" by fastforce
  then have "ob_inv w1" using ob_get_frame(3) [of eid None w] inv by simp
  from ob_settle_write_inv [OF this Some] g Some show ?thesis by (simp add: ob_settle_def)
qed (simp add: ob_settle_def)

lemma ob_cancel_write_inv:
  assumes "ob_inv w" "\<And>r. during \<Longrightarrow> dget (ob_rows w) eid = Some r \<Longrightarrow> 1 \<le> ef_dispatch_count r"
  shows "ob_inv (snd (ob_cancel_write eid during reason now w))"
  unfolding ob_cancel_write_def using assms(1)
  by (rule ob_move_inv) (use assms(2) in \<open>force simp: move_simps split: eff_state.splits\<close>)+

lemma ob_cancel_inv: "ob_inv w \<Longrightarrow> ob_inv (snd (ob_cancel eid reason now w))"
proof -
  assume inv: "ob_inv w"
  obtain cur w1 where g: "ob_get eid None w = (cur, w1)" by fastforce
  then have inv1: "ob_inv w1" using ob_get_frame(3) [of eid None w] inv by simp
  show ?thesis
  proof (cases cur)
    case None
    with g inv1 show ?thesis by (simp add: ob_cancel_def)
  next
    case (Some r)
    then have r: "dget (ob_rows w1) eid = Some r" using ob_get_SomeD g by blast
    then have "ef_state r = Dispatching \<Longrightarrow> dget (ob_rows w1) eid = Some r' \<Longrightarrow> 1 \<le> ef_dispatch_count r'" for r'
      using row_validD [OF inv1 r] by (simp add: row_valid_def)
    from ob_cancel_write_inv [OF inv1 this] Some g show ?thesis by (simp add: ob_cancel_def)
  qed
qed

lemma ob_note_evidence_inv:
  assumes "ob_inv w"
  shows "ob_inv (ob_note_evidence jl eid h w)"
proof -
  obtain b bs where a: "access w = (b, w\<lparr>ob_faults := bs\<rparr>)" by (rule access_cases)
  show ?thesis
  proof (cases "b \<or> dget (ob_rows w) eid = None")
    case True
    with a assms show ?thesis by (cases b) (auto simp: ob_note_evidence_def)
  next
    case False
    then obtain r where r: "dget (ob_rows w) eid = Some r" by auto
    let ?r' = "r\<lparr>ef_evidence := stored_evidence jl h\<rparr>"
    have bl: "blocking ?r' = blocking r" "\<And>x. same_key ?r' x = same_key r x" "\<And>x. same_key x ?r' = same_key x r"
      by (auto simp: blocking_def same_key_def)
    have ko: "keys_ok (dset eid ?r' (ob_rows w))"
      using assms r bl unfolding ob_inv_def keys_ok_def by (auto split: if_splits)
    have rv: "row_valid ?r'" "ef_id ?r' = eid" using row_validD [OF assms r] by auto
    let ?w' = "w\<lparr>ob_faults := bs, ob_rows := dset eid ?r' (ob_rows w)\<rparr>"
    have st: "map_option ef_state (dget (dset eid ?r' (ob_rows w)) k) = map_option ef_state (dget (ob_rows w) k)"
      for k using r by auto
    have calls: "\<exists>x. dget (ob_rows ?w') k = Some x \<and> ef_dispatch_count x = 1" if "k \<in> set (ob_calls w)" for k
      using ob_inv_called [OF assms that] r by auto
    have "ob_inv ?w'"
      unfolding ob_inv_def
    proof (intro conjI allI impI ballI)
      show "dwf (ob_rows ?w')" using assms by (simp add: ob_inv_def)
      show "keys_ok (ob_rows ?w')" using ko by simp
      show "distinct (ob_calls ?w')" using assms by (simp add: ob_inv_def)
      show "\<exists>x. dget (ob_rows ?w') k = Some x \<and> ef_dispatch_count x = 1" if "k \<in> set (ob_calls ?w')" for k
        using calls that by simp
      show "log_end (log_of k ?w') None = Some (map_option ef_state (dget (ob_rows ?w') k))" for k
        using assms st [of k] by (simp add: ob_inv_def log_of_def)
      show "ef_id x = k" "row_valid x" if "dget (ob_rows ?w') k = Some x" for k x
        using that rv row_validD [OF assms, of k x] by (auto split: if_splits)
    qed
    moreover have "ob_note_evidence jl eid h w = ?w'"
      using False a r by (simp add: ob_note_evidence_def)
    ultimately show ?thesis by simp
  qed
qed

lemma reconcile_move_inv:
  assumes "ob_inv w" "keeps_key upd" "c \<in> {CConfirmed, CNone}" "\<And>r. ef_dispatch_count (upd r) = ef_dispatch_count r"
  shows "ob_inv (snd (ob_move eid Reconciled c reconcilable_states upd d now w))"
  using assms(1,2)
  by (rule ob_move_inv) (use assms(3,4) in \<open>auto simp: move_simps reconcilable_states_def split: eff_state.splits\<close>)

lemma reconcile_answered_inv:
  assumes "ob_inv w"
  shows "ob_inv (snd (reconcile_answered jl eid rec answer now w))"
proof -
  have m: "ob_inv w2"
    if "ob_move eid Reconciled c reconcilable_states upd d now w = (x, w2)" "keeps_key upd"
      "c \<in> {CConfirmed, CNone}" "\<And>r. ef_dispatch_count (upd r) = ef_dispatch_count r" for upd c d x w2
    using reconcile_move_inv [OF assms that(2,3,4), of eid d now] that(1) by simp
  have n: "ob_inv w3" if "ob_get eid None (ob_note_evidence jl eid h w) = (x, w3)" for h x w3
    using ob_note_evidence_inv [OF assms, of jl eid h] ob_get_frame(3) [of eid None "ob_note_evidence jl eid h w"] that
    by simp
  show ?thesis
    by (auto simp: reconcile_answered_def Let_def keeps_key_def intro: n m
        split: prod.splits sum.splits found.splits bool.splits)
qed

lemma ob_reconcile_inv:
  assumes "ob_inv w"
  shows "ob_inv (snd (ob_reconcile jl eid owner given reg now w))"
proof -
  obtain cur w1 where g: "ob_get eid owner w = (cur, w1)" by fastforce
  then have inv1: "ob_inv w1" using ob_get_frame(3) [of eid owner w] assms by simp
  then show ?thesis
    using g reconcile_answered_inv [OF inv1] by (auto simp: ob_reconcile_def split: option.splits)
qed

lemma resolve_write_inv:
  assumes "ob_inv w"
  shows "ob_inv (snd (resolve_write jl eid rec landed note actor now w))"
  unfolding resolve_write_def Let_def
  by (rule reconcile_move_inv [OF assms]) (auto simp: keeps_key_def)

lemma ob_resolve_inv:
  assumes "ob_inv w"
  shows "ob_inv (snd (ob_resolve_manually jl eid landed note actor owner now w))"
proof -
  obtain cur w1 where g: "ob_get eid owner w = (cur, w1)" by fastforce
  then have inv1: "ob_inv w1" using ob_get_frame(3) [of eid owner w] assms by simp
  have "ob_inv w2" if "resolve_write jl eid rec landed note actor now w1 = (x, w2)" for rec x w2
    using that resolve_write_inv [OF inv1] by (metis snd_conv)
  with g inv1 show ?thesis
    by (auto simp: ob_resolve_manually_def split: option.splits prod.splits sum.splits)
qed

lemma recover_one_inv: "ob_inv w \<Longrightarrow> ob_inv (snd (snd (recover_one now row (u, c, w))))"
proof -
  assume inv: "ob_inv w"
  have "ob_inv (snd (ob_move (ef_id row) OutcomeUnknown CUnknown [Dispatching] upd d now w))"
    if "keeps_key upd" "\<And>r. ef_dispatch_count (upd r) = ef_dispatch_count r" for upd d
    using inv that by (intro ob_move_inv) (auto simp: move_simps split: eff_state.splits)
  then have m1: "ob_inv w2"
    if "ob_move (ef_id row) OutcomeUnknown CUnknown [Dispatching] upd d now w = (x, w2)"
      "keeps_key upd" "\<And>r. ef_dispatch_count (upd r) = ef_dispatch_count r" for upd d x w2
    using that by (metis snd_conv)
  have "ob_inv (snd (ob_move (ef_id row) Cancelled CNone [ef_state row] upd d now w))"
    if "ef_state row \<noteq> Dispatching" "keeps_key upd" "\<And>r. ef_dispatch_count (upd r) = ef_dispatch_count r" for upd d
    using inv that by (intro ob_move_inv) (auto simp: move_simps split: eff_state.splits)
  then have m2: "ob_inv w2"
    if "ob_move (ef_id row) Cancelled CNone [ef_state row] upd d now w = (x, w2)"
      "ef_state row \<noteq> Dispatching" "keeps_key upd" "\<And>r. ef_dispatch_count (upd r) = ef_dispatch_count r" for upd d x w2
    using that by (metis snd_conv)
  show ?thesis
    by (auto simp: recover_one_def keeps_key_def intro: m1 m2 split: prod.splits sum.splits)
qed

lemma recover_fold_inv: "ob_inv (snd (snd acc)) \<Longrightarrow> ob_inv (snd (snd (fold (recover_one now) rows acc)))"
proof (induction rows arbitrary: acc)
  case (Cons row rows)
  have "ob_inv (snd (snd (recover_one now row acc)))"
    using Cons.prems recover_one_inv [of "snd (snd acc)" now row "fst acc" "fst (snd acc)"] by simp
  then show ?case using Cons.IH by simp
qed simp

lemma ob_recover_inv: "ob_inv w \<Longrightarrow> ob_inv (snd (snd (ob_recover_orphans boot now w)))"
  by (cases rule: access_cases [of w])
     (auto simp: ob_recover_orphans_def intro!: recover_fold_inv split: bool.splits)

end
