(* ===== verification/Outbox_Runs.thy ===== *)
theory Outbox_Runs
  imports Outbox_Safety
begin

text \<open>
  Several threads and processes on one outbox file. An operation of the code is one or more
  connections; here each connection is a step of its own, so whatever another thread does may
  come between the read of an operation and its write. A row that was read is kept in
  \<open>ow_seen\<close>: every later write may use any row read before it, however old, which covers every
  local variable of every thread. \<open>ow_begun\<close> holds the effects whose \<open>begin_dispatch\<close> has
  returned and whose transport is still to be called. A thread that dies keeps no step.
\<close>

section \<open>Steps\<close>

record outbox_world =
  ow_box :: outbox
  ow_seen :: "effect_row list"
  ow_begun :: "string list"

datatype ob_op =
    OpRead string "string option"
  | OpScan
  | OpPrepare effect_request effect_context string string string
  | OpAdmit nat string
  | OpBegin string "nat option" string
  | OpCall string
  | OpSettle string "nat option" eff_state settlement string
  | OpCancel nat string string
  | OpReconcile nat found string
  | OpResolve nat bool string string string
  | OpRecover nat string string
  | OpFaults "bool list"

definition seen_row :: "nat \<Rightarrow> outbox_world \<Rightarrow> effect_row option" where
  "seen_row n w = (if n < length (ow_seen w) then Some (ow_seen w ! n) else None)"

text \<open>
  What an operation on \<open>eid\<close> read before its write: nothing (\<open>None\<close>: the row was missing or the
  connection failed) or a row of that effect. The outer option is \<open>None\<close> when there is no such
  reading.
\<close>

definition seen_as :: "string \<Rightarrow> nat option \<Rightarrow> outbox_world \<Rightarrow> effect_row option option" where
  "seen_as eid k w =
     (case k of None \<Rightarrow> Some None
      | Some n \<Rightarrow> (case seen_row n w of
                     None \<Rightarrow> None
                   | Some r \<Rightarrow> if ef_id r = eid then Some (Some r) else None))"

definition write_seen ::
  "nat \<Rightarrow> (effect_row \<Rightarrow> bool) \<Rightarrow> (effect_row \<Rightarrow> outbox \<Rightarrow> outbox) \<Rightarrow> outbox_world \<Rightarrow> outbox_world" where
  "write_seen n guard f w =
     (case seen_row n w of
        None \<Rightarrow> w
      | Some r \<Rightarrow> if guard r then w\<lparr>ow_box := f r (ow_box w)\<rparr> else w)"

fun ob_step :: "(evidence list \<Rightarrow> nat) \<Rightarrow> ob_op \<Rightarrow> outbox_world \<Rightarrow> outbox_world" where
  "ob_step jl (OpRead eid owner) w =
     (case ob_get eid owner (ow_box w) of
        (None, b) \<Rightarrow> w\<lparr>ow_box := b\<rparr>
      | (Some r, b) \<Rightarrow> w\<lparr>ow_box := b, ow_seen := ow_seen w @ [r]\<rparr>)"
| "ob_step jl OpScan w =
     (case access (ow_box w) of
        (True, b) \<Rightarrow> w\<lparr>ow_box := b\<rparr>
      | (False, b) \<Rightarrow> w\<lparr>ow_box := b, ow_seen := ow_seen w @ map snd (ob_rows b)\<rparr>)"
| "ob_step jl (OpPrepare q cx eid boot now) w = w\<lparr>ow_box := snd (ob_prepare q cx eid boot now (ow_box w))\<rparr>"
| "ob_step jl (OpAdmit n now) w =
     write_seen n (\<lambda>r. ef_state r = Prepared) (\<lambda>r b. snd (ob_admit_write (ef_id r) now b)) w"
| "ob_step jl (OpBegin eid k now) w =
     (case seen_as eid k w of
        None \<Rightarrow> w
      | Some cur \<Rightarrow>
          (case ob_begin_write eid (case cur of None \<Rightarrow> 0 | Some r \<Rightarrow> ef_dispatch_count r) now (ow_box w) of
             (Inl e, b) \<Rightarrow> w\<lparr>ow_box := b\<rparr>
           | (Inr r, b) \<Rightarrow> w\<lparr>ow_box := b, ow_begun := ow_begun w @ [eid]\<rparr>))"
| "ob_step jl (OpCall eid) w =
     (if eid \<in> set (ow_begun w)
      then w\<lparr>ow_box := call_transport eid (ow_box w), ow_begun := remove1 eid (ow_begun w)\<rparr> else w)"
| "ob_step jl (OpSettle eid k outcome s now) w =
     (case (settled_certainty outcome, seen_as eid k w) of
        (Some cert, Some cur) \<Rightarrow> w\<lparr>ow_box := snd (ob_settle_write jl eid outcome cert s cur now (ow_box w))\<rparr>
      | _ \<Rightarrow> w)"
| "ob_step jl (OpCancel n reason now) w =
     write_seen n (\<lambda>r. True)
       (\<lambda>r b. snd (ob_cancel_write (ef_id r) (ef_state r = Dispatching) reason now b)) w"
| "ob_step jl (OpReconcile n answer now) w =
     write_seen n (\<lambda>r. reconcilable r \<and> ef_identifier r \<noteq> [])
       (\<lambda>r b. snd (reconcile_answered jl (ef_id r) r answer now b)) w"
| "ob_step jl (OpResolve n landed remark actor now) w =
     write_seen n (\<lambda>r. ef_state r \<in> set reconcilable_states)
       (\<lambda>r b. snd (resolve_write jl (ef_id r) r landed remark actor now b)) w"
| "ob_step jl (OpRecover n boot now) w =
     write_seen n (orphan boot) (\<lambda>r b. snd (snd (recover_one now r (0, 0, b)))) w"
| "ob_step jl (OpFaults bs) w = w\<lparr>ow_box := (ow_box w)\<lparr>ob_faults := bs\<rparr>\<rparr>"

definition empty_world :: outbox_world where
  "empty_world = \<lparr>ow_box = empty_outbox, ow_seen = [], ow_begun = []\<rparr>"

text \<open>
  The operations of the code are these steps one after the other, when nothing comes between
  them: here \<open>cancel\<close> and \<open>begin_dispatch\<close>, on a row that can be read.
\<close>

lemma cancel_as_steps:
  assumes "ob_get eid None (ow_box w) = (Some r, b)" and "ef_id r = eid"
  shows "ow_box (fold (ob_step jl) [OpRead eid None, OpCancel (length (ow_seen w)) reason now] w)
    = snd (ob_cancel eid reason now (ow_box w))"
  using assms by (simp add: ob_cancel_def write_seen_def seen_row_def)

lemma begin_as_steps:
  assumes "ob_get eid None (ow_box w) = (Some r, b)" and "ef_id r = eid"
  shows "ow_box (fold (ob_step jl) [OpRead eid None, OpBegin eid (Some (length (ow_seen w))) now] w)
    = snd (ob_begin_dispatch eid now (ow_box w))"
proof -
  have "access (ow_box w) = (False, b)" "dget (ob_rows b) eid = Some r"
    using assms(1) by (auto simp: ob_get_def split: bool.splits prod.splits option.splits)
  with assms show ?thesis
    by (auto simp: ob_begin_dispatch_def seen_as_def seen_row_def Let_def split: sum.splits prod.splits)
qed

section \<open>What no step undoes\<close>

text \<open>
  The event a cancellation leaves that decided on a reading made before the dispatch and wrote
  after it.
\<close>

definition stale_cancel :: "effect_event \<Rightarrow> bool" where
  "stale_cancel e \<longleftrightarrow> ev_from e = Some Dispatching \<and> ev_to e = Cancelled \<and> ev_certainty e = CNone
     \<and> ev_detail e = [(''during_dispatch'', ''false'')]"

definition races_logged :: "outbox \<Rightarrow> bool" where
  "races_logged w \<longleftrightarrow> (\<forall>eid r. dget (ob_rows w) eid = Some r \<longrightarrow> ef_state r = Cancelled \<longrightarrow> ef_certainty r = CNone
     \<longrightarrow> ef_dispatch_count r = 1 \<longrightarrow> (\<exists>e \<in> set (log_of eid w). stale_cancel e))"

definition kept :: "outbox \<Rightarrow> outbox \<Rightarrow> bool" where
  "kept w w' \<longleftrightarrow> ob_inv w' \<and> races_logged w' \<and> ob_calls w' = ob_calls w
     \<and> (\<forall>eid r. dget (ob_rows w) eid = Some r \<longrightarrow>
          (\<exists>r'. dget (ob_rows w') eid = Some r' \<and> ef_dispatch_count r \<le> ef_dispatch_count r'))"

lemma row_valid_count: "row_valid r \<Longrightarrow> ef_dispatch_count r \<le> 1"
  by (auto simp: row_valid_def split: eff_state.splits)

lemma kept_faults:
  "ob_inv w \<Longrightarrow> races_logged w \<Longrightarrow> kept w (w\<lparr>ob_faults := bs\<rparr>)"
  by (auto simp: kept_def races_logged_def log_of_def)

lemma kept_trans: "kept a b \<Longrightarrow> kept b c \<Longrightarrow> kept a c"
  unfolding kept_def by (metis order_trans)

lemma access_kept: "access w = (b, w') \<Longrightarrow> ob_inv w \<Longrightarrow> races_logged w \<Longrightarrow> kept w w'"
  by (cases rule: access_cases [of w]) (auto simp: kept_faults)

lemma get_kept: "ob_get eid owner w = (x, w') \<Longrightarrow> ob_inv w \<Longrightarrow> races_logged w \<Longrightarrow> kept w w'"
  by (auto simp: ob_get_def intro: access_kept split: prod.splits bool.splits option.splits)

lemma move_kept:
  assumes "ob_inv w" "races_logged w" "keeps_key upd"
    and row: "\<And>r. dget (ob_rows w) eid = Some r \<Longrightarrow> ef_state r \<in> set al \<Longrightarrow>
        to_state \<in> set (transitions (ef_state r)) \<Longrightarrow> row_valid r \<Longrightarrow>
        row_valid (moved_row upd to_state cert r) \<and> ef_dispatch_count r \<le> ef_dispatch_count (upd r)
        \<and> (to_state = Cancelled \<longrightarrow> cert = CNone \<longrightarrow> ef_dispatch_count (upd r) = 1 \<longrightarrow>
             ef_state r = Dispatching \<and> detail = [(''during_dispatch'', ''false'')])"
  shows "kept w (snd (ob_move eid to_state cert al upd detail now w))"
proof (cases rule: ob_move_cases [of eid to_state cert al upd detail now w])
  case (failed e bs)
  with assms(1,2) show ?thesis by (simp add: kept_faults)
next
  case (moved x r bs)
  let ?w' = "moved_world eid to_state cert upd detail now r bs w"
  have rv: "row_valid r" using row_validD [OF assms(1) moved(2)] by simp
  note now_row = row [OF moved(2-4) rv]
  have "ob_inv ?w'"
    using moved_world_inv [OF assms(1) moved(2,4,5) assms(3)] now_row by simp
  moreover have "races_logged ?w'"
    unfolding races_logged_def
  proof (intro allI impI)
    fix k y
    assume y: "dget (ob_rows ?w') k = Some y" "ef_state y = Cancelled" "ef_certainty y = CNone" "ef_dispatch_count y = 1"
    show "\<exists>e \<in> set (log_of k ?w'). stale_cancel e"
    proof (cases "k = eid")
      case True
      with y now_row show ?thesis
        by (auto simp: moved_world_def moved_row_def log_of_def stale_cancel_def)
    next
      case False
      with y have "\<exists>e \<in> set (log_of k w). stale_cancel e"
        using assms(2) unfolding races_logged_def by (simp add: moved_world_def)
      then show ?thesis by (auto simp: moved_world_def log_of_def)
    qed
  qed
  ultimately show ?thesis
    using moved(1,2) now_row by (auto simp: kept_def moved_world_def moved_row_def)
qed


lemma note_kept:
  assumes "ob_inv w" "races_logged w"
  shows "kept w (ob_note_evidence jl eid h w)"
proof -
  have inv: "ob_inv (ob_note_evidence jl eid h w)" using assms(1) by (rule ob_note_evidence_inv)
  obtain b bs where a: "access w = (b, w\<lparr>ob_faults := bs\<rparr>)" by (rule access_cases)
  show ?thesis
  proof (cases "b \<or> dget (ob_rows w) eid = None")
    case True
    with a assms show ?thesis by (cases b) (auto simp: ob_note_evidence_def kept_faults)
  next
    case False
    then obtain r where r: "dget (ob_rows w) eid = Some r" and "\<not> b" by auto
    define w' where "w' = w\<lparr>ob_faults := bs, ob_rows := dset eid (r\<lparr>ef_evidence := stored_evidence jl h\<rparr>) (ob_rows w)\<rparr>"
    have eq: "ob_note_evidence jl eid h w = w'"
      using a r \<open>\<not> b\<close> by (simp add: ob_note_evidence_def w'_def)
    have "races_logged w'"
      using assms(2) r unfolding races_logged_def by (simp add: w'_def log_of_def)
    with inv r show ?thesis unfolding eq by (auto simp: kept_def w'_def)
  qed
qed

lemma prepare_kept:
  assumes "ob_inv w" "races_logged w"
  shows "kept w (snd (ob_prepare q cx eid boot now w))"
proof (cases rule: ob_prepare_cases [of q cx eid boot now w])
  case (unchanged x bs)
  with assms show ?thesis by (simp add: kept_faults)
next
  case (inserted x bs)
  define w' where "w' = snd (ob_prepare q cx eid boot now w)"
  have inv: "ob_inv w'" unfolding w'_def using assms(1) by (rule ob_prepare_inv)
  have st: "ef_state (new_row q cx eid boot now) = Prepared" by (simp add: new_row_def)
  have "races_logged w'"
    using assms(2) st inserted unfolding races_logged_def by (auto simp: w'_def log_of_def)
  with inv inserted show ?thesis unfolding w'_def [symmetric]
    by (auto simp: kept_def w'_def)
qed

section \<open>Every write keeps what was\<close>

lemma admit_kept:
  "ob_inv w \<Longrightarrow> races_logged w \<Longrightarrow> kept w (snd (ob_admit_write eid now w))"
  unfolding ob_admit_write_def by (erule (1) move_kept) (auto simp: move_simps)

lemma begin_kept:
  assumes "ob_inv w" "races_logged w" "\<And>r. dget (ob_rows w) eid = Some r \<Longrightarrow> count \<le> ef_dispatch_count r"
  shows "kept w (snd (ob_begin_write eid count now w))"
  unfolding ob_begin_write_def using assms(1,2)
  by (rule move_kept) (use assms(3) in \<open>auto simp: move_simps\<close>)

lemma settle_kept:
  assumes "ob_inv w" "races_logged w" "settled_certainty outcome = Some cert"
  shows "kept w (snd (ob_settle_write jl eid outcome cert s current now w))"
  unfolding ob_settle_write_def Let_def using assms(1,2)
  by (rule move_kept)
    (use assms(3) in \<open>cases outcome; auto simp: move_simps split: eff_state.splits if_splits\<close>)+

lemma cancel_kept:
  assumes "ob_inv w" "races_logged w"
    and "\<And>r. during \<Longrightarrow> dget (ob_rows w) eid = Some r \<Longrightarrow> 1 \<le> ef_dispatch_count r"
  shows "kept w (snd (ob_cancel_write eid during reason now w))"
  unfolding ob_cancel_write_def using assms(1,2)
  by (rule move_kept) (use assms(3) in \<open>force simp: move_simps bool_str_def split: eff_state.splits\<close>)+

lemma reconcile_move_kept:
  assumes "ob_inv w" "races_logged w" "keeps_key upd" "c \<in> {CConfirmed, CNone}"
    and "\<And>r. ef_dispatch_count (upd r) = ef_dispatch_count r"
  shows "kept w (snd (ob_move eid Reconciled c reconcilable_states upd d now w))"
  using assms(1-3)
  by (rule move_kept) (use assms(4,5) in \<open>auto simp: move_simps reconcilable_states_def split: eff_state.splits\<close>)

lemma answered_kept:
  assumes "ob_inv w" "races_logged w"
  shows "kept w (snd (reconcile_answered jl eid rec answer now w))"
proof -
  have m: "kept w w2"
    if "ob_move eid Reconciled c reconcilable_states upd d now w = (x, w2)" "keeps_key upd"
      "c \<in> {CConfirmed, CNone}" "\<And>r. ef_dispatch_count (upd r) = ef_dispatch_count r" for upd c d x w2
    using reconcile_move_kept [OF assms that(2,3,4), of eid d now] that(1) by simp
  have n: "kept w w3" if "ob_get eid None (ob_note_evidence jl eid h w) = (x, w3)" for h x w3
  proof -
    have k: "kept w (ob_note_evidence jl eid h w)" using assms by (rule note_kept)
    then have "kept (ob_note_evidence jl eid h w) w3"
      using get_kept [OF that] by (simp add: kept_def)
    with k show ?thesis by (rule kept_trans)
  qed
  show ?thesis
    by (auto simp: reconcile_answered_def Let_def keeps_key_def intro: n m
        split: prod.splits sum.splits found.splits bool.splits)
qed

lemma resolve_kept:
  "ob_inv w \<Longrightarrow> races_logged w \<Longrightarrow> kept w (snd (resolve_write jl eid rec landed remark actor now w))"
  unfolding resolve_write_def Let_def
  by (erule (1) reconcile_move_kept) (auto simp: keeps_key_def)

lemma recover_kept:
  assumes "ob_inv w" "races_logged w" "orphan boot row"
  shows "kept w (snd (snd (recover_one now row (u, c, w))))"
proof -
  have m1: "kept w w2"
    if "ob_move (ef_id row) OutcomeUnknown CUnknown [Dispatching] upd d now w = (x, w2)"
      "keeps_key upd" "\<And>r. ef_dispatch_count (upd r) = ef_dispatch_count r" for upd d x w2
    using move_kept [OF assms(1,2) that(2), of "ef_id row" "[Dispatching]" OutcomeUnknown CUnknown d now] that
    by (auto simp: move_simps split: eff_state.splits)
  have m2: "kept w w2"
    if "ob_move (ef_id row) Cancelled CNone [ef_state row] upd d now w = (x, w2)" "ef_state row \<noteq> Dispatching"
      "keeps_key upd" "\<And>r. ef_dispatch_count (upd r) = ef_dispatch_count r" for upd d x w2
    using move_kept [OF assms(1,2) that(3), of "ef_id row" "[ef_state row]" Cancelled CNone d now] that assms(3)
    by (auto simp: move_simps orphan_def split: eff_state.splits)
  show ?thesis
    by (auto simp: recover_one_def keeps_key_def intro: m1 m2 split: prod.splits sum.splits)
qed

section \<open>The invariant of every interleaving\<close>

text \<open>
  A row read earlier was well-formed, and its dispatch count is at most the row's count now; an
  effect that has been begun, called or not, counts one dispatch; and none is both called and
  about to be called.
\<close>

definition ow_inv :: "outbox_world \<Rightarrow> bool" where
  "ow_inv w \<longleftrightarrow> ob_inv (ow_box w) \<and> races_logged (ow_box w)
     \<and> (\<forall>r \<in> set (ow_seen w). row_valid r
          \<and> (\<exists>r'. dget (ob_rows (ow_box w)) (ef_id r) = Some r' \<and> ef_dispatch_count r \<le> ef_dispatch_count r'))
     \<and> distinct (ob_calls (ow_box w) @ ow_begun w)
     \<and> (\<forall>eid \<in> set (ow_begun w). \<exists>r. dget (ob_rows (ow_box w)) eid = Some r \<and> ef_dispatch_count r = 1)"

lemma ow_inv_empty: "ow_inv empty_world"
  using ob_inv_empty by (simp add: ow_inv_def empty_world_def races_logged_def empty_outbox_def)

lemma ow_inv_kept:
  assumes "ow_inv w" "kept (ow_box w) b"
  shows "ow_inv (w\<lparr>ow_box := b\<rparr>)"
proof -
  have inv: "ob_inv b" and mono: "\<And>eid r. dget (ob_rows (ow_box w)) eid = Some r \<Longrightarrow>
      \<exists>r'. dget (ob_rows b) eid = Some r' \<and> ef_dispatch_count r \<le> ef_dispatch_count r'"
    and calls: "ob_calls b = ob_calls (ow_box w)" "races_logged b"
    using assms(2) by (simp_all add: kept_def)
  have seen: "row_valid r \<and> (\<exists>r'. dget (ob_rows b) (ef_id r) = Some r' \<and> ef_dispatch_count r \<le> ef_dispatch_count r')"
    if "r \<in> set (ow_seen w)" for r
    using assms(1) that mono unfolding ow_inv_def by (meson order_trans)
  have begun: "\<exists>r. dget (ob_rows b) eid = Some r \<and> ef_dispatch_count r = 1" if eid: "eid \<in> set (ow_begun w)" for eid
  proof -
    obtain r where "dget (ob_rows (ow_box w)) eid = Some r" "ef_dispatch_count r = 1"
      using assms(1) eid unfolding ow_inv_def by blast
    then obtain r' where "dget (ob_rows b) eid = Some r'" "1 \<le> ef_dispatch_count r'" using mono by metis
    then show ?thesis using row_validD [OF inv] row_valid_count by (metis le_antisym)
  qed
  from assms(1) inv calls seen begun show ?thesis by (simp add: ow_inv_def)
qed

lemma ow_invD: "ow_inv w \<Longrightarrow> ob_inv (ow_box w) \<and> races_logged (ow_box w)"
  by (simp add: ow_inv_def)

lemma ow_inv_write:
  assumes "ow_inv w"
    and "\<And>r r'. guard r \<Longrightarrow> row_valid r \<Longrightarrow> dget (ob_rows (ow_box w)) (ef_id r) = Some r' \<Longrightarrow>
           ef_dispatch_count r \<le> ef_dispatch_count r' \<Longrightarrow> kept (ow_box w) (f r (ow_box w))"
  shows "ow_inv (write_seen n guard f w)"
proof (cases "\<exists>r. seen_row n w = Some r \<and> guard r")
  case True
  then obtain r where r: "seen_row n w = Some r" "guard r" by blast
  then have "r \<in> set (ow_seen w)" by (auto simp: seen_row_def split: if_splits)
  with assms(1) obtain r' where "row_valid r" "dget (ob_rows (ow_box w)) (ef_id r) = Some r'"
    "ef_dispatch_count r \<le> ef_dispatch_count r'" unfolding ow_inv_def by blast
  then have "kept (ow_box w) (f r (ow_box w))" using assms(2) r(2) by blast
  with r show ?thesis by (simp add: write_seen_def ow_inv_kept [OF assms(1)])
qed (use assms(1) in \<open>auto simp: write_seen_def split: option.splits\<close>)

lemma seen_as_count:
  assumes "ow_inv w" "seen_as eid k w = Some cur" "dget (ob_rows (ow_box w)) eid = Some r"
  shows "(case cur of None \<Rightarrow> 0 | Some r \<Rightarrow> ef_dispatch_count r) \<le> ef_dispatch_count r"
proof (cases cur)
  case (Some x)
  then have "x \<in> set (ow_seen w)" "ef_id x = eid"
    using assms(2) by (auto simp: seen_as_def seen_row_def split: option.splits if_splits)
  then obtain r' where "dget (ob_rows (ow_box w)) eid = Some r'" "ef_dispatch_count x \<le> ef_dispatch_count r'"
    using assms(1) unfolding ow_inv_def by blast
  with assms(3) Some show ?thesis by simp
qed simp

lemma ow_inv_see:
  assumes "ow_inv w" "\<And>r. r \<in> set rs \<Longrightarrow> dget (ob_rows (ow_box w)) (ef_id r) = Some r"
  shows "ow_inv (w\<lparr>ow_seen := ow_seen w @ rs\<rparr>)"
proof -
  have "row_valid r" if "r \<in> set rs" for r
    using assms(2) [OF that] row_validD [of "ow_box w" "ef_id r" r] ow_invD [OF assms(1)] by blast
  with assms show ?thesis by (auto simp: ow_inv_def)
qed

lemma read_inv:
  assumes "ow_inv w"
  shows "ow_inv (ob_step jl (OpRead eid owner) w)"
proof -
  obtain x b where g: "ob_get eid owner (ow_box w) = (x, b)" by fastforce
  have k: "ow_inv (w\<lparr>ow_box := b\<rparr>)"
    using ow_inv_kept [OF assms get_kept [OF g]] ow_invD [OF assms] by blast
  show ?thesis
  proof (cases x)
    case (Some r)
    then have "dget (ob_rows b) eid = Some r" using ob_get_SomeD g by blast
    then have "dget (ob_rows b) (ef_id r) = Some r" using ow_invD [OF k] row_validD [of b eid r] by simp
    then have "ow_inv ((w\<lparr>ow_box := b\<rparr>)\<lparr>ow_seen := ow_seen (w\<lparr>ow_box := b\<rparr>) @ [r]\<rparr>)"
      using k by (intro ow_inv_see) simp_all
    with g Some show ?thesis by simp
  qed (use g k in simp)
qed

lemma scan_inv:
  assumes "ow_inv w"
  shows "ow_inv (ob_step jl OpScan w)"
proof -
  obtain x b where a: "access (ow_box w) = (x, b)" by fastforce
  have k: "ow_inv (w\<lparr>ow_box := b\<rparr>)"
    using ow_inv_kept [OF assms access_kept [OF a]] ow_invD [OF assms] by blast
  then have inv: "ob_inv b" using ow_invD by fastforce
  have "dget (ob_rows b) (ef_id r) = Some r" if r: "r \<in> set (map snd (ob_rows b))" for r
  proof -
    obtain i where i: "(i, r) \<in> set (ob_rows b)" using r by auto
    have "dwf (ob_rows b)" using inv by (simp add: ob_inv_def)
    then have "dget (ob_rows b) i = Some r" using dget_in_set [OF _ i] by simp
    with row_validD [OF inv this] show ?thesis by simp
  qed
  then have "ow_inv ((w\<lparr>ow_box := b\<rparr>)\<lparr>ow_seen := ow_seen (w\<lparr>ow_box := b\<rparr>) @ map snd (ob_rows b)\<rparr>)"
    using k by (intro ow_inv_see) simp_all
  with a k show ?thesis by (cases x) simp_all
qed

lemma begin_inv:
  assumes "ow_inv w"
  shows "ow_inv (ob_step jl (OpBegin eid k now) w)"
proof (cases "seen_as eid k w")
  case (Some cur)
  define c where "c = (case cur of None \<Rightarrow> 0 | Some r \<Rightarrow> ef_dispatch_count r)"
  have le: "\<And>r. dget (ob_rows (ow_box w)) eid = Some r \<Longrightarrow> c \<le> ef_dispatch_count r"
    using seen_as_count [OF assms Some] by (simp add: c_def)
  have inv: "ob_inv (ow_box w)" "races_logged (ow_box w)" using ow_invD [OF assms] by simp_all
  obtain x b where x: "ob_begin_write eid c now (ow_box w) = (x, b)" by fastforce
  have "kept (ow_box w) (snd (ob_begin_write eid c now (ow_box w)))" using le by (rule begin_kept [OF inv])
  then have "kept (ow_box w) b" using x by simp
  then have k: "ow_inv (w\<lparr>ow_box := b\<rparr>)" by (rule ow_inv_kept [OF assms])
  show ?thesis
  proof (cases x)
    case (Inr r)
    note ok = ob_begin_write_ok [OF x [unfolded Inr] inv(1)]
    have "eid \<notin> set (ob_calls b)" "dget (ob_rows b) eid = Some r \<and> ef_dispatch_count r = 1"
      using ok(2,3,5) le by simp_all
    moreover have "eid \<notin> set (ow_begun w)" using ok(4) le assms unfolding ow_inv_def by fastforce
    ultimately have "ow_inv (w\<lparr>ow_box := b, ow_begun := ow_begun w @ [eid]\<rparr>)"
      using k by (simp add: ow_inv_def)
    with Some x Inr show ?thesis by (simp add: c_def)
  qed (use Some x k in \<open>simp add: c_def\<close>)
qed (use assms in simp)

lemma call_step_inv:
  assumes "ow_inv w"
  shows "ow_inv (ob_step jl (OpCall eid) w)"
proof (cases "eid \<in> set (ow_begun w)")
  case True
  then obtain r where r: "dget (ob_rows (ow_box w)) eid = Some r" "ef_dispatch_count r = 1"
    using assms unfolding ow_inv_def by blast
  have d: "distinct (ob_calls (ow_box w) @ ow_begun w)" using assms by (simp add: ow_inv_def)
  then have "eid \<notin> set (ob_calls (ow_box w))" using True by auto
  then have "ob_inv (call_transport eid (ow_box w))" using call_inv ow_invD [OF assms] r by blast
  moreover have "races_logged (call_transport eid (ow_box w))"
    using ow_invD [OF assms] by (simp add: races_logged_def call_transport_def log_of_def)
  ultimately show ?thesis
    using assms True d unfolding ow_inv_def by (auto simp: call_transport_def dest: notin_set_remove1)
qed (use assms in simp)

lemma settle_step_inv:
  assumes "ow_inv w"
  shows "ow_inv (ob_step jl (OpSettle eid k outcome s now) w)"
  using settle_kept ow_invD [OF assms]
  by (auto intro!: ow_inv_kept assms split: option.splits)

lemma cancel_step_inv:
  assumes "ow_inv w"
  shows "ow_inv (ob_step jl (OpCancel n reason now) w)"
proof -
  have "kept (ow_box w) (snd (ob_cancel_write (ef_id r) (ef_state r = Dispatching) reason now (ow_box w)))"
    if "row_valid r" "dget (ob_rows (ow_box w)) (ef_id r) = Some r'" "ef_dispatch_count r \<le> ef_dispatch_count r'" for r r'
    by (rule cancel_kept) (use that ow_invD [OF assms] in \<open>auto simp: row_valid_def\<close>)
  then show ?thesis by (simp, intro ow_inv_write assms)
qed

lemma ob_step_inv: "ow_inv w \<Longrightarrow> ow_inv (ob_step jl op w)"
proof (cases op)
  case (OpFaults bs)
  assume "ow_inv w"
  with OpFaults show ?thesis using ow_inv_kept [OF _ kept_faults] ow_invD by simp
qed (simp_all del: ob_step.simps add: read_inv scan_inv begin_inv call_step_inv settle_step_inv cancel_step_inv,
  simp_all add: ow_inv_write ow_inv_kept prepare_kept admit_kept answered_kept resolve_kept recover_kept ow_invD)

interpretation outbox_runs: op_system "ob_step jl" ow_inv
  for jl
  by unfold_locales (rule ob_step_inv)

end
