(* ===== verification/Outbox_Theorems.thy ===== *)
theory Outbox_Theorems
  imports Outbox_Runs
begin

text \<open>
  The properties of the outbox and of guarded dispatch, for every pattern of storage failures:
  what is sent at most once, when a key blocks a second send, what start-up recovery leaves, and
  the two ways around a held key the code does not exclude.
\<close>

section \<open>Only a dispatcher's write of \<open>dispatching\<close> leads to a call\<close>

lemma ob_prepare_calls [simp]: "ob_calls (snd (ob_prepare q cx eid boot now w)) = ob_calls w"
  by (cases rule: ob_prepare_cases [of q cx eid boot now w]) auto

lemma snd_move_calls: "ob_move eid st cert al upd detail now w = (x, w') \<Longrightarrow> ob_calls w' = ob_calls w"
  using ob_move_calls [of eid st cert al upd detail now w] by simp

lemma get_calls: "ob_get eid owner w = (x, w') \<Longrightarrow> ob_calls w' = ob_calls w"
  using ob_get_frame(2) [of eid owner w] by simp

lemma access_calls: "access w = (b, w') \<Longrightarrow> ob_calls w' = ob_calls w"
  using access_frame by blast

lemma prepare_calls: "ob_prepare q cx eid boot now w = (x, w') \<Longrightarrow> ob_calls w' = ob_calls w"
  using ob_prepare_calls [of q cx eid boot now w] by simp

lemma ob_admit_calls: "ob_admit eid now w = (x, w') \<Longrightarrow> ob_calls w' = ob_calls w"
  by (auto simp: ob_admit_def ob_admit_write_def dest!: snd_move_calls get_calls split: option.splits prod.splits sum.splits if_splits)

lemma ob_begin_calls: "ob_begin_dispatch eid now w = (x, w') \<Longrightarrow> ob_calls w' = ob_calls w"
  by (auto simp: ob_begin_dispatch_def ob_begin_write_def Let_def dest!: snd_move_calls access_calls
      split: bool.splits prod.splits sum.splits)

lemma ob_settle_calls: "ob_settle jl eid outcome s now w = (x, w') \<Longrightarrow> ob_calls w' = ob_calls w"
  by (auto simp: ob_settle_def ob_settle_write_def Let_def dest!: snd_move_calls get_calls split: option.splits prod.splits)

lemma ob_cancel_calls: "ob_cancel eid reason now w = (x, w') \<Longrightarrow> ob_calls w' = ob_calls w"
  by (auto simp: ob_cancel_def ob_cancel_write_def dest!: snd_move_calls get_calls split: option.splits prod.splits)

lemma ob_note_evidence_calls [simp]: "ob_calls (ob_note_evidence jl eid h w) = ob_calls w"
  by (cases rule: access_cases [of w]) (auto simp: ob_note_evidence_def split: bool.splits option.splits)

lemma ob_reconcile_calls: "ob_reconcile jl eid owner given reg now w = (x, w') \<Longrightarrow> ob_calls w' = ob_calls w"
  by (auto simp: ob_reconcile_def reconcile_answered_def Let_def dest!: snd_move_calls get_calls
      split: option.splits prod.splits sum.splits found.splits bool.splits if_splits)

lemma ob_resolve_calls: "ob_resolve_manually jl eid landed note actor owner now w = (x, w') \<Longrightarrow> ob_calls w' = ob_calls w"
  by (auto simp: ob_resolve_manually_def resolve_write_def Let_def dest!: snd_move_calls get_calls
      split: option.splits prod.splits sum.splits if_split_asm)

lemma recover_one_calls [simp]: "ob_calls (snd (snd (recover_one now row acc))) = ob_calls (snd (snd acc))"
  by (cases acc) (auto simp: recover_one_def dest!: snd_move_calls split: prod.splits sum.splits)

lemma ob_recover_calls [simp]: "ob_calls (snd (snd (ob_recover_orphans boot now w))) = ob_calls w"
proof -
  have "ob_calls (snd (snd (fold (recover_one now) rows acc))) = ob_calls (snd (snd acc))" for rows acc
    by (induction rows arbitrary: acc) simp_all
  then show ?thesis
    by (auto simp: ob_recover_orphans_def dest!: access_calls split: prod.splits bool.splits)
qed

section \<open>Sent at most once\<close>

text \<open>
  C1: In every interleaving of the reads, writes and transport calls of any number of threads and
  processes on one outbox file, from an empty file, where a write may use any row read before it
  and any connection may fail: no effect's transport is called twice; an effect that was called
  is recorded as dispatched exactly once, and its row is not open; its row is cancelled with
  certainty \<open>none\<close> only if its log shows the one race that does it, a cancellation that read the
  row before the dispatch and wrote after it; two different effects with one owner, kind and key
  are never both in a state that may have taken effect; and each effect's event log is a legal
  path from nothing to the state in its row.
\<close>
theorem outbox_sends_at_most_once:
  assumes "w = ow_box (fold (ob_step jl) ops empty_world)"
  shows "distinct (ob_calls w)
    \<and> (\<forall>eid \<in> set (ob_calls w). \<exists>r. dget (ob_rows w) eid = Some r \<and> ef_dispatch_count r = 1
          \<and> ef_state r \<notin> {Prepared, Admitted}
          \<and> (ef_state r = Cancelled \<and> ef_certainty r = CNone \<longrightarrow> (\<exists>e \<in> set (log_of eid w). stale_cancel e)))
    \<and> keys_ok (ob_rows w)
    \<and> (\<forall>eid. log_end (log_of eid w) None = Some (map_option ef_state (dget (ob_rows w) eid)))"
proof -
  have "ow_inv (fold (ob_step jl) ops empty_world)" by (intro outbox_runs.run_inv ow_inv_empty)
  then have inv: "ob_inv w" and races: "races_logged w" using ow_invD assms by simp_all
  have "\<exists>r. dget (ob_rows w) eid = Some r \<and> ef_dispatch_count r = 1 \<and> ef_state r \<notin> {Prepared, Admitted}
          \<and> (ef_state r = Cancelled \<and> ef_certainty r = CNone \<longrightarrow> (\<exists>e \<in> set (log_of eid w). stale_cancel e))"
    if "eid \<in> set (ob_calls w)" for eid
  proof -
    obtain r where r: "dget (ob_rows w) eid = Some r" "ef_dispatch_count r = 1"
      using ob_inv_called [OF inv \<open>eid \<in> set (ob_calls w)\<close>] by blast
    moreover have "ef_state r \<notin> {Prepared, Admitted}"
      using row_validD [OF inv r(1)] r(2) by (auto simp: row_valid_def)
    ultimately show ?thesis using races unfolding races_logged_def by blast
  qed
  with inv show ?thesis unfolding ob_inv_def by blast
qed

section \<open>Guarded dispatch\<close>

lemma same_key_sym: "same_key a b \<Longrightarrow> same_key b a"
  and same_key_trans: "same_key a b \<Longrightarrow> same_key b c \<Longrightarrow> same_key a c"
  by (auto simp: same_key_def)

lemma find_only:
  assumes "x \<in> set xs" "P x" "\<And>y. y \<in> set xs \<Longrightarrow> P y \<Longrightarrow> y = x"
  shows "find P xs = Some x"
  using assms
proof (induction xs)
  case (Cons a xs)
  show ?case
  proof (cases "P a")
    case True
    then have "a = x" by (rule Cons.prems(3) [rotated]) simp
    with True show ?thesis by simp
  next
    case False
    then have "x \<in> set xs" using Cons.prems(1,2) by auto
    then have "find P xs = Some x"
      by (rule Cons.IH [OF _ Cons.prems(2)]) (rule Cons.prems(3), simp_all)
    with False show ?thesis by simp
  qed
qed simp

lemma find_unique:
  assumes "keys_ok rows" "dwf rows" "dget rows i = Some r" "blocking r" "same_key row r"
  shows "find (\<lambda>(k, r'). blocking r' \<and> same_key row r') rows = Some (i, r)"
proof -
  have in_rows: "(i, r) \<in> set rows" using dget_SomeD [OF assms(3)] by simp
  have only: "p = (i, r)" if "p \<in> set rows" "(\<lambda>(k, r'). blocking r' \<and> same_key row r') p" for p
  proof -
    obtain k r' where p: "p = (k, r')" by (cases p)
    have g: "dget rows k = Some r'" "blocking r'" "same_key row r'"
      using that p assms(2) dget_in_set by simp_all
    have "same_key r r'" using same_key_trans [OF same_key_sym [OF assms(5)] g(3)] .
    then have "k = i" using assms(1,3,4) g(1,2) unfolding keys_ok_def by metis
    with g p assms(3) show ?thesis by simp
  qed
  show ?thesis
    by (rule find_only [OF in_rows]) (simp add: assms(4,5), rule only)
qed

text \<open>
  A dispatch inside a tool call may carry the id of the row the tool layer admitted for the call;
  while that row is admitted, the dispatch uses it and does not look at its own key.
\<close>

definition joins_admission :: "effect_context \<Rightarrow> outbox \<Rightarrow> bool" where
  "joins_admission cx w \<longleftrightarrow> cx_admission_id cx \<noteq> []
     \<and> (case dget (ob_rows w) (cx_admission_id cx) of None \<Rightarrow> False | Some r \<Rightarrow> ef_state r = Admitted)"

lemma open_row_own:
  assumes "\<not> joins_admission cx w"
  obtains w1 bs where "w1 = w\<lparr>ob_faults := bs\<rparr>" "ob_faults w = [] \<longrightarrow> w1 = w"
    "ob_open_row q cx eid boot now w = ob_open_row q (cx\<lparr>cx_admission_id := []\<rparr>) eid boot now w1"
proof (cases "cx_admission_id cx = []")
  case True
  then have "cx\<lparr>cx_admission_id := []\<rparr> = cx" by simp
  then show thesis by (intro that [of "w" "ob_faults w"]) simp_all
next
  case False
  obtain b bs where a: "access w = (b, w\<lparr>ob_faults := bs\<rparr>)" by (rule access_cases)
  define x where "x = (if b then None else dget (ob_rows w) (cx_admission_id cx))"
  have g: "ob_get (cx_admission_id cx) None w = (x, w\<lparr>ob_faults := bs\<rparr>)" "x = None \<or> x = dget (ob_rows w) (cx_admission_id cx)"
    using a by (auto simp: x_def ob_get_def split: option.splits)
  have "ef_state r \<noteq> Admitted" if "x = Some r" for r
    using g(2) that assms False by (auto simp: joins_admission_def split: option.splits)
  moreover have "ob_prepare q (cx\<lparr>cx_admission_id := []\<rparr>) = ob_prepare q cx"
    by (rule ext)+ (simp add: ob_prepare_def new_row_def)
  ultimately have "ob_open_row q cx eid boot now w = ob_open_row q (cx\<lparr>cx_admission_id := []\<rparr>) eid boot now (w\<lparr>ob_faults := bs\<rparr>)"
    using g(1) False by (cases x) (auto simp: ob_open_row_def Let_def)
  moreover have "ob_faults w = [] \<longrightarrow> w\<lparr>ob_faults := bs\<rparr> = w" using a by (cases "ob_faults w") (auto simp: access_def)
  ultimately show thesis by (intro that [OF refl])
qed

lemma new_row_own [simp]: "new_row q (cx\<lparr>cx_admission_id := i\<rparr>) = new_row q cx"
  by (rule ext)+ (simp add: new_row_def)

lemma blocked_open:
  assumes inv: "ob_inv w" and row: "dget (ob_rows w) i = Some r" "blocking r"
    and key: "same_key (new_row q cx eid boot now) r" and own: "cx_admission_id cx = []"
  obtains b bs where
    "ob_open_row q cx eid boot now w = (if b then Inl IntentNotPersisted else Inr (Dedup r), w\<lparr>ob_faults := bs\<rparr>)"
    "ob_faults w = [] \<Longrightarrow> \<not> b"
proof -
  obtain b bs where a: "access w = (b, w\<lparr>ob_faults := bs\<rparr>)" by (rule access_cases)
  let ?row = "new_row q cx eid boot now"
  have wf: "dwf (ob_rows w)" "keys_ok (ob_rows w)" using inv by (auto simp: ob_inv_def)
  have bl: "blocking ?row" using row key by (auto simp: blocking_def same_key_def new_row_def)
  have "dget (ob_rows w) eid \<noteq> None \<or> index_clash eid ?row (ob_rows w)"
    using row key bl dget_SomeD [OF row(1)] by (cases "i = eid") (auto simp: index_clash_def list_ex_iff)
  then have "ob_prepare q cx eid boot now w
      = (if b then Inl IntentNotPersisted else Inr (Dedup r), w\<lparr>ob_faults := bs\<rparr>)"
    using a find_unique [OF wf(2,1) row key] by (auto simp: ob_prepare_def Let_def)
  then have "ob_open_row q cx eid boot now w
      = (if b then Inl IntentNotPersisted else Inr (Dedup r), w\<lparr>ob_faults := bs\<rparr>)"
    using own by (auto simp: ob_open_row_def)
  moreover have "ob_faults w = [] \<Longrightarrow> \<not> b" using a by (auto simp: access_def)
  ultimately show thesis by (rule that)
qed

lemma blocked_dispatch:
  assumes inv: "ob_inv w" and row: "dget (ob_rows w) i = Some r" "blocking r"
    and key: "same_key (new_row q cx eid boot now) r" and adm: "\<not> joins_admission cx w"
  obtains bs res where
    "dispatch_effect True jl q cx eid boot now answer itp classify w = (res, w\<lparr>ob_faults := bs\<rparr>)"
    "res = dedup_hit r \<or> res = Raised (RaisedStore IntentNotPersisted)" "ob_faults w = [] \<Longrightarrow> res = dedup_hit r"
proof -
  obtain w1 bs where w1: "w1 = w\<lparr>ob_faults := bs\<rparr>" "ob_faults w = [] \<longrightarrow> w1 = w"
    "ob_open_row q cx eid boot now w = ob_open_row q (cx\<lparr>cx_admission_id := []\<rparr>) eid boot now w1"
    by (rule open_row_own [OF adm, where q = q and eid = eid and boot = boot and now = now])
  have inv1: "ob_inv w1" "dget (ob_rows w1) i = Some r" using inv row(1) w1(1) by simp_all
  obtain b bs' where o: "ob_open_row q (cx\<lparr>cx_admission_id := []\<rparr>) eid boot now w1
      = (if b then Inl IntentNotPersisted else Inr (Dedup r), w1\<lparr>ob_faults := bs'\<rparr>)" "ob_faults w1 = [] \<Longrightarrow> \<not> b"
    by (rule blocked_open [OF inv1 row(2), where q = q and cx = "cx\<lparr>cx_admission_id := []\<rparr>" and eid = eid
          and boot = boot and now = now]) (use key in simp_all)
  have eq: "w1\<lparr>ob_faults := bs'\<rparr> = w\<lparr>ob_faults := bs'\<rparr>" using w1(1) by simp
  have "dispatch_effect True jl q cx eid boot now answer itp classify w
      = (if b then Raised (RaisedStore IntentNotPersisted) else dedup_hit r, w\<lparr>ob_faults := bs'\<rparr>)"
    using w1(3) o(1) eq by (auto simp: dispatch_effect_def)
  moreover have "ob_faults w = [] \<Longrightarrow> \<not> b" using o(2) w1(2) by simp
  ultimately show thesis using that by auto
qed

text \<open>
  C32: With the outbox enabled, while a row that may have taken effect holds an owner, kind and
  key, a dispatch of that effect that does not join a row the tool layer has admitted never calls
  its transport and changes nothing in the store: the caller gets the verdict of the existing
  row, or an error when the store cannot be read.
\<close>
theorem held_key_is_never_sent:
  assumes "ob_inv w" and "dget (ob_rows w) i = Some r" and "blocking r"
    and "same_key (new_row q cx eid boot now) r" and "\<not> joins_admission cx w"
  shows "\<exists>res w'. dispatch_effect True jl q cx eid boot now answer itp classify w = (res, w')
    \<and> ob_calls w' = ob_calls w \<and> ob_rows w' = ob_rows w \<and> ob_events w' = ob_events w
    \<and> (res = dedup_hit r \<or> res = Raised (RaisedStore IntentNotPersisted))
    \<and> (ob_faults w = [] \<longrightarrow> res = dedup_hit r)"
proof -
  obtain bs res where "dispatch_effect True jl q cx eid boot now answer itp classify w = (res, w\<lparr>ob_faults := bs\<rparr>)"
    "res = dedup_hit r \<or> res = Raised (RaisedStore IntentNotPersisted)" "ob_faults w = [] \<Longrightarrow> res = dedup_hit r"
    using blocked_dispatch [OF assms, where jl = jl and answer = answer and itp = itp and classify = classify]
    by metis
  then show ?thesis by simp
qed

section \<open>A failure that proves nothing keeps the key\<close>

lemma move_effect:
  assumes "ob_move eid st cert al upd d now w = (x, w')" and "keeps_key upd"
    and "dget (ob_rows w) eid = Some r"
  shows "\<exists>r'. dget (ob_rows w') eid = Some r' \<and> same_key r' r \<and> ef_id r' = ef_id r
     \<and> (r' = r \<or> (ef_state r' = st \<and> ef_certainty r' = cert)) \<and> (\<forall>y. x = Inr y \<longrightarrow> r' = y \<and> ef_state y = st \<and> ef_certainty y = cert)"
proof (cases rule: ob_move_cases [of eid st cert al upd d now w])
  case (failed e bs)
  with assms show ?thesis by (auto simp: same_key_def)
next
  case (moved x' r0 bs)
  with assms show ?thesis
    by (auto simp: moved_world_def moved_row_def same_key_def keeps_key_def)
qed

lemma get_rows: "ob_get eid owner w = (x, w') \<Longrightarrow> ob_rows w' = ob_rows w"
  using ob_get_frame(1) [of eid owner w] by simp

lemma settle_effect:
  assumes "ob_settle jl eid outcome s now w = (x, w')" and "settled_certainty outcome = Some cert"
    and "dget (ob_rows w) eid = Some r"
  shows "\<exists>r'. dget (ob_rows w') eid = Some r' \<and> same_key r' r \<and> ef_id r' = ef_id r
     \<and> (r' = r \<or> (ef_state r' = outcome \<and> ef_certainty r' = cert)) \<and> (\<forall>y. x = Inr y \<longrightarrow> r' = y \<and> ef_state y = outcome \<and> ef_certainty y = cert)"
proof -
  obtain cur w1 where g: "ob_get eid None w = (cur, w1)" by fastforce
  then have "dget (ob_rows w1) eid = Some r" using assms(3) get_rows by metis
  with assms g show ?thesis
    by (auto simp: ob_settle_def ob_settle_write_def Let_def intro!: move_effect [where w = w1] simp: keeps_key_def)
qed

lemma cancel_effect:
  assumes "ob_cancel eid reason now w = (x, w')" and "dget (ob_rows w) eid = Some r" and "ef_state r = Dispatching"
  shows "\<exists>r'. dget (ob_rows w') eid = Some r' \<and> same_key r' r \<and> (r' = r \<or> (ef_state r' = Cancelled \<and> ef_certainty r' = CUnknown))"
proof -
  obtain cur w1 where g: "ob_get eid None w = (cur, w1)" by fastforce
  then have r1: "dget (ob_rows w1) eid = Some r" using assms(2) get_rows by metis
  show ?thesis
  proof (cases cur)
    case None
    with assms(1) g r1 show ?thesis by (auto simp: ob_cancel_def same_key_def)
  next
    case (Some c)
    then have "c = r" using ob_get_SomeD [of eid None w c w1] g r1 by simp
    with Some assms(1,3) g have "ob_cancel_write eid True reason now w1 = (x, w')"
      by (simp add: ob_cancel_def)
    then show ?thesis
      using move_effect [OF _ _ r1] by (fastforce simp: ob_cancel_write_def keeps_key_def)
  qed
qed

definition may_have_landed :: "effect_row \<Rightarrow> bool" where
  "may_have_landed r \<longleftrightarrow> (ef_state r, ef_certainty r) \<in>
     {(Dispatching, CUnknown), (Partial, CPartial), (OutcomeUnknown, CUnknown), (Cancelled, CUnknown)}"

text \<open>A classifier that does not claim the effect was not sent, or none.\<close>

definition claims_not_sent :: "classifier option \<Rightarrow> texc \<Rightarrow> bool" where
  "claims_not_sent classify x \<longleftrightarrow> (case classify of None \<Rightarrow> False | Some c \<Rightarrow> c x = Some FailedBeforeEffect)"

lemma handle_exception_settles:
  assumes "handle_exception jl eid x classify now w = (res, w')" and "te_kind x \<noteq> KNotDispatched"
    and "te_kind x \<noteq> KInterrupt" and "\<not> claims_not_sent classify x"
  obtains outcome s y w1 where "outcome \<in> {Partial, OutcomeUnknown}"
    "ob_settle jl eid outcome s now w = (y, w1)" "ob_rows w' = ob_rows w1"
proof -
  obtain outcome0 cls why0 where v: "verdict_for_exception x = (outcome0, cls, why0)" by (cases "verdict_for_exception x")
  with assms(2,3) have o0: "outcome0 \<in> {Partial, OutcomeUnknown}"
    by (auto simp: verdict_for_exception_def split: exc_kind.splits)
  define ow where "ow = (case classify of None \<Rightarrow> (outcome0, why0)
       | Some c \<Rightarrow> (case c x of None \<Rightarrow> (outcome0, why0)
          | Some chosen \<Rightarrow> if chosen \<in> {FailedBeforeEffect, Partial, OutcomeUnknown}
               then (chosen, cls @ '': '' @ te_text x) else (outcome0, why0)))"
  obtain outcome why where ow: "ow = (outcome, why)" by fastforce
  have o: "outcome \<in> {Partial, OutcomeUnknown}"
    using ow o0 assms(4) by (auto simp: ow_def claims_not_sent_def split: option.splits if_splits)
  let ?s = "plain_settlement\<lparr>st_reason := why, st_error_class := cls\<rparr>"
  obtain y w1 where s: "ob_settle jl eid outcome ?s now w = (y, w1)" by fastforce
  have "ob_rows w' = ob_rows w1"
    using assms(1,3) v s ow
    by (auto simp: handle_exception_def Let_def ow_def [symmetric] dest: get_rows split: sum.splits prod.splits)
  with o s show thesis by (rule that)
qed

lemma handle_effect:
  assumes "handle_exception jl eid x classify now w = (res, w')" and "te_kind x \<noteq> KNotDispatched"
    and "\<not> claims_not_sent classify x"
    and "dget (ob_rows w) eid = Some r" and "ef_state r = Dispatching" "ef_certainty r = CUnknown"
  shows "\<exists>r'. dget (ob_rows w') eid = Some r' \<and> same_key r' r \<and> may_have_landed r'"
proof (cases "te_kind x = KInterrupt")
  case True
  obtain y where "ob_cancel eid (te_name x @ '' while dispatching'') now w = (y, w')"
    using assms(1) True by (cases "ob_cancel eid (te_name x @ '' while dispatching'') now w") (auto simp: handle_exception_def)
  from cancel_effect [OF this assms(4,5)] assms(5,6) show ?thesis by (auto simp: may_have_landed_def)
next
  case False
  obtain outcome s y w1 where s: "outcome \<in> {Partial, OutcomeUnknown}"
    "ob_settle jl eid outcome s now w = (y, w1)" "ob_rows w' = ob_rows w1"
    by (rule handle_exception_settles [OF assms(1,2) False assms(3)])
  obtain cert where "settled_certainty outcome = Some cert" "(outcome, cert) \<in> {(Partial, CPartial), (OutcomeUnknown, CUnknown)}"
    using s(1) by auto
  from settle_effect [OF s(2) this(1) assms(4)] this(2) assms(5,6) s(3)
  show ?thesis by (auto simp: may_have_landed_def)
qed

lemma handle_calls: "handle_exception jl eid x classify now w = (res, w') \<Longrightarrow> ob_calls w' = ob_calls w"
  by (auto simp: handle_exception_def Let_def dest!: ob_settle_calls get_calls
      simp: ob_cancel_calls [OF surjective_pairing] split: if_splits sum.splits prod.splits)

lemma settle_inv: "ob_settle jl eid outcome s now w = (x, w') \<Longrightarrow> ob_inv w \<Longrightarrow> ob_inv w'"
  and get_inv: "ob_get eid owner w = (y, w') \<Longrightarrow> ob_inv w \<Longrightarrow> ob_inv w'"
  and prepare_inv: "ob_prepare q cx eid boot now w = (p, w') \<Longrightarrow> ob_inv w \<Longrightarrow> ob_inv w'"
  and admit_inv: "ob_admit eid now w = (x, w') \<Longrightarrow> ob_inv w \<Longrightarrow> ob_inv w'"
  using ob_settle_inv [of w jl eid outcome s now] ob_get_frame(3) [of eid owner w]
    ob_prepare_inv [of w q cx eid boot now] ob_admit_inv [of w eid now] by simp_all

lemma handle_inv: "ob_inv w \<Longrightarrow> handle_exception jl eid x classify now w = (res, w') \<Longrightarrow> ob_inv w'"
  by (auto simp: handle_exception_def Let_def ob_cancel_inv ob_get_frame
      dest: settle_inv get_inv
      split: if_splits sum.splits prod.splits)

lemma open_calls:
  "ob_prepare q cx eid boot now w = (p, w1) \<Longrightarrow> ob_admit i now w1 = (x, w2) \<Longrightarrow> ob_calls w2 = ob_calls w"
  by (drule prepare_calls, drule ob_admit_calls) simp

lemma settle_value_facts:
  assumes "settle_value jl eid v itp now w = (x, w')"
  shows "ob_calls w' = ob_calls w" and "ob_inv w \<Longrightarrow> ob_inv w'"
proof -
  have "w' = w \<or> (\<exists>outcome s y. ob_settle jl eid outcome s now w = (y, w'))"
    using assms by (auto simp: settle_value_def Let_def split: prod.splits sum.splits option.splits)
  then show "ob_calls w' = ob_calls w" "ob_inv w \<Longrightarrow> ob_inv w'"
    using ob_settle_calls settle_inv by auto
qed

lemma prepare_fresh:
  assumes "ob_prepare q cx eid boot now w = (Inr (Fresh r), w')"
  shows "r = new_row q cx eid boot now \<and> dget (ob_rows w') eid = Some r"
proof (cases rule: ob_prepare_cases [of q cx eid boot now w])
  case (unchanged x bs)
  with assms show ?thesis by simp
next
  case (inserted x bs)
  with assms have x: "x = Inr (Fresh r)" and w': "dget (ob_rows w') eid = Some (new_row q cx eid boot now)"
    by auto
  show ?thesis using inserted(4) [OF x] w' by simp
qed

lemma open_fresh_own:
  assumes "ob_open_row q cx eid boot now w = (Inr (Fresh r), w')" and none: "cx_admission_id cx = []"
  shows "ef_id r = eid \<and> dget (ob_rows w') eid = Some r \<and> same_key r (new_row q cx eid boot now)"
proof -
  obtain r0 w2 where p: "ob_prepare q cx eid boot now w = (Inr (Fresh r0), w2)"
    and a: "ob_admit (ef_id r0) now w2 = (Inr r, w')"
    using assms
    by (auto simp: ob_open_row_def Let_def split: option.splits prod.splits sum.splits opened.splits)
  have r0: "r0 = new_row q cx eid boot now" "dget (ob_rows w2) eid = Some r0"
    using prepare_fresh [OF p] by simp_all
  then have "ef_id r0 = eid" by (simp add: new_row_def)
  with a obtain w3 where m: "ob_move eid Admitted CNone [Prepared] (ef_admitted_at_update (\<lambda>_. Some now)) [] now w3 = (Inr r, w')"
    and r3: "dget (ob_rows w3) eid = Some r0"
    using r0(2) by (auto simp: ob_admit_def ob_admit_write_def dest: get_rows split: option.splits prod.splits sum.splits if_splits)
  have "\<exists>r'. dget (ob_rows w') eid = Some r' \<and> same_key r' r0 \<and> ef_id r' = ef_id r0 \<and> r' = r"
    using move_effect [OF m _ r3] by (auto simp: keeps_key_def)
  with r0 \<open>ef_id r0 = eid\<close> show ?thesis by auto
qed

lemma ob_open_row_facts:
  assumes "ob_open_row q cx eid boot now w = (x, w')" and "ob_inv w"
  shows "ob_calls w' = ob_calls w" and "ob_inv w'"
    and "\<not> joins_admission cx w \<Longrightarrow> x = Inr (Fresh r) \<Longrightarrow>
      ef_id r = eid \<and> dget (ob_rows w') eid = Some r \<and> same_key r (new_row q cx eid boot now)"
proof -
  obtain y w1 where g: "ob_get (cx_admission_id cx) None w = (y, w1)" by fastforce
  then have w1: "ob_inv w1" "ob_calls w1 = ob_calls w"
    using assms(2) ob_get_frame(3) [of "cx_admission_id cx" None w] get_calls by auto
  show "ob_calls w' = ob_calls w" and "ob_inv w'"
    using assms g w1
    by (auto simp: ob_open_row_def Let_def dest: prepare_inv admit_inv prepare_calls open_calls
        split: if_splits option.splits prod.splits sum.splits opened.splits)
  assume own: "\<not> joins_admission cx w" and x: "x = Inr (Fresh r)"
  obtain w2 where "ob_open_row q cx eid boot now w = ob_open_row q (cx\<lparr>cx_admission_id := []\<rparr>) eid boot now w2"
    by (rule open_row_own [OF own, where q = q and eid = eid and boot = boot and now = now])
  with assms(1) x have "ob_open_row q (cx\<lparr>cx_admission_id := []\<rparr>) eid boot now w2 = (Inr (Fresh r), w')" by simp
  from open_fresh_own [OF this]
  show "ef_id r = eid \<and> dget (ob_rows w') eid = Some r \<and> same_key r (new_row q cx eid boot now)" by simp
qed

lemma ob_begin_facts:
  assumes "ob_begin_dispatch i now w = (Inr r, w')" and "dget (ob_rows w) i = Some r0"
  shows "dget (ob_rows w') i = Some r \<and> same_key r r0 \<and> ef_state r = Dispatching \<and> ef_certainty r = CUnknown"
proof -
  obtain w1 upd where m: "ob_move i Dispatching CUnknown [Admitted] upd [] now w1 = (Inr r, w')"
    and "keeps_key upd" "dget (ob_rows w1) i = Some r0"
    using assms
    by (auto simp: ob_begin_dispatch_def ob_begin_write_def Let_def keeps_key_def dest: access_frame split: bool.splits prod.splits sum.splits)
  from move_effect [OF this] show ?thesis by auto
qed

lemma dispatch_cases:
  assumes "dispatch_effect True jl q cx eid boot now answer itp classify w = (res, w')" and "ob_inv w"
  obtains (refused) "ob_calls w' = ob_calls w" "ob_inv w'" "\<nexists>v r b. res = Returned (Some v) r b"
  | (called) r0 w1 r w2 where
      "ob_open_row q cx eid boot now w = (Inr (Fresh r0), w1)" "ob_begin_dispatch (ef_id r0) now w1 = (Inr r, w2)"
      "ob_calls w2 = ob_calls w" "ob_inv (call_transport (ef_id r0) w2)"
      "case answer of
         Inl x \<Rightarrow> handle_exception jl (ef_id r0) x classify now (call_transport (ef_id r0) w2) = (res, w')
       | Inr v \<Rightarrow> \<exists>y. settle_value jl (ef_id r0) v itp now (call_transport (ef_id r0) w2) = (y, w')"
proof -
  obtain x w1 where o: "ob_open_row q cx eid boot now w = (x, w1)" by fastforce
  note of = ob_open_row_facts(1,2) [OF o assms(2)]
  show thesis
  proof (cases "\<exists>r0. x = Inr (Fresh r0)")
    case False
    with assms(1) o of show thesis
      by (intro refused) (auto simp: dispatch_effect_def dedup_hit_def split: sum.splits opened.splits if_splits)
  next
    case True
    then obtain r0 where x: "x = Inr (Fresh r0)" by blast
    obtain y w2 where b: "ob_begin_dispatch (ef_id r0) now w1 = (y, w2)" by fastforce
    have c2: "ob_calls w2 = ob_calls w" using ob_begin_calls [OF b] of by simp
    show thesis
    proof (cases y)
      case (Inl e)
      then have "ob_inv w2" using ob_begin_invD(1) [OF of(2)] b by blast
      with assms(1) o x b c2 Inl show thesis by (intro refused) (auto simp: dispatch_effect_def)
    next
      case (Inr r)
      have inv2: "ob_inv (call_transport (ef_id r0) w2)" using ob_begin_invD(2) [OF of(2)] b Inr by blast
      show thesis
        by (rule called [OF o [unfolded x] b [unfolded Inr] c2 inv2])
           (use assms(1) o x b Inr in \<open>auto simp: dispatch_effect_def Let_def split: sum.splits prod.splits\<close>)
    qed
  qed
qed

lemma dispatch_result_facts:
  assumes "ob_inv w" and "dispatch_effect True jl q cx eid boot now answer itp classify w = (res, w')"
  shows "ob_inv w' \<and>
    (ob_calls w' = ob_calls w \<and> (\<nexists>v r b. res = Returned (Some v) r b)
     \<or> (\<exists>i. i \<notin> set (ob_calls w) \<and> ob_calls w' = ob_calls w @ [i]))"
  using assms(2,1)
proof (cases rule: dispatch_cases)
  case refused
  then show ?thesis by simp
next
  case (called r0 w1 r w2)
  let ?w3 = "call_transport (ef_id r0) w2"
  have "ob_inv w' \<and> ob_calls w' = ob_calls ?w3"
  proof (cases answer)
    case (Inl x)
    with called(5) have "handle_exception jl (ef_id r0) x classify now ?w3 = (res, w')" by simp
    with called(4) show ?thesis by (blast dest: handle_calls handle_inv)
  next
    case (Inr v)
    with called(5) obtain y where "settle_value jl (ef_id r0) v itp now ?w3 = (y, w')" by auto
    with called(4) show ?thesis by (blast dest: settle_value_facts)
  qed
  moreover have "ob_calls ?w3 = ob_calls w @ [ef_id r0]" using called(3) by (simp add: call_transport_def)
  moreover have "distinct (ob_calls ?w3)" using called(4) by (simp add: ob_inv_def)
  ultimately show ?thesis by auto
qed

text \<open>
  One guarded dispatch calls the transport at most once, and only for an effect that was
  never called before; it returns a transport's value only when it called it; and it keeps every
  row, the index, the calls and the event log consistent, whatever the transport answers and
  whichever accesses of the file fail.
\<close>
theorem dispatch_calls_once:
  assumes "ob_inv w" and "dispatch_effect True jl q cx eid boot now answer itp classify w = (res, w')"
  shows "ob_inv w' \<and>
    (ob_calls w' = ob_calls w \<and> (\<nexists>v r b. res = Returned (Some v) r b)
     \<or> (\<exists>i. i \<notin> set (ob_calls w) \<and> ob_calls w' = ob_calls w @ [i]))"
  using assms by (rule dispatch_result_facts)

lemma dispatch_failure_row:
  assumes "ob_inv w" and "dispatch_effect True jl q cx eid boot now (Inl x) itp classify w = (res, w1)"
    and "ob_calls w1 \<noteq> ob_calls w" and "te_kind x \<noteq> KNotDispatched" and "\<not> claims_not_sent classify x"
    and "\<not> joins_admission cx w"
  shows "\<exists>r. dget (ob_rows w1) eid = Some r \<and> same_key r (new_row q cx eid boot now) \<and> may_have_landed r"
  using assms(2,1)
proof (cases rule: dispatch_cases)
  case refused
  with assms(3) show ?thesis by simp
next
  case (called r0 w2 r w3)
  have "ef_id r0 = eid" and r0: "dget (ob_rows w2) eid = Some r0" "same_key r0 (new_row q cx eid boot now)"
    using ob_open_row_facts(3) [OF called(1) assms(1,6)] by simp_all
  with ob_begin_facts [OF called(2)] have
    r: "dget (ob_rows (call_transport eid w3)) eid = Some r" "same_key r r0" "ef_state r = Dispatching" "ef_certainty r = CUnknown"
    by (simp_all add: call_transport_def)
  have "handle_exception jl eid x classify now (call_transport eid w3) = (res, w1)"
    using called(5) \<open>ef_id r0 = eid\<close> by simp
  from handle_effect [OF this assms(4,5) r(1,3,4)] r(2) r0(2) show ?thesis
    by (blast intro: same_key_trans)
qed

text \<open>
  C31: With the outbox enabled, after a dispatch with a key whose transport raised an exception
  that does not prove the effect was not sent (neither the exception itself nor the classifier
  says so), a second dispatch of the same owner, kind and key never calls its transport: the
  ambiguous effect is not repeated. Neither of the two joins a row the tool layer has admitted.
\<close>
theorem ambiguous_failure_is_not_retried:
  assumes "ob_inv w" and "dispatch_effect True jl q cx eid boot now (Inl x) itp classify w = (res, w1)"
    and "ob_calls w1 \<noteq> ob_calls w" and "te_kind x \<noteq> KNotDispatched" and "\<not> claims_not_sent classify x"
    and "\<not> joins_admission cx w" and "rq_dedup_key q \<noteq> None" and "\<not> joins_admission cx2 w1"
    and "same_key (new_row q2 cx2 eid2 boot2 now2) (new_row q cx eid boot now)"
  shows "ob_calls (snd (dispatch_effect True jl2 q2 cx2 eid2 boot2 now2 answer2 itp2 classify2 w1)) = ob_calls w1"
proof -
  obtain r where r: "dget (ob_rows w1) eid = Some r" "same_key r (new_row q cx eid boot now)" "may_have_landed r"
    using dispatch_failure_row [OF assms(1-6)] by blast
  have "ob_inv w1" using dispatch_result_facts [OF assms(1,2)] by simp
  moreover have "blocking r"
    using r(2,3) assms(7) by (auto simp: may_have_landed_def blocking_def same_key_def new_row_def)
  moreover have "same_key (new_row q2 cx2 eid2 boot2 now2) r"
    using assms(9) r(2) same_key_sym same_key_trans by blast
  ultimately obtain bs res2 where
    "dispatch_effect True jl2 q2 cx2 eid2 boot2 now2 answer2 itp2 classify2 w1 = (res2, w1\<lparr>ob_faults := bs\<rparr>)"
    using blocked_dispatch [OF _ r(1) _ _ assms(8)] by metis
  then show ?thesis by simp
qed

section \<open>Start-up recovery\<close>

text \<open>What recovery promises for an open row of an earlier process.\<close>

definition recovered_as :: "effect_row \<Rightarrow> effect_row \<Rightarrow> bool" where
  "recovered_as r r' \<longleftrightarrow> same_key r' r \<and> ef_id r' = ef_id r \<and> ef_boot_id r' = ef_boot_id r
     \<and> ef_dispatch_count r' = ef_dispatch_count r \<and> ef_error_class r' = ''process_restart''
     \<and> (ef_state r', ef_certainty r') = (if ef_state r = Dispatching then (OutcomeUnknown, CUnknown) else (Cancelled, CNone))"

lemma no_clash:
  assumes "ob_inv w" "dget (ob_rows w) eid = Some r" "same_key r' r" "blocking r' \<Longrightarrow> blocking r"
  shows "\<not> index_clash eid r' (ob_rows w)"
proof
  assume "index_clash eid r' (ob_rows w)"
  then obtain k x where "(k, x) \<in> set (ob_rows w)" "k \<noteq> eid" "blocking x" "same_key r' x" "blocking r'"
    by (auto simp: index_clash_def list_ex_iff)
  moreover have "dwf (ob_rows w)" "keys_ok (ob_rows w)" using assms(1) by (simp_all add: ob_inv_def)
  ultimately show False
    using assms(2,3,4) dget_in_set [of "ob_rows w" k x] same_key_trans [OF same_key_sym [OF assms(3)], of x]
    unfolding keys_ok_def by blast
qed

lemma recover_one_clean:
  assumes inv: "ob_inv w" and f: "ob_faults w = []" and r: "dget (ob_rows w) (ef_id row) = Some row"
    and orph: "orphan boot row"
  obtains r' w' where "recover_one now row (u, c, w) =
      (if ef_state row = Dispatching then (u + 1, c, w') else (u, c + 1, w'))"
    "ob_faults w' = []" "ob_rows w' = dset (ef_id row) r' (ob_rows w)" "recovered_as row r'"
proof -
  let ?st = "if ef_state row = Dispatching then OutcomeUnknown else Cancelled"
  let ?ce = "if ef_state row = Dispatching then CUnknown else CNone"
  let ?why = "if ef_state row = Dispatching then ''the process ended while the effect was dispatching''
    else ''the process ended before dispatch began''"
  let ?u = "\<lambda>r. r\<lparr>ef_settled_at := Some now, ef_reason := ?why, ef_error_class := ''process_restart''\<rparr>"
  let ?r' = "moved_row ?u ?st ?ce row"
  let ?w' = "moved_world (ef_id row) ?st ?ce ?u [(''recovered'', ''true'')] now row [] w"
  have nc: "\<not> index_clash (ef_id row) ?r' (ob_rows w)"
    using inv r by (rule no_clash) (auto simp: moved_row_def same_key_def blocking_def)
  have tr: "?st \<in> set (transitions (ef_state row))" using orph by (auto simp: orphan_def)
  have "ob_move (ef_id row) ?st ?ce [ef_state row] ?u [(''recovered'', ''true'')] now w = (Inr ?r', ?w')"
    using f r nc tr by (simp add: ob_move_def access_def Let_def moved_row_def moved_world_def)
  then have "recover_one now row (u, c, w) = (if ef_state row = Dispatching then (u + 1, c, ?w') else (u, c + 1, ?w'))"
    by (auto simp: recover_one_def split: if_splits)
  moreover have "recovered_as row ?r'" by (auto simp: recovered_as_def moved_row_def same_key_def)
  ultimately show thesis using that [of ?w' ?r'] by (simp add: moved_world_def)
qed

lemma recover_fold_clean:
  assumes "ob_inv w" and "ob_faults w = []" and "distinct (map ef_id rows)"
    and "\<forall>row \<in> set rows. dget (ob_rows w) (ef_id row) = Some row \<and> orphan boot row"
  shows "\<exists>w'. fold (recover_one now) rows (u, c, w) =
      (u + length (filter (\<lambda>r. ef_state r = Dispatching) rows), c + length (filter (\<lambda>r. ef_state r \<noteq> Dispatching) rows), w')
    \<and> (\<forall>eid. eid \<notin> ef_id ` set rows \<longrightarrow> dget (ob_rows w') eid = dget (ob_rows w) eid)
    \<and> (\<forall>row \<in> set rows. \<exists>r'. dget (ob_rows w') (ef_id row) = Some r' \<and> recovered_as row r')"
  using assms
proof (induction rows arbitrary: u c w)
  case (Cons row rows)
  obtain r' w1 where one: "recover_one now row (u, c, w) =
      (if ef_state row = Dispatching then (u + 1, c, w1) else (u, c + 1, w1))"
    and w1: "ob_faults w1 = []" "ob_rows w1 = dset (ef_id row) r' (ob_rows w)" and rec: "recovered_as row r'"
    by (rule recover_one_clean [OF Cons.prems(1,2), of row boot now u c]) (use Cons.prems(4) in auto)
  have "ob_inv w1" using recover_one_inv [OF Cons.prems(1), of now row u c] one by (auto split: if_splits)
  moreover have "\<forall>r \<in> set rows. dget (ob_rows w1) (ef_id r) = Some r \<and> orphan boot r"
  proof
    fix r assume r: "r \<in> set rows"
    then have "ef_id r \<noteq> ef_id row" using Cons.prems(3) by (metis distinct.simps(2) image_eqI list.set_map list.simps(9))
    with r Cons.prems(4) w1(2) show "dget (ob_rows w1) (ef_id r) = Some r \<and> orphan boot r" by simp
  qed
  moreover have "distinct (map ef_id rows)" using Cons.prems(3) by simp
  ultimately have ih: "\<exists>w'. fold (recover_one now) rows (u', c', w1) =
      (u' + length (filter (\<lambda>r. ef_state r = Dispatching) rows), c' + length (filter (\<lambda>r. ef_state r \<noteq> Dispatching) rows), w')
    \<and> (\<forall>eid. eid \<notin> ef_id ` set rows \<longrightarrow> dget (ob_rows w') eid = dget (ob_rows w1) eid)
    \<and> (\<forall>row \<in> set rows. \<exists>r'. dget (ob_rows w') (ef_id row) = Some r' \<and> recovered_as row r')" for u' c'
    by (intro Cons.IH [OF _ w1(1)])
  obtain u1 c1 where uc: "recover_one now row (u, c, w) = (u1, c1, w1)"
    "u1 + length (filter (\<lambda>r. ef_state r = Dispatching) rows) = u + length (filter (\<lambda>r. ef_state r = Dispatching) (row # rows))"
    "c1 + length (filter (\<lambda>r. ef_state r \<noteq> Dispatching) rows) = c + length (filter (\<lambda>r. ef_state r \<noteq> Dispatching) (row # rows))"
    using one by (cases "ef_state row = Dispatching") auto
  obtain w' where w': "fold (recover_one now) rows (u1, c1, w1) =
      (u1 + length (filter (\<lambda>r. ef_state r = Dispatching) rows), c1 + length (filter (\<lambda>r. ef_state r \<noteq> Dispatching) rows), w')"
    "\<forall>eid. eid \<notin> ef_id ` set rows \<longrightarrow> dget (ob_rows w') eid = dget (ob_rows w1) eid"
    "\<forall>row \<in> set rows. \<exists>r'. dget (ob_rows w') (ef_id row) = Some r' \<and> recovered_as row r'"
    using ih [of u1 c1] by blast
  have "ef_id row \<notin> ef_id ` set rows" using Cons.prems(3) by simp
  then have "dget (ob_rows w') (ef_id row) = Some r'" using w'(2) w1(2) by simp
  then have "\<forall>x \<in> set (row # rows). \<exists>r'. dget (ob_rows w') (ef_id x) = Some r' \<and> recovered_as x r'"
    using rec w'(3) by simp
  moreover have "\<forall>eid. eid \<notin> ef_id ` set (row # rows) \<longrightarrow> dget (ob_rows w') eid = dget (ob_rows w) eid"
    using w'(2) w1(2) by simp
  moreover have "fold (recover_one now) (row # rows) (u, c, w) =
      (u + length (filter (\<lambda>r. ef_state r = Dispatching) (row # rows)),
       c + length (filter (\<lambda>r. ef_state r \<noteq> Dispatching) (row # rows)), w')"
    using uc w'(1) by simp
  ultimately show ?case by blast
qed simp

text \<open>
  Start-up recovery with a healthy store settles exactly the open rows of earlier processes,
  and calls nothing: what was dispatching becomes \<open>outcome_unknown\<close> (never a failure, so its key
  stays held), what had not begun becomes cancelled with certainty \<open>none\<close> (its key is free), every
  other row is untouched, and the two counts it reports are the numbers of each.
\<close>
theorem recovery_settles_orphans:
  assumes "ob_inv w" and "ob_faults w = []"
  shows "\<exists>w'. ob_recover_orphans boot now w =
      (length (filter (\<lambda>(k, r). orphan boot r \<and> ef_state r = Dispatching) (ob_rows w)),
       length (filter (\<lambda>(k, r). orphan boot r \<and> ef_state r \<noteq> Dispatching) (ob_rows w)), w')
    \<and> ob_inv w' \<and> ob_calls w' = ob_calls w
    \<and> (\<forall>eid r. dget (ob_rows w) eid = Some r \<longrightarrow>
          (\<exists>r'. dget (ob_rows w') eid = Some r' \<and> (if orphan boot r then recovered_as r r' else r' = r)))"
proof -
  let ?rows = "filter (orphan boot) (map snd (ob_rows w))"
  have wf: "dwf (ob_rows w)" using assms(1) by (simp add: ob_inv_def)
  have ids: "ef_id r = k" "dget (ob_rows w) k = Some r" if "(k, r) \<in> set (ob_rows w)" for k r
    using dget_in_set [OF wf that] row_validD [OF assms(1)] by auto
  have "map ef_id (map snd (ob_rows w)) = map fst (ob_rows w)"
    using ids(1) by auto
  then have "distinct (map ef_id ?rows)" using wf by (metis distinct_map_filter)
  moreover have there: "\<forall>row \<in> set ?rows. dget (ob_rows w) (ef_id row) = Some row \<and> orphan boot row"
    using ids by auto
  ultimately obtain w' where w': "fold (recover_one now) ?rows (0, 0, w) =
      (length (filter (\<lambda>r. ef_state r = Dispatching) ?rows), length (filter (\<lambda>r. ef_state r \<noteq> Dispatching) ?rows), w')"
    "\<forall>eid. eid \<notin> ef_id ` set ?rows \<longrightarrow> dget (ob_rows w') eid = dget (ob_rows w) eid"
    "\<forall>row \<in> set ?rows. \<exists>r'. dget (ob_rows w') (ef_id row) = Some r' \<and> recovered_as row r'"
    using recover_fold_clean [OF assms, of ?rows boot now 0 0] by (metis add_0)
  have eq: "ob_recover_orphans boot now w = fold (recover_one now) ?rows (0, 0, w)"
    using assms(2) by (simp add: ob_recover_orphans_def access_def)
  have counts: "length (filter P ?rows) = length (filter (\<lambda>(k, r). orphan boot r \<and> P r) (ob_rows w))" for P
    by (simp add: filter_map o_def split_def conj_commute)
  have "\<exists>r'. dget (ob_rows w') eid = Some r' \<and> (if orphan boot r then recovered_as r r' else r' = r)"
    if r: "dget (ob_rows w) eid = Some r" for eid r
  proof -
    have mem: "(eid, r) \<in> set (ob_rows w)" "ef_id r = eid" using dget_SomeD [OF r] ids by auto
    show ?thesis
    proof (cases "orphan boot r")
      case True
      then have "r \<in> set ?rows" using mem(1) by force
      with w'(3) mem(2) True show ?thesis by auto
    next
      case False
      have "eid \<notin> ef_id ` set ?rows"
      proof
        assume "eid \<in> ef_id ` set ?rows"
        then obtain row where "row \<in> set ?rows" "eid = ef_id row" by blast
        with there r have "row = r" "orphan boot row" by (metis option.inject)+
        with False show False by simp
      qed
      with w'(2) r False show ?thesis by simp
    qed
  qed
  moreover have "ob_inv w'" "ob_calls w' = ob_calls w"
    using ob_recover_inv [OF assms(1), of boot now] ob_recover_calls [of boot now w] eq w'(1) by auto
  ultimately show ?thesis unfolding eq using w'(1) counts by auto
qed

section \<open>Closing an admission\<close>

lemma ob_move_clean:
  assumes "ob_inv w" "ob_faults w = []" "dget (ob_rows w) eid = Some r" "ef_state r \<in> set al"
    and "to_state \<in> set (transitions (ef_state r))" "keeps_key upd"
    and "blocking (moved_row upd to_state cert r) \<Longrightarrow> blocking r"
  shows "ob_move eid to_state cert al upd detail now w
    = (Inr (moved_row upd to_state cert r), moved_world eid to_state cert upd detail now r [] w)"
proof -
  have "\<not> index_clash eid (moved_row upd to_state cert r) (ob_rows w)"
    using assms(1,3) by (rule no_clash) (use assms(6,7) in \<open>auto simp: moved_row_def same_key_def keeps_key_def\<close>)
  with assms(2-5) show ?thesis
    by (simp add: ob_move_def access_def Let_def moved_row_def moved_world_def)
qed

lemma move_clean_exists:
  assumes "ob_inv w" "ob_faults w = []" "dget (ob_rows w) eid = Some r" "ef_state r \<in> set al"
    and "to_state \<in> set (transitions (ef_state r))" "keeps_key upd"
    and "blocking (moved_row upd to_state cert r) \<Longrightarrow> blocking r"
  shows "\<exists>r' w'. ob_move eid to_state cert al upd detail now w = (Inr r', w')
    \<and> dget (ob_rows w') eid = Some r' \<and> (ef_state r', ef_certainty r') = (to_state, cert)"
  using ob_move_clean [OF assms] by (simp add: moved_row_def moved_world_def)

lemma get_clean: "ob_faults w = [] \<Longrightarrow> ob_get eid None w = (dget (ob_rows w) eid, w)"
  by (auto simp: ob_get_def access_def split: option.splits)

text \<open>What the tool layer's verdict makes of an open row.\<close>

fun closing_state :: "eff_state \<Rightarrow> tool_status \<Rightarrow> bool \<Rightarrow> eff_state \<times> certainty" where
  "closing_state Admitted TSucceeded e = (Cancelled, CNone)"
| "closing_state Admitted st e = (FailedBeforeEffect, CNone)"
| "closing_state st TSucceeded e = (Succeeded, CConfirmed)"
| "closing_state st TPartial e = (Partial, CPartial)"
| "closing_state st TDenied e = (FailedBeforeEffect, CNone)"
| "closing_state st TConflict e = (FailedBeforeEffect, CNone)"
| "closing_state st (TOtherStatus t) e = (if e then (FailedBeforeEffect, CNone) else (OutcomeUnknown, CUnknown))"

lemma settle_clean:
  assumes "ob_inv w" "ob_faults w = []" "dget (ob_rows w) eid = Some r"
    and "settled_certainty outcome = Some cert" "outcome \<in> set (transitions (ef_state r))"
    and "ef_state r = Dispatching \<or> ef_state r = Admitted \<and> outcome = FailedBeforeEffect"
  shows "\<exists>r' w'. ob_settle jl eid outcome s now w = (Inr r', w') \<and> dget (ob_rows w') eid = Some r'
     \<and> (ef_state r', ef_certainty r') = (outcome, cert)"
proof -
  have bl: "ef_dedup_key r \<noteq> None \<Longrightarrow> blocking r" using assms(6) by (auto simp: blocking_def)
  have allowed: "ef_state r \<in> set (if outcome = FailedBeforeEffect \<and> ef_state r = Admitted then [Admitted] else [Dispatching])"
    using assms(6) by auto
  have "ob_settle jl eid outcome s now w = ob_move eid outcome cert
      (if outcome = FailedBeforeEffect \<and> ef_state r = Admitted then [Admitted] else [Dispatching])
      (\<lambda>x. x\<lparr>ef_settled_at := Some now, ef_reason := clip 1000 (st_reason s), ef_external_ref := clip 300 (st_external_ref s),
        ef_error_class := clip 120 (st_error_class s),
        ef_evidence := stored_evidence jl (ef_evidence r @ (case st_evidence s of None \<Rightarrow> [] | Some e \<Rightarrow> if e = [] then [] else [(''at'', now) # e]))\<rparr>)
      [(''reason'', clip 300 (st_reason s)), (''error_class'', st_error_class s)] now w"
    using assms(2-4) by (simp add: ob_settle_def ob_settle_write_def get_clean Let_def)
  then show ?thesis
    by (simp only: prod.inject)
      (rule move_clean_exists [OF assms(1-3) allowed assms(5), unfolded prod.inject];
        use bl in \<open>auto simp: keeps_key_def moved_row_def blocking_def\<close>)
qed

lemma cancel_clean:
  assumes "ob_inv w" "ob_faults w = []" "dget (ob_rows w) eid = Some r" "ef_state r = Admitted"
  shows "\<exists>r' w'. ob_cancel eid reason now w = (Inr r', w') \<and> dget (ob_rows w') eid = Some r'
     \<and> (ef_state r', ef_certainty r') = (Cancelled, CNone)"
proof -
  have "ob_cancel eid reason now w = ob_move eid Cancelled CNone [Prepared, Admitted, Dispatching]
      (\<lambda>x. x\<lparr>ef_settled_at := Some now, ef_reason := clip 1000 reason\<rparr>)
      [(''during_dispatch'', bool_str False)] now w"
    using assms(2-4) by (simp add: ob_cancel_def ob_cancel_write_def get_clean)
  then show ?thesis
    by (simp only: prod.inject)
      (rule move_clean_exists [OF assms(1-3), unfolded prod.inject];
        auto simp: assms(4) keeps_key_def moved_row_def blocking_def)
qed

text \<open>
  When a tool call ends, \<open>finalize_admission\<close> leaves no open row behind: with a healthy store
  an admitted row is closed with certainty \<open>none\<close> (cancelled when the handler succeeded without
  sending), and a row that was dispatching is closed as succeeded, partial, failed before effect
  only when the tool proves it was not sent, and \<open>outcome_unknown\<close> for every other status.
\<close>
theorem finalize_closes_open_row:
  assumes "ob_inv w" "ob_faults w = []" "dget (ob_rows w) eid = Some r" "ef_state r \<in> {Admitted, Dispatching}"
  shows "\<exists>r' w'. finalize_admission jl eid status err reason proved ref now w = (Inr (Some r'), w')
     \<and> dget (ob_rows w') eid = Some r' \<and> (ef_state r', ef_certainty r') = closing_state (ef_state r) status proved"
proof (cases "ef_state r = Admitted \<and> status = TSucceeded")
  case True
  obtain r' w' where "ob_cancel eid (''the handler completed without dispatching (for example a draft staged for approval)'') now w
      = (Inr r', w')" "dget (ob_rows w') eid = Some r'" "(ef_state r', ef_certainty r') = (Cancelled, CNone)"
    using cancel_clean [OF assms(1-3)] True by blast
  with True assms(2,3) show ?thesis by (simp add: finalize_admission_def get_clean)
next
  case False
  have settle: "\<exists>r' w'. ob_settle jl eid outcome s now w = (Inr r', w') \<and> dget (ob_rows w') eid = Some r'
     \<and> (ef_state r', ef_certainty r') = (outcome, cert)"
    if "settled_certainty outcome = Some cert" "ef_state r = Dispatching \<or> outcome = FailedBeforeEffect" for outcome cert s
    using settle_clean [OF assms(1-3) that(1)] that assms(4) by (cases outcome) auto
  show ?thesis
  proof (cases "ef_state r = Admitted")
    case True
    obtain r' w' where "ob_settle jl eid FailedBeforeEffect (plain_settlement\<lparr>st_reason := or_else reason (or_else err (tool_status_str status)),
        st_error_class := ''before_dispatch''\<rparr>) now w = (Inr r', w')" "dget (ob_rows w') eid = Some r'"
        "(ef_state r', ef_certainty r') = (FailedBeforeEffect, CNone)"
      using settle [where outcome = FailedBeforeEffect and cert = CNone] by (metis settled_certainty.simps(2))
    with True False assms(2,3) show ?thesis by (cases status) (simp_all add: finalize_admission_def get_clean Let_def)
  next
    case disp: False
    with assms(4) have d: "ef_state r = Dispatching" by simp
    have lifted: "\<exists>r' w'. (case ob_settle jl eid outcome s now w of
            (r, v) \<Rightarrow> (case r of Inl e \<Rightarrow> Inl e | Inr x \<Rightarrow> Inr (Some x), v)) = (Inr (Some r'), w')
        \<and> dget (ob_rows w') eid = Some r' \<and> ef_state r' = outcome \<and> ef_certainty r' = cert"
      if "settled_certainty outcome = Some cert" for outcome cert s
      using settle [OF that, of s] d by auto
    show ?thesis
      using d assms(2,3) lifted [of Succeeded] lifted [of Partial] lifted [of FailedBeforeEffect] lifted [of OutcomeUnknown]
      by (cases status) (simp_all add: finalize_admission_def get_clean Let_def)
  qed
qed

section \<open>What an operator sees as open\<close>

lemma count_as_sum: "length (filter P xs) = sum_list (map (\<lambda>x. if P x then 1 else 0) xs)"
  by (induction xs) auto

lemma dget_or_by_state:
  "dget_or (filter (\<lambda>(st, n). 0 < n) (map (\<lambda>st. (st, f st)) sts)) st (0::nat) = (if st \<in> set sts then f st else 0)"
proof -
  have "dget (filter (\<lambda>(st, n). 0 < n) (map (\<lambda>st. (st, f st)) sts)) st = (if st \<in> set sts \<and> 0 < f st then Some (f st) else None)"
    by (induction sts) auto
  then show ?thesis by (simp add: dget_or_def)
qed

text \<open>
  The effects waiting for reconciliation are the ones \<open>summary\<close> counts as unresolved plus the
  ones cancelled during dispatch with an unknown outcome: the summary's \<open>unresolved\<close> leaves the
  latter out although they are reconcilable.
\<close>
theorem unresolved_undercounts:
  "length (needs_reconciliation owner (length rows) rows) =
     os_unresolved (ob_summary owner rows)
     + length (filter (\<lambda>(k, r). ef_state r = Cancelled \<and> ef_certainty r = CUnknown \<and> matches owner (ef_owner r)) rows)"
proof -
  have m: "(case owner of None \<Rightarrow> True | Some o' \<Rightarrow> x = o') = matches owner x" for x
    by (simp add: matches_def split: option.splits)
  let ?open = "filter (\<lambda>r. unresolved r \<and> matches owner (ef_owner r)) (map snd rows)"
  have "length ?open \<le> length rows" by (metis length_filter_le length_map)
  then have "length (needs_reconciliation owner (length rows) rows) = length ?open"
    by (simp add: needs_reconciliation_def m)
  also have "\<dots> = count_state OutcomeUnknown owner rows + count_state Partial owner rows
     + length (filter (\<lambda>(k, r). ef_state r = Cancelled \<and> ef_certainty r = CUnknown \<and> matches owner (ef_owner r)) rows)"
    by (induction rows) (auto simp: unresolved_def count_state_def)
  also have "count_state OutcomeUnknown owner rows + count_state Partial owner rows = os_unresolved (ob_summary owner rows)"
    by (simp add: ob_summary_def Let_def dget_or_by_state) (simp add: all_states_def)
  finally show ?thesis by simp
qed

section \<open>Concrete runs\<close>

definition demo_request :: effect_request where
  "demo_request = \<lparr>rq_kind = ''email'', rq_owner = ''ana'', rq_destination = ''bob'', rq_identifier = ''m1'',
     rq_identifier_kind = ''message_id'', rq_digest = None, rq_arguments_sha256 = [], rq_dedup_key = Some ''k'',
     rq_idempotency_key = [], rq_destination_enforces = False\<rparr>"

definition demo_open :: "string \<Rightarrow> outbox \<Rightarrow> outbox" where
  "demo_open eid w = snd (ob_admit eid ''t2'' (snd (ob_prepare demo_request empty_context eid ''b1'' ''t1'' w)))"

lemma demo_open_inv: "ob_inv w \<Longrightarrow> ob_inv (demo_open eid w)"
  by (simp add: demo_open_def ob_prepare_inv ob_admit_inv)

definition demo_box :: outbox where
  "demo_box = demo_open ''e1'' empty_outbox"

lemma demo_inv: "ob_inv demo_box"
  by (simp add: demo_box_def demo_open_inv ob_inv_empty)

text \<open>
  \<open>cancel\<close> reads the row and writes it in two transactions. When a dispatcher begins in
  between, the write still says "cancelled before dispatch, certainty none" for an effect whose
  transport was called; its key is free, and the next dispatch with the key calls the transport
  again.
\<close>
theorem cancel_race_repeats_effect:
  "let w1 = fold (ob_step length)
         [OpPrepare demo_request empty_context ''e1'' ''b1'' ''t1'', OpRead ''e1'' None, OpAdmit 0 ''t2'',
          OpRead ''e1'' None, OpBegin ''e1'' (Some 1) ''t3'', OpCall ''e1'', OpCancel 1 ''stop'' ''t4''] empty_world;
       w2 = fold (ob_step length)
         [OpPrepare demo_request empty_context ''e2'' ''b1'' ''t5'', OpRead ''e2'' None, OpAdmit 2 ''t6'',
          OpBegin ''e2'' (Some 2) ''t7'', OpCall ''e2''] w1
   in map_option (\<lambda>r. (ef_state r, ef_certainty r)) (dget (ob_rows (ow_box w1)) ''e1'') = Some (Cancelled, CNone)
      \<and> ob_calls (ow_box w1) = [''e1''] \<and> ob_calls (ow_box w2) = [''e1'', ''e2'']"
  by code_simp

text \<open>
  An admitted row of the tool layer is another way around a held key: a dispatch that joins one
  never looks at its own key, so the transport is called although a row with that owner, kind and
  key has an unknown outcome.
\<close>
theorem admission_skips_the_held_key:
  "let w1 = snd (ob_settle length ''e1'' OutcomeUnknown plain_settlement ''t4''
              (snd (ob_begin_dispatch ''e1'' ''t3'' demo_box)));
       (adm, w2) = ob_open_admission ''tool'' ''send'' ''ana'' [] [] [] ''run'' ''call'' True [] ''e2'' ''b1'' ''t5'' w1;
       (res, w3) = dispatch_effect True length demo_request (empty_context\<lparr>cx_admission_id := ''e2''\<rparr>) ''e3'' ''b1'' ''t6''
              (Inr VOther) no_interpreter None w2
   in map_option blocking (dget (ob_rows w2) ''e1'') = Some True
      \<and> same_key (new_row demo_request empty_context ''e3'' ''b1'' ''t6'') (the (dget (ob_rows w2) ''e1''))
      \<and> ob_calls w2 = [] \<and> ob_calls w3 = [''e2'']"
  by code_simp

text \<open>
  \<open>resolve_manually\<close> accepts an effect that was cancelled before dispatch, which
  \<open>reconcile\<close> refuses to touch: a row whose transport was never called ends as reconciled with
  certainty \<open>confirmed\<close>, and its key is held again.
\<close>
theorem manual_resolution_of_unsent_effect:
  "let w0 = snd (ob_cancel ''e1'' ''stop'' ''t3'' demo_box);
       (a, w1) = ob_reconcile length ''e1'' None (Some (\<lambda>r. Landed [])) (\<lambda>k. None) ''t4'' w0;
       (b, w2) = ob_resolve_manually length ''e1'' True [] ''ana'' None ''t5'' w0
   in (case a of Inr x \<Rightarrow> ra_reason x = NothingToReconcile \<and> \<not> ra_changed x | Inl e \<Rightarrow> False)
      \<and> (case b of Inr x \<Rightarrow> ra_changed x | Inl e \<Rightarrow> False)
      \<and> map_option (\<lambda>r. (ef_state r, ef_certainty r, ef_dispatch_count r)) (dget (ob_rows w2) ''e1'')
          = Some (Reconciled, CConfirmed, 0)
      \<and> ob_calls w2 = []"
  by code_simp

theorem outbox_sends_at_most_once_witness:
  "distinct (ob_calls (ow_box (fold (ob_step length)
     [OpPrepare demo_request empty_context ''e1'' ''b1'' ''t1'', OpRead ''e1'' None, OpAdmit 0 ''t2'',
      OpRead ''e1'' None, OpBegin ''e1'' (Some 1) ''t3'', OpCancel 1 ''stop'' ''t4'', OpCall ''e1'',
      OpFaults [True], OpScan, OpRecover 1 ''b2'' ''t5''] empty_world)))"
  using outbox_sends_at_most_once [OF refl, of length
    "[OpPrepare demo_request empty_context ''e1'' ''b1'' ''t1'', OpRead ''e1'' None, OpAdmit 0 ''t2'',
      OpRead ''e1'' None, OpBegin ''e1'' (Some 1) ''t3'', OpCancel 1 ''stop'' ''t4'', OpCall ''e1'',
      OpFaults [True], OpScan, OpRecover 1 ''b2'' ''t5'']"] by blast

lemma demo_row:
  "dget (ob_rows demo_box) ''e1''
     = Some ((new_row demo_request empty_context ''e1'' ''b1'' ''t1'')\<lparr>ef_state := Admitted, ef_admitted_at := Some ''t2''\<rparr>)"
  by code_simp

lemma demo_own: "\<not> joins_admission empty_context w"
  by (simp add: joins_admission_def empty_context_def)

theorem held_key_is_never_sent_witness:
  "\<exists>res w'. dispatch_effect True length demo_request empty_context ''e2'' ''b1'' ''t3'' (Inr VOther) no_interpreter None
      demo_box = (res, w') \<and> ob_calls w' = ob_calls demo_box"
  using held_key_is_never_sent [OF demo_inv demo_row, of demo_request empty_context "''e2''" "''b1''" "''t3''" length "Inr VOther" no_interpreter None]
  by (auto simp: blocking_def same_key_def new_row_def demo_request_def demo_own)

definition demo_timeout :: texc where
  "demo_timeout = \<lparr>te_kind = KOther, te_name = ''TimeoutError'', te_text = []\<rparr>"

theorem dispatch_calls_once_witness:
  "ob_inv (snd (dispatch_effect True length demo_request empty_context ''e1'' ''b1'' ''t1'' (Inl demo_timeout) no_interpreter None empty_outbox))"
  using dispatch_calls_once [OF ob_inv_empty surjective_pairing, of length demo_request empty_context "''e1''" "''b1''" "''t1''"
      "Inl demo_timeout" no_interpreter None] by blast

lemma demo_called:
  "ob_calls (snd (dispatch_effect True length demo_request empty_context ''e1'' ''b1'' ''t1'' (Inl demo_timeout) no_interpreter None
     empty_outbox)) = [''e1'']"
  by code_simp

theorem ambiguous_failure_is_not_retried_witness:
  "let w1 = snd (dispatch_effect True length demo_request empty_context ''e1'' ''b1'' ''t1'' (Inl demo_timeout) no_interpreter None empty_outbox)
   in ob_calls (snd (dispatch_effect True length demo_request empty_context ''e2'' ''b1'' ''t2'' (Inr VOther) no_interpreter None w1)) = ob_calls w1"
  unfolding Let_def
  by (rule ambiguous_failure_is_not_retried [OF ob_inv_empty surjective_pairing])
     (simp_all add: demo_called demo_own, simp_all add: empty_outbox_def demo_timeout_def claims_not_sent_def
        demo_request_def same_key_def new_row_def)

theorem recovery_settles_orphans_witness:
  "\<exists>w'. ob_recover_orphans ''b2'' ''t9'' demo_box = (0, 1, w') \<and> ob_inv w'"
proof -
  have f: "ob_faults demo_box = []" by code_simp
  have "length (filter (\<lambda>(k, r). orphan ''b2'' r \<and> ef_state r = Dispatching) (ob_rows demo_box)) = 0"
    "length (filter (\<lambda>(k, r). orphan ''b2'' r \<and> ef_state r \<noteq> Dispatching) (ob_rows demo_box)) = 1"
    by code_simp+
  with recovery_settles_orphans [OF demo_inv f, of "''b2''" "''t9''"] show ?thesis by auto
qed

theorem finalize_closes_open_row_witness:
  "\<exists>r' w'. finalize_admission length ''e1'' TSucceeded [] [] False [] ''t3'' demo_box = (Inr (Some r'), w')
     \<and> (ef_state r', ef_certainty r') = (Cancelled, CNone)"
proof -
  have f: "ob_faults demo_box = []" by code_simp
  show ?thesis
    using finalize_closes_open_row [OF demo_inv f demo_row, of length TSucceeded "[]" "[]" False "[]" "''t3''"]
    by (auto simp: new_row_def)
qed

end
