(* ===== verification/Resource_Claims.thy ===== *)
theory Resource_Claims
  imports Prelude "HOL-Library.Sublist"
begin

text \<open>
  Resource claims of parallel tool calls, \<open>src/resource_claims.py\<close>: what two claims must not be
  held together, the broker that grants claim sets in arrival order, and the fingerprints a guarded
  apply compares with its preview.

  The platform is a parameter: paths are already normalised strings with separator \<open>/\<close>, and
  \<open>os.stat\<close>, the file's digest, the tool's declared effects and the paths found in its arguments
  are arguments. A waiter's future is the set \<open>cw_woken\<close> of leases whose future is done.
\<close>

section \<open>Claims\<close>

datatype claim_mode = MRead | MWrite

datatype res_kind = KPath | KTree | KWorkspace | KProcess | KExternal | KWildcard

record resource =
  rc_kind :: res_kind
  rc_key :: string

record claim =
  cl_resource :: resource
  cl_mode :: claim_mode
  cl_reason :: string

fun kind_str :: "res_kind \<Rightarrow> string" where
  "kind_str KPath = ''path''" | "kind_str KTree = ''tree''" | "kind_str KWorkspace = ''workspace''"
| "kind_str KProcess = ''process''" | "kind_str KExternal = ''external''" | "kind_str KWildcard = ''wildcard''"

fun mode_str :: "claim_mode \<Rightarrow> string" where
  "mode_str MRead = ''read''" | "mode_str MWrite = ''write''"

definition resource_label :: "resource \<Rightarrow> string" where
  "resource_label r = kind_str (rc_kind r) @ '':'' @ rc_key r"

definition claim_label :: "claim \<Rightarrow> string" where
  "claim_label c = mode_str (cl_mode c) @ '' '' @ resource_label (cl_resource c)"

definition mk_claim :: "res_kind \<Rightarrow> string \<Rightarrow> claim_mode \<Rightarrow> string \<Rightarrow> claim" where
  "mk_claim k key m why = \<lparr>cl_resource = \<lparr>rc_kind = k, rc_key = key\<rparr>, cl_mode = m, cl_reason = why\<rparr>"

definition rstrip_sep :: "string \<Rightarrow> string" where
  "rstrip_sep p = rev (dropWhile (\<lambda>c. c = CHR ''/'') (rev p))"

definition inside :: "string \<Rightarrow> string \<Rightarrow> bool" where
  "inside child parent \<longleftrightarrow> child = parent \<or> prefix (rstrip_sep parent @ ''/'') child"

definition file_kind :: "res_kind \<Rightarrow> bool" where
  "file_kind k \<longleftrightarrow> k \<in> {KPath, KTree, KWorkspace}"

definition overlaps :: "resource \<Rightarrow> resource \<Rightarrow> bool" where
  "overlaps a b \<longleftrightarrow>
     (if rc_kind a = KWildcard \<or> rc_kind b = KWildcard then True
      else if file_kind (rc_kind a) \<and> file_kind (rc_kind b) then
        (if rc_kind a = KPath \<and> rc_kind b = KPath then rc_key a = rc_key b
         else inside (rc_key a) (rc_key b) \<or> inside (rc_key b) (rc_key a))
      else rc_kind a = rc_kind b \<and> rc_key a = rc_key b)"

definition conflicts :: "claim \<Rightarrow> claim \<Rightarrow> bool" where
  "conflicts a b \<longleftrightarrow> \<not> (cl_mode a = MRead \<and> cl_mode b = MRead) \<and> overlaps (cl_resource a) (cl_resource b)"

fun first_conflict :: "claim list \<Rightarrow> claim list \<Rightarrow> (claim \<times> claim) option" where
  "first_conflict [] others = None"
| "first_conflict (mine # claims) others =
     (case find (conflicts mine) others of Some theirs \<Rightarrow> Some (mine, theirs) | None \<Rightarrow> first_conflict claims others)"

text \<open>A \<open>ClaimSet\<close> is the list of its claims.\<close>

definition cs_try_add :: "claim list \<Rightarrow> claim list \<Rightarrow> bool \<times> claim list" where
  "cs_try_add claims held =
     (if first_conflict claims held \<noteq> None then (False, held) else (True, held @ claims))"

section \<open>Claims of a tool call\<close>

datatype claim_scope = ScopeOff | ScopeFiles | ScopeFilesExternal

datatype tool_effect = ReadPublic | ReadWorkspace | ReadPrivate | WriteWorkspace | OtherEffect string

definition tree_read_tools :: "string list" where
  "tree_read_tools = [''ls'', ''glob'', ''grep'', ''list_dir'', ''search_files'']"

definition process_keys :: "string list" where
  "process_keys = [''process_id'', ''pid'', ''task_id'', ''job_id'']"

definition resolve_path :: "string \<Rightarrow> string option \<Rightarrow> string" where
  "resolve_path path ws =
     (if prefix ''/'' path then path
      else case ws of None \<Rightarrow> path
           | Some w \<Rightarrow> if w = [] then path else if ends_with w ''/'' then w @ path else w @ ''/'' @ path)"

text \<open>
  \<open>caps\<close> is what the capability table says (\<open>None\<close> when it cannot be consulted): whether the tool
  is known and its effects. \<open>paths\<close>, \<open>args\<close> are the paths and the truthy JSON arguments found in
  the call, \<open>isdir\<close> and \<open>canon\<close> the file system, \<open>cwd\<close> the working directory, \<open>server\<close> the MCP
  server named by the tool (when the tool is an MCP tool).
\<close>

definition claims_for_call ::
  "string \<Rightarrow> (bool \<times> tool_effect list) option \<Rightarrow> string list \<Rightarrow> (string, string) dict \<Rightarrow> (string \<Rightarrow> bool)
     \<Rightarrow> (string \<Rightarrow> string) \<Rightarrow> string \<Rightarrow> string option \<Rightarrow> string option \<Rightarrow> claim_scope \<Rightarrow> claim list" where
  "claims_for_call tool caps paths args isdir canon cwd server ws scope =
     (if scope = ScopeOff then []
      else case caps of
        None \<Rightarrow> []
      | Some (known0, effects) \<Rightarrow>
          let known = known0 \<and> effects \<noteq> [];
              is_read = known \<and> list_all (\<lambda>e. e \<in> {ReadPublic, ReadWorkspace, ReadPrivate}) effects;
              is_file_write = known \<and> set effects = {WriteWorkspace};
              root = (case ws of Some w \<Rightarrow> if w = [] then cwd else w | None \<Rightarrow> cwd);
              files =
                (if is_read \<or> is_file_write then
                   let mode = (if is_read then MRead else MWrite)
                   in if paths \<noteq> [] then
                        map (\<lambda>raw. let full = resolve_path raw ws;
                                       tree = mode = MRead \<and> (tool \<in> set tree_read_tools \<or> isdir full)
                                   in mk_claim (if tree then KTree else KPath) (canon full) mode (tool @ '' '' @ raw)) paths
                      else if mode = MWrite
                      then [mk_claim KWorkspace (canon root) MWrite (tool @ '': targets not determinable'')]
                      else if ReadWorkspace \<in> set effects
                      then [mk_claim KWorkspace (canon root) MRead (tool @ '': whole workspace'')]
                      else []
                 else []);
              external =
                (if scope = ScopeFilesExternal then
                   (case server of None \<Rightarrow> []
                    | Some s \<Rightarrow> [mk_claim KExternal (''mcp:'' @ s) (if is_read then MRead else MWrite) tool])
                   @ (case find (\<lambda>k. dget_or args k [] \<noteq> []) process_keys of
                        None \<Rightarrow> []
                      | Some k \<Rightarrow> [mk_claim KProcess (dget_or args k []) MWrite (tool @ '' '' @ k)])
                 else [])
          in files @ external)"

section \<open>The broker\<close>

record holder =
  h_owner :: string
  h_label :: string
  h_claims :: "claim list"
  h_granted_at :: real

record waiter =
  w_id :: nat
  w_owner :: string
  w_label :: string
  w_claims :: "claim list"
  w_enqueued_at :: real

record broker =
  br_held :: "(nat, holder) dict"
  br_waiting :: "waiter list"
  br_next :: nat
  br_granted :: nat
  br_waited :: nat
  br_total_wait :: real
  br_max :: nat
  br_timeouts :: nat

definition empty_broker :: broker where
  "empty_broker = \<lparr>br_held = [], br_waiting = [], br_next = 1, br_granted = 0, br_waited = 0, br_total_wait = 0,
     br_max = 0, br_timeouts = 0\<rparr>"

definition named :: "string \<Rightarrow> string \<Rightarrow> string" where
  "named label owner = (if label = [] then owner else label)"

definition blocker :: "claim list \<Rightarrow> claim list \<Rightarrow> string \<Rightarrow> string list" where
  "blocker claims others who =
     (case first_conflict claims others of None \<Rightarrow> [] | Some (m, t) \<Rightarrow> [who @ claim_label t])"

text \<open>\<open>before\<close> is the waiter at which the scan of the queue stops, if any.\<close>

definition blocked_by :: "claim list \<Rightarrow> nat option \<Rightarrow> broker \<Rightarrow> string list" where
  "blocked_by claims before b =
     concat (map (\<lambda>(i, h). blocker claims (h_claims h) (named (h_label h) (h_owner h) @ '' holds '')) (br_held b))
     @ concat (map (\<lambda>w. blocker claims (w_claims w) (named (w_label w) (w_owner w) @ '' is waiting for ''))
         (takeWhile (\<lambda>w. Some (w_id w) \<noteq> before) (br_waiting b)))"

definition grant :: "real \<Rightarrow> waiter \<Rightarrow> broker \<Rightarrow> broker" where
  "grant now w b =
     (let held = dset (w_id w) \<lparr>h_owner = w_owner w, h_label = w_label w, h_claims = w_claims w, h_granted_at = now\<rparr> (br_held b)
      in b\<lparr>br_waiting := remove1 w (br_waiting b), br_held := held, br_max := max (br_max b) (length held)\<rparr>)"

fun grant_scan :: "real \<Rightarrow> waiter list \<Rightarrow> broker \<Rightarrow> waiter list \<times> broker" where
  "grant_scan now [] b = ([], b)"
| "grant_scan now (w # ws) b =
     (if blocked_by (w_claims w) (Some (w_id w)) b \<noteq> [] then grant_scan now ws b
      else let (ready, b') = grant_scan now ws (grant now w b) in (w # ready, b'))"

definition grant_ready :: "real \<Rightarrow> broker \<Rightarrow> waiter list \<times> broker" where
  "grant_ready now b = grant_scan now (br_waiting b) b"

text \<open>The first locked section of \<open>acquire\<close>: the lease at once, or a place in the queue.\<close>

datatype acquired = Granted nat | Queued nat

definition br_acquire :: "claim list \<Rightarrow> string \<Rightarrow> string \<Rightarrow> real \<Rightarrow> broker \<Rightarrow> acquired \<times> broker" where
  "br_acquire claims owner label now b0 =
     (let i = br_next b0; b = b0\<lparr>br_next := i + 1\<rparr>
      in if claims = [] then (Granted i, b\<lparr>br_granted := br_granted b + 1\<rparr>)
         else if blocked_by claims None b = [] then
           let held = dset i \<lparr>h_owner = owner, h_label = label, h_claims = claims, h_granted_at = now\<rparr> (br_held b)
           in (Granted i, b\<lparr>br_held := held, br_granted := br_granted b + 1, br_max := max (br_max b) (length held)\<rparr>)
         else (Queued i, b\<lparr>br_waiting := br_waiting b @
                 [\<lparr>w_id = i, w_owner = owner, w_label = label, w_claims = claims, w_enqueued_at = now\<rparr>]\<rparr>))"

text \<open>The handler of a wait that timed out or was cancelled: its blockers, who may go on, the broker.\<close>

definition br_abort :: "nat \<Rightarrow> claim list \<Rightarrow> bool \<Rightarrow> real \<Rightarrow> broker \<Rightarrow> string list \<times> waiter list \<times> broker" where
  "br_abort i claims timed_out now b =
     (let b1 = b\<lparr>br_waiting := filter (\<lambda>w. w_id w \<noteq> i) (br_waiting b), br_held := dpop i (br_held b)\<rparr>;
          blockers = blocked_by claims None b1;
          (ready, b2) = grant_ready now b1
      in (blockers, ready, if timed_out then b2\<lparr>br_timeouts := br_timeouts b2 + 1\<rparr> else b2))"

definition br_resume :: "real \<Rightarrow> broker \<Rightarrow> broker" where
  "br_resume waited b =
     b\<lparr>br_granted := br_granted b + 1, br_waited := br_waited b + 1, br_total_wait := br_total_wait b + waited\<rparr>"

definition br_release :: "nat \<Rightarrow> real \<Rightarrow> broker \<Rightarrow> waiter list \<times> broker" where
  "br_release i now b = grant_ready now (b\<lparr>br_held := dpop i (br_held b)\<rparr>)"

text \<open>\<open>snapshot\<close>: what is held, and each waiter with what blocks it.\<close>

definition br_snapshot :: "broker \<Rightarrow> (string \<times> string \<times> string list) list \<times> (string \<times> string \<times> string list \<times> string list) list" where
  "br_snapshot b =
     (map (\<lambda>(i, h). (h_owner h, h_label h, map claim_label (h_claims h))) (br_held b),
      map (\<lambda>w. (w_owner w, w_label w, map claim_label (w_claims w), blocked_by (w_claims w) (Some (w_id w)) b)) (br_waiting b))"

section \<open>Preview and apply\<close>

record file_print =
  fp_known :: bool
  fp_exists :: bool
  fp_size :: "nat option"
  fp_mtime :: "int option"
  fp_sha256 :: "string option"

datatype stat_result = NotThere | StatFails | Stat nat int

datatype digest_result = GoneWhileReading | ReadFails | Digest string

definition unknown_print :: file_print where
  "unknown_print = \<lparr>fp_known = False, fp_exists = False, fp_size = None, fp_mtime = None, fp_sha256 = None\<rparr>"

definition absent_print :: file_print where
  "absent_print = unknown_print\<lparr>fp_known := True\<rparr>"

definition fingerprint :: "bool \<Rightarrow> nat \<Rightarrow> stat_result \<Rightarrow> digest_result \<Rightarrow> file_print" where
  "fingerprint with_hash max_hash_bytes st dg =
     (case st of
        NotThere \<Rightarrow> absent_print
      | StatFails \<Rightarrow> unknown_print
      | Stat sz mt \<Rightarrow>
          (let there = (\<lambda>d. \<lparr>fp_known = True, fp_exists = True, fp_size = Some sz, fp_mtime = Some mt, fp_sha256 = d\<rparr>)
           in if with_hash \<and> sz \<le> max_hash_bytes then
                (case dg of GoneWhileReading \<Rightarrow> absent_print | ReadFails \<Rightarrow> unknown_print | Digest d \<Rightarrow> there (Some d))
              else there None))"

definition drift :: "file_print \<Rightarrow> file_print \<Rightarrow> string list" where
  "drift expected current =
     (if \<not> fp_known expected \<or> \<not> fp_known current then [''unknown'']
      else if fp_exists expected \<noteq> fp_exists current then [''exists'']
      else if \<not> fp_exists expected then []
      else (if fp_size expected \<noteq> fp_size current then [''size''] else [])
         @ (if fp_mtime expected \<noteq> fp_mtime current then [''mtime_ns''] else [])
         @ (case (fp_sha256 expected, fp_sha256 current) of
              (Some a, Some b) \<Rightarrow> if a \<noteq> b then [''sha256''] else [] | _ \<Rightarrow> []))"

text \<open>A \<open>PreviewBinding\<close> is its dictionary of expected prints; \<open>look\<close> takes a file's print now.\<close>

definition pv_capture :: "(string \<Rightarrow> file_print) \<Rightarrow> string list \<Rightarrow> (string, file_print) dict \<Rightarrow> (string, file_print) dict" where
  "pv_capture look paths d = fold (\<lambda>p. dset p (look p)) paths d"

definition pv_unknown :: "(string, file_print) dict \<Rightarrow> string list" where
  "pv_unknown d = map fst (filter (\<lambda>(p, f). \<not> fp_known f) d)"

fun pv_verify :: "(string \<Rightarrow> file_print) \<Rightarrow> (string, file_print) dict \<Rightarrow> (string \<times> file_print \<times> file_print \<times> string list) option" where
  "pv_verify look [] = None"
| "pv_verify look ((p, expected) # d) =
     (if \<not> fp_known expected then pv_verify look d
      else let current = look p; changed = drift expected current
           in if changed \<noteq> [] then Some (p, expected, current, changed) else pv_verify look d)"

section \<open>What may be held together\<close>

lemma first_conflict_None: "first_conflict xs ys = None \<longleftrightarrow> (\<forall>x \<in> set xs. \<forall>y \<in> set ys. \<not> conflicts x y)"
  by (induction xs) (auto split: option.splits simp: find_None_iff find_Some_iff)

lemma overlaps_sym: "overlaps a b = overlaps b a"
  by (auto simp: overlaps_def)

lemma conflicts_sym: "conflicts a b = conflicts b a"
  using overlaps_sym by (auto simp: conflicts_def)

text \<open>
  The broker's reasoning needs only that conflict is symmetric: sets that may be held together.
\<close>

locale conflict_relation =
  fixes conf :: "'c \<Rightarrow> 'c \<Rightarrow> bool" and clash_of :: "'c list \<Rightarrow> 'c list \<Rightarrow> ('c \<times> 'c) option"
  assumes conf_sym: "conf a b = conf b a"
    and clash_None: "clash_of xs ys = None \<longleftrightarrow> (\<forall>x \<in> set xs. \<forall>y \<in> set ys. \<not> conf x y)"
begin

lemma clash_sym: "clash_of xs ys = None \<longleftrightarrow> clash_of ys xs = None"
  using conf_sym by (auto simp: clash_None)

lemma clash_Nil [simp]: "clash_of [] ys = None" "clash_of xs [] = None"
  by (simp_all add: clash_None)

lemma clash_append: "clash_of xs (ys @ zs) = None \<longleftrightarrow> clash_of xs ys = None \<and> clash_of xs zs = None"
  by (auto simp: clash_None)

lemma clash_SomeD: "clash_of xs ys \<noteq> None \<Longrightarrow> \<exists>x \<in> set xs. \<exists>y \<in> set ys. conf x y"
  by (simp add: clash_None)

end

interpretation claim_conflicts: conflict_relation conflicts first_conflict
  by unfold_locales (rule conflicts_sym, rule first_conflict_None)

text \<open>What a file claim covers: the paths it is about.\<close>

definition covered :: "resource \<Rightarrow> string set" where
  "covered r = (if rc_kind r = KPath then {rc_key r} else {p. inside p (rc_key r)})"

lemma rstrip_decomp: "\<exists>n. p = rstrip_sep p @ replicate n CHR ''/''"
proof -
  have "rev p = takeWhile (\<lambda>c. c = CHR ''/'') (rev p) @ dropWhile (\<lambda>c. c = CHR ''/'') (rev p)" by simp
  then have "p = rev (dropWhile (\<lambda>c. c = CHR ''/'') (rev p)) @ rev (takeWhile (\<lambda>c. c = CHR ''/'') (rev p))"
    by (metis rev_append rev_rev_ident)
  moreover have "\<exists>n. rev (takeWhile (\<lambda>c. c = CHR ''/'') xs) = replicate n CHR ''/''" for xs
    by (intro exI [of _ "length (takeWhile (\<lambda>c. c = CHR ''/'') xs)"] replicate_eqI) (auto dest: set_takeWhileD)
  ultimately show ?thesis unfolding rstrip_sep_def by metis
qed

lemma inside_prefix: "inside p a \<Longrightarrow> prefix (rstrip_sep a) p"
  using rstrip_decomp [of a] by (auto simp: inside_def prefix_def)

lemma same_strip_inside:
  assumes "rstrip_sep a = rstrip_sep b"
  shows "inside a b \<or> inside b a"
proof -
  obtain n m where a: "a = rstrip_sep a @ replicate n CHR ''/''" and b: "b = rstrip_sep a @ replicate m CHR ''/''"
    using rstrip_decomp [of a] rstrip_decomp [of b] assms by metis
  have longer: "prefix (s @ ''/'') (s @ replicate k CHR ''/'')" if "k > 0" for k :: nat and s :: string
    using that by (cases k) (simp_all add: prefix_def)
  show ?thesis
  proof (cases "n = 0 \<and> m = 0")
    case True
    then have "a = b" using a b by simp
    then show ?thesis by (simp add: inside_def)
  next
    case False
    then consider "n > 0" | "m > 0" by auto
    then show ?thesis
    proof cases
      case 1
      then have "prefix (rstrip_sep b @ ''/'') a" using longer [OF 1, of "rstrip_sep a"] a assms by simp
      then show ?thesis by (simp add: inside_def)
    next
      case 2
      then have "prefix (rstrip_sep a @ ''/'') b" using longer [OF 2, of "rstrip_sep a"] b by simp
      then show ?thesis by (simp add: inside_def)
    qed
  qed
qed

lemma inside_strip: "prefix (rstrip_sep a @ ''/'') (rstrip_sep b) \<Longrightarrow> inside b a"
  using rstrip_decomp [of b] by (metis inside_def prefix_def append.assoc)

lemma inside_comparable:
  assumes "inside p a" "inside p b"
  shows "inside a b \<or> inside b a"
proof -
  consider "p = a" | "p = b" | "prefix (rstrip_sep a @ ''/'') p" "prefix (rstrip_sep b @ ''/'') p"
    using assms by (auto simp: inside_def)
  then show ?thesis
  proof cases
    case 3
    then consider "prefix (rstrip_sep a @ ''/'') (rstrip_sep b @ ''/'')" | "prefix (rstrip_sep b @ ''/'') (rstrip_sep a @ ''/'')"
      using prefix_same_cases by blast
    then show ?thesis
    proof cases
      case 1
      then show ?thesis using same_strip_inside [of a b] inside_strip [of a b] by (auto simp: prefix_snoc)
    next
      case 2
      then show ?thesis using same_strip_inside [of a b] inside_strip [of b a] by (auto simp: prefix_snoc)
    qed
  qed (use assms in auto)
qed

text \<open>
  No conflict between file claims is missed: if a path is covered by both of two file claims
  and one of them writes, the claims conflict. For two directory claims (tree or workspace) it is
  exact: they overlap only if some path is covered by both.
\<close>
theorem claims_miss_no_overlap:
  assumes "file_kind (rc_kind (cl_resource a))" and "file_kind (rc_kind (cl_resource b))"
  shows "(covered (cl_resource a) \<inter> covered (cl_resource b) \<noteq> {} \<and> \<not> (cl_mode a = MRead \<and> cl_mode b = MRead)
            \<longrightarrow> conflicts a b)
    \<and> (rc_kind (cl_resource a) \<noteq> KPath \<and> rc_kind (cl_resource b) \<noteq> KPath \<and> conflicts a b
            \<longrightarrow> covered (cl_resource a) \<inter> covered (cl_resource b) \<noteq> {})"
proof (intro conjI impI)
  assume "covered (cl_resource a) \<inter> covered (cl_resource b) \<noteq> {} \<and> \<not> (cl_mode a = MRead \<and> cl_mode b = MRead)"
  then obtain p where p: "p \<in> covered (cl_resource a)" "p \<in> covered (cl_resource b)" and m: "\<not> (cl_mode a = MRead \<and> cl_mode b = MRead)"
    by blast
  show "conflicts a b"
  proof (cases "rc_kind (cl_resource a) = KPath \<and> rc_kind (cl_resource b) = KPath")
    case True
    with p m assms show ?thesis by (simp add: conflicts_def overlaps_def covered_def)
  next
    case False
    have "inside p (rc_key (cl_resource a))" "inside p (rc_key (cl_resource b))"
      using p by (auto simp: covered_def inside_def split: if_splits)
    then have "inside (rc_key (cl_resource a)) (rc_key (cl_resource b)) \<or> inside (rc_key (cl_resource b)) (rc_key (cl_resource a))"
      by (rule inside_comparable)
    with False m assms show ?thesis by (auto simp: conflicts_def overlaps_def)
  qed
next
  assume k: "rc_kind (cl_resource a) \<noteq> KPath \<and> rc_kind (cl_resource b) \<noteq> KPath \<and> conflicts a b"
  then have "inside (rc_key (cl_resource a)) (rc_key (cl_resource b)) \<or> inside (rc_key (cl_resource b)) (rc_key (cl_resource a))"
    using assms by (auto simp: conflicts_def overlaps_def file_kind_def split: if_splits)
  moreover have "inside x x" for x by (simp add: inside_def)
  ultimately show "covered (cl_resource a) \<inter> covered (cl_resource b) \<noteq> {}"
    using k by (auto simp: covered_def)
qed

section \<open>The broker's invariant\<close>

lemma blocker_Nil: "blocker claims others who = [] \<longleftrightarrow> first_conflict claims others = None"
  by (auto simp: blocker_def split: option.splits)

lemma blocked_by_Nil:
  "blocked_by claims before b = [] \<longleftrightarrow>
     (\<forall>(i, h) \<in> set (br_held b). first_conflict claims (h_claims h) = None)
   \<and> (\<forall>w \<in> set (takeWhile (\<lambda>w. Some (w_id w) \<noteq> before) (br_waiting b)). first_conflict claims (w_claims w) = None)"
  by (auto simp: blocked_by_def blocker_Nil)

definition stuck :: "waiter list \<Rightarrow> broker \<Rightarrow> bool" where
  "stuck ws b \<longleftrightarrow> (\<forall>w \<in> set ws. blocked_by (w_claims w) (Some (w_id w)) b \<noteq> [])"

definition compatible :: "(nat, holder) dict \<Rightarrow> bool" where
  "compatible held \<longleftrightarrow> (\<forall>i h j k. dget held i = Some h \<longrightarrow> dget held j = Some k \<longrightarrow> i \<noteq> j \<longrightarrow>
     first_conflict (h_claims h) (h_claims k) = None)"

definition broker_ok :: "broker \<Rightarrow> bool" where
  "broker_ok b \<longleftrightarrow> dwf (br_held b) \<and> distinct (map w_id (br_waiting b))
     \<and> (\<forall>w \<in> set (br_waiting b). w_id w \<notin> set (dkeys (br_held b)) \<and> w_id w < br_next b)
     \<and> (\<forall>i \<in> set (dkeys (br_held b)). i < br_next b)
     \<and> compatible (br_held b)"

lemma dget_not_key: "k \<notin> set (dkeys d) \<Longrightarrow> dget d k = None"
  by (induction d) auto

lemma dset_new: "k \<notin> set (dkeys d) \<Longrightarrow> dset k v d = d @ [(k, v)]"
  by (induction d) auto

lemma dget_append: "dget (d @ e) k = (case dget d k of None \<Rightarrow> dget e k | Some v \<Rightarrow> Some v)"
  by (induction d) auto

lemma length_dpop: "dwf d \<Longrightarrow> dget d k = Some v \<Longrightarrow> Suc (length (dpop k d)) = length d"
proof (induction d)
  case (Cons x d)
  obtain k' v' where x: "x = (k', v')" by (cases x)
  have "filter (\<lambda>p. fst p \<noteq> k) d = d" if "k \<notin> fst ` set d" using that by (auto simp: filter_id_conv)
  with Cons x show ?case by (cases "k = k'") (auto simp: dpop_def)
qed simp

lemma compatible_dset:
  assumes "compatible held" "dwf held"
    and "\<forall>(i, h) \<in> set held. first_conflict (h_claims new) (h_claims h) = None"
  shows "compatible (dset i new held)"
  unfolding compatible_def
proof (intro allI impI)
  fix j h k h'
  assume a: "dget (dset i new held) j = Some h" "dget (dset i new held) k = Some h'" "j \<noteq> k"
  have new: "first_conflict (h_claims new) (h_claims x) = None" if "dget held m = Some x" for m x
    using assms(3) dget_SomeD [OF that] by auto
  consider "j = i" "dget held k = Some h'" "h = new" | "k = i" "dget held j = Some h" "h' = new"
    | "dget held j = Some h" "dget held k = Some h'"
    using a by (cases "j = i"; cases "k = i"; simp)
  then show "first_conflict (h_claims h) (h_claims h') = None"
  proof cases
    case 3
    with assms(1) a(3) show ?thesis unfolding compatible_def by blast
  next
    case 1
    with new show ?thesis by simp
  next
    case 2
    with new [of j h] show ?thesis using claim_conflicts.clash_sym by simp
  qed
qed

lemma grant_ok:
  assumes "broker_ok b" "br_waiting b = xs @ w # ys" "blocked_by (w_claims w) (Some (w_id w)) b = []"
  shows "broker_ok (grant now w b)" and "br_waiting (grant now w b) = xs @ ys"
    and "length (br_held (grant now w b)) = Suc (length (br_held b))"
proof -
  have d: "w_id w \<notin> set (dkeys (br_held b))" "w \<notin> set xs" "w_id w \<notin> w_id ` set (xs @ ys)" "w_id w < br_next b"
    using assms(1,2) unfolding broker_ok_def by (auto simp: image_iff)
  have others: "\<forall>v \<in> set (xs @ ys). w_id v \<noteq> w_id w" using d(3) by (metis image_eqI)
  have nw: "\<forall>(i, h) \<in> set (br_held b). first_conflict (w_claims w) (h_claims h) = None"
    using assms(3) by (simp add: blocked_by_Nil)
  show wait: "br_waiting (grant now w b) = xs @ ys"
    using d(2) assms(2) by (simp add: grant_def Let_def remove1_append)
  have c: "compatible (dset (w_id w) \<lparr>h_owner = w_owner w, h_label = w_label w, h_claims = w_claims w, h_granted_at = now\<rparr> (br_held b))"
    using assms(1) nw by (intro compatible_dset) (auto simp: broker_ok_def)
  show "broker_ok (grant now w b)"
    using assms(1,2) d(1,4) c others unfolding broker_ok_def wait
    by (auto simp: grant_def Let_def dset_new dest: others [rule_format])
  show "length (br_held (grant now w b)) = Suc (length (br_held b))"
    using d(1) by (simp add: grant_def Let_def dset_new)
qed

lemma grant_keeps_stuck:
  assumes "broker_ok b" "br_waiting b = xs @ w # ys" "stuck xs b"
  shows "stuck xs (grant now w b)"
  unfolding stuck_def
proof
  fix v assume v: "v \<in> set xs"
  have wn: "w_id w \<notin> set (dkeys (br_held b))" "w \<notin> set xs" using assms(1,2) by (auto simp: broker_ok_def)
  have pre: "takeWhile (\<lambda>u. Some (w_id u) \<noteq> Some (w_id v)) (xs @ zs) = takeWhile (\<lambda>u. Some (w_id u) \<noteq> Some (w_id v)) xs" for zs
    using v by (intro takeWhile_append1) auto
  have sub: "set (br_held b) \<subseteq> set (br_held (grant now w b))"
    using wn(1) by (auto simp: grant_def Let_def dset_new)
  have wait: "br_waiting (grant now w b) = xs @ ys"
    using wn(2) assms(2) by (simp add: grant_def Let_def remove1_append)
  have "blocked_by (w_claims v) (Some (w_id v)) (grant now w b) = [] \<Longrightarrow> blocked_by (w_claims v) (Some (w_id v)) b = []"
    using sub unfolding blocked_by_Nil wait assms(2) pre by blast
  moreover have "blocked_by (w_claims v) (Some (w_id v)) b \<noteq> []" using assms(3) v by (simp add: stuck_def)
  ultimately show "blocked_by (w_claims v) (Some (w_id v)) (grant now w b) \<noteq> []" by blast
qed

text \<open>What a scan of the queue leaves: \<open>granted b ready b'\<close> says who was moved from the queue.\<close>

definition granted :: "broker \<Rightarrow> waiter list \<Rightarrow> broker \<Rightarrow> bool" where
  "granted b ready b' \<longleftrightarrow> br_next b' = br_next b
     \<and> (\<forall>i h. dget (br_held b) i = Some h \<longrightarrow> dget (br_held b') i = Some h)
     \<and> (\<forall>w \<in> set ready. \<exists>h. dget (br_held b') (w_id w) = Some h \<and> h_claims h = w_claims w)
     \<and> (\<forall>i h. dget (br_held b') i = Some h \<longrightarrow> dget (br_held b) i = Some h \<or> i \<in> w_id ` set ready)
     \<and> set (br_waiting b) = set (br_waiting b') \<union> set ready
     \<and> length (br_held b') + length (br_waiting b') = length (br_held b) + length (br_waiting b)"

lemma granted_refl: "granted b [] b"
  by (simp add: granted_def)

lemma granted_step:
  assumes "broker_ok b" "br_waiting b = xs @ w # ys" "blocked_by (w_claims w) (Some (w_id w)) b = []"
    and "granted (grant now w b) ready b'"
  shows "granted b (w # ready) b'"
proof -
  note g = grant_ok(2,3) [OF assms(1-3), of now]
  have "w_id w \<notin> set (dkeys (br_held b))" using assms(1,2) by (auto simp: broker_ok_def)
  then have held: "dget (br_held (grant now w b)) i = (if i = w_id w then
      Some \<lparr>h_owner = w_owner w, h_label = w_label w, h_claims = w_claims w, h_granted_at = now\<rparr> else dget (br_held b) i)"
    and old: "dget (br_held b) (w_id w) = None" for i
    by (auto simp: grant_def Let_def dget_not_key)
  have n: "br_next (grant now w b) = br_next b" by (simp add: grant_def Let_def)
  have a: "dget (br_held b') i = Some h" if "dget (br_held b) i = Some h" for i h
    using assms(4) held [of i] that old unfolding granted_def by (metis option.distinct(1))
  have c: "\<exists>h. dget (br_held b') (w_id w) = Some h \<and> h_claims h = w_claims w"
    using assms(4) held [of "w_id w"] unfolding granted_def by (metis holder.select_convs(3))
  have d: "dget (br_held b) i = Some h \<or> i \<in> w_id ` set (w # ready)" if "dget (br_held b') i = Some h" for i h
    using assms(4) held [of i] that unfolding granted_def by (metis image_insert insert_iff list.simps(15))
  show ?thesis
    using assms(2,4) g n a c d unfolding granted_def by auto
qed

lemma grant_scan_facts:
  assumes "broker_ok b" "br_waiting b = xs @ ws" "stuck xs b" "grant_scan now ws b = (ready, b')"
  shows "broker_ok b' \<and> stuck (br_waiting b') b' \<and> granted b ready b'"
  using assms
proof (induction ws arbitrary: xs b ready)
  case Nil
  then show ?case by (simp add: granted_refl)
next
  case (Cons w ws)
  show ?case
  proof (cases "blocked_by (w_claims w) (Some (w_id w)) b = []")
    case False
    with Cons.prems have "grant_scan now ws b = (ready, b')" "stuck (xs @ [w]) b" "br_waiting b = (xs @ [w]) @ ws"
      by (auto simp: stuck_def)
    then show ?thesis using Cons.IH Cons.prems(1) by blast
  next
    case True
    obtain r where r: "grant_scan now ws (grant now w b) = (r, b')" "ready = w # r"
      using Cons.prems(4) True by (auto split: prod.splits)
    note g = grant_ok [OF Cons.prems(1,2) True, of now]
    from Cons.IH [OF g(1,2) grant_keeps_stuck [OF Cons.prems(1,2,3)] r(1)]
    show ?thesis using granted_step [OF Cons.prems(1,2) True] r(2) by blast
  qed
qed

lemma grant_ready_facts:
  assumes "broker_ok b" "grant_ready now b = (ready, b')"
  shows "broker_ok b'" "stuck (br_waiting b') b'" "granted b ready b'"
  using grant_scan_facts [of b "[]" "br_waiting b" now ready b'] assms by (auto simp: grant_ready_def stuck_def)

lemma broker_ok_smaller:
  assumes "broker_ok b"
  shows "broker_ok (b\<lparr>br_waiting := filter P (br_waiting b), br_held := dpop i (br_held b)\<rparr>)"
proof -
  have "compatible (dpop i (br_held b))"
    using assms unfolding broker_ok_def compatible_def by (auto simp: dget_dpop split: if_splits)
  then show ?thesis
    using assms unfolding broker_ok_def by (auto simp: dpop_def distinct_map_filter)
qed

lemma broker_ok_release: "broker_ok b \<Longrightarrow> broker_ok (b\<lparr>br_held := dpop i (br_held b)\<rparr>)"
  using broker_ok_smaller [where P = "\<lambda>w. True"] by simp

lemma acquire_facts:
  assumes "broker_ok b" "stuck (br_waiting b) b" "br_acquire claims owner label now b = (res, b')"
  shows "broker_ok b' \<and> stuck (br_waiting b') b' \<and> br_next b' = Suc (br_next b)
    \<and> (case res of
         Granted i \<Rightarrow> i = br_next b \<and> br_waiting b' = br_waiting b
           \<and> (if claims = [] then br_held b' = br_held b
              else \<exists>h. br_held b' = br_held b @ [(i, h)] \<and> h_claims h = claims)
       | Queued i \<Rightarrow> i = br_next b \<and> claims \<noteq> [] \<and> br_held b' = br_held b
           \<and> (\<exists>w. br_waiting b' = br_waiting b @ [w] \<and> w_id w = i \<and> w_claims w = claims))"
proof -
  let ?i = "br_next b"
  have new: "?i \<notin> set (dkeys (br_held b))" "\<forall>w \<in> set (br_waiting b). w_id w \<noteq> ?i"
    using assms(1) unfolding broker_ok_def by auto
  have nb: "blocked_by cs bf (b\<lparr>br_next := n\<rparr>) = blocked_by cs bf b" for cs bf n
    by (simp add: blocked_by_def)
  consider (empty) "claims = []" | (free) "claims \<noteq> []" "blocked_by claims None b = []"
    | (busy) "claims \<noteq> []" "blocked_by claims None b \<noteq> []" by blast
  then show ?thesis
  proof cases
    case empty
    then have b': "br_held b' = br_held b" "br_waiting b' = br_waiting b" "br_next b' = Suc ?i" "res = Granted ?i"
      using assms(3) by (auto simp: br_acquire_def Let_def)
    have "broker_ok b'" using assms(1) b' unfolding broker_ok_def by (auto simp: less_Suc_eq)
    moreover have "stuck (br_waiting b') b'" using assms(2) b' by (simp add: stuck_def blocked_by_def)
    ultimately show ?thesis using b' empty by simp
  next
    case free
    let ?h = "\<lparr>h_owner = owner, h_label = label, h_claims = claims, h_granted_at = now\<rparr>"
    have b': "br_held b' = br_held b @ [(?i, ?h)]" "br_waiting b' = br_waiting b" "br_next b' = Suc ?i" "res = Granted ?i"
      using assms(3) free new(1) by (auto simp: br_acquire_def Let_def nb dset_new)
    have "compatible (dset ?i ?h (br_held b))"
      using assms(1) free(2) by (intro compatible_dset) (auto simp: broker_ok_def blocked_by_Nil)
    then have ok: "broker_ok b'"
      using assms(1) new b' unfolding broker_ok_def by (auto simp: dset_new less_Suc_eq)
    have "blocked_by c bf b' = [] \<Longrightarrow> blocked_by c bf b = []" for c bf
      unfolding blocked_by_Nil b' by auto
    then have "stuck (br_waiting b') b'" using assms(2) b'(2) unfolding stuck_def by auto
    with ok b' free(1) show ?thesis by auto
  next
    case busy
    let ?w = "\<lparr>w_id = ?i, w_owner = owner, w_label = label, w_claims = claims, w_enqueued_at = now\<rparr>"
    have b': "br_held b' = br_held b" "br_waiting b' = br_waiting b @ [?w]" "br_next b' = Suc ?i" "res = Queued ?i"
      using assms(3) busy by (auto simp: br_acquire_def Let_def nb)
    have ok: "broker_ok b'" using assms(1) new b' unfolding broker_ok_def by (auto simp: less_Suc_eq)
    have "takeWhile (\<lambda>v. Some (w_id v) \<noteq> None) (br_waiting b) = br_waiting b"
      by (simp add: takeWhile_eq_all_conv del: option.distinct)
    moreover have "takeWhile (\<lambda>v. Some (w_id v) \<noteq> Some ?i) (br_waiting b @ [?w]) = br_waiting b"
      using new(2) by (subst takeWhile_append2) auto
    ultimately have "blocked_by claims (Some ?i) b' \<noteq> []"
      using busy(2) unfolding blocked_by_Nil b' by metis
    moreover have "blocked_by (w_claims v) (Some (w_id v)) b' \<noteq> []" if "v \<in> set (br_waiting b)" for v
    proof -
      have "takeWhile (\<lambda>u. Some (w_id u) \<noteq> Some (w_id v)) (br_waiting b @ [?w]) = takeWhile (\<lambda>u. Some (w_id u) \<noteq> Some (w_id v)) (br_waiting b)"
        using that by (intro takeWhile_append1) auto
      moreover have "blocked_by (w_claims v) (Some (w_id v)) b \<noteq> []" using assms(2) that by (simp add: stuck_def)
      ultimately show ?thesis unfolding blocked_by_Nil b' by auto
    qed
    ultimately have "stuck (br_waiting b') b'" unfolding stuck_def b' by auto
    with ok b' busy(1) show ?thesis by auto
  qed
qed

section \<open>Callers and the broker together\<close>

text \<open>
  \<open>cw_live\<close> are the leases callers hold, \<open>cw_pending\<close> the calls of \<open>acquire\<close> that wait for their
  future, \<open>cw_woken\<close> the leases whose future is done. A wait may be aborted (time-out or
  cancellation) at any moment before it is resumed, also after its claims were granted.
\<close>

record claim_world =
  cw_broker :: broker
  cw_live :: "(nat, claim list) dict"
  cw_pending :: "(nat, claim list) dict"
  cw_woken :: "nat list"

definition claim_start :: claim_world where
  "claim_start = \<lparr>cw_broker = empty_broker, cw_live = [], cw_pending = [], cw_woken = []\<rparr>"

inductive claim_step :: "claim_world \<Rightarrow> claim_world \<Rightarrow> bool" where
  acquire_now: "br_acquire cs owner label now b = (Granted i, b') \<Longrightarrow>
    claim_step \<lparr>cw_broker = b, cw_live = l, cw_pending = p, cw_woken = k\<rparr>
      \<lparr>cw_broker = b', cw_live = (i, cs) # l, cw_pending = p, cw_woken = k\<rparr>"
| acquire_wait: "br_acquire cs owner label now b = (Queued i, b') \<Longrightarrow>
    claim_step \<lparr>cw_broker = b, cw_live = l, cw_pending = p, cw_woken = k\<rparr>
      \<lparr>cw_broker = b', cw_live = l, cw_pending = (i, cs) # p, cw_woken = k\<rparr>"
| resume: "dget p i = Some cs \<Longrightarrow> i \<in> set k \<Longrightarrow>
    claim_step \<lparr>cw_broker = b, cw_live = l, cw_pending = p, cw_woken = k\<rparr>
      \<lparr>cw_broker = br_resume waited b, cw_live = (i, cs) # l, cw_pending = dpop i p, cw_woken = k\<rparr>"
| abort: "dget p i = Some cs \<Longrightarrow> br_abort i cs timed_out now b = (blockers, ready, b') \<Longrightarrow>
    claim_step \<lparr>cw_broker = b, cw_live = l, cw_pending = p, cw_woken = k\<rparr>
      \<lparr>cw_broker = b', cw_live = l, cw_pending = dpop i p, cw_woken = map w_id ready @ k\<rparr>"
| release: "dget l i = Some cs \<Longrightarrow> br_release i now b = (ready, b') \<Longrightarrow>
    claim_step \<lparr>cw_broker = b, cw_live = l, cw_pending = p, cw_woken = k\<rparr>
      \<lparr>cw_broker = b', cw_live = dpop i l, cw_pending = p, cw_woken = map w_id ready @ k\<rparr>"

inductive_cases claim_stepE: "claim_step w w'"

inductive claim_reach :: "claim_world \<Rightarrow> bool" where
  start: "claim_reach claim_start"
| step: "claim_reach w \<Longrightarrow> claim_step w w' \<Longrightarrow> claim_reach w'"

text \<open>Whom a lease id belongs to.\<close>

definition backed :: "broker \<Rightarrow> nat \<Rightarrow> claim list \<Rightarrow> bool" where
  "backed b i cs \<longleftrightarrow> (\<exists>h. dget (br_held b) i = Some h \<and> h_claims h = cs)"

definition in_queue :: "broker \<Rightarrow> nat \<Rightarrow> claim list \<Rightarrow> bool" where
  "in_queue b i cs \<longleftrightarrow> (\<exists>w \<in> set (br_waiting b). w_id w = i \<and> w_claims w = cs)"

definition world_pre :: "broker \<Rightarrow> (nat, claim list) dict \<Rightarrow> (nat, claim list) dict \<Rightarrow> nat list \<Rightarrow> bool" where
  "world_pre b l p k \<longleftrightarrow> broker_ok b
     \<and> (\<forall>i cs. dget l i = Some cs \<longrightarrow> (cs = [] \<or> backed b i cs) \<and> i < br_next b \<and> dget p i = None)
     \<and> (\<forall>i cs. dget p i = Some cs \<longrightarrow> cs \<noteq> [] \<and> i < br_next b
           \<and> (if i \<in> set k then backed b i cs else in_queue b i cs))
     \<and> (\<forall>w \<in> set (br_waiting b). dget p (w_id w) = Some (w_claims w) \<and> w_id w \<notin> set k)
     \<and> (\<forall>i h. dget (br_held b) i = Some h \<longrightarrow> dget l i \<noteq> None \<or> dget p i \<noteq> None)
     \<and> (\<forall>i \<in> set k. i < br_next b)"

definition world_ok :: "broker \<Rightarrow> (nat, claim list) dict \<Rightarrow> (nat, claim list) dict \<Rightarrow> nat list \<Rightarrow> bool" where
  "world_ok b l p k \<longleftrightarrow> stuck (br_waiting b) b \<and> world_pre b l p k"

lemma world_ok_start: "world_ok empty_broker [] [] []"
  by (simp add: world_ok_def world_pre_def empty_broker_def broker_ok_def compatible_def stuck_def)

lemma world_preD:
  assumes "world_pre b l p k"
  shows "broker_ok b"
    and "\<And>i cs. dget l i = Some cs \<Longrightarrow> (cs = [] \<or> backed b i cs) \<and> i < br_next b \<and> dget p i = None"
    and "\<And>i cs. dget p i = Some cs \<Longrightarrow> cs \<noteq> [] \<and> i < br_next b \<and> (if i \<in> set k then backed b i cs else in_queue b i cs)"
    and "\<And>w. w \<in> set (br_waiting b) \<Longrightarrow> dget p (w_id w) = Some (w_claims w) \<and> w_id w \<notin> set k"
    and "\<And>i h. dget (br_held b) i = Some h \<Longrightarrow> dget l i \<noteq> None \<or> dget p i \<noteq> None"
    and "\<And>i. i \<in> set k \<Longrightarrow> i < br_next b"
  using assms unfolding world_pre_def by blast+

lemma world_ok_cong:
  assumes "br_held b' = br_held b" "br_waiting b' = br_waiting b" "br_next b' = br_next b"
  shows "world_ok b' l p k = world_ok b l p k"
proof -
  have bb: "blocked_by c x b' = blocked_by c x b" for c x using assms(1,2) by (simp add: blocked_by_def)
  have bk: "backed b' i cs = backed b i cs" for i cs using assms(1) by (simp add: backed_def)
  have q: "in_queue b' i cs = in_queue b i cs" for i cs using assms(2) by (simp add: in_queue_def)
  show ?thesis unfolding world_ok_def world_pre_def broker_ok_def stuck_def assms bb bk q by (rule refl)
qed

lemma world_after_grant:
  assumes pre: "world_pre b l p k" and g: "grant_ready now b = (ready, b')"
  shows "world_ok b' l p (map w_id ready @ k)"
proof -
  note f = grant_ready_facts [OF world_preD(1) [OF pre] g]
  note D = world_preD [OF pre]
  have nxt: "br_next b' = br_next b"
    and keep: "\<And>i h. dget (br_held b) i = Some h \<Longrightarrow> dget (br_held b') i = Some h"
    and got: "\<And>w. w \<in> set ready \<Longrightarrow> backed b' (w_id w) (w_claims w)"
    and hback: "\<And>i h. dget (br_held b') i = Some h \<Longrightarrow> dget (br_held b) i = Some h \<or> i \<in> w_id ` set ready"
    and queue: "set (br_waiting b) = set (br_waiting b') \<union> set ready"
    using f(3) unfolding granted_def backed_def by blast+
  have bk: "backed b i cs \<Longrightarrow> backed b' i cs" for i cs using keep unfolding backed_def by blast
  have live: "(cs = [] \<or> backed b' i cs) \<and> i < br_next b' \<and> dget p i = None" if "dget l i = Some cs" for i cs
    using D(2) [OF that] bk nxt by auto
  have pend: "cs \<noteq> [] \<and> i < br_next b' \<and> (if i \<in> set (map w_id ready @ k) then backed b' i cs else in_queue b' i cs)"
    if i: "dget p i = Some cs" for i cs
  proof -
    have c: "cs \<noteq> []" "i < br_next b'" using D(3) [OF i] nxt by auto
    have r: "backed b' i cs" if mem: "i \<in> w_id ` set ready"
    proof -
      obtain w where w: "w \<in> set ready" "i = w_id w" using mem by blast
      then have "dget p i = Some (w_claims w)" using D(4) queue by blast
      with got [OF w(1)] w(2) i show ?thesis by simp
    qed
    have q: "in_queue b' i cs" if "i \<notin> w_id ` set ready" "in_queue b i cs"
      using that queue unfolding in_queue_def by blast
    show ?thesis using c r q D(3) [OF i] bk by (auto split: if_splits)
  qed
  have nr: "w_id w \<notin> w_id ` set ready" if "w \<in> set (br_waiting b')" for w
  proof
    assume "w_id w \<in> w_id ` set ready"
    then have "backed b' (w_id w) (w_claims w)"
      using that got queue D(4) by (metis (no_types, lifting) Un_iff image_iff option.inject)
    moreover have "w_id w \<notin> set (dkeys (br_held b'))" using f(1) that unfolding broker_ok_def by blast
    ultimately show False unfolding backed_def using dget_not_key by fastforce
  qed
  have wait: "dget p (w_id w) = Some (w_claims w) \<and> w_id w \<notin> set (map w_id ready @ k)" if "w \<in> set (br_waiting b')" for w
    using D(4) [of w] nr [OF that] that queue by auto
  have held: "dget l i \<noteq> None \<or> dget p i \<noteq> None" if "dget (br_held b') i = Some h" for i h
    using hback [OF that] D(4,5) queue by blast
  have woke: "i < br_next b'" if "i \<in> set (map w_id ready @ k)" for i
    using that D(3,4,6) queue nxt by fastforce
  show ?thesis unfolding world_ok_def world_pre_def using f(1,2) live pend wait held woke by blast
qed

lemma world_release:
  assumes ok: "world_ok b l p k" and r: "br_release i now b = (ready, b')"
    and that: "dget l i \<noteq> None"
  shows "world_ok b' (dpop i l) p (map w_id ready @ k)"
proof -
  have pre: "world_pre b l p k" using ok by (simp add: world_ok_def)
  note D = world_preD [OF pre]
  let ?b1 = "b\<lparr>br_held := dpop i (br_held b)\<rparr>"
  have pi: "dget p i = None" using D(2) that by auto
  have bk: "backed ?b1 j cs" if "backed b j cs" "j \<noteq> i" for j cs
    using that by (auto simp: backed_def dget_dpop)
  have "world_pre ?b1 (dpop i l) p k"
    unfolding world_pre_def
  proof (intro conjI allI impI ballI)
    show "broker_ok ?b1" using D(1) by (rule broker_ok_release)
    show "cs = [] \<or> backed ?b1 j cs" "j < br_next ?b1" "dget p j = None" if "dget (dpop i l) j = Some cs" for j cs
      using that D(2) [of j cs] bk by (auto simp: dget_dpop split: if_splits)
    show "cs \<noteq> []" "j < br_next ?b1" "if j \<in> set k then backed ?b1 j cs else in_queue ?b1 j cs"
      if "dget p j = Some cs" for j cs
      using D(3) [OF that] bk [of j cs] pi that by (cases "j = i"; auto simp: in_queue_def split: if_splits)+
    show "dget p (w_id w) = Some (w_claims w)" "w_id w \<notin> set k" if "w \<in> set (br_waiting ?b1)" for w
      using that D(4) by auto
    show "dget (dpop i l) j \<noteq> None \<or> dget p j \<noteq> None" if "dget (br_held ?b1) j = Some h" for j h
      using that D(5) [of j h] by (auto simp: dget_dpop split: if_splits)
    show "j < br_next ?b1" if "j \<in> set k" for j using that D(6) by simp
  qed
  moreover have "grant_ready now ?b1 = (ready, b')" using r by (simp add: br_release_def)
  ultimately show ?thesis by (rule world_after_grant)
qed

lemma world_abort:
  assumes ok: "world_ok b l p k" and r: "br_abort i cs timed_out now b = (blockers, ready, b')"
    and that: "dget p i = Some cs"
  shows "world_ok b' l (dpop i p) (map w_id ready @ k)"
proof -
  have pre: "world_pre b l p k" using ok by (simp add: world_ok_def)
  note D = world_preD [OF pre]
  let ?b1 = "b\<lparr>br_waiting := filter (\<lambda>w. w_id w \<noteq> i) (br_waiting b), br_held := dpop i (br_held b)\<rparr>"
  have li: "dget l i = None" using D(2) that by (cases "dget l i") auto
  have bk: "backed ?b1 j cs" if "backed b j cs" "j \<noteq> i" for j cs
    using that by (auto simp: backed_def dget_dpop)
  have iq: "in_queue ?b1 j cs" if "in_queue b j cs" "j \<noteq> i" for j cs
    using that by (auto simp: in_queue_def)
  have "world_pre ?b1 l (dpop i p) k"
    unfolding world_pre_def
  proof (intro conjI allI impI ballI)
    show "broker_ok ?b1" using D(1) by (rule broker_ok_smaller)
    show "cs = [] \<or> backed ?b1 j cs" "j < br_next ?b1" "dget (dpop i p) j = None" if "dget l j = Some cs" for j cs
      using that D(2) [of j cs] bk [of j cs] li by (cases "j = i"; auto simp: dget_dpop)+
    show "cs \<noteq> []" "j < br_next ?b1" "if j \<in> set k then backed ?b1 j cs else in_queue ?b1 j cs"
      if "dget (dpop i p) j = Some cs" for j cs
      using that D(3) [of j cs] bk [of j cs] iq [of j cs] by (cases "j = i"; auto simp: dget_dpop split: if_splits)+
    show "dget (dpop i p) (w_id w) = Some (w_claims w)" "w_id w \<notin> set k" if "w \<in> set (br_waiting ?b1)" for w
      using that D(4) [of w] by (auto simp: dget_dpop)
    show "dget l j \<noteq> None \<or> dget (dpop i p) j \<noteq> None" if "dget (br_held ?b1) j = Some h" for j h
      using that D(5) [of j h] by (cases "j = i"; auto simp: dget_dpop)
    show "j < br_next ?b1" if "j \<in> set k" for j using that D(6) by simp
  qed
  moreover obtain b2 where g: "grant_ready now ?b1 = (ready, b2)"
    and b': "b' = (if timed_out then b2\<lparr>br_timeouts := br_timeouts b2 + 1\<rparr> else b2)"
    using r by (auto simp: br_abort_def Let_def split: prod.splits)
  ultimately have "world_ok b2 l (dpop i p) (map w_id ready @ k)" by (blast intro: world_after_grant)
  then show ?thesis
    by (subst world_ok_cong [of _ b2]) (simp_all add: b')
qed

lemma world_resume:
  assumes "world_ok b l p k" "dget p i = Some cs" "i \<in> set k"
  shows "world_ok (br_resume waited b) ((i, cs) # l) (dpop i p) k"
proof -
  have pre: "world_pre b l p k" using assms(1) by (simp add: world_ok_def)
  note D = world_preD [OF pre]
  have i: "cs \<noteq> []" "i < br_next b" "backed b i cs" using D(3) [OF assms(2)] assms(3) by auto
  have "world_pre b ((i, cs) # l) (dpop i p) k"
    unfolding world_pre_def
  proof (intro conjI allI impI ballI)
    show "broker_ok b" using D(1) .
    show "ds = [] \<or> backed b j ds" "j < br_next b" "dget (dpop i p) j = None" if "dget ((i, cs) # l) j = Some ds" for j ds
      using that i D(2) [of j ds] by (cases "j = i"; auto simp: dget_dpop)+
    show "ds \<noteq> []" "j < br_next b" "if j \<in> set k then backed b j ds else in_queue b j ds"
      if "dget (dpop i p) j = Some ds" for j ds
      using that D(3) [of j ds] by (cases "j = i"; auto simp: dget_dpop split: if_splits)+
    show "dget (dpop i p) (w_id w) = Some (w_claims w)" "w_id w \<notin> set k" if "w \<in> set (br_waiting b)" for w
      using that D(4) [of w] assms(3) by (auto simp: dget_dpop)
    show "dget ((i, cs) # l) j \<noteq> None \<or> dget (dpop i p) j \<noteq> None" if "dget (br_held b) j = Some h" for j h
      using that D(5) [of j h] by (cases "j = i"; auto simp: dget_dpop)
    show "j < br_next b" if "j \<in> set k" for j using that D(6) by simp
  qed
  then have "world_ok b ((i, cs) # l) (dpop i p) k" using assms(1) by (simp add: world_ok_def)
  then show ?thesis by (subst world_ok_cong [of _ b]) (simp_all add: br_resume_def)
qed

lemma world_acquire:
  assumes ok: "world_ok b l p k" and a: "br_acquire cs owner label now b = (res, b')"
  shows "case res of Granted i \<Rightarrow> world_ok b' ((i, cs) # l) p k | Queued i \<Rightarrow> world_ok b' l ((i, cs) # p) k"
proof -
  have pre: "world_pre b l p k" and st: "stuck (br_waiting b) b" using ok by (simp_all add: world_ok_def)
  note D = world_preD [OF pre]
  note F = acquire_facts [OF D(1) st a]
  have fresh: "dget p (br_next b) = None" "br_next b \<notin> set k"
    using D(3) [of "br_next b"] D(6) by (cases "dget p (br_next b)"; fastforce)+
  show ?thesis
  proof (cases res)
    case (Granted i)
    have b': "broker_ok b'" "stuck (br_waiting b') b'" "br_next b' = Suc (br_next b)" "i = br_next b" "br_waiting b' = br_waiting b"
      using F Granted by auto
    have held: "dget (br_held b') j = (if j = i \<and> cs \<noteq> [] then dget (br_held b') i else dget (br_held b) j)"
      and mine: "cs = [] \<or> backed b' i cs" for j
      using F Granted D(1) dget_not_key [of "br_next b" "br_held b"]
      by (auto simp: broker_ok_def backed_def dget_append split: if_splits option.splits)
    have bk: "backed b' j ds" if "backed b j ds" for j ds
      using that held [of j] D(1) dget_SomeD [of "br_held b" j] b'(4) unfolding backed_def broker_ok_def by fastforce
    have "world_pre b' ((i, cs) # l) p k"
      unfolding world_pre_def
    proof (intro conjI allI impI ballI)
      show "broker_ok b'" by (rule b')
      show "ds = [] \<or> backed b' j ds" "j < br_next b'" "dget p j = None" if "dget ((i, cs) # l) j = Some ds" for j ds
        using that b' mine D(2) [of j ds] bk fresh by (cases "j = i"; auto)+
      show "ds \<noteq> []" "j < br_next b'" "if j \<in> set k then backed b' j ds else in_queue b' j ds" if "dget p j = Some ds" for j ds
        using that D(3) [of j ds] bk b'(3,5) by (auto simp: in_queue_def split: if_splits)
      show "dget p (w_id w) = Some (w_claims w)" "w_id w \<notin> set k" if "w \<in> set (br_waiting b')" for w
        using that D(4) [of w] b'(5) by auto
      show "dget ((i, cs) # l) j \<noteq> None \<or> dget p j \<noteq> None" if "dget (br_held b') j = Some h" for j h
        using that held [of j] D(5) [of j h] by (cases "j = i") auto
      show "j < br_next b'" if "j \<in> set k" for j using D(6) [OF that] b'(3) by simp
    qed
    with b'(2) Granted show ?thesis by (simp add: world_ok_def)
  next
    case (Queued i)
    obtain w where b': "broker_ok b'" "stuck (br_waiting b') b'" "br_next b' = Suc (br_next b)" "i = br_next b" "cs \<noteq> []"
      "br_held b' = br_held b" "br_waiting b' = br_waiting b @ [w]" "w_id w = i" "w_claims w = cs"
      using F Queued by auto
    have li: "dget l i = None" using D(2) [of i] b'(4) by (cases "dget l i") auto
    have "world_pre b' l ((i, cs) # p) k"
      unfolding world_pre_def
    proof (intro conjI allI impI ballI)
      show "broker_ok b'" by (rule b')
      show "ds = [] \<or> backed b' j ds" "j < br_next b'" "dget ((i, cs) # p) j = None" if "dget l j = Some ds" for j ds
        using that b' D(2) [of j ds] li by (cases "j = i"; auto simp: backed_def)+
      show "ds \<noteq> []" "j < br_next b'" "if j \<in> set k then backed b' j ds else in_queue b' j ds"
        if "dget ((i, cs) # p) j = Some ds" for j ds
        using that D(3) [of j ds] b' fresh by (cases "j = i"; auto simp: in_queue_def backed_def split: if_splits)+
      show "dget ((i, cs) # p) (w_id v) = Some (w_claims v)" "w_id v \<notin> set k" if "v \<in> set (br_waiting b')" for v
        using that D(4) [of v] b' fresh by (auto, force?)
      show "dget l j \<noteq> None \<or> dget ((i, cs) # p) j \<noteq> None" if "dget (br_held b') j = Some h" for j h
        using that b'(6) D(5) [of j h] by auto
      show "j < br_next b'" if "j \<in> set k" for j using D(6) [OF that] b'(3) by simp
    qed
    with b'(2) Queued show ?thesis by (simp add: world_ok_def)
  qed
qed

lemma claim_step_ok:
  assumes "claim_step w w'" "world_ok (cw_broker w) (cw_live w) (cw_pending w) (cw_woken w)"
  shows "world_ok (cw_broker w') (cw_live w') (cw_pending w') (cw_woken w')"
  using assms
proof (cases rule: claim_step.cases)
  case (acquire_now cs owner label now b i b' l p k)
  then show ?thesis using assms(2) world_acquire [of b l p k cs owner label now "Granted i" b'] by simp
next
  case (acquire_wait cs owner label now b i b' l p k)
  then show ?thesis using assms(2) world_acquire [of b l p k cs owner label now "Queued i" b'] by simp
next
  case (resume p i cs k b l waited)
  then show ?thesis using assms(2) world_resume [of b l p k i cs waited] by simp
next
  case (abort p i cs timed_out now b blockers ready b' l k)
  then show ?thesis using assms(2) world_abort [of b l p k i cs timed_out now blockers ready b'] by simp
next
  case (release l i cs now b ready b' p k)
  then show ?thesis using assms(2) world_release [of b l p k i now ready b'] by simp
qed

lemma claim_reach_ok:
  "claim_reach w \<Longrightarrow> world_ok (cw_broker w) (cw_live w) (cw_pending w) (cw_woken w)"
  by (induction rule: claim_reach.induct) (simp add: claim_start_def world_ok_start, rule claim_step_ok)

text \<open>
  C5: Mutual exclusion. Whatever callers do (acquire, wait, time out or get cancelled at any
  moment, release), the claims of two leases that callers hold at the same time never conflict.
\<close>
theorem live_leases_never_conflict:
  assumes "claim_reach w" and "dget (cw_live w) i = Some cs" and "dget (cw_live w) j = Some ds" and "i \<noteq> j"
  shows "first_conflict cs ds = None"
proof -
  have pre: "world_pre (cw_broker w) (cw_live w) (cw_pending w) (cw_woken w)"
    using claim_reach_ok [OF assms(1)] by (simp add: world_ok_def)
  have "cs = [] \<or> backed (cw_broker w) i cs" "ds = [] \<or> backed (cw_broker w) j ds"
    using world_preD(2) [OF pre] assms(2,3) by blast+
  moreover have "compatible (br_held (cw_broker w))" using world_preD(1) [OF pre] by (simp add: broker_ok_def)
  ultimately show ?thesis
    using assms(4) unfolding backed_def compatible_def by (metis claim_conflicts.clash_Nil)
qed

lemma takeWhile_first: "takeWhile (\<lambda>w. Some (w_id w) \<noteq> Some (w_id v)) (v # ws) = []"
  by simp

text \<open>
  No lost wake-up. A call that waits is either already woken, with its claims granted, or in
  the queue and held up by a current lease or an earlier waiter; when nothing is granted, nobody
  waits.
\<close>
theorem waiters_wait_for_a_reason:
  assumes "claim_reach w" and "dget (cw_pending w) i = Some cs"
  shows "(if i \<in> set (cw_woken w) then backed (cw_broker w) i cs
          else in_queue (cw_broker w) i cs \<and> blocked_by cs (Some i) (cw_broker w) \<noteq> [])
    \<and> br_held (cw_broker w) \<noteq> []"
proof -
  let ?b = "cw_broker w"
  have ok: "stuck (br_waiting ?b) ?b" and pre: "world_pre ?b (cw_live w) (cw_pending w) (cw_woken w)"
    using claim_reach_ok [OF assms(1)] by (simp_all add: world_ok_def)
  have p: "if i \<in> set (cw_woken w) then backed ?b i cs else in_queue ?b i cs"
    using world_preD(3) [OF pre assms(2)] by blast
  have q: "blocked_by cs (Some i) ?b \<noteq> []" if "in_queue ?b i cs"
    using that ok unfolding in_queue_def stuck_def by blast
  have "br_held ?b \<noteq> []" if ne: "br_waiting ?b \<noteq> []"
  proof -
    obtain v ws where v: "br_waiting ?b = v # ws" using ne by (cases "br_waiting ?b") auto
    then have "blocked_by (w_claims v) (Some (w_id v)) ?b \<noteq> []" using ok by (simp add: stuck_def)
    then show ?thesis unfolding blocked_by_Nil v takeWhile_first by auto
  qed
  moreover have "br_waiting ?b \<noteq> []" if "in_queue ?b i cs" using that by (auto simp: in_queue_def)
  moreover have "br_held ?b \<noteq> []" if "backed ?b i cs" using that by (auto simp: backed_def)
  ultimately show ?thesis using p q by (auto split: if_splits)
qed

text \<open>
  Progress. Releasing a lease that holds claims takes exactly one entry out of the broker:
  the number of leases and waiters together falls by one, so a broker with \<open>n\<close> entries is empty
  after \<open>n\<close> releases, every waiter having been granted on the way.
\<close>
theorem release_makes_progress:
  assumes "claim_reach w" and "dget (cw_live w) i = Some cs" and "cs \<noteq> []"
    and "br_release i now (cw_broker w) = (ready, b')"
  shows "Suc (length (br_held b') + length (br_waiting b')) = length (br_held (cw_broker w)) + length (br_waiting (cw_broker w))
    \<and> (\<forall>v \<in> set (br_waiting (cw_broker w)). v \<in> set (br_waiting b') \<or> backed b' (w_id v) (w_claims v))
    \<and> (br_waiting b' \<noteq> [] \<longrightarrow> br_held b' \<noteq> [])"
proof -
  let ?b = "cw_broker w"
  have pre: "world_pre ?b (cw_live w) (cw_pending w) (cw_woken w)"
    using claim_reach_ok [OF assms(1)] by (simp_all add: world_ok_def)
  note D = world_preD [OF pre]
  have r: "grant_ready now (?b\<lparr>br_held := dpop i (br_held ?b)\<rparr>) = (ready, b')" using assms(4) by (simp add: br_release_def)
  note F = grant_ready_facts [OF broker_ok_release [OF D(1)] r]
  obtain h where h: "dget (br_held ?b) i = Some h" using D(2) [OF assms(2)] assms(3) by (auto simp: backed_def)
  have "dwf (br_held ?b)" using D(1) by (simp add: broker_ok_def)
  then have "Suc (length (dpop i (br_held ?b))) = length (br_held ?b)" using h by (rule length_dpop)
  moreover have "length (br_held b') + length (br_waiting b') = length (dpop i (br_held ?b)) + length (br_waiting ?b)"
    using F(3) by (simp add: granted_def)
  moreover have "v \<in> set (br_waiting b') \<or> backed b' (w_id v) (w_claims v)" if "v \<in> set (br_waiting ?b)" for v
    using F(3) that unfolding granted_def backed_def by auto
  moreover have "br_held b' \<noteq> []" if ne: "br_waiting b' \<noteq> []"
  proof -
    obtain v ws where v: "br_waiting b' = v # ws" using ne by (cases "br_waiting b'") auto
    then have "blocked_by (w_claims v) (Some (w_id v)) b' \<noteq> []" using F(2) by (simp add: stuck_def)
    then show ?thesis unfolding blocked_by_Nil v takeWhile_first by auto
  qed
  ultimately show ?thesis by simp
qed

section \<open>Preview and apply\<close>

lemma pv_verify_None:
  "pv_verify look d = None \<longleftrightarrow> (\<forall>(p, f) \<in> set d. fp_known f \<longrightarrow> drift f (look p) = [])"
  by (induction look d rule: pv_verify.induct) (auto simp: Let_def)

lemma drift_Nil:
  "drift e c = [] \<longleftrightarrow> fp_known e \<and> fp_known c \<and> fp_exists e = fp_exists c
     \<and> (fp_exists e \<longrightarrow> fp_size e = fp_size c \<and> fp_mtime e = fp_mtime c
        \<and> (fp_sha256 e = fp_sha256 c \<or> fp_sha256 e = None \<or> fp_sha256 c = None))"
  by (auto simp: drift_def split: option.splits)

lemma dget_pv_capture: "dget (pv_capture look paths d) p = (if p \<in> set paths then Some (look p) else dget d p)"
  by (induction paths arbitrary: d) (auto simp: pv_capture_def)

lemma dwf_pv_capture: "dwf d \<Longrightarrow> dwf (pv_capture look paths d)"
  by (induction paths arbitrary: d) (auto simp: pv_capture_def dwf_dset)

text \<open>
  A guarded apply that passes \<open>verify\<close> sees the files of the preview: every captured path
  whose preview could be examined can be examined now, exists exactly when it did, and has the same
  size, modification time and (when both were hashed) content digest. A path that cannot be
  examined at apply time never passes.
\<close>
theorem verified_apply_sees_preview:
  assumes "pv_verify now (pv_capture before paths []) = None" and "p \<in> set paths" and "fp_known (before p)"
  shows "fp_known (now p) \<and> fp_exists (now p) = fp_exists (before p)
    \<and> (fp_exists (before p) \<longrightarrow> fp_size (now p) = fp_size (before p) \<and> fp_mtime (now p) = fp_mtime (before p)
        \<and> (fp_sha256 (now p) = fp_sha256 (before p) \<or> fp_sha256 (before p) = None \<or> fp_sha256 (now p) = None))"
proof -
  have "dget (pv_capture before paths []) p = Some (before p)" using assms(2) by (simp add: dget_pv_capture)
  then have "(p, before p) \<in> set (pv_capture before paths [])" by (rule dget_SomeD)
  with assms(1,3) have "drift (before p) (now p) = []" unfolding pv_verify_None by blast
  then show ?thesis unfolding drift_Nil by auto
qed

section \<open>Concrete runs\<close>

definition demo_read :: claim where
  "demo_read = mk_claim KPath ''/w/a'' MRead []"

definition demo_write :: claim where
  "demo_write = mk_claim KTree ''/w'' MWrite []"

definition demo_broker :: "claim list \<Rightarrow> broker" where
  "demo_broker second = snd (br_acquire second ''b'' [] 1 (snd (br_acquire [demo_read] ''a'' [] 0 empty_broker)))"

lemma demo_first: "br_acquire [demo_read] ''a'' [] 0 empty_broker = (Granted 1, snd (br_acquire [demo_read] ''a'' [] 0 empty_broker))"
  by (simp add: br_acquire_def empty_broker_def blocked_by_def Let_def)

lemma demo_reach1: "claim_reach \<lparr>cw_broker = snd (br_acquire [demo_read] ''a'' [] 0 empty_broker), cw_live = [(1, [demo_read])],
    cw_pending = [], cw_woken = []\<rparr>"
  by (rule claim_reach.step [OF claim_reach.start]) (unfold claim_start_def, rule acquire_now, rule demo_first)

lemmas demo_defs = br_acquire_def empty_broker_def blocked_by_def blocker_def conflicts_def overlaps_def inside_def
  rstrip_sep_def file_kind_def demo_read_def demo_write_def mk_claim_def demo_broker_def

lemma demo_reach_shared: "claim_reach \<lparr>cw_broker = demo_broker [demo_read], cw_live = [(2, [demo_read]), (1, [demo_read])],
    cw_pending = [], cw_woken = []\<rparr>"
  by (rule claim_reach.step [OF demo_reach1], rule acquire_now [where owner = "''b''" and label = "[]" and now = 1])
     (simp add: demo_defs Let_def)

lemma demo_reach_queued: "claim_reach \<lparr>cw_broker = demo_broker [demo_write], cw_live = [(1, [demo_read])],
    cw_pending = [(2, [demo_write])], cw_woken = []\<rparr>"
  by (rule claim_reach.step [OF demo_reach1], rule acquire_wait [where owner = "''b''" and label = "[]" and now = 1])
     (simp add: demo_defs Let_def)

theorem claims_miss_no_overlap_witness: "conflicts demo_read demo_write"
proof -
  have "''/w/a'' \<in> covered (cl_resource demo_read) \<inter> covered (cl_resource demo_write)"
    by (simp add: covered_def demo_defs)
  then show ?thesis
    using claims_miss_no_overlap [of demo_read demo_write]
    by (auto simp: demo_read_def demo_write_def mk_claim_def file_kind_def)
qed

theorem live_leases_never_conflict_witness: "first_conflict [demo_read] [demo_read] = None"
  by (rule live_leases_never_conflict [OF demo_reach_shared, of 1 _ 2]) simp_all

theorem waiters_wait_for_a_reason_witness:
  "in_queue (demo_broker [demo_write]) 2 [demo_write] \<and> blocked_by [demo_write] (Some 2) (demo_broker [demo_write]) \<noteq> []"
  using waiters_wait_for_a_reason [OF demo_reach_queued, of 2] by simp

theorem release_makes_progress_witness:
  "Suc (length (br_held (snd (br_release 1 2 (demo_broker [demo_write])))) + length (br_waiting (snd (br_release 1 2 (demo_broker [demo_write])))))
     = length (br_held (demo_broker [demo_write])) + length (br_waiting (demo_broker [demo_write]))"
  using release_makes_progress [OF demo_reach_queued _ _ surjective_pairing, of 1 "[demo_read]" 2] by simp

theorem verified_apply_sees_preview_witness:
  "fp_exists (fingerprint False 100 (Stat 5 7) ReadFails) = fp_exists (fingerprint True 100 (Stat 5 7) (Digest ''d''))"
proof -
  let ?before = "\<lambda>p::string. fingerprint True 100 (Stat 5 7) (Digest ''d'')"
  let ?now = "\<lambda>p::string. fingerprint False 100 (Stat 5 7) ReadFails"
  have "pv_verify ?now (pv_capture ?before [''a''] []) = None" "fp_known (?before ''a'')"
    by (simp_all add: pv_capture_def fingerprint_def Let_def drift_def)
  from verified_apply_sees_preview [OF this(1) _ this(2)] show ?thesis by simp
qed

end
