(* ===== verification/Spend_Cap.thy ===== *)
theory Spend_Cap
  imports Prelude
begin

text \<open>
  The daily cap on paid provider calls, \<open>src/spend_cap.py\<close>: which calls are paid, the day's
  accumulator, the gate before every attempt, and the ledger of a stream's attempts.

  The persisted file is \<open>sw_file\<close> (\<open>None\<close>: absent or unreadable), \<open>sw_notices\<close> the days for which a
  notification was sent. Whether the file can be written, what the endpoint table, the provider
  detection and the settings say are the environment \<open>spend_env\<close>; the day is the local date of the
  call. Every load-modify-save runs under the file lock, so it is one step. Costs are reals.
\<close>

section \<open>Settings and classification\<close>

record spend_limits =
  li_enabled :: bool
  li_usd :: real
  li_tokens :: int

record spend_env =
  se_local :: "string \<Rightarrow> bool option"
  se_provider :: "string \<Rightarrow> string option"
  se_label :: "string \<Rightarrow> string"
  se_limits :: spend_limits
  se_disk :: bool

definition sc_number :: "(string \<Rightarrow> pyfloat option) \<Rightarrow> pynum \<Rightarrow> real \<Rightarrow> real" where
  "sc_number parse v dflt =
     (case v of PBool b \<Rightarrow> dflt
      | _ \<Rightarrow> (case to_float parse v of Inl e \<Rightarrow> dflt
              | Inr x \<Rightarrow> (case finite_nonneg_float x of None \<Rightarrow> dflt | Some r \<Rightarrow> r)))"

definition sc_limits :: "(string \<Rightarrow> pyfloat option) \<Rightarrow> bool \<Rightarrow> pynum \<Rightarrow> pynum \<Rightarrow> spend_limits" where
  "sc_limits parse enabled usd tokens =
     \<lparr>li_enabled = enabled, li_usd = sc_number parse usd 5, li_tokens = \<lfloor>sc_number parse tokens 2000000\<rfloor>\<rparr>"

datatype call_class = NoCall | Cli | Local | Subscription | FreeModel | Paid

definition flat_rate_providers :: "string list" where
  "flat_rate_providers = [''chatgpt-subscription'', ''copilot'']"

definition sc_classify :: "spend_env \<Rightarrow> string \<Rightarrow> string \<Rightarrow> call_class" where
  "sc_classify env url0 model =
     (let url = py_strip url0
      in if url = [] then NoCall
         else if starts_with url ''faustus-cli://'' then Cli
         else case se_local env url of
                None \<Rightarrow> Local
              | Some True \<Rightarrow> Local
              | Some False \<Rightarrow>
                  if (case se_provider env url of None \<Rightarrow> False | Some p \<Rightarrow> p \<in> set flat_rate_providers) then Subscription
                  else if ends_with (py_lower (py_strip model)) '':free'' then FreeModel
                  else Paid)"

definition is_paid_endpoint :: "spend_env \<Rightarrow> string \<Rightarrow> string \<Rightarrow> bool" where
  "is_paid_endpoint env url model \<longleftrightarrow> sc_classify env url model = Paid"

section \<open>The day's state\<close>

record spend_row =
  sr_usd :: real
  sr_tokens :: int
  sr_calls :: int
  sr_unknown_cost_calls :: int

record spend_state =
  ss_day :: string
  ss_usd :: real
  ss_tokens :: int
  ss_tokens_unpriced :: int
  ss_calls :: int
  ss_unknown_cost_calls :: int
  ss_by_provider :: "(string, spend_row) dict"
  ss_notified_day :: string

record spend_world =
  sw_file :: "spend_state option"
  sw_notices :: "string list"

definition fresh_day :: "string \<Rightarrow> spend_state" where
  "fresh_day day = \<lparr>ss_day = day, ss_usd = 0, ss_tokens = 0, ss_tokens_unpriced = 0, ss_calls = 0,
     ss_unknown_cost_calls = 0, ss_by_provider = [], ss_notified_day = []\<rparr>"

definition sc_load :: "string \<Rightarrow> spend_world \<Rightarrow> spend_state" where
  "sc_load day w = (case sw_file w of Some st \<Rightarrow> if ss_day st = day then st else fresh_day day | None \<Rightarrow> fresh_day day)"

definition sc_save :: "spend_env \<Rightarrow> spend_state \<Rightarrow> spend_world \<Rightarrow> spend_world" where
  "sc_save env st w = (if se_disk env then w\<lparr>sw_file := Some st\<rparr> else w)"

section \<open>Accounting\<close>

type_synonym usage = "(string, pynum) dict"

definition usage_count :: "usage \<Rightarrow> string \<Rightarrow> int" where
  "usage_count u key =
     (case dget u key of
        Some (PInt i) \<Rightarrow> if 0 < i then i else 0
      | Some (PFlt (Fin x)) \<Rightarrow> if 0 < x then \<lfloor>x\<rfloor> else 0
      | _ \<Rightarrow> 0)"

definition usage_tokens :: "usage \<Rightarrow> int" where
  "usage_tokens u =
     (let split = usage_count u ''input_tokens'' + usage_count u ''output_tokens''
      in if split \<noteq> 0 then split else usage_count u ''total_tokens'')"

definition known_cost :: "usage \<Rightarrow> real option" where
  "known_cost u =
     (case dget u ''cost_usd'' of
        Some (PInt i) \<Rightarrow> if 0 \<le> i then Some (of_int i) else None
      | Some (PFlt (Fin x)) \<Rightarrow> if 0 \<le> x then Some x else None
      | _ \<Rightarrow> None)"

definition empty_row :: spend_row where
  "empty_row = \<lparr>sr_usd = 0, sr_tokens = 0, sr_calls = 0, sr_unknown_cost_calls = 0\<rparr>"

definition book_call :: "string \<Rightarrow> int \<Rightarrow> real option \<Rightarrow> spend_state \<Rightarrow> spend_state" where
  "book_call label tokens cost st =
     (let row0 = dget_or (ss_by_provider st) label empty_row;
          row = row0\<lparr>sr_tokens := sr_tokens row0 + tokens, sr_calls := sr_calls row0 + 1\<rparr>;
          st1 = st\<lparr>ss_tokens := ss_tokens st + tokens, ss_calls := ss_calls st + 1\<rparr>
      in case cost of
           Some c \<Rightarrow> st1\<lparr>ss_usd := ss_usd st + c,
                         ss_by_provider := dset label (row\<lparr>sr_usd := sr_usd row0 + c\<rparr>) (ss_by_provider st)\<rparr>
         | None \<Rightarrow> st1\<lparr>ss_tokens_unpriced := ss_tokens_unpriced st + tokens,
                      ss_unknown_cost_calls := ss_unknown_cost_calls st + 1,
                      ss_by_provider :=
                        dset label (row\<lparr>sr_unknown_cost_calls := sr_unknown_cost_calls row0 + 1\<rparr>) (ss_by_provider st)\<rparr>)"

definition sc_record :: "spend_env \<Rightarrow> string \<Rightarrow> usage \<Rightarrow> string \<Rightarrow> string \<Rightarrow> spend_world \<Rightarrow> spend_world" where
  "sc_record env url u model day w =
     (if \<not> is_paid_endpoint env url model then w
      else sc_save env (book_call (se_label env url) (usage_tokens u) (known_cost u) (sc_load day w)) w)"

definition has_receipt :: "usage \<Rightarrow> bool" where
  "has_receipt u \<longleftrightarrow> 0 < usage_tokens u \<or> known_cost u \<noteq> None"

section \<open>The gate\<close>

datatype limit_kind = LimitUsd | LimitTokens

record cap_reached =
  cr_kind :: limit_kind
  cr_spent_usd :: real
  cr_limit_usd :: real
  cr_spent_tokens :: int
  cr_limit_tokens :: int

definition token_basis :: "spend_state \<Rightarrow> spend_limits \<Rightarrow> int" where
  "token_basis st cap = (if 0 < li_usd cap then ss_tokens_unpriced st else ss_tokens st)"

definition exceeded :: "spend_state \<Rightarrow> spend_limits \<Rightarrow> limit_kind option" where
  "exceeded st cap =
     (if 0 < li_usd cap \<and> li_usd cap \<le> ss_usd st then Some LimitUsd
      else if 0 < li_tokens cap \<and> li_tokens cap \<le> token_basis st cap then Some LimitTokens
      else None)"

definition notify_once :: "spend_env \<Rightarrow> spend_state \<Rightarrow> spend_world \<Rightarrow> spend_world" where
  "notify_once env st w =
     (if ss_notified_day st = ss_day st then w
      else (sc_save env (st\<lparr>ss_notified_day := ss_day st\<rparr>) w)\<lparr>sw_notices := sw_notices w @ [ss_day st]\<rparr>)"

text \<open>\<open>None\<close> lets the attempt go out; \<open>Some e\<close> raises \<open>SpendCapReached\<close>.\<close>

definition sc_gate :: "spend_env \<Rightarrow> string \<Rightarrow> string \<Rightarrow> string \<Rightarrow> spend_world \<Rightarrow> cap_reached option \<times> spend_world" where
  "sc_gate env url model day w =
     (let cap = se_limits env
      in if \<not> li_enabled cap \<or> \<not> is_paid_endpoint env url model then (None, w)
         else
           let st = sc_load day w
           in case exceeded st cap of
                None \<Rightarrow> (None, w)
              | Some kind \<Rightarrow>
                  (Some \<lparr>cr_kind = kind, cr_spent_usd = ss_usd st, cr_limit_usd = li_usd cap,
                     cr_spent_tokens = (if kind = LimitTokens then token_basis st cap else ss_tokens st),
                     cr_limit_tokens = li_tokens cap\<rparr>,
                   notify_once env st w))"

section \<open>The ledger of a stream's attempts\<close>

text \<open>\<open>_current\<close> and the world; \<open>url\<close> and \<open>model\<close> are the ledger's.\<close>

type_synonym attempt = "usage option"

definition usage_keys :: "string list" where
  "usage_keys = [''input_tokens'', ''output_tokens'', ''total_tokens'', ''cost_usd'']"

definition frame_value :: "pynum option \<Rightarrow> pynum option" where
  "frame_value v =
     (case v of
        Some (PInt i) \<Rightarrow> if 0 \<le> i then v else None
      | Some (PFlt (Fin x)) \<Rightarrow> if 0 \<le> x then v else None
      | _ \<Rightarrow> None)"

definition al_frame :: "usage option \<Rightarrow> attempt \<Rightarrow> attempt" where
  "al_frame u current =
     (case u of
        None \<Rightarrow> current
      | Some frame \<Rightarrow>
          Some (fold (\<lambda>key d. case frame_value (dget frame key) of None \<Rightarrow> d | Some v \<Rightarrow> dset key v d)
            usage_keys (case current of None \<Rightarrow> [] | Some d \<Rightarrow> d)))"

definition al_flush ::
  "spend_env \<Rightarrow> string \<Rightarrow> string \<Rightarrow> string \<Rightarrow> bool \<Rightarrow> bool \<Rightarrow> attempt \<times> spend_world \<Rightarrow> attempt \<times> spend_world" where
  "al_flush env url model day final errored = (\<lambda>(current, w).
     (None,
      case current of
        None \<Rightarrow> w
      | Some u \<Rightarrow> if has_receipt u then sc_record env url u model day w
                  else if final \<and> \<not> errored then sc_record env url [] model day w
                  else w))"

definition al_settle_previous where
  "al_settle_previous env url model day = al_flush env url model day False True"

definition al_begin_attempt ::
  "spend_env \<Rightarrow> string \<Rightarrow> string \<Rightarrow> string \<Rightarrow> attempt \<times> spend_world \<Rightarrow> attempt \<times> spend_world" where
  "al_begin_attempt env url model day s = (Some [], snd (al_settle_previous env url model day s))"

definition al_finish ::
  "spend_env \<Rightarrow> string \<Rightarrow> string \<Rightarrow> string \<Rightarrow> bool \<Rightarrow> attempt \<times> spend_world \<Rightarrow> attempt \<times> spend_world" where
  "al_finish env url model day errored = al_flush env url model day True errored"

text \<open>\<open>attempt_gate\<close>: settle the previous attempt, then ask the gate, then mark the new attempt.\<close>

definition attempt_gate ::
  "spend_env \<Rightarrow> string \<Rightarrow> string \<Rightarrow> string \<Rightarrow> attempt \<times> spend_world \<Rightarrow> cap_reached option \<times> attempt \<times> spend_world" where
  "attempt_gate env url model day s =
     (let (current, w1) = al_settle_previous env url model day s
      in case sc_gate env url model day w1 of
           (Some e, w2) \<Rightarrow> (Some e, current, w2)
         | (None, w2) \<Rightarrow> (None, al_begin_attempt env url model day (current, w2)))"

section \<open>The books balance\<close>

datatype spend_op = SRecord string usage string string | SGate string string string

fun spend_step :: "spend_env \<Rightarrow> spend_op \<Rightarrow> spend_world \<Rightarrow> spend_world" where
  "spend_step env (SRecord url u model day) w = sc_record env url u model day w"
| "spend_step env (SGate url model day) w = snd (sc_gate env url model day w)"

definition balanced :: "spend_state \<Rightarrow> bool" where
  "balanced st \<longleftrightarrow> dwf (ss_by_provider st)
     \<and> ss_usd st = dsum sr_usd (ss_by_provider st)
     \<and> ss_tokens st = dsum sr_tokens (ss_by_provider st)
     \<and> ss_calls st = dsum sr_calls (ss_by_provider st)
     \<and> ss_unknown_cost_calls st = dsum sr_unknown_cost_calls (ss_by_provider st)
     \<and> 0 \<le> ss_tokens_unpriced st \<and> ss_tokens_unpriced st \<le> ss_tokens st \<and> 0 \<le> ss_usd st"

definition spend_inv :: "spend_world \<Rightarrow> bool" where
  "spend_inv w \<longleftrightarrow> (case sw_file w of None \<Rightarrow> True | Some st \<Rightarrow> balanced st)"

lemma usage_count_nonneg: "0 \<le> usage_count u key"
  by (auto simp: usage_count_def split: option.splits pynum.splits pyfloat.splits)

lemma usage_tokens_nonneg: "0 \<le> usage_tokens u"
  using usage_count_nonneg by (simp add: usage_tokens_def Let_def)

lemma known_cost_nonneg: "known_cost u = Some c \<Longrightarrow> 0 \<le> c"
  by (auto simp: known_cost_def split: option.splits pynum.splits pyfloat.splits if_splits)

lemma dsum_add:
  fixes f :: "'v \<Rightarrow> 'n::ab_group_add"
  assumes "dwf d" and "f zero = 0"
  shows "dsum f (dset k v d) = dsum f d - f (dget_or d k zero) + f v"
  using assms dsum_dset_new [of d k f v] dsum_dset_old [of d k _ f v] dget_SomeD [of d k]
  by (cases "dget d k") (auto simp: dget_or_def)
lemma book_call_simps [simp]:
  "ss_usd (book_call label tokens cost st) = ss_usd st + (case cost of None \<Rightarrow> 0 | Some c \<Rightarrow> c)"
  "ss_tokens (book_call label tokens cost st) = ss_tokens st + tokens"
  "ss_calls (book_call label tokens cost st) = ss_calls st + 1"
  "ss_tokens_unpriced (book_call label tokens cost st) = ss_tokens_unpriced st + (if cost = None then tokens else 0)"
  "ss_unknown_cost_calls (book_call label tokens cost st) = ss_unknown_cost_calls st + (if cost = None then 1 else 0)"
  "ss_day (book_call label tokens cost st) = ss_day st"
  by (simp_all add: book_call_def Let_def split: option.splits)

text \<open>The provider's row after a booking.\<close>

lemma book_call_rows:
  "\<exists>row. ss_by_provider (book_call label tokens cost st) = dset label row (ss_by_provider st)
     \<and> sr_usd row = sr_usd (dget_or (ss_by_provider st) label empty_row) + (case cost of None \<Rightarrow> 0 | Some c \<Rightarrow> c)
     \<and> sr_tokens row = sr_tokens (dget_or (ss_by_provider st) label empty_row) + tokens
     \<and> sr_calls row = sr_calls (dget_or (ss_by_provider st) label empty_row) + 1
     \<and> sr_unknown_cost_calls row = sr_unknown_cost_calls (dget_or (ss_by_provider st) label empty_row)
          + (if cost = None then 1 else 0)"
proof (cases cost)
  case None
  then show ?thesis by (simp add: book_call_def Let_def) (intro exI conjI, rule refl, simp_all)
next
  case (Some c)
  then show ?thesis by (simp add: book_call_def Let_def) (intro exI conjI, rule refl, simp_all)
qed

lemma balanced_book:
  assumes "balanced st" "0 \<le> tokens" "\<And>c. cost = Some c \<Longrightarrow> 0 \<le> c"
  shows "balanced (book_call label tokens cost st)"
proof -
  have z: "sr_usd empty_row = 0" "sr_tokens empty_row = 0" "sr_calls empty_row = 0" "sr_unknown_cost_calls empty_row = 0"
    by (simp_all add: empty_row_def)
  have wf: "dwf (ss_by_provider st)" using assms(1) by (simp add: balanced_def)
  obtain row where rows: "ss_by_provider (book_call label tokens cost st) = dset label row (ss_by_provider st)"
    and row: "sr_usd row = sr_usd (dget_or (ss_by_provider st) label empty_row) + (case cost of None \<Rightarrow> 0 | Some c \<Rightarrow> c)"
      "sr_tokens row = sr_tokens (dget_or (ss_by_provider st) label empty_row) + tokens"
      "sr_calls row = sr_calls (dget_or (ss_by_provider st) label empty_row) + 1"
      "sr_unknown_cost_calls row = sr_unknown_cost_calls (dget_or (ss_by_provider st) label empty_row) + (if cost = None then 1 else 0)"
    using book_call_rows by blast
  have c: "0 \<le> (case cost of None \<Rightarrow> 0 | Some c \<Rightarrow> c)" using assms(3) by (simp split: option.splits)
  note old = assms(1) [unfolded balanced_def]
  have sums: "dsum sr_usd (dset label row (ss_by_provider st)) = ss_usd st + (case cost of None \<Rightarrow> 0 | Some c \<Rightarrow> c)"
    "dsum sr_tokens (dset label row (ss_by_provider st)) = ss_tokens st + tokens"
    "dsum sr_calls (dset label row (ss_by_provider st)) = ss_calls st + 1"
    "dsum sr_unknown_cost_calls (dset label row (ss_by_provider st)) = ss_unknown_cost_calls st + (if cost = None then 1 else 0)"
    using old row dsum_add [where f = sr_usd, OF wf z(1)] dsum_add [where f = sr_tokens, OF wf z(2)]
      dsum_add [where f = sr_calls, OF wf z(3)] dsum_add [where f = sr_unknown_cost_calls, OF wf z(4)] by simp_all
  show ?thesis unfolding balanced_def rows sums book_call_simps using old wf c assms(2) by (auto simp: dwf_dset)
qed

lemma balanced_load: "spend_inv w \<Longrightarrow> balanced (sc_load day w)"
  by (auto simp: spend_inv_def sc_load_def fresh_day_def balanced_def dsum_def split: option.splits)

lemma spend_inv_save: "balanced st \<Longrightarrow> spend_inv w \<Longrightarrow> spend_inv (sc_save env st w)"
  by (simp add: sc_save_def spend_inv_def)

lemma spend_inv_record:
  assumes "spend_inv w"
  shows "spend_inv (sc_record env url u model day w)"
proof -
  have "balanced (book_call (se_label env url) (usage_tokens u) (known_cost u) (sc_load day w))"
    using balanced_load [OF assms] usage_tokens_nonneg known_cost_nonneg by (rule balanced_book)
  then show ?thesis using assms spend_inv_save by (simp add: sc_record_def)
qed

lemma spend_inv_gate:
  assumes "spend_inv w"
  shows "spend_inv (snd (sc_gate env url model day w))"
proof -
  have "balanced (sc_load day w\<lparr>ss_notified_day := d\<rparr>)" for d
    using balanced_load [OF assms, of day] by (simp add: balanced_def)
  then have "spend_inv (notify_once env (sc_load day w) w)"
    using spend_inv_save assms by (simp add: notify_once_def) (simp add: spend_inv_def)
  with assms show ?thesis by (simp add: sc_gate_def Let_def split: option.splits)
qed

interpretation spend_runs: op_system "spend_step env" spend_inv
  for env
proof
  fix w op
  assume "spend_inv w"
  then show "spend_inv (spend_step env op w)" by (cases op) (auto intro: spend_inv_record spend_inv_gate)
qed

text \<open>
  The day's books balance: after any sequence of booked calls and gate checks, on whatever
  days and with whatever usage reports, the stored dollars, tokens, calls and unknown-cost calls
  are the sums over the providers, dollars are never negative, and the tokens of unknown price are
  part of the day's tokens.
\<close>
theorem spend_books_balance:
  assumes "fold (spend_step env) ops \<lparr>sw_file = None, sw_notices = []\<rparr> = w" and "sw_file w = Some st"
  shows "ss_usd st = dsum sr_usd (ss_by_provider st) \<and> ss_tokens st = dsum sr_tokens (ss_by_provider st)
    \<and> ss_calls st = dsum sr_calls (ss_by_provider st)
    \<and> ss_unknown_cost_calls st = dsum sr_unknown_cost_calls (ss_by_provider st)
    \<and> 0 \<le> ss_usd st \<and> 0 \<le> ss_tokens_unpriced st \<and> ss_tokens_unpriced st \<le> ss_tokens st"
proof -
  have "spend_inv w"
    unfolding assms(1) [symmetric] by (rule spend_runs.run_inv) (simp add: spend_inv_def)
  with assms(2) show ?thesis by (simp add: spend_inv_def balanced_def)
qed

section \<open>Once reached, the cap stays reached for the day\<close>

definition reached_on :: "spend_env \<Rightarrow> string \<Rightarrow> spend_world \<Rightarrow> bool" where
  "reached_on env day w \<longleftrightarrow> exceeded (sc_load day w) (se_limits env) \<noteq> None"

lemma load_after_save: "sc_load day (sc_save env st w) = (if se_disk env then (if ss_day st = day then st else fresh_day day) else sc_load day w)"
  by (simp add: sc_save_def sc_load_def)

definition ahead :: "spend_state \<Rightarrow> spend_state \<Rightarrow> bool" where
  "ahead a b \<longleftrightarrow> ss_day a = ss_day b \<and> ss_usd a \<le> ss_usd b \<and> ss_tokens a \<le> ss_tokens b \<and> ss_tokens_unpriced a \<le> ss_tokens_unpriced b"

lemma ahead_exceeded: "ahead a b \<Longrightarrow> exceeded a cap \<noteq> None \<Longrightarrow> exceeded b cap \<noteq> None"
  by (auto simp: ahead_def exceeded_def token_basis_def split: if_splits)

lemma day_of_load [simp]: "ss_day (sc_load day w) = day"
  by (simp add: sc_load_def fresh_day_def split: option.splits)

lemma ahead_book: "0 \<le> tokens \<Longrightarrow> (\<And>c. cost = Some c \<Longrightarrow> 0 \<le> c) \<Longrightarrow> ahead st (book_call label tokens cost st)"
  by (auto simp: ahead_def split: option.splits)

fun op_day :: "spend_op \<Rightarrow> string" where
  "op_day (SRecord url u model day) = day"
| "op_day (SGate url model day) = day"

lemma step_ahead:
  assumes "op_day op = day"
  shows "ahead (sc_load day w) (sc_load day (spend_step env op w))"
proof (cases op)
  case (SRecord url u model d)
  have "ahead (sc_load day w) (book_call (se_label env url) (usage_tokens u) (known_cost u) (sc_load day w))"
    using usage_tokens_nonneg known_cost_nonneg by (intro ahead_book)
  with assms SRecord show ?thesis by (simp add: sc_record_def load_after_save) (simp add: ahead_def)
next
  case (SGate url model d)
  have "sc_load day (v\<lparr>sw_notices := n\<rparr>) = sc_load day v" for v n by (simp add: sc_load_def)
  with assms SGate show ?thesis
    by (auto simp: sc_gate_def Let_def notify_once_def load_after_save ahead_def split: option.splits)
qed

lemma run_reached:
  assumes "reached_on env day w" and "\<forall>op \<in> set ops. op_day op = day"
  shows "reached_on env day (fold (spend_step env) ops w)"
  using assms
proof (induction ops arbitrary: w)
  case (Cons op ops)
  have "reached_on env day (spend_step env op w)"
    using Cons.prems step_ahead [of op day w env] ahead_exceeded unfolding reached_on_def by auto
  then show ?case using Cons by simp
qed simp

text \<open>
  With the cap enabled, a gate check of a paid call refuses exactly when a limit of the day is
  reached, and from then on every gate check of a paid call on that day refuses, whatever is booked
  in between; calls that are not billed are never refused.
\<close>
theorem gate_refuses_for_the_rest_of_the_day:
  assumes "li_enabled (se_limits env)" and "\<forall>op \<in> set ops. op_day op = day"
  shows "(fst (sc_gate env url model day w) \<noteq> None \<longleftrightarrow> is_paid_endpoint env url model \<and> reached_on env day w)
    \<and> (fst (sc_gate env url model day w) \<noteq> None \<longrightarrow> is_paid_endpoint env url2 model2 \<longrightarrow>
         fst (sc_gate env url2 model2 day (fold (spend_step env) ops w)) \<noteq> None)"
proof -
  have g: "fst (sc_gate env u m day v) \<noteq> None \<longleftrightarrow> is_paid_endpoint env u m \<and> reached_on env day v" for u m v
    using assms(1) by (auto simp: sc_gate_def Let_def reached_on_def split: option.splits)
  show ?thesis using g run_reached [OF _ assms(2)] by blast
qed

section \<open>One booking per attempt\<close>

text \<open>What a sequence of frames of one response comes to: the last valid value of each key.\<close>

definition last_value :: "string \<Rightarrow> usage option list \<Rightarrow> pynum option" where
  "last_value key frames =
     (case find (\<lambda>f. frame_value (dget f key) \<noteq> None) (rev (List.map_filter id frames)) of
        None \<Rightarrow> None | Some f \<Rightarrow> frame_value (dget f key))"

lemma dget_frame_fold:
  "dget (fold (\<lambda>key d. case frame_value (dget frame key) of None \<Rightarrow> d | Some v \<Rightarrow> dset key v d) ks d) k
     = (if k \<in> set ks \<and> frame_value (dget frame k) \<noteq> None then frame_value (dget frame k) else dget d k)"
  by (induction ks arbitrary: d) (auto split: option.splits)

lemma frames_merge:
  "\<exists>u. fold al_frame frames (Some []) = Some u \<and> (\<forall>k \<in> set usage_keys. dget u k = last_value k frames)
     \<and> (\<forall>k. k \<notin> set usage_keys \<longrightarrow> dget u k = None)"
proof (induction frames rule: rev_induct)
  case Nil
  then show ?case by (simp add: last_value_def map_filter_simps)
next
  case (snoc f frames)
  then obtain u where u: "fold al_frame frames (Some []) = Some u" "\<forall>k \<in> set usage_keys. dget u k = last_value k frames"
    "\<forall>k. k \<notin> set usage_keys \<longrightarrow> dget u k = None" by blast
  show ?case
  proof (cases f)
    case None
    have "last_value k (frames @ [f]) = last_value k frames" for k using None by (simp add: last_value_def map_filter_def)
    with u None show ?thesis by (simp add: al_frame_def [of None])
  next
    case (Some frame)
    have last: "last_value k (frames @ [f]) =
        (if frame_value (dget frame k) \<noteq> None then frame_value (dget frame k) else last_value k frames)" for k
      using Some by (simp add: last_value_def map_filter_def)
    have "fold al_frame (frames @ [f]) (Some []) =
        Some (fold (\<lambda>key d. case frame_value (dget frame key) of None \<Rightarrow> d | Some v \<Rightarrow> dset key v d) usage_keys u)"
      using u(1) Some by (simp add: al_frame_def [of "Some frame"])
    with u(2,3) show ?thesis unfolding last by (simp add: dget_frame_fold)
  qed
qed

text \<open>
  However many usage frames one attempt of a stream delivers, finishing it books at most one
  call, with the last valid value of each field: nothing is summed, a repeated final frame counts
  once, and an attempt without a receipt is booked (as one call of unknown cost) only when it ended
  the stream without an error.
\<close>
theorem attempt_is_booked_once:
  "\<exists>u. map (dget u) usage_keys = map (\<lambda>k. last_value k frames) usage_keys
    \<and> al_finish env url model day errored (fold al_frame frames (Some []), w) =
        (None, if has_receipt u then sc_record env url u model day w
               else if errored then w else sc_record env url [] model day w)"
  using frames_merge [of frames] by (auto simp: al_finish_def al_flush_def)

section \<open>Concrete runs\<close>

definition demo_env :: spend_env where
  "demo_env = \<lparr>se_local = (\<lambda>u. Some False), se_provider = (\<lambda>u. None), se_label = (\<lambda>u. ''acme''),
     se_limits = \<lparr>li_enabled = True, li_usd = 5, li_tokens = 100\<rparr>, se_disk = True\<rparr>"

lemma demo_paid: "is_paid_endpoint demo_env ''x'' ''m''"
  by (simp add: is_paid_endpoint_def sc_classify_def demo_env_def py_strip_def is_space_def py_lower_def lower_char_def
      ends_with_def Let_def)

theorem spend_books_balance_witness:
  "ss_usd (book_call ''acme'' 0 None (fresh_day ''d'')) = dsum sr_usd (ss_by_provider (book_call ''acme'' 0 None (fresh_day ''d'')))"
proof -
  have e: "sw_file (fold (spend_step demo_env) [SRecord ''x'' [] ''m'' ''d''] \<lparr>sw_file = None, sw_notices = []\<rparr>)
      = Some (book_call ''acme'' 0 None (fresh_day ''d''))"
    using demo_paid by (simp add: sc_record_def sc_save_def sc_load_def demo_env_def usage_tokens_def usage_count_def known_cost_def)
  show ?thesis using spend_books_balance [OF refl e] by blast
qed

theorem gate_refuses_for_the_rest_of_the_day_witness:
  "fst (sc_gate demo_env ''x'' ''m'' ''d'' (fold (spend_step demo_env) [SRecord ''x'' [] ''m'' ''d'', SGate ''x'' ''m'' ''d'']
     \<lparr>sw_file = Some ((fresh_day ''d'')\<lparr>ss_usd := 5\<rparr>), sw_notices = []\<rparr>)) \<noteq> None"
proof -
  let ?w = "\<lparr>sw_file = Some ((fresh_day ''d'')\<lparr>ss_usd := 5\<rparr>), sw_notices = []\<rparr>"
  have "reached_on demo_env ''d'' ?w"
    by (simp add: reached_on_def sc_load_def fresh_day_def exceeded_def demo_env_def)
  moreover have "li_enabled (se_limits demo_env)" by (simp add: demo_env_def)
  moreover have "\<forall>op \<in> set [SRecord ''x'' [] ''m'' ''d'', SGate ''x'' ''m'' ''d'']. op_day op = ''d''" by simp
  ultimately show ?thesis
    using gate_refuses_for_the_rest_of_the_day [of demo_env "[SRecord ''x'' [] ''m'' ''d'', SGate ''x'' ''m'' ''d'']" "''d''"
        "''x''" "''m''" ?w "''x''" "''m''"] demo_paid by blast
qed

end
