(* ===== verification/Autonomy_Budget.thy ===== *)
theory Autonomy_Budget
  imports Prelude
begin

text \<open>
  How far one agent turn may go, \<open>src/autonomy_budget.py\<close>: the presets, the six ceilings of a
  \<open>Budget\<close>, the turn's \<open>Ledger\<close> and its check, and the conversion of money into spend units. The
  settings reader, the tool tables and the parsing of number strings are parameters. Floats are
  reals; an infinite dollar ceiling, which no spend reaches, is the absent limit \<open>None\<close>.
\<close>

section \<open>Presets\<close>

datatype preset = Supervised | BoundedAutonomous | ReadOnly

definition normalize_preset :: "string option \<Rightarrow> preset" where
  "normalize_preset value =
     (let name = (case value of None \<Rightarrow> [] | Some v \<Rightarrow> py_lower (py_strip v))
      in if name = ''bounded_autonomous'' then BoundedAutonomous
         else if name = ''read_only'' then ReadOnly else Supervised)"

fun multiplier :: "preset \<Rightarrow> real" where
  "multiplier Supervised = 1"
| "multiplier BoundedAutonomous = 3"
| "multiplier ReadOnly = 1 / 3"

definition usd_per_unit :: real where
  "usd_per_unit = 2 / 1000000"

datatype effect = EReadPublic | EReadWorkspace | EReadPrivate | EBrokeredRead | EUserInteraction | EOther string

definition read_only_allowed :: "effect list" where
  "read_only_allowed = [EReadPublic, EReadWorkspace, EReadPrivate, EBrokeredRead, EUserInteraction]"

text \<open>\<open>canon\<close> resolves an alias, \<open>effects\<close> are the tool's declared effects (unknown tools have a
  mutating effect there).\<close>

definition is_read_only_tool :: "(string \<Rightarrow> string option) \<Rightarrow> (string \<Rightarrow> effect list) \<Rightarrow> string \<Rightarrow> bool" where
  "is_read_only_tool canon effects name \<longleftrightarrow>
     name \<noteq> [] \<and> set (effects (case canon name of None \<Rightarrow> name | Some c \<Rightarrow> c)) \<subseteq> set read_only_allowed"

definition read_only_disabled_names ::
  "(string \<Rightarrow> string option) \<Rightarrow> (string \<Rightarrow> effect list) \<Rightarrow> string list \<Rightarrow> string list" where
  "read_only_disabled_names canon effects names =
     remdups (filter (\<lambda>n. n \<noteq> [] \<and> \<not> is_read_only_tool canon effects n) names)"

definition is_read_only_action ::
  "(string \<Rightarrow> string option) \<Rightarrow> (string \<Rightarrow> string option) \<Rightarrow> (string \<Rightarrow> string \<Rightarrow> effect list) \<Rightarrow> string \<Rightarrow> string \<Rightarrow> bool" where
  "is_read_only_action canon names effects name content \<longleftrightarrow>
     name \<noteq> [] \<and> set (effects (case canon name of Some c \<Rightarrow> c
        | None \<Rightarrow> (case names name of None \<Rightarrow> name | Some n \<Rightarrow> n)) content) \<subseteq> set read_only_allowed"

section \<open>Budgets\<close>

record budget =
  bd_tool_calls :: "real option"
  bd_tokens :: "real option"
  bd_active_seconds :: "real option"
  bd_subagents :: "real option"
  bd_remote_spend :: "real option"
  bd_memory_mb :: "real option"

definition without_tool_calls :: "budget \<Rightarrow> budget" where
  "without_tool_calls b = b\<lparr>bd_tool_calls := None\<rparr>"

text \<open>\<open>g key fallback\<close> is what the settings reader returns.\<close>

type_synonym settings = "(string \<Rightarrow> real \<Rightarrow> pynum) option"

definition base_from_setting :: "(string \<Rightarrow> pyfloat option) \<Rightarrow> string \<Rightarrow> real \<Rightarrow> settings \<Rightarrow> real" where
  "base_from_setting parse key fallback g =
     (case g of
        None \<Rightarrow> fallback
      | Some get \<Rightarrow>
          (case to_float parse (get key fallback) of
             Inl e \<Rightarrow> fallback
           | Inr x \<Rightarrow> (case finite_nonneg_float x of None \<Rightarrow> fallback | Some v \<Rightarrow> v)))"

definition scale_count :: "preset \<Rightarrow> real \<Rightarrow> real" where
  "scale_count p base = (if base = 0 then 0 else max 1 (of_int (round_even (base * multiplier p))))"

definition scale_amount :: "preset \<Rightarrow> real \<Rightarrow> real" where
  "scale_amount p base = (if base = 0 then 0 else max 1 (py_round 1 (base * multiplier p)))"

text \<open>\<open>float(value or 0)\<close> of the per-turn dollar ceiling; a value that is no number counts as 0.\<close>

definition turn_usd :: "(string \<Rightarrow> pyfloat option) \<Rightarrow> settings \<Rightarrow> pyfloat" where
  "turn_usd parse g =
     (case g of
        None \<Rightarrow> Fin 0
      | Some get \<Rightarrow>
          (case get ''agent_turn_max_cost_usd'' 0 of
             PNone \<Rightarrow> Fin 0
           | PStr [] \<Rightarrow> Fin 0
           | v \<Rightarrow> (case to_float parse v of Inl e \<Rightarrow> Fin 0 | Inr x \<Rightarrow> x)))"

definition override :: "(string, real option) dict \<Rightarrow> string \<Rightarrow> real option \<Rightarrow> real option" where
  "override overrides key v = (case dget overrides key of Some (Some x) \<Rightarrow> Some x | _ \<Rightarrow> v)"

definition resolve_budget ::
  "(string \<Rightarrow> pyfloat option) \<Rightarrow> string option \<Rightarrow> settings \<Rightarrow> (string, real option) dict \<Rightarrow> budget" where
  "resolve_budget parse preset_name g overrides =
     (let p = normalize_preset preset_name;
          base = (\<lambda>key. base_from_setting parse key 0 g);
          spend = scale_amount p (base ''agent_autonomy_max_remote_spend'');
          spend' = (case turn_usd parse g of
                      Fin usd \<Rightarrow> if 0 < usd then Some (py_round 1 (usd / usd_per_unit)) else Some spend
                    | Inf \<Rightarrow> None
                    | _ \<Rightarrow> Some spend)
      in \<lparr>bd_tool_calls = override overrides ''max_tool_calls'' (Some (scale_count p (base ''agent_max_tool_calls''))),
          bd_tokens = override overrides ''max_tokens'' (Some (scale_count p (base ''agent_budget_tokens_per_run''))),
          bd_active_seconds = override overrides ''max_active_seconds'' (Some (scale_amount p (base ''agent_autonomy_max_active_seconds''))),
          bd_subagents = override overrides ''max_subagents'' (Some (scale_count p (base ''agent_autonomy_max_subagents''))),
          bd_remote_spend = override overrides ''max_remote_spend'' spend',
          bd_memory_mb = override overrides ''max_memory_mb'' (Some (scale_amount p (base ''agent_autonomy_max_memory_mb'')))\<rparr>)"

section \<open>The ledger\<close>

record ledger =
  ld_tool_calls :: int
  ld_tokens :: int
  ld_active_seconds :: real
  ld_subagents :: int
  ld_remote_spend :: real
  ld_memory_mb :: real

definition new_ledger :: ledger where
  "new_ledger = \<lparr>ld_tool_calls = 0, ld_tokens = 0, ld_active_seconds = 0, ld_subagents = 0, ld_remote_spend = 0,
     ld_memory_mb = 0\<rparr>"

datatype ledger_op = AddToolCall int | AddTokens int | AddActive real | AddSubagents int | AddSpend real | SetMemory real

fun ledger_step :: "ledger_op \<Rightarrow> ledger \<Rightarrow> ledger" where
  "ledger_step (AddToolCall n) l = l\<lparr>ld_tool_calls := ld_tool_calls l + max 0 n\<rparr>"
| "ledger_step (AddTokens n) l = l\<lparr>ld_tokens := ld_tokens l + max 0 n\<rparr>"
| "ledger_step (AddActive s) l = (if 0 < s then l\<lparr>ld_active_seconds := ld_active_seconds l + s\<rparr> else l)"
| "ledger_step (AddSubagents n) l = l\<lparr>ld_subagents := ld_subagents l + max 0 n\<rparr>"
| "ledger_step (AddSpend u) l = (if 0 < u then l\<lparr>ld_remote_spend := ld_remote_spend l + u\<rparr> else l)"
| "ledger_step (SetMemory mb) l = l\<lparr>ld_memory_mb := max (ld_memory_mb l) mb\<rparr>"

datatype dimension = DToolCalls | DTokens | DActive | DSubagents | DSpend | DMemory

definition dimensions :: "dimension list" where
  "dimensions = [DToolCalls, DTokens, DActive, DSubagents, DSpend, DMemory]"

fun used :: "dimension \<Rightarrow> ledger \<Rightarrow> real" where
  "used DToolCalls l = of_int (ld_tool_calls l)"
| "used DTokens l = of_int (ld_tokens l)"
| "used DActive l = ld_active_seconds l"
| "used DSubagents l = of_int (ld_subagents l)"
| "used DSpend l = ld_remote_spend l"
| "used DMemory l = ld_memory_mb l"

fun limit_of :: "dimension \<Rightarrow> budget \<Rightarrow> real option" where
  "limit_of DToolCalls b = bd_tool_calls b"
| "limit_of DTokens b = bd_tokens b"
| "limit_of DActive b = bd_active_seconds b"
| "limit_of DSubagents b = bd_subagents b"
| "limit_of DSpend b = bd_remote_spend b"
| "limit_of DMemory b = bd_memory_mb b"

record exhausted =
  ex_kind :: dimension
  ex_used :: real
  ex_limit :: real

fun check_dims :: "dimension list \<Rightarrow> budget \<Rightarrow> ledger \<Rightarrow> exhausted option" where
  "check_dims [] b l = None"
| "check_dims (d # ds) b l =
     (case limit_of d b of
        Some x \<Rightarrow> if x \<noteq> 0 \<and> x \<le> used d l then Some \<lparr>ex_kind = d, ex_used = used d l, ex_limit = x\<rparr> else check_dims ds b l
      | None \<Rightarrow> check_dims ds b l)"

definition ledger_check :: "budget \<Rightarrow> ledger \<Rightarrow> exhausted option" where
  "ledger_check b l = check_dims dimensions b l"

definition finite_nonneg :: "pynum \<Rightarrow> real option" where
  "finite_nonneg v =
     (case v of
        PInt i \<Rightarrow> if 0 \<le> i then Some (of_int i) else None
      | PFlt x \<Rightarrow> finite_nonneg_float x
      | _ \<Rightarrow> None)"

definition spend_units_from_usd :: "pynum \<Rightarrow> real" where
  "spend_units_from_usd usd = (case finite_nonneg usd of None \<Rightarrow> 0 | Some v \<Rightarrow> v / usd_per_unit)"

definition remote_spend_units :: "bool \<Rightarrow> int \<Rightarrow> int \<Rightarrow> pynum \<Rightarrow> real" where
  "remote_spend_units tracked input_tokens output_tokens cost =
     (if \<not> tracked then 0
      else case finite_nonneg cost of
             Some c \<Rightarrow> spend_units_from_usd (PFlt (Fin c))
           | None \<Rightarrow> of_int (max 0 input_tokens + max 0 output_tokens))"

section \<open>What a check names\<close>

definition spent :: "dimension \<Rightarrow> budget \<Rightarrow> ledger \<Rightarrow> bool" where
  "spent d b l \<longleftrightarrow> (case limit_of d b of Some x \<Rightarrow> x \<noteq> 0 \<and> x \<le> used d l | None \<Rightarrow> False)"

lemma check_dims_eq:
  "check_dims ds b l =
     (case find (\<lambda>d. spent d b l) ds of None \<Rightarrow> None
      | Some d \<Rightarrow> Some \<lparr>ex_kind = d, ex_used = used d l, ex_limit = the (limit_of d b)\<rparr>)"
  by (induction ds) (auto simp: spent_def split: option.splits)

lemma check_None: "ledger_check b l = None \<longleftrightarrow> (\<forall>d. \<not> spent d b l)"
proof -
  have "d \<in> set dimensions" for d by (cases d) (simp_all add: dimensions_def)
  then show ?thesis by (auto simp: ledger_check_def check_dims_eq find_None_iff find_Some_iff split: option.splits)
qed

lemma used_mono: "used d l \<le> used d (ledger_step op l)"
  by (cases op; cases d) auto

interpretation ledger_runs: measured_system ledger_step "\<lambda>l. True" "used d"
  for d
  by unfold_locales (auto intro: used_mono)

text \<open>
  The check names exactly a reached ceiling: it reports nothing if and only if every set
  ceiling is above what was used, and otherwise a dimension that reached its ceiling, the first of
  the fixed order. Once something is exhausted no later charge, not even a negative one, makes the
  turn look affordable again.
\<close>
theorem exhaustion_is_final:
  shows "(ledger_check b l = None \<longleftrightarrow> (\<forall>d. \<not> spent d b l))
    \<and> (\<forall>e. ledger_check b l = Some e \<longrightarrow> spent (ex_kind e) b l \<and> ex_used e = used (ex_kind e) l
          \<and> limit_of (ex_kind e) b = Some (ex_limit e)
          \<and> (\<forall>d \<in> set (takeWhile (\<lambda>d. d \<noteq> ex_kind e) dimensions). \<not> spent d b l))
    \<and> (ledger_check b l \<noteq> None \<longrightarrow> ledger_check b (fold ledger_step ops l) \<noteq> None)"
proof (intro conjI allI impI ballI)
  show "ledger_check b l = None \<longleftrightarrow> (\<forall>d. \<not> spent d b l)" by (rule check_None)
  fix e assume e: "ledger_check b l = Some e"
  then obtain d where d: "find (\<lambda>d. spent d b l) dimensions = Some d"
    and e_eq: "e = \<lparr>ex_kind = d, ex_used = used d l, ex_limit = the (limit_of d b)\<rparr>"
    by (auto simp: ledger_check_def check_dims_eq split: option.splits)
  have first: "\<forall>x \<in> set (takeWhile (\<lambda>x. x \<noteq> d) ds). \<not> spent x b l" if "find (\<lambda>d. spent d b l) ds = Some d" for ds
    using that by (induction ds) (auto split: if_splits)
  have "spent d b l" using d by (auto simp: find_Some_iff)
  then show "spent (ex_kind e) b l" "ex_used e = used (ex_kind e) l" "limit_of (ex_kind e) b = Some (ex_limit e)"
    by (auto simp: e_eq spent_def split: option.splits)
  show "\<not> spent x b l" if "x \<in> set (takeWhile (\<lambda>d. d \<noteq> ex_kind e) dimensions)" for x
    using first [OF d] that by (simp add: e_eq)
next
  assume "ledger_check b l \<noteq> None"
  then obtain d where "spent d b l" using check_None by auto
  then have "spent d b (fold ledger_step ops l)"
    using ledger_runs.run_mono [of d l ops] by (auto simp: spent_def split: option.splits intro: order_trans)
  then show "ledger_check b (fold ledger_step ops l) \<noteq> None" using check_None by auto
qed

section \<open>Presets scale, and zero stays unlimited\<close>

lemma scale_zero: "0 \<le> base \<Longrightarrow> (scale_count p base = 0 \<longleftrightarrow> base = 0) \<and> (scale_amount p base = 0 \<longleftrightarrow> base = 0)"
  by (auto simp: scale_count_def scale_amount_def max_def)

lemma scale_nonneg: "0 \<le> scale_count p base" "0 \<le> scale_amount p base"
  by (auto simp: scale_count_def scale_amount_def max_def)

lemma round_even_mono: "x \<le> y \<Longrightarrow> round_even x \<le> round_even y"
proof -
  assume le: "x \<le> y"
  have fl: "\<lfloor>x\<rfloor> \<le> \<lfloor>y\<rfloor>" using le by (rule floor_mono)
  show ?thesis
  proof (cases "\<lfloor>x\<rfloor> = \<lfloor>y\<rfloor>")
    case True
    with le show ?thesis by (auto simp: round_even_def Let_def)
  next
    case False
    with fl have "\<lfloor>x\<rfloor> + 1 \<le> \<lfloor>y\<rfloor>" by simp
    then show ?thesis by (auto simp: round_even_def Let_def)
  qed
qed

lemma py_round_mono: "x \<le> y \<Longrightarrow> py_round d x \<le> py_round d y"
  by (auto simp: py_round_def intro!: divide_right_mono round_even_mono mult_right_mono)

lemma scale_mono:
  assumes "0 \<le> base" "multiplier p \<le> multiplier q"
  shows "scale_count p base \<le> scale_count q base" and "scale_amount p base \<le> scale_amount q base"
  using assms round_even_mono [of "base * multiplier p" "base * multiplier q"]
    py_round_mono [of "base * multiplier p" "base * multiplier q" 1]
  by (auto simp: scale_count_def scale_amount_def mult_left_mono max_def)

lemma base_nonneg: "0 \<le> fallback \<Longrightarrow> 0 \<le> base_from_setting parse key fallback g"
  by (auto simp: base_from_setting_def finite_nonneg_float_def split: option.splits sum.splits pyfloat.splits if_splits)

lemma multiplier_order: "multiplier ReadOnly \<le> multiplier Supervised" "multiplier Supervised \<le> multiplier BoundedAutonomous"
  by simp_all

fun setting_key :: "dimension \<Rightarrow> string" where
  "setting_key DToolCalls = ''agent_max_tool_calls''"
| "setting_key DTokens = ''agent_budget_tokens_per_run''"
| "setting_key DActive = ''agent_autonomy_max_active_seconds''"
| "setting_key DSubagents = ''agent_autonomy_max_subagents''"
| "setting_key DSpend = ''agent_autonomy_max_remote_spend''"
| "setting_key DMemory = ''agent_autonomy_max_memory_mb''"

text \<open>
  Without overrides, a preset never turns a limit off or on: the tool-call, token, time,
  sub-agent and memory ceilings are 0 (unlimited) exactly when the setting is, for every preset,
  and \<open>read_only\<close> allows at most what \<open>supervised\<close> allows, which is at most what
  \<open>bounded_autonomous\<close> allows.
\<close>
theorem presets_scale_limits:
  assumes "d \<noteq> DSpend" and "base = base_from_setting parse (setting_key d) 0 g"
  shows "\<exists>x y z. limit_of d (resolve_budget parse (Some ''read_only'') g []) = Some x
    \<and> limit_of d (resolve_budget parse (Some ''supervised'') g []) = Some y
    \<and> limit_of d (resolve_budget parse (Some ''bounded_autonomous'') g []) = Some z
    \<and> 0 \<le> x \<and> x \<le> y \<and> y \<le> z \<and> (x = 0 \<longleftrightarrow> base = 0) \<and> (y = 0 \<longleftrightarrow> base = 0) \<and> (z = 0 \<longleftrightarrow> base = 0)"
proof -
  have names: "normalize_preset (Some ''read_only'') = ReadOnly" "normalize_preset (Some ''supervised'') = Supervised"
    "normalize_preset (Some ''bounded_autonomous'') = BoundedAutonomous"
    by code_simp+
  have ov: "override [] k v = v" for k v by (simp add: override_def)
  define f where "f = (if d \<in> {DToolCalls, DTokens, DSubagents} then scale_count else scale_amount)"
  have lim: "limit_of d (resolve_budget parse (Some name) g []) = Some (f (normalize_preset (Some name)) base)" for name
    using assms by (cases d) (simp_all add: resolve_budget_def Let_def ov f_def)
  have b: "0 \<le> base" unfolding assms(2) by (rule base_nonneg) simp
  have z: "f p base = 0 \<longleftrightarrow> base = 0" and n: "0 \<le> f p base" for p
    using scale_zero [OF b] scale_nonneg [of p base] by (simp_all add: f_def)
  have m: "f ReadOnly base \<le> f Supervised base" "f Supervised base \<le> f BoundedAutonomous base"
    unfolding f_def using scale_mono [OF b multiplier_order(1)] scale_mono [OF b multiplier_order(2)] by simp_all
  show ?thesis by (simp add: lim names m z n)
qed

text \<open>
  A dollar ceiling for the turn that is positive but below a ten-millionth of a dollar rounds
  to 0 spend units, which the check reads as no ceiling at all: then no amount of spend exhausts
  the turn.
\<close>
theorem tiny_dollar_ceiling_is_unlimited:
  assumes "turn_usd parse g = Fin usd" "0 < usd" "usd < 1 / 10000000"
  shows "limit_of DSpend (resolve_budget parse p g []) = Some 0
    \<and> \<not> spent DSpend (resolve_budget parse p g []) l"
proof -
  have small: "round_even y = 0" if "0 < y" "y < 1 / 2" for y :: real
  proof -
    have "\<lfloor>y\<rfloor> = 0" using that by linarith
    with that show ?thesis by (simp add: round_even_def)
  qed
  have "round_even (usd / usd_per_unit * 10) = 0"
    using assms(2,3) by (intro small) (simp_all add: usd_per_unit_def)
  then have "py_round 1 (usd / usd_per_unit) = 0" by (simp add: py_round_def)
  then show ?thesis using assms(1,2) by (simp add: resolve_budget_def Let_def override_def spent_def)
qed

section \<open>Concrete runs\<close>

theorem presets_scale_limits_witness:
  "\<exists>x y. limit_of DTokens (resolve_budget (\<lambda>s. None) (Some ''read_only'') (Some (\<lambda>k d. PInt 10)) []) = Some x
    \<and> limit_of DTokens (resolve_budget (\<lambda>s. None) (Some ''supervised'') (Some (\<lambda>k d. PInt 10)) []) = Some y \<and> x \<le> y"
  using presets_scale_limits [OF _ refl, of DTokens "\<lambda>s. None" "Some (\<lambda>k d. PInt 10)"] by auto

theorem tiny_dollar_ceiling_is_unlimited_witness:
  "limit_of DSpend (resolve_budget (\<lambda>s. None) None (Some (\<lambda>k d. PFlt (Fin (1 / 20000000)))) []) = Some 0"
  using tiny_dollar_ceiling_is_unlimited [of "\<lambda>s. None" "Some (\<lambda>k d. PFlt (Fin (1 / 20000000)))" "1 / 20000000" None new_ledger]
  by (simp add: turn_usd_def)

theorem exhaustion_is_final_witness:
  "ledger_check (resolve_budget (\<lambda>s. None) None None [(''max_tokens'', Some 5)]) (fold ledger_step [AddTokens 7, AddTokens (- 9)] new_ledger) \<noteq> None"
proof -
  have "ledger_check (resolve_budget (\<lambda>s. None) None None [(''max_tokens'', Some 5)]) (ledger_step (AddTokens 7) new_ledger) \<noteq> None"
    by (simp add: ledger_check_def dimensions_def resolve_budget_def Let_def override_def new_ledger_def scale_count_def
        base_from_setting_def)
  then show ?thesis
    using exhaustion_is_final [of "resolve_budget (\<lambda>s. None) None None [(''max_tokens'', Some 5)]"
        "ledger_step (AddTokens 7) new_ledger" "[AddTokens (- 9)]"] unfolding fold_simps by blast
qed

end
