(* ===== verification/Unattended_Breaker.thy ===== *)
theory Unattended_Breaker
  imports Prelude
begin

text \<open>
  Guards of unattended work, \<open>src/unattended_breaker.py\<close>: the cooldown of rate-limited providers
  and the failure breaker. The clock, the settings, the URL parser, the credential digest and the
  test for a local endpoint are arguments; persistence of the breaker's state is left out (the
  state in memory is authoritative once loaded). A notification is counted, not sent.

  Times are reals. Python's truth test of an optional time (\<open>None\<close> and 0.0 are false) is \<open>truthy\<close>.
\<close>

section \<open>Provider cooldowns\<close>

record cooldown =
  cd_status :: int
  cd_since :: real
  cd_until :: real
  cd_retry_after :: "pyfloat option"
  cd_honoured :: bool
  cd_hits :: nat
  cd_credential :: string

type_synonym cooldowns = "(string, cooldown) dict"

definition cooldown_statuses :: "int list" where
  "cooldown_statuses = [429, 529]"

definition min_cooldown :: real where "min_cooldown = 1"
definition max_cooldown :: real where "max_cooldown = 86400"

text \<open>\<open>parse\<close> is the URL parser: host name and port.\<close>

definition endpoint_key :: "(string \<Rightarrow> string option \<times> nat option) \<Rightarrow> string \<Rightarrow> string" where
  "endpoint_key parse url =
     (let text = py_strip url;
          (hostname, port) = parse (if contains text ''://'' then text else ''//'' @ text);
          host = py_lower (case hostname of None \<Rightarrow> [] | Some h \<Rightarrow> h)
      in case port of
           None \<Rightarrow> host
         | Some p \<Rightarrow> if p \<noteq> 0 \<and> p \<noteq> 80 \<and> p \<noteq> 443 then host @ '':'' @ str_nat p else host)"

definition credential_headers :: "string list" where
  "credential_headers = [''Authorization'', ''authorization'', ''x-api-key'', ''X-Api-Key'', ''api-key'']"

definition credential_fingerprint :: "(string \<Rightarrow> string) \<Rightarrow> (string, string) dict option \<Rightarrow> string" where
  "credential_fingerprint digest headers =
     (case headers of
        None \<Rightarrow> []
      | Some hs \<Rightarrow>
          (case find (\<lambda>name. dget_or hs name [] \<noteq> []) credential_headers of
             None \<Rightarrow> [] | Some name \<Rightarrow> take 8 (digest (dget_or hs name []))))"

text \<open>\<open>ra\<close> is the answer's Retry-After, given or parsed; it is never NaN.\<close>

definition cooldown_seconds :: "int \<Rightarrow> int option \<Rightarrow> pyfloat option \<Rightarrow> pyfloat option" where
  "cooldown_seconds default_min status ra =
     (case status of
        None \<Rightarrow> None
      | Some s \<Rightarrow>
          if s \<notin> set cooldown_statuses \<and> \<not> (s = 503 \<and> ra \<noteq> None) then None
          else case ra of
                 Some seconds \<Rightarrow> Some (py_min (py_max seconds (Fin min_cooldown)) (Fin max_cooldown))
               | None \<Rightarrow>
                   if default_min \<le> 0 then None
                   else Some (py_min (py_max (Fin (of_int default_min * 60)) (Fin min_cooldown)) (Fin max_cooldown)))"

definition round1 :: "pyfloat \<Rightarrow> pyfloat" where
  "round1 x = (case x of Fin r \<Rightarrow> Fin (py_round 1 r) | y \<Rightarrow> y)"

definition note_status ::
  "(string \<Rightarrow> string option \<times> nat option) \<Rightarrow> (string \<Rightarrow> bool) \<Rightarrow> (string \<Rightarrow> string) \<Rightarrow> int \<Rightarrow> string \<Rightarrow> int option
     \<Rightarrow> pyfloat option \<Rightarrow> (string, string) dict option \<Rightarrow> real \<Rightarrow> cooldowns \<Rightarrow> cooldown option \<times> cooldowns" where
  "note_status parse is_local digest default_min url status ra request_headers now cds =
     (if url = [] \<or> is_local url then (None, cds)
      else case (status, cooldown_seconds default_min status ra) of
        (Some s, Some (Fin seconds)) \<Rightarrow>
          (let key = endpoint_key parse url
           in if key = [] then (None, cds)
              else
                let prev = dget cds key;
                    active = (case prev of None \<Rightarrow> False | Some p \<Rightarrow> now < cd_until p);
                    entry =
                      \<lparr>cd_status = s,
                       cd_since = (case prev of Some p \<Rightarrow> if active then cd_since p else now | None \<Rightarrow> now),
                       cd_until = (case prev of Some p \<Rightarrow> if active then max (now + seconds) (cd_until p) else now + seconds
                                   | None \<Rightarrow> now + seconds),
                       cd_retry_after = map_option round1 ra, cd_honoured = (ra \<noteq> None),
                       cd_hits = (case prev of Some p \<Rightarrow> if active then cd_hits p + 1 else 1 | None \<Rightarrow> 1),
                       cd_credential = credential_fingerprint digest request_headers\<rparr>
                in (Some entry, dset key entry cds))
      | _ \<Rightarrow> (None, cds))"

text \<open>The status a streaming attempt leaves for its call's trace record, and who takes it.\<close>

definition note_pending_status :: "int option \<Rightarrow> pyfloat option \<Rightarrow> (int \<times> pyfloat option) option \<Rightarrow> (int \<times> pyfloat option) option" where
  "note_pending_status status ra pending =
     (case status of
        Some s \<Rightarrow> if s \<in> set cooldown_statuses \<or> (s = 503 \<and> ra \<noteq> None) then Some (s, ra) else pending
      | None \<Rightarrow> pending)"

definition take_pending_status :: "(int \<times> pyfloat option) option \<Rightarrow> (int \<times> pyfloat option) option \<times> (int \<times> pyfloat option) option" where
  "take_pending_status pending = (pending, None)"

definition cooldown_for ::
  "(string \<Rightarrow> string option \<times> nat option) \<Rightarrow> (string \<Rightarrow> string) \<Rightarrow> string \<Rightarrow> (string, string) dict option \<Rightarrow> real
     \<Rightarrow> cooldowns \<Rightarrow> cooldown option \<times> cooldowns" where
  "cooldown_for parse digest url headers now cds =
     (let key = endpoint_key parse url
      in case dget cds key of
           None \<Rightarrow> (None, cds)
         | Some entry \<Rightarrow>
             if cd_until entry \<le> now then (None, dpop key cds)
             else
               let mine = credential_fingerprint digest headers; theirs = cd_credential entry
               in if mine \<noteq> [] \<and> theirs \<noteq> [] \<and> mine \<noteq> theirs then (None, cds) else (Some entry, cds))"

text \<open>The candidates of a fallback chain: URL and headers; \<open>keep_scan\<close> says which are not cooled.\<close>

type_synonym candidate = "string \<times> (string, string) dict option"

fun keep_scan ::
  "(string \<Rightarrow> string option \<times> nat option) \<Rightarrow> (string \<Rightarrow> string) \<Rightarrow> real \<Rightarrow> candidate list \<Rightarrow> cooldowns
     \<Rightarrow> bool list \<times> cooldowns" where
  "keep_scan parse digest now [] cds = ([], cds)"
| "keep_scan parse digest now ((url, headers) # cs) cds =
     (let (hit, cds1) = cooldown_for parse digest url headers now cds;
          (flags, cds2) = keep_scan parse digest now cs cds1
      in ((hit = None) # flags, cds2))"

definition select :: "bool list \<Rightarrow> 'a list \<Rightarrow> 'a list" where
  "select flags xs = map snd (filter fst (zip flags xs))"

definition filter_candidates ::
  "(string \<Rightarrow> string option \<times> nat option) \<Rightarrow> (string \<Rightarrow> string) \<Rightarrow> candidate list \<Rightarrow> 'd list option \<Rightarrow> real \<Rightarrow> cooldowns
     \<Rightarrow> candidate list \<times> 'd list option \<times> cooldowns" where
  "filter_candidates parse digest cands descs now cds =
     (let (flags, cds') = keep_scan parse digest now cands cds
      in if True \<in> set flags \<and> False \<in> set flags
         then (select flags cands, map_option (select flags) descs, cds')
         else (cands, descs, cds'))"

definition list_cooldowns :: "real \<Rightarrow> cooldowns \<Rightarrow> (string \<times> cooldown \<times> real) list \<times> cooldowns" where
  "list_cooldowns now cds =
     (let live = filter (\<lambda>(k, e). now < cd_until e) cds
      in (map (\<lambda>(k, e). (k, e, py_round 1 (cd_until e - now))) (sort_key (\<lambda>(k, e). cd_until e) live), live))"

definition clear_cooldown :: "(string \<Rightarrow> string option \<times> nat option) \<Rightarrow> string option \<Rightarrow> cooldowns \<Rightarrow> nat \<times> cooldowns" where
  "clear_cooldown parse endpoint cds =
     (case endpoint of
        Some (c # cs) \<Rightarrow>
          (let host = endpoint_key parse (c # cs); key = (if host = [] then py_lower (c # cs) else host)
           in (if dget cds key = None then 0 else 1, dpop key cds))
      | _ \<Rightarrow> (length cds, []))"

section \<open>The breaker\<close>

record breaker_settings =
  bs_failures :: int
  bs_cooldown_min :: int

definition threshold :: "breaker_settings \<Rightarrow> int" where
  "threshold s = max 0 (bs_failures s)"

definition cooldown_minutes :: "breaker_settings \<Rightarrow> int" where
  "cooldown_minutes s = max 1 (bs_cooldown_min s)"

record breaker =
  bk_consecutive :: int
  bk_open_since :: "real option"
  bk_open_until :: "real option"
  bk_opened :: int
  bk_last_failure :: "(string \<times> real \<times> string) option"
  bk_last_success :: "(string \<times> real) option"
  bk_auto_closed_at :: "real option"
  bk_reset_at :: "real option"
  bk_notified :: bool
  bk_notices :: nat

definition new_breaker :: breaker where
  "new_breaker = \<lparr>bk_consecutive = 0, bk_open_since = None, bk_open_until = None, bk_opened = 0, bk_last_failure = None,
     bk_last_success = None, bk_auto_closed_at = None, bk_reset_at = None, bk_notified = False, bk_notices = 0\<rparr>"

definition truthy :: "real option \<Rightarrow> bool" where
  "truthy t \<longleftrightarrow> (case t of None \<Rightarrow> False | Some x \<Rightarrow> x \<noteq> 0)"

definition bk_tick :: "real \<Rightarrow> breaker \<Rightarrow> breaker" where
  "bk_tick now b =
     (if truthy (bk_open_since b) \<and> truthy (bk_open_until b) \<and> the (bk_open_until b) \<le> now
      then b\<lparr>bk_open_since := None, bk_open_until := None, bk_consecutive := 0, bk_auto_closed_at := Some now,
             bk_notified := False\<rparr>
      else b)"

definition notify_open :: "breaker \<Rightarrow> breaker" where
  "notify_open b = (if bk_notified b then b else b\<lparr>bk_notified := True, bk_notices := bk_notices b + 1\<rparr>)"

definition bk_record :: "breaker_settings \<Rightarrow> string \<Rightarrow> bool \<Rightarrow> string \<Rightarrow> real \<Rightarrow> breaker \<Rightarrow> breaker" where
  "bk_record s kind ok detail now b0 =
     (let b = bk_tick now b0
      in if ok then b\<lparr>bk_consecutive := 0, bk_last_success := Some (kind, now)\<rparr>
         else
           let n = bk_consecutive b + 1;
               b1 = b\<lparr>bk_consecutive := n, bk_last_failure := Some (kind, now, take 300 detail)\<rparr>
           in if 0 < threshold s \<and> threshold s \<le> n \<and> \<not> truthy (bk_open_since b1)
              then notify_open (b1\<lparr>bk_open_since := Some now,
                     bk_open_until := Some (now + of_int (cooldown_minutes s) * 60), bk_opened := bk_opened b1 + 1\<rparr>)
              else b1)"

definition bk_open_at :: "breaker_settings \<Rightarrow> real \<Rightarrow> breaker \<Rightarrow> real option \<times> breaker" where
  "bk_open_at s now b0 =
     (let b = bk_tick now b0
      in (if truthy (bk_open_since b) \<and> 0 < threshold s
          then Some (if truthy (bk_open_until b) then the (bk_open_until b) else now + 60) else None, b))"

definition bk_is_open :: "breaker_settings \<Rightarrow> real \<Rightarrow> breaker \<Rightarrow> bool \<times> breaker" where
  "bk_is_open s now b = (let (u, b') = bk_open_at s now b in (u \<noteq> None, b'))"

record breaker_answer =
  an_pause_until :: real
  an_retry_after :: real
  an_failures :: int

definition bk_check :: "breaker_settings \<Rightarrow> real \<Rightarrow> breaker \<Rightarrow> breaker_answer option \<times> breaker" where
  "bk_check s now b0 =
     (case bk_open_at s now b0 of
        (None, b) \<Rightarrow> (None, b)
      | (Some until, b) \<Rightarrow>
          (Some \<lparr>an_pause_until = until, an_retry_after = max 1 (py_round 1 (until - now)), an_failures = bk_consecutive b\<rparr>, b))"

definition bk_reset :: "real \<Rightarrow> breaker \<Rightarrow> breaker" where
  "bk_reset now b =
     b\<lparr>bk_open_since := None, bk_open_until := None, bk_consecutive := 0, bk_reset_at := Some now, bk_notified := False\<rparr>"

record breaker_status =
  bt_enabled :: bool
  bt_threshold :: int
  bt_open :: bool
  bt_failures :: int
  bt_open_since :: "real option"
  bt_pause_until :: "real option"
  bt_opened :: int

definition bk_status :: "breaker_settings \<Rightarrow> real \<Rightarrow> breaker \<Rightarrow> breaker_status \<times> breaker" where
  "bk_status s now b0 =
     (let (until, b) = bk_open_at s now b0
      in (\<lparr>bt_enabled = (0 < threshold s), bt_threshold = threshold s, bt_open = (until \<noteq> None),
           bt_failures = bk_consecutive b, bt_open_since = (if until \<noteq> None then bk_open_since b else None),
           bt_pause_until = until, bt_opened = bk_opened b\<rparr>, b))"

datatype breaker_op = BRecord string bool string real | BCheck real | BStatus real

fun breaker_step :: "breaker_settings \<Rightarrow> breaker_op \<Rightarrow> breaker \<Rightarrow> breaker" where
  "breaker_step s (BRecord kind ok detail now) b = bk_record s kind ok detail now b"
| "breaker_step s (BCheck now) b = snd (bk_check s now b)"
| "breaker_step s (BStatus now) b = snd (bk_status s now b)"

fun op_time :: "breaker_op \<Rightarrow> real" where
  "op_time (BRecord kind ok detail now) = now" | "op_time (BCheck now) = now" | "op_time (BStatus now) = now"

section \<open>An open breaker stays open for its window\<close>

definition open_for :: "real \<Rightarrow> breaker \<Rightarrow> bool" where
  "open_for until b \<longleftrightarrow> truthy (bk_open_since b) \<and> bk_open_until b = Some until \<and> until \<noteq> 0"

lemma tick_open: "open_for until b \<Longrightarrow> now < until \<Longrightarrow> bk_tick now b = b"
  by (simp add: open_for_def bk_tick_def)

lemma step_open: "open_for until b \<Longrightarrow> op_time op < until \<Longrightarrow> open_for until (breaker_step s op b)"
  by (cases op)
     (auto simp: bk_record_def bk_check_def bk_status_def bk_open_at_def Let_def tick_open open_for_def
       split: option.splits prod.splits)

lemma run_open:
  "open_for until b \<Longrightarrow> \<forall>op \<in> set ops. op_time op < until \<Longrightarrow> open_for until (fold (breaker_step s) ops b)"
  by (induction ops arbitrary: b) (simp_all add: step_open)

text \<open>
  When the failure that reaches the threshold is booked at time \<open>t\<close> and the breaker was not
  open, no unattended run may start in the whole window of \<open>cooldown_minutes\<close>: whatever is booked,
  checked or asked in between, successes included, every check before the window's end answers with
  that end; the first check from then on lets work start and the run of failures is forgotten.
\<close>
theorem breaker_pauses_for_its_window:
  assumes "0 < threshold s" and "0 < t" and "\<not> truthy (bk_open_since (bk_tick t b))"
    and "threshold s \<le> bk_consecutive (bk_tick t b) + 1"
    and "until = t + of_int (cooldown_minutes s) * 60"
    and "\<forall>op \<in> set ops. op_time op < until"
    and "b' = fold (breaker_step s) ops (bk_record s kind False detail t b)"
  shows "(if now < until then fst (bk_open_at s now b') = Some until
          else fst (bk_check s now b') = None \<and> bk_consecutive (snd (bk_check s now b')) = 0)"
proof -
  have u: "until \<noteq> 0" "t \<noteq> 0" using assms(2,5) by (simp_all add: cooldown_minutes_def)
  have "open_for until (bk_record s kind False detail t b)"
    using assms(1,3,4,5) u by (simp add: bk_record_def Let_def notify_open_def open_for_def truthy_def)
  then have open_b: "open_for until b'" unfolding assms(7) using assms(6) by (rule run_open)
  show ?thesis
  proof (cases "now < until")
    case True
    then show ?thesis using open_b assms(1) u(1) by (simp add: bk_open_at_def tick_open Let_def) (simp add: open_for_def truthy_def)
  next
    case False
    then have "bk_tick now b' = b'\<lparr>bk_open_since := None, bk_open_until := None, bk_consecutive := 0, bk_auto_closed_at := Some now,
             bk_notified := False\<rparr>"
      using open_b u(1) by (simp add: bk_tick_def open_for_def truthy_def)
    with False show ?thesis by (simp add: bk_check_def bk_open_at_def Let_def truthy_def)
  qed
qed

section \<open>Fallback chains\<close>

text \<open>Is the candidate cooled down at \<open>now\<close>?\<close>

definition cooled :: "(string \<Rightarrow> string option \<times> nat option) \<Rightarrow> (string \<Rightarrow> string) \<Rightarrow> real \<Rightarrow> cooldowns \<Rightarrow> candidate \<Rightarrow> bool" where
  "cooled parse digest now cds c \<longleftrightarrow> fst (cooldown_for parse digest (fst c) (snd c) now cds) \<noteq> None"

lemma cooled_after:
  "cooled parse digest now (snd (cooldown_for parse digest url headers now cds)) c = cooled parse digest now cds c"
  by (auto simp: cooled_def cooldown_for_def Let_def dget_dpop split: option.splits)

lemma keep_scan_flags:
  "fst (keep_scan parse digest now cs cds) = map (\<lambda>c. \<not> cooled parse digest now cds c) cs"
proof (induction cs arbitrary: cds)
  case (Cons c cs)
  obtain url headers where c: "c = (url, headers)" by (cases c)
  obtain hit cds1 where h: "cooldown_for parse digest url headers now cds = (hit, cds1)" by fastforce
  have "cooled parse digest now cds1 x = cooled parse digest now cds x" for x
    using cooled_after [of parse digest now url headers cds x] h by simp
  then show ?case using Cons.IH [of cds1] h by (auto simp: c cooled_def split: prod.splits)
qed simp

lemma select_map: "select (map P xs) xs = filter P xs"
  by (induction xs) (auto simp: select_def)

lemma select_zip: "length flags = length xs \<Longrightarrow> length ys = length xs \<Longrightarrow> zip (select flags xs) (select flags ys) = select flags (zip xs ys)"
proof (induction flags arbitrary: xs ys)
  case (Cons f flags)
  then obtain x xs' y ys' where "xs = x # xs'" "ys = y # ys'" by (metis length_Suc_conv)
  with Cons show ?case by (auto simp: select_def)
qed (simp add: select_def)

text \<open>
  A fallback chain is never emptied and never reordered: when some candidate is not cooled
  down, exactly the cooled ones are dropped; when all of them are, the chain is returned as it was.
  The descriptors stay paired with their candidates.
\<close>
theorem fallback_chain_keeps_a_candidate:
  assumes "filter_candidates parse digest cands (Some descs) now cds = (cands', Some descs', cds')"
    and "length descs = length cands"
  shows "cands' = (if \<forall>c \<in> set cands. cooled parse digest now cds c then cands
                   else filter (\<lambda>c. \<not> cooled parse digest now cds c) cands)
    \<and> (cands \<noteq> [] \<longrightarrow> cands' \<noteq> [])
    \<and> zip cands' descs' = (if \<forall>c \<in> set cands. cooled parse digest now cds c then zip cands descs
                   else filter (\<lambda>(c, d). \<not> cooled parse digest now cds c) (zip cands descs))"
proof -
  let ?P = "\<lambda>c. \<not> cooled parse digest now cds c"
  obtain flags v where f: "keep_scan parse digest now cands cds = (flags, v)" by fastforce
  then have flags: "flags = map ?P cands" using keep_scan_flags [of parse digest now cands cds] by simp
  have sel: "select flags cands = filter ?P cands" "select flags (zip cands descs) = filter (\<lambda>(c, d). ?P c) (zip cands descs)"
  proof -
    show "select flags cands = filter ?P cands" unfolding flags by (rule select_map)
    have "flags = map (\<lambda>(c, d). ?P c) (zip cands descs)"
    proof -
      have "map (\<lambda>(c, d). ?P c) (zip cands descs) = map ?P (map fst (zip cands descs))" by (simp add: split_def)
      with assms(2) show ?thesis by (simp add: flags map_fst_zip)
    qed
    then show "select flags (zip cands descs) = filter (\<lambda>(c, d). ?P c) (zip cands descs)" by (simp add: select_map)
  qed
  have zs: "zip (select flags cands) (select flags descs) = select flags (zip cands descs)"
    by (rule select_zip) (simp_all add: flags assms(2))
  consider (all) "\<forall>c \<in> set cands. ?P c" | (none) "\<forall>c \<in> set cands. \<not> ?P c" | (mixed) "True \<in> set flags" "False \<in> set flags"
    unfolding flags by auto
  then show ?thesis
  proof cases
    case all
    have "\<not> (True \<in> set flags \<and> False \<in> set flags)" using all unfolding flags by auto
    then have r: "cands' = cands" "descs' = descs" using assms(1) f by (auto simp: filter_candidates_def)
    have fa: "filter ?P cands = cands" using all by (simp add: filter_id_conv)
    have "\<forall>x \<in> set (zip cands descs). (\<lambda>(c, d). ?P c) x" using all by (auto dest: set_zip_leftD)
    then have "filter (\<lambda>(c, d). ?P c) (zip cands descs) = zip cands descs" by (simp add: filter_id_conv)
    with r fa show ?thesis by simp
  next
    case none
    then have "\<not> (True \<in> set flags \<and> False \<in> set flags)" unfolding flags by auto
    then have r: "cands' = cands" "descs' = descs" using assms(1) f by (auto simp: filter_candidates_def)
    with none show ?thesis by auto
  next
    case mixed
    then have r: "cands' = select flags cands" "descs' = select flags descs"
      using assms(1) f by (auto simp: filter_candidates_def)
    obtain c where "c \<in> set cands" "?P c" using mixed(1) unfolding flags by auto
    then have "\<not> (\<forall>c \<in> set cands. cooled parse digest now cds c)" "filter ?P cands \<noteq> []" by (auto simp: filter_empty_conv)
    with r sel zs show ?thesis by auto
  qed
qed

section \<open>Cooldowns\<close>

lemma cooldown_seconds_range:
  "cooldown_seconds m st ra = Some (Fin x) \<Longrightarrow> min_cooldown \<le> x \<and> x \<le> max_cooldown"
  by (auto simp: cooldown_seconds_def py_min_def py_max_def min_cooldown_def max_cooldown_def
      split: option.splits if_splits; cases ra; auto)

text \<open>
  A noted rate-limit answer covers its endpoint from that moment for between one second and
  one day, however extreme its Retry-After is: until then, a look-up with no credential, or with
  the credential that was limited, finds the endpoint cooled; an answer that arrives while the
  endpoint is cooled never shortens the cooldown.
\<close>
theorem noted_limit_cools_endpoint:
  assumes "note_status parse is_local digest m url st ra hdrs t cds = (Some e, cds')"
  shows "t + min_cooldown \<le> cd_until e
    \<and> (\<forall>old. dget cds (endpoint_key parse url) = Some old \<longrightarrow> t < cd_until old \<longrightarrow> cd_until old \<le> cd_until e)
    \<and> (\<not> (\<exists>old. dget cds (endpoint_key parse url) = Some old \<and> t < cd_until old) \<longrightarrow> cd_until e \<le> t + max_cooldown)
    \<and> (\<forall>now creds. now < cd_until e \<and> (credential_fingerprint digest creds = [] \<or>
            credential_fingerprint digest creds = credential_fingerprint digest hdrs) \<longrightarrow>
          fst (cooldown_for parse digest url creds now cds') = Some e)"
proof -
  obtain s x where sx: "st = Some s" "cooldown_seconds m st ra = Some (Fin x)"
    using assms by (auto simp: note_status_def split: if_splits option.splits pyfloat.splits)
  note r = cooldown_seconds_range [OF sx(2)]
  have e: "cds' = dset (endpoint_key parse url) e cds" "cd_credential e = credential_fingerprint digest hdrs"
    "cd_until e = (case dget cds (endpoint_key parse url) of
        Some p \<Rightarrow> if t < cd_until p then max (t + x) (cd_until p) else t + x | None \<Rightarrow> t + x)"
    using assms sx by (auto simp: note_status_def Let_def split: if_splits option.splits)
  have "fst (cooldown_for parse digest url creds now cds') = Some e"
    if "now < cd_until e" "credential_fingerprint digest creds = [] \<or> credential_fingerprint digest creds = credential_fingerprint digest hdrs"
    for now creds
    using that e(1,2) by (auto simp: cooldown_for_def Let_def)
  with r e(3) show ?thesis by (auto simp: max_def split: option.splits if_splits)
qed

text \<open>
  A host keeps one entry, with the credential of the last answer: once a second credential is
  limited at the same host, the first one's cooldown is no longer found.
\<close>

lemma second_credential_hides_first:
  assumes "note_status parse is_local digest m url st ra hdrs t cds = (Some e, cds')"
    and "credential_fingerprint digest creds \<noteq> []" "credential_fingerprint digest hdrs \<noteq> []"
    and "credential_fingerprint digest creds \<noteq> credential_fingerprint digest hdrs"
  shows "fst (cooldown_for parse digest url creds now cds') = None"
proof -
  have "cds' = dset (endpoint_key parse url) e cds" "cd_credential e = credential_fingerprint digest hdrs"
    using assms(1) by (auto simp: note_status_def Let_def split: if_splits option.splits pyfloat.splits)
  with assms(2-4) show ?thesis by (simp add: cooldown_for_def Let_def)
qed

section \<open>Concrete runs\<close>

definition demo_settings :: breaker_settings where
  "demo_settings = \<lparr>bs_failures = 1, bs_cooldown_min = 30\<rparr>"

theorem breaker_pauses_for_its_window_witness:
  "fst (bk_open_at demo_settings 500 (fold (breaker_step demo_settings) [BRecord ''dispatch'' True [] 200]
     (bk_record demo_settings ''dispatch'' False [] 100 new_breaker))) = Some 1900"
  using breaker_pauses_for_its_window [of demo_settings 100 new_breaker 1900 "[BRecord ''dispatch'' True [] 200]" _ "''dispatch''" "[]" 500,
      OF _ _ _ _ _ _ refl]
  by (simp add: demo_settings_def threshold_def cooldown_minutes_def bk_tick_def new_breaker_def truthy_def)

definition demo_parse :: "string \<Rightarrow> string option \<times> nat option" where
  "demo_parse u = (Some u, None)"

theorem fallback_chain_keeps_a_candidate_witness:
  "fst (filter_candidates demo_parse (\<lambda>x. x) [(''a'', None), (''b'', None)] (Some [1::nat, 2]) 5 []) \<noteq> []"
proof -
  obtain c d v where r: "filter_candidates demo_parse (\<lambda>x. x) [(''a'', None), (''b'', None)] (Some [1::nat, 2]) 5 [] = (c, Some d, v)"
    by (cases "filter_candidates demo_parse (\<lambda>x. x) [(''a'', None), (''b'', None)] (Some [1::nat, 2]) 5 []")
       (auto simp: filter_candidates_def split: prod.splits if_splits)
  from fallback_chain_keeps_a_candidate [OF r] have "c \<noteq> []" by simp
  with r show ?thesis by simp
qed

theorem noted_limit_cools_endpoint_witness:
  "\<exists>e cds'. note_status demo_parse (\<lambda>u. False) (\<lambda>x. x) 15 ''api'' (Some 429) None None 100 [] = (Some e, cds')
     \<and> fst (cooldown_for demo_parse (\<lambda>x. x) ''api'' None 100 cds') = Some e"
proof -
  have k: "endpoint_key demo_parse ''api'' = ''//api''"
    by code_simp
  obtain e cds' where r: "note_status demo_parse (\<lambda>u. False) (\<lambda>x. x) 15 ''api'' (Some 429) None None 100 [] = (Some e, cds')"
    by (simp add: note_status_def cooldown_seconds_def cooldown_statuses_def Let_def k py_min_def py_max_def min_cooldown_def max_cooldown_def)
  from noted_limit_cools_endpoint [OF r]
  have "100 + min_cooldown \<le> cd_until e" "\<And>now creds. now < cd_until e \<Longrightarrow> credential_fingerprint (\<lambda>x. x) creds = [] \<Longrightarrow>
      fst (cooldown_for demo_parse (\<lambda>x. x) ''api'' creds now cds') = Some e" by blast+
  then have "fst (cooldown_for demo_parse (\<lambda>x. x) ''api'' None 100 cds') = Some e"
    by (simp add: min_cooldown_def credential_fingerprint_def)
  with r show ?thesis by blast
qed

end
