(* ===== verification/Approvals.thy ===== *)
theory Approvals
  imports Prelude "HOL-Library.List_Lexorder" "HOL-Library.Char_ord"
begin

text \<open>
  Approvals, \<open>src/approval_store.py\<close> over \<open>src/contracts/approval.py\<close>: what a card covers, issuing,
  deciding, revoking and expiring cards, and spending them by compare-and-swap.

  The table is a dictionary from ids to rows. Where the code reads a row in one statement and
  writes in another, what other sessions did in between is an argument \<open>env\<close>, any function on the
  table. Timestamps, fixed-width ISO strings in the code, are integers; an absent owner is the
  empty string. The fingerprint of a plan is the function \<open>fp\<close>; a plan is stored parsed.
\<close>

section \<open>Plans and what a card covers\<close>

record plan =
  pl_action :: string
  pl_skill_id :: string
  pl_skill_version :: string
  pl_backend :: string
  pl_recipients :: "string list"
  pl_cost_units :: "nat option"
  pl_secret_names :: "string list"
  pl_permissions :: "(string, string) dict"
  pl_output_kinds :: "string list"
  pl_detail :: string

text \<open>Python compares dictionaries without their order.\<close>

definition same_dict :: "('k, 'v) dict \<Rightarrow> ('k, 'v) dict \<Rightarrow> bool" where
  "same_dict a b \<longleftrightarrow> list_all (\<lambda>k. dget a k = dget b k) (dkeys a @ dkeys b)"

definition differences :: "plan \<Rightarrow> plan \<Rightarrow> string list" where
  "differences a b =
     map fst (filter (\<lambda>(n, same). \<not> same)
       [(''action'', pl_action a = pl_action b), (''skill_id'', pl_skill_id a = pl_skill_id b),
        (''skill_version'', pl_skill_version a = pl_skill_version b), (''backend'', pl_backend a = pl_backend b),
        (''recipients'', pl_recipients a = pl_recipients b), (''cost_units'', pl_cost_units a = pl_cost_units b),
        (''secret_names'', pl_secret_names a = pl_secret_names b),
        (''permissions'', same_dict (pl_permissions a) (pl_permissions b)),
        (''output_kinds'', pl_output_kinds a = pl_output_kinds b), (''detail'', pl_detail a = pl_detail b)])"

datatype ap_status = APending | AGranted | ADenied | AExpired | AConsumed | ARevoked

record approval =
  ap_plan :: plan
  ap_fingerprint :: string
  ap_status :: ap_status
  ap_owner :: string
  ap_requested_at :: int
  ap_decided_at :: "int option"
  ap_decided_by :: string
  ap_expires_at :: "int option"
  ap_uses_left :: nat
  ap_reason :: string

type_synonym table = "(string, approval) dict"

datatype verdict = Covered | NotGranted ap_status | Expired | UsedUp | PlanChanged "string list"

definition past :: "int option \<Rightarrow> int \<Rightarrow> bool" where
  "past expires stamp \<longleftrightarrow> (case expires of None \<Rightarrow> False | Some e \<Rightarrow> e < stamp)"

definition covers :: "approval \<Rightarrow> plan \<Rightarrow> int \<Rightarrow> verdict" where
  "covers a p stamp =
     (if ap_status a \<noteq> AGranted then NotGranted (ap_status a)
      else if past (ap_expires_at a) stamp then Expired
      else if ap_uses_left a = 0 then UsedUp
      else let changes = differences (ap_plan a) p in if changes \<noteq> [] then PlanChanged changes else Covered)"

text \<open>\<open>consumed\<close> keeps \<open>decided_at\<close>: a granted card has one. The writes below take its uses and status.\<close>

definition consumed :: "approval \<Rightarrow> approval" where
  "consumed a =
     (let left = ap_uses_left a - 1
      in a\<lparr>ap_status := if left = 0 then AConsumed else ap_status a, ap_uses_left := left\<rparr>)"

section \<open>Issuing and deciding\<close>

definition ap_expires :: "int option \<Rightarrow> int \<Rightarrow> int option" where
  "ap_expires ttl now = map_option (\<lambda>t. now + max 1 t) ttl"

definition ap_request ::
  "(plan \<Rightarrow> string) \<Rightarrow> plan \<Rightarrow> string \<Rightarrow> int option \<Rightarrow> int \<Rightarrow> string \<Rightarrow> int \<Rightarrow> table \<Rightarrow> (pyerr + approval) \<times> table" where
  "ap_request fp p owner ttl uses aid now db =
     (if 1000 < uses then (Inl ValueError, db)
      else
        let a = \<lparr>ap_plan = p, ap_fingerprint = fp p, ap_status = APending, ap_owner = owner, ap_requested_at = now,
                 ap_decided_at = None, ap_decided_by = [], ap_expires_at = ap_expires ttl now,
                 ap_uses_left = nat (max 1 uses), ap_reason = []\<rparr>
        in (Inr a, dset aid a db))"

definition ap_pending :: "string \<Rightarrow> nat \<Rightarrow> table \<Rightarrow> (string \<times> approval) list" where
  "ap_pending owner limit db =
     take limit (sort_key (\<lambda>(k, a). - ap_requested_at a)
       (filter (\<lambda>(k, a). ap_status a = APending \<and> (owner = [] \<or> ap_owner a = owner)) db))"

definition decided_key :: "approval \<Rightarrow> int" where
  "decided_key a = (case ap_decided_at a of None \<Rightarrow> 1 | Some d \<Rightarrow> - d)"

definition ap_active :: "string \<Rightarrow> int \<Rightarrow> int \<Rightarrow> table \<Rightarrow> (string \<times> approval) list" where
  "ap_active owner limit stamp db =
     filter (\<lambda>(k, a). \<not> past (ap_expires_at a) stamp)
       (take (nat (max 1 (min limit 200))) (sort_key (\<lambda>(k, a). decided_key a)
         (filter (\<lambda>(k, a). ap_status a = AGranted \<and> 0 < ap_uses_left a \<and> (owner = [] \<or> ap_owner a = owner)) db)))"

datatype ap_answer = NoDecider | ANotFound | Already ap_status | ConcurrentChange | AnExpired | Done approval

definition ap_revoke :: "string \<Rightarrow> string \<Rightarrow> string \<Rightarrow> int \<Rightarrow> (table \<Rightarrow> table) \<Rightarrow> table \<Rightarrow> ap_answer \<times> table" where
  "ap_revoke aid by_whom reason stamp env db =
     (let who = py_strip by_whom
      in if who = [] then (NoDecider, db)
         else case dget db aid of
           None \<Rightarrow> (ANotFound, db)
         | Some row \<Rightarrow>
             if ap_status row \<notin> {APending, AGranted} then (Already (ap_status row), db)
             else
               let db1 = env db
               in case dget db1 aid of
                    None \<Rightarrow> (ANotFound, db1)
                  | Some cur \<Rightarrow>
                      if ap_status cur \<noteq> ap_status row then (Already (ap_status cur), db1)
                      else
                        let new = cur\<lparr>ap_status := ARevoked, ap_decided_at := Some stamp, ap_decided_by := who,
                                      ap_reason := if reason = [] then ap_reason cur else reason\<rparr>
                        in (Done new, dset aid new db1))"

text \<open>The columns the conditional writes of \<open>decide\<close> and \<open>_spend_row\<close> compare.\<close>

definition same_card :: "approval \<Rightarrow> approval \<Rightarrow> bool" where
  "same_card a b \<longleftrightarrow> ap_plan a = ap_plan b \<and> ap_fingerprint a = ap_fingerprint b \<and> ap_owner a = ap_owner b
     \<and> ap_expires_at a = ap_expires_at b"

definition decide_write :: "bool \<Rightarrow> string \<Rightarrow> string \<Rightarrow> int \<Rightarrow> approval \<Rightarrow> approval \<Rightarrow> approval" where
  "decide_write granted who reason stamp row cur =
     (if past (ap_expires_at row) stamp then cur\<lparr>ap_status := AExpired\<rparr>
      else cur\<lparr>ap_status := if granted then AGranted else ADenied, ap_decided_at := Some stamp, ap_decided_by := who,
               ap_reason := if reason = [] then ap_reason cur else reason\<rparr>)"

definition ap_decide ::
  "string \<Rightarrow> bool \<Rightarrow> string \<Rightarrow> string \<Rightarrow> int \<Rightarrow> (table \<Rightarrow> table) \<Rightarrow> table \<Rightarrow> ap_answer \<times> table" where
  "ap_decide aid granted by_whom reason stamp env db =
     (let who = py_strip by_whom
      in if who = [] then (NoDecider, db)
         else case dget db aid of
           None \<Rightarrow> (ANotFound, db)
         | Some row \<Rightarrow>
             if ap_status row \<noteq> APending then (Already (ap_status row), db)
             else
               let db1 = env db
               in case dget db1 aid of
                    None \<Rightarrow> (ANotFound, db1)
                  | Some cur \<Rightarrow>
                      if ap_status cur = APending \<and> same_card cur row
                      then let new = decide_write granted who reason stamp row cur
                           in (if past (ap_expires_at row) stamp then AnExpired else Done new, dset aid new db1)
                      else (if ap_status cur \<noteq> APending then Already (ap_status cur) else ConcurrentChange, db1))"

definition ap_expire_stale :: "int \<Rightarrow> table \<Rightarrow> nat \<times> table" where
  "ap_expire_stale stamp db =
     (let stale = (\<lambda>a. ap_status a = APending \<and> past (ap_expires_at a) stamp)
      in (length (filter (\<lambda>(k, a). stale a) db),
          map (\<lambda>(k, a). (k, if stale a then a\<lparr>ap_status := AExpired\<rparr> else a)) db))"

section \<open>Checking and spending\<close>

datatype check_answer = CheckOk string | CheckChanged string "string list" | CheckNone

definition by_decision :: "table \<Rightarrow> table" where
  "by_decision rows = sort_key (\<lambda>(k, a). decided_key a) (sort_key fst rows)"

definition ap_check :: "(plan \<Rightarrow> string) \<Rightarrow> plan \<Rightarrow> string \<Rightarrow> int \<Rightarrow> table \<Rightarrow> check_answer" where
  "ap_check fp p owner stamp db =
     (let exact = by_decision (filter (\<lambda>(k, a). ap_fingerprint a = fp p \<and> ap_status a = AGranted \<and> ap_owner a = owner) db);
          near = take 20 (by_decision (filter (\<lambda>(k, a). ap_status a = AGranted \<and> pl_action (ap_plan a) = pl_action p
            \<and> ap_owner a = owner) db))
      in case find (\<lambda>(k, a). covers a p stamp = Covered) exact of
           Some (k, a) \<Rightarrow> CheckOk k
         | None \<Rightarrow>
             (case find (\<lambda>(k, a). case covers a p stamp of PlanChanged c \<Rightarrow> True | _ \<Rightarrow> False) near of
                Some (k, a) \<Rightarrow> CheckChanged k (case covers a p stamp of PlanChanged c \<Rightarrow> c | _ \<Rightarrow> [])
              | None \<Rightarrow> CheckNone))"

text \<open>\<open>seen\<close> is the card as it was read; the write happens when the row still matches it.\<close>

definition card_spend :: "(plan \<Rightarrow> string) \<Rightarrow> string \<Rightarrow> approval \<Rightarrow> plan \<Rightarrow> table \<Rightarrow> (approval \<times> table) option" where
  "card_spend fp aid seen p db =
     (case dget db aid of
        None \<Rightarrow> None
      | Some cur \<Rightarrow>
          if ap_status cur = AGranted \<and> ap_uses_left cur = ap_uses_left seen \<and> ap_fingerprint cur = fp p
             \<and> ap_plan cur = ap_plan seen \<and> ap_owner cur = ap_owner seen \<and> ap_expires_at cur = ap_expires_at seen
          then let spent = consumed seen
               in Some (spent, dset aid (cur\<lparr>ap_uses_left := ap_uses_left spent, ap_status := ap_status spent\<rparr>) db)
          else None)"

datatype spend_answer = SpendNotFound | SpendRefused verdict | SpendConcurrent | Spent nat ap_status

text \<open>One element of \<open>envs\<close> per attempt (the code makes four): what others did before its write.\<close>

fun ap_consume ::
  "(plan \<Rightarrow> string) \<Rightarrow> string \<Rightarrow> plan \<Rightarrow> string option \<Rightarrow> int \<Rightarrow> (table \<Rightarrow> table) list \<Rightarrow> table \<Rightarrow> spend_answer \<times> table" where
  "ap_consume fp aid p owner stamp [] db = (SpendConcurrent, db)"
| "ap_consume fp aid p owner stamp (env # envs) db =
     (case dget db aid of
        None \<Rightarrow> (SpendNotFound, db)
      | Some row \<Rightarrow>
          if owner \<noteq> None \<and> owner \<noteq> Some (ap_owner row) then (SpendNotFound, db)
          else if covers row p stamp \<noteq> Covered then (SpendRefused (covers row p stamp), db)
          else case card_spend fp aid row p (env db) of
                 Some (spent, db') \<Rightarrow> (Spent (ap_uses_left spent) (ap_status spent), db')
               | None \<Rightarrow> ap_consume fp aid p owner stamp envs (env db))"

datatype set_answer = SetOk "(string \<times> nat) list" | SetNoApproval string | SetConcurrent

definition candidates :: "(plan \<Rightarrow> string) \<Rightarrow> plan \<Rightarrow> string \<Rightarrow> table \<Rightarrow> table" where
  "candidates fp p owner db =
     by_decision (filter (\<lambda>(k, a). ap_fingerprint a = fp p \<and> ap_owner a = owner \<and> ap_status a = AGranted
       \<and> 0 < ap_uses_left a) db)"

text \<open>
  The plans of one attempt, in order. Others can write until this transaction's first write, which
  takes the database's write lock: \<open>env\<close> acts before it, afterwards it changes nothing.
\<close>

datatype ap_attempt = Committed "(string \<times> nat) list" table | Refused string table | Retry table

fun spend_all ::
  "(plan \<Rightarrow> string) \<Rightarrow> plan list \<Rightarrow> string \<Rightarrow> int \<Rightarrow> (table \<Rightarrow> table) \<Rightarrow> table \<Rightarrow> (string \<times> nat) list \<Rightarrow> table \<Rightarrow> ap_attempt" where
  "spend_all fp [] owner stamp env start receipts db = Committed receipts db"
| "spend_all fp (p # ps) owner stamp env start receipts db =
     (case find (\<lambda>(k, a). covers a p stamp = Covered) (candidates fp p owner db) of
        None \<Rightarrow> Refused (pl_action p) start
      | Some (k, a) \<Rightarrow>
          (case card_spend fp k a p (env db) of
             None \<Rightarrow> Retry (env start)
           | Some (spent, db') \<Rightarrow>
               spend_all fp ps owner stamp (\<lambda>d. d) (env start) (receipts @ [(k, ap_uses_left spent)]) db'))"

fun unique_plans :: "(plan \<Rightarrow> string) \<Rightarrow> plan list \<Rightarrow> (string, plan) dict \<Rightarrow> (string, plan) dict" where
  "unique_plans fp [] d = d"
| "unique_plans fp (p # ps) d = unique_plans fp ps (dset (fp p) p d)"

fun ap_consume_plans ::
  "(plan \<Rightarrow> string) \<Rightarrow> plan list \<Rightarrow> string \<Rightarrow> int \<Rightarrow> (table \<Rightarrow> table) list \<Rightarrow> table \<Rightarrow> set_answer \<times> table" where
  "ap_consume_plans fp plans owner stamp [] db = (SetConcurrent, db)"
| "ap_consume_plans fp plans owner stamp (env # envs) db =
     (case spend_all fp (map snd (unique_plans fp plans [])) owner stamp env db [] db of
        Committed receipts db' \<Rightarrow> (SetOk receipts, db')
      | Refused action db' \<Rightarrow> (SetNoApproval action, db')
      | Retry db' \<Rightarrow> ap_consume_plans fp plans owner stamp envs db')"

section \<open>Every use is granted, and counted once\<close>

text \<open>
  The store with two ghosts: the uses each card was issued with, and the spends that succeeded.
  The step of a spend takes any card that covers the plan as the one it read, however old.
\<close>

record ap_world =
  aw_table :: table
  aw_issued :: "(string, nat) dict"
  aw_spent :: "string list"

datatype ap_op =
    ORequest plan string "int option" int string int
  | ODecide string bool string string int approval
  | ORevoke string string string int
  | OExpire int
  | OSpend string approval plan int

fun ap_step :: "(plan \<Rightarrow> string) \<Rightarrow> ap_op \<Rightarrow> ap_world \<Rightarrow> ap_world" where
  "ap_step fp (ORequest p owner ttl uses aid now) w =
     (if dget (aw_table w) aid \<noteq> None then w
      else case ap_request fp p owner ttl uses aid now (aw_table w) of
             (Inl e, db) \<Rightarrow> w
           | (Inr a, db) \<Rightarrow> w\<lparr>aw_table := db, aw_issued := dset aid (ap_uses_left a) (aw_issued w)\<rparr>)"
| "ap_step fp (ODecide aid granted by_whom reason stamp seen) w =
     (case dget (aw_table w) aid of
        None \<Rightarrow> w
      | Some cur \<Rightarrow>
          if py_strip by_whom \<noteq> [] \<and> ap_status cur = APending \<and> same_card cur seen
          then w\<lparr>aw_table := dset aid (decide_write granted (py_strip by_whom) reason stamp seen cur) (aw_table w)\<rparr> else w)"
| "ap_step fp (ORevoke aid by_whom reason stamp) w =
     w\<lparr>aw_table := snd (ap_revoke aid by_whom reason stamp id (aw_table w))\<rparr>"
| "ap_step fp (OExpire stamp) w = w\<lparr>aw_table := snd (ap_expire_stale stamp (aw_table w))\<rparr>"
| "ap_step fp (OSpend aid seen p stamp) w =
     (if covers seen p stamp \<noteq> Covered then w
      else case card_spend fp aid seen p (aw_table w) of
             None \<Rightarrow> w
           | Some (spent, db) \<Rightarrow> w\<lparr>aw_table := db, aw_spent := aid # aw_spent w\<rparr>)"

definition empty_ap_world :: ap_world where
  "empty_ap_world = \<lparr>aw_table = [], aw_issued = [], aw_spent = []\<rparr>"

definition spends :: "ap_world \<Rightarrow> string \<Rightarrow> nat" where
  "spends w aid = length (filter (\<lambda>x. x = aid) (aw_spent w))"

definition card_ok :: "nat \<Rightarrow> nat option \<Rightarrow> approval \<Rightarrow> bool" where
  "card_ok n issued a \<longleftrightarrow> issued = Some (ap_uses_left a + n)
     \<and> (ap_status a \<in> {AGranted, AConsumed} \<or> 0 < n \<longrightarrow> ap_decided_by a \<noteq> [])
     \<and> (ap_status a \<in> {APending, ADenied, AExpired} \<longrightarrow> n = 0)"

definition ap_inv :: "ap_world \<Rightarrow> bool" where
  "ap_inv w \<longleftrightarrow> (\<forall>aid a. dget (aw_table w) aid = Some a \<longrightarrow> card_ok (spends w aid) (dget (aw_issued w) aid) a)
     \<and> (\<forall>aid. dget (aw_table w) aid = None \<longrightarrow> spends w aid = 0)"

lemma ap_inv_update:
  assumes "ap_inv w" "dget (aw_table w) aid = Some a" "card_ok (spends w aid) (dget (aw_issued w) aid) new"
  shows "ap_inv (w\<lparr>aw_table := dset aid new (aw_table w)\<rparr>)"
  using assms by (auto simp: ap_inv_def spends_def)

lemma card_decide: "card_ok n i cur \<Longrightarrow> ap_status cur = APending \<Longrightarrow> who \<noteq> [] \<Longrightarrow> card_ok n i (decide_write g who reason stamp seen cur)"
  by (auto simp: card_ok_def decide_write_def)

lemma card_revoke:
  "card_ok n i cur \<Longrightarrow> who \<noteq> [] \<Longrightarrow> card_ok n i (cur\<lparr>ap_status := ARevoked, ap_decided_at := t, ap_decided_by := who, ap_reason := r\<rparr>)"
  by (auto simp: card_ok_def)

lemma card_spendD:
  assumes "card_spend fp aid seen p db = Some (spent, db')"
  obtains cur where "dget db aid = Some cur" "ap_status cur = AGranted" "ap_uses_left cur = ap_uses_left seen"
    "ap_fingerprint cur = fp p" "ap_plan cur = ap_plan seen" "ap_owner cur = ap_owner seen" "ap_expires_at cur = ap_expires_at seen"
    "spent = consumed seen" "db' = dset aid (cur\<lparr>ap_uses_left := ap_uses_left spent, ap_status := ap_status spent\<rparr>) db"
  using assms by (auto simp: card_spend_def Let_def split: option.splits if_splits)

lemma revoke_id_cases:
  obtains (same) "snd (ap_revoke aid by_whom reason stamp id db) = db"
  | (revoked) cur who where "dget db aid = Some cur" "who \<noteq> []" "ap_status cur \<in> {APending, AGranted}"
      "snd (ap_revoke aid by_whom reason stamp id db) =
        dset aid (cur\<lparr>ap_status := ARevoked, ap_decided_at := Some stamp, ap_decided_by := who,
          ap_reason := if reason = [] then ap_reason cur else reason\<rparr>) db"
proof (cases "py_strip by_whom = [] \<or> dget db aid = None")
  case True
  then have "snd (ap_revoke aid by_whom reason stamp id db) = db" by (auto simp: ap_revoke_def Let_def)
  then show thesis by (rule same)
next
  case False
  then obtain cur where cur: "py_strip by_whom \<noteq> []" "dget db aid = Some cur" by auto
  show thesis
  proof (cases "ap_status cur \<in> {APending, AGranted}")
    case True
    with cur show thesis by (intro revoked [OF cur(2,1) True]) (auto simp: ap_revoke_def Let_def)
  next
    case no: False
    with cur show thesis by (intro same) (auto simp: ap_revoke_def Let_def)
  qed
qed

lemma dget_expire:
  "dget (snd (ap_expire_stale stamp db)) aid =
     map_option (\<lambda>a. if ap_status a = APending \<and> past (ap_expires_at a) stamp then a\<lparr>ap_status := AExpired\<rparr> else a) (dget db aid)"
  unfolding ap_expire_stale_def Let_def by (induction db) auto

lemma ap_step_inv:
  assumes inv: "ap_inv w"
  shows "ap_inv (ap_step fp op w)"
proof (cases op)
  case (ORequest p owner ttl uses aid now)
  with inv show ?thesis
    by (auto simp: ap_request_def Let_def ap_inv_def spends_def card_ok_def split: if_splits)
next
  case (ODecide aid granted by_whom reason stamp seen)
  show ?thesis
  proof (cases "dget (aw_table w) aid")
    case (Some cur)
    then have "card_ok (spends w aid) (dget (aw_issued w) aid) cur" using inv by (simp add: ap_inv_def)
    with ODecide Some inv show ?thesis by (auto intro!: ap_inv_update card_decide)
  qed (simp add: ODecide inv)
next
  case (ORevoke aid by_whom reason stamp)
  show ?thesis
  proof (cases rule: revoke_id_cases [of aid by_whom reason stamp "aw_table w"])
    case same
    with ORevoke inv show ?thesis by simp
  next
    case (revoked cur who)
    then have "card_ok (spends w aid) (dget (aw_issued w) aid) cur" using inv by (simp add: ap_inv_def)
    from ap_inv_update [OF inv revoked(1) card_revoke [OF this revoked(2)]] show ?thesis
      by (simp add: ORevoke revoked(4))
  qed
next
  case (OExpire stamp)
  with inv show ?thesis
    by (auto simp: ap_inv_def dget_expire spends_def card_ok_def split: if_splits)
next
  case (OSpend aid seen p stamp)
  show ?thesis
  proof (cases "covers seen p stamp \<noteq> Covered \<or> card_spend fp aid seen p (aw_table w) = None")
    case False
    then obtain spent db where res: "card_spend fp aid seen p (aw_table w) = Some (spent, db)" by auto
    have seen: "ap_status seen = AGranted" "0 < ap_uses_left seen"
      using False by (auto simp: covers_def Let_def split: if_splits)
    obtain cur where cur: "dget (aw_table w) aid = Some cur" "ap_status cur = AGranted" "ap_uses_left cur = ap_uses_left seen"
      "spent = consumed seen" "db = dset aid (cur\<lparr>ap_uses_left := ap_uses_left spent, ap_status := ap_status spent\<rparr>) (aw_table w)"
      using res by (rule card_spendD)
    have "card_ok (spends w aid) (dget (aw_issued w) aid) cur" using inv cur(1) by (simp add: ap_inv_def)
    then have "card_ok (Suc (spends w aid)) (dget (aw_issued w) aid) (cur\<lparr>ap_uses_left := ap_uses_left spent, ap_status := ap_status spent\<rparr>)"
      using seen cur(2,3,4) by (auto simp: card_ok_def consumed_def Let_def)
    moreover have "ap_step fp op w = w\<lparr>aw_table := db, aw_spent := aid # aw_spent w\<rparr>" using OSpend False res by simp
    ultimately show ?thesis using inv cur(1,5) by (auto simp: ap_inv_def spends_def)
  qed (auto simp: OSpend inv)
qed

interpretation approval_runs: op_system "ap_step fp" ap_inv
  for fp
  by unfold_locales (rule ap_step_inv)

lemma ap_inv_empty: "ap_inv empty_ap_world"
  by (simp add: ap_inv_def empty_ap_world_def spends_def)

lemma terminal_step:
  assumes "dget (aw_table w) aid = Some a" "ap_status a \<notin> {APending, AGranted}"
  shows "dget (aw_table (ap_step fp op w)) aid = Some a \<and> spends (ap_step fp op w) aid = spends w aid"
proof (cases op)
  case (ORequest p owner ttl uses aid' now)
  with assms show ?thesis by (auto simp: ap_request_def Let_def spends_def)
next
  case (ODecide aid' granted by_whom reason stamp seen)
  with assms show ?thesis by (auto simp: spends_def split: option.splits)
next
  case (ORevoke aid' by_whom reason stamp)
  show ?thesis
  proof (cases rule: revoke_id_cases [of aid' by_whom reason stamp "aw_table w"])
    case same
    with ORevoke assms show ?thesis by (simp add: spends_def)
  next
    case (revoked cur who)
    then have "aid' \<noteq> aid" using assms by auto
    with ORevoke revoked(4) assms show ?thesis by (simp add: spends_def)
  qed
next
  case (OExpire stamp)
  with assms show ?thesis by (auto simp: dget_expire spends_def)
next
  case (OSpend aid' seen p stamp)
  show ?thesis
  proof (cases "covers seen p stamp \<noteq> Covered \<or> card_spend fp aid' seen p (aw_table w) = None")
    case True
    then have "ap_step fp op w = w" using OSpend by auto
    with assms show ?thesis by simp
  next
    case False
    then obtain spent db where res: "card_spend fp aid' seen p (aw_table w) = Some (spent, db)" by auto
    then obtain cur where cur: "dget (aw_table w) aid' = Some cur" "ap_status cur = AGranted"
      "db = dset aid' (cur\<lparr>ap_uses_left := ap_uses_left spent, ap_status := ap_status spent\<rparr>) (aw_table w)"
      by (rule card_spendD)
    then have "aid' \<noteq> aid" using assms by auto
    with OSpend False res cur(3) assms show ?thesis by (simp add: spends_def)
  qed
qed

lemma terminal_run:
  assumes "dget (aw_table w) aid = Some a" "ap_status a \<notin> {APending, AGranted}"
  shows "dget (aw_table (fold (ap_step fp) ops w)) aid = Some a \<and> spends (fold (ap_step fp) ops w) aid = spends w aid"
  using assms
proof (induction ops arbitrary: w)
  case (Cons op ops)
  from terminal_step [OF Cons.prems, of fp op] Cons.IH [of "ap_step fp op w"] Cons.prems(2) show ?case by simp
qed simp

text \<open>
  C6: Over any interleaving of sessions that request, decide, revoke, expire and spend cards,
  however stale the cards they read, a card is spent at most as often as it was issued for (its
  spends and its remaining uses add up to the uses it was issued with), every spent card names the
  person who granted it, and a card that was denied, revoked, expired or used up never changes and
  is never spent again.
\<close>
theorem approvals_are_spent_within_their_uses:
  assumes "w = fold (ap_step fp) ops empty_ap_world"
  shows "(\<forall>aid. 0 < spends w aid \<longrightarrow> (\<exists>a n. dget (aw_table w) aid = Some a \<and> dget (aw_issued w) aid = Some n
            \<and> spends w aid + ap_uses_left a = n \<and> ap_decided_by a \<noteq> []))
    \<and> (\<forall>aid a. dget (aw_table w) aid = Some a \<longrightarrow> ap_status a \<notin> {APending, AGranted} \<longrightarrow>
          dget (aw_table (fold (ap_step fp) rest w)) aid = Some a \<and> spends (fold (ap_step fp) rest w) aid = spends w aid)"
proof (intro conjI allI impI)
  have inv: "ap_inv w" unfolding assms by (rule approval_runs.run_inv [OF ap_inv_empty])
  fix aid assume n: "0 < spends w aid"
  then obtain a where a: "dget (aw_table w) aid = Some a" using inv by (cases "dget (aw_table w) aid") (auto simp: ap_inv_def)
  then have "card_ok (spends w aid) (dget (aw_issued w) aid) a" using inv by (simp add: ap_inv_def)
  with n a show "\<exists>a n. dget (aw_table w) aid = Some a \<and> dget (aw_issued w) aid = Some n
            \<and> spends w aid + ap_uses_left a = n \<and> ap_decided_by a \<noteq> []"
    by (auto simp: card_ok_def)
next
  fix aid a assume "dget (aw_table w) aid = Some a" "ap_status a \<notin> {APending, AGranted}"
  from terminal_run [OF this] show "dget (aw_table (fold (ap_step fp) rest w)) aid = Some a"
    "spends (fold (ap_step fp) rest w) aid = spends w aid" by simp_all
qed

section \<open>Spending one card, or a set of them\<close>

lemma covers_same:
  assumes "covers row p stamp = Covered" "ap_status cur = AGranted" "ap_uses_left cur = ap_uses_left row"
    "ap_plan cur = ap_plan row" "ap_expires_at cur = ap_expires_at row"
  shows "covers cur p stamp = Covered"
  using assms by (auto simp: covers_def Let_def split: if_splits)

definition spent_by :: "approval \<Rightarrow> approval" where
  "spent_by cur = cur\<lparr>ap_uses_left := ap_uses_left cur - 1, ap_status := if ap_uses_left cur = 1 then AConsumed else AGranted\<rparr>"

lemma card_spend_covering:
  assumes "card_spend fp aid row p db = Some (spent, db')" "covers row p stamp = Covered"
  obtains cur where "dget db aid = Some cur" "covers cur p stamp = Covered" "ap_owner cur = ap_owner row"
    "db' = dset aid (spent_by cur) db" "ap_uses_left spent = ap_uses_left cur - 1"
    "ap_status spent = (if ap_uses_left cur = 1 then AConsumed else AGranted)"
proof -
  obtain cur where cur: "dget db aid = Some cur" "ap_status cur = AGranted" "ap_uses_left cur = ap_uses_left row"
    "ap_plan cur = ap_plan row" "ap_owner cur = ap_owner row" "ap_expires_at cur = ap_expires_at row"
    "spent = consumed row" "db' = dset aid (cur\<lparr>ap_uses_left := ap_uses_left spent, ap_status := ap_status spent\<rparr>) db"
    using assms(1) by (rule card_spendD)
  have row: "ap_status row = AGranted" "0 < ap_uses_left row"
    using assms(2) by (auto simp: covers_def Let_def split: if_splits)
  show thesis
    by (rule that [OF cur(1) covers_same [OF assms(2) cur(2,3,4,6)] cur(5)])
       (use cur(3,7,8) row in \<open>auto simp: spent_by_def consumed_def Let_def\<close>)
qed

definition others :: "(table \<Rightarrow> table) list \<Rightarrow> table \<Rightarrow> table" where
  "others envs db = fold (\<lambda>e d. e d) envs db"

text \<open>
  A successful \<open>consume\<close> decremented, by exactly one, a card that at the moment of the write was
  granted, unexpired, had a use left, belonged to the owner asked for and whose plan had no
  difference from the plan executed, whatever other sessions did between its reads and its writes;
  any other answer wrote nothing.
\<close>
theorem consume_spends_a_covering_card:
  assumes "ap_consume fp aid p owner stamp envs db = (ans, db')"
  shows "case ans of
      Spent n st \<Rightarrow> \<exists>k cur. dget (others (take k envs) db) aid = Some cur \<and> covers cur p stamp = Covered
         \<and> (owner = None \<or> owner = Some (ap_owner cur)) \<and> n = ap_uses_left cur - 1
         \<and> db' = dset aid (spent_by cur) (others (take k envs) db)
    | _ \<Rightarrow> \<exists>k. db' = others (take k envs) db"
  using assms
proof (induction fp aid p owner stamp envs db rule: ap_consume.induct)
  case (1 fp aid p owner stamp db)
  then show ?case by (auto simp: others_def)
next
  case (2 fp aid p owner stamp env envs db)
  have zero: "\<exists>k. db = others (take k (env # envs)) db" by (rule exI [of _ 0]) (simp add: others_def)
  have later: "others (take (Suc k) (env # envs)) db = others (take k envs) (env db)" for k by (simp add: others_def)
  show ?case
  proof (cases "dget db aid")
    case None
    with 2(2) zero show ?thesis by auto
  next
    case (Some row)
    show ?thesis
    proof (cases "(owner \<noteq> None \<and> owner \<noteq> Some (ap_owner row)) \<or> covers row p stamp \<noteq> Covered")
      case True
      with 2(2) Some zero show ?thesis by (auto split: if_splits)
    next
      case ok: False
      show ?thesis
      proof (cases "card_spend fp aid row p (env db)")
        case None
        have "ap_consume fp aid p owner stamp envs (env db) = (ans, db')" using 2(2) Some ok None by auto
        moreover have "\<not> (owner \<noteq> None \<and> owner \<noteq> Some (ap_owner row))" "\<not> covers row p stamp \<noteq> Covered" using ok by auto
        ultimately have "case ans of
            Spent n st \<Rightarrow> \<exists>k cur. dget (others (take k envs) (env db)) aid = Some cur \<and> covers cur p stamp = Covered
               \<and> (owner = None \<or> owner = Some (ap_owner cur)) \<and> n = ap_uses_left cur - 1
               \<and> db' = dset aid (spent_by cur) (others (take k envs) (env db))
          | _ \<Rightarrow> \<exists>k. db' = others (take k envs) (env db)"
          using 2(1) [OF Some] None by blast
        then show ?thesis unfolding later [symmetric] by (cases ans; simp only: spend_answer.case; blast)
      next
        case (Some res)
        obtain spent d where res: "res = (spent, d)" by (cases res)
        have cov: "covers row p stamp = Covered" using ok by simp
        obtain cur where cur: "dget (env db) aid = Some cur" "covers cur p stamp = Covered" "ap_owner cur = ap_owner row"
          "d = dset aid (spent_by cur) (env db)" "ap_uses_left spent = ap_uses_left cur - 1"
          using card_spend_covering [OF Some [unfolded res] cov] by metis
        have "ans = Spent (ap_uses_left spent) (ap_status spent)" "db' = d"
          using 2(2) \<open>dget db aid = Some row\<close> ok Some res by auto
        moreover have "others (take 1 (env # envs)) db = env db" by (simp add: others_def)
        ultimately show ?thesis using cur ok by (auto intro!: exI [of _ 1])
      qed
    qed
  qed
qed

text \<open>What the receipts of a set of spends say: one covering card per plan, one use taken from each.\<close>

inductive took :: "string \<Rightarrow> int \<Rightarrow> plan list \<Rightarrow> table \<Rightarrow> (string \<times> nat) list \<Rightarrow> table \<Rightarrow> bool"
  for owner stamp where
  took_none: "took owner stamp [] db [] db"
| took_one: "took owner stamp ps db rs db1 \<Longrightarrow> dget db1 k = Some a \<Longrightarrow> covers a p stamp = Covered \<Longrightarrow> ap_owner a = owner \<Longrightarrow>
    took owner stamp (ps @ [p]) db (rs @ [(k, ap_uses_left a - 1)]) (dset k (spent_by a) db1)"

lemma set_by_decision [simp]: "set (by_decision rows) = set rows"
  by (simp add: by_decision_def)

lemma spend_all_facts:
  assumes "took owner stamp done (env start) receipts (env db)"
  shows "case spend_all fp ps owner stamp env start receipts db of
      Committed rs db' \<Rightarrow> (ps = [] \<and> rs = receipts \<and> db' = db) \<or> took owner stamp (done @ ps) (env start) rs db'
    | Refused action db' \<Rightarrow> db' = start \<or> db' = env start
    | Retry db' \<Rightarrow> db' = env start"
  using assms
proof (induction ps arbitrary: "done" env start receipts db)
  case (Cons p ps)
  show ?case
  proof (cases "find (\<lambda>(k, a). covers a p stamp = Covered) (candidates fp p owner db)")
    case None
    then show ?thesis by simp
  next
    case (Some ka)
    obtain k a where ka: "ka = (k, a)" by (cases ka)
    with Some have "(k, a) \<in> set (candidates fp p owner db)" "covers a p stamp = Covered"
      by (auto simp: find_Some_iff dest: nth_mem)
    then have a: "ap_owner a = owner" "covers a p stamp = Covered" by (auto simp: candidates_def)
    show ?thesis
    proof (cases "card_spend fp k a p (env db)")
      case None
      with Some ka show ?thesis by simp
    next
      case (Some res)
      obtain spent d where res: "res = (spent, d)" by (cases res)
      obtain cur where cur: "dget (env db) k = Some cur" "covers cur p stamp = Covered" "ap_owner cur = owner"
        "d = dset k (spent_by cur) (env db)" "ap_uses_left spent = ap_uses_left cur - 1"
        using card_spend_covering [OF Some [unfolded res] a(2)] a(1) by metis
      have "took owner stamp (done @ [p]) (env start) (receipts @ [(k, ap_uses_left spent)]) d"
        unfolding cur(4,5) using Cons.prems cur(1,2,3) by (rule took_one)
      then have ih: "case spend_all fp ps owner stamp (\<lambda>d. d) (env start) (receipts @ [(k, ap_uses_left spent)]) d of
            Committed rs db' \<Rightarrow> (ps = [] \<and> rs = receipts @ [(k, ap_uses_left spent)] \<and> db' = d)
                \<or> took owner stamp ((done @ [p]) @ ps) (env start) rs db'
          | Refused action db' \<Rightarrow> db' = env start \<or> db' = env start
          | Retry db' \<Rightarrow> db' = env start"
        using Cons.IH [of "done @ [p]" "\<lambda>d. d" "env start" "receipts @ [(k, ap_uses_left spent)]" d] by simp
      have eq: "spend_all fp (p # ps) owner stamp env start receipts db
          = spend_all fp ps owner stamp (\<lambda>d. d) (env start) (receipts @ [(k, ap_uses_left spent)]) d"
        using \<open>find _ _ = Some ka\<close> ka Some res by simp
      show ?thesis unfolding eq using ih \<open>took owner stamp (done @ [p]) (env start) _ d\<close>
        by (auto split: ap_attempt.splits)
    qed
  qed
qed simp

text \<open>
  \<open>consume_plans\<close> spends all permissions of an execution or none: when it succeeds, for every
  distinct plan one granted, unexpired card of that owner covering exactly that plan lost one use;
  in every other case the table is what the other sessions made of it.
\<close>
theorem consume_plans_is_atomic:
  assumes "ap_consume_plans fp plans owner stamp envs db = (ans, db')"
  shows "case ans of
      SetOk receipts \<Rightarrow> \<exists>k. took owner stamp (map snd (unique_plans fp plans [])) (others (take k envs) db) receipts db'
         \<or> (plans = [] \<and> receipts = [] \<and> db' = others (take k envs) db)
    | _ \<Rightarrow> \<exists>k. db' = others (take k envs) db"
  using assms
proof (induction fp plans owner stamp envs db rule: ap_consume_plans.induct)
  case (1 fp plans owner stamp db)
  then show ?case by (auto simp: others_def)
next
  case (2 fp plans owner stamp env envs db)
  let ?ps = "map snd (unique_plans fp plans [])"
  have zero: "others (take 0 (env # envs)) db = db" and one: "others (take 1 (env # envs)) db = env db"
    and later: "others (take (Suc k) (env # envs)) db = others (take k envs) (env db)" for k
    by (simp_all add: others_def)
  have none: "plans = []" if "?ps = []"
  proof -
    have keep: "unique_plans fp ps d \<noteq> []" if "d \<noteq> []" for ps d
      using that
    proof (induction ps arbitrary: d)
      case (Cons p ps)
      have "dset (fp p) p d \<noteq> []" by (cases d) (auto split: if_splits)
      then show ?case using Cons.IH by simp
    qed simp
    show ?thesis using \<open>?ps = []\<close> keep [of "[(fp p, p)]" ps for p ps] by (cases plans) auto
  qed
  note facts = spend_all_facts [where owner = owner and stamp = stamp and env = env and start = db and db = db and receipts = "[]" and fp = fp and ps = ?ps, OF took_none]
  show ?case
  proof (cases "spend_all fp ?ps owner stamp env db [] db")
    case (Committed rs d)
    then have "ans = SetOk rs" "db' = d" using 2(2) by auto
    moreover have "(?ps = [] \<and> rs = [] \<and> d = db) \<or> took owner stamp ?ps (env db) rs d"
      using facts Committed by simp
    ultimately show ?thesis
      unfolding \<open>ans = SetOk rs\<close> \<open>db' = d\<close> set_answer.case
    proof (elim disjE)
      assume "?ps = [] \<and> rs = [] \<and> d = db"
      then show "\<exists>k. took owner stamp ?ps (others (take k (env # envs)) db) rs d
          \<or> (plans = [] \<and> rs = [] \<and> d = others (take k (env # envs)) db)"
        using none zero by (intro exI [of _ 0] disjI2) simp
    next
      assume "took owner stamp ?ps (env db) rs d"
      then show "\<exists>k. took owner stamp ?ps (others (take k (env # envs)) db) rs d
          \<or> (plans = [] \<and> rs = [] \<and> d = others (take k (env # envs)) db)"
        by (intro exI [of _ 1] disjI1) (simp only: one)
    qed
  next
    case (Refused action d)
    then have "ans = SetNoApproval action" "db' = d" using 2(2) by auto
    moreover have "d = db \<or> d = env db" using facts Refused by simp
    ultimately show ?thesis
      unfolding \<open>ans = SetNoApproval action\<close> \<open>db' = d\<close> set_answer.case
    proof (elim disjE)
      assume "d = db"
      then show "\<exists>k. d = others (take k (env # envs)) db" by (intro exI [of _ 0]) (simp only: zero)
    next
      assume "d = env db"
      then show "\<exists>k. d = others (take k (env # envs)) db" by (intro exI [of _ 1]) (simp only: one)
    qed
  next
    case (Retry d)
    then have "d = env db" using facts by simp
    then have "ap_consume_plans fp plans owner stamp envs (env db) = (ans, db')" using 2(2) Retry by simp
    from 2(1) [OF Retry this [folded \<open>d = env db\<close>]] show ?thesis
      unfolding \<open>d = env db\<close> later [symmetric] by (cases ans; simp only: set_answer.case; blast)
  qed
qed

section \<open>Concrete runs\<close>

definition demo_plan :: plan where
  "demo_plan = \<lparr>pl_action = ''send'', pl_skill_id = [], pl_skill_version = [], pl_backend = [], pl_recipients = [''bob''],
     pl_cost_units = None, pl_secret_names = [], pl_permissions = [], pl_output_kinds = [], pl_detail = []\<rparr>"

definition demo_card :: approval where
  "demo_card = \<lparr>ap_plan = demo_plan, ap_fingerprint = ''f'', ap_status = AGranted, ap_owner = ''ana'', ap_requested_at = 1,
     ap_decided_at = Some 2, ap_decided_by = ''ana'', ap_expires_at = None, ap_uses_left = 1, ap_reason = []\<rparr>"

definition demo_ops :: "ap_op list" where
  "demo_ops = [ORequest demo_plan ''ana'' None 1 ''c'' 1, ODecide ''c'' True ''ana'' [] 2 (demo_card\<lparr>ap_status := APending\<rparr>),
     OSpend ''c'' demo_card demo_plan 3, OSpend ''c'' demo_card demo_plan 3]"

theorem approvals_are_spent_within_their_uses_witness:
  "let w = fold (ap_step (\<lambda>p. ''f'')) demo_ops empty_ap_world in spends w ''c'' = 1 \<and>
     (\<exists>a. dget (aw_table w) ''c'' = Some a \<and> ap_decided_by a \<noteq> [])"
proof -
  have s: "spends (fold (ap_step (\<lambda>p. ''f'')) demo_ops empty_ap_world) ''c'' = 1" by code_simp
  then show ?thesis
    using approvals_are_spent_within_their_uses [OF refl, where fp = "\<lambda>p. ''f''" and ops = demo_ops and rest = "[]"]
    unfolding Let_def by (metis zero_less_one)
qed

lemma demo_consume: "ap_consume (\<lambda>p. ''f'') ''c'' demo_plan None 3 [\<lambda>d. d] [(''c'', demo_card)]
    = (Spent 0 AConsumed, [(''c'', spent_by demo_card)])"
  by (simp add: card_spend_def consumed_def covers_def differences_def demo_card_def demo_plan_def past_def same_dict_def
      spent_by_def Let_def)

theorem consume_spends_a_covering_card_witness:
  "\<exists>cur. covers cur demo_plan 3 = Covered \<and> ap_uses_left cur - 1 = 0"
  using consume_spends_a_covering_card [OF demo_consume] by fastforce

theorem consume_plans_is_atomic_witness:
  "\<exists>k. snd (ap_consume_plans (\<lambda>p. ''f'') [demo_plan] ''bob'' 3 [\<lambda>d. d] [(''c'', demo_card)]) = others (take k [\<lambda>d. d]) [(''c'', demo_card)]"
proof -
  have "ap_consume_plans (\<lambda>p. ''f'') [demo_plan] ''bob'' 3 [\<lambda>d. d] [(''c'', demo_card)] = (SetNoApproval ''send'', [(''c'', demo_card)])"
    by (simp add: candidates_def by_decision_def demo_card_def demo_plan_def)
  from consume_plans_is_atomic [OF this] this show ?thesis by simp
qed

end
