(* ===== verification/Py_Values.thy ===== *)
theory Py_Values
  imports Prelude
begin

text \<open>
  Values as \<open>json.loads\<close> gives them, with the conversions the modelled code applies to them
  (truth, \<open>str\<close>, \<open>int\<close>, iteration), and the string methods of Python the text components use.
  A JSON object is a dictionary with its insertion order.
\<close>

section \<open>JSON values\<close>

datatype json = JNull | JBool bool | JInt int | JFlt pyfloat | JStr string | JArr "json list" | JObj "(string \<times> json) list"

fun py_truth :: "json \<Rightarrow> bool" where
  "py_truth JNull = False"
| "py_truth (JBool b) = b"
| "py_truth (JInt i) = (i \<noteq> 0)"
| "py_truth (JFlt x) = (x \<noteq> Fin 0)"
| "py_truth (JStr s) = (s \<noteq> [])"
| "py_truth (JArr xs) = (xs \<noteq> [])"
| "py_truth (JObj d) = (d \<noteq> [])"

text \<open>\<open>str(v)\<close>; \<open>repr\<close> prints floats, arrays and objects.\<close>

fun py_str :: "(json \<Rightarrow> string) \<Rightarrow> json \<Rightarrow> string" where
  "py_str repr JNull = ''None''"
| "py_str repr (JBool b) = (if b then ''True'' else ''False'')"
| "py_str repr (JInt i) = str_int i"
| "py_str repr (JStr s) = s"
| "py_str repr v = repr v"

text \<open>What a \<open>for\<close> loop over the value visits.\<close>

fun py_iter :: "json \<Rightarrow> pyerr + json list" where
  "py_iter (JArr xs) = Inr xs"
| "py_iter (JStr s) = Inr (map (\<lambda>c. JStr [c]) s)"
| "py_iter (JObj d) = Inr (map (\<lambda>p. JStr (fst p)) d)"
| "py_iter v = Inl TypeError"

definition is_digit :: "char \<Rightarrow> bool" where
  "is_digit c = (let n = (of_char c :: nat) in 48 \<le> n \<and> n \<le> 57)"

definition digit_val :: "char \<Rightarrow> nat" where
  "digit_val c = of_char c - 48"

text \<open>\<open>int(text)\<close>: digits with single underscores between them; more than 4300 digits are refused.\<close>

fun read_digits :: "bool \<Rightarrow> nat \<Rightarrow> string \<Rightarrow> nat option" where
  "read_digits after acc [] = (if after then Some acc else None)"
| "read_digits after acc (c # cs) =
     (if is_digit c then read_digits True (acc * 10 + digit_val c) cs
      else if c = CHR ''_'' \<and> after then read_digits False acc cs else None)"

definition int_of_text :: "string \<Rightarrow> int option" where
  "int_of_text t =
     (let s = py_strip t;
          (neg, ds) = (case s of [] \<Rightarrow> (False, []) | c # r \<Rightarrow>
             if c = CHR ''-'' then (True, r) else if c = CHR ''+'' then (False, r) else (False, s))
      in if 4300 < length (filter is_digit ds) then None
         else map_option (\<lambda>n. if neg then - int n else int n) (read_digits False 0 ds))"

fun py_int :: "json \<Rightarrow> pyerr + int" where
  "py_int (JBool b) = Inr (if b then 1 else 0)"
| "py_int (JInt i) = Inr i"
| "py_int (JFlt (Fin r)) = Inr (if 0 \<le> r then \<lfloor>r\<rfloor> else \<lceil>r\<rceil>)"
| "py_int (JFlt NaN) = Inl ValueError"
| "py_int (JFlt x) = Inl OverflowError"
| "py_int (JStr s) = (case int_of_text s of None \<Rightarrow> Inl ValueError | Some i \<Rightarrow> Inr i)"
| "py_int v = Inl TypeError"

text \<open>The digits of a number, and the number back from them.\<close>

lemma digit_char: "n < 10 \<Longrightarrow> is_digit (char_of (48 + n))" "n < 10 \<Longrightarrow> digit_val (char_of (48 + n)) = n"
  by (simp_all add: is_digit_def digit_val_def Let_def)

lemma str_nat_is_digits: "list_all is_digit (str_nat n)"
proof (induction n rule: str_nat.induct)
  case (1 n)
  then show ?case by (cases "n < 10") (simp_all add: str_nat.simps [of n] digit_char)
qed

lemma str_nat_Nil: "str_nat n \<noteq> []"
  by (simp add: str_nat.simps [of n])

abbreviation digits_value :: "string \<Rightarrow> nat" where
  "digits_value t \<equiv> foldl (\<lambda>a c. a * 10 + digit_val c) 0 t"

lemma str_nat_value: "digits_value (str_nat n) = n"
proof (induction n rule: str_nat.induct)
  case (1 n)
  then show ?case by (cases "n < 10") (simp_all add: str_nat.simps [of n] digit_char)
qed

text \<open>Digits to a width, with zeros before them.\<close>

definition zero_pad :: "nat \<Rightarrow> nat \<Rightarrow> string" where
  "zero_pad w n = replicate (w - length (str_nat n)) CHR ''0'' @ str_nat n"

lemma zero_digit: "is_digit CHR ''0''" "digit_val CHR ''0'' = 0"
  by (simp_all add: is_digit_def digit_val_def)

lemma zero_pad_digits: "list_all is_digit (zero_pad w n)"
  using str_nat_is_digits by (auto simp: zero_pad_def list_all_iff zero_digit)

lemma zeros_value: "digits_value (replicate k CHR ''0'' @ t) = digits_value t"
  by (induction k) (simp_all add: zero_digit)

lemma zero_pad_value: "digits_value (zero_pad w n) = n"
  unfolding zero_pad_def zeros_value by (rule str_nat_value)

lemma zero_pad_inj: "zero_pad w n = zero_pad w m \<longleftrightarrow> n = m"
  by (metis zero_pad_value)

lemma length_str_nat: "0 < w \<Longrightarrow> n < 10 ^ w \<Longrightarrow> length (str_nat n) \<le> w"
proof (induction n arbitrary: w rule: str_nat.induct)
  case (1 n)
  show ?case
  proof (cases "n < 10")
    case False
    obtain v where w: "w = Suc v" using 1(2) by (cases w) auto
    have "n < 10 ^ v * 10" using 1(3) w by simp
    then have small: "n div 10 < 10 ^ v" by (simp add: div_less_iff_less_mult)
    have "0 < v" using small False by (cases v) auto
    note small = small this
    have "length (str_nat (n div 10)) \<le> v" using 1(1) [OF False] small by blast
    moreover have "str_nat n = str_nat (n div 10) @ [char_of (48 + n mod 10)]" by (subst str_nat.simps) (simp only: False if_False)
    ultimately show ?thesis using w by simp
  next
    case True
    then have "str_nat n = [char_of (48 + n)]" by (subst str_nat.simps) (simp only: if_True)
    then show ?thesis using 1(2) by simp
  qed
qed

lemma length_zero_pad: "0 < w \<Longrightarrow> n < 10 ^ w \<Longrightarrow> length (zero_pad w n) = w"
  using length_str_nat [of w n] by (simp add: zero_pad_def)

section \<open>String methods\<close>

definition lstrip :: "string \<Rightarrow> string" where
  "lstrip t = dropWhile is_space t"

definition rstrip :: "string \<Rightarrow> string" where
  "rstrip t = rev (dropWhile is_space (rev t))"

lemma py_strip_eq: "py_strip t = rstrip (lstrip t)"
  by (simp add: py_strip_def rstrip_def lstrip_def)

lemma rstrip_snoc: "rstrip (t @ [c]) = (if is_space c then rstrip t else t @ [c])"
  by (simp add: rstrip_def)

lemma rstrip_id: "t = [] \<or> \<not> is_space (last t) \<Longrightarrow> rstrip t = t"
  by (cases t rule: rev_cases) (auto simp: rstrip_snoc rstrip_def)

lemma lstrip_id: "t = [] \<or> \<not> is_space (hd t) \<Longrightarrow> lstrip t = t"
  by (cases t) (auto simp: lstrip_def)

lemma rstrip_append: "s \<noteq> [] \<Longrightarrow> \<not> is_space (last s) \<Longrightarrow> rstrip (t @ s) = t @ s"
  by (intro rstrip_id) simp

lemma rstrip_spaces: "list_all is_space s \<Longrightarrow> rstrip (t @ s) = rstrip t"
proof (induction s rule: rev_induct)
  case (snoc c s)
  then show ?case using rstrip_snoc [of "t @ s" c] by simp
qed simp

lemma lstrip_append: "list_all is_space s \<Longrightarrow> lstrip (s @ t) = lstrip t"
  by (induction s) (auto simp: lstrip_def)

lemma last_rstrip: "rstrip t \<noteq> [] \<Longrightarrow> \<not> is_space (last (rstrip t))"
proof (induction t rule: rev_induct)
  case (snoc c t)
  then show ?case by (cases "is_space c") (simp_all add: rstrip_snoc)
qed (simp add: rstrip_def)

lemma hd_lstrip: "lstrip t \<noteq> [] \<Longrightarrow> \<not> is_space (hd (lstrip t))"
  using hd_dropWhile [of is_space t] by (simp add: lstrip_def)

lemma rstrip_prefix: "\<exists>s. t = rstrip t @ s \<and> list_all is_space s"
proof (induction t rule: rev_induct)
  case (snoc c t)
  then obtain s where s: "t = rstrip t @ s" "list_all is_space s" by blast
  show ?case
  proof (cases "is_space c")
    case True
    have "t @ [c] = rstrip (t @ [c]) @ (s @ [c])" using True arg_cong [OF s(1), of "\<lambda>u. u @ [c]"] by (simp add: rstrip_snoc)
    moreover have "list_all is_space (s @ [c])" using True s(2) by simp
    ultimately show ?thesis by blast
  next
    case False
    then have "t @ [c] = rstrip (t @ [c]) @ []" by (simp add: rstrip_snoc)
    then show ?thesis by (intro exI [of _ "[]"]) simp
  qed
qed (simp add: rstrip_def)

lemma hd_prefix: "t = u @ s \<Longrightarrow> u \<noteq> [] \<Longrightarrow> hd u = hd t"
  by simp

lemma hd_rstrip: "rstrip t \<noteq> [] \<Longrightarrow> hd (rstrip t) = hd t"
  using rstrip_prefix [of t] hd_prefix by blast

text \<open>A stripped text is empty or starts and ends with a character that is no white space.\<close>

definition stripped :: "string \<Rightarrow> bool" where
  "stripped t \<longleftrightarrow> t = [] \<or> \<not> is_space (hd t) \<and> \<not> is_space (last t)"

lemma stripped_rstrip: "t = [] \<or> \<not> is_space (hd t) \<Longrightarrow> stripped (rstrip t)"
  using last_rstrip [of t] hd_rstrip [of t] by (auto simp: stripped_def rstrip_def [of "[]"])

lemma stripped_py_strip [simp]: "stripped (py_strip t)"
  unfolding py_strip_eq using hd_lstrip [of t] by (intro stripped_rstrip) auto

lemma py_strip_id [simp]: "stripped t \<Longrightarrow> py_strip t = t"
  by (auto simp: py_strip_eq stripped_def lstrip_id rstrip_id)

lemma set_rstrip: "set (rstrip t) \<subseteq> set t"
  by (auto simp: rstrip_def dest: set_dropWhileD)

lemma set_lstrip: "set (lstrip t) \<subseteq> set t"
  by (auto simp: lstrip_def dest: set_dropWhileD)

lemma set_py_strip: "set (py_strip t) \<subseteq> set t"
  unfolding py_strip_eq using set_rstrip set_lstrip by blast

lemma rstrip_Nil_iff: "rstrip t = [] \<longleftrightarrow> list_all is_space t"
  by (auto simp: rstrip_def dropWhile_eq_Nil_conv list_all_iff)

lemma py_strip_Nil_iff: "py_strip t = [] \<longleftrightarrow> list_all is_space t"
proof (cases "lstrip t = []")
  case True
  then show ?thesis by (auto simp: py_strip_eq lstrip_def rstrip_def dropWhile_eq_Nil_conv list_all_iff dest: set_dropWhileD)
next
  case False
  then have "\<not> is_space (hd (lstrip t))" "hd (lstrip t) \<in> set (lstrip t)" using hd_lstrip by auto
  then have "\<not> list_all is_space (lstrip t)" "\<not> list_all is_space t"
    using set_lstrip [of t] unfolding list_all_iff by blast+
  then show ?thesis by (simp add: py_strip_eq rstrip_Nil_iff)
qed

text \<open>\<open>str.splitlines\<close>: a line ends at any of these characters, a carriage return with the line feed after it.\<close>

definition is_line_end :: "char \<Rightarrow> bool" where
  "is_line_end c = (let n = (of_char c :: nat) in (10 \<le> n \<and> n \<le> 13) \<or> (28 \<le> n \<and> n \<le> 30) \<or> n = 133)"

fun split_lines :: "string \<Rightarrow> string \<Rightarrow> string list" where
  "split_lines [] [] = []"
| "split_lines cur [] = [cur]"
| "split_lines cur (c # cs) =
     (if is_line_end c
      then (if c = char_of (13::nat) then (case cs of d # ds \<Rightarrow> if d = char_of (10::nat) then cur # split_lines [] ds
                                                 else cur # split_lines [] cs
                                            | [] \<Rightarrow> [cur])
            else cur # split_lines [] cs)
      else split_lines (cur @ [c]) cs)"

abbreviation splitlines :: "string \<Rightarrow> string list" where
  "splitlines t \<equiv> split_lines [] t"

definition newline :: char where
  "newline = char_of (10::nat)"

fun join_lines :: "string list \<Rightarrow> string" where
  "join_lines [] = []"
| "join_lines [l] = l"
| "join_lines (l # ls) = l @ newline # join_lines ls"

definition one_line :: "string \<Rightarrow> bool" where
  "one_line t \<longleftrightarrow> list_all (\<lambda>c. \<not> is_line_end c) t"

lemma split_lines_one: "one_line t \<Longrightarrow> split_lines cur (t @ rest) = split_lines (cur @ t) rest"
  by (induction t arbitrary: cur) (auto simp: one_line_def)

lemma newline_end [simp]: "is_line_end newline" "newline \<noteq> char_of (13::nat)"
  by (simp_all add: is_line_end_def newline_def)

lemma split_lines_newline: "split_lines cur (newline # cs) = cur # split_lines [] cs"
  by (cases cur) auto

text \<open>Joining lines with newlines and splitting them again gives the lines back.\<close>

lemma splitlines_join:
  "list_all one_line ls \<Longrightarrow> list_all (\<lambda>l. l \<noteq> []) ls \<Longrightarrow> splitlines (join_lines ls) = ls"
proof (induction ls rule: join_lines.induct)
  case (2 l)
  then show ?case using split_lines_one [of l "[]" "[]"] by (cases l) auto
next
  case (3 l m ls)
  then show ?case
    using split_lines_one [of l "[]" "newline # join_lines (m # ls)"] by (simp add: split_lines_newline)
qed simp

lemma split_lines_one_line: "one_line cur \<Longrightarrow> list_all one_line (split_lines cur t)"
proof (induction cur t rule: split_lines.induct)
  case (3 cur c cs)
  have nil: "one_line []" by (simp add: one_line_def)
  show ?case
  proof (cases "is_line_end c")
    case end_char: True
    show ?thesis
    proof (cases "c = char_of (13::nat)")
      case True
      show ?thesis
      proof (cases cs)
        case Nil
        with end_char True 3(5) show ?thesis by simp
      next
        case (Cons d ds)
        with end_char True 3(5) 3(1) [OF _ True Cons _ nil] 3(2) [OF _ True Cons _ nil] show ?thesis
          by (cases "d = char_of (10::nat)") simp_all
      qed
    next
      case False
      with end_char 3(3) [OF _ _ nil] 3(5) show ?thesis by simp
    qed
  next
    case False
    then have "one_line (cur @ [c])" using 3(5) by (simp add: one_line_def)
    with False 3(4) show ?thesis by simp
  qed
qed auto

end
