(* ===== verification/Plan_State.thy ===== *)
theory Plan_State
  imports Py_Values "HOL-Library.List_Lexorder" "HOL-Library.Char_ord"
begin

text \<open>
  Plans as checklists, \<open>src/plan_state.py\<close>: structured steps, the checklist parser
  \<open>from_markdown\<close>, the printer \<open>to_markdown\<close>, requirement coverage, steering and the
  \<open>{"steps": [...]}\<close> form. The SHA-1 digest is the function \<open>sha\<close>; \<open>repr\<close> prints the JSON values
  that are no text. Unicode folding is written out for the 8-bit characters.
\<close>

section \<open>Steps\<close>

datatype step_status = StPending | StDone | StBlocked | StReview

record plan_step =
  ps_id :: string
  ps_title :: string
  ps_status :: step_status
  ps_depends :: "string list"
  ps_evidence :: "string list"
  ps_notes :: string
  ps_verified :: bool

record checklist =
  pd_steps :: "plan_step list"
  pd_revision :: int
  pd_warnings :: "string list"

definition title_keys :: "string list" where
  "title_keys = [''title'', ''content'', ''text'', ''step'', ''task'', ''name'', ''description'']"

definition status_aliases :: "(string, step_status) dict" where
  "status_aliases =
     [(''completed'', StDone), (''complete'', StDone), (''finished'', StDone), (''ok'', StDone),
      (''in_progress'', StPending), (''active'', StPending), (''todo'', StPending), (''open'', StPending),
      (''not_started'', StPending), (''failed'', StBlocked), (''cancelled'', StBlocked), (''canceled'', StBlocked),
      (''skipped'', StBlocked), (''review'', StReview)]"

definition status_names :: "(string, step_status) dict" where
  "status_names = [(''pending'', StPending), (''done'', StDone), (''blocked'', StBlocked), (''needs_review'', StReview)]"

text \<open>\<open>re.sub(r"\s+", " ", text)\<close>: every run of white space becomes one blank.\<close>

fun squeeze :: "bool \<Rightarrow> string \<Rightarrow> string" where
  "squeeze in_run [] = []"
| "squeeze in_run (c # cs) =
     (if is_space c then (if in_run then squeeze True cs else CHR '' '' # squeeze True cs) else c # squeeze False cs)"

definition ps_normalize :: "string \<Rightarrow> string" where
  "ps_normalize t = py_lower (py_strip (squeeze False t))"

definition stable_step_id :: "(string \<Rightarrow> string) \<Rightarrow> string \<Rightarrow> nat \<Rightarrow> string" where
  "stable_step_id sha title order = ''step_'' @ take 12 (sha (str_nat order @ '':'' @ ps_normalize title))"

fun first_title :: "(string, json) dict \<Rightarrow> string list \<Rightarrow> string" where
  "first_title d [] = []"
| "first_title d (k # ks) =
     (case dget d k of
        Some (JStr s) \<Rightarrow> if py_strip s \<noteq> [] then py_strip s else first_title d ks
      | _ \<Rightarrow> first_title d ks)"

definition read_status :: "string \<Rightarrow> step_status" where
  "read_status t =
     (let name = map (\<lambda>c. if c = CHR ''-'' \<or> c = CHR '' '' then CHR ''_'' else c) (py_lower (py_strip t))
      in case dget status_aliases name of Some s \<Rightarrow> s | None \<Rightarrow> dget_or status_names name StPending)"

text \<open>\<open>[str(x).strip() for x in (value or []) if str(x).strip()]\<close>\<close>

definition text_items :: "(json \<Rightarrow> string) \<Rightarrow> json option \<Rightarrow> pyerr + string list" where
  "text_items repr v =
     (case v of None \<Rightarrow> Inr []
      | Some j \<Rightarrow> if \<not> py_truth j then Inr []
          else case py_iter j of Inl e \<Rightarrow> Inl e
               | Inr xs \<Rightarrow> Inr (filter (\<lambda>s. s \<noteq> []) (map (\<lambda>x. py_strip (py_str repr x)) xs)))"

definition step_from_dict ::
  "(string \<Rightarrow> string) \<Rightarrow> (json \<Rightarrow> string) \<Rightarrow> (string, json) dict \<Rightarrow> nat \<Rightarrow> pyerr + plan_step" where
  "step_from_dict sha repr d order =
     (let title = first_title d title_keys;
          status = read_status (py_str repr (dget_or d ''status'' (JStr ''pending'')));
          given = (case dget d ''id'' of Some v \<Rightarrow> if py_truth v then py_strip (py_str repr v) else [] | None \<Rightarrow> []);
          verified = (case dget d ''verified'' of Some v \<Rightarrow> py_truth v | None \<Rightarrow> False) \<and> status = StDone
      in case text_items repr (dget d ''depends_on'') of Inl e \<Rightarrow> Inl e
         | Inr depends \<Rightarrow>
             (case text_items repr (dget d ''evidence_refs'') of Inl e \<Rightarrow> Inl e
              | Inr evidence \<Rightarrow>
                  Inr \<lparr>ps_id = (if given \<noteq> [] then given else stable_step_id sha title order), ps_title = title,
                       ps_status = status, ps_depends = depends, ps_evidence = evidence,
                       ps_notes = py_strip (py_str repr (dget_or d ''notes'' (JStr []))), ps_verified = verified\<rparr>))"

text \<open>\<open>Plan.counts\<close>\<close>

definition pd_counts :: "checklist \<Rightarrow> nat \<times> nat" where
  "pd_counts p = (length (filter (\<lambda>s. ps_status s = StDone) (pd_steps p)), length (pd_steps p))"

section \<open>Reading a checklist\<close>

definition unverified_marker :: string where "unverified_marker = ''<!-- unverified -->''"
definition needs_review_marker :: string where "needs_review_marker = ''<!-- needs_review -->''"
definition blocked_prefix :: string where "blocked_prefix = ''[blocked]''"

text \<open>The list mark of a line: \<open>-\<close>, \<open>*\<close> or a number with a dot or a parenthesis; the rest of the line.\<close>

fun bullet :: "string \<Rightarrow> string option" where
  "bullet [] = None"
| "bullet (c # cs) =
     (if c = CHR ''-'' \<or> c = CHR ''*'' then Some cs
      else if is_digit c
      then (case dropWhile is_digit cs of [] \<Rightarrow> None
            | d # r \<Rightarrow> if d = CHR ''.'' \<or> d = CHR '')'' then Some r else None)
      else None)"

definition is_blank :: "char \<Rightarrow> bool" where
  "is_blank c \<longleftrightarrow> c = CHR '' '' \<or> c = char_of (9::nat)"

definition starts_space :: "string \<Rightarrow> bool" where
  "starts_space t = (case t of [] \<Rightarrow> False | c # cs \<Rightarrow> is_space c)"

text \<open>\<open>_CHECKBOX_RE\<close>: indentation, list mark, white space, a box, and the text without outer white space.\<close>

definition checkbox :: "string \<Rightarrow> (string \<times> char \<times> string) option" where
  "checkbox line =
     (case bullet (dropWhile is_blank line) of
        None \<Rightarrow> None
      | Some r \<Rightarrow>
          if \<not> starts_space r then None
          else case lstrip r of
            a # m # b # rest \<Rightarrow>
              if a = CHR ''['' \<and> (m = CHR '' '' \<or> m = CHR ''x'' \<or> m = CHR ''X'') \<and> b = CHR '']''
              then Some (takeWhile is_blank line, m, py_strip rest) else None
          | _ \<Rightarrow> None)"

text \<open>\<open>_BULLET_RE\<close>\<close>

definition is_bullet_line :: "string \<Rightarrow> bool" where
  "is_bullet_line line = (case bullet (lstrip line) of None \<Rightarrow> False | Some r \<Rightarrow> starts_space r)"

text \<open>\<open>len(indent.expandtabs(2))\<close>\<close>

definition indent_width :: "string \<Rightarrow> nat" where
  "indent_width t = fold (\<lambda>c col. if c = char_of (9::nat) then col + (2 - col mod 2) else col + 1) t 0"

definition cut_marker :: "string \<Rightarrow> string \<Rightarrow> bool \<times> string" where
  "cut_marker marker t =
     (if ends_with t marker then (True, rstrip (take (length t - length marker) t)) else (False, t))"

definition read_item :: "char \<Rightarrow> string \<Rightarrow> step_status \<times> string" where
  "read_item mark text =
     (let t1 = snd (cut_marker unverified_marker text);
          (review, t2) = cut_marker needs_review_marker t1;
          is_blocked = starts_with (py_lower t2) blocked_prefix;
          t3 = if is_blocked then py_strip (drop (length blocked_prefix) t2) else t2
      in (if is_blocked then StBlocked else if lower_char mark = CHR ''x'' then StDone
          else if review then StReview else StPending, t3))"

record md_state =
  md_steps :: "plan_step list"
  md_warnings :: "string list"
  md_stack :: "(nat \<times> string) list"
  md_order :: nat

definition md_warn :: "nat \<Rightarrow> string \<Rightarrow> md_state \<Rightarrow> md_state" where
  "md_warn lineno what st = st\<lparr>md_warnings := md_warnings st @ [''line '' @ str_nat lineno @ '': '' @ what]\<rparr>"

text \<open>The head of \<open>stack\<close> is the innermost open step.\<close>

definition md_push :: "(string \<Rightarrow> string) \<Rightarrow> nat \<Rightarrow> step_status \<Rightarrow> string \<Rightarrow> md_state \<Rightarrow> md_state" where
  "md_push sha indent status title st =
     (let sid = stable_step_id sha title (md_order st);
          stack = dropWhile (\<lambda>(w, i). indent \<le> w) (md_stack st);
          depends = (case stack of [] \<Rightarrow> [] | (w, i) # _ \<Rightarrow> [i])
      in st\<lparr>md_steps := md_steps st @ [\<lparr>ps_id = sid, ps_title = title, ps_status = status, ps_depends = depends,
                                      ps_evidence = [], ps_notes = [], ps_verified = False\<rparr>],
            md_stack := (indent, sid) # stack, md_order := md_order st + 1\<rparr>)"

definition md_line :: "(string \<Rightarrow> string) \<Rightarrow> nat \<times> string \<Rightarrow> md_state \<Rightarrow> md_state" where
  "md_line sha numbered st =
     (let (lineno, line) = numbered
      in if py_strip line = [] then st
         else case checkbox line of
           None \<Rightarrow> if is_bullet_line line then md_warn lineno ''could not parse as a checklist item'' st else st
         | Some (indent, mark, text) \<Rightarrow>
             let (status, title) = read_item mark text
             in if title = [] then md_warn lineno ''checklist item has no text'' st
                else md_push sha (indent_width indent) status title st)"

definition md_start :: md_state where
  "md_start = \<lparr>md_steps = [], md_warnings = [], md_stack = [], md_order = 0\<rparr>"

definition from_markdown :: "(string \<Rightarrow> string) \<Rightarrow> string \<Rightarrow> int \<Rightarrow> checklist" where
  "from_markdown sha text revision =
     (let lines = splitlines text; st = fold (md_line sha) (zip [1..<length lines + 1] lines) md_start
      in \<lparr>pd_steps = md_steps st, pd_revision = max 1 revision, pd_warnings = md_warnings st\<rparr>)"

section \<open>Writing a checklist\<close>

definition by_id :: "plan_step list \<Rightarrow> (string, plan_step) dict" where
  "by_id steps = fold (\<lambda>s. dset (ps_id s) s) steps []"

text \<open>
  The nesting depth follows single dependencies until one has been seen. Every call but the last adds
  an id that was not yet seen, so the walk ends even on cyclic dependencies.
\<close>

definition step_ids :: "(string, plan_step) dict \<Rightarrow> string set" where
  "step_ids ids = ps_id ` snd ` set ids"

function depth :: "(string, plan_step) dict \<Rightarrow> plan_step \<Rightarrow> string list \<Rightarrow> nat" where
  "depth ids s seen =
     (case ps_depends s of
        [p] \<Rightarrow>
          (case dget ids p of
             None \<Rightarrow> 0
           | Some parent \<Rightarrow> if ps_id parent \<in> set seen then 0 else 1 + depth ids parent (ps_id s # seen))
      | _ \<Rightarrow> 0)"
  by pat_completeness auto

lemma depth_decreases:
  assumes "dget ids p = Some parent" "ps_id parent \<notin> set seen"
  defines "left \<equiv> \<lambda>x s. 2 * card (step_ids ids - set s) + (if x \<in> step_ids ids - set s then 0 else 1)"
  shows "left (ps_id parent) (i # seen) < left i seen"
proof -
  have fin: "finite (step_ids ids)" by (simp add: step_ids_def)
  have parent: "ps_id parent \<in> step_ids ids"
    using dget_SomeD [OF assms(1)] by (force simp: step_ids_def)
  show ?thesis
  proof (cases "i \<in> step_ids ids - set seen")
    case True
    then have "step_ids ids - set (i # seen) \<subset> step_ids ids - set seen" by auto
    then have "card (step_ids ids - set (i # seen)) < card (step_ids ids - set seen)"
      using fin by (intro psubset_card_mono) auto
    with True show ?thesis by (simp add: left_def)
  next
    case False
    then have same: "step_ids ids - set (i # seen) = step_ids ids - set seen" by auto
    have "ps_id parent \<in> step_ids ids - set seen" using parent assms(2) by simp
    then have "left (ps_id parent) (i # seen) = 2 * card (step_ids ids - set seen)"
      unfolding left_def same by (simp only: if_True)
    moreover have "left i seen = 2 * card (step_ids ids - set seen) + 1" using False by (simp only: left_def if_False)
    ultimately show ?thesis by simp
  qed
qed

termination depth
  by (relation "measure (\<lambda>(ids, s, seen). 2 * card (step_ids ids - set seen)
        + (if ps_id s \<in> step_ids ids - set seen then 0 else 1))")
    (simp, use depth_decreases in \<open>simp only: in_measure prod.case\<close>)

declare depth.simps [simp del]

definition md_render :: "(string, plan_step) dict \<Rightarrow> plan_step \<Rightarrow> string" where
  "md_render ids s =
     concat (replicate (depth ids s []) ''  '') @ ''- ['' @ (if ps_status s = StDone then ''x'' else '' '') @ ''] ''
       @ (if ps_status s = StBlocked then blocked_prefix @ '' '' @ ps_title s else ps_title s)
       @ (if ps_status s = StDone \<and> \<not> ps_verified s then '' '' @ unverified_marker
          else if ps_status s = StReview then '' '' @ needs_review_marker else [])"

definition to_markdown :: "checklist \<Rightarrow> string" where
  "to_markdown p = join_lines (map (md_render (by_id (pd_steps p))) (pd_steps p))"

section \<open>Coverage of requirements\<close>

text \<open>\<open>[^\W\d_]+\<close> on 8-bit characters: letters, and the superscripts and fractions that are no decimal digits.\<close>

definition is_letter :: "char \<Rightarrow> bool" where
  "is_letter c =
     (let n = (of_char c :: nat)
      in (65 \<le> n \<and> n \<le> 90) \<or> (97 \<le> n \<and> n \<le> 122) \<or> (192 \<le> n \<and> n \<noteq> 215 \<and> n \<noteq> 247)
         \<or> n \<in> {170, 178, 179, 181, 185, 186, 188, 189, 190})"

fun letter_runs :: "string \<Rightarrow> string \<Rightarrow> string list" where
  "letter_runs cur [] = (if cur = [] then [] else [cur])"
| "letter_runs cur (c # cs) =
     (if is_letter c then letter_runs (cur @ [c]) cs
      else if cur = [] then letter_runs [] cs else cur # letter_runs [] cs)"

text \<open>
  The letter without its accent (the decomposition drops the combining mark) and the compatibility
  forms of the superscripts. The micro sign and the fractions decompose into characters outside the
  8-bit range and stay as they are: no other 8-bit text decomposes into the same characters.
\<close>

definition fold_char :: "char \<Rightarrow> char" where
  "fold_char c =
     (let n = (of_char c :: nat)
      in if 192 \<le> n \<and> n \<le> 197 then CHR ''A'' else if n = 199 then CHR ''C''
         else if 200 \<le> n \<and> n \<le> 203 then CHR ''E'' else if 204 \<le> n \<and> n \<le> 207 then CHR ''I''
         else if n = 209 then CHR ''N'' else if 210 \<le> n \<and> n \<le> 214 then CHR ''O''
         else if 217 \<le> n \<and> n \<le> 220 then CHR ''U'' else if n = 221 then CHR ''Y''
         else if 224 \<le> n \<and> n \<le> 229 \<or> n = 170 then CHR ''a'' else if n = 231 then CHR ''c''
         else if 232 \<le> n \<and> n \<le> 235 then CHR ''e'' else if 236 \<le> n \<and> n \<le> 239 then CHR ''i''
         else if n = 241 then CHR ''n'' else if 242 \<le> n \<and> n \<le> 246 \<or> n = 186 then CHR ''o''
         else if 249 \<le> n \<and> n \<le> 252 then CHR ''u'' else if n = 253 \<or> n = 255 then CHR ''y''
         else if n = 178 then CHR ''2'' else if n = 179 then CHR ''3'' else if n = 185 then CHR ''1'' else c)"

definition coverage_words :: "string \<Rightarrow> string list" where
  "coverage_words t = remdups (map (\<lambda>w. map fold_char (py_lower w)) (filter (\<lambda>w. 3 \<le> length w) (letter_runs [] t)))"

text \<open>\<open>len(a & b) / len(a)\<close>\<close>

definition overlap :: "string list \<Rightarrow> string list \<Rightarrow> real" where
  "overlap a b = real (length (filter (\<lambda>w. w \<in> set b) a)) / real (length a)"

definition overlap_threshold :: real where
  "overlap_threshold = 1 / 2"

definition covering :: "plan_step list \<Rightarrow> string list \<Rightarrow> string list" where
  "covering steps req_words =
     map ps_id (filter (\<lambda>s. let words = coverage_words (ps_title s)
       in words \<noteq> [] \<and> overlap_threshold \<le> overlap req_words words) steps)"

record coverage_report =
  cr_covered :: "(string, string list) dict"
  cr_uncovered :: "string list"
  cr_total :: nat

fun coverage_scan :: "plan_step list \<Rightarrow> string list \<Rightarrow> coverage_report \<Rightarrow> coverage_report" where
  "coverage_scan steps [] acc = acc"
| "coverage_scan steps (req # reqs) acc =
     (let words = coverage_words req
      in if words = [] then coverage_scan steps reqs acc
         else let matches = covering steps words; acc1 = acc\<lparr>cr_total := cr_total acc + 1\<rparr>
              in coverage_scan steps reqs
                   (if matches \<noteq> [] then acc1\<lparr>cr_covered := dset req matches (cr_covered acc)\<rparr>
                    else acc1\<lparr>cr_uncovered := cr_uncovered acc @ [req]\<rparr>))"

definition coverage :: "checklist \<Rightarrow> string list \<Rightarrow> coverage_report \<times> nat \<times> bool" where
  "coverage p requirements =
     (let r = coverage_scan (pd_steps p) requirements \<lparr>cr_covered = [], cr_uncovered = [], cr_total = 0\<rparr>
      in (r, length (cr_covered r), cr_uncovered r = []))"

section \<open>Steering\<close>

definition steer_note :: "string \<Rightarrow> string" where
  "steer_note text = (if py_strip text \<noteq> [] then ''steer: '' @ take 200 (py_strip text) else ''steer'')"

definition steered :: "string list \<Rightarrow> plan_step \<Rightarrow> bool" where
  "steered words s \<longleftrightarrow> ps_status s = StPending
     \<and> (let step_words = coverage_words (ps_title s)
        in overlap_threshold \<le> (if step_words \<noteq> [] then overlap step_words words else 0))"

definition steer_step :: "string \<Rightarrow> plan_step \<Rightarrow> plan_step" where
  "steer_step note s =
     s\<lparr>ps_status := StReview,
       ps_notes := if ps_notes s \<noteq> [] then py_strip (ps_notes s @ newline # note) else note\<rparr>"

definition apply_steer :: "checklist \<Rightarrow> string \<Rightarrow> checklist \<times> string list" where
  "apply_steer p text =
     (let words = coverage_words text
      in if words = [] \<or> pd_steps p = [] then (p, [])
         else let affected = map ps_id (filter (steered words) (pd_steps p))
              in if affected = [] then (p, [])
                 else (\<lparr>pd_steps = map (\<lambda>s. if steered words s then steer_step (steer_note text) s else s) (pd_steps p),
                        pd_revision = pd_revision p + 1, pd_warnings = pd_warnings p\<rparr>, affected))"

section \<open>The structured form\<close>

fun read_steps :: "(string \<Rightarrow> string) \<Rightarrow> (json \<Rightarrow> string) \<Rightarrow> nat \<Rightarrow> json list \<Rightarrow> pyerr + plan_step list" where
  "read_steps sha repr i [] = Inr []"
| "read_steps sha repr i (raw # raws) =
     (case (case raw of
              JObj d \<Rightarrow> (case step_from_dict sha repr d i of Inl e \<Rightarrow> Inl e
                        | Inr s \<Rightarrow> Inr (if ps_title s \<noteq> [] then [s] else []))
            | JStr t \<Rightarrow>
                Inr (if py_strip t = [] then []
                     else [\<lparr>ps_id = stable_step_id sha (py_strip t) i, ps_title = py_strip t, ps_status = StPending,
                            ps_depends = [], ps_evidence = [], ps_notes = [], ps_verified = False\<rparr>])
            | _ \<Rightarrow> Inr []) of
        Inl e \<Rightarrow> Inl e
      | Inr now \<Rightarrow>
          (case read_steps sha repr (i + 1) raws of Inl e \<Rightarrow> Inl e | Inr rest \<Rightarrow> Inr (now @ rest)))"

definition parse_steps_input ::
  "(string \<Rightarrow> string) \<Rightarrow> (json \<Rightarrow> string) \<Rightarrow> json \<Rightarrow> int \<Rightarrow> pyerr + checklist option" where
  "parse_steps_input sha repr data default_revision =
     (case data of
        JObj d \<Rightarrow>
          (case dget d ''steps'' of
             Some (JArr raws) \<Rightarrow>
               (case read_steps sha repr 0 raws of
                  Inl e \<Rightarrow> Inl e
                | Inr steps \<Rightarrow>
                    (case py_int (dget_or d ''revision'' (JInt default_revision)) of
                       Inl OverflowError \<Rightarrow> Inl OverflowError
                     | Inl e \<Rightarrow> Inr (Some \<lparr>pd_steps = steps, pd_revision = max 1 default_revision, pd_warnings = []\<rparr>)
                     | Inr r \<Rightarrow> Inr (Some \<lparr>pd_steps = steps, pd_revision = max 1 r, pd_warnings = []\<rparr>)))
           | _ \<Rightarrow> Inr None)
      | _ \<Rightarrow> Inr None)"

end
