(* ===== verification/Plan_Roundtrip.thy ===== *)
theory Plan_Roundtrip
  imports Plan_State
begin

text \<open>
  Printing and reading checklists: what \<open>from_markdown\<close> reads, \<open>to_markdown\<close> prints so that reading
  it again gives the same steps. The lemmas read one printed line, follow the stack of open steps
  through a replay with normalised indentation, and compute the printer's depth.
\<close>

section \<open>Reading one printed line\<close>

lemma ends_with_iff: "ends_with t p \<longleftrightarrow> (\<exists>r. t = r @ p)"
  unfolding ends_with_def starts_with_iff
  by (metis append.assoc rev_append rev_rev_ident)

definition pad :: "nat \<Rightarrow> string" where
  "pad n = concat (replicate n ''  '')"

lemma pad_Suc: "pad (Suc n) = CHR '' '' # CHR '' '' # pad n"
  by (simp add: pad_def)

lemma tab_char [simp]: "char_of (9::nat) \<noteq> CHR ''-''" "CHR ''-'' \<noteq> char_of (9::nat)" "\<not> is_blank CHR ''-''"
  by (simp_all add: char_of_def is_blank_def)

lemma pad_blank: "takeWhile is_blank (pad n @ CHR ''-'' # t) = pad n" "dropWhile is_blank (pad n @ CHR ''-'' # t) = CHR ''-'' # t"
  by (induction n) (simp_all add: pad_def is_blank_def)

lemma pad_width_from: "fold (\<lambda>c col. if c = char_of (9::nat) then col + (2 - col mod 2) else col + 1) (pad n) w = w + 2 * n"
  by (induction n arbitrary: w) (simp_all add: pad_def char_of_def)

lemma indent_width_pad [simp]: "indent_width (pad n) = 2 * n"
  unfolding indent_width_def using pad_width_from [of n 0] by simp

lemma space_chars [simp]: "is_space CHR '' ''" "\<not> is_space CHR ''[''" "\<not> is_space CHR '']''" "\<not> is_space CHR ''>''"
  "\<not> is_space CHR ''-''" "\<not> is_space CHR ''x''"
  by (simp_all add: is_space_def)

lemma checkbox_printed:
  assumes "stripped body" "m = CHR '' '' \<or> m = CHR ''x''"
  shows "checkbox (pad n @ ''- ['' @ m # ''] '' @ body) = Some (pad n, m, body)"
proof -
  have "py_strip (CHR '' '' # body) = py_strip body" by (simp add: py_strip_def)
  then have "py_strip (CHR '' '' # body) = body" using assms(1) by simp
  then show ?thesis using assms(2) by (auto simp: checkbox_def pad_blank starts_space_def lstrip_def)
qed

text \<open>A title the parser can produce, and one that carries no marker of the printer.\<close>

definition title_ok :: "step_status \<Rightarrow> string \<Rightarrow> bool" where
  "title_ok status t \<longleftrightarrow> stripped t \<and> t \<noteq> [] \<and> one_line t
     \<and> (status \<noteq> StBlocked \<longrightarrow> \<not> starts_with (py_lower t) blocked_prefix)"

definition unmarked :: "string \<Rightarrow> bool" where
  "unmarked t \<longleftrightarrow> \<not> ends_with t unverified_marker \<and> \<not> ends_with t needs_review_marker"

lemma cut_marker_none: "\<not> ends_with t marker \<Longrightarrow> cut_marker marker t = (False, t)"
  by (simp add: cut_marker_def)

lemma cut_marker_hit: "stripped t \<Longrightarrow> cut_marker marker (t @ CHR '' '' # marker) = (True, t)"
proof -
  assume t: "stripped t"
  have "ends_with (t @ CHR '' '' # marker) marker" unfolding ends_with_iff by (rule exI [of _ "t @ '' ''"]) simp
  moreover have "rstrip (t @ '' '') = t" using t rstrip_snoc [of t "CHR '' ''"] by (auto simp: stripped_def rstrip_id)
  ultimately show ?thesis by (simp add: cut_marker_def)
qed

lemma other_marker: "\<not> ends_with (t @ CHR '' '' # needs_review_marker) unverified_marker"
  by (simp add: ends_with_def needs_review_marker_def unverified_marker_def)

definition body_of :: "plan_step \<Rightarrow> string" where
  "body_of s =
     (if ps_status s = StBlocked then blocked_prefix @ CHR '' '' # ps_title s
      else if ps_status s = StDone then ps_title s @ CHR '' '' # unverified_marker
      else if ps_status s = StReview then ps_title s @ CHR '' '' # needs_review_marker else ps_title s)"

lemma body_stripped:
  assumes "title_ok (ps_status s) (ps_title s)"
  shows "stripped (body_of s)"
  using assms by (auto simp: body_of_def stripped_def title_ok_def blocked_prefix_def unverified_marker_def needs_review_marker_def)

lemma unmarked_blocked: "unmarked t \<Longrightarrow> t \<noteq> [] \<Longrightarrow> unmarked (blocked_prefix @ CHR '' '' # t)"
proof -
  assume t: "unmarked t" "t \<noteq> []"
  have key: "\<exists>r. t = r @ p" if b: "blocked_prefix @ CHR '' '' # t = r @ p" and p: "p = unverified_marker \<or> p = needs_review_marker" for r p
  proof -
    from b obtain us where us: "r = (blocked_prefix @ '' '') @ us \<and> t = us @ p \<or> blocked_prefix @ '' '' = r @ us \<and> us @ t = p"
      using append_eq_append_conv2 [of "blocked_prefix @ '' ''" t r p] by auto
    show ?thesis
    proof (cases "us = [] \<or> t = us @ p")
      case False
      with us have two: "us \<noteq> []" "blocked_prefix @ '' '' = r @ us" "us @ t = p" by auto
      then have "hd us = CHR ''<''"
        using p by (cases us) (auto simp: unverified_marker_def needs_review_marker_def)
      moreover have "CHR ''<'' \<notin> set (blocked_prefix @ '' '')" by (simp add: blocked_prefix_def)
      moreover have "hd us \<in> set (blocked_prefix @ '' '')" unfolding two(2) using two(1) by simp
      ultimately show ?thesis by simp
    qed (use us in auto)
  qed
  then show ?thesis using t unfolding unmarked_def ends_with_iff by blast
qed

lemma lower_prefix: "starts_with (py_lower (blocked_prefix @ CHR '' '' # t)) blocked_prefix"
  unfolding starts_with_iff by (rule exI [of _ "py_lower (CHR '' '' # t)"]) (simp add: py_lower_def blocked_prefix_def lower_char_def)

lemma read_item_printed:
  assumes ok: "title_ok (ps_status s) (ps_title s)" and um: "unmarked (ps_title s)"
  shows "read_item (if ps_status s = StDone then CHR ''x'' else CHR '' '') (body_of s) = (ps_status s, ps_title s)"
proof -
  have t: "stripped (ps_title s)" "ps_title s \<noteq> []" using ok by (auto simp: title_ok_def)
  have x: "lower_char CHR ''x'' = CHR ''x''" "lower_char CHR '' '' = CHR '' ''" by (simp_all add: lower_char_def)
  show ?thesis
  proof (cases "ps_status s")
    case StPending
    with ok um t x show ?thesis
      by (simp add: read_item_def body_of_def cut_marker_none unmarked_def title_ok_def)
  next
    case StDone
    with ok um t x show ?thesis
      by (simp add: read_item_def body_of_def cut_marker_none cut_marker_hit unmarked_def title_ok_def)
  next
    case StReview
    with ok um t x show ?thesis
      by (simp add: read_item_def body_of_def cut_marker_none cut_marker_hit other_marker title_ok_def)
  next
    case StBlocked
    have "unmarked (blocked_prefix @ CHR '' '' # ps_title s)" using um t(2) by (rule unmarked_blocked)
    moreover have "py_strip (drop (length blocked_prefix) (blocked_prefix @ CHR '' '' # ps_title s)) = ps_title s"
    proof -
      have "py_strip (CHR '' '' # ps_title s) = py_strip (ps_title s)" by (simp add: py_strip_def)
      with t(1) show ?thesis by simp
    qed
    ultimately show ?thesis using StBlocked x lower_prefix [of "ps_title s"]
      by (simp add: read_item_def body_of_def cut_marker_none unmarked_def Let_def del: append_assoc)
  qed
qed

lemma md_render_body:
  assumes "\<not> ps_verified s"
  shows "md_render ids s =
    pad (depth ids s []) @ ''- ['' @ (if ps_status s = StDone then CHR ''x'' else CHR '' '') # ''] '' @ body_of s"
  using assms by (cases "ps_status s") (simp_all add: md_render_def pad_def body_of_def)

lemma md_line_printed:
  assumes "title_ok (ps_status s) (ps_title s)" "unmarked (ps_title s)" "\<not> ps_verified s"
  shows "md_line sha (k, md_render ids s) st = md_push sha (2 * depth ids s []) (ps_status s) (ps_title s) st"
proof -
  have "checkbox (md_render ids s) =
      Some (pad (depth ids s []), if ps_status s = StDone then CHR ''x'' else CHR '' '', body_of s)"
    unfolding md_render_body [OF assms(3)] by (intro checkbox_printed body_stripped assms(1)) simp
  moreover have "py_strip (md_render ids s) \<noteq> []"
  proof -
    have "\<not> list_all is_space (md_render ids s)" unfolding md_render_body [OF assms(3)] by simp
    then show ?thesis by (simp add: py_strip_Nil_iff)
  qed
  moreover have "ps_title s \<noteq> []" using assms(1) by (simp add: title_ok_def)
  ultimately show ?thesis using read_item_printed [OF assms(1,2)] by (simp add: md_line_def)
qed

section \<open>Nesting\<close>

text \<open>Steps with their nesting level: a root, or a child of an earlier step.\<close>

inductive outline :: "(plan_step \<times> nat) list \<Rightarrow> bool" where
  Empty: "outline []"
| Root: "outline sl \<Longrightarrow> ps_depends s = [] \<Longrightarrow> outline (sl @ [(s, 0)])"
| Child: "outline sl \<Longrightarrow> (q, n) \<in> set sl \<Longrightarrow> ps_depends s = [ps_id q] \<Longrightarrow> outline (sl @ [(s, n + 1)])"

lemma dget_fold_ids:
  "distinct (map ps_id steps) \<Longrightarrow> dget (fold (\<lambda>s. dset (ps_id s) s) steps d) k =
     (case find (\<lambda>s. ps_id s = k) steps of Some s \<Rightarrow> Some s | None \<Rightarrow> dget d k)"
proof (induction steps arbitrary: d)
  case (Cons s steps)
  have "find (\<lambda>s. ps_id s = ps_id s') steps = None" if "s' = s" for s'
    using that Cons.prems by (auto simp: find_None_iff rev_image_eqI)
  with Cons show ?case by (auto split: option.splits)
qed simp

lemma dget_by_id:
  assumes "distinct (map ps_id steps)" "s \<in> set steps"
  shows "dget (by_id steps) (ps_id s) = Some s"
proof -
  have "find (\<lambda>u. ps_id u = ps_id s) steps = Some s"
    using assms by (induction steps) (auto simp: rev_image_eqI)
  with assms(1) show ?thesis by (simp add: by_id_def dget_fold_ids)
qed

text \<open>The depth the printer computes is the nesting level.\<close>

lemma depth_level:
  assumes "outline sl" "distinct (map (ps_id \<circ> fst) sl)"
    "list_all (\<lambda>(s, n). dget ids (ps_id s) = Some s) sl"
    "(s, n) \<in> set sl" "set seen \<inter> ps_id ` fst ` set sl = {}"
  shows "depth ids s seen = n"
  using assms
proof (induction sl arbitrary: s n seen rule: outline.induct)
  case (Root sl r)
  show ?case
  proof (cases "(s, n) \<in> set sl")
    case True
    with Root show ?thesis by auto
  next
    case False
    with Root.prems(3) Root.hyps(2) have "ps_depends s = []" "n = 0" by auto
    then show ?thesis by (simp add: depth.simps [of _ s])
  qed
next
  case (Child sl q l r)
  show ?case
  proof (cases "(s, n) \<in> set sl")
    case True
    with Child show ?thesis by auto
  next
    case False
    with Child.prems(3) have s: "s = r" "n = l + 1" by auto
    have q: "dget ids (ps_id q) = Some q" "ps_id q \<in> ps_id ` fst ` set sl"
      using Child.prems(2) Child.hyps(2) by (force simp: list_all_iff)+
    have "depth ids q (ps_id r # seen) = l"
      using Child.prems Child.hyps(2) by (intro Child.IH) auto
    moreover have "ps_id q \<notin> set seen" using q(2) Child.prems(4) by auto
    ultimately show ?thesis using s q(1) Child.hyps(3) by (simp add: depth.simps [of _ r])
  qed
qed simp

text \<open>Reading as a sequence of pushes, and the stack with normalised widths.\<close>

definition pushes :: "(string \<Rightarrow> string) \<Rightarrow> (nat \<times> step_status \<times> string) list \<Rightarrow> md_state \<Rightarrow> md_state" where
  "pushes sha items st = fold (\<lambda>(w, status, title). md_push sha w status title) items st"

fun relevel :: "(nat \<times> string) list \<Rightarrow> (nat \<times> string) list" where
  "relevel [] = []"
| "relevel ((w, i) # st) = (2 * length st, i) # relevel st"

lemma length_relevel [simp]: "length (relevel st) = length st"
  by (induction st rule: relevel.induct) auto

lemma dropWhile_relevel_drop: "k \<le> length st \<Longrightarrow> dropWhile (\<lambda>(w, i). 2 * k \<le> w) (relevel st) = relevel (drop (length st - k) st)"
proof (induction st rule: relevel.induct)
  case (2 w i st)
  then show ?case
  proof (cases "k = Suc (length st)")
    case True
    then show ?thesis by simp
  next
    case False
    with 2 have "k \<le> length st" by simp
    with 2 show ?thesis by (simp add: Suc_diff_le)
  qed
qed simp

lemma dropWhile_relevel:
  "dropWhile (\<lambda>(w, i). 2 * length (dropWhile P st) \<le> w) (relevel st) = relevel (dropWhile P st)"
proof -
  have "drop (length st - length (dropWhile P st)) st = dropWhile P st"
    by (metis append_eq_conv_conj diff_add_inverse2 length_append takeWhile_dropWhile_id)
  then show ?thesis using dropWhile_relevel_drop [of "length (dropWhile P st)" st] by (simp add: length_dropWhile_le)
qed

fun stack_ok :: "(plan_step \<times> nat) list \<Rightarrow> (nat \<times> string) list \<Rightarrow> bool" where
  "stack_ok sl [] = True"
| "stack_ok sl ((w, i) # st) = (list_ex (\<lambda>(q, n). ps_id q = i \<and> n = length st) sl \<and> stack_ok sl st)"

lemma stack_ok_mono: "stack_ok sl st \<Longrightarrow> set sl \<subseteq> set sl' \<Longrightarrow> stack_ok sl' st"
  by (induction sl st rule: stack_ok.induct) (auto simp: list_ex_iff)

lemma stack_ok_dropWhile: "stack_ok sl st \<Longrightarrow> stack_ok sl (dropWhile P st)"
  by (induction sl st rule: stack_ok.induct) auto

text \<open>After any pushes the steps form an outline, and pushing them again with their levels as indentation gives the same steps.\<close>

definition replayed :: "(string \<Rightarrow> string) \<Rightarrow> (plan_step \<times> nat) list \<Rightarrow> md_state" where
  "replayed sha sl = pushes sha (map (\<lambda>(s, n). (2 * n, ps_status s, ps_title s)) sl) md_start"

definition outlined :: "(string \<Rightarrow> string) \<Rightarrow> (plan_step \<times> nat) list \<Rightarrow> md_state \<Rightarrow> bool" where
  "outlined sha sl st \<longleftrightarrow> map fst sl = md_steps st \<and> outline sl \<and> stack_ok sl (md_stack st)
     \<and> md_steps (replayed sha sl) = md_steps st \<and> md_stack (replayed sha sl) = relevel (md_stack st)
     \<and> md_order (replayed sha sl) = md_order st"

lemma outlined_push:
  assumes "outlined sha sl st"
  shows "\<exists>s n. outlined sha (sl @ [(s, n)]) (md_push sha w status title st)
    \<and> ps_status s = status \<and> ps_title s = title \<and> \<not> ps_verified s"
proof -
  define stack where "stack = dropWhile (\<lambda>(v, i). w \<le> v) (md_stack st)"
  let ?n = "length stack" and ?sid = "stable_step_id sha title (md_order st)"
  define s where "s = \<lparr>ps_id = ?sid, ps_title = title, ps_status = status,
    ps_depends = (case stack of [] \<Rightarrow> [] | (v, i) # _ \<Rightarrow> [i]), ps_evidence = [], ps_notes = [], ps_verified = False\<rparr>"
  have push: "md_push sha w status title st = st\<lparr>md_steps := md_steps st @ [s], md_stack := (w, ?sid) # stack, md_order := md_order st + 1\<rparr>"
    by (simp add: md_push_def s_def Let_def stack_def)
  have ok: "stack_ok sl stack" using assms by (simp add: stack_def outlined_def stack_ok_dropWhile)
  have out: "outline (sl @ [(s, ?n)])"
  proof (cases stack)
    case Nil
    then have "ps_depends s = []" by (simp only: s_def plan_step.simps list.case)
    then show ?thesis using Nil assms outline.Root [of sl s] by (simp add: outlined_def)
  next
    case (Cons p rest)
    obtain v i where "p = (v, i)" by (cases p)
    with Cons ok obtain q where "(q, length rest) \<in> set sl" "ps_id q = i" by (auto simp: list_ex_iff)
    moreover have "ps_depends s = [i]" using Cons \<open>p = (v, i)\<close> by (simp add: s_def)
    ultimately show ?thesis using Cons assms outline.Child [of sl q "length rest" s] by (simp add: outlined_def)
  qed
  let ?r = "replayed sha sl"
  have same: "md_stack ?r = relevel (md_stack st)" "md_order ?r = md_order st" "md_steps ?r = md_steps st"
    using assms by (simp_all add: outlined_def)
  have replay: "replayed sha (sl @ [(s, ?n)]) = md_push sha (2 * ?n) status title ?r"
    by (simp add: replayed_def pushes_def s_def)
  have popped: "dropWhile (\<lambda>(v, i). 2 * ?n \<le> v) (md_stack ?r) = relevel stack"
    unfolding same(1) stack_def by (rule dropWhile_relevel)
  have deps: "(case relevel stack of [] \<Rightarrow> [] | (v, i) # _ \<Rightarrow> [i]) = ps_depends s"
    by (cases stack rule: relevel.cases) (simp_all add: s_def)
  have "md_push sha (2 * ?n) status title ?r = ?r\<lparr>md_steps := md_steps ?r @ [s], md_stack := (2 * ?n, ?sid) # relevel stack, md_order := md_order ?r + 1\<rparr>"
    unfolding md_push_def Let_def popped deps same(2) by (simp add: s_def)
  then have "outlined sha (sl @ [(s, ?n)]) (md_push sha w status title st)"
    unfolding outlined_def replay push using assms out ok same
    by (auto simp: outlined_def s_def intro: stack_ok_mono)
  moreover have "ps_status s = status" "ps_title s = title" "\<not> ps_verified s" by (simp_all add: s_def)
  ultimately show ?thesis by blast
qed

section \<open>What reading produces\<close>

lemma one_line_subset: "one_line t \<Longrightarrow> set u \<subseteq> set t \<Longrightarrow> one_line u"
  by (auto simp: one_line_def list_all_iff)

lemma bullet_subset: "bullet t = Some r \<Longrightarrow> set r \<subseteq> set t"
proof (cases t)
  case (Cons c cs)
  have sub: "set (dropWhile is_digit cs) \<subseteq> set cs" by (auto dest: set_dropWhileD)
  assume "bullet t = Some r"
  then consider "r = cs" | d where "dropWhile is_digit cs = d # r"
    using Cons by (auto split: if_splits list.splits)
  then show ?thesis
  proof cases
    case 2
    then show ?thesis using sub Cons by auto
  qed (use Cons in auto)
qed simp

lemma checkbox_text:
  assumes "checkbox line = Some (indent, mark, text)" "one_line line"
  shows "stripped text" "one_line text"
proof -
  from assms(1) obtain r a b rest where r: "bullet (dropWhile is_blank line) = Some r" "lstrip r = a # mark # b # rest" "text = py_strip rest"
    by (auto simp: checkbox_def split: option.splits if_splits list.splits)
  show "stripped text" unfolding r(3) by simp
  have "set rest \<subseteq> set r" using set_lstrip [of r] r(2) by auto
  moreover have "set r \<subseteq> set line" using bullet_subset [OF r(1)] by (auto dest: set_dropWhileD)
  ultimately have "set text \<subseteq> set line" unfolding r(3) using set_py_strip [of rest] by blast
  with assms(2) show "one_line text" by (rule one_line_subset)
qed

lemma cut_marker_props:
  assumes "stripped t" "one_line t" "cut_marker marker t = (hit, u)"
  shows "stripped u" "one_line u"
proof -
  have "stripped (rstrip (take k t))" for k
  proof (rule stripped_rstrip)
    show "take k t = [] \<or> \<not> is_space (hd (take k t))" using assms(1) by (cases t; cases k) (auto simp: stripped_def)
  qed
  moreover have "one_line (rstrip (take k t))" for k
    by (rule one_line_subset [OF assms(2)]) (meson set_rstrip set_take_subset subset_trans)
  ultimately show "stripped u" "one_line u" using assms by (auto simp: cut_marker_def split: if_splits)
qed

lemma read_item_ok:
  assumes "read_item mark text = (status, title)" "stripped text" "one_line text" "title \<noteq> []"
  shows "title_ok status title"
proof -
  obtain h1 t1 where c1: "cut_marker unverified_marker text = (h1, t1)" by fastforce
  obtain review t2 where c2: "cut_marker needs_review_marker t1 = (review, t2)" by fastforce
  have t1: "stripped t1" "one_line t1" using cut_marker_props [OF assms(2,3) c1] by auto
  have t2: "stripped t2" "one_line t2" using cut_marker_props [OF t1 c2] by auto
  show ?thesis
  proof (cases "starts_with (py_lower t2) blocked_prefix")
    case True
    have "title = py_strip (drop (length blocked_prefix) t2)" "status = StBlocked"
      using assms(1) True c1 c2 by (auto simp: read_item_def Let_def)
    moreover have "one_line (py_strip (drop (length blocked_prefix) t2))"
      by (rule one_line_subset [OF t2(2)]) (meson set_py_strip set_drop_subset subset_trans)
    ultimately show ?thesis using assms(4) by (simp add: title_ok_def)
  next
    case False
    then have "title = t2" using assms(1) c1 c2 by (auto simp: read_item_def Let_def)
    with False t2 assms(4) show ?thesis by (simp add: title_ok_def)
  qed
qed

abbreviation readable :: "plan_step \<Rightarrow> bool" where
  "readable s \<equiv> title_ok (ps_status s) (ps_title s) \<and> \<not> ps_verified s"

lemma outlined_warn: "outlined sha sl (md_warn k w st) = outlined sha sl st"
  by (simp add: outlined_def md_warn_def)

lemma outlined_line:
  assumes "outlined sha sl st" "list_all (readable \<circ> fst) sl" "one_line line"
  shows "\<exists>sl'. outlined sha sl' (md_line sha (k, line) st) \<and> list_all (readable \<circ> fst) sl'"
proof (cases "py_strip line = [] \<or> checkbox line = None")
  case True
  then have "outlined sha sl (md_line sha (k, line) st)" using assms(1) by (auto simp: md_line_def outlined_warn)
  with assms(2) show ?thesis by blast
next
  case False
  then obtain indent mark body where box: "checkbox line = Some (indent, mark, body)" "py_strip line \<noteq> []" by auto
  obtain status title where item: "read_item mark body = (status, title)" by fastforce
  show ?thesis
  proof (cases "title = []")
    case True
    then have "outlined sha sl (md_line sha (k, line) st)" using assms(1) box item by (simp add: md_line_def outlined_warn)
    with assms(2) show ?thesis by blast
  next
    case False
    have ok: "title_ok status title" using read_item_ok [OF item checkbox_text [OF box(1) assms(3)] False] .
    obtain s n where s: "outlined sha (sl @ [(s, n)]) (md_push sha (indent_width indent) status title st)"
      "ps_status s = status" "ps_title s = title" "\<not> ps_verified s"
      using outlined_push [OF assms(1)] by blast
    have "md_line sha (k, line) st = md_push sha (indent_width indent) status title st"
      using box item False by (simp add: md_line_def)
    moreover have "list_all (readable \<circ> fst) (sl @ [(s, n)])" using assms(2) s ok by simp
    ultimately show ?thesis using s(1) by metis
  qed
qed

lemma outlined_lines:
  "outlined sha sl st \<Longrightarrow> list_all (readable \<circ> fst) sl \<Longrightarrow> list_all (one_line \<circ> snd) ls \<Longrightarrow>
    \<exists>sl'. outlined sha sl' (fold (md_line sha) ls st) \<and> list_all (readable \<circ> fst) sl'"
proof (induction ls arbitrary: sl st)
  case (Cons l ls)
  obtain k line where l: "l = (k, line)" by (cases l)
  have "one_line line" using Cons.prems(3) l by simp
  from outlined_line [OF Cons.prems(1,2) this] obtain sl' where
    sl': "outlined sha sl' (md_line sha l st)" "list_all (readable \<circ> fst) sl'" unfolding l by blast
  have "list_all (one_line \<circ> snd) ls" using Cons.prems(3) by (simp add: comp_def)
  from Cons.IH [OF sl' this] show ?case by simp
qed auto

lemma outlined_start: "outlined sha [] md_start"
  by (simp add: outlined_def md_start_def replayed_def pushes_def outline.Empty)

lemma from_markdown_outlined:
  obtains sl st where "outlined sha sl st" "list_all (readable \<circ> fst) sl"
    "pd_steps (from_markdown sha text revision) = map fst sl"
proof -
  let ?ls = "zip [1..<length (splitlines text) + 1] (splitlines text)"
  have lines: "list_all one_line (splitlines text)" by (rule split_lines_one_line) (simp add: one_line_def)
  have "list_all (one_line \<circ> snd) ?ls" using lines by (auto simp: list_all_iff dest: set_zip_rightD)
  then obtain sl where sl: "outlined sha sl (fold (md_line sha) ?ls md_start)" "list_all (readable \<circ> fst) sl"
    using outlined_lines [OF outlined_start] by auto
  then have "pd_steps (from_markdown sha text revision) = map fst sl" by (simp add: from_markdown_def Let_def outlined_def)
  with sl show thesis by (rule that)
qed

section \<open>Reading what was printed\<close>

lemma one_line_append [simp]: "one_line (a @ b) \<longleftrightarrow> one_line a \<and> one_line b" "one_line (c # b) \<longleftrightarrow> \<not> is_line_end c \<and> one_line b" "one_line []"
  by (simp_all add: one_line_def)

lemma md_render_line:
  assumes "readable s"
  shows "one_line (md_render ids s)" "md_render ids s \<noteq> []"
proof -
  have p: "one_line (pad n)" for n by (induction n) (simp_all add: pad_def is_line_end_def)
  have "one_line (body_of s)"
    using assms by (simp add: body_of_def title_ok_def blocked_prefix_def unverified_marker_def needs_review_marker_def is_line_end_def)
  with p assms show "one_line (md_render ids s)" by (simp add: md_render_body is_line_end_def)
  show "md_render ids s \<noteq> []" using assms by (simp add: md_render_body)
qed

lemma fold_printed:
  assumes "list_all (\<lambda>(s, n). readable s \<and> unmarked (ps_title s) \<and> depth ids s [] = n) sl" "length ks = length sl"
  shows "fold (md_line sha) (zip ks (map (md_render ids \<circ> fst) sl)) st =
    pushes sha (map (\<lambda>(s, n). (2 * n, ps_status s, ps_title s)) sl) st"
  using assms
proof (induction sl arbitrary: ks st)
  case (Cons p sl)
  obtain s n where p: "p = (s, n)" by (cases p)
  obtain k ks' where ks: "ks = k # ks'" using Cons.prems(2) by (cases ks) auto
  have "md_line sha (k, md_render ids s) st = md_push sha (2 * n) (ps_status s) (ps_title s) st"
    using Cons.prems(1) p md_line_printed [of s sha k ids st] by simp
  with Cons p ks show ?case by (simp add: pushes_def)
qed (simp add: pushes_def)

lemma reading_printed:
  assumes out: "outlined sha sl st" and ok: "list_all (readable \<circ> fst) sl" and dist: "distinct (map (ps_id \<circ> fst) sl)"
    and um: "list_all (unmarked \<circ> ps_title \<circ> fst) sl"
  shows "pd_steps (from_markdown sha (to_markdown \<lparr>pd_steps = map fst sl, pd_revision = r, pd_warnings = ws\<rparr>) r') = map fst sl"
proof -
  let ?steps = "map fst sl" and ?ids = "by_id (map fst sl)"
  let ?lines = "map (md_render ?ids \<circ> fst) sl"
  have ids: "list_all (\<lambda>(s, n). dget ?ids (ps_id s) = Some s) sl"
    using dist by (auto simp: list_all_iff intro!: dget_by_id simp: rev_image_eqI)
  have "depth ?ids s [] = n" if "(s, n) \<in> set sl" for s n
    using out dist ids that by (intro depth_level [of sl]) (auto simp: outlined_def)
  then have all: "list_all (\<lambda>(s, n). readable s \<and> unmarked (ps_title s) \<and> depth ?ids s [] = n) sl"
    using ok um by (auto simp: list_all_iff)
  have "splitlines (join_lines ?lines) = ?lines"
    using ok md_render_line by (intro splitlines_join) (auto simp: list_all_iff)
  then have "from_markdown sha (to_markdown \<lparr>pd_steps = ?steps, pd_revision = r, pd_warnings = ws\<rparr>) r' =
      \<lparr>pd_steps = md_steps (replayed sha sl), pd_revision = max 1 r', pd_warnings = md_warnings (replayed sha sl)\<rparr>"
    using fold_printed [OF all, of "[1..<length sl + 1]" sha md_start]
    by (simp add: from_markdown_def to_markdown_def Let_def replayed_def del: upt_Suc)
  with out show ?thesis by (simp add: outlined_def)
qed

end
