(* ===== verification/Plan_Theorems.thy ===== *)
theory Plan_Theorems
  imports Plan_Roundtrip
begin

text \<open>
  What the plan component promises: printed checklists read back, steering touches pending steps
  only and only once, coverage classifies every requirement, and which structured inputs raise.
\<close>

section \<open>Round trip\<close>

text \<open>
  C17: Reading a checklist, printing it and reading it again gives the same steps: ids, titles,
  statuses, nesting, notes and flags. It needs that no two steps hash to the same id and that no
  title still ends in one of the printer's own markers.
\<close>
theorem reparse_keeps_steps:
  assumes "distinct (map ps_id (pd_steps (from_markdown sha text revision)))"
    and "list_all (unmarked \<circ> ps_title) (pd_steps (from_markdown sha text revision))"
  shows "pd_steps (from_markdown sha (to_markdown (from_markdown sha text revision)) revision') = pd_steps (from_markdown sha text revision)"
proof -
  obtain sl st where sl: "outlined sha sl st" "list_all (readable \<circ> fst) sl"
    "pd_steps (from_markdown sha text revision) = map fst sl"
    by (rule from_markdown_outlined)
  have printed: "to_markdown p = to_markdown \<lparr>pd_steps = pd_steps p, pd_revision = 1, pd_warnings = []\<rparr>" for p
    by (simp add: to_markdown_def)
  have "distinct (map (ps_id \<circ> fst) sl)" "list_all (unmarked \<circ> ps_title \<circ> fst) sl"
    using assms unfolding sl(3) by (simp_all add: list.pred_map comp_def)
  from reading_printed [OF sl(1,2) this] show ?thesis
    unfolding sl(3) by (subst printed) (simp add: sl(3))
qed

text \<open>Nothing read off a checklist is verified, so the flag of a verified step does not survive printing and reading.\<close>

lemma checklist_unverified: "list_all (\<lambda>s. \<not> ps_verified s) (pd_steps (from_markdown sha text revision))"
proof -
  obtain sl st where "outlined sha sl st" "list_all (readable \<circ> fst) sl" "pd_steps (from_markdown sha text revision) = map fst sl"
    by (rule from_markdown_outlined)
  then show ?thesis by (auto simp: list_all_iff)
qed

section \<open>Steering\<close>

lemma steered_step: "\<not> steered words (steer_step note s)"
  by (simp add: steered_def steer_step_def)

lemma steered_Nil [simp]: "\<not> steered [] s"
  by (simp add: steered_def overlap_def overlap_threshold_def)

text \<open>
  A steer moves exactly the pending steps it overlaps to review, keeps every other step, all
  ids, titles and dependencies, and the number of done steps, raises the revision by one when it
  moved any, and applying it again changes nothing.
\<close>
theorem steer_reopens_pending_once:
  "case apply_steer p text of (p', ids) \<Rightarrow>
     pd_steps p' = map (\<lambda>s. if steered (coverage_words text) s then steer_step (steer_note text) s else s) (pd_steps p)
     \<and> map (\<lambda>s. (ps_id s, ps_title s, ps_depends s)) (pd_steps p') = map (\<lambda>s. (ps_id s, ps_title s, ps_depends s)) (pd_steps p)
     \<and> pd_revision p' = (if ids = [] then pd_revision p else pd_revision p + 1)
     \<and> pd_counts p' = pd_counts p
     \<and> apply_steer p' text = (p', [])"
proof -
  let ?w = "coverage_words text" and ?n = "steer_note text"
  let ?new = "map (\<lambda>s. if steered ?w s then steer_step ?n s else s)"
  have none: "?new ss = ss" if "filter (steered ?w) ss = []" for ss
    using that by (induction ss) (auto split: if_splits)
  have keep: "map (\<lambda>s. (ps_id s, ps_title s, ps_depends s)) (?new ss) = map (\<lambda>s. (ps_id s, ps_title s, ps_depends s)) ss" for ss
    by (induction ss) (simp_all add: steer_step_def)
  have counts: "length (filter (\<lambda>s. ps_status s = StDone) (?new ss)) = length (filter (\<lambda>s. ps_status s = StDone) ss)" for ss
    by (induction ss) (auto simp: steer_step_def steered_def)
  have again: "filter (steered ?w) (?new ss) = []" for ss
    by (induction ss) (auto simp: steered_step)
  show ?thesis
  proof (cases "?w = [] \<or> pd_steps p = [] \<or> filter (steered ?w) (pd_steps p) = []")
    case True
    then have eq: "apply_steer p text = (p, [])" by (auto simp: apply_steer_def Let_def)
    have "filter (steered ?w) (pd_steps p) = []" using True by auto
    with none have "?new (pd_steps p) = pd_steps p" .
    with eq show ?thesis by simp
  next
    case False
    then have eq: "apply_steer p text = (\<lparr>pd_steps = ?new (pd_steps p), pd_revision = pd_revision p + 1, pd_warnings = pd_warnings p\<rparr>,
        map ps_id (filter (steered ?w) (pd_steps p)))" by (simp add: apply_steer_def Let_def)
    have twice: "apply_steer q text = (q, [])" if "pd_steps q = ?new (pd_steps p)" for q
      unfolding apply_steer_def that Let_def again by simp
    show ?thesis using False keep counts unfolding eq by (simp add: twice pd_counts_def cong: map_cong)
  qed
qed

section \<open>Coverage\<close>

definition checkable :: "string \<Rightarrow> bool" where
  "checkable req \<longleftrightarrow> coverage_words req \<noteq> []"

lemma coverage_scan_spec:
  "cr_total (coverage_scan steps reqs acc) = cr_total acc + length (filter checkable reqs)
   \<and> cr_uncovered (coverage_scan steps reqs acc) =
       cr_uncovered acc @ filter (\<lambda>r. checkable r \<and> covering steps (coverage_words r) = []) reqs
   \<and> (\<forall>r. dget (cr_covered (coverage_scan steps reqs acc)) r =
       (if r \<in> set reqs \<and> checkable r \<and> covering steps (coverage_words r) \<noteq> [] then Some (covering steps (coverage_words r))
        else dget (cr_covered acc) r))"
proof (induction steps reqs acc rule: coverage_scan.induct)
  case (2 steps req reqs acc)
  let ?words = "coverage_words req" and ?m = "covering steps (coverage_words req)"
  let ?acc1 = "acc\<lparr>cr_total := cr_total acc + 1\<rparr>"
  show ?case
  proof (cases "?words = []")
    case True
    with 2(1) show ?thesis by (simp add: checkable_def)
  next
    case False
    show ?thesis
    proof (cases "?m = []")
      case True
      with 2(2) [OF refl False refl refl] False show ?thesis by (simp add: checkable_def)
    next
      case m: False
      with 2(2) [OF refl False refl refl] False show ?thesis by (simp add: checkable_def Let_def)
    qed
  qed
qed simp

text \<open>
  Coverage sorts every requirement with a usable word: it is listed with exactly the steps whose
  titles share at least half of its words, or as uncovered when no step does; the plan is complete
  when none is left over, in particular when there is nothing to cover.
\<close>
theorem coverage_sorts_requirements:
  "case coverage p reqs of (r, n, all_covered) \<Rightarrow>
     (\<forall>q. dget (cr_covered r) q = (if q \<in> set reqs \<and> checkable q \<and> covering (pd_steps p) (coverage_words q) \<noteq> []
                                   then Some (covering (pd_steps p) (coverage_words q)) else None))
     \<and> cr_uncovered r = filter (\<lambda>q. checkable q \<and> covering (pd_steps p) (coverage_words q) = []) reqs
     \<and> cr_total r = length (filter checkable reqs)
     \<and> (all_covered = (\<not> list_ex (\<lambda>q. checkable q \<and> covering (pd_steps p) (coverage_words q) = []) reqs))"
  using coverage_scan_spec [of "pd_steps p" reqs "\<lparr>cr_covered = [], cr_uncovered = [], cr_total = 0\<rparr>"]
  by (auto simp: coverage_def Let_def filter_empty_conv list_ex_iff)

section \<open>The structured form\<close>

text \<open>A value a \<open>for\<close> loop cannot visit: a non-zero number or \<open>True\<close>.\<close>

fun unreadable_refs :: "json option \<Rightarrow> bool" where
  "unreadable_refs (Some (JBool b)) = b"
| "unreadable_refs (Some (JInt i)) = (i \<noteq> 0)"
| "unreadable_refs (Some (JFlt x)) = (x \<noteq> Fin 0)"
| "unreadable_refs v = False"

fun bad_step :: "json \<Rightarrow> bool" where
  "bad_step (JObj d) = (unreadable_refs (dget d ''depends_on'') \<or> unreadable_refs (dget d ''evidence_refs''))"
| "bad_step v = False"

lemma text_items_error: "(\<exists>e. text_items repr v = Inl e) = unreadable_refs v" "text_items repr v = Inl e \<Longrightarrow> e = TypeError"
  by (cases v rule: unreadable_refs.cases; auto simp: text_items_def split: if_splits)+

lemma step_from_dict_error:
  "step_from_dict sha repr d i = Inl e \<longleftrightarrow> bad_step (JObj d) \<and> e = TypeError"
  using text_items_error [of repr "dget d ''depends_on''"] text_items_error [of repr "dget d ''evidence_refs''"]
  by (auto simp: step_from_dict_def Let_def split: sum.splits)

lemma read_steps_error: "read_steps sha repr i raws = Inl e \<longleftrightarrow> list_ex bad_step raws \<and> e = TypeError"
proof (induction raws arbitrary: i)
  case (Cons raw raws)
  show ?case
  proof (cases "\<exists>d. raw = JObj d")
    case True
    then obtain d where d: "raw = JObj d" by blast
    show ?thesis
    proof (cases "step_from_dict sha repr d i")
      case (Inl e')
      then have "bad_step raw" "e' = TypeError" by (simp_all add: step_from_dict_error d)
      with Inl d show ?thesis by auto
    next
      case (Inr s)
      then have "\<not> bad_step raw" using step_from_dict_error [of sha repr d i TypeError] d by simp
      with Inr d Cons.IH show ?thesis by (auto split: sum.splits)
    qed
  next
    case False
    then have "\<not> bad_step raw" by (cases raw) auto
    with False Cons.IH show ?thesis by (cases raw) (auto split: sum.splits)
  qed
qed simp

lemma py_int_overflow: "py_int v = Inl OverflowError \<longleftrightarrow> v = JFlt Inf \<or> v = JFlt NegInf"
  by (cases v rule: py_int.cases) (auto split: option.splits)

text \<open>
  Reading the structured form raises exactly when a step object carries a non-zero number or
  \<open>true\<close> where its dependencies or evidence should be (\<open>TypeError\<close>), or when all steps are readable
  and the revision is infinite (\<open>OverflowError\<close>); every other input gives a plan or \<open>None\<close>.
\<close>
theorem structured_input_errors:
  "parse_steps_input sha repr data dflt = Inl e \<longleftrightarrow>
     (\<exists>d raws. data = JObj d \<and> dget d ''steps'' = Some (JArr raws)
        \<and> (if list_ex bad_step raws then e = TypeError
           else e = OverflowError \<and> (dget d ''revision'' = Some (JFlt Inf) \<or> dget d ''revision'' = Some (JFlt NegInf))))"
proof (cases "\<exists>d raws. data = JObj d \<and> dget d ''steps'' = Some (JArr raws)")
  case False
  then have "parse_steps_input sha repr data dflt = Inr None"
    by (auto simp: parse_steps_input_def split: json.splits option.splits)
  with False show ?thesis by auto
next
  case True
  then obtain d raws where d: "data = JObj d" "dget d ''steps'' = Some (JArr raws)" by blast
  have rev: "py_int (dget_or d ''revision'' (JInt dflt)) = Inl OverflowError \<longleftrightarrow>
      dget d ''revision'' = Some (JFlt Inf) \<or> dget d ''revision'' = Some (JFlt NegInf)"
    by (auto simp: py_int_overflow dget_or_def split: option.splits)
  show ?thesis
  proof (cases "read_steps sha repr 0 raws")
    case (Inl e')
    then have "list_ex bad_step raws" "e' = TypeError" by (simp_all add: read_steps_error)
    with Inl d show ?thesis by (auto simp: parse_steps_input_def)
  next
    case (Inr steps)
    then have "\<not> list_ex bad_step raws" using read_steps_error [of sha repr 0 raws TypeError] by simp
    with Inr d rev show ?thesis
      by (cases "py_int (dget_or d ''revision'' (JInt dflt))") (auto simp: parse_steps_input_def split: pyerr.splits)
  qed
qed

section \<open>Concrete runs\<close>

definition demo_list :: string where
  "demo_list = join_lines [''1. [x] Read the brief <!-- unverified -->'', ''   * [ ] Ask about dates'', ''- [ ] [BLOCKED] Book'', ''- [ ]'']"

lemma demo_read: "from_markdown (\<lambda>t. t) demo_list 1 =
    \<lparr>pd_steps = [\<lparr>ps_id = ''step_0:read the b'', ps_title = ''Read the brief'', ps_status = StDone, ps_depends = [],
                  ps_evidence = [], ps_notes = [], ps_verified = False\<rparr>,
                \<lparr>ps_id = ''step_1:ask about '', ps_title = ''Ask about dates'', ps_status = StPending,
                  ps_depends = [''step_0:read the b''], ps_evidence = [], ps_notes = [], ps_verified = False\<rparr>,
                \<lparr>ps_id = ''step_2:book'', ps_title = ''Book'', ps_status = StBlocked, ps_depends = [],
                  ps_evidence = [], ps_notes = [], ps_verified = False\<rparr>],
     pd_revision = 1, pd_warnings = [''line 4: checklist item has no text'']\<rparr>"
  by code_simp

theorem reparse_keeps_steps_witness:
  "length (pd_steps (from_markdown (\<lambda>t. t) (to_markdown (from_markdown (\<lambda>t. t) demo_list 1)) 2)) = 3"
proof -
  have "distinct (map ps_id (pd_steps (from_markdown (\<lambda>t. t) demo_list 1)))"
    "list_all (unmarked \<circ> ps_title) (pd_steps (from_markdown (\<lambda>t. t) demo_list 1))"
    unfolding demo_read by code_simp+
  from reparse_keeps_steps [OF this] show ?thesis by (simp add: demo_read)
qed

end
