(* ===== verification/Subagent_Permissions.thy ===== *)
theory Subagent_Permissions
  imports Py_Values
begin

text \<open>
  What a delegated worker may do, \<open>src/subagent_permissions.py\<close> with the rule and definition types of
  \<open>src/agent_defs.py\<close>, and the gate \<open>src/agent_tools/subagent_tools.py\<close> puts before every tool call.

  Frozen sets are lists read as sets. \<open>nt\<close> says that the host is Windows, where path patterns ignore
  case. Of the file system, \<open>resolve\<close> resolves links (\<open>None\<close> is the \<open>OSError\<close> or \<open>ValueError\<close>); the path
  arithmetic is that of POSIX and written out.
\<close>

section \<open>Patterns\<close>

text \<open>
  A compiled pattern. \<open>Many ex\<close> is any run of characters outside \<open>ex\<close>, \<open>One ex\<close> a single one,
  \<open>Segs\<close> any run of whole path segments, \<open>Cls neg ranges\<close> a bracket expression.
\<close>

datatype gtok = Lit char | One "char list" | Many "char list" | Segs | Cls bool "(char \<times> char) list"

definition same_char :: "bool \<Rightarrow> char \<Rightarrow> char \<Rightarrow> bool" where
  "same_char nt a b \<longleftrightarrow> a = b \<or> nt \<and> lower_char a = lower_char b"

definition in_ranges :: "(char \<times> char) list \<Rightarrow> char \<Rightarrow> bool" where
  "in_ranges rs c = list_ex (\<lambda>(lo, hi). (of_char lo :: nat) \<le> of_char c \<and> (of_char c :: nat) \<le> of_char hi) rs"

fun after_slashes :: "string \<Rightarrow> string list" where
  "after_slashes [] = []"
| "after_slashes (c # cs) =
     (if c = newline then [] else (if c = CHR ''/'' then [cs] else []) @ after_slashes cs)"

lemma after_slashes_shorter: "b \<in> set (after_slashes s) \<Longrightarrow> length b < length s"
  by (induction s) (auto split: if_splits)

function (sequential) gmatch :: "bool \<Rightarrow> gtok list \<Rightarrow> string \<Rightarrow> bool" where
  "gmatch nt [] s = (s = [])"
| "gmatch nt (Many ex # ts) [] = gmatch nt ts []"
| "gmatch nt (Many ex # ts) (c # cs) = (gmatch nt ts (c # cs) \<or> c \<notin> set ex \<and> gmatch nt (Many ex # ts) cs)"
| "gmatch nt (Segs # ts) s = (gmatch nt ts s \<or> list_ex (gmatch nt ts) (after_slashes s))"
| "gmatch nt (t # ts) [] = False"
| "gmatch nt (Lit a # ts) (c # cs) = (same_char nt a c \<and> gmatch nt ts cs)"
| "gmatch nt (One ex # ts) (c # cs) = (c \<notin> set ex \<and> gmatch nt ts cs)"
| "gmatch nt (Cls neg rs # ts) (c # cs) = (in_ranges rs c \<noteq> neg \<and> gmatch nt ts cs)"
  by pat_completeness auto

termination
  by (relation "measure (\<lambda>(nt, ts, s). length ts + length s)") (auto dest: after_slashes_shorter)

text \<open>\<open>_compile\<close>: the path patterns. \<open>*\<close> stays inside a segment, \<open>**\<close> crosses them.\<close>

fun compile_glob :: "string \<Rightarrow> gtok list" where
  "compile_glob [] = []"
| "compile_glob (c # cs) =
     (if c = CHR ''*'' then
        (case cs of
           d # ds \<Rightarrow>
             if d = CHR ''*'' then
               (case ds of
                  e # es \<Rightarrow> if e = CHR ''/'' then Segs # compile_glob es else Many [newline] # compile_glob ds
                | [] \<Rightarrow> [Many [newline]])
             else Many [CHR ''/''] # compile_glob cs
         | [] \<Rightarrow> [Many [CHR ''/'']])
      else if c = CHR ''?'' then One [CHR ''/''] # compile_glob cs
      else Lit c # compile_glob cs)"

definition path_matches :: "bool \<Rightarrow> string \<Rightarrow> string \<Rightarrow> bool" where
  "path_matches nt pattern path \<longleftrightarrow>
     pattern \<noteq> [] \<and> (pattern = ''*'' \<or> pattern = ''**'' \<or> gmatch nt (compile_glob pattern) path)"

text \<open>The members of a bracket expression of \<open>fnmatch\<close>: single characters and ranges, empty ones dropped.\<close>

fun bracket_ranges :: "string \<Rightarrow> (char \<times> char) list" where
  "bracket_ranges [] = []"
| "bracket_ranges (a # b # c # cs) =
     (if b = CHR ''-'' then (a, c) # bracket_ranges cs else (a, a) # bracket_ranges (b # c # cs))"
| "bracket_ranges (a # cs) = (a, a) # bracket_ranges cs"

text \<open>The text of a bracket expression and what follows it: a \<open>]\<close> right after the opening is a member.\<close>

fun bracket_body :: "string \<Rightarrow> (string \<times> string) option" where
  "bracket_body [] = None"
| "bracket_body (c # cs) = (if c = CHR '']'' then Some ([], cs) else map_option (\<lambda>(b, r). (c # b, r)) (bracket_body cs))"

definition bracket :: "string \<Rightarrow> (bool \<times> string \<times> string) option" where
  "bracket s =
     (let (neg, r) = (case s of c # cs \<Rightarrow> if c = CHR ''!'' then (True, cs) else (False, s) | [] \<Rightarrow> (False, s))
      in case r of
           c # cs \<Rightarrow> if c = CHR '']'' then map_option (\<lambda>(b, rest). (neg, CHR '']'' # b, rest)) (bracket_body cs)
                     else map_option (\<lambda>(b, rest). (neg, b, rest)) (bracket_body r)
         | [] \<Rightarrow> None)"

lemma bracket_body_shorter: "bracket_body s = Some (b, r) \<Longrightarrow> length r < length s"
  by (induction s arbitrary: b) (auto split: if_splits)

lemma bracket_shorter: "bracket s = Some (neg, b, r) \<Longrightarrow> length r < length s"
  by (auto simp: bracket_def split: list.splits if_splits dest!: bracket_body_shorter)

function compile_fn :: "string \<Rightarrow> gtok list" where
  "compile_fn [] = []"
| "compile_fn (c # cs) =
     (if c = CHR ''*'' then Many [] # compile_fn cs
      else if c = CHR ''?'' then One [] # compile_fn cs
      else if c = CHR ''['' then
        (case bracket cs of
           None \<Rightarrow> Lit c # compile_fn cs
         | Some (neg, b, rest) \<Rightarrow> Cls neg (bracket_ranges b) # compile_fn rest)
      else Lit c # compile_fn cs)"
  by pat_completeness auto

termination
  by (relation "measure length") (auto dest: bracket_shorter)

definition tool_name_matches :: "string \<Rightarrow> string \<Rightarrow> bool" where
  "tool_name_matches pattern name =
     (if CHR ''*'' \<in> set pattern then gmatch False (compile_fn pattern) name else pattern = name)"

section \<open>Rules\<close>

datatype effect = Allow | Deny

record rule =
  ru_action :: string
  ru_pattern :: string
  ru_effect :: effect

definition rule_applies :: "bool \<Rightarrow> string \<Rightarrow> string \<Rightarrow> rule \<Rightarrow> bool" where
  "rule_applies nt action path r \<longleftrightarrow> ru_action r = action \<and> (action = ''delegate'' \<or> path_matches nt (ru_pattern r) path)"

definition decide :: "bool \<Rightarrow> rule list \<Rightarrow> string \<Rightarrow> string \<Rightarrow> effect" where
  "decide nt rules action path = fold (\<lambda>r verdict. if rule_applies nt action path r then ru_effect r else verdict) rules Allow"

definition matching_rule :: "bool \<Rightarrow> rule list \<Rightarrow> string \<Rightarrow> string \<Rightarrow> rule option" where
  "matching_rule nt rules action path = fold (\<lambda>r found. if rule_applies nt action path r then Some r else found) rules None"

record agent_def =
  ad_slug :: string
  ad_name :: string
  ad_mode :: string
  ad_tools :: "string list"
  ad_deny :: "string list"
  ad_permission :: "rule list"
  ad_caveats :: "string list"

definition ad_may_delegate :: "agent_def \<Rightarrow> bool" where
  "ad_may_delegate d =
     (if list_ex (\<lambda>r. ru_action r = ''delegate'' \<and> ru_effect r = Deny) (ad_permission d) then False
      else if list_ex (\<lambda>r. ru_action r = ''delegate'' \<and> ru_effect r = Allow) (ad_permission d) then True
      else ad_mode d = ''coordinator'')"

section \<open>Permissions and their derivation\<close>

record child_permissions =
  cp_slug :: string
  cp_label :: string
  cp_rules :: "rule list"
  cp_denied :: "string list"
  cp_allowed :: "string list option"
  cp_may_delegate :: bool
  cp_depth :: int
  cp_roots :: "string list"
  cp_workspace :: string
  cp_caveats :: "string list"
  cp_inherited :: "string list list"

definition in_patterns :: "string list \<Rightarrow> string \<Rightarrow> bool" where
  "in_patterns ps name = list_ex (\<lambda>p. tool_name_matches p name) ps"

definition tool_denied :: "child_permissions \<Rightarrow> string \<Rightarrow> bool" where
  "tool_denied p name =
     (if name = [] then False
      else if in_patterns (cp_denied p) name then True
      else if (case cp_allowed p of None \<Rightarrow> False | Some allow \<Rightarrow> \<not> in_patterns allow name) then True
      else list_ex (\<lambda>allow. \<not> in_patterns allow name) (cp_inherited p))"

datatype denial = OnDenyList | NotGrantedToParent | MayOnlyUse "string list"

definition why_tool_denied :: "child_permissions \<Rightarrow> string \<Rightarrow> denial" where
  "why_tool_denied p name =
     (if in_patterns (cp_denied p) name then OnDenyList
      else case cp_allowed p of
        Some allow \<Rightarrow> if in_patterns allow name then NotGrantedToParent else MayOnlyUse allow
      | None \<Rightarrow> MayOnlyUse [])"

definition path_denied :: "bool \<Rightarrow> child_permissions \<Rightarrow> string \<Rightarrow> string \<Rightarrow> bool" where
  "path_denied nt p action path \<longleftrightarrow> decide nt (cp_rules p) action path = Deny"

definition restricts_action :: "child_permissions \<Rightarrow> string \<Rightarrow> bool" where
  "restricts_action p action = list_ex (\<lambda>r. ru_action r = action \<and> ru_effect r = Deny) (cp_rules p)"

definition empty_permissions :: child_permissions where
  "empty_permissions = \<lparr>cp_slug = [], cp_label = [], cp_rules = [], cp_denied = [], cp_allowed = None, cp_may_delegate = False,
     cp_depth = 0, cp_roots = [], cp_workspace = [], cp_caveats = [], cp_inherited = []\<rparr>"

definition coordinator_permissions :: "rule list \<Rightarrow> string list \<Rightarrow> string \<Rightarrow> child_permissions" where
  "coordinator_permissions rules roots workspace =
     empty_permissions\<lparr>cp_rules := rules, cp_may_delegate := True, cp_roots := filter (\<lambda>r. r \<noteq> []) roots, cp_workspace := workspace\<rparr>"

datatype parent_arg = NoParent | ParentPerms child_permissions | ParentRules "rule list"

fun as_permissions :: "parent_arg \<Rightarrow> child_permissions option" where
  "as_permissions NoParent = None"
| "as_permissions (ParentPerms p) = Some p"
| "as_permissions (ParentRules rs) = Some (empty_permissions\<lparr>cp_rules := rs, cp_may_delegate := True\<rparr>)"

text \<open>\<open>max_depth\<close>: the setting as a whole number between 0 and 4, 1 when it is not one.\<close>

definition max_depth :: "json \<Rightarrow> int" where
  "max_depth setting = (case py_int setting of Inl e \<Rightarrow> 1 | Inr v \<Rightarrow> max 0 (min v 4))"

definition delegate_tool :: string where
  "delegate_tool = ''delegate_agents''"

text \<open>
  The deny set of a child: its own, its parent's, what the parent's allowlist leaves out (of the
  vocabulary, the child's tools and the denies so far), and the delegation tool when it may not delegate.
\<close>

definition derived_denies :: "child_permissions option \<Rightarrow> agent_def option \<Rightarrow> string list \<Rightarrow> bool \<Rightarrow> string list" where
  "derived_denies parent child vocabulary may =
     (let own = (case child of None \<Rightarrow> [] | Some d \<Rightarrow> ad_deny d);
          tools = (case child of None \<Rightarrow> [] | Some d \<Rightarrow> ad_tools d);
          with_parent = (case parent of None \<Rightarrow> own | Some p \<Rightarrow> own @ cp_denied p);
          names = vocabulary @ tools @ with_parent;
          complement = (case parent of None \<Rightarrow> []
            | Some p \<Rightarrow> (case cp_allowed p of None \<Rightarrow> [] | Some allow \<Rightarrow> filter (\<lambda>t. t \<notin> set allow) names))
      in with_parent @ complement @ (if may then [] else [delegate_tool]))"

definition derive ::
  "json \<Rightarrow> parent_arg \<Rightarrow> agent_def option \<Rightarrow> int \<Rightarrow> string list option \<Rightarrow> string \<Rightarrow> string list \<Rightarrow>
     (int \<times> int) + child_permissions" where
  "derive setting parent_rules child parent_depth roots workspace vocabulary =
     (let parent = as_permissions parent_rules; level = parent_depth + 1; ceiling = max_depth setting
      in if ceiling < level then Inl (level, ceiling)
         else
           let wants = (case child of None \<Rightarrow> False | Some d \<Rightarrow> ad_may_delegate d);
               parent_lets = (case parent of None \<Rightarrow> True | Some p \<Rightarrow> cp_may_delegate p);
               room = level < ceiling;
               may = wants \<and> parent_lets \<and> room;
               tools = (case child of None \<Rightarrow> [] | Some d \<Rightarrow> ad_tools d)
           in Inr \<lparr>cp_slug = (case child of None \<Rightarrow> [] | Some d \<Rightarrow> ad_slug d),
                   cp_label = (case child of None \<Rightarrow> [] | Some d \<Rightarrow> if ad_name d \<noteq> [] then ad_name d else ad_slug d),
                   cp_rules = (case child of None \<Rightarrow> [] | Some d \<Rightarrow> ad_permission d)
                     @ (case parent of None \<Rightarrow> [] | Some p \<Rightarrow> filter (\<lambda>r. ru_effect r = Deny) (cp_rules p)),
                   cp_denied = derived_denies parent child vocabulary may,
                   cp_allowed = (if tools \<noteq> [] then Some tools else None),
                   cp_may_delegate = may,
                   cp_depth = level,
                   cp_roots = filter (\<lambda>r. r \<noteq> []) (case roots of Some rs \<Rightarrow> rs
                     | None \<Rightarrow> (case parent of None \<Rightarrow> [] | Some p \<Rightarrow> cp_roots p)),
                   cp_workspace = (if workspace \<noteq> [] then workspace
                     else case parent of None \<Rightarrow> [] | Some p \<Rightarrow> cp_workspace p),
                   cp_caveats = (case child of None \<Rightarrow> [] | Some d \<Rightarrow> ad_caveats d)
                     @ (if wants \<and> \<not> room then [''asks to delegate and cannot: it is already '' @ str_int level @ '' level(s) deep and agent_subagent_depth is '' @ str_int ceiling] else [])
                     @ (if wants \<and> \<not> parent_lets then [''asks to delegate and cannot: the agent that started it may not delegate either''] else []),
                   cp_inherited = (case parent of None \<Rightarrow> []
                     | Some p \<Rightarrow> (case cp_allowed p of None \<Rightarrow> [] | Some allow \<Rightarrow> [allow]) @ cp_inherited p)\<rparr>)"

section \<open>Starting a worker\<close>

text \<open>
  What a delegation hands to \<open>_attach_permissions\<close> and \<open>_attach_categories\<close> for one worker: the
  definition its task names, if any, the workspace roots and folder of the call, and the tool
  categories the task is limited to. \<open>groups\<close> is \<open>tool_categories()\<close>.
\<close>

record delegation_task =
  dt_child :: "agent_def option"
  dt_roots :: "string list"
  dt_workspace :: string
  dt_categories :: "string list"

definition category_tools :: "(string, string list) dict \<Rightarrow> string \<Rightarrow> string list" where
  "category_tools groups cat =
     (if cat = ''mcp'' then [''mcp__*'']
      else if starts_with cat ''mcp:'' then [''mcp__'' @ drop 4 cat @ ''__*'']
      else dget_or groups cat [])"

definition category_allowance :: "(string, string list) dict \<Rightarrow> string list \<Rightarrow> string list" where
  "category_allowance groups cats = [''lookup_tools'', ''todowrite''] @ concat (map (category_tools groups) cats)"

fun comma_list :: "string list \<Rightarrow> string" where
  "comma_list [] = []"
| "comma_list [t] = t"
| "comma_list (t # ts) = t @ '', '' @ comma_list ts"

definition limit_to_categories :: "(string, string list) dict \<Rightarrow> string list \<Rightarrow> child_permissions \<Rightarrow> child_permissions" where
  "limit_to_categories groups cats q =
     (let allowance = category_allowance groups cats
      in q\<lparr>cp_allowed := Some (case cp_allowed q of None \<Rightarrow> allowance
             | Some old \<Rightarrow> filter (\<lambda>t. CHR ''*'' \<in> set t \<or> in_patterns old t) allowance),
           cp_inherited := (case cp_allowed q of None \<Rightarrow> [] | Some old \<Rightarrow> [old]) @ cp_inherited q,
           cp_caveats := cp_caveats q @ [''tools limited to category '' @ comma_list cats]\<rparr>)"

definition restricted_parent :: "child_permissions \<Rightarrow> bool" where
  "restricted_parent p \<longleftrightarrow> cp_rules p \<noteq> [] \<or> cp_denied p \<noteq> [] \<or> cp_allowed p \<noteq> None"

text \<open>
  The permissions a worker is started with by an agent whose own are \<open>p\<close>: the refusal of
  \<open>derive\<close>, none at all (a task with no definition and no category under an agent the code takes
  for unrestricted), or the derived ones, narrowed to the categories.
\<close>

definition attach_permissions ::
  "json \<Rightarrow> string list \<Rightarrow> delegation_task \<Rightarrow> child_permissions \<Rightarrow> (int \<times> int) + child_permissions option" where
  "attach_permissions setting vocabulary d p =
     (if dt_child d = None \<and> \<not> restricted_parent p then Inr None
      else map_sum id Some
        (derive setting (ParentPerms p) (dt_child d) (cp_depth p) (Some (dt_roots d)) (dt_workspace d) vocabulary))"

definition attach_categories ::
  "json \<Rightarrow> string list \<Rightarrow> (string, string list) dict \<Rightarrow> delegation_task \<Rightarrow> child_permissions \<Rightarrow>
     child_permissions option \<Rightarrow> (int \<times> int) + child_permissions option" where
  "attach_categories setting vocabulary groups d p perms =
     (if dt_categories d = [] then Inr perms
      else map_sum id (\<lambda>q. Some (limit_to_categories groups (dt_categories d) q))
        (case perms of
           Some q \<Rightarrow> Inr q
         | None \<Rightarrow> derive setting (ParentPerms p) None (cp_depth p) (Some (dt_roots d)) (dt_workspace d) vocabulary))"

definition start_worker ::
  "json \<Rightarrow> string list \<Rightarrow> (string, string list) dict \<Rightarrow> delegation_task \<Rightarrow> child_permissions \<Rightarrow>
     (int \<times> int) + child_permissions option" where
  "start_worker setting vocabulary groups d p =
     (case attach_permissions setting vocabulary d p of
        Inl e \<Rightarrow> Inl e
      | Inr perms \<Rightarrow> attach_categories setting vocabulary groups d p perms)"

section \<open>The spelling a path is judged in\<close>

fun split_slash :: "string \<Rightarrow> string \<Rightarrow> string list" where
  "split_slash cur [] = [cur]"
| "split_slash cur (c # cs) = (if c = CHR ''/'' then cur # split_slash [] cs else split_slash (cur @ [c]) cs)"

fun join_slash :: "string list \<Rightarrow> string" where
  "join_slash [] = []"
| "join_slash [c] = c"
| "join_slash (c # cs) = c @ CHR ''/'' # join_slash cs"

definition path_join :: "string \<Rightarrow> string \<Rightarrow> string" where
  "path_join a b =
     (if starts_with b ''/'' then b else if a = [] \<or> last a = CHR ''/'' then a @ b else a @ CHR ''/'' # b)"

text \<open>\<open>os.path.normpath\<close> of a relative path; the list holds the components so far, the last one first.\<close>

fun norm_parts :: "string list \<Rightarrow> string list \<Rightarrow> string list" where
  "norm_parts acc [] = rev acc"
| "norm_parts acc (p # ps) =
     (if p = [] \<or> p = ''.'' then norm_parts acc ps
      else if p \<noteq> ''..'' then norm_parts (p # acc) ps
      else case acc of [] \<Rightarrow> norm_parts [''..''] ps
           | q # qs \<Rightarrow> if q = ''..'' then norm_parts (p # acc) ps else norm_parts qs ps)"

definition normpath :: "string \<Rightarrow> string" where
  "normpath t = (let r = join_slash (norm_parts [] (split_slash [] t)) in if r = [] then ''.'' else r)"

fun drop_common :: "string list \<Rightarrow> string list \<Rightarrow> string list \<times> string list" where
  "drop_common (a # as) (b # bs) = (if a = b then drop_common as bs else (a # as, b # bs))"
| "drop_common as bs = (as, bs)"

text \<open>\<open>os.path.relpath\<close> of two resolved absolute paths.\<close>

definition path_parts :: "string \<Rightarrow> string list" where
  "path_parts t = filter (\<lambda>p. p \<noteq> []) (split_slash [] t)"

definition relpath :: "string \<Rightarrow> string \<Rightarrow> string" where
  "relpath path start =
     (let (below, left) = drop_common (path_parts path) (path_parts start);
          r = join_slash (replicate (length left) ''..'' @ below)
      in if r = [] then ''.'' else r)"

definition respell :: "(string \<Rightarrow> string option) \<Rightarrow> string \<Rightarrow> string \<Rightarrow> string" where
  "respell resolve text folder =
     (if folder \<noteq> [] then
        (case (resolve (if starts_with text ''/'' then text else path_join folder text), resolve folder) of
           (Some full, Some base) \<Rightarrow> let rel = relpath full base in if starts_with rel ''..'' then full else rel
         | _ \<Rightarrow> text)
      else if starts_with text ''/'' then (case resolve text of Some full \<Rightarrow> full | None \<Rightarrow> text)
      else normpath text)"

definition slashes :: "string \<Rightarrow> string" where
  "slashes t = map (\<lambda>c. if c = char_of (92::nat) then CHR ''/'' else c) t"

definition normalise_path :: "(string \<Rightarrow> string option) \<Rightarrow> string \<Rightarrow> string \<Rightarrow> string" where
  "normalise_path resolve path workspace =
     (let text = py_strip path; folder = py_strip workspace
      in if text = [] then []
         else
           let t = slashes (respell resolve text folder);
               bare = dropWhile (\<lambda>c. c = CHR ''.'' \<or> c = CHR ''/'') t
           in if bare \<noteq> [] then bare else t)"

section \<open>The gate before a tool call\<close>

definition write_tools :: "string list" where
  "write_tools = [''write_file'', ''edit_file'', ''apply_patch'', ''transform_media'']"

definition read_tools :: "string list" where
  "read_tools = [''read_file'', ''inspect_media'', ''inspect_deliverable'', ''extract_to_schema'',
     ''plan_media_transform'', ''transform_media'']"

text \<open>Tool arguments are an object or text; \<open>loads\<close> is \<open>json.loads\<close>.\<close>

datatype content = CObj "(string, json) dict" | CText string

definition path_field :: "(string, json) dict \<Rightarrow> string \<Rightarrow> string option" where
  "path_field d key = (case dget d key of Some (JStr s) \<Rightarrow> if py_strip s \<noteq> [] then Some (py_strip s) else None | _ \<Rightarrow> None)"

definition read_target :: "(string \<Rightarrow> json option) \<Rightarrow> string \<Rightarrow> content \<Rightarrow> string option" where
  "read_target loads tool c =
     (if tool \<notin> set read_tools then None
      else
        let key = (if tool = ''plan_media_transform'' \<or> tool = ''transform_media'' then ''source'' else ''path'')
        in case c of
             CObj d \<Rightarrow> path_field d key
           | CText t \<Rightarrow>
               let raw = py_strip t
               in if raw = [] then None
                  else if starts_with raw ''{'' then (case loads raw of Some (JObj d) \<Rightarrow> path_field d key | _ \<Rightarrow> None)
                  else let first = py_strip (takeWhile (\<lambda>c. c \<noteq> newline) raw) in if first \<noteq> [] then Some first else None)"

datatype gate_answer = GPass | GToolDenied | GSourceUnknown | GSourceDenied string | GTargetsUnknown | GPathDenied string

text \<open>\<open>targets\<close> is what \<open>_targets\<close> finds for a writing tool, \<open>None\<close> when it cannot tell.\<close>

definition permission_block ::
  "bool \<Rightarrow> (string \<Rightarrow> string option) \<Rightarrow> (string \<Rightarrow> json option) \<Rightarrow> child_permissions \<Rightarrow> string \<Rightarrow> content \<Rightarrow>
     string list option \<Rightarrow> gate_answer" where
  "permission_block nt resolve loads p tool c targets =
     (let norm_ws = (\<lambda>x. normalise_path resolve x (cp_workspace p));
          first_denied = (\<lambda>action xs. find (path_denied nt p action) (map norm_ws xs));
          source = read_target loads tool c;
          guard_source = (if tool = ''transform_media'' \<and> restricts_action p ''read'' then
              (case source of None \<Rightarrow> Some GSourceUnknown
               | Some s \<Rightarrow> if path_denied nt p ''read'' (norm_ws s) then Some (GSourceDenied (norm_ws s)) else None)
            else None);
          action = (if tool \<in> set write_tools then ''write'' else if tool \<in> set read_tools then ''read'' else [])
      in if tool = [] then GPass
         else if tool_denied p tool then GToolDenied
         else case guard_source of
           Some g \<Rightarrow> g
         | None \<Rightarrow>
             if action = [] \<or> \<not> restricts_action p action then GPass
             else case (if action = ''write'' then targets else map_option (\<lambda>s. [s]) source) of
               None \<Rightarrow> if action = ''write'' then GTargetsUnknown else GPass
             | Some xs \<Rightarrow> (case first_denied action xs of None \<Rightarrow> GPass | Some x \<Rightarrow> GPathDenied x))"

section \<open>What patterns match\<close>

lemma gmatch_Many: "gmatch nt [Many ex] s \<longleftrightarrow> list_all (\<lambda>c. c \<notin> set ex) s"
  by (induction s) auto

lemma gmatch_Lits: "gmatch False (map Lit pre @ ts) s \<longleftrightarrow> (\<exists>r. s = pre @ r \<and> gmatch False ts r)"
proof (induction pre arbitrary: s)
  case (Cons a pre)
  then show ?case by (cases s) (auto simp: same_char_def)
qed simp

definition plain :: "string \<Rightarrow> bool" where
  "plain t \<longleftrightarrow> CHR ''*'' \<notin> set t \<and> CHR ''?'' \<notin> set t"

lemma compile_plain: "plain t \<Longrightarrow> compile_glob (t @ p) = map Lit t @ compile_glob p"
  by (induction t) (auto simp: plain_def)

lemma after_slashes_all: "CHR ''/'' \<notin> set a \<Longrightarrow> newline \<notin> set a \<Longrightarrow> after_slashes a = []"
  by (induction a) auto

text \<open>
  A rule \<open>dir/*\<close> is about exactly the direct entries of the directory, \<open>dir/**\<close> about everything
  below it, and a pattern without wildcards about that one path.
\<close>
theorem patterns_fence_directories:
  assumes "plain dir" "dir \<noteq> []"
  shows "path_matches False (dir @ ''/*'') x = (\<exists>f. x = dir @ CHR ''/'' # f \<and> CHR ''/'' \<notin> set f)
    \<and> path_matches False (dir @ ''/**'') x = (\<exists>f. x = dir @ CHR ''/'' # f \<and> newline \<notin> set f)
    \<and> path_matches False dir x = (x = dir)"
proof -
  have star: "dir @ ''/*'' \<noteq> ''*''" "dir @ ''/*'' \<noteq> ''**''" "dir @ ''/**'' \<noteq> ''*''" "dir @ ''/**'' \<noteq> ''**''"
    using assms by (cases dir; auto simp: plain_def)+
  have c1: "compile_glob (dir @ ''/*'') = map Lit (dir @ ''/'') @ [Many ''/'']"
    and c2: "compile_glob (dir @ ''/**'') = map Lit (dir @ ''/'') @ [Many [newline]]"
    and c3: "compile_glob dir = map Lit dir @ []"
    using compile_plain [OF assms(1), of "''/*''"] compile_plain [OF assms(1), of "''/**''"] compile_plain [OF assms(1), of "[]"]
    by simp_all
  have "dir \<noteq> ''*''" "dir \<noteq> ''**''" using assms(1) by (auto simp: plain_def)
  then show ?thesis
    using star assms(2) unfolding path_matches_def c1 c2 c3 gmatch_Lits gmatch_Many by (auto simp: list_all_iff)
qed

section \<open>Restrictions flow down\<close>

lemma decide_snoc: "decide nt (rs @ [r]) a x = (if rule_applies nt a x r then ru_effect r else decide nt rs a x)"
  by (simp add: decide_def)

lemma decide_matching: "decide nt rs a x = (case matching_rule nt rs a x of None \<Rightarrow> Allow | Some r \<Rightarrow> ru_effect r)"
  by (induction rs rule: rev_induct) (simp_all add: decide_def matching_rule_def)

definition denies_path :: "bool \<Rightarrow> string \<Rightarrow> string \<Rightarrow> rule \<Rightarrow> bool" where
  "denies_path nt a x r \<longleftrightarrow> ru_effect r = Deny \<and> rule_applies nt a x r"

text \<open>Appended denies win over everything before them.\<close>

lemma decide_with_denies:
  "decide nt (own @ filter (\<lambda>r. ru_effect r = Deny) rs) a x = (if list_ex (denies_path nt a x) rs then Deny else decide nt own a x)"
proof (induction rs rule: rev_induct)
  case (snoc r rs)
  then show ?case
    using decide_snoc [of nt "own @ filter (\<lambda>r. ru_effect r = Deny) rs" r a x] by (auto simp: denies_path_def)
qed (simp add: decide_def)

lemma denied_has_deny: "decide nt rs a x = Deny \<Longrightarrow> list_ex (denies_path nt a x) rs"
  by (induction rs rule: rev_induct) (auto simp: decide_snoc denies_path_def decide_def split: if_splits)

lemma in_patterns_append [simp]: "in_patterns (ps @ qs) n \<longleftrightarrow> in_patterns ps n \<or> in_patterns qs n"
  by (simp add: in_patterns_def)

text \<open>What a worker asks for itself, and what the parent withholds.\<close>

definition asked_denied :: "agent_def option \<Rightarrow> string \<Rightarrow> bool" where
  "asked_denied child n \<longleftrightarrow> (case child of None \<Rightarrow> False
     | Some d \<Rightarrow> in_patterns (ad_deny d) n \<or> ad_tools d \<noteq> [] \<and> \<not> in_patterns (ad_tools d) n)"

definition left_out :: "child_permissions option \<Rightarrow> agent_def option \<Rightarrow> string list \<Rightarrow> string \<Rightarrow> bool" where
  "left_out parent child vocabulary n \<longleftrightarrow>
     (case parent of None \<Rightarrow> False
      | Some p \<Rightarrow> (case cp_allowed p of None \<Rightarrow> False
          | Some allow \<Rightarrow> in_patterns (filter (\<lambda>t. t \<notin> set allow)
              (vocabulary @ (case child of None \<Rightarrow> [] | Some d \<Rightarrow> ad_tools d @ ad_deny d) @ cp_denied p)) n))"

lemma derived_denies_iff:
  "in_patterns (derived_denies parent child vocabulary may) n \<longleftrightarrow>
     (case child of None \<Rightarrow> False | Some d \<Rightarrow> in_patterns (ad_deny d) n)
     \<or> (case parent of None \<Rightarrow> False | Some p \<Rightarrow> in_patterns (cp_denied p) n)
     \<or> left_out parent child vocabulary n \<or> \<not> may \<and> in_patterns [delegate_tool] n"
  by (cases parent; cases child) (auto simp: derived_denies_def left_out_def Let_def in_patterns_def list_ex_iff split: option.splits)

text \<open>
  A derived worker is refused exactly the tools its own definition withholds, every tool its
  parent is refused, what the parent's allowlist leaves out, and delegation unless it may delegate;
  and exactly the paths a deny of the parent covers or its own rules deny. Past the ceiling nothing
  is derived.
\<close>
theorem derived_permissions:
  "case derive setting parent child level roots ws vocabulary of
     Inl e \<Rightarrow> e = (level + 1, max_depth setting) \<and> max_depth setting \<le> level
   | Inr q \<Rightarrow>
       tool_denied q n = (n \<noteq> [] \<and> (asked_denied child n
          \<or> (case as_permissions parent of None \<Rightarrow> False | Some p \<Rightarrow> tool_denied p n)
          \<or> left_out (as_permissions parent) child vocabulary n
          \<or> \<not> cp_may_delegate q \<and> in_patterns [delegate_tool] n))
       \<and> path_denied nt q a x = ((case as_permissions parent of None \<Rightarrow> False | Some p \<Rightarrow> list_ex (denies_path nt a x) (cp_rules p))
          \<or> (case child of None \<Rightarrow> False | Some d \<Rightarrow> decide nt (ad_permission d) a x = Deny))
       \<and> cp_may_delegate q = ((case child of None \<Rightarrow> False | Some d \<Rightarrow> ad_may_delegate d)
          \<and> (case as_permissions parent of None \<Rightarrow> True | Some p \<Rightarrow> cp_may_delegate p) \<and> level + 1 < max_depth setting)
       \<and> cp_depth q = level + 1 \<and> cp_depth q \<le> max_depth setting"
proof (cases "derive setting parent child level roots ws vocabulary")
  case (Inl e)
  then show ?thesis by (auto simp: derive_def Let_def split: if_splits)
next
  case (Inr q)
  then have ok: "level + 1 \<le> max_depth setting" by (auto simp: derive_def Let_def split: if_splits)
  then have "(max_depth setting < level + 1) = False" by simp
  note res = Inr [unfolded derive_def Let_def this if_False sum.inject, symmetric]
  have q: "cp_depth q = level + 1"
    "cp_may_delegate q = ((case child of None \<Rightarrow> False | Some d \<Rightarrow> ad_may_delegate d)
          \<and> (case as_permissions parent of None \<Rightarrow> True | Some p \<Rightarrow> cp_may_delegate p) \<and> level + 1 < max_depth setting)"
    "cp_denied q = derived_denies (as_permissions parent) child vocabulary (cp_may_delegate q)"
    "cp_rules q = (case child of None \<Rightarrow> [] | Some d \<Rightarrow> ad_permission d)
       @ (case as_permissions parent of None \<Rightarrow> [] | Some p \<Rightarrow> filter (\<lambda>r. ru_effect r = Deny) (cp_rules p))"
    "cp_allowed q = (case child of None \<Rightarrow> None | Some d \<Rightarrow> if ad_tools d \<noteq> [] then Some (ad_tools d) else None)"
    "cp_inherited q = (case as_permissions parent of None \<Rightarrow> []
       | Some p \<Rightarrow> (case cp_allowed p of None \<Rightarrow> [] | Some allow \<Rightarrow> [allow]) @ cp_inherited p)"
    unfolding res child_permissions.simps by (rule refl | cases child; simp)+
  have tool: "tool_denied q n = (n \<noteq> [] \<and> (asked_denied child n
          \<or> (case as_permissions parent of None \<Rightarrow> False | Some p \<Rightarrow> tool_denied p n)
          \<or> left_out (as_permissions parent) child vocabulary n
          \<or> \<not> cp_may_delegate q \<and> in_patterns [delegate_tool] n))"
    unfolding tool_denied_def q(3,5,6) derived_denies_iff asked_denied_def
    by (cases child; cases "as_permissions parent") (auto split: option.splits)
  have none: "decide nt [] a x = Allow" by (simp add: decide_def)
  have path: "path_denied nt q a x = ((case as_permissions parent of None \<Rightarrow> False | Some p \<Rightarrow> list_ex (denies_path nt a x) (cp_rules p))
          \<or> (case child of None \<Rightarrow> False | Some d \<Rightarrow> decide nt (ad_permission d) a x = Deny))"
    unfolding path_denied_def q(4)
    by (cases child; cases "as_permissions parent"; simp add: decide_with_denies none decide_with_denies [of nt "[]", simplified])
  show ?thesis unfolding Inr using tool path q(1,2) ok by simp
qed

section \<open>Chains of delegation\<close>

text \<open>
  One more generation: the permissions of the worker that was started. A refused delegation
  leaves the agent as it was; so does a worker without permissions of its own, which may not
  delegate further (\<open>delegate_agents\<close> is in the hard denylist of such a worker).
\<close>

definition delegate ::
  "json \<Rightarrow> string list \<Rightarrow> (string, string list) dict \<Rightarrow> delegation_task \<Rightarrow> child_permissions \<Rightarrow> child_permissions" where
  "delegate setting vocabulary groups d p =
     (case start_worker setting vocabulary groups d p of Inr (Some q) \<Rightarrow> q | _ \<Rightarrow> p)"

definition chain ::
  "json \<Rightarrow> string list \<Rightarrow> (string, string list) dict \<Rightarrow> delegation_task list \<Rightarrow> child_permissions \<Rightarrow> child_permissions" where
  "chain setting vocabulary groups ds p = fold (delegate setting vocabulary groups) ds p"

text \<open>Everything a worker is refused: tools, and paths per action.\<close>

definition refused :: "bool \<Rightarrow> child_permissions \<Rightarrow> (string + string \<times> string) set" where
  "refused nt p = {r. case r of Inl n \<Rightarrow> tool_denied p n | Inr (a, x) \<Rightarrow> path_denied nt p a x}"

lemma refused_path [simp]: "Inr (a, x) \<in> refused nt p \<longleftrightarrow> path_denied nt p a x"
  by (simp add: refused_def)

lemma derive_refused:
  assumes "derive setting (ParentPerms p) child level roots ws vocabulary = Inr q"
  shows "refused nt p \<subseteq> refused nt q"
proof
  fix r
  assume r: "r \<in> refused nt p"
  show "r \<in> refused nt q"
  proof (cases r)
    case (Inl n)
    then have "tool_denied p n" using r by (simp add: refused_def)
    moreover from this have "n \<noteq> []" by (auto simp: tool_denied_def)
    ultimately have "tool_denied q n"
      using derived_permissions [where setting = setting and parent = "ParentPerms p" and child = child and level = level
          and roots = roots and ws = ws and vocabulary = vocabulary and n = n] assms by simp
    with Inl show ?thesis by (simp add: refused_def)
  next
    case (Inr ax)
    obtain a x where ax: "ax = (a, x)" by (cases ax)
    then have "list_ex (denies_path nt a x) (cp_rules p)"
      using r Inr by (intro denied_has_deny) (simp add: refused_def path_denied_def)
    then have "path_denied nt q a x"
      using derived_permissions [where setting = setting and parent = "ParentPerms p" and child = child and level = level
          and roots = roots and ws = ws and vocabulary = vocabulary and nt = nt and a = a and x = x] assms by simp
    with Inr ax show ?thesis by (simp add: refused_def)
  qed
qed

lemma limit_refused: "refused nt q \<subseteq> refused nt (limit_to_categories groups cats q)"
proof
  fix r
  assume r: "r \<in> refused nt q"
  show "r \<in> refused nt (limit_to_categories groups cats q)"
  proof (cases r)
    case (Inl n)
    with r have "tool_denied q n" by (simp add: refused_def)
    then have "tool_denied (limit_to_categories groups cats q) n"
      by (cases "cp_allowed q") (auto simp: tool_denied_def limit_to_categories_def Let_def split: if_splits)
    with Inl show ?thesis by (simp add: refused_def)
  next
    case (Inr ax)
    with r show ?thesis
      by (cases ax) (simp add: refused_def path_denied_def limit_to_categories_def Let_def)
  qed
qed

text \<open>
  What a started worker is: derived from the agent that starts it, and possibly narrowed; without
  permissions of its own only when the code took the agent for unrestricted.
\<close>

lemma start_worker_cases:
  obtains (refused) e where "start_worker setting vocabulary groups d p = Inl e"
  | (unbound) "start_worker setting vocabulary groups d p = Inr None" "dt_child d = None" "dt_categories d = []"
      "\<not> restricted_parent p"
  | (bound) child q r where "start_worker setting vocabulary groups d p = Inr (Some r)"
      "derive setting (ParentPerms p) child (cp_depth p) (Some (dt_roots d)) (dt_workspace d) vocabulary = Inr q"
      "r = q \<or> r = limit_to_categories groups (dt_categories d) q"
proof -
  have ds: "thesis" if "derive setting (ParentPerms p) child (cp_depth p) (Some (dt_roots d)) (dt_workspace d) vocabulary = x"
      "start_worker setting vocabulary groups d p = map_sum id Some x
       \<or> start_worker setting vocabulary groups d p = map_sum id (\<lambda>q. Some (limit_to_categories groups (dt_categories d) q)) x"
      for child x
    using that refused bound by (cases x) fastforce+
  show thesis
  proof (cases "dt_child d = None \<and> \<not> restricted_parent p")
    case True
    show thesis
    proof (cases "dt_categories d = []")
      case True
      with \<open>dt_child d = None \<and> \<not> restricted_parent p\<close> show thesis
        by (intro unbound) (simp_all add: start_worker_def attach_permissions_def attach_categories_def)
    next
      case False
      with True show thesis
        by (intro ds [OF refl, of None]) (simp add: start_worker_def attach_permissions_def attach_categories_def)
    qed
  next
    case False
    then show thesis
      by (intro ds [OF refl, of "dt_child d"])
        (cases "derive setting (ParentPerms p) (dt_child d) (cp_depth p) (Some (dt_roots d)) (dt_workspace d) vocabulary";
         auto simp: start_worker_def attach_permissions_def attach_categories_def)
  qed
qed

definition within_ceiling :: "json \<Rightarrow> int \<Rightarrow> child_permissions \<Rightarrow> bool" where
  "within_ceiling setting origin p \<longleftrightarrow> cp_depth p \<le> max origin (max_depth setting)"

lemma delegate_facts:
  "refused nt p \<subseteq> refused nt (delegate setting vocabulary groups d p)"
  "within_ceiling setting origin p \<Longrightarrow> within_ceiling setting origin (delegate setting vocabulary groups d p)"
  "set (cp_roots (delegate setting vocabulary groups d p)) \<subseteq> set (cp_roots p) \<union> set (dt_roots d)"
proof -
  have "refused nt p \<subseteq> refused nt (delegate setting vocabulary groups d p)
    \<and> (within_ceiling setting origin p \<longrightarrow> within_ceiling setting origin (delegate setting vocabulary groups d p))
    \<and> set (cp_roots (delegate setting vocabulary groups d p)) \<subseteq> set (cp_roots p) \<union> set (dt_roots d)"
  proof (cases rule: start_worker_cases [of setting vocabulary groups d p])
    case (bound child q r)
    have "cp_depth q \<le> max_depth setting" "set (cp_roots q) \<subseteq> set (dt_roots d)"
      using bound(2) by (auto simp: derive_def Let_def split: if_splits)
    moreover have "cp_depth r = cp_depth q" "cp_roots r = cp_roots q"
      using bound(3) by (auto simp: limit_to_categories_def Let_def)
    moreover have "refused nt p \<subseteq> refused nt r"
      using derive_refused [OF bound(2), of nt] limit_refused [of nt q groups "dt_categories d"] bound(3) by blast
    ultimately show ?thesis using bound(1) by (auto simp: delegate_def within_ceiling_def)
  qed (auto simp: delegate_def)
  then show "refused nt p \<subseteq> refused nt (delegate setting vocabulary groups d p)"
    "within_ceiling setting origin p \<Longrightarrow> within_ceiling setting origin (delegate setting vocabulary groups d p)"
    "set (cp_roots (delegate setting vocabulary groups d p)) \<subseteq> set (cp_roots p) \<union> set (dt_roots d)"
    by blast+
qed

interpretation delegation: measured_system "delegate setting vocabulary groups" "within_ceiling setting origin" "refused nt"
  for setting vocabulary groups origin nt
  by unfold_locales (simp_all add: delegate_facts)

lemma fold_roots:
  "set (cp_roots (fold (delegate setting vocabulary groups) ds p)) \<subseteq> set (cp_roots p) \<union> (\<Union>d \<in> set ds. set (dt_roots d))"
proof (induction ds arbitrary: p)
  case (Cons d ds)
  show ?case
    using Cons.IH [of "delegate setting vocabulary groups d p"] delegate_facts(3) [of setting vocabulary groups d p] by auto
qed simp

text \<open>
  C8: Down any chain of delegations, whatever the definitions, roots and categories of the tasks
  ask for, every tool and every path the first agent is refused stays refused; a worker's
  workspace roots are the first agent's or were given by a delegation of the chain (a delegation
  replaces them by its own); no worker is deeper than the ceiling, which is at most 4; and a
  further task gets a worker without any permissions only when it names no definition and no
  category and the agent that starts it has no rule, no denied tool and no allowlist of its own.
\<close>
theorem restrictions_cannot_be_laundered:
  "let q = chain setting vocabulary groups ds p
   in refused nt p \<subseteq> refused nt q
      \<and> set (cp_roots q) \<subseteq> set (cp_roots p) \<union> (\<Union>d \<in> set ds. set (dt_roots d))
      \<and> cp_depth q \<le> max (cp_depth p) (max_depth setting) \<and> max_depth setting \<le> 4
      \<and> (case start_worker setting vocabulary groups d q of
           Inr None \<Rightarrow> dt_child d = None \<and> dt_categories d = [] \<and> \<not> restricted_parent q
         | _ \<Rightarrow> True)"
proof -
  define q where "q = chain setting vocabulary groups ds p"
  have start: "within_ceiling setting (cp_depth p) p" by (simp add: within_ceiling_def)
  have "max_depth setting \<le> 4" by (simp add: max_depth_def split: sum.splits)
  moreover have "case start_worker setting vocabulary groups d q of
        Inr None \<Rightarrow> dt_child d = None \<and> dt_categories d = [] \<and> \<not> restricted_parent q | _ \<Rightarrow> True"
    by (cases rule: start_worker_cases [of setting vocabulary groups d q]) simp_all
  moreover have "refused nt p \<subseteq> refused nt q" "within_ceiling setting (cp_depth p) q"
    using delegation.run_mono [OF start, of nt vocabulary groups ds] delegation.run_inv [OF start, of vocabulary groups ds]
    by (simp_all add: q_def chain_def)
  ultimately show ?thesis
    using fold_roots [of setting vocabulary groups ds p]
    unfolding Let_def q_def [symmetric] by (simp add: within_ceiling_def q_def [unfolded chain_def, symmetric])
qed

section \<open>Rules about dot files\<close>

lemma lower_dot:
  assumes "lower_char c = CHR ''.''"
  shows "c = CHR ''.''"
proof (cases "let n = (of_char c :: nat) in 65 \<le> n \<and> n \<le> 90 \<or> 192 \<le> n \<and> n \<le> 222 \<and> n \<noteq> 215")
  case True
  then have "lower_char c = char_of ((of_char c :: nat) + 32)" by (simp add: lower_char_def Let_def)
  with assms have "(of_char (char_of ((of_char c :: nat) + 32)) :: nat) = of_char CHR ''.''" by metis
  then have "((of_char c :: nat) + 32) mod 256 = 46" by simp
  with True show ?thesis by (auto simp: Let_def)
next
  case False
  with assms show ?thesis by (auto simp: lower_char_def Let_def)
qed

lemma dot_pattern_needs_dot: "path_matches nt (CHR ''.'' # pattern) x \<Longrightarrow> x \<noteq> [] \<and> hd x = CHR ''.''"
proof -
  assume "path_matches nt (CHR ''.'' # pattern) x"
  then have m: "gmatch nt (Lit CHR ''.'' # compile_glob pattern) x" by (simp add: path_matches_def)
  then obtain c cs where x: "x = c # cs" by (cases x) auto
  with m have "same_char nt CHR ''.'' c" by simp
  moreover have "lower_char CHR ''.'' = CHR ''.''" by (simp add: lower_char_def)
  ultimately have "c = CHR ''.''" using lower_dot [of c] by (auto simp: same_char_def)
  with x show ?thesis by simp
qed

lemma normalised_start:
  assumes "list_ex (\<lambda>c. c \<noteq> CHR ''.'' \<and> c \<noteq> CHR ''/'') (normalise_path resolve path ws)"
  shows "hd (normalise_path resolve path ws) \<noteq> CHR ''.''"
proof -
  let ?skip = "\<lambda>c. c = CHR ''.'' \<or> c = CHR ''/''"
  let ?t = "slashes (respell resolve (py_strip path) (py_strip ws))"
  have ne: "py_strip path \<noteq> []" using assms by (auto simp: normalise_path_def)
  have "dropWhile ?skip ?t \<noteq> []"
  proof
    assume none: "dropWhile ?skip ?t = []"
    with ne have "normalise_path resolve path ws = ?t" unfolding normalise_path_def Let_def by (simp only: if_False simp_thms)
    with assms obtain c where "c \<in> set ?t" "\<not> ?skip c" by (auto simp: list_ex_iff)
    with none show False unfolding dropWhile_eq_Nil_conv by blast
  qed
  moreover from this ne have "normalise_path resolve path ws = dropWhile ?skip ?t" by (simp add: normalise_path_def Let_def)
  ultimately show ?thesis using hd_dropWhile [of ?skip ?t] by auto
qed

text \<open>
  The gate strips leading dots and slashes from the path but not from the rules, so a rule whose
  pattern starts with a dot decides about no file: dropping all such rules changes no verdict.
\<close>
theorem dot_rules_decide_nothing:
  assumes "list_ex (\<lambda>c. c \<noteq> CHR ''.'' \<and> c \<noteq> CHR ''/'') (normalise_path resolve path ws)" "action \<noteq> ''delegate''"
  shows "decide nt rules action (normalise_path resolve path ws)
    = decide nt (filter (\<lambda>r. \<not> starts_with (ru_pattern r) ''.'') rules) action (normalise_path resolve path ws)"
proof (induction rules rule: rev_induct)
  case (snoc r rules)
  show ?case
  proof (cases "starts_with (ru_pattern r) ''.''")
    case True
    then obtain q where "ru_pattern r = CHR ''.'' # q" by (auto simp: starts_with_iff)
    then have "\<not> rule_applies nt action (normalise_path resolve path ws) r"
      using dot_pattern_needs_dot [of nt q "normalise_path resolve path ws"] normalised_start [OF assms(1)] assms(2)
      by (auto simp: rule_applies_def)
    with True snoc show ?thesis by (simp add: decide_snoc)
  next
    case False
    with snoc show ?thesis by (simp add: decide_snoc)
  qed
qed simp

section \<open>The gate\<close>

lemma find_passes: "(case find P xs of None \<Rightarrow> GPass | Some x \<Rightarrow> GPathDenied x) = GPass \<longleftrightarrow> list_all (\<lambda>x. \<not> P x) xs"
  by (induction xs) auto

lemma gate_passes:
  assumes "tool \<in> set write_tools" "restricts_action p ''write''"
    "permission_block nt resolve loads p tool c targets = GPass"
  shows "\<not> tool_denied p tool
     \<and> (\<exists>xs. targets = Some xs \<and> (\<forall>x \<in> set xs. \<not> path_denied nt p ''write'' (normalise_path resolve x (cp_workspace p))))"
proof -
  have ne: "tool \<noteq> []" using assms(1) by (auto simp: write_tools_def)
  with assms show ?thesis
    unfolding permission_block_def Let_def
    by (cases targets) (auto simp: find_passes list.pred_map comp_def list_all_iff split: if_splits option.splits)
qed

lemma refused_path_restricts:
  assumes "path_denied nt p a x"
  shows "restricts_action p a"
proof -
  have "list_ex (denies_path nt a x) (cp_rules p)"
    using assms by (intro denied_has_deny) (simp add: path_denied_def)
  then show ?thesis by (auto simp: restricts_action_def list_ex_iff denies_path_def rule_applies_def)
qed

text \<open>
  C33: When an agent has the rule \<open>deny write dir/**\<close>, for a directory spelled without wildcards, on a POSIX host no worker started by it, nor any worker
  further down, whatever their definitions allow, gets a write past the gate unless the targets
  are known and none of them, in the spelling the gate judges, lies under the directory; a name
  with a newline is not matched by the pattern. (The judged spelling never starts with a dot, so a
  directory whose name does is not fenced: \<open>dot_rules_decide_nothing\<close>.)
\<close>
theorem fenced_directory_is_not_written:
  assumes "plain dir" "dir \<noteq> []" and "\<lparr>ru_action = ''write'', ru_pattern = dir @ ''/**'', ru_effect = Deny\<rparr> \<in> set (cp_rules p)"
    and "derive setting (ParentPerms p) child level roots ws vocabulary = Inr w"
    and "q = chain setting vocabulary groups ds w" and "tool \<in> set write_tools"
    and "permission_block False resolve loads q tool c targets = GPass"
  shows "\<exists>xs. targets = Some xs
    \<and> (\<forall>x \<in> set xs. \<nexists>f. normalise_path resolve x (cp_workspace q) = dir @ CHR ''/'' # f \<and> newline \<notin> set f)"
proof -
  have fenced: "path_denied False q ''write'' x" if x: "x = dir @ CHR ''/'' # f" "newline \<notin> set f" for x f
  proof -
    have "path_matches False (dir @ ''/**'') x" using patterns_fence_directories [OF assms(1,2), of x] x by blast
    then have "list_ex (denies_path False ''write'' x) (cp_rules p)"
      using assms(3) by (force simp: list_ex_iff denies_path_def rule_applies_def)
    then have "path_denied False w ''write'' x"
      using derived_permissions [where setting = setting and parent = "ParentPerms p" and child = child and level = level
          and roots = roots and ws = ws and vocabulary = vocabulary and nt = False and a = "''write''" and x = x] assms(4) by simp
    moreover have "refused False w \<subseteq> refused False q"
      using delegation.run_mono [of setting "cp_depth w" w False vocabulary groups ds] assms(5)
      by (simp add: chain_def within_ceiling_def)
    ultimately show ?thesis using refused_path by blast
  qed
  have "restricts_action q ''write''"
    using fenced [OF refl, of "[]"] by (intro refused_path_restricts) simp
  from gate_passes [OF assms(6) this assms(7)] obtain xs where xs: "targets = Some xs"
    "\<forall>x \<in> set xs. \<not> path_denied False q ''write'' (normalise_path resolve x (cp_workspace q))" by blast
  then show ?thesis using fenced by blast
qed

section \<open>Tools granted by a wildcard\<close>

lemma match_itself: "CHR ''*'' \<notin> set t \<Longrightarrow> tool_name_matches t t"
  by (simp add: tool_name_matches_def)

text \<open>
  The complement of the parent's allowlist is taken by name, not by pattern: a child whose
  definition names a tool that the parent holds only through a wildcard entry is refused it.
\<close>
theorem wildcard_grant_is_lost:
  assumes "derive setting (ParentPerms p) (Some d) level roots ws vocabulary = Inr q"
    and "cp_allowed p = Some allow" "t \<in> set (ad_tools d)" "t \<notin> set allow" "t \<noteq> []" "CHR ''*'' \<notin> set t"
  shows "tool_denied q t"
proof -
  have "left_out (Some p) (Some d) vocabulary t"
    using assms(2-4) match_itself [OF assms(6)] by (auto simp: left_out_def in_patterns_def list_ex_iff)
  then show ?thesis
    using derived_permissions [where setting = setting and parent = "ParentPerms p" and child = "Some d" and level = level
        and roots = roots and ws = ws and vocabulary = vocabulary and n = t] assms(1,5) by simp
qed

section \<open>An allowlist the next generation forgets\<close>

text \<open>
  \<open>_attach_permissions\<close> takes an agent for unrestricted when it has no rule, no denied tool and no
  allowlist of its own. The allowlists of its ancestors are not asked: a worker that may delegate,
  below an agent whose allowlist covers every built-in name, starts a task with no definition
  without any permissions, and the tools of a server connected later, which the first agent is
  refused, are not refused to it.
\<close>
theorem ancestor_allowlist_is_forgotten:
  "let first = empty_permissions\<lparr>cp_allowed := Some [''read_file''], cp_may_delegate := True\<rparr>;
       middle = \<lparr>ad_slug = ''m'', ad_name = [], ad_mode = ''coordinator'', ad_tools = [], ad_deny = [],
          ad_permission = [], ad_caveats = []\<rparr>;
       task = \<lparr>dt_child = None, dt_roots = [], dt_workspace = [], dt_categories = []\<rparr>
   in case derive (JInt 3) (ParentPerms first) (Some middle) 0 None [] [''read_file''] of
        Inl e \<Rightarrow> False
      | Inr w \<Rightarrow> cp_may_delegate w \<and> tool_denied w ''mcp__git__push''
          \<and> start_worker (JInt 3) [''read_file''] [] task w = Inr None"
  by code_simp

section \<open>Concrete runs\<close>

definition demo_parent :: child_permissions where
  "demo_parent = empty_permissions\<lparr>cp_allowed := Some [''mcp__git__*''], cp_may_delegate := True\<rparr>"

definition demo_child :: agent_def where
  "demo_child = \<lparr>ad_slug = ''w'', ad_name = [], ad_mode = ''worker'', ad_tools = [''mcp__git__log''], ad_deny = [],
     ad_permission = [], ad_caveats = []\<rparr>"

definition demo_rules :: child_permissions where
  "demo_rules = empty_permissions\<lparr>cp_rules := [\<lparr>ru_action = ''write'', ru_pattern = ''.env'', ru_effect = Deny\<rparr>]\<rparr>"

theorem patterns_fence_directories_witness:
  "path_matches False ''src/*'' ''src/a.py'' \<and> \<not> path_matches False ''src/*'' ''src/a/b.py'' \<and> path_matches False ''src/**'' ''src/a/b.py''"
proof -
  have "plain ''src''" "''src'' \<noteq> []" by (simp_all add: plain_def)
  from patterns_fence_directories [OF this, of "''src/a.py''"] patterns_fence_directories [OF this, of "''src/a/b.py''"]
  show ?thesis by (auto simp: newline_def char_of_def)
qed

theorem dot_rules_decide_nothing_witness:
  "normalise_path (\<lambda>x. Some x) ''.env'' ''/w'' = ''env'' \<and> decide False (cp_rules demo_rules) ''write'' ''env'' = Allow"
proof -
  have n: "normalise_path (\<lambda>x. Some x) ''.env'' ''/w'' = ''env''" by code_simp
  have "decide False (cp_rules demo_rules) ''write'' (normalise_path (\<lambda>x. Some x) ''.env'' ''/w'')
      = decide False (filter (\<lambda>r. \<not> starts_with (ru_pattern r) ''.'') (cp_rules demo_rules)) ''write''
          (normalise_path (\<lambda>x. Some x) ''.env'' ''/w'')"
    by (rule dot_rules_decide_nothing) (simp_all add: n)
  then show ?thesis by (simp add: n demo_rules_def empty_permissions_def decide_def)
qed

definition demo_fence :: child_permissions where
  "demo_fence = empty_permissions\<lparr>cp_rules := [\<lparr>ru_action = ''write'', ru_pattern = ''src/**'', ru_effect = Deny\<rparr>],
     cp_may_delegate := True, cp_workspace := ''/w''\<rparr>"

definition demo_eager :: agent_def where
  "demo_eager = \<lparr>ad_slug = ''w'', ad_name = [], ad_mode = ''coordinator'', ad_tools = [], ad_deny = [],
     ad_permission = [\<lparr>ru_action = ''write'', ru_pattern = ''**'', ru_effect = Allow\<rparr>], ad_caveats = []\<rparr>"

definition demo_task :: delegation_task where
  "demo_task = \<lparr>dt_child = Some demo_eager, dt_roots = [''/w''], dt_workspace = ''/w'', dt_categories = []\<rparr>"

text \<open>The gate lets a worker two generations down write beside the fenced directory, and nothing else.\<close>

theorem fenced_directory_is_not_written_witness:
  "case derive (JInt 3) (ParentPerms demo_fence) (Some demo_eager) 0 None [] [] of
     Inl e \<Rightarrow> False
   | Inr w \<Rightarrow>
       (let q = chain (JInt 3) [] [] [demo_task] w
        in permission_block False (\<lambda>x. Some x) (\<lambda>x. None) q ''write_file'' (CText []) (Some [''doc/a.md'']) = GPass
           \<and> (\<nexists>f. normalise_path (\<lambda>x. Some x) ''doc/a.md'' (cp_workspace q) = ''src'' @ CHR ''/'' # f \<and> newline \<notin> set f)
           \<and> permission_block False (\<lambda>x. Some x) (\<lambda>x. None) q ''write_file'' (CText []) (Some [''doc/a.md'', ''/w/src/b.py'']) \<noteq> GPass)"
proof -
  obtain w where w: "derive (JInt 3) (ParentPerms demo_fence) (Some demo_eager) 0 None [] [] = Inr w"
    by (simp add: derive_def max_depth_def Let_def)
  define q where "q = chain (JInt 3) [] [] [demo_task] w"
  have p: "plain ''src''" "''src'' \<noteq> []" by (simp_all add: plain_def)
  have rule: "\<lparr>ru_action = ''write'', ru_pattern = ''src'' @ ''/**'', ru_effect = Deny\<rparr> \<in> set (cp_rules demo_fence)"
    by (simp add: demo_fence_def empty_permissions_def)
  have tool: "''write_file'' \<in> set write_tools" by (simp add: write_tools_def)
  have run: "case derive (JInt 3) (ParentPerms demo_fence) (Some demo_eager) 0 None [] [] of
     Inl e \<Rightarrow> False
   | Inr w \<Rightarrow> permission_block False (\<lambda>x. Some x) (\<lambda>x. None) (chain (JInt 3) [] [] [demo_task] w) ''write_file'' (CText []) (Some [''doc/a.md'']) = GPass
       \<and> normalise_path (\<lambda>x. Some x) ''/w/src/b.py'' (cp_workspace (chain (JInt 3) [] [] [demo_task] w)) = ''src'' @ CHR ''/'' # ''b.py''"
    by code_simp
  then have pass: "permission_block False (\<lambda>x. Some x) (\<lambda>x. None) q ''write_file'' (CText []) (Some [''doc/a.md'']) = GPass"
    and norm: "normalise_path (\<lambda>x. Some x) ''/w/src/b.py'' (cp_workspace q) = ''src'' @ CHR ''/'' # ''b.py''"
    by (simp_all add: w q_def)
  have nl: "newline \<notin> set ''b.py''" by code_simp
  note fence = fenced_directory_is_not_written [OF p rule w q_def tool]
  have "permission_block False (\<lambda>x. Some x) (\<lambda>x. None) q ''write_file'' (CText []) (Some [''doc/a.md'', ''/w/src/b.py'']) \<noteq> GPass"
  proof
    assume "permission_block False (\<lambda>x. Some x) (\<lambda>x. None) q ''write_file'' (CText []) (Some [''doc/a.md'', ''/w/src/b.py'']) = GPass"
    from fence [OF this] norm nl show False by auto
  qed
  then show ?thesis using fence [OF pass] pass by (simp add: w q_def [symmetric] Let_def)
qed

theorem wildcard_grant_is_lost_witness:
  "\<not> tool_denied demo_parent ''mcp__git__log'' \<and>
   (case derive (JInt 2) (ParentPerms demo_parent) (Some demo_child) 0 None [] [] of Inl e \<Rightarrow> False | Inr q \<Rightarrow> tool_denied q ''mcp__git__log'')"
proof -
  obtain q where q: "derive (JInt 2) (ParentPerms demo_parent) (Some demo_child) 0 None [] [] = Inr q"
    by (simp add: derive_def max_depth_def Let_def)
  have "tool_denied q ''mcp__git__log''"
    by (rule wildcard_grant_is_lost [OF q, of "[''mcp__git__*'']"]) (simp_all add: demo_parent_def demo_child_def)
  moreover have "\<not> tool_denied demo_parent ''mcp__git__log''" by code_simp
  ultimately show ?thesis by (simp add: q)
qed

end
