(* ===== verification/Period_Budget.thy ===== *)
theory Period_Budget
  imports Unattended_Breaker
begin

text \<open>
  The period budget, \<open>src/period_budget.py\<close>: the pace-line decision, the ledger of hosted spend and GPU
  seconds per provider, and the evaluation that combines every window with the endpoint's cooldown,
  the failure breaker (both of \<open>Unattended_Breaker\<close>) and the interactive back-off.

  Settings are the values the settings store holds. The classification of an endpoint's URL (host and
  provider kind) and \<open>float\<close> of a text are arguments, \<open>off\<close> is the local time's offset from UTC (a
  constant: no daylight-saving change inside a window). Reason texts and the numbers shown beside a
  decision are left out; \<open>de_scope\<close> is the target's key or the part that decided, and a ledger that cannot be read is \<open>None\<close>.
\<close>

section \<open>Settings\<close>

definition pb_num :: "(string \<Rightarrow> pyfloat option) \<Rightarrow> pynum \<Rightarrow> real \<Rightarrow> real" where
  "pb_num parse v dflt =
     (case v of
        PNone \<Rightarrow> dflt
      | PBool b \<Rightarrow> dflt
      | _ \<Rightarrow> if v = PStr [] then dflt else (case to_float parse v of Inr (Fin r) \<Rightarrow> r | _ \<Rightarrow> dflt))"

datatype target_value = TNum pynum | TMap "(string, pynum) dict"

record pb_settings =
  st_window :: string
  st_band :: pynum
  st_gpu :: pynum
  st_backoff :: pynum
  st_min_workers :: pynum
  st_targets :: "(string \<times> target_value) list"

datatype window = Day | Week

definition period_window :: "pb_settings \<Rightarrow> window" where
  "period_window s = (if py_lower (py_strip (st_window s)) = ''day'' then Day else Week)"

definition band_fraction :: "(string \<Rightarrow> pyfloat option) \<Rightarrow> pb_settings \<Rightarrow> real" where
  "band_fraction parse s = min (max (pb_num parse (st_band s) 10) 0) 100 / 100"

definition gpu_daily_seconds :: "(string \<Rightarrow> pyfloat option) \<Rightarrow> pb_settings \<Rightarrow> real" where
  "gpu_daily_seconds parse s = max 0 (pb_num parse (st_gpu s) 0)"

definition backoff_when_interactive :: "pb_settings \<Rightarrow> bool" where
  "backoff_when_interactive s =
     (case st_backoff s of
        PStr t \<Rightarrow> py_lower (py_strip t) \<notin> {''0'', ''false'', ''no'', ''off'', []}
      | PNone \<Rightarrow> False | PBool b \<Rightarrow> b | PInt i \<Rightarrow> i \<noteq> 0 | PFlt x \<Rightarrow> x \<noteq> Fin 0)"

definition min_workers :: "(string \<Rightarrow> pyfloat option) \<Rightarrow> pb_settings \<Rightarrow> int" where
  "min_workers parse s = (let x = pb_num parse (st_min_workers s) 0 in max 0 (if 0 \<le> x then \<lfloor>x\<rfloor> else \<lceil>x\<rceil>))"

record limits =
  lm_usd :: real
  lm_tokens :: real

definition read_target_value :: "(string \<Rightarrow> pyfloat option) \<Rightarrow> target_value \<Rightarrow> limits" where
  "read_target_value parse v =
     (case v of
        TNum x \<Rightarrow> \<lparr>lm_usd = pb_num parse x 0, lm_tokens = 0\<rparr>
      | TMap d \<Rightarrow> \<lparr>lm_usd = pb_num parse (dget_or d ''usd'' (dget_or d ''dollars'' PNone)) 0,
                 lm_tokens = pb_num parse (dget_or d ''tokens'' PNone) 0\<rparr>)"

text \<open>A limit that is not positive is no limit; a provider without limits is not listed.\<close>

definition targets :: "(string \<Rightarrow> pyfloat option) \<Rightarrow> pb_settings \<Rightarrow> (string, limits) dict" where
  "targets parse s =
     fold (\<lambda>(key, v) out.
       let name = py_lower (py_strip key); l = read_target_value parse v
       in if name \<noteq> [] \<and> (0 < lm_usd l \<or> 0 < lm_tokens l) then dset name l out else out) (st_targets s) []"

section \<open>Windows\<close>

definition day_length :: real where "day_length = 86400"

text \<open>Day 0 of the epoch was a Thursday; Monday is weekday 0.\<close>

definition window_bounds :: "real \<Rightarrow> window \<Rightarrow> real \<Rightarrow> real \<times> real" where
  "window_bounds off w now =
     (let day = \<lfloor>(now + off) / day_length\<rfloor>; start = of_int day * day_length - off
      in case w of
           Day \<Rightarrow> (start, start + day_length)
         | Week \<Rightarrow> let monday = start - of_int ((day + 3) mod 7) * day_length in (monday, monday + 7 * day_length))"

definition elapsed_fraction :: "real \<Rightarrow> real \<Rightarrow> real \<Rightarrow> real" where
  "elapsed_fraction start finish now = min (max ((now - start) / max (finish - start) 1) 0) 1"

definition live_usage :: "real \<Rightarrow> real \<Rightarrow> real \<Rightarrow> real" where
  "live_usage usage resets_at now = (if resets_at \<le> now then 0 else max usage 0)"

section \<open>The decision\<close>

datatype decision_kind = KBreaker | KLimit | KCooldown | KPace | KInteractive | KOk

record decision =
  de_workers :: int
  de_kind :: decision_kind
  de_pause :: "real option"
  de_retry :: "real option"
  de_scope :: string

definition interactive_retry :: real where "interactive_retry = 30"
definition min_pause :: real where "min_pause = 60"

definition pace_share :: "real \<Rightarrow> real \<Rightarrow> real \<Rightarrow> real" where
  "pace_share used_frac allowed_frac band =
     (let headroom = allowed_frac - used_frac
      in if headroom \<le> 0 then 0
         else let share = (if band \<le> 0 then 1 else min (headroom / band) 1) in if 1 - 1 / 10 ^ 9 < share then 1 else share)"

definition pace_workers :: "int \<Rightarrow> real \<Rightarrow> int" where
  "pace_workers n share = (if 0 < share then \<lceil>of_int n * share - 1 / 10 ^ 9\<rceil> else 0)"

definition no_decision :: "int \<Rightarrow> decision_kind \<Rightarrow> string \<Rightarrow> decision" where
  "no_decision n k label = \<lparr>de_workers = n, de_kind = k, de_pause = None, de_retry = None, de_scope = label\<rparr>"

definition interactive_decision :: "string \<Rightarrow> decision" where
  "interactive_decision label = (no_decision 0 KInteractive label)\<lparr>de_retry := Some interactive_retry\<rparr>"

text \<open>
  \<open>wspan\<close> is the window's start and length, when known. A pause by pacing ends when the line reaches
  the use, at the earliest in a minute and at the latest with the window.
\<close>

definition pace_resume :: "(real \<times> real) option \<Rightarrow> real \<Rightarrow> real \<Rightarrow> real \<Rightarrow> real" where
  "pace_resume wspan used_frac band now =
     (case wspan of
        Some (start, len) \<Rightarrow>
          if len \<noteq> 0 then min (max (start + (used_frac - band) * len) (now + min_pause)) (start + len) else now + 300
      | None \<Rightarrow> now + 300)"

definition pace_decision :: "int \<Rightarrow> int \<Rightarrow> real \<Rightarrow> real \<Rightarrow> real \<Rightarrow> string \<Rightarrow> decision" where
  "pace_decision n least share resume now label =
     (let workers = pace_workers n share
      in if workers < least then no_decision least KPace label
         else if workers = 0
           then \<lparr>de_workers = 0, de_kind = KPace, de_pause = Some resume, de_retry = Some (max (resume - now) 0),
                 de_scope = label\<rparr>
         else no_decision workers (if share < 1 then KPace else KOk) label)"

definition decide_window ::
  "real \<Rightarrow> real \<Rightarrow> real \<Rightarrow> real \<Rightarrow> int \<Rightarrow> bool \<Rightarrow> int \<Rightarrow> (real \<times> real) option \<Rightarrow> real \<Rightarrow> string \<Rightarrow> decision" where
  "decide_window usage0 target band0 elapsed0 floor_workers interactive max_workers wspan now label =
     (let n = max max_workers 0;
          finish = (case wspan of Some (start, len) \<Rightarrow> if len \<noteq> 0 then Some (start + len) else None | None \<Rightarrow> None);
          usage = max usage0 0; band = min (max band0 0) 1; elapsed = min (max elapsed0 0) 1;
          used_frac = usage / target; allowed_frac = min 1 (elapsed + band)
      in if n = 0 then no_decision 0 KLimit label
         else if target \<le> 0 then (if interactive then interactive_decision label else no_decision n KOk label)
         else if target \<le> usage
           then \<lparr>de_workers = 0, de_kind = KLimit, de_pause = finish,
                 de_retry = map_option (\<lambda>e. max (e - now) 0) finish, de_scope = label\<rparr>
         else if interactive then interactive_decision label
         else pace_decision n (min (max floor_workers 0) n) (pace_share used_frac allowed_frac band)
                (pace_resume wspan used_frac band now) now label)"

section \<open>The ledger\<close>

record usage_row =
  us_ts :: real
  us_provider :: string
  us_kind :: string
  us_model :: string
  us_usd :: real
  us_tokens :: int
  us_unpriced :: int
  us_gpu :: real

record usage_ledger =
  ul_rows :: "usage_row list"
  ul_pruned_at :: real

definition keep_seconds :: real where "keep_seconds = 40 * 86400"

definition pb_insert :: "usage_row \<Rightarrow> usage_ledger \<Rightarrow> usage_ledger" where
  "pb_insert row l =
     (let rows = ul_rows l @ [row]; t = us_ts row
      in if 3600 < t - ul_pruned_at l
         then \<lparr>ul_rows = filter (\<lambda>r. t - keep_seconds \<le> us_ts r) rows, ul_pruned_at = t\<rparr>
         else l\<lparr>ul_rows := rows\<rparr>)"

definition booked_row :: "string \<Rightarrow> string \<Rightarrow> string \<Rightarrow> real option \<Rightarrow> int \<Rightarrow> real \<Rightarrow> real \<Rightarrow> usage_row" where
  "booked_row provider kind model usd tokens0 gpu ts =
     (let tokens = max tokens0 0; priced = (case usd of None \<Rightarrow> False | Some x \<Rightarrow> 0 \<le> x)
      in \<lparr>us_ts = ts, us_provider = py_lower (if provider = [] then ''unknown'' else provider), us_kind = py_lower kind,
          us_model = take 120 model, us_usd = (if priced then the usd else 0), us_tokens = tokens,
          us_unpriced = (if priced then 0 else tokens), us_gpu = max gpu 0\<rparr>)"

definition pb_record :: "string \<Rightarrow> string \<Rightarrow> string \<Rightarrow> real option \<Rightarrow> int \<Rightarrow> real \<Rightarrow> real \<Rightarrow> usage_ledger \<Rightarrow> usage_ledger" where
  "pb_record provider kind model usd tokens gpu ts l = pb_insert (booked_row provider kind model usd tokens gpu ts) l"

definition record_gpu_seconds :: "real \<Rightarrow> string \<Rightarrow> real \<Rightarrow> usage_ledger \<Rightarrow> usage_ledger" where
  "record_gpu_seconds seconds model ts l = (if 0 < seconds then pb_record ''local'' ''local'' model None 0 seconds ts l else l)"

text \<open>SQLite's \<open>LIKE\<close>: \<open>%\<close> is any run, \<open>_\<close> any character, ASCII letters in either case.\<close>

definition ascii_lower :: "char \<Rightarrow> char" where
  "ascii_lower c = (let n = (of_char c :: nat) in if 65 \<le> n \<and> n \<le> 90 then char_of (n + 32) else c)"

fun sql_like :: "string \<Rightarrow> string \<Rightarrow> bool" where
  "sql_like [] t = (t = [])"
| "sql_like (p # ps) [] = (p = CHR ''%'' \<and> sql_like ps [])"
| "sql_like (p # ps) (c # cs) =
     (if p = CHR ''%'' then sql_like ps (c # cs) \<or> sql_like (p # ps) cs
      else (p = CHR ''_'' \<or> ascii_lower p = ascii_lower c) \<and> sql_like ps cs)"

definition hosted_keys :: "string list" where
  "hosted_keys = [''*'', ''all'', ''hosted'', ''cloud'']"

definition row_matches :: "string \<Rightarrow> usage_row \<Rightarrow> bool" where
  "row_matches key0 r =
     (let key = py_lower (py_strip key0)
      in if key \<in> set hosted_keys then us_provider r \<noteq> ''local''
         else if key = ''local'' then us_provider r = ''local''
         else us_provider r = key \<or> us_kind r = key \<or> sql_like (CHR ''%'' # key) (us_provider r))"

record usage_sum =
  su_usd :: real
  su_tokens :: int
  su_unpriced :: int
  su_gpu :: real
  su_calls :: nat

definition usage_since :: "string \<Rightarrow> real \<Rightarrow> real option \<Rightarrow> usage_row list option \<Rightarrow> usage_sum" where
  "usage_since key since until ledger =
     (let rows = (case ledger of None \<Rightarrow> [] | Some rs \<Rightarrow>
            filter (\<lambda>r. since \<le> us_ts r \<and> row_matches key r \<and> (case until of None \<Rightarrow> True | Some u \<Rightarrow> us_ts r < u)) rs)
      in \<lparr>su_usd = sum_list (map us_usd rows), su_tokens = sum_list (map us_tokens rows),
          su_unpriced = sum_list (map us_unpriced rows), su_gpu = sum_list (map us_gpu rows), su_calls = length rows\<rparr>)"

section \<open>Evaluation\<close>

text \<open>
  What a start is judged against: the settings, the ledger's rows, whether an interactive turn is
  live, the classification of URLs, and the settings of the breaker. The breaker and the cooldown
  table are the state the evaluation reads (and tidies).
\<close>

record pb_env =
  ev_parse :: "string \<Rightarrow> pyfloat option"
  ev_settings :: pb_settings
  ev_rows :: "usage_row list option"
  ev_interactive :: bool
  ev_off :: real
  ev_provider :: "string \<Rightarrow> string \<times> string"
  ev_url :: "string \<Rightarrow> string option \<times> nat option"
  ev_digest :: "string \<Rightarrow> string"
  ev_breaker :: breaker_settings

definition covers_url :: "string \<Rightarrow> string \<Rightarrow> string \<Rightarrow> bool" where
  "covers_url key host kind \<longleftrightarrow> key \<in> set hosted_keys \<or> key = host \<or> key = kind \<or> host \<noteq> [] \<and> ends_with host key"

definition hosted_decision :: "pb_env \<Rightarrow> bool \<Rightarrow> int \<Rightarrow> real \<Rightarrow> int \<Rightarrow> string \<Rightarrow> real \<Rightarrow> real \<Rightarrow> decision" where
  "hosted_decision ev interactive n now least key used target =
     (let (start, finish) = window_bounds (ev_off ev) (period_window (ev_settings ev)) now
      in decide_window (live_usage used finish now) target (band_fraction (ev_parse ev) (ev_settings ev))
           (elapsed_fraction start finish now) least interactive n (Some (start, finish - start)) now key)"

definition hosted_decisions :: "pb_env \<Rightarrow> string option \<Rightarrow> bool \<Rightarrow> int \<Rightarrow> real \<Rightarrow> int \<Rightarrow> decision list" where
  "hosted_decisions ev url interactive n now least =
     (let (start, finish) = window_bounds (ev_off ev) (period_window (ev_settings ev)) now;
          (host, kind) = (case url of None \<Rightarrow> ([], []) | Some u \<Rightarrow> ev_provider ev u)
      in concat (map (\<lambda>(key, l).
           if url \<noteq> None \<and> \<not> covers_url key host kind then []
           else let used = usage_since key start (Some finish) (ev_rows ev)
                in (if 0 < lm_usd l then [hosted_decision ev interactive n now least key (su_usd used) (lm_usd l)] else [])
                 @ (if 0 < lm_tokens l
                    then [hosted_decision ev interactive n now least key (of_int (su_tokens used)) (lm_tokens l)] else []))
         (targets (ev_parse ev) (ev_settings ev))))"

definition gpu_decision :: "pb_env \<Rightarrow> bool \<Rightarrow> int \<Rightarrow> real \<Rightarrow> int \<Rightarrow> decision list" where
  "gpu_decision ev interactive n now least =
     (let target = gpu_daily_seconds (ev_parse ev) (ev_settings ev);
          (start, finish) = window_bounds (ev_off ev) Day now;
          used = su_gpu (usage_since ''local'' start (Some finish) (ev_rows ev))
      in if target \<le> 0 then []
         else [decide_window (live_usage used finish now) target (band_fraction (ev_parse ev) (ev_settings ev))
                 (elapsed_fraction start finish now) least interactive n (Some (start, finish - start)) now ''local''])"

fun kind_order :: "decision_kind \<Rightarrow> nat" where
  "kind_order KBreaker = 0" | "kind_order KLimit = 1" | "kind_order KCooldown = 2" | "kind_order KPace = 3"
| "kind_order KInteractive = 4" | "kind_order KOk = 5"

definition pause_or_zero :: "decision \<Rightarrow> real" where
  "pause_or_zero d = (case de_pause d of None \<Rightarrow> 0 | Some t \<Rightarrow> t)"

definition stricter :: "decision \<Rightarrow> decision \<Rightarrow> bool" where
  "stricter a b \<longleftrightarrow> de_workers a < de_workers b
     \<or> de_workers a = de_workers b \<and> (kind_order (de_kind a) < kind_order (de_kind b)
         \<or> kind_order (de_kind a) = kind_order (de_kind b) \<and> pause_or_zero b < pause_or_zero a)"

text \<open>The first element of the stable sort.\<close>

definition most_restrictive :: "decision \<Rightarrow> decision list \<Rightarrow> decision" where
  "most_restrictive d ds = fold (\<lambda>x best. if stricter x best then x else best) ds d"

definition breaker_decisions :: "pb_env \<Rightarrow> bool \<Rightarrow> real \<Rightarrow> breaker \<Rightarrow> decision list" where
  "breaker_decisions ev unattended now b =
     (if unattended
      then (case fst (bk_check (ev_breaker ev) now b) of
              None \<Rightarrow> []
            | Some a \<Rightarrow> [\<lparr>de_workers = 0, de_kind = KBreaker, de_pause = Some (an_pause_until a),
                         de_retry = Some (an_retry_after a), de_scope = ''breaker''\<rparr>])
      else [])"

definition cooldown_decisions :: "pb_env \<Rightarrow> string option \<Rightarrow> real \<Rightarrow> cooldowns \<Rightarrow> decision list" where
  "cooldown_decisions ev url now cds =
     (case url of
        None \<Rightarrow> []
      | Some u \<Rightarrow>
          if fst (ev_provider ev u) = ''local'' then []
          else case fst (cooldown_for (ev_url ev) (ev_digest ev) u None now cds) of
                 None \<Rightarrow> []
               | Some cd \<Rightarrow> [\<lparr>de_workers = 0, de_kind = KCooldown, de_pause = Some (cd_until cd),
                             de_retry = Some (max (cd_until cd - now) 0), de_scope = ''cooldown''\<rparr>])"

text \<open>The windows a start is judged against: without a URL every window, else those that cover it.\<close>

definition window_decisions :: "pb_env \<Rightarrow> string option \<Rightarrow> bool \<Rightarrow> int \<Rightarrow> real \<Rightarrow> int \<Rightarrow> bool \<Rightarrow> decision list" where
  "window_decisions ev url interactive n now least hosted_any =
     (case url of
        Some u \<Rightarrow> if fst (ev_provider ev u) = ''local'' then gpu_decision ev interactive n now least
                 else hosted_decisions ev (Some u) interactive n now least
      | None \<Rightarrow> (if hosted_any then [] else gpu_decision ev interactive n now least)
               @ hosted_decisions ev None interactive n now least)"

definition all_decisions :: "pb_env \<Rightarrow> string option \<Rightarrow> bool \<Rightarrow> int \<Rightarrow> real \<Rightarrow> bool \<Rightarrow> breaker \<Rightarrow> cooldowns \<Rightarrow> decision list" where
  "all_decisions ev url unattended max_workers now hosted_any b cds =
     (let n = max max_workers 1; least = min (min_workers (ev_parse ev) (ev_settings ev)) n;
          interactive = unattended \<and> backoff_when_interactive (ev_settings ev) \<and> ev_interactive ev;
          ds = breaker_decisions ev unattended now b @ cooldown_decisions ev url now cds
             @ window_decisions ev url interactive n now least hosted_any
      in ds @ (if interactive \<and> \<not> list_ex (\<lambda>d. de_kind d = KInteractive) ds then [interactive_decision ''interactive''] else []))"

definition evaluate :: "pb_env \<Rightarrow> string option \<Rightarrow> bool \<Rightarrow> int \<Rightarrow> real \<Rightarrow> bool \<Rightarrow> breaker \<Rightarrow> cooldowns \<Rightarrow> decision" where
  "evaluate ev url unattended max_workers now hosted_any b cds =
     (case all_decisions ev url unattended max_workers now hosted_any b cds of
        [] \<Rightarrow> no_decision (max max_workers 1) KOk ''none''
      | d # ds \<Rightarrow> most_restrictive d ds)"

text \<open>The breaker and the cooldown table after an evaluation: what the checks tidy up.\<close>

definition evaluate_state :: "pb_env \<Rightarrow> string option \<Rightarrow> bool \<Rightarrow> real \<Rightarrow> breaker \<times> cooldowns \<Rightarrow> breaker \<times> cooldowns" where
  "evaluate_state ev url unattended now s =
     ((if unattended then snd (bk_check (ev_breaker ev) now (fst s)) else fst s),
      (case url of
         Some u \<Rightarrow> if fst (ev_provider ev u) = ''local'' then snd s
                  else snd (cooldown_for (ev_url ev) (ev_digest ev) u None now (snd s))
       | None \<Rightarrow> snd s))"

definition pb_gate :: "pb_env \<Rightarrow> string option \<Rightarrow> bool \<Rightarrow> int \<Rightarrow> real \<Rightarrow> bool \<Rightarrow> breaker \<Rightarrow> cooldowns \<Rightarrow> decision option" where
  "pb_gate ev url unattended max_workers now hosted_any b cds =
     (let d = evaluate ev url unattended max_workers now hosted_any b cds in if de_workers d \<le> 0 then Some d else None)"

definition allowed_workers :: "pb_env \<Rightarrow> string option \<Rightarrow> int \<Rightarrow> bool \<Rightarrow> real \<Rightarrow> breaker \<Rightarrow> cooldowns \<Rightarrow> int \<times> decision option" where
  "allowed_workers ev url wanted0 unattended now b cds =
     (let wanted = max wanted0 1; d = evaluate ev url unattended wanted now False b cds
      in if de_workers d \<le> 0 then (0, Some d)
         else (min (de_workers d) wanted, if de_workers d < wanted then Some d else None))"

text \<open>A paid escalation is blocked by a spent all-hosted target, or when every other target is spent.\<close>

definition gate_paid_escalation :: "pb_env \<Rightarrow> real \<Rightarrow> decision option" where
  "gate_paid_escalation ev now =
     (let ds = hosted_decisions ev None False 1 now 0;
          total = filter (\<lambda>d. de_scope d \<in> set hosted_keys) ds;
          specific = filter (\<lambda>d. de_scope d \<notin> set hosted_keys) ds
      in case filter (\<lambda>d. de_workers d \<le> 0) total of
           d # rest \<Rightarrow> Some (most_restrictive d rest)
         | [] \<Rightarrow> (case specific of
              d # rest \<Rightarrow> if list_all (\<lambda>d. de_workers d \<le> 0) specific then Some (most_restrictive d rest) else None
            | [] \<Rightarrow> None))"

definition wait_seconds :: "decision option \<Rightarrow> real \<Rightarrow> real \<Rightarrow> real" where
  "wait_seconds answer now cap =
     (case answer of
        None \<Rightarrow> 0
      | Some d \<Rightarrow>
          let retry = (case de_retry d of Some r \<Rightarrow> Some r | None \<Rightarrow> map_option (\<lambda>p. p - now) (de_pause d))
          in min (max (case retry of Some r \<Rightarrow> r | None \<Rightarrow> interactive_retry) 1) cap)"

section \<open>The pace line\<close>

lemma pace_share_bounds: "0 \<le> pace_share u a band" "pace_share u a band \<le> 1"
  by (auto simp: pace_share_def Let_def)

lemma snap_mono: "(x::real) \<le> y \<Longrightarrow> y \<le> 1 \<Longrightarrow> (if c < x then 1 else x) \<le> (if c < y then 1 else y)"
  by simp

lemma pace_share_mono:
  assumes "a1 - u1 \<le> a2 - u2"
  shows "pace_share u1 a1 band \<le> pace_share u2 a2 band"
proof (cases "a1 - u1 \<le> 0 \<or> band \<le> 0")
  case True
  then show ?thesis using assms pace_share_bounds [of u2 a2 band] by (auto simp: pace_share_def Let_def)
next
  case False
  then have "(a1 - u1) / band \<le> (a2 - u2) / band" using assms by (intro divide_right_mono) auto
  then have "min ((a1 - u1) / band) 1 \<le> min ((a2 - u2) / band) 1" by (intro min.mono) auto
  note snap = snap_mono [OF this, of "1 - 1 / 10 ^ 9"]
  from False assms have "\<not> a1 - u1 \<le> 0" "\<not> a2 - u2 \<le> 0" "\<not> band \<le> 0" by auto
  then show ?thesis unfolding pace_share_def Let_def by (simp only: if_False snap min.cobounded2)
qed

lemma pace_workers_bounds:
  assumes "0 \<le> n" "share \<le> 1"
  shows "0 \<le> pace_workers n share" "pace_workers n share \<le> n"
proof -
  have pos: "0 \<le> of_int n * share" if "0 < share" using assms(1) that by simp
  show "0 \<le> pace_workers n share"
  proof (cases "0 < share")
    case True
    with pos have "- 1 < of_int n * share - 1 / 10 ^ 9" by simp
    with True show ?thesis by (simp add: pace_workers_def)
  qed (simp add: pace_workers_def)
  have "of_int n * share \<le> of_int n" using assms by (simp add: mult_left_le)
  then have "of_int n * share - 1 / 10 ^ 9 \<le> of_int n" by simp
  then show "pace_workers n share \<le> n" using assms(1) by (simp add: pace_workers_def ceiling_le_iff)
qed

lemma pace_workers_mono:
  assumes "0 \<le> n" "share \<le> share'" "share' \<le> 1"
  shows "pace_workers n share \<le> pace_workers n share'"
proof (cases "0 < share")
  case True
  have "of_int n * share \<le> of_int n * share'" using assms(1,2) by (intro mult_left_mono) auto
  with True assms(2) show ?thesis by (simp add: pace_workers_def ceiling_mono)
next
  case False
  then show ?thesis using pace_workers_bounds(1) [OF assms(1,3)] by (simp add: pace_workers_def)
qed

definition paced :: "real \<Rightarrow> real \<Rightarrow> real \<Rightarrow> real \<Rightarrow> int \<Rightarrow> int" where
  "paced usage target band0 elapsed0 n =
     (let band = min (max band0 0) 1
      in pace_workers n (pace_share (max usage 0 / target) (min 1 (min (max elapsed0 0) 1 + band)) band))"

lemma paced_bounds: "0 \<le> n \<Longrightarrow> 0 \<le> paced u t b e n" "0 \<le> n \<Longrightarrow> paced u t b e n \<le> n"
  by (simp_all add: paced_def Let_def pace_workers_bounds pace_share_bounds)

text \<open>The number of workers, in one equation.\<close>

lemma pace_decision_workers: "0 \<le> n \<Longrightarrow> share \<le> 1 \<Longrightarrow> de_workers (pace_decision n least share resume now label) = max (pace_workers n share) least"
  using pace_workers_bounds(1) [of n share] by (auto simp: pace_decision_def no_decision_def Let_def)

lemma decide_workers:
  "de_workers (decide_window u t band e least0 interactive m wspan now label) =
     (if max m 0 = 0 then 0 else if t \<le> 0 then (if interactive then 0 else max m 0)
      else if t \<le> max u 0 then 0 else if interactive then 0
      else max (paced u t band e (max m 0)) (min (max least0 0) (max m 0)))"
proof -
  have n: "0 \<le> max m 0" by simp
  show ?thesis
    unfolding decide_window_def Let_def paced_def
    by (simp only: if_distrib [of de_workers] pace_decision_workers [OF n pace_share_bounds(2)]
        no_decision_def interactive_decision_def decision.simps)
qed

lemma choice_bounds:
  assumes "0 \<le> p" "p \<le> n" "0 \<le> (n::int)" "l \<le> n"
  shows "0 \<le> (if n = 0 then 0 else if A then (if B then 0 else n) else if C then 0 else if B then 0 else max p l)"
    and "(if n = 0 then 0 else if A then (if B then 0 else n) else if C then 0 else if B then 0 else max p l) \<le> n"
  using assms by auto

lemma choice_mono:
  assumes "C \<Longrightarrow> C'" "\<not> A \<Longrightarrow> p' \<le> p" "0 \<le> p"
  shows "(if (n::int) = 0 then 0 else if A then (if B then 0 else n) else if C' then 0 else if B then 0 else max p' l)
    \<le> (if n = 0 then 0 else if A then (if B then 0 else n) else if C then 0 else if B then 0 else max p l)"
  using assms by auto

lemma decide_bounds:
  "0 \<le> de_workers (decide_window u t band e least interactive m wspan now label)"
  "de_workers (decide_window u t band e least interactive m wspan now label) \<le> max m 0"
  unfolding decide_workers by (rule choice_bounds; simp add: paced_bounds)+

text \<open>
  C40: Pacing is fair: more use never starts more workers, more of the window gone never fewer; the
  answer is never negative or above the workers asked for; below the target, with no interactive
  turn, the floor is kept, and a window without a target limits nothing.
\<close>
theorem pacing_is_monotone:
  assumes "u \<le> u'" "e' \<le> e"
  shows "de_workers (decide_window u' t band e' least interactive m wspan' now' label') \<le> de_workers (decide_window u t band e least interactive m wspan now label)
    \<and> 0 \<le> de_workers (decide_window u t band e least interactive m wspan now label)
    \<and> de_workers (decide_window u t band e least interactive m wspan now label) \<le> max m 0
    \<and> (if u < t \<and> 0 < t \<and> \<not> interactive then min (max least 0) (max m 0) \<le> de_workers (decide_window u t band e least interactive m wspan now label) else True)
    \<and> de_workers (decide_window u 0 band e least False m wspan now label) = max m 0"
proof -
  let ?n = "max m 0"
  have bounds: "0 \<le> paced u t band e ?n" "paced u t band e ?n \<le> ?n" by (simp_all add: paced_bounds)
  have mono: "paced u' t band e' ?n \<le> paced u t band e ?n" if "0 < t"
  proof -
    have "max u 0 / t \<le> max u' 0 / t" using assms(1) that by (intro divide_right_mono) auto
    then show ?thesis unfolding paced_def Let_def
      using assms(2) by (intro pace_workers_mono pace_share_mono pace_share_bounds diff_mono min.mono max.mono add_mono) simp_all
  qed
  have a: "de_workers (decide_window u' t band e' least interactive m wspan' now' label') \<le> de_workers (decide_window u t band e least interactive m wspan now label)"
    unfolding decide_workers
  proof (rule choice_mono)
    show "t \<le> max u' 0" if "t \<le> max u 0" using that assms(1) by linarith
    show "paced u' t band e' ?n \<le> paced u t band e ?n" if "\<not> t \<le> 0" using mono that by simp
  qed (rule bounds)
  have low: "(if u < t \<and> 0 < t \<and> \<not> interactive then min (max least 0) ?n \<le> de_workers (decide_window u t band e least interactive m wspan now label) else True)"
  proof (cases "u < t \<and> 0 < t \<and> \<not> interactive")
    case True
    then have "\<not> t \<le> 0" "\<not> t \<le> max u 0" "\<not> interactive" by auto
    then show ?thesis unfolding decide_workers by simp
  qed auto
  have free: "de_workers (decide_window u 0 band e least False m wspan now label) = ?n" by (simp add: decide_workers)
  show ?thesis using a low free decide_bounds by blast
qed

lemma pace_workers_pos: "1 / 10 ^ 9 < of_int n * share \<Longrightarrow> 0 < share \<Longrightarrow> 1 \<le> pace_workers n share"
  by (simp add: pace_workers_def)

lemma pace_share_ge:
  assumes "0 < h" "h \<le> a - u" "0 < band"
  shows "min (h / band) 1 \<le> pace_share u a band"
proof -
  have "h / band \<le> (a - u) / band" using assms by (intro divide_right_mono) auto
  then have "min (h / band) 1 \<le> min ((a - u) / band) 1" by (intro min.mono) auto
  moreover have "x \<le> (if c < x then 1 else x)" if "x \<le> 1" for x c :: real using that by simp
  moreover have "\<not> a - u \<le> 0" "\<not> band \<le> 0" using assms by auto
  ultimately show ?thesis unfolding pace_share_def Let_def
    by (simp only: if_False) (meson min.cobounded2 order_trans)
qed

text \<open>What a pause by pacing says.\<close>

lemma pace_pause:
  assumes "decide_window usage target band e 0 False n wspan now label = d"
    and "de_kind d = KPace" "de_workers d = 0" "de_pause d = Some r" "0 < n"
  shows "0 < target" "max usage 0 < target" "r = pace_resume wspan (max usage 0 / target) (min (max band 0) 1) now"
proof -
  have n: "max n 0 \<noteq> 0" using assms(5) by auto
  have t: "\<not> target \<le> 0"
  proof
    assume "target \<le> 0"
    with n assms(1) have "de_kind d = KOk" unfolding decide_window_def Let_def by (auto simp: no_decision_def)
    with assms(2) show False by simp
  qed
  have u: "\<not> target \<le> max usage 0"
  proof
    assume "target \<le> max usage 0"
    with n t assms(1) have "de_kind d = KLimit" unfolding decide_window_def Let_def by auto
    with assms(2) show False by simp
  qed
  have "pace_decision (max n 0) (min (max 0 0) (max n 0)) share (pace_resume wspan (max usage 0 / target) (min (max band 0) 1) now) now label = d"
    if "share = pace_share (max usage 0 / target) (min 1 (min (max e 0) 1 + min (max band 0) 1)) (min (max band 0) 1)" for share
    using n t u assms(1) unfolding decide_window_def Let_def that by (simp only: if_False simp_thms)
  then obtain share where d: "pace_decision (max n 0) (min (max 0 0) (max n 0)) share (pace_resume wspan (max usage 0 / target) (min (max band 0) 1) now) now label = d"
    by blast
  show "0 < target" "max usage 0 < target" using t u by auto
  show "r = pace_resume wspan (max usage 0 / target) (min (max band 0) 1) now"
    using assms(3,4) unfolding d [symmetric] pace_decision_def Let_def no_decision_def by (auto split: if_splits)
qed

text \<open>
  C39: A pause by pacing ends when it says: after the moment it names, and before the window closes,
  the same use is allowed at least one worker again, as soon as the line has moved on by more than
  the rounding the code allows for; and the moment is at least a minute away, or the window's end.
\<close>
theorem pause_ends_when_it_says:
  assumes "decide_window usage target band (elapsed_fraction start (start + len) now) 0 False n (Some (start, len)) now label = d"
    and "de_kind d = KPace" "de_workers d = 0" "de_pause d = Some r" "1 \<le> len" "0 < n" "0 < band" "band \<le> 1"
    and "r < t" "t \<le> start + len" "1 / 10 ^ 9 < of_int n * (min ((t - r) / len) (1 - max usage 0 / target) / band)"
  shows "1 \<le> de_workers (decide_window usage target band (elapsed_fraction start (start + len) t) least False n wspan t label')
    \<and> now + min_pause \<le> r"
proof -
  note paused = pace_pause [OF assms(1-4,6)]
  let ?used = "max usage 0 / target" and ?e = "elapsed_fraction start (start + len) t"
  let ?h = "min ((t - r) / len) (1 - ?used)"
  have b: "min (max band 0) 1 = band" using assms(7,8) by simp
  have r: "r = max (start + (?used - band) * len) (now + min_pause)"
  proof -
    have cut: "x = a" if "x = min a c" "x < t" "t \<le> c" for x a c :: real using that by (simp add: min_def split: if_splits)
    have "len \<noteq> 0" using assms(5) by simp
    then have "r = min (max (start + (?used - band) * len) (now + min_pause)) (start + len)"
      using paused(3) unfolding b pace_resume_def by simp
    from cut [OF this assms(9,10)] show ?thesis .
  qed
  then have "start + (?used - band) * len \<le> r" by simp
  then have "?used - band \<le> (r - start) / len" using assms(5) by (simp add: pos_le_divide_eq)
  moreover have "(r - start) / len + (t - r) / len = (t - start) / len" by (simp add: diff_divide_distrib)
  moreover have "(t - start) / len \<le> ?e" using assms(5,10) by (simp add: elapsed_fraction_def)
  ultimately have line: "(t - r) / len \<le> ?e + band - ?used" by linarith
  have "0 < (t - r) / len" using assms(5,9) by simp
  moreover have "?used < 1" using paused(1,2) by simp
  ultimately have h: "0 < ?h" by simp
  have e: "min (max ?e 0) 1 = ?e" by (simp add: elapsed_fraction_def)
  let ?share = "pace_share ?used (min 1 (?e + band)) band"
  have "min (?h / band) 1 \<le> ?share" using h line assms(7) by (intro pace_share_ge) auto
  moreover have "1 / 10 ^ 9 < of_int n * min (?h / band) 1"
    using assms(6,11) by (cases "?h / band \<le> 1") (simp_all add: min_absorb1 min_absorb2)
  moreover have "of_int n * min (?h / band) 1 \<le> of_int n * ?share" if "min (?h / band) 1 \<le> ?share"
    using that assms(6) by (intro mult_left_mono) auto
  moreover have "0 < min (?h / band) 1" using h assms(7) by simp
  ultimately have "1 \<le> pace_workers n ?share" by (intro pace_workers_pos) linarith+
  then have "1 \<le> paced usage target band ?e (max n 0)" using assms(6) unfolding paced_def Let_def b e by simp
  moreover have "max n 0 \<noteq> 0" "\<not> target \<le> 0" "\<not> target \<le> max usage 0" using assms(6) paused(1,2) by auto
  ultimately show ?thesis unfolding decide_workers using r by (simp add: le_max_iff_disj)
qed

section \<open>The most restrictive decision\<close>

lemma most_restrictive_in: "most_restrictive d ds \<in> set (d # ds)"
proof (induction ds arbitrary: d)
  case (Cons x ds)
  from Cons.IH [of x] Cons.IH [of d] show ?case by (auto simp: most_restrictive_def)
qed (simp add: most_restrictive_def)

lemma most_restrictive_le: "list_all (\<lambda>x. de_workers (most_restrictive d ds) \<le> de_workers x) (d # ds)"
proof (induction ds arbitrary: d)
  case (Cons x ds)
  let ?best = "if stricter x d then x else d"
  have "de_workers ?best \<le> de_workers x" "de_workers ?best \<le> de_workers d" by (auto simp: stricter_def)
  moreover have "most_restrictive d (x # ds) = most_restrictive ?best ds" by (simp add: most_restrictive_def)
  ultimately show ?case using Cons.IH [of ?best] by auto
qed (simp add: most_restrictive_def)

lemma evaluate_blocks:
  "de_workers (evaluate ev url un m now any b cds) \<le> 0 \<longleftrightarrow> list_ex (\<lambda>d. de_workers d \<le> 0) (all_decisions ev url un m now any b cds)"
proof (cases "all_decisions ev url un m now any b cds")
  case (Cons d ds)
  show ?thesis
    using most_restrictive_in [of d ds] most_restrictive_le [of d ds] Cons
    by (auto simp: evaluate_def list_all_iff list_ex_iff intro: order_trans)
qed (simp add: evaluate_def no_decision_def)

lemma interactive_window:
  "de_kind (decide_window u t bd e l True n sp now lb) = KInteractive \<Longrightarrow> de_workers (decide_window u t bd e l True n sp now lb) = 0"
  unfolding decide_window_def Let_def by (auto simp: no_decision_def interactive_decision_def split: if_splits)

lemma hosted_decisions_are:
  assumes "d \<in> set (hosted_decisions ev url i n now least)"
  obtains u t bd e sp key where "d = decide_window u t bd e least i n sp now key"
proof -
  obtain key used target where "d = hosted_decision ev i n now least key used target"
    using assms unfolding hosted_decisions_def Let_def by (auto split: if_splits prod.splits)
  moreover obtain s f where "window_bounds (ev_off ev) (period_window (ev_settings ev)) now = (s, f)" by fastforce
  ultimately show thesis using that by (simp add: hosted_decision_def)
qed

lemma window_decisions_are:
  assumes "d \<in> set (window_decisions ev url i n now least any)"
  obtains u t bd e sp key where "d = decide_window u t bd e least i n sp now key"
proof -
  have "d \<in> set (gpu_decision ev i n now least) \<or> (\<exists>v. d \<in> set (hosted_decisions ev v i n now least))"
    using assms unfolding window_decisions_def by (auto split: option.splits if_splits)
  then show thesis
  proof (elim disjE exE)
    assume g: "d \<in> set (gpu_decision ev i n now least)"
    obtain s f where "window_bounds (ev_off ev) Day now = (s, f)" by fastforce
    with g show thesis using that by (auto simp: gpu_decision_def Let_def split: if_splits)
  next
    fix v
    assume "d \<in> set (hosted_decisions ev v i n now least)"
    then show thesis by (rule hosted_decisions_are) (rule that)
  qed
qed

lemma close_list_blocks:
  assumes "\<not> list_ex (\<lambda>d. de_kind d = KInteractive) (bd @ cd)"
    and "i \<Longrightarrow> list_ex (\<lambda>d. de_kind d = KInteractive) w \<Longrightarrow> list_ex (\<lambda>d. de_workers d \<le> 0) w"
  shows "list_ex (\<lambda>d. de_workers d \<le> 0) ((bd @ cd @ w) @
      (if i \<and> \<not> list_ex (\<lambda>d. de_kind d = KInteractive) (bd @ cd @ w) then [interactive_decision l] else []))
    \<longleftrightarrow> list_ex (\<lambda>d. de_workers d \<le> 0) bd \<or> list_ex (\<lambda>d. de_workers d \<le> 0) cd \<or> list_ex (\<lambda>d. de_workers d \<le> 0) w \<or> i"
  using assms by (cases i; cases "list_ex (\<lambda>d. de_kind d = KInteractive) w") (auto simp: interactive_decision_def no_decision_def)

text \<open>
  C37: Work may start exactly when nothing stands against it: unattended, the failure breaker is
  closed and no interactive turn is live; the endpoint is not cooling down; and every window that
  covers it still allows a worker. A running interactive turn is stopped by neither breaker nor
  back-off.
\<close>
theorem gate_opens_iff:
  "pb_gate ev url un m now any b cds = None \<longleftrightarrow>
     \<not> (un \<and> fst (bk_open_at (ev_breaker ev) now b) \<noteq> None)
     \<and> \<not> (un \<and> backoff_when_interactive (ev_settings ev) \<and> ev_interactive ev)
     \<and> cooldown_decisions ev url now cds = []
     \<and> list_all (\<lambda>d. 0 < de_workers d)
         (window_decisions ev url (un \<and> backoff_when_interactive (ev_settings ev) \<and> ev_interactive ev) (max m 1) now
            (min (min_workers (ev_parse ev) (ev_settings ev)) (max m 1)) any)"
proof -
  let ?i = "un \<and> backoff_when_interactive (ev_settings ev) \<and> ev_interactive ev"
  let ?w = "window_decisions ev url ?i (max m 1) now (min (min_workers (ev_parse ev) (ev_settings ev)) (max m 1)) any"
  let ?bd = "breaker_decisions ev un now b" and ?cd = "cooldown_decisions ev url now cds"
  let ?P = "\<lambda>d. de_workers d \<le> 0"
  have gate: "pb_gate ev url un m now any b cds = None \<longleftrightarrow> \<not> list_ex ?P (all_decisions ev url un m now any b cds)"
    using evaluate_blocks [of ev url un m now any b cds] by (simp add: pb_gate_def Let_def)
  have breaker: "list_ex ?P ?bd \<longleftrightarrow> un \<and> fst (bk_open_at (ev_breaker ev) now b) \<noteq> None"
    by (auto simp: breaker_decisions_def bk_check_def split: option.splits prod.splits)
  have cool: "list_ex ?P ?cd \<longleftrightarrow> ?cd \<noteq> []"
    by (auto simp: cooldown_decisions_def split: option.splits)
  have kinds: "\<not> list_ex (\<lambda>d. de_kind d = KInteractive) (?bd @ ?cd)"
    by (auto simp: breaker_decisions_def cooldown_decisions_def split: option.splits)
  have inter: "list_ex ?P ?w" if "?i" "list_ex (\<lambda>d. de_kind d = KInteractive) ?w" 
  proof -
    from that(2) obtain d where d: "d \<in> set ?w" "de_kind d = KInteractive" by (auto simp: list_ex_iff)
    have i: "?i = True" using that(1) by simp
    from d(1) have "de_workers d = 0"
      unfolding i by (rule window_decisions_are) (use d(2) interactive_window in simp)
    then have "de_workers d \<le> 0" by simp
    with d(1) show ?thesis unfolding list_ex_iff by blast
  qed
  have "list_ex ?P (all_decisions ev url un m now any b cds) \<longleftrightarrow> list_ex ?P ?bd \<or> list_ex ?P ?cd \<or> list_ex ?P ?w \<or> ?i"
    unfolding all_decisions_def Let_def using kinds inter by (rule close_list_blocks)
  moreover have "list_all (\<lambda>d. 0 < de_workers d) ?w \<longleftrightarrow> \<not> list_ex ?P ?w" by (auto simp: list_all_iff list_ex_iff not_less)
  ultimately show ?thesis unfolding gate breaker cool by blast
qed

section \<open>The books\<close>

lemma window_bounds_around: "window_bounds off w now = (start, finish) \<Longrightarrow> start \<le> now \<and> now < finish \<and> now - 7 * day_length \<le> start"
proof -
  assume win: "window_bounds off w now = (start, finish)"
  let ?day = "\<lfloor>(now + off) / day_length\<rfloor>"
  have d: "0 < day_length" by (simp add: day_length_def)
  have lo: "of_int ?day * day_length \<le> now + off" and hi: "now + off < (of_int ?day + 1) * day_length"
    using floor_divide_lower [OF d] floor_divide_upper [OF d] by auto
  have wd: "0 \<le> (of_int ((?day + 3) mod 7) :: real)" "(of_int ((?day + 3) mod 7) :: real) \<le> 6"
    using pos_mod_bound [of 7 "?day + 3"] pos_mod_sign [of 7 "?day + 3"] by linarith+
  have wk: "0 \<le> of_int ((?day + 3) mod 7) * day_length" "of_int ((?day + 3) mod 7) * day_length \<le> 6 * day_length"
    using wd d by (auto intro: mult_right_mono)
  show ?thesis
  proof (cases w)
    case Day
    with win lo hi d show ?thesis by (auto simp: window_bounds_def Let_def algebra_simps)
  next
    case Week
    define k where "k = of_int ((?day + 3) mod 7) * day_length"
    define s0 where "s0 = of_int ?day * day_length - off"
    have "start = s0 - k" "finish = s0 - k + 7 * day_length"
      using win Week by (simp_all add: window_bounds_def Let_def k_def s0_def)
    moreover have "s0 \<le> now" "now < s0 + day_length" using lo hi by (simp_all add: s0_def algebra_simps)
    moreover have "0 \<le> k" "k \<le> 6 * day_length" using wk by (simp_all add: k_def)
    ultimately show ?thesis by linarith
  qed
qed

definition totals :: "usage_row list \<Rightarrow> usage_sum" where
  "totals rows = \<lparr>su_usd = sum_list (map us_usd rows), su_tokens = sum_list (map us_tokens rows),
     su_unpriced = sum_list (map us_unpriced rows), su_gpu = sum_list (map us_gpu rows), su_calls = length rows\<rparr>"

definition counted :: "string \<Rightarrow> real \<Rightarrow> real \<Rightarrow> usage_row list \<Rightarrow> usage_row list" where
  "counted key start finish rows = filter (\<lambda>r. start \<le> us_ts r \<and> row_matches key r \<and> us_ts r < finish) rows"

lemma usage_since_totals: "usage_since key start (Some finish) (Some rows) = totals (counted key start finish rows)"
  by (simp add: usage_since_def totals_def counted_def Let_def)

text \<open>
  Booking a call adds it, and nothing else, to every target that covers its provider in the
  current window: pruning old rows never reaches a row of the window, and a call without a price
  adds its tokens as unpriced.
\<close>
theorem booking_counts_once:
  assumes "window_bounds off w now = (start, finish)" "row = booked_row provider kind model usd tokens gpu now"
  shows "counted key start finish (ul_rows (pb_record provider kind model usd tokens gpu now l))
      = counted key start finish (ul_rows l) @ (if row_matches key row then [row] else [])
    \<and> us_tokens row = max tokens 0 \<and> us_unpriced row = (if usd = None then max tokens 0 else if the usd < 0 then max tokens 0 else 0)"
proof -
  note win = window_bounds_around [OF assms(1)]
  have ts: "us_ts row = now" by (simp add: assms(2) booked_row_def Let_def)
  have far: "7 * day_length \<le> keep_seconds" by (simp add: day_length_def keep_seconds_def)
  have keep: "counted key start finish (filter (\<lambda>r. now - keep_seconds \<le> us_ts r) rows) = counted key start finish rows" for rows
  proof (induction rows)
    case (Cons r rows)
    have "now - keep_seconds \<le> us_ts r" if "start \<le> us_ts r" using that win far by linarith
    with Cons show ?case by (auto simp: counted_def)
  qed (simp add: counted_def)
  have new: "counted key start finish (rows @ [row]) = counted key start finish rows @ (if row_matches key row then [row] else [])" for rows
    using win ts by (simp add: counted_def)
  have "ul_rows (pb_record provider kind model usd tokens gpu now l) =
      (if 3600 < now - ul_pruned_at l then filter (\<lambda>r. now - keep_seconds \<le> us_ts r) (ul_rows l @ [row]) else ul_rows l @ [row])"
    using ts by (simp add: pb_record_def pb_insert_def assms(2) Let_def)
  then have "counted key start finish (ul_rows (pb_record provider kind model usd tokens gpu now l))
      = counted key start finish (ul_rows l) @ (if row_matches key row then [row] else [])"
    by (simp only: keep new split: if_split) simp
  moreover have "us_tokens row = max tokens 0 \<and> us_unpriced row = (if usd = None then max tokens 0 else if the usd < 0 then max tokens 0 else 0)"
    by (auto simp: assms(2) booked_row_def Let_def split: option.splits)
  ultimately show ?thesis by blast
qed

section \<open>Witnesses\<close>

lemma pacing_is_monotone_witness:
  "de_workers (decide_window 8 10 (1/10) (1/4) 1 False 4 None 0 ''b'') \<le> de_workers (decide_window 2 10 (1/10) (1/2) 1 False 4 None 0 ''a'')
    \<and> 1 \<le> de_workers (decide_window 2 10 (1/10) (1/2) 1 False 4 None 0 ''a'')"
  using pacing_is_monotone [of 2 8 "1/4" "1/2" 10 "1/10" 1 False 4 None 0 "''b''" None 0 "''a''"] by simp

lemma paused_example:
  "decide_window 5 10 (1/10) (elapsed_fraction 0 (0 + 100) 10) 0 False 4 (Some (0, 100)) 10 ''w''
     = \<lparr>de_workers = 0, de_kind = KPace, de_pause = Some 70, de_retry = Some 60, de_scope = ''w''\<rparr>"
  by (simp add: decide_window_def Let_def elapsed_fraction_def pace_share_def pace_decision_def pace_workers_def
      pace_resume_def min_pause_def no_decision_def)

lemma pause_ends_when_it_says_witness:
  "1 \<le> de_workers (decide_window 5 10 (1/10) (elapsed_fraction 0 (0 + 100) 80) 0 False 4 None 80 ''w'') \<and> 10 + min_pause \<le> 70"
  by (rule pause_ends_when_it_says [OF paused_example, where t = 80]) simp_all

lemma booked_example:
  "booked_row ''Open.AI'' ''openai'' ''m'' None 5 0 100 = \<lparr>us_ts = 100, us_provider = ''open.ai'', us_kind = ''openai'',
      us_model = ''m'', us_usd = 0, us_tokens = 5, us_unpriced = 5, us_gpu = 0\<rparr>"
proof -
  have "py_lower ''Open.AI'' = ''open.ai''" "py_lower ''openai'' = ''openai''" by code_simp+
  then show ?thesis by (simp add: booked_row_def Let_def)
qed

lemma booking_counts_once_witness:
  "counted ''*'' 0 86400 (ul_rows (pb_record ''Open.AI'' ''openai'' ''m'' None 5 0 100 \<lparr>ul_rows = [], ul_pruned_at = 0\<rparr>))
     = [\<lparr>us_ts = 100, us_provider = ''open.ai'', us_kind = ''openai'', us_model = ''m'', us_usd = 0, us_tokens = 5,
        us_unpriced = 5, us_gpu = 0\<rparr>]"
proof -
  have win: "window_bounds 0 Day 100 = (0, 86400)" by (simp add: window_bounds_def day_length_def)
  have "py_lower (py_strip ''*'') = ''*''" by code_simp
  then have "row_matches ''*'' \<lparr>us_ts = 100, us_provider = ''open.ai'', us_kind = ''openai'',
      us_model = ''m'', us_usd = 0, us_tokens = 5, us_unpriced = 5, us_gpu = 0\<rparr>"
    by (simp add: row_matches_def hosted_keys_def)
  then show ?thesis
    using booking_counts_once [OF win booked_example [symmetric], of "''*''" "\<lparr>ul_rows = [], ul_pruned_at = 0\<rparr>"]
    by (simp add: counted_def)
qed

end
