(* ===== verification/Connector_Outbox.thy ===== *)
theory Connector_Outbox
  imports Approvals Py_Values
begin

text \<open>
  The connector outbox, \<open>src/connector_outbox.py\<close>: prepare, execute, reconcile and cancel an effect
  that leaves the machine, over the approvals of \<open>Approvals\<close>.

  The table is a dictionary from ids to rows, in insertion order. \<open>digest\<close> is the SHA-256 of the
  canonical payload, \<open>fp\<close> the fingerprint of a plan; new ids and the clock are arguments, timestamps
  are integers. What other sessions do between two statements of a handler is an argument \<open>env\<close>,
  and the effect itself is a function \<open>run\<close> from payloads to outcomes.
\<close>

section \<open>Rows and plans\<close>

datatype co_status = CoPrepared | CoExecuting | CoExecuted | CoUncertain | CoFailed | CoCancelled

record co_row =
  co_owner :: string
  co_connector :: string
  co_action :: string
  co_key :: "string option"
  co_payload :: json
  co_digest :: string
  co_approval :: string
  co_recipients :: "string list"
  co_preview :: string
  co_status :: co_status
  co_ref :: string
  co_reason :: string
  co_attempts :: nat
  co_created :: int
  co_executed :: "int option"

type_synonym co_table = "(string, co_row) dict"

definition approval_triggers :: "string list" where
  "approval_triggers = [''publish'', ''deliver'', ''cloud_model'', ''cost_over_budget'', ''network'', ''secrets'',
     ''host_access'', ''destructive'']"

text \<open>\<open>text_list\<close>: the stripped items, unless one is blank, too long or a duplicate.\<close>

fun clean_items :: "nat \<Rightarrow> string list \<Rightarrow> string list \<Rightarrow> string list option" where
  "clean_items max_len [] out = Some out"
| "clean_items max_len (x # xs) out =
     (let v = py_strip x
      in if v = [] \<or> max_len < length v \<or> v \<in> set out then None else clean_items max_len xs (out @ [v]))"

definition clean_list :: "nat \<Rightarrow> nat \<Rightarrow> string list \<Rightarrow> string list option" where
  "clean_list max_items max_len xs = (if max_items < length xs then None else clean_items max_len xs [])"

definition plan_detail :: "string \<Rightarrow> string \<Rightarrow> string" where
  "plan_detail dg preview = py_strip (take 2000 (''digest:'' @ dg @ '' '' @ preview))"

text \<open>\<open>None\<close> is a \<open>ContractError\<close>.\<close>

definition build_plan :: "string \<Rightarrow> string \<Rightarrow> string list \<Rightarrow> string \<Rightarrow> plan option" where
  "build_plan action dg recipients preview =
     (if py_strip action \<notin> set approval_triggers then None
      else map_option (\<lambda>rs. \<lparr>pl_action = py_strip action, pl_skill_id = [], pl_skill_version = [], pl_backend = [],
             pl_recipients = rs, pl_cost_units = None, pl_secret_names = [], pl_permissions = [], pl_output_kinds = [],
             pl_detail = plan_detail dg preview\<rparr>) (clean_list 200 320 recipients))"

definition row_plan :: "co_row \<Rightarrow> plan option" where
  "row_plan row = build_plan ''deliver'' (co_digest row) (co_recipients row) (co_preview row)"

section \<open>Preparing\<close>

record prep_args =
  pa_connector :: string
  pa_action :: string
  pa_owner :: string
  pa_payload :: json
  pa_recipients :: "string list"
  pa_preview :: string
  pa_key :: string
  pa_ttl :: int
  pa_approval_action :: string

datatype prep_answer = PrepReused string | PrepConflict | PrepContractError | PrepIntegrityError | PrepDone string

definition new_row :: "prep_args \<Rightarrow> string \<Rightarrow> string \<Rightarrow> int \<Rightarrow> co_row" where
  "new_row a dg aid now =
     \<lparr>co_owner = pa_owner a, co_connector = pa_connector a, co_action = pa_action a,
      co_key = (if pa_key a = [] then None else Some (pa_key a)), co_payload = pa_payload a, co_digest = dg,
      co_approval = aid, co_recipients = pa_recipients a, co_preview = pa_preview a, co_status = CoPrepared, co_ref = [],
      co_reason = [], co_attempts = 0, co_created = now, co_executed = None\<rparr>"

text \<open>The unique index on the key is not scoped to the owner.\<close>

definition key_taken :: "string \<Rightarrow> co_table \<Rightarrow> bool" where
  "key_taken key db \<longleftrightarrow> key \<noteq> [] \<and> list_ex (\<lambda>(k, r). co_key r = Some key) db"

definition own_prepared :: "string \<Rightarrow> string \<Rightarrow> co_table \<Rightarrow> (string \<times> co_row) option" where
  "own_prepared key owner db =
     (if key = [] then None else find (\<lambda>(k, r). co_key r = Some key \<and> co_owner r = owner) db)"

definition co_prepare ::
  "(json \<Rightarrow> string) \<Rightarrow> (plan \<Rightarrow> string) \<Rightarrow> prep_args \<Rightarrow> string \<Rightarrow> string \<Rightarrow> int \<Rightarrow> (co_table \<Rightarrow> co_table) \<Rightarrow>
     co_table \<times> table \<Rightarrow> prep_answer \<times> co_table \<times> table" where
  "co_prepare digest fp a oid aid now env s =
     (let (db, aps) = s; dg = digest (pa_payload a)
      in case own_prepared (pa_key a) (pa_owner a) db of
           Some (k, r) \<Rightarrow> (if co_digest r = dg then PrepReused k else PrepConflict, db, aps)
         | None \<Rightarrow>
             (case build_plan (pa_approval_action a) dg (pa_recipients a) (pa_preview a) of
                None \<Rightarrow> (PrepContractError, db, aps)
              | Some p \<Rightarrow>
                  let aps1 = snd (ap_request fp p (pa_owner a) (Some (pa_ttl a)) 1 aid now aps); db1 = env db
                  in if dget db1 oid \<noteq> None \<or> key_taken (pa_key a) db1 then (PrepIntegrityError, db1, aps1)
                     else (PrepDone oid, dset oid (new_row a dg aid now) db1, aps1)))"

definition co_get :: "string \<Rightarrow> string option \<Rightarrow> co_table \<Rightarrow> co_row option" where
  "co_get oid owner db =
     (case dget db oid of
        None \<Rightarrow> None
      | Some row \<Rightarrow> if owner \<noteq> None \<and> owner \<noteq> Some (co_owner row) then None else Some row)"

definition set_status :: "string \<Rightarrow> co_status list \<Rightarrow> (co_row \<Rightarrow> co_row) \<Rightarrow> co_table \<Rightarrow> bool \<times> co_table" where
  "set_status oid from_statuses write db =
     (case dget db oid of
        None \<Rightarrow> (False, db)
      | Some row \<Rightarrow> if co_status row \<in> set from_statuses then (True, dset oid (write row) db) else (False, db))"

section \<open>Executing\<close>

datatype run_result = RunReturned json | RunUncertain string | RunRaised string string

datatype exec_answer =
    XNotFound
  | XNeedsReconciliation
  | XAlready co_status
  | XContractError
  | XApproval spend_answer
  | XConcurrent
  | XOutcomeUnknown string
  | XFailed string
  | XAttributeError
  | XDone string

text \<open>The row, when it may be executed.\<close>

definition exec_open :: "string \<Rightarrow> string \<Rightarrow> co_table \<Rightarrow> exec_answer + co_row" where
  "exec_open oid owner db =
     (case co_get oid (Some owner) db of
        None \<Rightarrow> Inl XNotFound
      | Some row \<Rightarrow>
          if co_status row = CoUncertain then Inl XNeedsReconciliation
          else if co_status row \<noteq> CoPrepared then Inl (XAlready (co_status row)) else Inr row)"

definition exec_claim :: "string \<Rightarrow> co_row \<Rightarrow> co_table \<Rightarrow> bool \<times> co_table" where
  "exec_claim oid row db =
     set_status oid [CoPrepared] (\<lambda>r. r\<lparr>co_status := CoExecuting, co_attempts := co_attempts row + 1\<rparr>) db"

text \<open>
  What \<open>run\<close> answered: a mapping that is ok, a mapping that is not (its detail), or a value whose
  \<open>get\<close> raises; an empty value of any type reads as an empty mapping.
\<close>

datatype run_reading = ReadOk string | ReadFailure string | ReadNoMapping

definition or_value :: "json \<Rightarrow> json \<Rightarrow> json" where
  "or_value v w = (if py_truth v then v else w)"

definition failure_detail :: "(json \<Rightarrow> string) \<Rightarrow> (string, json) dict \<Rightarrow> string" where
  "failure_detail repr d = py_str repr (or_value (dget_or d ''reason'' JNull) (or_value (dget_or d ''detail'' JNull)
     (JStr ''run() reported failure'')))"

definition read_run :: "(json \<Rightarrow> string) \<Rightarrow> json \<Rightarrow> run_reading" where
  "read_run repr v =
     (case v of
        JObj d \<Rightarrow>
          if py_truth (dget_or d ''ok'' JNull) then ReadOk (py_str repr (or_value (dget_or d ''external_ref'' JNull) (JStr [])))
          else ReadFailure (failure_detail repr d)
      | _ \<Rightarrow> if py_truth v then ReadNoMapping else ReadFailure (failure_detail repr []))"

definition exec_settle :: "(json \<Rightarrow> string) \<Rightarrow> run_result \<Rightarrow> int \<Rightarrow> string \<Rightarrow> co_table \<Rightarrow> exec_answer \<times> co_table" where
  "exec_settle repr res now oid db =
     (let write = (\<lambda>f. snd (set_status oid [CoExecuting] f db))
      in case res of
           RunUncertain e \<Rightarrow> (XOutcomeUnknown e, write (\<lambda>r. r\<lparr>co_status := CoUncertain, co_reason := ''outcome_unknown: '' @ e\<rparr>))
         | RunRaised name e \<Rightarrow> (XFailed e, write (\<lambda>r. r\<lparr>co_status := CoFailed, co_reason := name @ '': '' @ e\<rparr>))
         | RunReturned v \<Rightarrow>
             (case read_run repr v of
                ReadOk ref \<Rightarrow> (XDone ref, write (\<lambda>r. r\<lparr>co_status := CoExecuted, co_ref := ref, co_executed := Some now, co_reason := []\<rparr>))
              | ReadFailure detail \<Rightarrow> (XFailed detail, write (\<lambda>r. r\<lparr>co_status := CoFailed, co_reason := detail\<rparr>))
              | ReadNoMapping \<Rightarrow> (XAttributeError, db)))"

text \<open>
  The whole handler, with the payloads it handed to \<open>run\<close> in the last component. \<open>envs\<close> are the
  writes of others to the approvals, \<open>env1\<close> and \<open>env2\<close> those to the outbox before the claim and
  during the effect.
\<close>

definition co_execute ::
  "(json \<Rightarrow> string) \<Rightarrow> (plan \<Rightarrow> string) \<Rightarrow> string \<Rightarrow> string \<Rightarrow> int \<Rightarrow> (json \<Rightarrow> run_result) \<Rightarrow> (table \<Rightarrow> table) list \<Rightarrow>
     (co_table \<Rightarrow> co_table) \<Rightarrow> (co_table \<Rightarrow> co_table) \<Rightarrow> co_table \<times> table \<Rightarrow> exec_answer \<times> co_table \<times> table \<times> json list" where
  "co_execute repr fp oid owner stamp run envs env1 env2 s =
     (let (db, aps) = s
      in case exec_open oid owner db of
           Inl answer \<Rightarrow> (answer, db, aps, [])
         | Inr row \<Rightarrow>
             (case row_plan row of
                None \<Rightarrow> (XContractError, db, aps, [])
              | Some p \<Rightarrow>
                  (case ap_consume fp (co_approval row) p (Some owner) stamp envs aps of
                     (Spent n st, aps1) \<Rightarrow>
                       (case exec_claim oid row (env1 db) of
                          (False, db1) \<Rightarrow> (XConcurrent, db1, aps1, [])
                        | (True, db1) \<Rightarrow>
                            let (answer, db2) = exec_settle repr (run (co_payload row)) stamp oid (env2 db1)
                            in (answer, db2, aps1, [co_payload row]))
                   | (refusal, aps1) \<Rightarrow> (XApproval refusal, env1 db, aps1, []))))"

section \<open>Reconciling and cancelling\<close>

datatype reconcile_answer =
    RNotFound
  | RNothing co_status
  | RStillUncertain
  | RAdopted string bool
  | RNeverLanded bool

definition co_reconcile ::
  "(json \<Rightarrow> string) \<Rightarrow> string \<Rightarrow> string \<Rightarrow> (json \<Rightarrow> (string, json) dict option) \<Rightarrow> int \<Rightarrow> (co_table \<Rightarrow> co_table) \<Rightarrow>
     co_table \<Rightarrow> reconcile_answer \<times> co_table" where
  "co_reconcile repr oid owner look now env db =
     (case co_get oid (Some owner) db of
        None \<Rightarrow> (RNotFound, db)
      | Some row \<Rightarrow>
          if co_status row \<noteq> CoUncertain then (RNothing (co_status row), db)
          else case look (co_payload row) of
                 None \<Rightarrow> (RStillUncertain, env db)
               | Some found \<Rightarrow>
                   if py_truth (dget_or found ''found'' JNull)
                   then let ref = py_str repr (or_value (dget_or found ''external_ref'' JNull) (JStr []));
                            (changed, db1) = set_status oid [CoUncertain]
                              (\<lambda>r. r\<lparr>co_status := CoExecuted, co_ref := ref, co_executed := Some now,
                                    co_reason := ''adopted by reconciliation''\<rparr>) (env db)
                        in (RAdopted ref changed, db1)
                   else let (changed, db1) = set_status oid [CoUncertain]
                              (\<lambda>r. r\<lparr>co_status := CoFailed,
                                    co_reason := ''reconciliation found no matching record at the destination; the effect never landed''\<rparr>)
                              (env db)
                        in (RNeverLanded changed, db1))"

datatype cancel_answer = CNotFound | CDone | CAlready bool "co_status option"

definition co_cancel :: "string \<Rightarrow> string \<Rightarrow> (co_table \<Rightarrow> co_table) \<Rightarrow> co_table \<Rightarrow> cancel_answer \<times> co_table" where
  "co_cancel oid owner env db =
     (case co_get oid (Some owner) db of
        None \<Rightarrow> (CNotFound, db)
      | Some row \<Rightarrow>
          let (changed, db1) = set_status oid [CoPrepared]
                (\<lambda>r. r\<lparr>co_status := CoCancelled, co_reason := ''cancelled before execution''\<rparr>) (env db)
          in if changed then (CDone, db1)
             else let current = map_option co_status (co_get oid (Some owner) db1)
                  in (CAlready (current = Some CoCancelled) current, db1))"

definition co_needs_reconciliation :: "string \<Rightarrow> co_table \<Rightarrow> (string \<times> co_row) list" where
  "co_needs_reconciliation owner db =
     sort_key (\<lambda>(k, r). co_created r)
       (filter (\<lambda>(k, r). co_status r = CoUncertain \<and> (owner = [] \<or> co_owner r = owner)) db)"

end
