(* ===== verification/Connector_Safety.thy ===== *)
theory Connector_Safety
  imports Connector_Outbox
begin

text \<open>
  The connector outbox under concurrency: any number of callers that prepare, execute, reconcile
  and cancel, each handler cut at its database transactions, together with every operation on the
  approvals. Shows that no effect leaves twice, or without a card a person granted for exactly that
  payload. Then the sequential behaviour of each handler.
\<close>

section \<open>The concurrent system\<close>

text \<open>How far an execution has come; \<open>cw_runs\<close> is a ghost: every effect that was started.\<close>

datatype exec_task = Seen string co_row | Holding string co_row | Claimed string co_row | Running string

record co_world =
  cw_rows :: co_table
  cw_aps :: ap_world
  cw_tasks :: "(nat, exec_task) dict"
  cw_runs :: "(string \<times> json) list"

text \<open>The approvals' ghost record of a card that \<open>aid\<close> was just issued for.\<close>

definition opened :: "string \<Rightarrow> ap_world \<Rightarrow> table \<Rightarrow> ap_world" where
  "opened aid w aps =
     (case dget aps aid of
        None \<Rightarrow> w
      | Some a \<Rightarrow> w\<lparr>aw_table := aps, aw_issued := dset aid (ap_uses_left a) (aw_issued w)\<rparr>)"

inductive co_step :: "(json \<Rightarrow> string) \<Rightarrow> (json \<Rightarrow> string) \<Rightarrow> (plan \<Rightarrow> string) \<Rightarrow> co_world \<Rightarrow> co_world \<Rightarrow> bool"
  for repr digest fp where
  step_prepare: "dget (aw_table (cw_aps w)) aid = None \<Longrightarrow>
    co_prepare digest fp a oid aid now id (cw_rows w, aw_table (cw_aps w)) = (answer, rows, aps) \<Longrightarrow>
    co_step repr digest fp w (w\<lparr>cw_rows := rows, cw_aps := opened aid (cw_aps w) aps\<rparr>)"
| step_approvals: "co_step repr digest fp w (w\<lparr>cw_aps := ap_step fp op (cw_aps w)\<rparr>)"
| step_see: "dget (cw_tasks w) t = None \<Longrightarrow> exec_open oid owner (cw_rows w) = Inr row \<Longrightarrow>
    co_step repr digest fp w (w\<lparr>cw_tasks := dset t (Seen oid row) (cw_tasks w)\<rparr>)"
| step_consume: "dget (cw_tasks w) t = Some (Seen oid row) \<Longrightarrow> row_plan row = Some p \<Longrightarrow>
    ap_owner seen = co_owner row \<Longrightarrow> covers seen p stamp = Covered \<Longrightarrow>
    card_spend fp (co_approval row) seen p (aw_table (cw_aps w)) \<noteq> None \<Longrightarrow>
    co_step repr digest fp w (w\<lparr>cw_tasks := dset t (Holding oid row) (cw_tasks w),
      cw_aps := ap_step fp (OSpend (co_approval row) seen p stamp) (cw_aps w)\<rparr>)"
| step_claim: "dget (cw_tasks w) t = Some (Holding oid row) \<Longrightarrow> exec_claim oid row (cw_rows w) = (True, rows) \<Longrightarrow>
    co_step repr digest fp w (w\<lparr>cw_tasks := dset t (Claimed oid row) (cw_tasks w), cw_rows := rows\<rparr>)"
| step_run: "dget (cw_tasks w) t = Some (Claimed oid row) \<Longrightarrow>
    co_step repr digest fp w (w\<lparr>cw_tasks := dset t (Running oid) (cw_tasks w), cw_runs := (oid, co_payload row) # cw_runs w\<rparr>)"
| step_settle: "dget (cw_tasks w) t = Some (Running oid) \<Longrightarrow> exec_settle repr res now oid (cw_rows w) = (answer, rows) \<Longrightarrow>
    co_step repr digest fp w (w\<lparr>cw_tasks := dpop t (cw_tasks w), cw_rows := rows\<rparr>)"
| step_stop: "co_step repr digest fp w (w\<lparr>cw_tasks := dpop t (cw_tasks w)\<rparr>)"
| step_reconcile: "co_reconcile repr oid owner look now id (cw_rows w) = (ranswer, rows) \<Longrightarrow>
    co_step repr digest fp w (w\<lparr>cw_rows := rows\<rparr>)"
| step_cancel: "co_cancel oid owner id (cw_rows w) = (canswer, rows) \<Longrightarrow>
    co_step repr digest fp w (w\<lparr>cw_rows := rows\<rparr>)"

definition empty_co_world :: co_world where
  "empty_co_world = \<lparr>cw_rows = [], cw_aps = empty_ap_world, cw_tasks = [], cw_runs = []\<rparr>"

inductive co_reachable :: "(json \<Rightarrow> string) \<Rightarrow> (json \<Rightarrow> string) \<Rightarrow> (plan \<Rightarrow> string) \<Rightarrow> co_world \<Rightarrow> bool"
  for repr digest fp where
  reach_empty: "co_reachable repr digest fp empty_co_world"
| reach_step: "co_reachable repr digest fp w \<Longrightarrow> co_step repr digest fp w w' \<Longrightarrow> co_reachable repr digest fp w'"

section \<open>The invariant\<close>

definition runs_of :: "string \<Rightarrow> (string \<times> json) list \<Rightarrow> nat" where
  "runs_of oid rs = length (filter (\<lambda>r. fst r = oid) rs)"

fun is_claim :: "string \<Rightarrow> exec_task \<Rightarrow> bool" where
  "is_claim oid (Claimed k row) = (k = oid)"
| "is_claim oid _ = False"

definition claims_of :: "string \<Rightarrow> (nat, exec_task) dict \<Rightarrow> nat" where
  "claims_of oid ts = length (filter (\<lambda>p. is_claim oid (snd p)) ts)"

definition same_request :: "co_row \<Rightarrow> co_row \<Rightarrow> bool" where
  "same_request a b \<longleftrightarrow> co_payload a = co_payload b \<and> co_digest a = co_digest b \<and> co_approval a = co_approval b
     \<and> co_recipients a = co_recipients b \<and> co_preview a = co_preview b"

text \<open>The row's card was granted for the row's plan, and a use of it was spent.\<close>

definition authorised :: "ap_world \<Rightarrow> co_row \<Rightarrow> bool" where
  "authorised aps row \<longleftrightarrow> (\<exists>a p. row_plan row = Some p \<and> dget (aw_table aps) (co_approval row) = Some a
     \<and> differences (ap_plan a) p = [] \<and> 0 < spends aps (co_approval row))"

fun task_ok :: "co_table \<Rightarrow> ap_world \<Rightarrow> exec_task \<Rightarrow> bool" where
  "task_ok rows aps (Seen oid row) =
     (co_status row = CoPrepared \<and> co_attempts row = 0 \<and> (\<exists>cur. dget rows oid = Some cur \<and> same_request cur row))"
| "task_ok rows aps (Holding oid row) =
     (co_status row = CoPrepared \<and> co_attempts row = 0 \<and> (\<exists>cur. dget rows oid = Some cur \<and> same_request cur row)
        \<and> authorised aps row)"
| "task_ok rows aps (Claimed oid row) = (\<exists>cur. dget rows oid = Some cur \<and> same_request cur row)"
| "task_ok rows aps (Running oid) = True"

definition row_ok :: "(json \<Rightarrow> string) \<Rightarrow> ap_world \<Rightarrow> nat \<Rightarrow> co_row \<Rightarrow> bool" where
  "row_ok digest aps n row \<longleftrightarrow> co_digest row = digest (co_payload row)
     \<and> (co_status row \<in> {CoPrepared, CoCancelled} \<longrightarrow> co_attempts row = 0)
     \<and> co_attempts row \<le> 1 \<and> n \<le> co_attempts row \<and> (0 < co_attempts row \<longrightarrow> authorised aps row)
     \<and> dget (aw_table aps) (co_approval row) \<noteq> None"

definition own_cards :: "co_table \<Rightarrow> bool" where
  "own_cards rows \<longleftrightarrow> (\<forall>k k' r r'. dget rows k = Some r \<longrightarrow> dget rows k' = Some r' \<longrightarrow> co_approval r = co_approval r' \<longrightarrow> k = k')"

definition co_inv :: "(json \<Rightarrow> string) \<Rightarrow> co_world \<Rightarrow> bool" where
  "co_inv digest w \<longleftrightarrow> ap_inv (cw_aps w) \<and> own_cards (cw_rows w)
     \<and> (\<forall>oid row. dget (cw_rows w) oid = Some row \<longrightarrow>
           row_ok digest (cw_aps w) (runs_of oid (cw_runs w) + claims_of oid (cw_tasks w)) row)
     \<and> (\<forall>t task. (t, task) \<in> set (cw_tasks w) \<longrightarrow> task_ok (cw_rows w) (cw_aps w) task)
     \<and> (\<forall>oid p. (oid, p) \<in> set (cw_runs w) \<longrightarrow> (\<exists>row. dget (cw_rows w) oid = Some row \<and> co_payload row = p))"

lemma co_invD:
  assumes "co_inv digest w"
  shows "ap_inv (cw_aps w)" "own_cards (cw_rows w)"
    "dget (cw_rows w) oid = Some row \<Longrightarrow> row_ok digest (cw_aps w) (runs_of oid (cw_runs w) + claims_of oid (cw_tasks w)) row"
    "(t, task) \<in> set (cw_tasks w) \<Longrightarrow> task_ok (cw_rows w) (cw_aps w) task"
    "(oid, p) \<in> set (cw_runs w) \<Longrightarrow> \<exists>row. dget (cw_rows w) oid = Some row \<and> co_payload row = p"
  using assms by (auto simp: co_inv_def)

section \<open>Cards and tasks\<close>

lemma card_kept:
  assumes "dget (aw_table w) aid = Some a"
  shows "\<exists>a'. dget (aw_table (ap_step fp op w)) aid = Some a' \<and> ap_plan a' = ap_plan a"
proof (cases op)
  case (ORequest p owner ttl uses aid' now)
  with assms show ?thesis by (auto simp: ap_request_def Let_def)
next
  case (ODecide aid' granted by_whom reason stamp seen)
  with assms show ?thesis by (auto simp: decide_write_def split: option.splits)
next
  case (ORevoke aid' by_whom reason stamp)
  show ?thesis
    by (cases rule: revoke_id_cases [of aid' by_whom reason stamp "aw_table w"]) (use assms ORevoke in auto)
next
  case (OExpire stamp)
  with assms show ?thesis by (auto simp: dget_expire)
next
  case (OSpend aid' seen p stamp)
  show ?thesis
  proof (cases "covers seen p stamp \<noteq> Covered \<or> card_spend fp aid' seen p (aw_table w) = None")
    case True
    then have "ap_step fp op w = w" using OSpend by auto
    with assms show ?thesis by simp
  next
    case False
    then obtain spent db where res: "card_spend fp aid' seen p (aw_table w) = Some (spent, db)" by auto
    then obtain cur where "dget (aw_table w) aid' = Some cur"
      "db = dset aid' (cur\<lparr>ap_uses_left := ap_uses_left spent, ap_status := ap_status spent\<rparr>) (aw_table w)"
      by (rule card_spendD)
    with OSpend False res assms show ?thesis by auto
  qed
qed

lemma spends_mono: "spends w aid \<le> spends (ap_step fp op w) aid"
proof (cases op)
  case (OSpend aid' seen p stamp)
  then show ?thesis by (auto simp: spends_def split: option.splits)
next
  case (ORequest p owner ttl uses aid' now)
  then show ?thesis by (auto simp: spends_def ap_request_def Let_def)
next
  case (ODecide aid' granted by_whom reason stamp seen)
  then show ?thesis by (auto simp: spends_def split: option.splits)
qed (simp_all add: spends_def)

lemma authorised_step: "authorised aps row \<Longrightarrow> authorised (ap_step fp op aps) row"
  unfolding authorised_def using card_kept spends_mono by (metis order_less_le_trans)

lemma authorised_same: "authorised aps row \<Longrightarrow> same_request cur row \<Longrightarrow> authorised aps cur"
  by (simp add: authorised_def row_plan_def same_request_def)

lemma task_ok_step: "task_ok rows aps task \<Longrightarrow> task_ok rows (ap_step fp op aps) task"
  by (cases task) (auto intro: authorised_step)

lemma row_ok_step:
  assumes "row_ok digest aps n row"
  shows "row_ok digest (ap_step fp op aps) n row"
proof -
  from assms obtain a where "dget (aw_table aps) (co_approval row) = Some a" by (auto simp: row_ok_def)
  from card_kept [OF this, of fp op] assms show ?thesis by (auto simp: row_ok_def intro: authorised_step)
qed

lemma row_ok_le: "row_ok digest aps n row \<Longrightarrow> m \<le> n \<Longrightarrow> row_ok digest aps m row"
  by (auto simp: row_ok_def)

lemma set_dpopD: "p \<in> set (dpop k d) \<Longrightarrow> p \<in> set d"
  by (simp add: dpop_def)

lemma claims_dpop: "claims_of oid (dpop t ts) \<le> claims_of oid ts"
  unfolding claims_of_def dpop_def by (induction ts) auto

lemma claims_dset: "claims_of oid (dset t task ts) \<le> claims_of oid ts + (if is_claim oid task then 1 else 0)"
  unfolding claims_of_def by (induction ts) auto

lemma claims_dset_old:
  "dget ts t = Some old \<Longrightarrow> is_claim oid old \<Longrightarrow> \<not> is_claim oid task \<Longrightarrow> claims_of oid (dset t task ts) + 1 = claims_of oid ts"
  unfolding claims_of_def by (induction ts) (auto split: if_splits)

lemma task_ok_rows:
  assumes "task_ok rows aps task" "dget rows oid = Some row" "same_request new row"
  shows "task_ok (dset oid new rows) aps task"
proof -
  have "\<exists>cur'. dget (dset oid new rows) k = Some cur' \<and> same_request cur' r"
    if "dget rows k = Some cur" "same_request cur r" for k cur r
    using that assms(2,3) by (auto simp: same_request_def)
  with assms(1) show ?thesis by (cases task) (fastforce simp del: dget_dset)+
qed

section \<open>Preservation\<close>

text \<open>Writing a row keeps its request; what changes is its status, its attempts and the records around it.\<close>

lemma co_inv_write:
  assumes inv: "co_inv digest w" and row: "dget (cw_rows w) oid = Some row" and new: "same_request new row"
    and att: "co_attempts new = co_attempts row" and st: "co_status new \<in> {CoPrepared, CoCancelled} \<Longrightarrow> co_attempts row = 0"
  shows "co_inv digest (w\<lparr>cw_rows := dset oid new (cw_rows w)\<rparr>)"
proof -
  have "row_ok digest (cw_aps w) (runs_of oid (cw_runs w) + claims_of oid (cw_tasks w)) row"
    using inv row by (rule co_invD)
  then have ok: "row_ok digest (cw_aps w) (runs_of oid (cw_runs w) + claims_of oid (cw_tasks w)) new"
    using new att st by (auto simp: row_ok_def same_request_def authorised_def row_plan_def)
  have own: "own_cards (dset oid new (cw_rows w))"
    using co_invD(2) [OF inv] row new by (auto simp: own_cards_def same_request_def split: if_splits)
  have runs: "\<exists>r. dget (dset oid new (cw_rows w)) k = Some r \<and> co_payload r = p" if "(k, p) \<in> set (cw_runs w)" for k p
    using co_invD(5) [OF inv that] row new by (auto simp: same_request_def)
  show ?thesis
    using co_invD(1,3,4) [OF inv] own ok runs task_ok_rows [OF _ row new] by (simp add: co_inv_def)
qed

lemma co_inv_status:
  assumes inv: "co_inv digest w" and res: "set_status oid from_statuses write (cw_rows w) = (b, rows)"
    and keeps: "\<And>r. same_request (write r) r \<and> co_attempts (write r) = co_attempts r"
    and st: "\<And>r. co_status (write r) \<in> {CoPrepared, CoCancelled} \<Longrightarrow> from_statuses = [CoPrepared]"
  shows "co_inv digest (w\<lparr>cw_rows := rows\<rparr>)"
proof (cases "b")
  case True
  then obtain row where row: "dget (cw_rows w) oid = Some row" "co_status row \<in> set from_statuses" "rows = dset oid (write row) (cw_rows w)"
    using res by (auto simp: set_status_def split: option.splits if_splits)
  have "co_attempts row = 0" if "from_statuses = [CoPrepared]"
    using co_invD(3) [OF inv row(1)] row(2) that by (simp add: row_ok_def)
  with keeps st co_inv_write [OF inv row(1)] show ?thesis unfolding row(3) by blast
next
  case False
  then have "rows = cw_rows w" using res by (auto simp: set_status_def split: option.splits if_splits)
  with inv show ?thesis by simp
qed

lemma co_inv_tasks:
  assumes inv: "co_inv digest w" and ok: "\<And>t task. (t, task) \<in> set ts \<Longrightarrow> task_ok (cw_rows w) (cw_aps w) task"
    and le: "\<And>oid. claims_of oid ts \<le> claims_of oid (cw_tasks w)"
  shows "co_inv digest (w\<lparr>cw_tasks := ts\<rparr>)"
  using assms co_invD(3) [OF inv, THEN row_ok_le] by (simp add: co_inv_def)

lemma co_inv_stop: "co_inv digest w \<Longrightarrow> co_inv digest (w\<lparr>cw_tasks := dpop t (cw_tasks w)\<rparr>)"
  by (rule co_inv_tasks) (auto intro: claims_dpop dest: set_dpopD co_invD(4))

lemma co_inv_approvals:
  assumes "co_inv digest w"
  shows "co_inv digest (w\<lparr>cw_aps := ap_step fp op (cw_aps w)\<rparr>)"
  using assms by (auto simp: co_inv_def intro: ap_step_inv row_ok_step task_ok_step)

lemma prepare_cases:
  assumes "co_prepare digest fp a oid aid now id (db, aps) = (answer, rows, aps')"
  obtains (none) "rows = db" "aps' = aps"
  | (orphan) p where "rows = db" "aps' = snd (ap_request fp p (pa_owner a) (Some (pa_ttl a)) 1 aid now aps)"
  | (new) p where "dget db oid = None" "rows = dset oid (new_row a (digest (pa_payload a)) aid now) db"
      "aps' = snd (ap_request fp p (pa_owner a) (Some (pa_ttl a)) 1 aid now aps)"
proof (cases "own_prepared (pa_key a) (pa_owner a) db")
  case (Some kr)
  with assms have "rows = db" "aps' = aps" by (auto simp: co_prepare_def Let_def split: prod.splits)
  then show thesis by (rule none)
next
  case none_own: None
  show thesis
  proof (cases "build_plan (pa_approval_action a) (digest (pa_payload a)) (pa_recipients a) (pa_preview a)")
    case None
    with none_own assms have "rows = db" "aps' = aps" by (auto simp: co_prepare_def Let_def)
    then show thesis by (rule none)
  next
    case (Some p)
    with none_own assms have "aps' = snd (ap_request fp p (pa_owner a) (Some (pa_ttl a)) 1 aid now aps)"
      and "rows = db \<or> dget db oid = None \<and> rows = dset oid (new_row a (digest (pa_payload a)) aid now) db"
      by (auto simp: co_prepare_def Let_def split: if_splits)
    then show thesis using orphan new by metis
  qed
qed

lemma opened_same: "dget (aw_table w) aid = None \<Longrightarrow> opened aid w (aw_table w) = w"
  by (simp add: opened_def)

lemma opened_request:
  assumes "dget (aw_table w) aid = None"
  shows "opened aid w (snd (ap_request fp p owner ttl 1 aid now (aw_table w))) = ap_step fp (ORequest p owner ttl 1 aid now) w"
  using assms by (simp add: opened_def ap_request_def Let_def)

lemma requested: "dget (snd (ap_request fp p owner ttl 1 aid now aps)) aid \<noteq> None"
  by (simp add: ap_request_def Let_def)

lemma aw_table_request:
  assumes "dget (aw_table w) aid = None"
  shows "aw_table (ap_step fp (ORequest p owner ttl 1 aid now) w) = snd (ap_request fp p owner ttl 1 aid now (aw_table w))"
  using assms by (simp add: ap_request_def Let_def)

text \<open>A new row: nothing has run under its id, and no other row has its card.\<close>

lemma co_inv_insert:
  assumes inv: "co_inv digest w" and fresh: "dget (cw_rows w) oid = None" and card: "dget (aw_table (cw_aps w)) aid \<noteq> None"
    and unused: "\<And>k r. dget (cw_rows w) k = Some r \<Longrightarrow> co_approval r \<noteq> aid"
  shows "co_inv digest (w\<lparr>cw_rows := dset oid (new_row a (digest (pa_payload a)) aid now) (cw_rows w)\<rparr>)"
proof -
  let ?rows = "dset oid (new_row a (digest (pa_payload a)) aid now) (cw_rows w)"
  have tasks: "task_ok ?rows (cw_aps w) task" "\<not> is_claim oid task" if "(t, task) \<in> set (cw_tasks w)" for t task
    using co_invD(4) [OF inv that] fresh by (cases task; auto)+
  have zero: "runs_of oid (cw_runs w) + claims_of oid (cw_tasks w) = 0"
    using co_invD(5) [OF inv] fresh tasks(2) by (fastforce simp: runs_of_def claims_of_def filter_empty_conv)
  have own: "own_cards ?rows"
    unfolding own_cards_def
  proof (intro allI impI)
    fix k k' r r'
    have new: "co_approval (new_row a d aid now) = aid" for d by (simp add: new_row_def)
    assume "dget ?rows k = Some r" "dget ?rows k' = Some r'" "co_approval r = co_approval r'"
    then show "k = k'"
      using co_invD(2) [OF inv] unused [of k r] unused [of k' r'] by (auto simp: new own_cards_def split: if_splits)
  qed
  have runs: "\<exists>r. dget ?rows k = Some r \<and> co_payload r = p" if "(k, p) \<in> set (cw_runs w)" for k p
    using co_invD(5) [OF inv that] fresh by auto
  have "row_ok digest (cw_aps w) 0 (new_row a (digest (pa_payload a)) aid now)"
    using card by (simp add: row_ok_def new_row_def)
  then show ?thesis
    using co_invD(1,3) [OF inv] own runs tasks(1) zero by (simp add: co_inv_def)
qed

lemma world_updates:
  "w\<lparr>cw_aps := a, cw_rows := r\<rparr> = w\<lparr>cw_rows := r, cw_aps := a\<rparr>"
  "w\<lparr>cw_aps := a, cw_tasks := ts\<rparr> = w\<lparr>cw_tasks := ts, cw_aps := a\<rparr>"
  "w\<lparr>cw_rows := r, cw_tasks := ts\<rparr> = w\<lparr>cw_tasks := ts, cw_rows := r\<rparr>"
  by (cases w; simp)+

lemma co_inv_prepare:
  assumes inv: "co_inv digest w" and fresh: "dget (aw_table (cw_aps w)) aid = None"
    and res: "co_prepare digest fp a oid aid now id (cw_rows w, aw_table (cw_aps w)) = (answer, rows, aps)"
  shows "co_inv digest (w\<lparr>cw_rows := rows, cw_aps := opened aid (cw_aps w) aps\<rparr>)"
  using res
proof (cases rule: prepare_cases)
  case none
  with inv fresh show ?thesis by (simp add: opened_same)
next
  case (orphan p)
  with co_inv_approvals [OF inv] fresh show ?thesis by (simp add: opened_request del: ap_step.simps)
next
  case (new p)
  let ?op = "ORequest p (pa_owner a) (Some (pa_ttl a)) 1 aid now"
  let ?w = "w\<lparr>cw_aps := ap_step fp ?op (cw_aps w)\<rparr>"
  have "co_inv digest ?w" using inv by (rule co_inv_approvals)
  moreover have "dget (cw_rows ?w) oid = None" using new(1) by simp
  moreover have "dget (aw_table (cw_aps ?w)) aid \<noteq> None" using fresh requested by (simp add: aw_table_request del: ap_step.simps)
  moreover have "co_approval r \<noteq> aid" if "dget (cw_rows ?w) k = Some r" for k r
    using co_invD(3) [OF inv, of k r] that fresh by (auto simp: row_ok_def)
  ultimately have "co_inv digest (?w\<lparr>cw_rows := dset oid (new_row a (digest (pa_payload a)) aid now) (cw_rows ?w)\<rparr>)"
    by (rule co_inv_insert)
  with new fresh show ?thesis by (simp add: opened_request world_updates del: ap_step.simps)
qed

lemma in_dsetD: "(k', v') \<in> set (dset k v d) \<Longrightarrow> k' = k \<and> v' = v \<or> (k', v') \<in> set d"
  by (auto dest: set_dsetD)

lemma claims_dset_other: "\<not> is_claim oid task \<Longrightarrow> claims_of oid (dset t task ts) \<le> claims_of oid ts"
  using claims_dset [of oid t task ts] by simp

lemma co_inv_replace:
  assumes inv: "co_inv digest w" and ok: "task_ok (cw_rows w) (cw_aps w) task" and no: "\<And>oid. \<not> is_claim oid task"
  shows "co_inv digest (w\<lparr>cw_tasks := dset t task (cw_tasks w)\<rparr>)"
proof (rule co_inv_tasks [OF inv])
  show "task_ok (cw_rows w) (cw_aps w) task'" if "(t', task') \<in> set (dset t task (cw_tasks w))" for t' task'
    using in_dsetD [OF that] ok co_invD(4) [OF inv] by auto
qed (rule claims_dset_other [OF no])

lemma exec_openD:
  assumes "exec_open oid owner db = Inr row"
  shows "dget db oid = Some row" "co_status row = CoPrepared" "co_owner row = owner"
  using assms by (auto simp: exec_open_def co_get_def split: option.splits if_splits)

lemma co_inv_see:
  assumes inv: "co_inv digest w" and row: "exec_open oid owner (cw_rows w) = Inr row"
  shows "co_inv digest (w\<lparr>cw_tasks := dset t (Seen oid row) (cw_tasks w)\<rparr>)"
  using inv
proof (rule co_inv_replace)
  note found = exec_openD [OF row]
  show "task_ok (cw_rows w) (cw_aps w) (Seen oid row)"
    using found co_invD(3) [OF inv found(1)] by (auto simp: row_ok_def same_request_def)
qed simp

text \<open>A spend that succeeds leaves a card whose plan is the plan that was spent on.\<close>

lemma spend_authorises:
  assumes "covers seen p stamp = Covered" "card_spend fp (co_approval row) seen p (aw_table aps) \<noteq> None" "row_plan row = Some p"
  shows "authorised (ap_step fp (OSpend (co_approval row) seen p stamp) aps) row"
proof -
  obtain spent db where res: "card_spend fp (co_approval row) seen p (aw_table aps) = Some (spent, db)" using assms(2) by auto
  then obtain cur where cur: "dget (aw_table aps) (co_approval row) = Some cur" "ap_plan cur = ap_plan seen"
    "db = dset (co_approval row) (cur\<lparr>ap_uses_left := ap_uses_left spent, ap_status := ap_status spent\<rparr>) (aw_table aps)"
    by (rule card_spendD)
  have "differences (ap_plan seen) p = []" using assms(1) by (auto simp: covers_def Let_def split: if_splits)
  with res cur assms(1,3) show ?thesis by (auto simp: authorised_def spends_def)
qed

lemma co_inv_consume:
  assumes inv: "co_inv digest w" and task: "dget (cw_tasks w) t = Some (Seen oid row)" and p: "row_plan row = Some p"
    and spend: "covers seen p stamp = Covered" "card_spend fp (co_approval row) seen p (aw_table (cw_aps w)) \<noteq> None"
  shows "co_inv digest (w\<lparr>cw_tasks := dset t (Holding oid row) (cw_tasks w),
      cw_aps := ap_step fp (OSpend (co_approval row) seen p stamp) (cw_aps w)\<rparr>)"
proof -
  let ?w = "w\<lparr>cw_aps := ap_step fp (OSpend (co_approval row) seen p stamp) (cw_aps w)\<rparr>"
  have w: "co_inv digest ?w" using inv by (rule co_inv_approvals)
  have "task_ok (cw_rows ?w) (cw_aps ?w) (Holding oid row)"
    using co_invD(4) [OF inv dget_SomeD [OF task]] spend_authorises [OF spend p] by (simp del: ap_step.simps)
  from co_inv_replace [OF w this, of t] show ?thesis by (simp add: world_updates del: ap_step.simps)
qed

lemma set_statusD:
  assumes "set_status oid from_statuses write db = (True, db')"
  obtains row where "dget db oid = Some row" "co_status row \<in> set from_statuses" "db' = dset oid (write row) db"
  using assms by (auto simp: set_status_def split: option.splits if_splits)

lemma co_inv_claim:
  assumes inv: "co_inv digest w" and task: "dget (cw_tasks w) t = Some (Holding oid row)"
    and claim: "exec_claim oid row (cw_rows w) = (True, rows)"
  shows "co_inv digest (w\<lparr>cw_tasks := dset t (Claimed oid row) (cw_tasks w), cw_rows := rows\<rparr>)"
proof -
  note held = co_invD(4) [OF inv dget_SomeD [OF task]]
  obtain cur where cur: "dget (cw_rows w) oid = Some cur" "co_status cur = CoPrepared"
    "rows = dset oid (cur\<lparr>co_status := CoExecuting, co_attempts := co_attempts row + 1\<rparr>) (cw_rows w)"
    using claim unfolding exec_claim_def by (rule set_statusD) simp
  let ?new = "cur\<lparr>co_status := CoExecuting, co_attempts := co_attempts row + 1\<rparr>"
  have same: "same_request ?new cur" by (simp add: same_request_def)
  have like: "same_request cur row" "authorised (cw_aps w) row" "co_attempts row = 0" using held cur(1) by auto
  note ok = co_invD(3) [OF inv cur(1)]
  have none: "runs_of oid (cw_runs w) + claims_of oid (cw_tasks w) = 0" using ok cur(2) by (simp add: row_ok_def)
  have "authorised (cw_aps w) ?new"
    using authorised_same [OF like(2), of ?new] like(1) by (simp add: same_request_def)
  then have "row_ok digest (cw_aps w) 1 ?new" using ok like(3) by (simp add: row_ok_def)
  moreover have "runs_of oid (cw_runs w) + claims_of oid (dset t (Claimed oid row) (cw_tasks w)) \<le> 1"
    using claims_dset [of oid t "Claimed oid row" "cw_tasks w"] none by simp
  ultimately have new: "row_ok digest (cw_aps w) (runs_of oid (cw_runs w) + claims_of oid (dset t (Claimed oid row) (cw_tasks w))) ?new"
    by (rule row_ok_le)
  have old: "row_ok digest (cw_aps w) (runs_of k (cw_runs w) + claims_of k (dset t (Claimed oid row) (cw_tasks w))) r"
    if "dget (cw_rows w) k = Some r" "k \<noteq> oid" for k r
    using co_invD(3) [OF inv that(1)] claims_dset_other [of k "Claimed oid row" t "cw_tasks w"] that(2) by (auto intro: row_ok_le)
  have tasks: "task_ok rows (cw_aps w) task'" if "(t', task') \<in> set (dset t (Claimed oid row) (cw_tasks w))" for t' task'
    using in_dsetD [OF that]
  proof
    assume "t' = t \<and> task' = Claimed oid row"
    then show ?thesis using like(1) by (simp add: cur(3) same_request_def)
  next
    assume "(t', task') \<in> set (cw_tasks w)"
    then show ?thesis unfolding cur(3) using co_invD(4) [OF inv] cur(1) same by (blast intro: task_ok_rows)
  qed
  have own: "own_cards rows" using co_invD(2) [OF inv] cur(1) by (auto simp: own_cards_def cur(3) split: if_splits)
  have runs: "\<exists>r. dget rows k = Some r \<and> co_payload r = q" if "(k, q) \<in> set (cw_runs w)" for k q
    using co_invD(5) [OF inv that] cur(1) by (auto simp: cur(3))
  have "row_ok digest (cw_aps w) (runs_of k (cw_runs w) + claims_of k (dset t (Claimed oid row) (cw_tasks w))) r"
    if "dget rows k = Some r" for k r
    using that old new by (cases "k = oid") (auto simp: cur(3))
  then show ?thesis using co_invD(1) [OF inv] own tasks runs by (simp add: co_inv_def)
qed

lemma co_inv_run:
  assumes inv: "co_inv digest w" and task: "dget (cw_tasks w) t = Some (Claimed oid row)"
  shows "co_inv digest (w\<lparr>cw_tasks := dset t (Running oid) (cw_tasks w), cw_runs := (oid, co_payload row) # cw_runs w\<rparr>)"
proof -
  obtain cur where cur: "dget (cw_rows w) oid = Some cur" "same_request cur row"
    using co_invD(4) [OF inv dget_SomeD [OF task]] by auto
  let ?ts = "dset t (Running oid) (cw_tasks w)" and ?rs = "(oid, co_payload row) # cw_runs w"
  have count: "runs_of k ?rs + claims_of k ?ts \<le> runs_of k (cw_runs w) + claims_of k (cw_tasks w)" for k
    using claims_dset_old [OF task, of k "Running oid"] claims_dset_other [of k "Running oid" t "cw_tasks w"]
    by (auto simp: runs_of_def)
  have "task_ok (cw_rows w) (cw_aps w) task'" if "(t', task') \<in> set ?ts" for t' task'
    using in_dsetD [OF that] co_invD(4) [OF inv] by auto
  moreover have "\<exists>r. dget (cw_rows w) k = Some r \<and> co_payload r = q" if "(k, q) \<in> set ?rs" for k q
    using that cur co_invD(5) [OF inv] by (auto simp: same_request_def)
  ultimately show ?thesis
    using co_invD(1,2) [OF inv] co_invD(3) [OF inv, THEN row_ok_le, OF _ count] by (simp add: co_inv_def)
qed

lemma co_inv_settle:
  assumes inv: "co_inv digest w" and res: "exec_settle repr res now oid (cw_rows w) = (answer, rows)"
  shows "co_inv digest (w\<lparr>cw_tasks := dpop t (cw_tasks w), cw_rows := rows\<rparr>)"
proof -
  have "co_inv digest (w\<lparr>cw_rows := rows\<rparr>)"
  proof (cases "rows = cw_rows w")
    case True
    with inv show ?thesis by simp
  next
    case False
    then obtain upd b where "set_status oid [CoExecuting] upd (cw_rows w) = (b, rows)"
      "\<And>r. same_request (upd r) r \<and> co_attempts (upd r) = co_attempts r"
      "\<And>r. co_status (upd r) \<notin> {CoPrepared, CoCancelled}"
    proof (cases res)
      case (RunUncertain e)
      with res that [of "\<lambda>r. r\<lparr>co_status := CoUncertain, co_reason := ''outcome_unknown: '' @ e\<rparr>"] show thesis
        by (auto simp: exec_settle_def Let_def same_request_def prod_eq_iff)
    next
      case (RunRaised n e)
      with res that [of "\<lambda>r. r\<lparr>co_status := CoFailed, co_reason := n @ '': '' @ e\<rparr>"] show thesis
        by (auto simp: exec_settle_def Let_def same_request_def prod_eq_iff)
    next
      case (RunReturned v)
      show thesis
      proof (cases "read_run repr v")
        case (ReadOk ref)
        with res RunReturned that [of "\<lambda>r. r\<lparr>co_status := CoExecuted, co_ref := ref, co_executed := Some now, co_reason := []\<rparr>"]
        show thesis by (auto simp: exec_settle_def Let_def same_request_def prod_eq_iff)
      next
        case (ReadFailure detail)
        with res RunReturned that [of "\<lambda>r. r\<lparr>co_status := CoFailed, co_reason := detail\<rparr>"]
        show thesis by (auto simp: exec_settle_def Let_def same_request_def prod_eq_iff)
      next
        case ReadNoMapping
        with res RunReturned False show thesis by (simp add: exec_settle_def Let_def)
      qed
    qed
    then show ?thesis using inv by (blast intro: co_inv_status)
  qed
  from co_inv_stop [OF this, of t] show ?thesis by (simp add: world_updates)
qed

lemma co_inv_reconcile:
  assumes inv: "co_inv digest w" and res: "co_reconcile repr oid owner look now id (cw_rows w) = (answer, rows)"
  shows "co_inv digest (w\<lparr>cw_rows := rows\<rparr>)"
proof (cases "rows = cw_rows w")
  case True
  with inv show ?thesis by simp
next
  case False
  then obtain ref where "(\<exists>b. set_status oid [CoUncertain] (\<lambda>r. r\<lparr>co_status := CoExecuted, co_ref := ref, co_executed := Some now,
        co_reason := ''adopted by reconciliation''\<rparr>) (cw_rows w) = (b, rows))
    \<or> (\<exists>b. set_status oid [CoUncertain] (\<lambda>r. r\<lparr>co_status := CoFailed,
        co_reason := ''reconciliation found no matching record at the destination; the effect never landed''\<rparr>) (cw_rows w) = (b, rows))"
    using res by (fastforce simp: co_reconcile_def Let_def split: option.splits if_splits prod.splits)
  then show ?thesis
    using co_inv_status [OF inv, of oid "[CoUncertain]"] by (elim disjE exE) (fastforce simp: same_request_def)+
qed

lemma co_inv_cancel:
  assumes inv: "co_inv digest w" and res: "co_cancel oid owner id (cw_rows w) = (answer, rows)"
  shows "co_inv digest (w\<lparr>cw_rows := rows\<rparr>)"
proof (cases "rows = cw_rows w")
  case True
  with inv show ?thesis by simp
next
  case False
  then obtain b where "set_status oid [CoPrepared] (\<lambda>r. r\<lparr>co_status := CoCancelled, co_reason := ''cancelled before execution''\<rparr>)
      (cw_rows w) = (b, rows)"
    using res by (fastforce simp: co_cancel_def Let_def split: option.splits if_splits prod.splits)
  then show ?thesis by (rule co_inv_status [OF inv]) (auto simp: same_request_def)
qed

lemma co_step_inv: "co_step repr digest fp w w' \<Longrightarrow> co_inv digest w \<Longrightarrow> co_inv digest w'"
proof (induction rule: co_step.induct)
  case (step_prepare w aid a oid now answer rows aps)
  then show ?case by (blast intro: co_inv_prepare)
next
  case (step_see w t oid owner row)
  then show ?case by (blast intro: co_inv_see)
next
  case (step_consume w t oid row p seen stamp)
  then show ?case by (blast intro: co_inv_consume)
next
  case (step_claim w t oid row rows)
  then show ?case by (blast intro: co_inv_claim)
next
  case (step_settle w t oid res now answer rows)
  then show ?case by (blast intro: co_inv_settle)
qed (blast intro: co_inv_approvals co_inv_run co_inv_stop co_inv_reconcile co_inv_cancel)+

lemma co_inv_empty: "co_inv digest empty_co_world"
  by (simp add: co_inv_def empty_co_world_def ap_inv_empty own_cards_def)

lemma co_reachable_inv: "co_reachable repr digest fp w \<Longrightarrow> co_inv digest w"
  by (induction rule: co_reachable.induct) (simp_all add: co_inv_empty co_step_inv)

lemma no_differences:
  assumes "differences a b = []"
  shows "pl_action a = pl_action b" "pl_recipients a = pl_recipients b" "pl_detail a = pl_detail b"
  using assms by (auto simp: differences_def split: if_splits)

lemma runs_of_pos: "(oid, p) \<in> set rs \<Longrightarrow> 0 < runs_of oid rs"
  by (force simp: runs_of_def filter_empty_conv)

text \<open>
  C2: However prepares, decisions on cards, executions, crashes, reconciliations and cancellations
  interleave, an effect that left did so once: its row counts one attempt, is neither prepared nor
  cancelled any more, and has a card of its own that a named person granted, whose plan delivers
  to the row's recipients and carries the digest of the very payload that was sent.
\<close>
theorem effects_leave_once_and_granted:
  assumes "co_reachable repr digest fp w" "(oid, payload) \<in> set (cw_runs w)"
  shows "runs_of oid (cw_runs w) = 1 \<and> (\<exists>row a. dget (cw_rows w) oid = Some row \<and> co_payload row = payload
      \<and> co_attempts row = 1 \<and> co_status row \<notin> {CoPrepared, CoCancelled}
      \<and> (\<forall>k r. dget (cw_rows w) k = Some r \<and> co_approval r = co_approval row \<longrightarrow> k = oid)
      \<and> dget (aw_table (cw_aps w)) (co_approval row) = Some a \<and> 0 < spends (cw_aps w) (co_approval row)
      \<and> ap_decided_by a \<noteq> [] \<and> pl_action (ap_plan a) = ''deliver''
      \<and> Some (pl_recipients (ap_plan a)) = clean_list 200 320 (co_recipients row)
      \<and> pl_detail (ap_plan a) = plan_detail (digest payload) (co_preview row))"
proof -
  have inv: "co_inv digest w" using assms(1) by (rule co_reachable_inv)
  obtain row where row: "dget (cw_rows w) oid = Some row" "co_payload row = payload"
    using co_invD(5) [OF inv assms(2)] by blast
  note ok = co_invD(3) [OF inv row(1)]
  have one: "runs_of oid (cw_runs w) = 1" "co_attempts row = 1" "co_status row \<notin> {CoPrepared, CoCancelled}"
    using ok runs_of_pos [OF assms(2)] by (auto simp: row_ok_def)
  obtain a p where card: "row_plan row = Some p" "dget (aw_table (cw_aps w)) (co_approval row) = Some a"
    "differences (ap_plan a) p = []" "0 < spends (cw_aps w) (co_approval row)"
    using ok one(2) by (auto simp: row_ok_def authorised_def)
  have "card_ok (spends (cw_aps w) (co_approval row)) (dget (aw_issued (cw_aps w)) (co_approval row)) a"
    using co_invD(1) [OF inv] card(2) by (simp add: ap_inv_def)
  then have "ap_decided_by a \<noteq> []" using card(4) by (simp add: card_ok_def)
  moreover have "pl_action p = ''deliver''" "Some (pl_recipients p) = clean_list 200 320 (co_recipients row)"
    "pl_detail p = plan_detail (digest payload) (co_preview row)"
  proof -
    have "co_digest row = digest payload" using ok row(2) by (simp add: row_ok_def)
    moreover have "py_strip ''deliver'' = ''deliver''" by code_simp
    ultimately show "pl_action p = ''deliver''" "Some (pl_recipients p) = clean_list 200 320 (co_recipients row)"
      "pl_detail p = plan_detail (digest payload) (co_preview row)"
      using card(1) by (auto simp: row_plan_def build_plan_def split: if_splits)
  qed
  moreover have "\<forall>k r. dget (cw_rows w) k = Some r \<and> co_approval r = co_approval row \<longrightarrow> k = oid"
    using co_invD(2) [OF inv] row(1) by (auto simp: own_cards_def)
  ultimately show ?thesis using one row card(2,4) no_differences [OF card(3)] by auto
qed

section \<open>The handlers, one by one\<close>

lemma consume_spent:
  assumes "ap_consume fp aid p (Some owner) stamp envs aps = (Spent n st, aps')"
  shows "\<exists>k cur. dget (others (take k envs) aps) aid = Some cur \<and> covers cur p stamp = Covered \<and> ap_owner cur = owner
    \<and> aps' = dset aid (spent_by cur) (others (take k envs) aps)"
  using assms
proof (induction fp aid p "Some owner" stamp envs aps rule: ap_consume.induct)
  case (2 fp aid p stamp env envs db)
  have now: "others (take 1 (env # envs)) db = env db"
    and later: "others (take (Suc k) (env # envs)) db = others (take k envs) (env db)" for k by (simp_all add: others_def)
  from "2.prems" obtain row where row: "dget db aid = Some row" "owner = ap_owner row" "covers row p stamp = Covered"
    by (auto split: option.splits if_splits)
  show ?case
  proof (cases "card_spend fp aid row p (env db)")
    case None
    with "2.prems" row have "ap_consume fp aid p (Some owner) stamp envs (env db) = (Spent n st, aps')" by simp
    with "2.hyps" [OF row(1)] row None obtain k cur where
      "dget (others (take k envs) (env db)) aid = Some cur" "covers cur p stamp = Covered" "ap_owner cur = owner"
      "aps' = dset aid (spent_by cur) (others (take k envs) (env db))" by auto
    then show ?thesis unfolding later [symmetric] by blast
  next
    case (Some res)
    obtain spent d where res: "res = (spent, d)" by (cases res)
    obtain cur where cur: "dget (env db) aid = Some cur" "covers cur p stamp = Covered" "ap_owner cur = ap_owner row"
      "d = dset aid (spent_by cur) (env db)"
      using card_spend_covering [OF Some [unfolded res] row(3)] by metis
    have "aps' = d" using "2.prems" row Some res by simp
    with cur row(2) show ?thesis using now by metis
  qed
qed simp

text \<open>
  C25: One execution hands the effect at most one payload: only for a row of that owner that was
  read as prepared, after one use of its card was spent by a write that found it granted, unexpired
  and for the row's plan, and after the row was claimed while still prepared; otherwise the outbox
  is what the other sessions made of it.
\<close>
theorem execute_spends_before_it_runs:
  assumes "co_execute repr fp oid owner stamp run envs env1 env2 (db, aps) = (answer, db', aps', sent)"
  shows "case sent of
      [] \<Rightarrow> db' = db \<or> db' = env1 db
    | payload # further \<Rightarrow> further = [] \<and> (\<exists>row p k cur cur' rows.
          exec_open oid owner db = Inr row \<and> payload = co_payload row \<and> row_plan row = Some p
        \<and> dget (others (take k envs) aps) (co_approval row) = Some cur \<and> covers cur p stamp = Covered \<and> ap_owner cur = owner
        \<and> aps' = dset (co_approval row) (spent_by cur) (others (take k envs) aps)
        \<and> dget (env1 db) oid = Some cur' \<and> co_status cur' = CoPrepared
        \<and> rows = dset oid (cur'\<lparr>co_status := CoExecuting, co_attempts := co_attempts row + 1\<rparr>) (env1 db)
        \<and> (answer, db') = exec_settle repr (run payload) stamp oid (env2 rows))"
proof (cases "exec_open oid owner db")
  case (Inl a)
  with assms show ?thesis by (simp add: co_execute_def)
next
  case open': (Inr row)
  show ?thesis
  proof (cases "row_plan row")
    case None
    with open' assms show ?thesis by (simp add: co_execute_def)
  next
    case (Some p)
    obtain sa aps1 where spend: "ap_consume fp (co_approval row) p (Some owner) stamp envs aps = (sa, aps1)" by fastforce
    show ?thesis
    proof (cases sa)
      case (Spent n st)
      obtain b rows where claim: "exec_claim oid row (env1 db) = (b, rows)" by fastforce
      show ?thesis
      proof (cases b)
        case False
        then have "rows = env1 db"
          using claim by (auto simp: exec_claim_def set_status_def split: option.splits if_splits)
        with open' Some spend Spent claim False assms show ?thesis by (simp add: co_execute_def)
      next
        case True
        obtain cur' where cur': "dget (env1 db) oid = Some cur'" "co_status cur' = CoPrepared"
          "rows = dset oid (cur'\<lparr>co_status := CoExecuting, co_attempts := co_attempts row + 1\<rparr>) (env1 db)"
          using claim True by (auto simp: exec_claim_def elim!: set_statusD)
        have "sent = [co_payload row]" "aps' = aps1" "(answer, db') = exec_settle repr (run (co_payload row)) stamp oid (env2 rows)"
          using open' Some spend Spent claim True assms by (auto simp: co_execute_def split: prod.splits)
        with consume_spent [OF spend [unfolded Spent]] cur' open' Some show ?thesis by auto
      qed
    qed (use open' Some spend assms in \<open>simp_all add: co_execute_def\<close>)
  qed
qed

text \<open>
  What the effect answered decides the row: a lost confirmation makes it uncertain, an exception
  or a refusal failed, a confirmation executed with its reference. But a value that is neither empty
  nor a mapping raises after the effect ran: the row stays executing, and no execution, cancellation
  or reconciliation changes it again or lists it as unsettled.
\<close>
theorem outcome_decides_status:
  assumes "dget db oid = Some row" "co_status row = CoExecuting" "exec_settle repr res now oid db = (answer, db')"
  shows "(case res of
      RunUncertain e \<Rightarrow> answer = XOutcomeUnknown e \<and> map_option co_status (dget db' oid) = Some CoUncertain
    | RunRaised n e \<Rightarrow> answer = XFailed e \<and> map_option co_status (dget db' oid) = Some CoFailed
    | RunReturned v \<Rightarrow>
        (case read_run repr v of
           ReadOk ref \<Rightarrow> answer = XDone ref \<and> map_option co_status (dget db' oid) = Some CoExecuted \<and> map_option co_ref (dget db' oid) = Some ref
         | ReadFailure d \<Rightarrow> answer = XFailed d \<and> map_option co_status (dget db' oid) = Some CoFailed
         | ReadNoMapping \<Rightarrow> answer = XAttributeError \<and> db' = db
             \<and> exec_open oid (co_owner row) db' = Inl (XAlready CoExecuting)
             \<and> co_reconcile repr oid (co_owner row) look now env db' = (RNothing CoExecuting, db')
             \<and> co_cancel oid (co_owner row) id db' = (CAlready False (Some CoExecuting), db')
             \<and> filter (\<lambda>(k, r). r = row) (co_needs_reconciliation [] db') = []))
    \<and> (if k = oid then True else dget db' k = dget db k)"
proof -
  have get: "co_get oid (Some (co_owner row)) db = Some row" using assms(1) by (simp add: co_get_def)
  have set: "set_status oid [CoExecuting] f db = (True, dset oid (f row) db)" for f
    using assms(1,2) by (simp add: set_status_def)
  have "filter (\<lambda>(k, r). r = row) (co_needs_reconciliation [] db) = []"
    using assms(2) by (auto simp: co_needs_reconciliation_def filter_empty_conv)
  moreover have "exec_open oid (co_owner row) db = Inl (XAlready CoExecuting)"
    "co_reconcile repr oid (co_owner row) look now env db = (RNothing CoExecuting, db)"
    using get assms(2) by (simp_all add: exec_open_def co_reconcile_def)
  moreover have "co_cancel oid (co_owner row) id db = (CAlready False (Some CoExecuting), db)"
    using get assms(1,2) by (simp add: co_cancel_def set_status_def)
  ultimately show ?thesis
    using assms(3)
    by (cases res; auto simp: exec_settle_def Let_def set split: run_reading.splits)
qed

lemma find_dset_new:
  "dget d k = None \<Longrightarrow> find P d = None \<Longrightarrow> find P (dset k v d) = (if P (k, v) then Some (k, v) else None)"
  by (induction d) (auto split: if_splits)

lemma key_not_taken: "key \<noteq> [] \<Longrightarrow> \<not> key_taken key db \<Longrightarrow> find (\<lambda>(k, r). co_key r = Some key \<and> Q r) db = None"
  by (auto simp: key_taken_def list_ex_iff find_None_iff)

lemma prepare_doneD:
  assumes "co_prepare digest fp a oid aid now env (db, aps) = (PrepDone oid', db', aps')"
  shows "oid' = oid" "dget (env db) oid = None" "\<not> key_taken (pa_key a) (env db)"
    "db' = dset oid (new_row a (digest (pa_payload a)) aid now) (env db)"
  using assms by (auto simp: co_prepare_def Let_def split: option.splits if_splits)

text \<open>
  An idempotency key opens one row: preparing again under it changes nothing, and hands back the
  row when the payload has the same digest and a conflict when it has not. The index behind it has
  no owner, though: another owner's use of the key opens an approval card and then fails on the
  insertion, leaving the card without a row.
\<close>
theorem prepare_opens_one_row_per_key:
  assumes "co_prepare digest fp a oid aid now env (db, aps) = (PrepDone oid, db', aps')" "pa_key a \<noteq> []" "pa_key b = pa_key a"
    and "build_plan (pa_approval_action b) (digest (pa_payload b)) (pa_recipients b) (pa_preview b) = Some p"
  shows "co_prepare digest fp b oid2 aid2 now2 id (db', aps') =
      (if pa_owner b = pa_owner a
       then (if digest (pa_payload b) = digest (pa_payload a) then PrepReused oid else PrepConflict, db', aps')
       else (PrepIntegrityError, db', snd (ap_request fp p (pa_owner b) (Some (pa_ttl b)) 1 aid2 now2 aps')))"
proof -
  note done' = prepare_doneD(2-4) [OF assms(1)]
  let ?row = "new_row a (digest (pa_payload a)) aid now"
  have row: "co_key ?row = Some (pa_key a)" "co_owner ?row = pa_owner a" "co_digest ?row = digest (pa_payload a)"
    using assms(2) by (simp_all add: new_row_def)
  have own: "own_prepared (pa_key b) (pa_owner b) db' = (if pa_owner b = pa_owner a then Some (oid, ?row) else None)"
    using assms(2,3) find_dset_new [OF done'(1) key_not_taken [OF assms(2) done'(2)], of "\<lambda>r. co_owner r = pa_owner b" ?row]
    by (auto simp: own_prepared_def done'(3) row)
  have "(oid, ?row) \<in> set db'" by (rule dget_SomeD) (simp add: done'(3))
  then have "key_taken (pa_key b) db'" using assms(2,3) row(1) by (auto simp: key_taken_def list_ex_iff)
  with own assms(4) row(3) show ?thesis by (auto simp: co_prepare_def Let_def)
qed

text \<open>
  The digest a card is bound to is the stored one, never that of the stored payload: whenever a
  row may be executed, a payload that was exchanged under it after the card was granted is sent all
  the same, on the same spend.
\<close>
theorem exchanged_payload_is_sent:
  assumes "dget db oid = Some row" "co_execute repr fp oid owner stamp run envs id id (db, aps) = (answer, db', aps', [co_payload row])"
  shows "fst (snd (snd (co_execute repr fp oid owner stamp run envs id id (dset oid (row\<lparr>co_payload := q\<rparr>) db, aps)))) = aps'
    \<and> snd (snd (snd (co_execute repr fp oid owner stamp run envs id id (dset oid (row\<lparr>co_payload := q\<rparr>) db, aps)))) = [q]"
proof -
  let ?new = "row\<lparr>co_payload := q\<rparr>"
  from assms(2) obtain seen where open': "exec_open oid owner db = Inr seen"
    by (cases "exec_open oid owner db") (auto simp: co_execute_def)
  have same: "seen = row" using exec_openD(1) [OF open'] assms(1) by simp
  have new: "exec_open oid owner (dset oid ?new db) = Inr ?new"
    using exec_openD [OF open'] assms(1) by (simp add: exec_open_def co_get_def)
  have plan: "row_plan ?new = row_plan row" by (simp add: row_plan_def)
  from assms(2) obtain p where p: "row_plan row = Some p"
    using open' same by (cases "row_plan row") (auto simp: co_execute_def)
  obtain sa aps1 where spend: "ap_consume fp (co_approval row) p (Some owner) stamp envs aps = (sa, aps1)" by fastforce
  have st: "co_status row = CoPrepared" using exec_openD(2) [OF open'] same by simp
  have claim: "exec_claim oid ?new (dset oid ?new db) =
      (True, dset oid (?new\<lparr>co_status := CoExecuting, co_attempts := co_attempts row + 1\<rparr>) (dset oid ?new db))"
    using st by (simp add: exec_claim_def set_status_def)
  obtain n st' where "sa = Spent n st'"
    using assms(2) open' same p spend by (cases sa) (auto simp: co_execute_def)
  moreover from this have "aps1 = aps'"
    using assms(2) open' same p spend by (auto simp: co_execute_def split: prod.splits bool.splits)
  ultimately show ?thesis
    using new plan p spend claim by (auto simp: co_execute_def split: prod.splits)
qed

section \<open>Witnesses\<close>

text \<open>A message to one recipient: prepared, granted by Ana, spent, claimed and sent.\<close>

definition mail_args :: prep_args where
  "mail_args = \<lparr>pa_connector = ''email'', pa_action = ''send'', pa_owner = ''u'', pa_payload = JStr ''hello'',
     pa_recipients = [''a@x''], pa_preview = ''p'', pa_key = ''k'', pa_ttl = 60, pa_approval_action = ''deliver''\<rparr>"

definition mail_digest :: "json \<Rightarrow> string" where
  "mail_digest v = (case v of JStr t \<Rightarrow> t | _ \<Rightarrow> [])"

definition mail_row :: co_row where
  "mail_row = new_row mail_args ''hello'' ''apr'' 0"

definition mail_plan :: plan where
  "mail_plan = \<lparr>pl_action = ''deliver'', pl_skill_id = [], pl_skill_version = [], pl_backend = [], pl_recipients = [''a@x''],
     pl_cost_units = None, pl_secret_names = [], pl_permissions = [], pl_output_kinds = [], pl_detail = ''digest:hello p''\<rparr>"

definition mail_card :: "ap_status \<Rightarrow> approval" where
  "mail_card st = \<lparr>ap_plan = mail_plan, ap_fingerprint = ''digest:hello p'', ap_status = st, ap_owner = ''u'', ap_requested_at = 0,
     ap_decided_at = (if st = APending then None else Some 1), ap_decided_by = (if st = APending then [] else ''ana''),
     ap_expires_at = Some 60, ap_uses_left = (if st = AConsumed then 0 else 1), ap_reason = []\<rparr>"

definition mail_aps :: "ap_status \<Rightarrow> ap_world" where
  "mail_aps st = \<lparr>aw_table = [(''apr'', mail_card st)], aw_issued = [(''apr'', 1)], aw_spent = (if st = AConsumed then [''apr''] else [])\<rparr>"

definition mail_world :: "co_row \<Rightarrow> ap_status \<Rightarrow> (nat, exec_task) dict \<Rightarrow> (string \<times> json) list \<Rightarrow> co_world" where
  "mail_world row st tasks runs = \<lparr>cw_rows = [(''cob'', row)], cw_aps = mail_aps st, cw_tasks = tasks, cw_runs = runs\<rparr>"

definition mail_sending :: co_row where
  "mail_sending = mail_row\<lparr>co_status := CoExecuting, co_attempts := 1\<rparr>"

lemma mail_prepared: "co_prepare mail_digest pl_detail mail_args ''cob'' ''apr'' 0 id ([], []) =
    (PrepDone ''cob'', [(''cob'', mail_row)], [(''apr'', mail_card APending)])"
  by code_simp

lemma mail_decided: "ap_step pl_detail (ODecide ''apr'' True ''ana'' [] 1 (mail_card APending)) (mail_aps APending) = mail_aps AGranted"
  by code_simp

lemma mail_opened: "exec_open ''cob'' ''u'' [(''cob'', mail_row)] = Inr mail_row" "row_plan mail_row = Some mail_plan"
  by code_simp+

lemma mail_spent: "ap_step pl_detail (OSpend ''apr'' (mail_card AGranted) mail_plan 2) (mail_aps AGranted) = mail_aps AConsumed"
  by code_simp

lemma mail_spend:
  "card_spend pl_detail ''apr'' (mail_card AGranted) mail_plan [(''apr'', mail_card AGranted)] \<noteq> None"
  "covers (mail_card AGranted) mail_plan 2 = Covered"
  by code_simp+

lemma mail_claimed: "exec_claim ''cob'' mail_row [(''cob'', mail_row)] = (True, [(''cob'', mail_sending)])"
  by code_simp

lemma mail_reachable:
  "co_reachable repr mail_digest pl_detail (mail_world mail_sending AConsumed [(0, Running ''cob'')] [(''cob'', JStr ''hello'')])"
proof -
  let ?R = "co_reachable repr mail_digest pl_detail"
  note empty = reach_empty [of repr mail_digest pl_detail]
  have "?R (mail_world mail_row APending [] [])"
    using reach_step [OF empty step_prepare, of "''apr''" mail_args "''cob''" 0 "PrepDone ''cob''"] mail_prepared
    by (simp add: empty_co_world_def empty_ap_world_def opened_def mail_world_def mail_aps_def mail_card_def)
  from reach_step [OF this step_approvals, of "ODecide ''apr'' True ''ana'' [] 1 (mail_card APending)"]
  have "?R (mail_world mail_row AGranted [] [])" by (simp add: mail_world_def mail_decided del: ap_step.simps)
  from reach_step [OF this step_see, of 0 "''cob''" "''u''" mail_row]
  have "?R (mail_world mail_row AGranted [(0, Seen ''cob'' mail_row)] [])" by (simp add: mail_world_def mail_opened)
  from reach_step [OF this step_consume, of 0 "''cob''" mail_row mail_plan "mail_card AGranted" 2]
  have "?R (mail_world mail_row AConsumed [(0, Holding ''cob'' mail_row)] [])"
    using mail_spend mail_opened mail_spent
    by (simp add: mail_world_def mail_aps_def mail_card_def mail_row_def new_row_def mail_args_def del: ap_step.simps)
  from reach_step [OF this step_claim, of 0 "''cob''" mail_row "[(''cob'', mail_sending)]"]
  have "?R (mail_world mail_sending AConsumed [(0, Claimed ''cob'' mail_row)] [])" by (simp add: mail_world_def mail_claimed)
  from reach_step [OF this step_run, of 0 "''cob''" mail_row]
  show ?thesis by (simp add: mail_world_def mail_row_def new_row_def mail_args_def)
qed

lemma effects_leave_once_and_granted_witness:
  "\<exists>row a. dget [(''cob'', mail_sending)] ''cob'' = Some row \<and> dget [(''apr'', mail_card AConsumed)] (co_approval row) = Some a
     \<and> ap_decided_by a \<noteq> [] \<and> pl_detail (ap_plan a) = plan_detail ''hello'' (co_preview row)"
proof -
  have "(''cob'', JStr ''hello'') \<in> set (cw_runs (mail_world mail_sending AConsumed [(0, Running ''cob'')] [(''cob'', JStr ''hello'')]))"
    by (simp add: mail_world_def)
  moreover have "co_approval mail_sending = ''apr''" by code_simp
  ultimately show ?thesis
    using effects_leave_once_and_granted [OF mail_reachable] by (fastforce simp: mail_world_def mail_aps_def mail_digest_def)
qed

definition demo_mail_run :: "json \<Rightarrow> run_result" where
  "demo_mail_run p = RunReturned (JObj [(''ok'', JBool True), (''external_ref'', JStr ''m1'')])"

definition mail_sent :: co_row where
  "mail_sent = mail_sending\<lparr>co_status := CoExecuted, co_ref := ''m1'', co_executed := Some 2\<rparr>"

lemma mail_executed:
  "co_execute (\<lambda>_. []) pl_detail ''cob'' ''u'' 2 demo_mail_run [id] id id ([(''cob'', mail_row)], [(''apr'', mail_card AGranted)])
     = (XDone ''m1'', [(''cob'', mail_sent)], [(''apr'', mail_card AConsumed)], [co_payload mail_row])"
  by code_simp

lemma execute_spends_before_it_runs_witness:
  "\<exists>row p k cur. exec_open ''cob'' ''u'' [(''cob'', mail_row)] = Inr row \<and> row_plan row = Some p
     \<and> dget (others (take k [id]) [(''apr'', mail_card AGranted)]) (co_approval row) = Some cur \<and> covers cur p 2 = Covered
     \<and> [(''apr'', mail_card AConsumed)] = dset (co_approval row) (spent_by cur) (others (take k [id]) [(''apr'', mail_card AGranted)])"
  using execute_spends_before_it_runs [OF mail_executed] unfolding list.case by blast

lemma outcome_decides_status_witness:
  "exec_settle (\<lambda>_. []) (RunReturned (JBool True)) 2 ''cob'' [(''cob'', mail_sending)] = (XAttributeError, [(''cob'', mail_sending)])
   \<and> co_cancel ''cob'' ''u'' id [(''cob'', mail_sending)] = (CAlready False (Some CoExecuting), [(''cob'', mail_sending)])"
proof -
  have sending: "dget [(''cob'', mail_sending)] ''cob'' = Some mail_sending" "co_status mail_sending = CoExecuting"
    "co_owner mail_sending = ''u''" "read_run (\<lambda>_. []) (JBool True) = ReadNoMapping"
    by code_simp+
  have settled: "exec_settle (\<lambda>_. []) (RunReturned (JBool True)) 2 ''cob'' [(''cob'', mail_sending)] = (XAttributeError, [(''cob'', mail_sending)])"
    by code_simp
  from outcome_decides_status [OF sending(1,2) this] settled sending(3,4) show ?thesis by simp
qed

lemma prepare_opens_one_row_per_key_witness:
  "fst (co_prepare mail_digest pl_detail (mail_args\<lparr>pa_owner := ''other''\<rparr>) ''cob2'' ''apr2'' 5 id
     ([(''cob'', mail_row)], [(''apr'', mail_card APending)])) = PrepIntegrityError"
proof -
  have keys: "pa_key mail_args \<noteq> []" "pa_key (mail_args\<lparr>pa_owner := ''other''\<rparr>) = pa_key mail_args"
    and owner: "pa_owner mail_args \<noteq> ''other''" by (simp_all add: mail_args_def)
  have plan: "build_plan (pa_approval_action (mail_args\<lparr>pa_owner := ''other''\<rparr>)) (mail_digest (pa_payload (mail_args\<lparr>pa_owner := ''other''\<rparr>)))
      (pa_recipients (mail_args\<lparr>pa_owner := ''other''\<rparr>)) (pa_preview (mail_args\<lparr>pa_owner := ''other''\<rparr>)) = Some mail_plan"
    by code_simp
  from prepare_opens_one_row_per_key [OF mail_prepared keys plan] owner show ?thesis by simp
qed

lemma exchanged_payload_is_sent_witness:
  "snd (snd (snd (co_execute (\<lambda>_. []) pl_detail ''cob'' ''u'' 2 demo_mail_run [id] id id
     ([(''cob'', mail_row\<lparr>co_payload := JStr ''other''\<rparr>)], [(''apr'', mail_card AGranted)])))) = [JStr ''other'']"
proof -
  have row: "dget [(''cob'', mail_row)] ''cob'' = Some mail_row" by simp
  from exchanged_payload_is_sent [OF row mail_executed, of "JStr ''other''"] show ?thesis by simp
qed

end
