(* ===== verification/Tool_Call_Assembler.thy ===== *)
theory Tool_Call_Assembler
  imports Py_Values
begin

text \<open>
  The tool call assembler, \<open>src/tool_call_assembler.py\<close>: streamed deltas, split anywhere (inside a
  UTF-8 sequence too) and interleaved over slots, put together into calls whose status says whether
  they may be executed.

  Text is a list of code points, bytes are numbers below 256. \<open>loads\<close> is \<open>json.loads\<close> with the hook
  that refuses duplicate keys; besides an undecodable text it can raise (an integer of more than
  4300 digits, a nesting too deep for the parser), which \<open>feed\<close> does not catch. The incremental
  UTF-8 decoder of the standard library is written out.
\<close>

section \<open>Text and bytes\<close>

type_synonym utext = "nat list"

definition text_space :: "nat \<Rightarrow> bool" where
  "text_space c \<longleftrightarrow> (9 \<le> c \<and> c \<le> 13) \<or> (28 \<le> c \<and> c \<le> 32) \<or> c \<in> {133, 160, 5760, 8232, 8233, 8239, 8287, 12288}
     \<or> (8192 \<le> c \<and> c \<le> 8202)"

definition text_strip :: "utext \<Rightarrow> utext" where
  "text_strip t = rev (dropWhile text_space (rev (dropWhile text_space t)))"

text \<open>\<open>encode("utf-8", errors="replace")\<close>: a surrogate becomes one question mark.\<close>

definition utf8_width :: "nat \<Rightarrow> nat" where
  "utf8_width c = (if c < 128 then 1 else if c < 2048 then 2 else if 55296 \<le> c \<and> c \<le> 57343 then 1 else if c < 65536 then 3 else 4)"

definition utf8_length :: "utext \<Rightarrow> nat" where
  "utf8_length t = sum_list (map utf8_width t)"

text \<open>A lead byte: how many continuation bytes follow, the range of the first, the value it carries.\<close>

definition utf8_lead :: "nat \<Rightarrow> (nat \<times> nat \<times> nat \<times> nat) option" where
  "utf8_lead b =
     (if b < 128 then Some (0, 0, 0, b)
      else if 194 \<le> b \<and> b \<le> 223 then Some (1, 128, 191, b - 192)
      else if b = 224 then Some (2, 160, 191, 0)
      else if b = 237 then Some (2, 128, 159, 13)
      else if 225 \<le> b \<and> b \<le> 239 then Some (2, 128, 191, b - 224)
      else if b = 240 then Some (3, 144, 191, 0)
      else if 241 \<le> b \<and> b \<le> 243 then Some (3, 128, 191, b - 240)
      else if b = 244 then Some (3, 128, 143, 4)
      else None)"

fun continuations :: "nat \<Rightarrow> nat \<Rightarrow> nat list \<Rightarrow> bool" where
  "continuations lo hi [] = True"
| "continuations lo hi (c # cs) = (lo \<le> c \<and> c \<le> hi \<and> continuations 128 191 cs)"

text \<open>\<open>decode(data, False)\<close>: the text and the bytes of an unfinished sequence kept for later, or an error.\<close>

function utf8_decode :: "nat list \<Rightarrow> (utext \<times> nat list) option" where
  "utf8_decode [] = Some ([], [])"
| "utf8_decode (b # bs) =
     (case utf8_lead b of
        None \<Rightarrow> None
      | Some (n, lo, hi, v) \<Rightarrow>
          if \<not> continuations lo hi (take n bs) then None
          else if length bs < n then Some ([], b # bs)
          else case utf8_decode (drop n bs) of
                 None \<Rightarrow> None
               | Some (t, rest) \<Rightarrow> Some (foldl (\<lambda>a c. 64 * a + (c - 128)) v (take n bs) # t, rest))"
  by pat_completeness auto
termination by (relation "measure length") auto

section \<open>Calls\<close>

datatype asm_status = AsmComplete | AsmIncomplete | AsmInvalid

datatype asm_reason = NoReason | BadUtf8 | TooLarge | DuplicateKey string | NotAnObject | TooDeep | NoArguments | NeverClosed

record asm_call =
  ac_index :: int
  ac_id :: string
  ac_name :: string
  ac_arguments :: utext
  ac_extra :: "json option"
  ac_status :: asm_status
  ac_reason :: asm_reason
  ac_parsed :: "json option"
  ac_last :: utext
  ac_terminal :: bool

definition new_call :: "int \<Rightarrow> asm_call" where
  "new_call i = \<lparr>ac_index = i, ac_id = [], ac_name = [], ac_arguments = [], ac_extra = None, ac_status = AsmIncomplete,
     ac_reason = NoReason, ac_parsed = None, ac_last = [], ac_terminal = False\<rparr>"

definition resolved_id :: "asm_call \<Rightarrow> string" where
  "resolved_id c = (if ac_id c \<noteq> [] then ac_id c else ''assembled:'' @ str_int (ac_index c))"

record legacy_dict =
  lg_id :: string
  lg_name :: string
  lg_arguments :: utext
  lg_extra :: "json option"

definition as_legacy_dict :: "asm_call \<Rightarrow> legacy_dict" where
  "as_legacy_dict c = \<lparr>lg_id = ac_id c, lg_name = ac_name c, lg_arguments = ac_arguments c, lg_extra = ac_extra c\<rparr>"

record assembler =
  as_calls :: "(int, asm_call) dict"
  as_pending :: "(int, nat list) dict"
  as_last_index :: int
  as_max_bytes :: nat
  as_max_depth :: nat

definition new_assembler :: "nat \<Rightarrow> nat \<Rightarrow> assembler" where
  "new_assembler max_bytes max_depth =
     \<lparr>as_calls = [], as_pending = [], as_last_index = -1, as_max_bytes = max_bytes, as_max_depth = max_depth\<rparr>"

text \<open>The value of \<open>function.arguments\<close>; absent and \<open>None\<close> do the same. An absent \<open>id\<close> or \<open>name\<close> is empty.\<close>

datatype chunk = NoChunk | TextChunk utext | ByteChunk "nat list"

record delta =
  dl_index :: "int option"
  dl_id :: string
  dl_name :: string
  dl_arguments :: chunk
  dl_extra :: "json option"

datatype load_result = Loaded json | Duplicate string | Undecodable | LoadRaises string

fun json_depth :: "nat \<Rightarrow> json \<Rightarrow> nat" where
  "json_depth cur (JObj d) = (if d = [] then cur + 1 else fold max (map (\<lambda>p. json_depth (cur + 1) (snd p)) d) 0)"
| "json_depth cur (JArr xs) = (if xs = [] then cur + 1 else fold max (map (json_depth (cur + 1)) xs) 0)"
| "json_depth cur v = cur"

definition slot_for :: "int option \<Rightarrow> bool \<Rightarrow> assembler \<Rightarrow> int" where
  "slot_for raw_index has_name s =
     (case raw_index of
        Some i \<Rightarrow> i
      | None \<Rightarrow> if has_name \<or> as_last_index s < 0 then (if as_calls s = [] then -1 else Max (set (dkeys (as_calls s)))) + 1
               else as_last_index s)"

definition append_text :: "nat \<Rightarrow> utext \<Rightarrow> asm_call \<Rightarrow> asm_call" where
  "append_text max_bytes t c =
     (if t = [] then c
      else
        let c1 = c\<lparr>ac_arguments := ac_arguments c @ t, ac_last := t\<rparr>
        in if max_bytes < utf8_length (ac_arguments c1)
           then c1\<lparr>ac_status := AsmInvalid, ac_reason := TooLarge, ac_terminal := True\<rparr> else c1)"

text \<open>The call and the decoder's unfinished bytes after a chunk.\<close>

definition append_arguments :: "nat \<Rightarrow> chunk \<Rightarrow> asm_call \<times> nat list \<Rightarrow> asm_call \<times> nat list" where
  "append_arguments max_bytes ch s =
     (let (c, pending) = s
      in case ch of
           NoChunk \<Rightarrow> (c, pending)
         | TextChunk t \<Rightarrow> (append_text max_bytes t c, pending)
         | ByteChunk bs \<Rightarrow>
             (case utf8_decode (pending @ bs) of
                None \<Rightarrow> (c\<lparr>ac_status := AsmInvalid, ac_reason := BadUtf8, ac_terminal := True\<rparr>, pending)
              | Some (t, rest) \<Rightarrow> (append_text max_bytes t c, rest)))"

definition assess :: "(utext \<Rightarrow> load_result) \<Rightarrow> nat \<Rightarrow> asm_call \<Rightarrow> string + asm_call" where
  "assess loads max_depth c =
     (let t = text_strip (ac_arguments c)
      in if t = [] then Inr (c\<lparr>ac_status := AsmIncomplete\<rparr>)
         else case loads t of
           LoadRaises e \<Rightarrow> Inl e
         | Duplicate e \<Rightarrow> Inr (c\<lparr>ac_status := AsmInvalid, ac_reason := DuplicateKey e, ac_terminal := True\<rparr>)
         | Undecodable \<Rightarrow> Inr (c\<lparr>ac_status := AsmIncomplete, ac_reason := NoReason\<rparr>)
         | Loaded v \<Rightarrow>
             (case v of
                JObj d \<Rightarrow>
                  if max_depth < json_depth 0 v
                  then Inr (c\<lparr>ac_status := AsmInvalid, ac_reason := TooDeep, ac_terminal := True\<rparr>)
                  else Inr (c\<lparr>ac_parsed := Some v, ac_status := AsmComplete, ac_reason := NoReason\<rparr>)
              | _ \<Rightarrow> Inr (c\<lparr>ac_status := AsmInvalid, ac_reason := NotAnObject, ac_terminal := True\<rparr>)))"

text \<open>What a delta says beside its arguments; \<open>d\<close> is not empty.\<close>

definition take_fields :: "delta \<Rightarrow> asm_call \<Rightarrow> asm_call" where
  "take_fields d c =
     c\<lparr>ac_last := [], ac_id := (if dl_id d \<noteq> [] then dl_id d else ac_id c),
       ac_extra := (case dl_extra d of Some x \<Rightarrow> if py_truth x then Some x else ac_extra c | None \<Rightarrow> ac_extra c),
       ac_name := (if dl_name d \<noteq> [] then dl_name d else ac_name c)\<rparr>"

text \<open>One delta for one slot: the exception raised or none, and the call and its pending bytes.\<close>

definition feed_call :: "(utext \<Rightarrow> load_result) \<Rightarrow> nat \<Rightarrow> nat \<Rightarrow> delta \<Rightarrow> asm_call \<times> nat list \<Rightarrow> string option \<times> asm_call \<times> nat list" where
  "feed_call loads max_bytes max_depth d s =
     (let c0 = take_fields d (fst s);
          (c, pending) = (if ac_terminal c0 then (c0, snd s) else append_arguments max_bytes (dl_arguments d) (c0, snd s))
      in if ac_terminal c then (None, c, pending)
         else case assess loads max_depth c of
                Inl e \<Rightarrow> (Some e, c, pending)
              | Inr c' \<Rightarrow> (None, c', pending))"

definition feed :: "(utext \<Rightarrow> load_result) \<Rightarrow> delta option \<Rightarrow> assembler \<Rightarrow> (string + asm_call option) \<times> assembler" where
  "feed loads delta s =
     (case delta of
        None \<Rightarrow> (Inr None, s)
      | Some d \<Rightarrow>
          let idx = slot_for (dl_index d) (dl_name d \<noteq> []) s;
              (err, c, pending) = feed_call loads (as_max_bytes s) (as_max_depth s) d
                (dget_or (as_calls s) idx (new_call idx), dget_or (as_pending s) idx []);
              s' = s\<lparr>as_last_index := idx, as_calls := dset idx c (as_calls s), as_pending := dset idx pending (as_pending s)\<rparr>
          in (case err of Some e \<Rightarrow> Inl e | None \<Rightarrow> Inr (Some c), s'))"

definition finalize_call :: "asm_call \<Rightarrow> asm_call" where
  "finalize_call c =
     (if ac_status c \<noteq> AsmIncomplete then c
      else c\<lparr>ac_status := AsmInvalid, ac_reason := (if text_strip (ac_arguments c) = [] then NoArguments else NeverClosed)\<rparr>)"

definition finalize :: "assembler \<Rightarrow> assembler" where
  "finalize s = s\<lparr>as_calls := map (\<lambda>(i, c). (i, finalize_call c)) (as_calls s)\<rparr>"

definition get_call :: "int \<Rightarrow> assembler \<Rightarrow> asm_call option" where
  "get_call i s = dget (as_calls s) i"

definition sorted_calls :: "assembler \<Rightarrow> asm_call list" where
  "sorted_calls s = map snd (sort_key fst (as_calls s))"

definition legacy_calls :: "assembler \<Rightarrow> legacy_dict list" where
  "legacy_calls s = map as_legacy_dict (sorted_calls s)"

definition has_calls :: "assembler \<Rightarrow> bool" where
  "has_calls s \<longleftrightarrow> as_calls s \<noteq> []"

section \<open>The decoder\<close>

lemma continuations_append:
  "continuations lo hi (a @ b) \<longleftrightarrow> continuations lo hi a \<and> (if a = [] then continuations lo hi b else continuations 128 191 b)"
  by (induction a arbitrary: lo hi) auto

lemma utf8_decode_append:
  "utf8_decode (a @ b) =
     (case utf8_decode a of None \<Rightarrow> None | Some (t, r) \<Rightarrow> map_option (\<lambda>(t', r'). (t @ t', r')) (utf8_decode (r @ b)))"
proof (induction a rule: utf8_decode.induct)
  case 1
  show ?case by (cases "utf8_decode b") auto
next
  case (2 c cs)
  show ?case
  proof (cases "utf8_lead c")
    case None
    then show ?thesis by simp
  next
    case (Some l)
    obtain n lo hi v where l: "l = (n, lo, hi, v)" by (cases l)
    show ?thesis
    proof (cases "length cs < n")
      case True
      show ?thesis
      proof (cases "continuations lo hi cs")
        case True
        have "utf8_decode (c # cs) = Some ([], c # cs)" using Some l True \<open>length cs < n\<close> by simp
        then show ?thesis by (simp add: option.map_ident case_prod_unfold del: utf8_decode.simps)
      next
        case False
        then have "\<not> continuations lo hi (take n (cs @ b))" using True by (simp add: continuations_append)
        then show ?thesis using Some l True False by simp
      qed
    next
      case False
      show ?thesis
      proof (cases "continuations lo hi (take n cs)")
        case True
        from "2.IH" [OF Some [unfolded l] refl refl refl] True False
        have IH: "utf8_decode (drop n cs @ b) = (case utf8_decode (drop n cs) of None \<Rightarrow> None
            | Some (t, r) \<Rightarrow> map_option (\<lambda>(t', r'). (t @ t', r')) (utf8_decode (r @ b)))" by simp
        show ?thesis using Some l True False
          by (cases "utf8_decode (drop n cs)") (auto simp: IH option.map_comp comp_def split: option.splits)
      qed (use Some l False in simp)
    qed
  qed
qed

lemma utf8_decode_append_Some:
  assumes "utf8_decode a = Some (t, r)"
  shows "utf8_decode (a @ b) = map_option (\<lambda>(t', r'). (t @ t', r')) (utf8_decode (r @ b))"
  using assms by (simp add: utf8_decode_append [of a b])

section \<open>Slots\<close>

definition slot :: "int \<Rightarrow> assembler \<Rightarrow> asm_call \<times> nat list" where
  "slot i s = (dget_or (as_calls s) i (new_call i), dget_or (as_pending s) i [])"

definition feed_at :: "(utext \<Rightarrow> load_result) \<Rightarrow> int \<times> delta \<Rightarrow> assembler \<Rightarrow> assembler" where
  "feed_at loads p s = snd (feed loads (Some ((snd p)\<lparr>dl_index := Some (fst p)\<rparr>)) s)"

lemma feed_call_index: "feed_call loads mb md (d\<lparr>dl_index := i\<rparr>) c = feed_call loads mb md d c"
proof -
  have "take_fields (d\<lparr>dl_index := i\<rparr>) c = take_fields d c" for c by (simp add: take_fields_def)
  then show ?thesis by (simp add: feed_call_def Let_def)
qed

lemma slot_feed_at:
  "slot i (feed_at loads (j, d) s) =
     (if i = j then snd (feed_call loads (as_max_bytes s) (as_max_depth s) d (slot j s)) else slot i s)"
  "as_max_bytes (feed_at loads p s) = as_max_bytes s" "as_max_depth (feed_at loads p s) = as_max_depth s"
  by (auto simp: feed_at_def feed_def slot_for_def feed_call_index slot_def Let_def split: prod.splits)

text \<open>
  Parallel calls do not disturb each other: however the deltas of several slots are interleaved,
  each slot ends as if its own deltas had arrived alone, in their order.
\<close>
theorem slots_are_independent:
  "slot i (fold (feed_at loads) ds s) =
     fold (\<lambda>p c. snd (feed_call loads (as_max_bytes s) (as_max_depth s) (snd p) c)) (filter (\<lambda>p. fst p = i) ds) (slot i s)"
proof (induction ds arbitrary: s)
  case (Cons p ds)
  obtain j d where p: "p = (j, d)" by (cases p)
  show ?case using Cons.IH [of "feed_at loads p s"] by (simp add: p slot_feed_at)
qed simp

section \<open>What a status promises\<close>

text \<open>A whole stream; an exception ends it.\<close>

fun feed_all :: "(utext \<Rightarrow> load_result) \<Rightarrow> delta list \<Rightarrow> assembler \<Rightarrow> string + assembler" where
  "feed_all loads [] s = Inr s"
| "feed_all loads (d # ds) s =
     (case feed loads (Some d) s of (Inl e, s') \<Rightarrow> Inl e | (Inr c, s') \<Rightarrow> feed_all loads ds s')"

definition call_ok :: "(utext \<Rightarrow> load_result) \<Rightarrow> nat \<Rightarrow> nat \<Rightarrow> asm_call \<Rightarrow> bool" where
  "call_ok loads max_bytes max_depth c \<longleftrightarrow>
     (ac_terminal c \<longrightarrow> ac_status c = AsmInvalid) \<and> (ac_status c = AsmInvalid \<longrightarrow> ac_reason c \<noteq> NoReason)
     \<and> (\<not> ac_terminal c \<longrightarrow> utf8_length (ac_arguments c) \<le> max_bytes)
     \<and> (ac_status c = AsmComplete \<longrightarrow> (\<exists>d. ac_parsed c = Some (JObj d) \<and> loads (text_strip (ac_arguments c)) = Loaded (JObj d)
           \<and> json_depth 0 (JObj d) \<le> max_depth))"

lemma call_ok_new: "call_ok loads mb md (new_call i)"
  by (simp add: call_ok_def new_call_def utf8_length_def)

lemma take_fields_kept [simp]:
  "ac_terminal (take_fields d c) = ac_terminal c" "ac_status (take_fields d c) = ac_status c"
  "ac_arguments (take_fields d c) = ac_arguments c" "ac_parsed (take_fields d c) = ac_parsed c" "ac_reason (take_fields d c) = ac_reason c"
  by (simp_all add: take_fields_def)

text \<open>Appending keeps the length bound, or ends the call.\<close>

definition bounded_call :: "nat \<Rightarrow> asm_call \<Rightarrow> bool" where
  "bounded_call max_bytes c \<longleftrightarrow> (if ac_terminal c then ac_status c = AsmInvalid \<and> ac_reason c \<noteq> NoReason else utf8_length (ac_arguments c) \<le> max_bytes)"

lemma append_text_bounded: "bounded_call mb c \<Longrightarrow> bounded_call mb (append_text mb t c)"
  by (cases "t = []"; cases "mb < utf8_length (ac_arguments c @ t)") (simp_all add: append_text_def bounded_call_def)

lemma append_bounded:
  assumes "bounded_call mb c"
  shows "bounded_call mb (fst (append_arguments mb ch (c, pending)))"
proof (cases ch)
  case (ByteChunk bs)
  have "bounded_call mb (c\<lparr>ac_status := AsmInvalid, ac_reason := BadUtf8, ac_terminal := True\<rparr>)" by (simp add: bounded_call_def)
  with ByteChunk append_text_bounded [OF assms] show ?thesis by (simp add: append_arguments_def split: option.split)
qed (simp_all add: append_arguments_def append_text_bounded assms)

lemma assess_Inr:
  assumes "assess loads md c = Inr c'"
  shows "ac_arguments c' = ac_arguments c"
    and "(ac_status c' = AsmIncomplete \<and> ac_terminal c' = ac_terminal c) \<or> (ac_status c' = AsmInvalid \<and> ac_terminal c' \<and> ac_reason c' \<noteq> NoReason)
      \<or> (ac_status c' = AsmComplete \<and> ac_terminal c' = ac_terminal c \<and> (\<exists>d. ac_parsed c' = Some (JObj d)
          \<and> loads (text_strip (ac_arguments c)) = Loaded (JObj d) \<and> json_depth 0 (JObj d) \<le> md))"
proof -
  have "ac_arguments c' = ac_arguments c \<and> ((ac_status c' = AsmIncomplete \<and> ac_terminal c' = ac_terminal c)
      \<or> (ac_status c' = AsmInvalid \<and> ac_terminal c' \<and> ac_reason c' \<noteq> NoReason)
      \<or> (ac_status c' = AsmComplete \<and> ac_terminal c' = ac_terminal c \<and> (\<exists>d. ac_parsed c' = Some (JObj d)
          \<and> loads (text_strip (ac_arguments c)) = Loaded (JObj d) \<and> json_depth 0 (JObj d) \<le> md)))" (is ?P)
  proof (cases "text_strip (ac_arguments c) = []")
    case True
    with assms have "c' = c\<lparr>ac_status := AsmIncomplete\<rparr>" by (simp add: assess_def)
    then show ?thesis by simp
  next
    case False
    show ?thesis
    proof (cases "loads (text_strip (ac_arguments c))")
      case (Loaded v)
      show ?thesis
      proof (cases "\<exists>d. v = JObj d")
        case True
        then obtain d where v: "v = JObj d" by blast
        from assms False Loaded have "c' = (if md < json_depth 0 (JObj d)
            then c\<lparr>ac_status := AsmInvalid, ac_reason := TooDeep, ac_terminal := True\<rparr>
            else c\<lparr>ac_parsed := Some (JObj d), ac_status := AsmComplete, ac_reason := NoReason\<rparr>)"
          by (simp add: assess_def v split: if_splits del: json_depth.simps)
        then show ?thesis using Loaded v by (simp del: json_depth.simps)
      next
        case no: False
        with assms False Loaded have "c' = c\<lparr>ac_status := AsmInvalid, ac_reason := NotAnObject, ac_terminal := True\<rparr>"
          by (cases v) (simp_all add: assess_def)
        then show ?thesis by simp
      qed
    next
      case (Duplicate e)
      with assms False have "c' = c\<lparr>ac_status := AsmInvalid, ac_reason := DuplicateKey e, ac_terminal := True\<rparr>" by (simp add: assess_def)
      then show ?thesis by simp
    next
      case Undecodable
      with assms False have "c' = c\<lparr>ac_status := AsmIncomplete, ac_reason := NoReason\<rparr>" by (simp add: assess_def)
      then show ?thesis by simp
    next
      case (LoadRaises e)
      with assms False show ?thesis by (simp add: assess_def)
    qed
  qed
  then show "ac_arguments c' = ac_arguments c"
    and "(ac_status c' = AsmIncomplete \<and> ac_terminal c' = ac_terminal c) \<or> (ac_status c' = AsmInvalid \<and> ac_terminal c' \<and> ac_reason c' \<noteq> NoReason)
      \<or> (ac_status c' = AsmComplete \<and> ac_terminal c' = ac_terminal c \<and> (\<exists>d. ac_parsed c' = Some (JObj d)
          \<and> loads (text_strip (ac_arguments c)) = Loaded (JObj d) \<and> json_depth 0 (JObj d) \<le> md))" by blast+
qed

lemma assess_ok:
  assumes "assess loads md c = Inr c'" "bounded_call mb c" "\<not> ac_terminal c"
  shows "call_ok loads mb md c'"
  unfolding call_ok_def using assess_Inr [OF assms(1)] assms(2,3) by (elim disjE) (simp_all add: bounded_call_def)

lemma feed_call_ok:
  assumes "feed_call loads mb md d (c, pending) = (None, c', pending')" "call_ok loads mb md c"
  shows "call_ok loads mb md c'"
proof -
  let ?c0 = "take_fields d c"
  let ?app = "if ac_terminal ?c0 then (?c0, pending) else append_arguments mb (dl_arguments d) (?c0, pending)"
  have b0: "bounded_call mb ?c0" using assms(2) by (auto simp: call_ok_def bounded_call_def)
  then have b: "bounded_call mb (fst ?app)" using append_bounded by auto
  show ?thesis
  proof (cases "ac_terminal (fst ?app)")
    case True
    then have "c' = fst ?app" using assms(1) by (auto simp: feed_call_def Let_def split: prod.splits)
    with True b show ?thesis by (simp add: call_ok_def bounded_call_def)
  next
    case False
    then have "assess loads md (fst ?app) = Inr c'"
      using assms(1) by (auto simp: feed_call_def Let_def split: prod.splits sum.splits)
    with b False show ?thesis by (intro assess_ok)
  qed
qed

definition calls_ok :: "(utext \<Rightarrow> load_result) \<Rightarrow> assembler \<Rightarrow> bool" where
  "calls_ok loads s \<longleftrightarrow> (\<forall>i c. dget (as_calls s) i = Some c \<longrightarrow> call_ok loads (as_max_bytes s) (as_max_depth s) c)"

lemma feed_ok:
  assumes "feed loads (Some d) s = (Inr c, s')" "calls_ok loads s"
  shows "calls_ok loads s'" "as_max_bytes s' = as_max_bytes s" "as_max_depth s' = as_max_depth s"
proof -
  let ?i = "slot_for (dl_index d) (dl_name d \<noteq> []) s"
  obtain err c' pending where res: "feed_call loads (as_max_bytes s) (as_max_depth s) d
      (dget_or (as_calls s) ?i (new_call ?i), dget_or (as_pending s) ?i []) = (err, c', pending)" by (metis prod_cases3)
  have s': "s' = s\<lparr>as_last_index := ?i, as_calls := dset ?i c' (as_calls s), as_pending := dset ?i pending (as_pending s)\<rparr>"
    and none: "err = None"
    using assms(1) res by (auto simp: feed_def Let_def split: option.splits)
  have "call_ok loads (as_max_bytes s) (as_max_depth s) (dget_or (as_calls s) ?i (new_call ?i))"
    using assms(2) call_ok_new by (auto simp: calls_ok_def dget_or_def split: option.splits)
  from feed_call_ok [OF res [unfolded none] this] assms(2) show "calls_ok loads s'" by (auto simp: calls_ok_def s')
  show "as_max_bytes s' = as_max_bytes s" "as_max_depth s' = as_max_depth s" by (simp_all add: s')
qed

lemma feed_all_ok:
  "feed_all loads ds s = Inr s' \<Longrightarrow> calls_ok loads s \<Longrightarrow>
     calls_ok loads s' \<and> as_max_bytes s' = as_max_bytes s \<and> as_max_depth s' = as_max_depth s"
proof (induction ds arbitrary: s)
  case (Cons d ds)
  then obtain c s1 where f: "feed loads (Some d) s = (Inr c, s1)" "feed_all loads ds s1 = Inr s'"
    by (auto split: prod.splits sum.splits)
  from feed_ok [OF f(1) Cons.prems(2)] Cons.IH [OF f(2)] show ?case by simp
qed simp

lemma dget_map_values: "dget (map (\<lambda>(k, v). (k, f v)) d) k = map_option f (dget d k)"
  by (induction d) auto

lemma finalize_ok: "call_ok loads mb md c \<Longrightarrow> call_ok loads mb md (finalize_call c)"
  by (auto simp: call_ok_def finalize_call_def)

text \<open>
  C24: After any stream that raised nothing, and after its end is declared, a call is complete only
  when its accumulated text, within the byte limit, loads as an object no deeper than allowed, and
  then its parsed arguments are that object; every other call is invalid.
\<close>
theorem complete_calls_are_whole:
  assumes "feed_all loads ds (new_assembler max_bytes max_depth) = Inr s" "get_call i (finalize s) = Some c"
  shows "if ac_status c = AsmComplete
    then \<exists>d. ac_parsed c = Some (JObj d) \<and> loads (text_strip (ac_arguments c)) = Loaded (JObj d)
       \<and> json_depth 0 (JObj d) \<le> max_depth \<and> utf8_length (ac_arguments c) \<le> max_bytes
       \<and> get_call i s = Some c
    else ac_status c = AsmInvalid \<and> ac_reason c \<noteq> NoReason"
proof -
  have new: "calls_ok loads (new_assembler max_bytes max_depth)" by (simp add: calls_ok_def new_assembler_def)
  from feed_all_ok [OF assms(1) new]
  have ok: "calls_ok loads s" "as_max_bytes s = max_bytes" "as_max_depth s = max_depth" by (simp_all add: new_assembler_def)
  obtain c0 where c0: "get_call i s = Some c0" "c = finalize_call c0"
    using assms(2) by (auto simp: get_call_def finalize_def dget_map_values)
  then have c0_ok: "call_ok loads max_bytes max_depth c0" using ok by (simp add: calls_ok_def get_call_def)
  show ?thesis
  proof (cases "ac_status c0 = AsmIncomplete")
    case True
    then show ?thesis by (simp add: c0(2) finalize_call_def)
  next
    case False
    then have "c = c0" by (simp add: c0(2) finalize_call_def)
    with c0(1) c0_ok False show ?thesis by (cases "ac_status c0") (auto simp: call_ok_def)
  qed
qed

section \<open>Chunks\<close>

text \<open>The deltas of one slot; an exception ends them.\<close>

fun feed_slot :: "(utext \<Rightarrow> load_result) \<Rightarrow> nat \<Rightarrow> nat \<Rightarrow> delta list \<Rightarrow> asm_call \<times> nat list \<Rightarrow> string + asm_call \<times> nat list" where
  "feed_slot loads mb md [] s = Inr s"
| "feed_slot loads mb md (d # ds) s =
     (case feed_call loads mb md d s of (Some e, s') \<Rightarrow> Inl e | (None, s') \<Rightarrow> feed_slot loads mb md ds s')"

lemma utf8_length_append [simp]: "utf8_length (a @ b) = utf8_length a + utf8_length b"
  by (simp add: utf8_length_def)

definition settled :: "utext \<Rightarrow> (string \<times> json) list \<Rightarrow> asm_call \<Rightarrow> bool" where
  "settled t d c \<longleftrightarrow> \<not> ac_terminal c
     \<and> (text_strip (ac_arguments c) = text_strip t \<longrightarrow> ac_status c = AsmComplete \<and> ac_parsed c = Some (JObj d))"

text \<open>What the grammar of JSON says of an object's text: no other prefix of it is JSON, or raises.\<close>

definition prefix_free :: "(utext \<Rightarrow> load_result) \<Rightarrow> utext \<Rightarrow> bool" where
  "prefix_free loads t \<longleftrightarrow>
     (\<forall>p q. t = p @ q \<longrightarrow> text_strip p \<noteq> [] \<longrightarrow> text_strip p \<noteq> text_strip t \<longrightarrow> loads (text_strip p) = Undecodable)"

lemma assess_settles:
  assumes "\<not> ac_terminal c" "t = ac_arguments c @ q" "loads (text_strip t) = Loaded (JObj d)" "json_depth 0 (JObj d) \<le> md"
    and "text_strip t \<noteq> []"
    and "prefix_free loads t"
  shows "\<exists>c'. assess loads md c = Inr c' \<and> settled t d c' \<and> ac_arguments c' = ac_arguments c"
proof (cases "text_strip (ac_arguments c) = text_strip t")
  case True
  then show ?thesis using assms(1,3,4,5) by (simp add: assess_def settled_def del: json_depth.simps)
next
  case False
  then show ?thesis
    using assms(1,2,6) unfolding prefix_free_def by (cases "text_strip (ac_arguments c) = []") (auto simp: assess_def settled_def)
qed

lemma chunk_step:
  assumes c: "settled t d c" "ac_arguments c = a"
    and dec: "utf8_decode (pending @ bs) = Some (b, rest)" "t = (a @ b) @ q"
    and whole: "loads (text_strip t) = Loaded (JObj d)" "json_depth 0 (JObj d) \<le> md" "utf8_length t \<le> mb" "text_strip t \<noteq> []"
    and only: "prefix_free loads t"
  shows "\<exists>c'. feed_call loads mb md (dl\<lparr>dl_arguments := ByteChunk bs\<rparr>) (c, pending) = (None, c', rest)
    \<and> settled t d c' \<and> ac_arguments c' = a @ b"
proof -
  let ?c0 = "take_fields (dl\<lparr>dl_arguments := ByteChunk bs\<rparr>) c"
  let ?c1 = "append_text mb b ?c0"
  have "utf8_length (a @ b) \<le> mb" using whole(3) unfolding dec(2) by (simp only: utf8_length_append)
  then have c1: "\<not> ac_terminal ?c1" "ac_arguments ?c1 = a @ b"
    using c by (auto simp: append_text_def settled_def Let_def)
  from assess_settles [OF c1(1) _ whole(1,2,4) only] dec(2) c1(2)
  obtain c' where "assess loads md ?c1 = Inr c'" "settled t d c'" "ac_arguments c' = a @ b" by auto
  then show ?thesis using c c1(1) dec(1) by (simp add: feed_call_def append_arguments_def settled_def)
qed

lemma chunks_settle:
  assumes "utf8_decode before = Some (a, pending)" "utf8_decode (before @ concat (map snd ps)) = Some (t, [])"
    and "settled t d c" "ac_arguments c = a"
    and whole: "loads (text_strip t) = Loaded (JObj d)" "json_depth 0 (JObj d) \<le> md" "utf8_length t \<le> mb" "text_strip t \<noteq> []"
    and only: "prefix_free loads t"
  shows "\<exists>c'. feed_slot loads mb md (map (\<lambda>(dl, bs). dl\<lparr>dl_arguments := ByteChunk bs\<rparr>) ps) (c, pending) = Inr (c', [])
    \<and> settled t d c' \<and> ac_arguments c' = t"
  using assms(1-4)
proof (induction ps arbitrary: before a pending c)
  case Nil
  then show ?case by simp
next
  case (Cons p ps)
  obtain dl bs where p: "p = (dl, bs)" by (cases p)
  have all: "utf8_decode ((before @ bs) @ concat (map snd ps)) = Some (t, [])" using Cons.prems(2) by (simp add: p)
  then obtain a' r where next_dec: "utf8_decode (before @ bs) = Some (a', r)"
    using utf8_decode_append [of "before @ bs" "concat (map snd ps)"] by (cases "utf8_decode (before @ bs)") auto
  then obtain b where b: "utf8_decode (pending @ bs) = Some (b, r)" "a' = a @ b"
    using utf8_decode_append_Some [OF Cons.prems(1), of bs] by auto
  obtain q where "t = a' @ q"
    using all utf8_decode_append_Some [OF next_dec, of "concat (map snd ps)"]
    by (cases "utf8_decode (r @ concat (map snd ps))") auto
  then have q: "t = (a @ b) @ q" using b(2) by simp
  obtain c' where c': "feed_call loads mb md (dl\<lparr>dl_arguments := ByteChunk bs\<rparr>) (c, pending) = (None, c', r)"
    "settled t d c'" "ac_arguments c' = a @ b"
    using chunk_step [OF Cons.prems(3,4) b(1) q whole only] by blast
  from Cons.IH [OF next_dec all c'(2)] c'(3) b(2) obtain c'' where
    "feed_slot loads mb md (map (\<lambda>(dl, bs). dl\<lparr>dl_arguments := ByteChunk bs\<rparr>) ps) (c', r) = Inr (c'', [])"
    "settled t d c''" "ac_arguments c'' = t" by blast
  with c'(1) show ?case by (auto simp: p)
qed

text \<open>
  C20: How the bytes of the arguments are cut does not matter: when the whole is UTF-8 for the text of
  an object that may be executed, and no other prefix of that text is JSON (as the grammar of JSON
  has it), then any chunks of it, cut inside characters too, end as the complete call with that text
  and that object, without an exception.
\<close>
theorem chunks_make_the_same_call:
  assumes "utf8_decode (concat (map snd ps)) = Some (t, [])" "loads (text_strip t) = Loaded (JObj d)" "text_strip t \<noteq> []"
    and "json_depth 0 (JObj d) \<le> max_depth" "utf8_length t \<le> max_bytes"
    and "prefix_free loads t"
  shows "\<exists>c. feed_slot loads max_bytes max_depth (map (\<lambda>(dl, bs). dl\<lparr>dl_arguments := ByteChunk bs\<rparr>) ps) (new_call i, []) = Inr (c, [])
    \<and> ac_status c = AsmComplete \<and> ac_parsed c = Some (JObj d) \<and> ac_arguments c = t"
proof -
  have "settled t d (new_call i)" "ac_arguments (new_call i) = []"
    using assms(3) by (auto simp: settled_def new_call_def text_strip_def)
  moreover have "utf8_decode [] = Some ([], [])" "utf8_decode ([] @ concat (map snd ps)) = Some (t, [])" using assms(1) by simp_all
  ultimately obtain c where "feed_slot loads max_bytes max_depth (map (\<lambda>(dl, bs). dl\<lparr>dl_arguments := ByteChunk bs\<rparr>) ps) (new_call i, []) = Inr (c, [])"
    "settled t d c" "ac_arguments c = t"
    using chunks_settle [of "[]" "[]" "[]" ps t d "new_call i" loads max_depth max_bytes] assms(2-6) by blast
  then show ?thesis by (auto simp: settled_def)
qed

text \<open>
  A delta raises exactly when the loader raises on the accumulated text (an integer of more
  than 4300 digits, a nesting beyond the parser's own limit): neither is caught, so the depth
  ceiling of the assembler never sees them, and the call keeps the status it had before.
\<close>
theorem feed_raises_what_loads_raises:
  assumes "slot (slot_for (dl_index d) (dl_name d \<noteq> []) s) s = (c, [])" "dl_arguments d = TextChunk t"
    and "\<not> ac_terminal c" "t \<noteq> []" "utf8_length (ac_arguments c @ t) \<le> as_max_bytes s" "text_strip (ac_arguments c @ t) \<noteq> []"
  shows "(fst (feed loads (Some d) s) = Inl e \<longleftrightarrow> loads (text_strip (ac_arguments c @ t)) = LoadRaises e)
    \<and> (if fst (feed loads (Some d) s) = Inl e
       then map_option ac_status (get_call (slot_for (dl_index d) (dl_name d \<noteq> []) s) (snd (feed loads (Some d) s))) = Some (ac_status c)
       else True)"
proof -
  let ?c1 = "append_text (as_max_bytes s) t (take_fields d c)"
  have c1: "\<not> ac_terminal ?c1" "ac_arguments ?c1 = ac_arguments c @ t" "ac_status ?c1 = ac_status c"
    using assms(3,4,5) by (simp_all add: append_text_def del: utf8_length_append)
  have call: "feed_call loads (as_max_bytes s) (as_max_depth s) d (c, []) =
      (case assess loads (as_max_depth s) ?c1 of Inl e \<Rightarrow> (Some e, ?c1, []) | Inr c' \<Rightarrow> (None, c', []))"
    using c1(1) assms(2,3) by (simp add: feed_call_def append_arguments_def Let_def)
  have raises: "assess loads (as_max_depth s) ?c1 = Inl e \<longleftrightarrow> loads (text_strip (ac_arguments c @ t)) = LoadRaises e"
    using assms(6) by (simp add: assess_def c1(2) split: load_result.split json.split)
  have c: "dget_or (as_calls s) i (new_call i) = c" "dget_or (as_pending s) i [] = []"
    if "i = slot_for (dl_index d) (dl_name d \<noteq> []) s" for i
    using assms(1) that by (simp_all add: slot_def)
  show ?thesis
    using raises c1(3) c [OF refl] call
    by (cases "assess loads (as_max_depth s) ?c1") (simp_all add: feed_def Let_def get_call_def)
qed

section \<open>Witnesses\<close>

text \<open>The object with one member whose name is a two-byte character, cut inside it.\<close>

definition stream_text :: utext where
  "stream_text = [123, 34, 233, 34, 58, 49, 125]"

definition stream_loads :: "utext \<Rightarrow> load_result" where
  "stream_loads t = (if t = stream_text then Loaded (JObj [([CHR 0xE9], JInt 1)])
     else if t = [91] then LoadRaises ''RecursionError'' else Undecodable)"

definition stream_delta :: delta where
  "stream_delta = \<lparr>dl_index = Some 0, dl_id = ''c1'', dl_name = ''f'', dl_arguments = NoChunk, dl_extra = None\<rparr>"

definition stream_call :: asm_call where
  "stream_call = \<lparr>ac_index = 0, ac_id = ''c1'', ac_name = ''f'', ac_arguments = stream_text, ac_extra = None, ac_status = AsmComplete,
     ac_reason = NoReason, ac_parsed = Some (JObj [([CHR 0xE9], JInt 1)]), ac_last = [34, 58, 49, 125], ac_terminal = False\<rparr>"

lemma stream_strip: "text_strip stream_text = stream_text" "text_strip [123, 34, 233] = [123, 34, 233]" "text_strip [91] = [91]"
  by (simp_all add: text_strip_def stream_text_def text_space_def)

lemma stream_text_nonempty [simp]: "stream_text \<noteq> []"
  by (simp add: stream_text_def)

lemma stream_width: "utf8_length stream_text = 8" "utf8_length [123, 34, 233] = 4" "utf8_length [91] = 1"
  by (simp_all add: utf8_length_def utf8_width_def stream_text_def)

lemma stream_loaded:
  "stream_loads stream_text = Loaded (JObj [([CHR 0xE9], JInt 1)])" "stream_loads [123, 34, 233] = Undecodable"
  "stream_loads [91] = LoadRaises ''RecursionError''"
  by (simp_all add: stream_loads_def stream_text_def)

lemma stream_parts: "[123, 34, 233, 34, 58, 49, 125] = stream_text"
  by (simp add: stream_text_def)

definition stream_state :: assembler where
  "stream_state = \<lparr>as_calls = [(0, stream_call)], as_pending = [(0, [])], as_last_index = 0, as_max_bytes = 100, as_max_depth = 64\<rparr>"

lemma stream_run:
  "feed_all stream_loads [stream_delta\<lparr>dl_arguments := TextChunk [123, 34, 233]\<rparr>, stream_delta\<lparr>dl_arguments := TextChunk [34, 58, 49, 125]\<rparr>]
     (new_assembler 100 64) = Inr stream_state"
  by (simp add: feed_def feed_call_def slot_for_def stream_delta_def new_assembler_def new_call_def take_fields_def append_arguments_def
      append_text_def assess_def stream_strip stream_width stream_loaded stream_parts dget_or_def stream_state_def stream_call_def Let_def
      del: utf8_length_append)

lemma complete_calls_are_whole_witness:
  "\<exists>d. ac_parsed stream_call = Some (JObj d) \<and> stream_loads (text_strip (ac_arguments stream_call)) = Loaded (JObj d)"
proof -
  have status: "ac_status stream_call = AsmComplete" by (simp add: stream_call_def)
  then have "get_call 0 (finalize stream_state) = Some stream_call"
    by (simp add: stream_state_def finalize_def get_call_def finalize_call_def)
  from complete_calls_are_whole [OF stream_run this] status show ?thesis by (simp del: json_depth.simps) blast
qed

lemma chunks_make_the_same_call_witness:
  "\<exists>c. feed_slot stream_loads 100 64 [stream_delta\<lparr>dl_arguments := ByteChunk [123, 34, 195]\<rparr>, stream_delta\<lparr>dl_arguments := ByteChunk [169, 34, 58, 49, 125]\<rparr>]
      (new_call 0, []) = Inr (c, []) \<and> ac_status c = AsmComplete \<and> ac_arguments c = stream_text"
proof -
  let ?ps = "[(stream_delta, [123, 34, 195]), (stream_delta, [169, 34, 58, 49, 125])]"
  have decoded: "utf8_decode (concat (map snd ?ps)) = Some (stream_text, [])" by (simp add: utf8_lead_def stream_text_def)
  have loaded: "stream_loads (text_strip stream_text) = Loaded (JObj [([CHR 0xE9], JInt 1)])" "text_strip stream_text \<noteq> []"
    by (simp add: stream_strip stream_loaded) (simp add: stream_strip)
  have bounds: "json_depth 0 (JObj [([CHR 0xE9], JInt 1)]) \<le> 64" "utf8_length stream_text \<le> 100" by (simp_all add: stream_width)
  have "text_strip p \<noteq> [91]" if "stream_text = p @ q" for p q
  proof
    assume "text_strip p = [91]"
    then have "91 \<in> set p" unfolding text_strip_def
      by (metis in_set_conv_decomp set_rev set_dropWhileD append_Nil)
    then have "91 \<in> set (p @ q)" by simp
    with that have "91 \<in> set stream_text" by metis
    then show False by (simp add: stream_text_def)
  qed
  then have "prefix_free stream_loads stream_text" using stream_strip(1) by (auto simp: prefix_free_def stream_loads_def)
  from chunks_make_the_same_call [OF decoded loaded bounds this, of 0] show ?thesis by auto
qed

lemma feed_raises_what_loads_raises_witness:
  "fst (feed stream_loads (Some (stream_delta\<lparr>dl_arguments := TextChunk [91]\<rparr>)) (new_assembler 100 64)) = Inl ''RecursionError''"
proof -
  let ?d = "stream_delta\<lparr>dl_arguments := TextChunk [91]\<rparr>" and ?s = "new_assembler 100 64"
  have facts: "slot (slot_for (dl_index ?d) (dl_name ?d \<noteq> []) ?s) ?s = (new_call 0, [])" "dl_arguments ?d = TextChunk [91]"
    "\<not> ac_terminal (new_call 0)" "[91] \<noteq> ([] :: nat list)" "utf8_length (ac_arguments (new_call 0) @ [91]) \<le> as_max_bytes ?s"
    "text_strip (ac_arguments (new_call 0) @ [91]) \<noteq> []"
    by (simp_all add: slot_def slot_for_def stream_delta_def new_assembler_def new_call_def dget_or_def stream_width stream_strip)
  have "stream_loads (text_strip (ac_arguments (new_call 0) @ [91])) = LoadRaises ''RecursionError''"
    by (simp add: new_call_def stream_strip stream_loaded)
  with feed_raises_what_loads_raises [OF facts, of stream_loads "''RecursionError''"] show ?thesis by blast
qed

end
