(* ===== verification/Toon.thy ===== *)
theory Toon
  imports Py_Values
begin

text \<open>
  TOON, \<open>src/toon.py\<close>: the line-oriented notation for payloads handed to a coordinating model; encoder
  and decoder of JSON values.

  A line is its level (two spaces each) and its text; positions in a text are its suffixes. \<open>frepr\<close> and
  \<open>fread\<close> print and read floats, \<open>repr\<close> prints a container that is nested too deep. The regular
  expressions are written out; strings are 8-bit. Values are JSON trees: non-text keys, other objects
  and cycles, which the encoder degrades to text, are left out, and so are Python's own recursion limit
  and its refusal to print an integer of more than 4300 digits.
\<close>

section \<open>Scalars\<close>

definition dquote :: char where "dquote = char_of (34::nat)"
definition backslash :: char where "backslash = char_of (92::nat)"
definition tabulator :: char where "tabulator = char_of (9::nat)"
definition creturn :: char where "creturn = char_of (13::nat)"

definition toon_max_depth :: nat where "toon_max_depth = 64"

definition key_forbidden :: "string" where
  "key_forbidden = '':.[]{},#'' @ [dquote, newline, creturn, tabulator]"

definition is_scalar :: "json \<Rightarrow> bool" where
  "is_scalar v = (case v of JArr xs \<Rightarrow> False | JObj d \<Rightarrow> False | _ \<Rightarrow> True)"

definition bare_key_ok :: "string \<Rightarrow> bool" where
  "bare_key_ok k \<longleftrightarrow> k \<noteq> [] \<and> py_strip k = k \<and> list_all (\<lambda>c. c \<notin> set key_forbidden) k"

text \<open>\<open>^-?\d+$\<close> and \<open>^-?(\d+\.\d*|\.\d+|\d+)([eE][+-]?\d+)?$\<close>\<close>

definition digits :: "string \<Rightarrow> bool" where
  "digits t \<longleftrightarrow> t \<noteq> [] \<and> list_all is_digit t"

definition drop_sign :: "string \<Rightarrow> string \<Rightarrow> string" where
  "drop_sign signs t = (case t of [] \<Rightarrow> [] | c # r \<Rightarrow> if c \<in> set signs then r else t)"

definition int_re :: "string \<Rightarrow> bool" where
  "int_re t = digits (drop_sign ''-'' t)"

definition exponent_re :: "string \<Rightarrow> bool" where
  "exponent_re t = (case t of [] \<Rightarrow> True | c # r \<Rightarrow> c \<in> set ''eE'' \<and> digits (drop_sign ''+-'' r))"

definition float_re :: "string \<Rightarrow> bool" where
  "float_re t =
     (let r = drop_sign ''-'' t; whole = takeWhile is_digit r; after = dropWhile is_digit r
      in case after of
           c # f \<Rightarrow> if c = CHR ''.'' then (whole \<noteq> [] \<or> takeWhile is_digit f \<noteq> []) \<and> exponent_re (dropWhile is_digit f)
                   else whole \<noteq> [] \<and> exponent_re after
         | [] \<Rightarrow> whole \<noteq> [])"

definition reserved_scalars :: "string list" where
  "reserved_scalars = [''null'', ''true'', ''false'', ''[]'', ''{}'']"

definition bare_value_ok :: "string \<Rightarrow> bool" where
  "bare_value_ok t \<longleftrightarrow> t \<noteq> [] \<and> py_strip t = t \<and> hd t \<noteq> dquote \<and> last t \<noteq> CHR '':'' \<and> \<not> starts_with t ''- ''
     \<and> t \<notin> set reserved_scalars \<and> \<not> contains t '': '' \<and> CHR ''#'' \<notin> set t \<and> newline \<notin> set t \<and> creturn \<notin> set t
     \<and> tabulator \<notin> set t \<and> \<not> int_re t \<and> \<not> float_re t"

definition bare_cell_ok :: "string \<Rightarrow> bool" where
  "bare_cell_ok t \<longleftrightarrow> CHR '','' \<notin> set t \<and> bare_value_ok t"

definition escaped :: "char \<Rightarrow> string" where
  "escaped c =
     (if c = backslash then [backslash, backslash] else if c = dquote then [backslash, dquote]
      else if c = newline then [backslash, CHR ''n''] else if c = creturn then [backslash, CHR ''r'']
      else if c = tabulator then [backslash, CHR ''t''] else [c])"

definition toon_quote :: "string \<Rightarrow> string" where
  "toon_quote t = dquote # concat (map escaped t) @ [dquote]"

definition key_text :: "string \<Rightarrow> string" where
  "key_text k = (if bare_key_ok k then k else toon_quote k)"

definition text_scalar :: "bool \<Rightarrow> string \<Rightarrow> string" where
  "text_scalar cell t = (if (if cell then bare_cell_ok t else bare_value_ok t) then t else toon_quote t)"

fun toon_scalar :: "(pyfloat \<Rightarrow> string) \<Rightarrow> bool \<Rightarrow> json \<Rightarrow> string" where
  "toon_scalar frepr cell JNull = ''null''"
| "toon_scalar frepr cell (JBool b) = (if b then ''true'' else ''false'')"
| "toon_scalar frepr cell (JInt i) = str_int i"
| "toon_scalar frepr cell (JFlt x) = (case x of Fin r \<Rightarrow> frepr x | _ \<Rightarrow> toon_quote (frepr x))"
| "toon_scalar frepr cell (JStr t) = text_scalar cell t"
| "toon_scalar frepr cell v = []"

section \<open>Blocks\<close>

definition row_of :: "json \<Rightarrow> (string, json) dict" where
  "row_of v = (case v of JObj d \<Rightarrow> d | _ \<Rightarrow> [])"

definition is_row :: "string list \<Rightarrow> json \<Rightarrow> bool" where
  "is_row cols v = (case v of JObj d \<Rightarrow> set (dkeys d) = set cols \<and> list_all (\<lambda>p. is_scalar (snd p)) d | _ \<Rightarrow> False)"

definition table_columns :: "json list \<Rightarrow> string list option" where
  "table_columns xs =
     (case xs of
        JObj d # more \<Rightarrow>
          if more \<noteq> [] \<and> d \<noteq> [] \<and> list_all bare_key_ok (dkeys d) \<and> distinct (dkeys d) \<and> list_all (is_row (dkeys d)) xs
          then Some (dkeys d) else None
      | _ \<Rightarrow> None)"

fun fold_path :: "nat \<Rightarrow> string list \<Rightarrow> json \<Rightarrow> string list \<times> json" where
  "fold_path depth path (JObj [(k, v)]) =
     (if bare_key_ok (last path) \<and> depth + length path < toon_max_depth \<and> bare_key_ok k
      then fold_path depth (path @ [k]) v else (path, JObj [(k, v)]))"
| "fold_path depth path v = (path, v)"

fun join_with :: "char \<Rightarrow> string list \<Rightarrow> string" where
  "join_with c [] = []"
| "join_with c [t] = t"
| "join_with c (t # ts) = t @ c # join_with c ts"

type_synonym toon_line = "nat \<times> string"

definition path_head :: "string list \<Rightarrow> string" where
  "path_head path = (if 1 < length path then join_with CHR ''.'' path else key_text (hd path))"

definition table_row :: "(pyfloat \<Rightarrow> string) \<Rightarrow> string list \<Rightarrow> json \<Rightarrow> string" where
  "table_row frepr cols row = join_with CHR '','' (map (\<lambda>c. toon_scalar frepr True (dget_or (row_of row) c JNull)) cols)"

fun json_weight :: "json \<Rightarrow> nat" where
  "json_weight (JObj d) = 1 + sum_list (map (\<lambda>p. 1 + json_weight (snd p)) d)"
| "json_weight (JArr xs) = 1 + sum_list (map (\<lambda>x. 1 + json_weight x) xs)"
| "json_weight v = 1"

lemma fold_path_weight: "json_weight (snd (fold_path depth path v)) \<le> json_weight v"
  by (induction depth path v rule: fold_path.induct) auto

function (sequential)
  emit_mapping :: "(pyfloat \<Rightarrow> string) \<Rightarrow> (json \<Rightarrow> string) \<Rightarrow> (string \<times> json) list \<Rightarrow> nat \<Rightarrow> nat \<Rightarrow> toon_line list"
  and emit_pair :: "(pyfloat \<Rightarrow> string) \<Rightarrow> (json \<Rightarrow> string) \<Rightarrow> string \<Rightarrow> json \<Rightarrow> nat \<Rightarrow> nat \<Rightarrow> toon_line list"
  and emit_sequence :: "(pyfloat \<Rightarrow> string) \<Rightarrow> (json \<Rightarrow> string) \<Rightarrow> json list \<Rightarrow> nat \<Rightarrow> nat \<Rightarrow> toon_line list"
where
  "emit_mapping frepr repr [] level depth = []"
| "emit_mapping frepr repr ((k, v) # d) level depth =
     emit_pair frepr repr (path_head (fst (fold_path depth [k] v))) (snd (fold_path depth [k] v)) level
       (depth + length (fst (fold_path depth [k] v)) - 1)
     @ emit_mapping frepr repr d level depth"
| "emit_pair frepr repr head (JObj d) level depth =
     (if toon_max_depth \<le> depth then [(level, head @ '': '' @ text_scalar False (repr (JObj d)))]
      else if d = [] then [(level, head @ '': {}'')]
      else (level, head @ '':'') # emit_mapping frepr repr d (level + 1) (depth + 1))"
| "emit_pair frepr repr head (JArr xs) level depth =
     (if toon_max_depth \<le> depth then [(level, head @ '': '' @ text_scalar False (repr (JArr xs)))]
      else if xs = [] then [(level, head @ '': []'')]
      else case table_columns xs of
             Some cols \<Rightarrow>
               (level, head @ ''['' @ str_nat (length xs) @ '']{'' @ join_with CHR '','' cols @ ''}:'')
               # map (\<lambda>row. (level + 1, table_row frepr cols row)) xs
           | None \<Rightarrow> (level, head @ '':'') # emit_sequence frepr repr xs (level + 1) (depth + 1))"
| "emit_pair frepr repr head v level depth = [(level, head @ '': '' @ toon_scalar frepr False v)]"
| "emit_sequence frepr repr [] level depth = []"
| "emit_sequence frepr repr (JObj d # xs) level depth =
     (if toon_max_depth \<le> depth then [(level, ''- '' @ text_scalar False (repr (JObj d)))]
      else if d = [] then [(level, ''- {}'')]
      else (level, ''-'') # emit_mapping frepr repr d (level + 1) (depth + 1))
     @ emit_sequence frepr repr xs level depth"
| "emit_sequence frepr repr (JArr ys # xs) level depth =
     (if toon_max_depth \<le> depth then [(level, ''- '' @ text_scalar False (repr (JArr ys)))]
      else if ys = [] then [(level, ''- []'')]
      else (level, ''-'') # emit_sequence frepr repr ys (level + 1) (depth + 1))
     @ emit_sequence frepr repr xs level depth"
| "emit_sequence frepr repr (v # xs) level depth =
     (level, ''- '' @ toon_scalar frepr False v) # emit_sequence frepr repr xs level depth"
  by pat_completeness auto

termination
  by (relation "measure (\<lambda>s. case s of
        Inl (frepr, repr, d, level, depth) \<Rightarrow> sum_list (map (\<lambda>p. 1 + json_weight (snd p)) d)
      | Inr (Inl (frepr, repr, head, v, level, depth)) \<Rightarrow> json_weight v
      | Inr (Inr (frepr, repr, xs, level, depth)) \<Rightarrow> sum_list (map (\<lambda>x. 1 + json_weight x) xs))")
     (auto simp: le_imp_less_Suc trans_le_add1 fold_path_weight)

definition root_scalar :: "(pyfloat \<Rightarrow> string) \<Rightarrow> json \<Rightarrow> string" where
  "root_scalar frepr v =
     (let t = toon_scalar frepr False v
      in if take 1 t \<noteq> [dquote] \<and> CHR '':'' \<in> set t
         then toon_quote (case v of JStr s \<Rightarrow> s | _ \<Rightarrow> py_str (\<lambda>w. toon_scalar frepr False w) v) else t)"

definition toon_lines :: "(pyfloat \<Rightarrow> string) \<Rightarrow> (json \<Rightarrow> string) \<Rightarrow> json \<Rightarrow> toon_line list" where
  "toon_lines frepr repr v =
     (case v of
        JObj d \<Rightarrow> if d = [] then [(0, ''{}'')] else emit_mapping frepr repr d 0 0
      | JArr xs \<Rightarrow> if xs = [] then [(0, ''[]'')] else emit_sequence frepr repr xs 0 0
      | _ \<Rightarrow> [(0, root_scalar frepr v)])"

definition render_line :: "int \<Rightarrow> toon_line \<Rightarrow> string" where
  "render_line indent l =
     (let line = replicate (2 * fst l) CHR '' '' @ snd l in if line = [] then [] else replicate (nat (max 0 indent)) CHR '' '' @ line)"

definition toon_encode :: "(pyfloat \<Rightarrow> string) \<Rightarrow> (json \<Rightarrow> string) \<Rightarrow> int \<Rightarrow> json \<Rightarrow> string" where
  "toon_encode frepr repr indent v = join_with newline (map (render_line indent) (toon_lines frepr repr v))"

section \<open>Reading\<close>

definition unescaped :: "char \<Rightarrow> char" where
  "unescaped c = (if c = CHR ''n'' then newline else if c = CHR ''t'' then tabulator else if c = CHR ''r'' then creturn else c)"

text \<open>The text after an opening quote: the value, and what follows the closing quote.\<close>

fun read_to_quote :: "string \<Rightarrow> string \<Rightarrow> (string \<times> string) option" where
  "read_to_quote buf [] = None"
| "read_to_quote buf (c # cs) =
     (if c = backslash then (case cs of [] \<Rightarrow> None | e # es \<Rightarrow> read_to_quote (buf @ [unescaped e]) es)
      else if c = dquote then Some (buf, cs) else read_to_quote (buf @ [c]) cs)"

definition read_quoted :: "string \<Rightarrow> (string \<times> string) option" where
  "read_quoted t = (case t of [] \<Rightarrow> None | c # cs \<Rightarrow> if c = dquote then read_to_quote [] cs else None)"

lemma read_to_quote_shorter: "read_to_quote buf t = Some (v, rest) \<Longrightarrow> length rest < length t"
  by (induction buf t rule: read_to_quote.induct) (fastforce split: if_splits list.splits)+

lemma read_quoted_shorter: "read_quoted t = Some (v, rest) \<Longrightarrow> length rest < length t"
  by (auto simp: read_quoted_def split: list.splits if_splits dest: read_to_quote_shorter)

definition parse_scalar :: "(string \<Rightarrow> pyfloat option) \<Rightarrow> string \<Rightarrow> json" where
  "parse_scalar fread text0 =
     (let t = py_strip text0
      in if t = [] then JStr []
         else if hd t = dquote
           then (case read_quoted t of Some (v, rest) \<Rightarrow> if rest = [] then JStr v else JStr t | None \<Rightarrow> JStr t)
         else if t = ''null'' then JNull
         else if t = ''true'' then JBool True
         else if t = ''false'' then JBool False
         else if t = ''[]'' then JArr []
         else if t = ''{}'' then JObj []
         else if int_re t then (case int_of_text t of Some i \<Rightarrow> JInt i | None \<Rightarrow> JStr t)
         else if float_re t then (case fread t of Some x \<Rightarrow> JFlt x | None \<Rightarrow> JStr t)
         else JStr t)"

lemma after_comma_shorter: "x \<in> set t \<Longrightarrow> length (tl (dropWhile (\<lambda>c. c \<noteq> x) t)) < length t"
  by (induction t) auto

lemma after_comma_shorter': "x \<in> set t \<Longrightarrow> length t < n \<Longrightarrow> length (tl (dropWhile (\<lambda>c. c \<noteq> x) t)) < n"
  using after_comma_shorter by (rule order_less_trans)

function split_cells :: "string \<Rightarrow> string list" where
  "split_cells line =
     (case read_quoted line of
        Some (v, rest) \<Rightarrow>
          let cell = take (length line - length rest) line; after = dropWhile (\<lambda>c. c \<noteq> CHR '','') rest
          in if after = [] then [cell] else cell # split_cells (tl after)
      | None \<Rightarrow>
          let after = dropWhile (\<lambda>c. c \<noteq> CHR '','') line
          in if after = [] then [line] else takeWhile (\<lambda>c. c \<noteq> CHR '','') line # split_cells (tl after))"
  by pat_completeness auto

termination
  by (relation "measure length")
     (auto dest!: read_quoted_shorter simp: after_comma_shorter after_comma_shorter' simp del: length_tl)

declare split_cells.simps [simp del]

fun split_on :: "char \<Rightarrow> string \<Rightarrow> string list" where
  "split_on c [] = [[]]"
| "split_on c (x # xs) = (if x = c then [] # split_on c xs else (case split_on c xs of [] \<Rightarrow> [[x]] | t # ts \<Rightarrow> (x # t) # ts))"

text \<open>\<open>^(.+)\[(\d+)\]\{(.*)\}$\<close>: what follows the name, and the split at the last place where that fits.\<close>

definition table_tail :: "string \<Rightarrow> string option" where
  "table_tail t =
     (case t of
        [] \<Rightarrow> None
      | c # r \<Rightarrow>
          if c \<noteq> CHR ''['' \<or> takeWhile is_digit r = [] then None
          else case dropWhile is_digit r of
                 c1 # c2 # body \<Rightarrow>
                   if c1 = CHR '']'' \<and> c2 = CHR ''{'' \<and> body \<noteq> [] \<and> last body = CHR ''}'' then Some (butlast body) else None
               | _ \<Rightarrow> None)"

definition table_re :: "string \<Rightarrow> (string \<times> string) option" where
  "table_re head =
     map_option (\<lambda>n. (take n head, the (table_tail (drop n head))))
       (find (\<lambda>n. table_tail (drop n head) \<noteq> None) (rev [1..<length head]))"

definition drop_space :: "string \<Rightarrow> string" where
  "drop_space t = (case t of [] \<Rightarrow> [] | c # r \<Rightarrow> if c = CHR '' '' then r else t)"

definition split_head :: "string \<Rightarrow> (string list \<times> string \<times> string list option) option" where
  "split_head line =
     (if take 1 line = [dquote]
      then (case read_quoted line of
              None \<Rightarrow> None
            | Some (key, rest) \<Rightarrow>
                if rest = [] \<or> hd rest \<noteq> CHR '':'' then None else Some ([key], drop_space (tl rest), None))
      else if CHR '':'' \<notin> set line then None
      else
        let head = takeWhile (\<lambda>c. c \<noteq> CHR '':'') line; rest = drop_space (tl (dropWhile (\<lambda>c. c \<noteq> CHR '':'') line))
        in case table_re head of
             Some (name, cols) \<Rightarrow>
               Some (split_on CHR ''.'' name, rest, Some (if cols = [] then [] else filter (\<lambda>c. c \<noteq> []) (split_on CHR '','' cols)))
           | None \<Rightarrow> Some (split_on CHR ''.'' head, rest, None))"

fun assign :: "(string, json) dict \<Rightarrow> string list \<Rightarrow> json \<Rightarrow> (string, json) dict" where
  "assign out [] v = out"
| "assign out [k] v = dset k v out"
| "assign out (k # ks) v = dset k (JObj (assign (case dget out k of Some (JObj d) \<Rightarrow> d | _ \<Rightarrow> []) ks v)) out"

definition read_row :: "(string \<Rightarrow> pyfloat option) \<Rightarrow> string list \<Rightarrow> string \<Rightarrow> json" where
  "read_row fread cols line =
     (let cells = split_cells line
      in JObj (fold (\<lambda>(n, c) d. dset c (if n < length cells then parse_scalar fread (cells ! n) else JNull) d)
           (zip [0..<length cols] cols) []))"

definition is_item :: "string \<Rightarrow> bool" where
  "is_item line \<longleftrightarrow> line = ''-'' \<or> starts_with line ''- ''"

text \<open>
  The recursive descent over lines with their indentation; \<open>None\<close> only when the fuel is spent, which
  \<open>2 * length lines + 2\<close> rules out.
\<close>

fun parse_block :: "(string \<Rightarrow> pyfloat option) \<Rightarrow> nat \<Rightarrow> toon_line list \<Rightarrow> nat \<Rightarrow> (json \<times> toon_line list) option"
  and parse_mapping :: "(string \<Rightarrow> pyfloat option) \<Rightarrow> nat \<Rightarrow> (string, json) dict \<Rightarrow> toon_line list \<Rightarrow> nat \<Rightarrow> (json \<times> toon_line list) option"
  and parse_sequence :: "(string \<Rightarrow> pyfloat option) \<Rightarrow> nat \<Rightarrow> json list \<Rightarrow> toon_line list \<Rightarrow> nat \<Rightarrow> (json \<times> toon_line list) option"
where
  "parse_block fread 0 lines indent = None"
| "parse_block fread (Suc n) lines indent =
     (if lines = [] then Some (JNull, [])
      else if is_item (snd (hd lines)) then parse_sequence fread n [] lines indent else parse_mapping fread n [] lines indent)"
| "parse_mapping fread 0 out lines indent = None"
| "parse_mapping fread (Suc n) out lines indent =
     (case lines of
        [] \<Rightarrow> Some (JObj out, [])
      | (ind, line) # rest \<Rightarrow>
          if ind \<noteq> indent \<or> is_item line then Some (JObj out, lines)
          else case split_head line of
                 None \<Rightarrow> parse_mapping fread n out rest indent
               | Some (path, txt, Some cols) \<Rightarrow>
                   parse_mapping fread n
                     (assign out path (JArr (map (\<lambda>l. read_row fread cols (snd l)) (takeWhile (\<lambda>l. indent < fst l) rest))))
                     (dropWhile (\<lambda>l. indent < fst l) rest) indent
               | Some (path, txt, None) \<Rightarrow>
                   if txt \<noteq> [] then parse_mapping fread n (assign out path (parse_scalar fread txt)) rest indent
                   else if rest \<noteq> [] \<and> indent < fst (hd rest)
                     then (case parse_block fread n rest (fst (hd rest)) of
                             None \<Rightarrow> None
                           | Some (v, rest') \<Rightarrow> parse_mapping fread n (assign out path v) rest' indent)
                   else parse_mapping fread n (assign out path JNull) rest indent)"
| "parse_sequence fread 0 out lines indent = None"
| "parse_sequence fread (Suc n) out lines indent =
     (case lines of
        [] \<Rightarrow> Some (JArr out, [])
      | (ind, line) # rest \<Rightarrow>
          if ind \<noteq> indent then Some (JArr out, lines)
          else if line = ''-''
            then (if rest \<noteq> [] \<and> indent < fst (hd rest)
                  then (case parse_block fread n rest (fst (hd rest)) of
                          None \<Rightarrow> None
                        | Some (v, rest') \<Rightarrow> parse_sequence fread n (out @ [v]) rest' indent)
                  else parse_sequence fread n (out @ [JNull]) rest indent)
          else if starts_with line ''- '' then parse_sequence fread n (out @ [parse_scalar fread (drop 2 line)]) rest indent
          else Some (JArr out, lines))"

definition read_line :: "string \<Rightarrow> toon_line list" where
  "read_line raw =
     (let line = (if raw \<noteq> [] \<and> last raw = creturn then butlast raw else raw)
      in if py_strip line = [] then []
         else let body = dropWhile (\<lambda>c. c = CHR '' '') line in [(length line - length body, rstrip body)])"

definition toon_decode :: "(string \<Rightarrow> pyfloat option) \<Rightarrow> string \<Rightarrow> json" where
  "toon_decode fread text0 =
     (let rows = concat (map read_line (split_on newline text0))
      in if rows = [] then JNull
         else if length rows = 1 \<and> \<not> is_item (snd (hd rows)) \<and> split_head (snd (hd rows)) = None
           then parse_scalar fread (snd (hd rows))
         else case parse_block fread (2 * length rows + 2) rows (fst (hd rows)) of Some (v, rest) \<Rightarrow> v | None \<Rightarrow> JNull)"

end
