(* ===== verification/Toon_Text.thy ===== *)
theory Toon_Text
  imports Toon
begin

text \<open>
  The round trip of TOON below the level of blocks: quoted texts, scalars, cells, rows of tables, heads
  of lines, and the division of a document into lines.
\<close>

section \<open>Quoting\<close>

lemma toon_chars: "dquote = CHR 0x22" "backslash = CHR 0x5C" "tabulator = CHR 0x09" "creturn = CHR 0x0D" "newline = CHR 0x0A"
  by code_simp+

lemma read_to_quote_escaped: "read_to_quote buf (concat (map escaped t) @ dquote # rest) = Some (buf @ t, rest)"
  by (induction t arbitrary: buf) (auto simp: escaped_def unescaped_def toon_chars)

lemma read_quoted_quote: "read_quoted (toon_quote t @ rest) = Some (t, rest)"
  by (simp add: read_quoted_def toon_quote_def read_to_quote_escaped)

lemma escaped_chars: "c \<in> set (escaped x) \<Longrightarrow> c \<noteq> newline \<and> c \<noteq> creturn"
  by (auto simp: escaped_def toon_chars split: if_splits)

text \<open>Texts that can stand as a line: not empty, not indented, not ending in space, without a line feed.\<close>

definition solid :: "string \<Rightarrow> bool" where
  "solid t \<longleftrightarrow> t \<noteq> [] \<and> \<not> is_space (hd t) \<and> \<not> is_space (last t) \<and> newline \<notin> set t"

lemma quote_space: "\<not> is_space dquote"
  by (simp add: dquote_def is_space_def Let_def)

lemma solid_quote [simp]: "solid (toon_quote t)"
  using escaped_chars by (auto simp: solid_def toon_quote_def quote_space) (auto simp: toon_chars)

lemma stripped_space: "stripped t \<Longrightarrow> t \<noteq> [] \<Longrightarrow> \<not> is_space (hd t) \<and> \<not> is_space (last t)"
  by (simp add: stripped_def)

lemma strip_fixed: "py_strip t = t \<Longrightarrow> stripped t"
  by (metis stripped_py_strip)

lemma solid_stripped: "solid t \<Longrightarrow> stripped t"
  by (simp add: solid_def stripped_def)

lemma solid_strip [simp]: "solid t \<Longrightarrow> py_strip t = t"
  using solid_stripped by simp

section \<open>Numbers\<close>

definition numeric :: "char \<Rightarrow> bool" where
  "numeric c \<longleftrightarrow> is_digit c \<or> c \<in> set ''+-.eE''"

lemma digit_codes: "is_digit c \<longleftrightarrow> 48 \<le> (of_char c :: nat) \<and> (of_char c :: nat) \<le> 57"
  by (simp add: is_digit_def Let_def)

lemma numeric_plain: "numeric c \<Longrightarrow> \<not> is_space c \<and> c \<notin> {dquote, newline, creturn, CHR '':'', CHR '','', CHR ''['', CHR ''{'', CHR ''n'', CHR ''t'', CHR ''f''}"
  by (auto simp: numeric_def is_digit_def is_space_def toon_chars Let_def)

lemma drop_sign_set: "set t \<subseteq> set signs \<union> set (drop_sign signs t)"
  by (cases t) (auto simp: drop_sign_def)

lemma digits_numeric: "digits t \<Longrightarrow> list_all numeric t"
  by (auto simp: digits_def numeric_def list_all_iff)

lemma int_re_numeric:
  assumes "int_re t"
  shows "list_all numeric t" "t \<noteq> []"
proof -
  have "digits (drop_sign ''-'' t)" using assms by (simp add: int_re_def)
  then show "list_all numeric t" using digits_numeric drop_sign_set [of t "''-''"]
    by (fastforce simp: list_all_iff numeric_def)
  show "t \<noteq> []" using assms by (auto simp: int_re_def drop_sign_def digits_def)
qed

lemma exponent_numeric:
  assumes "exponent_re t"
  shows "list_all numeric t"
proof (cases t)
  case (Cons c r)
  with assms have c: "c \<in> set ''eE''" "digits (drop_sign ''+-'' r)" by (auto simp: exponent_re_def)
  then have "list_all numeric r" using digits_numeric drop_sign_set [of r "''+-''"]
    by (fastforce simp: list_all_iff numeric_def)
  with c Cons show ?thesis by (auto simp: numeric_def)
qed simp

lemma takeWhile_digits: "list_all numeric (takeWhile is_digit t)"
  by (auto simp: list_all_iff numeric_def dest: set_takeWhileD)

lemma float_re_numeric:
  assumes "float_re t"
  shows "list_all numeric t" "t \<noteq> []"
proof -
  let ?r = "drop_sign ''-'' t"
  have split: "?r = takeWhile is_digit ?r @ dropWhile is_digit ?r" by simp
  have "list_all numeric (dropWhile is_digit ?r)"
  proof (cases "dropWhile is_digit ?r")
    case (Cons c f)
    show ?thesis
    proof (cases "c = CHR ''.''")
      case True
      with assms Cons have "exponent_re (dropWhile is_digit f)" by (simp add: float_re_def)
      then have "list_all numeric (takeWhile is_digit f @ dropWhile is_digit f)"
        using exponent_numeric takeWhile_digits by (simp only: list_all_append)
      with Cons True show ?thesis by (simp add: numeric_def)
    next
      case False
      with assms Cons have "exponent_re (dropWhile is_digit ?r)" by (simp add: float_re_def)
      then show ?thesis by (rule exponent_numeric)
    qed
  next
    case Nil
    show ?thesis unfolding Nil by simp
  qed
  then have "list_all numeric ?r" using takeWhile_digits [of ?r] by (subst split) (simp only: list_all_append)
  then show "list_all numeric t" using drop_sign_set [of t "''-''"] by (fastforce simp: list_all_iff numeric_def)
  show "t \<noteq> []" using assms by (auto simp: float_re_def drop_sign_def)
qed

lemma numeric_solid:
  assumes "list_all numeric t" "t \<noteq> []"
  shows "solid t" "hd t \<noteq> dquote" "CHR '':'' \<notin> set t" "CHR '','' \<notin> set t" "t \<notin> set reserved_scalars"
proof -
  have "numeric (hd t)" "numeric (last t)" using assms by (auto simp: list_all_iff)
  moreover have none: "c \<notin> set t" if "\<not> numeric c" for c using assms(1) that by (auto simp: list_all_iff)
  have "\<not> numeric newline" "\<not> numeric CHR '':''" "\<not> numeric CHR '',''" using numeric_plain by blast+
  ultimately show "solid t" "hd t \<noteq> dquote" "CHR '':'' \<notin> set t" "CHR '','' \<notin> set t"
    using none numeric_plain assms(2) by (auto simp: solid_def)
  have "hd t \<notin> {CHR ''n'', CHR ''t'', CHR ''f'', CHR ''['', CHR ''{''}" using \<open>numeric (hd t)\<close> numeric_plain by blast
  then show "t \<notin> set reserved_scalars" by (auto simp: reserved_scalars_def)
qed

text \<open>Decimal digits.\<close>

lemma str_nat_digits: "digits (str_nat n)"
  using str_nat_is_digits [of n] by (simp add: digits_def str_nat_Nil)

lemma read_digits_append: "list_all is_digit t \<Longrightarrow> t \<noteq> [] \<Longrightarrow> read_digits b acc (t @ u) = read_digits True (foldl (\<lambda>a c. a * 10 + digit_val c) acc t) u"
proof (induction t arbitrary: b acc)
  case (Cons c t)
  then show ?case by (cases "t = []") auto
qed simp

lemma str_nat_filter: "filter is_digit (str_nat n) = str_nat n"
  using str_nat_digits by (simp add: digits_def list_all_iff)

lemma str_nat_hd: "str_nat n \<noteq> []" "is_digit (hd (str_nat n))" "is_digit (last (str_nat n))"
  using str_nat_digits [of n] by (auto simp: digits_def list_all_iff)

lemma digit_not_sign: "is_digit c \<Longrightarrow> c \<noteq> CHR ''-'' \<and> c \<noteq> CHR ''+''"
  by (auto simp: is_digit_def Let_def)

lemma int_re_str_int: "int_re (str_int i)"
proof -
  have pos: "int_re (str_nat n)" for n
    using str_nat_digits [of n] str_nat_hd [of n] digit_not_sign
    by (cases "str_nat n") (auto simp: int_re_def drop_sign_def)
  show ?thesis using pos str_nat_digits by (auto simp: str_int_def int_re_def drop_sign_def)
qed

lemma solid_str_int [simp]: "solid (str_int i)"
  using int_re_numeric [OF int_re_str_int] by (rule numeric_solid)

lemma int_of_str_int:
  assumes "length (str_nat (nat \<bar>i\<bar>)) \<le> 4300"
  shows "int_of_text (str_int i) = Some i"
proof -
  have val: "read_digits False 0 (str_nat n) = Some n" for n
    using read_digits_append [of "str_nat n" False 0 "[]"] str_nat_digits [of n] str_nat_value [of n] by (simp add: digits_def)
  have strip: "py_strip (str_int i) = str_int i" by simp
  show ?thesis
  proof (cases "i < 0")
    case True
    have split: "int_of_text (str_int i) = (if 4300 < length (filter is_digit (str_nat (nat (- i)))) then None
        else map_option (\<lambda>n. - int n) (read_digits False 0 (str_nat (nat (- i)))))"
      unfolding int_of_text_def Let_def strip using True by (simp add: str_int_def)
    show ?thesis unfolding split str_nat_filter val using True assms by simp
  next
    case False
    obtain c r where cr: "str_nat (nat i) = c # r" using str_nat_hd(1) [of "nat i"] by (cases "str_nat (nat i)") auto
    then have c: "c \<noteq> CHR ''-''" "c \<noteq> CHR ''+''" using str_nat_hd(2) [of "nat i"] digit_not_sign by auto
    have "str_int i = str_nat (nat i)" using False by (simp add: str_int_def)
    then have split: "int_of_text (str_int i) = (if 4300 < length (filter is_digit (str_nat (nat i))) then None
        else map_option int (read_digits False 0 (str_nat (nat i))))"
      unfolding int_of_text_def Let_def strip using c by (simp add: cr)
    show ?thesis unfolding split str_nat_filter val using False assms by simp
  qed
qed

section \<open>Scalars\<close>

text \<open>
  Which scalars survive: integers within the interpreter's limit for reading digits, finite floats
  whose printed form is a float literal and reads back, and any text.
\<close>

definition scalar_ok :: "(pyfloat \<Rightarrow> string) \<Rightarrow> (string \<Rightarrow> pyfloat option) \<Rightarrow> json \<Rightarrow> bool" where
  "scalar_ok frepr fread v =
     (case v of
        JInt i \<Rightarrow> length (str_nat (nat \<bar>i\<bar>)) \<le> 4300
      | JFlt (Fin r) \<Rightarrow> float_re (frepr (Fin r)) \<and> \<not> int_re (frepr (Fin r)) \<and> fread (frepr (Fin r)) = Some (Fin r)
      | JFlt x \<Rightarrow> False
      | JArr xs \<Rightarrow> False
      | JObj d \<Rightarrow> False
      | _ \<Rightarrow> True)"

lemma parse_quote: "parse_scalar fread (toon_quote t) = JStr t"
proof -
  have "read_quoted (toon_quote t) = Some (t, [])" using read_quoted_quote [of t "[]"] by simp
  moreover have "toon_quote t \<noteq> []" "hd (toon_quote t) = dquote" by (simp_all add: toon_quote_def)
  ultimately show ?thesis by (simp add: parse_scalar_def)
qed

lemma bare_value_facts:
  assumes "bare_value_ok t"
  shows "solid t" "hd t \<noteq> dquote" "t \<notin> set reserved_scalars" "\<not> int_re t" "\<not> float_re t" "\<not> starts_with t ''- ''"
proof -
  have "stripped t" using assms strip_fixed by (simp add: bare_value_ok_def)
  with assms show "solid t" by (simp add: bare_value_ok_def solid_def stripped_def)
  show "hd t \<noteq> dquote" "t \<notin> set reserved_scalars" "\<not> int_re t" "\<not> float_re t" "\<not> starts_with t ''- ''"
    using assms by (simp_all add: bare_value_ok_def)
qed

lemma parse_plain: "solid t \<Longrightarrow> hd t \<noteq> dquote \<Longrightarrow> t \<notin> set reserved_scalars \<Longrightarrow> parse_scalar fread t =
    (if int_re t then (case int_of_text t of Some i \<Rightarrow> JInt i | None \<Rightarrow> JStr t)
     else if float_re t then (case fread t of Some x \<Rightarrow> JFlt x | None \<Rightarrow> JStr t) else JStr t)"
  by (simp add: parse_scalar_def reserved_scalars_def) (auto simp: solid_def)

lemma text_scalar_cases:
  obtains "text_scalar cell t = toon_quote t" | "text_scalar cell t = t" "bare_value_ok t" "cell \<Longrightarrow> CHR '','' \<notin> set t"
  by (cases cell; cases "bare_value_ok t"; cases "CHR '','' \<in> set t") (auto simp: text_scalar_def bare_cell_ok_def)

lemma parse_text_scalar: "parse_scalar fread (text_scalar cell t) = JStr t"
  using bare_value_facts [of t] by (cases cell t rule: text_scalar_cases) (simp_all add: parse_quote parse_plain)

lemma solid_words: "solid ''null''" "solid ''true''" "solid ''false''" "solid ''[]''" "solid ''{}''"
  by (simp_all add: solid_def is_space_def toon_chars Let_def)

lemma parse_words:
  "parse_scalar fread ''null'' = JNull" "parse_scalar fread ''true'' = JBool True" "parse_scalar fread ''false'' = JBool False"
  "parse_scalar fread ''[]'' = JArr []" "parse_scalar fread ''{}'' = JObj []"
  using solid_words by (simp_all add: parse_scalar_def toon_chars)

theorem parse_toon_scalar:
  assumes "scalar_ok frepr fread v"
  shows "parse_scalar fread (toon_scalar frepr cell v) = v"
proof (cases v)
  case (JInt i)
  have "hd (str_int i) \<noteq> dquote" "str_int i \<notin> set reserved_scalars"
    using numeric_solid [OF int_re_numeric [OF int_re_str_int]] by simp_all
  with JInt assms show ?thesis by (simp add: parse_plain int_re_str_int int_of_str_int scalar_ok_def)
next
  case (JFlt x)
  with assms obtain r where r: "x = Fin r" "float_re (frepr x)" "\<not> int_re (frepr x)" "fread (frepr x) = Some x"
    by (cases x) (simp_all add: scalar_ok_def)
  with JFlt numeric_solid [OF float_re_numeric [OF r(2)]] show ?thesis by (simp add: parse_plain)
qed (use assms in \<open>simp_all add: scalar_ok_def parse_words parse_text_scalar\<close>)

text \<open>A printed scalar is a quoted text, or a plain one.\<close>

lemma toon_scalar_cases:
  assumes "scalar_ok frepr fread v"
  obtains t where "toon_scalar frepr cell v = toon_quote t"
  | "solid (toon_scalar frepr cell v)" "hd (toon_scalar frepr cell v) \<noteq> dquote" "cell \<Longrightarrow> CHR '','' \<notin> set (toon_scalar frepr cell v)"
      "CHR '':'' \<in> set (toon_scalar frepr cell v) \<Longrightarrow> \<exists>t. v = JStr t" "is_item (toon_scalar frepr cell v) \<Longrightarrow> v = JStr ''-''"
proof (cases v)
  case (JStr t)
  have item: "t = ''-''" if "is_item t" "bare_value_ok t" using that by (simp add: is_item_def bare_value_ok_def)
  show ?thesis
  proof (cases cell t rule: text_scalar_cases)
    case 1
    then show ?thesis using that(1) JStr by simp
  next
    case 2
    have printed: "toon_scalar frepr cell v = t" using JStr 2(1) by simp
    show ?thesis
      by (rule that(2); unfold printed) (use bare_value_facts [OF 2(2)] 2(3) item [OF _ 2(2)] JStr in simp_all)
  qed
next
  case (JInt i)
  have "\<not> is_item (str_int i)"
  proof
    assume a: "is_item (str_int i)"
    then have "CHR '' '' \<in> set (str_int i) \<or> str_int i = ''-''" by (auto simp: is_item_def starts_with_iff)
    moreover have "str_int i \<noteq> ''-''" using int_re_str_int [of i] by (auto simp: int_re_def drop_sign_def digits_def)
    moreover have "CHR '' '' \<notin> set (str_int i)"
      using int_re_numeric(1) [OF int_re_str_int [of i]] by (auto simp: list_all_iff numeric_def is_digit_def Let_def)
    ultimately show False by simp
  qed
  with JInt numeric_solid [OF int_re_numeric [OF int_re_str_int]] show ?thesis by (intro that(2)) simp_all
next
  case (JFlt x)
  with assms obtain r where r: "x = Fin r" "float_re (frepr x)" "\<not> int_re (frepr x)"
    by (cases x) (simp_all add: scalar_ok_def)
  have "\<not> is_item (frepr x)"
  proof
    assume a: "is_item (frepr x)"
    then have "CHR '' '' \<in> set (frepr x) \<or> frepr x = ''-''" by (auto simp: is_item_def starts_with_iff)
    moreover have "frepr x \<noteq> ''-''" using r(2) by (auto simp: float_re_def drop_sign_def)
    moreover have "CHR '' '' \<notin> set (frepr x)"
      using float_re_numeric(1) [OF r(2)] by (auto simp: list_all_iff numeric_def is_digit_def Let_def)
    ultimately show False by simp
  qed
  with JFlt r(1) numeric_solid [OF float_re_numeric [OF r(2)]] show ?thesis by (intro that(2)) simp_all
next
  case JNull
  then show ?thesis using solid_words by (intro that(2)) (simp_all add: toon_chars is_item_def)
next
  case (JBool b)
  then show ?thesis using solid_words by (intro that(2); cases b) (simp_all add: toon_chars is_item_def)
qed (use assms in \<open>simp_all add: scalar_ok_def\<close>)

lemma solid_toon_scalar: "scalar_ok frepr fread v \<Longrightarrow> solid (toon_scalar frepr cell v)"
  by (erule toon_scalar_cases [where cell = cell]) simp_all

section \<open>Tables\<close>

definition cell_text :: "string \<Rightarrow> bool" where
  "cell_text t \<longleftrightarrow> (\<exists>s. t = toon_quote s) \<or> (solid t \<and> hd t \<noteq> dquote \<and> CHR '','' \<notin> set t)"

lemma cell_scalar: "scalar_ok frepr fread v \<Longrightarrow> cell_text (toon_scalar frepr True v)"
  by (erule toon_scalar_cases [where cell = True]) (auto simp: cell_text_def)

lemma split_one_cell:
  assumes "cell_text t"
  shows "split_cells t = [t]" "split_cells (t @ CHR '','' # rest) = t # split_cells rest"
proof -
  have "split_cells t = [t] \<and> split_cells (t @ CHR '','' # rest) = t # split_cells rest"
  proof (cases "\<exists>s. t = toon_quote s")
    case True
    then obtain s where t: "t = toon_quote s" by blast
    show ?thesis
      using read_quoted_quote [of s "[]"] read_quoted_quote [of s "CHR '','' # rest"]
      by (simp add: t split_cells.simps [of "toon_quote s"] split_cells.simps [of "toon_quote s @ CHR '','' # rest"])
  next
    case False
    with assms have plain: "t \<noteq> []" "hd t \<noteq> dquote" "CHR '','' \<notin> set t" by (auto simp: cell_text_def solid_def)
    have none: "read_quoted (t @ u) = None" for u using plain by (cases t) (simp_all add: read_quoted_def)
    have "dropWhile (\<lambda>c. c \<noteq> CHR '','') t = []" "takeWhile (\<lambda>c. c \<noteq> CHR '','') (t @ CHR '','' # rest) = t"
      "dropWhile (\<lambda>c. c \<noteq> CHR '','') (t @ CHR '','' # rest) = CHR '','' # rest"
      using plain(3) by (auto simp: dropWhile_eq_Nil_conv takeWhile_append dropWhile_append)
    with none [of "[]"] none [of "CHR '','' # rest"] show ?thesis
      by (simp add: split_cells.simps [of t] split_cells.simps [of "t @ CHR '','' # rest"])
  qed
  then show "split_cells t = [t]" "split_cells (t @ CHR '','' # rest) = t # split_cells rest" by simp_all
qed

lemma split_cells_join: "ts \<noteq> [] \<Longrightarrow> list_all cell_text ts \<Longrightarrow> split_cells (join_with CHR '','' ts) = ts"
  by (induction "CHR '',''" ts rule: join_with.induct) (simp_all add: split_one_cell)

lemma fold_dset_fresh:
  "distinct cols \<Longrightarrow> set cols \<inter> set (dkeys d) = {} \<Longrightarrow>
     fold (\<lambda>(n, c) d. dset c (f n) d) (zip [m..<m + length cols] cols) d = d @ map (\<lambda>(n, c). (c, f n)) (zip [m..<m + length cols] cols)"
proof (induction cols arbitrary: d m)
  case (Cons c cols)
  have new: "dset c v d = d @ [(c, v)]" for v using Cons.prems(2) by (induction d) auto
  have up: "[m..<Suc (m + length cols)] = m # [Suc m..<Suc (m + length cols)]" by (rule upt_conv_Cons) simp
  have "set cols \<inter> set (dkeys (d @ [(c, f m)])) = {}" using Cons.prems by auto
  from Cons.IH [OF _ this, of "Suc m"] Cons.prems(1) show ?case by (simp add: up new del: upt_Suc)
qed simp

lemma read_table_row:
  assumes "distinct cols" "cols \<noteq> []" "list_all (\<lambda>c. scalar_ok frepr fread (dget_or (row_of row) c JNull)) cols"
  shows "read_row fread cols (table_row frepr cols row) = JObj (map (\<lambda>c. (c, dget_or (row_of row) c JNull)) cols)"
proof -
  let ?v = "\<lambda>c. dget_or (row_of row) c JNull"
  let ?cells = "map (\<lambda>c. toon_scalar frepr True (?v c)) cols"
  have "list_all cell_text ?cells" using assms(3) by (auto simp: list_all_iff cell_scalar)
  then have cells: "split_cells (table_row frepr cols row) = ?cells"
    using assms(2) by (simp add: table_row_def split_cells_join)
  have "map (\<lambda>(n, c). (c, if n < length ?cells then parse_scalar fread (?cells ! n) else JNull)) (zip [0..<length cols] cols)
      = map (\<lambda>c. (c, ?v c)) cols"
    using assms(3) by (intro nth_equalityI) (auto simp: list_all_length parse_toon_scalar)
  then show ?thesis
    using fold_dset_fresh [of cols "[]" "\<lambda>n. if n < length ?cells then parse_scalar fread (?cells ! n) else JNull" 0] assms(1)
    by (simp add: read_row_def cells)
qed

section \<open>Heads\<close>

lemma bare_key_facts:
  assumes "bare_key_ok k"
  shows "k \<noteq> []" "solid k" "set k \<inter> set key_forbidden = {}" "CHR '':'' \<notin> set k" "CHR ''.'' \<notin> set k" "CHR '','' \<notin> set k"
    "CHR ''['' \<notin> set k" "hd k \<noteq> dquote"
proof -
  have "stripped k" using assms strip_fixed by (simp add: bare_key_ok_def)
  with assms show k: "k \<noteq> []" "set k \<inter> set key_forbidden = {}" by (auto simp: bare_key_ok_def list_all_iff)
  have "set '':.[]{},#'' \<subseteq> set key_forbidden" "dquote \<in> set key_forbidden" "newline \<in> set key_forbidden"
    by (auto simp: key_forbidden_def)
  with k \<open>stripped k\<close> show "solid k" "CHR '':'' \<notin> set k" "CHR ''.'' \<notin> set k" "CHR '','' \<notin> set k" "CHR ''['' \<notin> set k"
    by (auto simp: solid_def stripped_def)
  have "dquote \<notin> set k" using k(2) \<open>dquote \<in> set key_forbidden\<close> by blast
  then show "hd k \<noteq> dquote" using hd_in_set [OF k(1)] by metis
qed

definition path_ok :: "string list \<Rightarrow> bool" where
  "path_ok path \<longleftrightarrow> path \<noteq> [] \<and> (1 < length path \<longrightarrow> list_all bare_key_ok path)"

lemma split_on_none: "c \<notin> set t \<Longrightarrow> split_on c t = [t]"
  by (induction t) auto

lemma split_on_cons: "c \<notin> set t \<Longrightarrow> split_on c (t @ c # rest) = t # split_on c rest"
  by (induction t) auto

lemma split_on_join: "ts \<noteq> [] \<Longrightarrow> list_all (\<lambda>t. c \<notin> set t) ts \<Longrightarrow> split_on c (join_with c ts) = ts"
  by (induction c ts rule: join_with.induct) (simp_all add: split_on_none split_on_cons)

lemma set_join: "set (join_with c ts) \<subseteq> insert c (\<Union> (set ` set ts))"
  by (induction c ts rule: join_with.induct) auto

lemma table_tail_bracket: "table_tail t \<noteq> None \<Longrightarrow> t \<noteq> [] \<and> hd t = CHR ''[''"
  by (auto simp: table_tail_def split: list.splits if_splits)

lemma table_re_none: "CHR ''['' \<notin> set head \<Longrightarrow> table_re head = None"
proof -
  assume no: "CHR ''['' \<notin> set head"
  have "table_tail (drop n head) = None" for n
  proof (rule ccontr)
    assume "table_tail (drop n head) \<noteq> None"
    from table_tail_bracket [OF this] have "CHR ''['' \<in> set (drop n head)" by (metis hd_in_set)
    with no show False by (auto dest: in_set_dropD)
  qed
  then show ?thesis by (simp add: table_re_def find_None_iff)
qed

lemma join_hd: "t \<noteq> [] \<Longrightarrow> join_with c (t # ts) \<noteq> [] \<and> hd (join_with c (t # ts)) = hd t"
  by (cases ts; cases t) simp_all

lemma drop_past: "length a < m \<Longrightarrow> drop m (a @ b) = drop (m - length a - 1) (tl b)"
  by (cases "m - length a") (auto simp: drop_Suc)

text \<open>A path of bare keys is a head without a colon, a bracket or a quote.\<close>

lemma bare_path_head:
  assumes "path \<noteq> []" "list_all bare_key_ok path"
  shows "path_head path = join_with CHR ''.'' path" "CHR '':'' \<notin> set (path_head path)" "CHR ''['' \<notin> set (path_head path)"
    "path_head path \<noteq> []" "hd (path_head path) \<noteq> dquote" "split_on CHR ''.'' (path_head path) = path"
proof -
  show head: "path_head path = join_with CHR ''.'' path"
    using assms by (cases path rule: list.exhaust; cases "tl path") (auto simp: path_head_def key_text_def)
  have keys: "CHR '':'' \<notin> set k" "CHR ''['' \<notin> set k" "CHR ''.'' \<notin> set k" if "k \<in> set path" for k
    using assms(2) that bare_key_facts by (auto simp: list_all_iff)
  show "CHR '':'' \<notin> set (path_head path)" "CHR ''['' \<notin> set (path_head path)"
    unfolding head using set_join [of "CHR ''.''" path] keys by auto
  obtain k ks where path: "path = k # ks" using assms(1) by (cases path) auto
  then have k: "k \<noteq> []" "hd k \<noteq> dquote" using assms(2) bare_key_facts by auto
  then show "path_head path \<noteq> []" "hd (path_head path) \<noteq> dquote"
    unfolding head using join_hd [of k "CHR ''.''" ks] by (simp_all add: path)
  show "split_on CHR ''.'' (path_head path) = path"
    unfolding head using assms(1) keys by (intro split_on_join) (auto simp: list_all_iff)
qed

lemma take_one_hd: "t \<noteq> [] \<Longrightarrow> take 1 (t @ u) = [hd t]"
  by (cases t) auto

lemma split_head_bare:
  assumes "CHR '':'' \<notin> set head" "head \<noteq> []" "hd head \<noteq> dquote"
  shows "split_head (head @ CHR '':'' # rest) =
    (case table_re head of
       Some (name, cols) \<Rightarrow> Some (split_on CHR ''.'' name, drop_space rest,
         Some (if cols = [] then [] else filter (\<lambda>c. c \<noteq> []) (split_on CHR '','' cols)))
     | None \<Rightarrow> Some (split_on CHR ''.'' head, drop_space rest, None))"
proof -
  have "takeWhile (\<lambda>c. c \<noteq> CHR '':'') (head @ CHR '':'' # rest) = head"
    "dropWhile (\<lambda>c. c \<noteq> CHR '':'') (head @ CHR '':'' # rest) = CHR '':'' # rest"
    using assms(1) by (auto simp: takeWhile_append dropWhile_append)
  moreover have "(take 1 (head @ CHR '':'' # rest) = [dquote]) = False" unfolding take_one_hd [OF assms(2)] using assms(3) by simp
  moreover have "(CHR '':'' \<notin> set (head @ CHR '':'' # rest)) = False" by simp
  ultimately show ?thesis unfolding split_head_def Let_def by (simp only: if_False list.sel)
qed

lemma split_head_path:
  assumes "path_ok path"
  shows "split_head (path_head path @ CHR '':'' # rest) = Some (path, drop_space rest, None)"
proof (cases "list_all bare_key_ok path")
  case True
  have "path \<noteq> []" using assms by (simp add: path_ok_def)
  note facts = bare_path_head [OF this True]
  show ?thesis using split_head_bare [OF facts(2,4,5)] table_re_none [OF facts(3)] facts(6) by simp
next
  case False
  then obtain k where path: "path = [k]" "\<not> bare_key_ok k"
    using assms by (cases path; cases "tl path") (auto simp: path_ok_def)
  have "read_quoted (toon_quote k @ CHR '':'' # rest) = Some (k, CHR '':'' # rest)" by (rule read_quoted_quote)
  moreover have "take 1 (toon_quote k @ CHR '':'' # rest) = [dquote]" by (simp add: toon_quote_def)
  ultimately show ?thesis by (simp add: split_head_def path_head_def key_text_def path)
qed

text \<open>The head of a table.\<close>

lemma takeWhile_digits_str: "takeWhile is_digit (str_nat n @ CHR '']'' # r) = str_nat n"
  "dropWhile is_digit (str_nat n @ CHR '']'' # r) = CHR '']'' # r"
proof -
  have "list_all is_digit (str_nat n)" "\<not> is_digit CHR '']''" using str_nat_digits [of n] by (simp_all add: digits_def is_digit_def)
  then show "takeWhile is_digit (str_nat n @ CHR '']'' # r) = str_nat n"
    "dropWhile is_digit (str_nat n @ CHR '']'' # r) = CHR '']'' # r"
    by (auto simp: takeWhile_append dropWhile_append list_all_iff)
qed

lemma upt_split: "a \<le> k \<Longrightarrow> k < n \<Longrightarrow> [a..<n] = [a..<k] @ k # [Suc k..<n]"
  using upt_add_eq_append [of a k "n - k"] upt_conv_Cons [of k n] by simp

lemma find_append_none: "find P xs = None \<Longrightarrow> find P (xs @ ys) = find P ys"
  by (induction xs) (auto split: if_splits)

lemma find_last:
  assumes "1 \<le> k" "k < n" "P k" "\<And>m. k < m \<Longrightarrow> \<not> P m"
  shows "find P (rev [1..<n]) = Some k"
proof -
  have "find P (rev [Suc k..<n]) = None" using assms(4) by (auto simp: find_None_iff)
  then show ?thesis unfolding upt_split [OF assms(1,2)] using assms(3) by (simp add: find_append_none del: upt_Suc)
qed

lemma table_re_head:
  assumes "CHR ''['' \<notin> set name" "name \<noteq> []" "CHR ''['' \<notin> set cols"
  shows "table_re (name @ ''['' @ str_nat n @ '']{'' @ cols @ ''}'') = Some (name, cols)"
proof -
  let ?tail = "''['' @ str_nat n @ '']{'' @ cols @ ''}''"
  let ?head = "name @ ?tail"
  have fits: "table_tail ?tail = Some cols"
    using takeWhile_digits_str [of n "CHR ''{'' # cols @ ''}''"] str_nat_hd(1) [of n] by (simp add: table_tail_def)
  have "CHR ''['' \<notin> set (str_nat n)" using str_nat_digits [of n] by (auto simp: digits_def list_all_iff is_digit_def)
  then have later: "CHR ''['' \<notin> set (drop m (tl ?tail))" for m using assms(3) by (auto dest: in_set_dropD)
  have no: "table_tail (drop m ?head) = None" if "length name < m" for m
  proof (rule ccontr)
    assume "table_tail (drop m ?head) \<noteq> None"
    from table_tail_bracket [OF this] have "CHR ''['' \<in> set (drop m ?head)" by (metis hd_in_set)
    then have "CHR ''['' \<in> set (drop (m - length name - 1) (tl ?tail))" unfolding drop_past [OF that] .
    with later show False by blast
  qed
  have "find (\<lambda>m. table_tail (drop m ?head) \<noteq> None) (rev [1..<length ?head]) = Some (length name)"
  proof (rule find_last)
    show "1 \<le> length name" "length name < length ?head" using assms(2) by (simp_all add: Suc_le_eq)
    show "table_tail (drop (length name) ?head) \<noteq> None" using fits by simp
    show "\<not> table_tail (drop m ?head) \<noteq> None" if "length name < m" for m unfolding no [OF that] by simp
  qed
  then show ?thesis unfolding table_re_def using fits by simp
qed

lemma split_head_table:
  assumes "path \<noteq> []" "list_all bare_key_ok path" "cols \<noteq> []" "list_all bare_key_ok cols"
  shows "split_head (path_head path @ ''['' @ str_nat n @ '']{'' @ join_with CHR '','' cols @ ''}:'') = Some (path, [], Some cols)"
proof -
  note facts = bare_path_head [OF assms(1,2)]
  let ?cols = "join_with CHR '','' cols"
  let ?head = "path_head path @ ''['' @ str_nat n @ '']{'' @ ?cols @ ''}''"
  have keys: "CHR '':'' \<notin> set k" "CHR ''['' \<notin> set k" "CHR '','' \<notin> set k" "k \<noteq> []" if "k \<in> set cols" for k
    using assms(4) that bare_key_facts by (auto simp: list_all_iff)
  have cols: "CHR '':'' \<notin> set ?cols" "CHR ''['' \<notin> set ?cols" using set_join [of "CHR '',''" cols] keys by auto
  have split: "split_on CHR '','' ?cols = cols" using assms(3) keys by (intro split_on_join) (auto simp: list_all_iff)
  have "?cols \<noteq> []"
    using assms(3) keys(4) join_hd [of "hd cols" "CHR '',''" "tl cols"] by (cases cols) auto
  have "CHR '':'' \<notin> set (str_nat n)" using str_nat_digits [of n] by (auto simp: digits_def list_all_iff is_digit_def)
  then have colon: "CHR '':'' \<notin> set ?head" using facts(2) cols(1) by simp
  have start: "?head \<noteq> []" "hd ?head \<noteq> dquote" using facts(4,5) by simp_all
  have "split_head (?head @ CHR '':'' # []) =
      Some (split_on CHR ''.'' (path_head path), drop_space [], Some (if ?cols = [] then [] else filter (\<lambda>c. c \<noteq> []) (split_on CHR '','' ?cols)))"
    unfolding split_head_bare [OF colon start, of "[]"] table_re_head [OF facts(3,4) cols(2), of n] by simp
  moreover have "filter (\<lambda>c. c \<noteq> []) cols = cols" using keys(4) by (simp add: filter_id_conv)
  ultimately show ?thesis using \<open>?cols \<noteq> []\<close> by (simp add: split facts(6) drop_space_def)
qed

text \<open>The line of a pair is no item of a sequence, unless its first key begins like one.\<close>

lemma quote_no_item: "\<not> is_item (toon_quote k @ s)"
  by (simp add: is_item_def toon_quote_def toon_chars)

lemma key_no_item:
  assumes "k \<noteq> []" "\<not> starts_with k ''- ''" "s \<noteq> []" "hd s \<noteq> CHR '' ''"
  shows "\<not> is_item (k @ s)"
proof (cases k)
  case (Cons c r)
  show ?thesis
  proof (cases r)
    case Nil
    with Cons assms show ?thesis by (cases s) (auto simp: is_item_def)
  next
    case (Cons d u)
    with \<open>k = c # r\<close> assms(2) show ?thesis by (auto simp: is_item_def)
  qed
qed (use assms(1) in simp)

lemma head_no_item:
  assumes "path_ok path" "bare_key_ok (hd path) \<Longrightarrow> \<not> starts_with (hd path) ''- ''" "s \<noteq> []" "hd s \<noteq> CHR '' ''"
  shows "\<not> is_item (path_head path @ s)"
proof (cases "1 < length path")
  case True
  then obtain k l ks where path: "path = k # l # ks" by (cases path; cases "tl path") auto
  then have "bare_key_ok k" using assms(1) True by (simp add: path_ok_def)
  with assms(2) path key_no_item [of k "CHR ''.'' # join_with CHR ''.'' (l # ks) @ s"] bare_key_facts(1) [of k] show ?thesis
    by (simp add: path_head_def)
next
  case False
  then obtain k where "path = [k]" using assms(1) by (cases path; cases "tl path") (auto simp: path_ok_def)
  with assms key_no_item [of k s] quote_no_item bare_key_facts(1) [of k] show ?thesis by (simp add: path_head_def key_text_def)
qed

section \<open>Lines\<close>

lemma split_lines_join:
  "ls \<noteq> [] \<Longrightarrow> list_all (\<lambda>l. newline \<notin> set l) ls \<Longrightarrow> split_on newline (join_with newline ls) = ls"
  by (rule split_on_join)

lemma space_char: "is_space CHR '' ''" "is_space creturn" "newline \<noteq> CHR '' ''"
  by (simp_all add: is_space_def toon_chars Let_def)

lemma read_indented:
  assumes "solid b"
  shows "read_line (replicate n CHR '' '' @ b) = [(n, b)]"
proof -
  let ?line = "replicate n CHR '' '' @ b"
  have b: "b \<noteq> []" "\<not> is_space (hd b)" "\<not> is_space (last b)" using assms by (simp_all add: solid_def)
  then have "last ?line \<noteq> creturn" using space_char(2) by auto
  moreover have "py_strip ?line \<noteq> []" using b by (auto simp: py_strip_Nil_iff list_all_iff)
  moreover have "dropWhile (\<lambda>c. c = CHR '' '') ?line = b"
    using b(1,2) space_char(1) by (cases b) (auto simp: dropWhile_append)
  moreover have "rstrip b = b" using b by (simp add: rstrip_id)
  ultimately show ?thesis by (simp add: read_line_def)
qed

lemma solid_line: "solid b \<Longrightarrow> newline \<notin> set (replicate n CHR '' '' @ b)"
  using space_char(3) by (auto simp: solid_def)

lemma render_solid:
  assumes "solid (snd l)"
  shows "render_line indent l = replicate (nat (max 0 indent) + 2 * fst l) CHR '' '' @ snd l"
  using assms by (simp add: render_line_def solid_def replicate_add Let_def)

lemma read_document:
  assumes "ls \<noteq> []" "list_all (\<lambda>l. solid (snd l)) ls"
  shows "concat (map read_line (split_on newline (join_with newline (map (render_line indent) ls))))
    = map (\<lambda>l. (nat (max 0 indent) + 2 * fst l, snd l)) ls"
proof -
  have lines: "map (render_line indent) ls = map (\<lambda>l. replicate (nat (max 0 indent) + 2 * fst l) CHR '' '' @ snd l) ls"
    using assms(2) by (auto simp: list_all_iff render_solid)
  have "split_on newline (join_with newline (map (render_line indent) ls)) = map (render_line indent) ls"
    unfolding lines using assms by (intro split_lines_join) (auto simp: list_all_iff solid_line simp del: set_append)
  moreover have "concat (map read_line (map (render_line indent) ls)) = map (\<lambda>l. (nat (max 0 indent) + 2 * fst l, snd l)) ls"
    unfolding lines using assms(2) by (induction ls) (simp_all add: read_indented)
  ultimately show ?thesis by simp
qed

end
