(* ===== verification/Toon_Roundtrip.thy ===== *)
theory Toon_Roundtrip
  imports Toon_Text
begin

text \<open>
  The round trip of TOON: the reader always comes to an end, and reads what the encoder writes, up to
  the order of keys in the rows of a table; and the values it loses.
\<close>

section \<open>The reader ends\<close>

lemma parse_total:
  "(\<forall>lines i. 2 * length lines + 2 \<le> n \<longrightarrow>
      (\<exists>v rest. parse_block fread n lines i = Some (v, rest) \<and> length rest \<le> length lines))
   \<and> (\<forall>out lines i. 2 * length lines + 1 \<le> n \<longrightarrow>
      (\<exists>v rest. parse_mapping fread n out lines i = Some (v, rest) \<and> length rest \<le> length lines))
   \<and> (\<forall>out lines i. 2 * length lines + 1 \<le> n \<longrightarrow>
      (\<exists>v rest. parse_sequence fread n out lines i = Some (v, rest) \<and> length rest \<le> length lines))"
proof (induction n)
  case (Suc n)
  have block: "\<exists>v rest. parse_block fread n ls i = Some (v, rest) \<and> length rest \<le> length ls" if "2 * length ls + 2 \<le> n" for ls i
    using Suc that by blast
  have mapping: "\<exists>v rest. parse_mapping fread n out ls i = Some (v, rest) \<and> length rest \<le> length ls" if "2 * length ls + 1 \<le> n" for out ls i
    using Suc that by blast
  have seq: "\<exists>v rest. parse_sequence fread n out ls i = Some (v, rest) \<and> length rest \<le> length ls" if "2 * length ls + 1 \<le> n" for out ls i
    using Suc that by blast
  have 1: "\<exists>v rest. parse_block fread (Suc n) lines i = Some (v, rest) \<and> length rest \<le> length lines"
    if "2 * length lines + 2 \<le> Suc n" for lines i
    using mapping [of lines "[]" i] seq [of lines "[]" i] that by simp
  have 2: "\<exists>v rest. parse_mapping fread (Suc n) out lines i = Some (v, rest) \<and> length rest \<le> length lines"
    if len: "2 * length lines + 1 \<le> Suc n" for out lines i
  proof (cases lines)
    case (Cons l ls)
    obtain ind line where l: "l = (ind, line)" by (cases l)
    show ?thesis
    proof (cases "ind \<noteq> i \<or> is_item line")
      case True
      then show ?thesis by (simp add: Cons l)
    next
      case False
      have next': "\<exists>v rest. parse_mapping fread n out' ls' i = Some (v, rest) \<and> length rest \<le> length lines"
        if "length ls' \<le> length ls" for out' ls'
      proof -
        have "2 * length ls' + 1 \<le> n" using that len Cons by simp
        from mapping [OF this, of out' i] obtain v rest where "parse_mapping fread n out' ls' i = Some (v, rest)" "length rest \<le> length ls'" by blast
        then show ?thesis using that Cons by auto
      qed
      show ?thesis
      proof (cases "split_head line")
        case None
        with False next' [of ls out] show ?thesis by (simp add: Cons l)
      next
        case (Some h)
        obtain path body cols where h: "h = (path, body, cols)" by (cases h)
        show ?thesis
        proof (cases cols)
          case (Some cs)
          have "length (dropWhile (\<lambda>l. i < fst l) ls) \<le> length ls" by (rule length_dropWhile_le)
          from next' [OF this] False \<open>split_head line = Some h\<close> h Some show ?thesis by (simp add: Cons l)
        next
          case None
          show ?thesis
          proof (cases "body = [] \<and> ls \<noteq> [] \<and> i < fst (hd ls)")
            case True
            have "2 * length ls + 2 \<le> n" using len Cons by simp
            from block [OF this, of "fst (hd ls)"] obtain v rest where
              b: "parse_block fread n ls (fst (hd ls)) = Some (v, rest)" "length rest \<le> length ls" by blast
            from next' [OF b(2), of "assign out path v"] b(1) False \<open>split_head line = Some h\<close> h None True
            show ?thesis by (simp add: Cons l)
          next
            case no: False
            from next' [of ls] False \<open>split_head line = Some h\<close> h None no show ?thesis by (auto simp: Cons l)
          qed
        qed
      qed
    qed
  qed simp
  have 3: "\<exists>v rest. parse_sequence fread (Suc n) out lines i = Some (v, rest) \<and> length rest \<le> length lines"
    if len: "2 * length lines + 1 \<le> Suc n" for out lines i
  proof (cases lines)
    case (Cons l ls)
    obtain ind line where l: "l = (ind, line)" by (cases l)
    have next': "\<exists>v rest. parse_sequence fread n out' ls' i = Some (v, rest) \<and> length rest \<le> length lines"
      if "length ls' \<le> length ls" for out' ls'
    proof -
      have "2 * length ls' + 1 \<le> n" using that len Cons by simp
      from seq [OF this, of out' i] obtain v rest where "parse_sequence fread n out' ls' i = Some (v, rest)" "length rest \<le> length ls'" by blast
      then show ?thesis using that Cons by auto
    qed
    show ?thesis
    proof (cases "ind = i \<and> line = ''-'' \<and> ls \<noteq> [] \<and> i < fst (hd ls)")
      case True
      have "2 * length ls + 2 \<le> n" using len Cons by simp
      from block [OF this, of "fst (hd ls)"] obtain v rest where
        b: "parse_block fread n ls (fst (hd ls)) = Some (v, rest)" "length rest \<le> length ls" by blast
      from next' [OF b(2), of "out @ [v]"] b(1) True show ?thesis by (simp add: Cons l)
    next
      case False
      with next' [of ls] show ?thesis by (auto simp: Cons l)
    qed
  qed simp
  from 1 2 3 show ?case by blast
qed simp

text \<open>More fuel changes no answer.\<close>

definition below :: "'a option \<Rightarrow> 'a option \<Rightarrow> bool" where
  "below a b \<longleftrightarrow> a = None \<or> a = b"

lemma below_refl: "below a a"
  by (simp add: below_def)

lemma below_if: "below a a' \<Longrightarrow> below b b' \<Longrightarrow> below (if c then a else b) (if c then a' else b')"
  by simp

lemma below_list: "below a a' \<Longrightarrow> (\<And>x xs. below (b x xs) (b' x xs)) \<Longrightarrow>
    below (case l of [] \<Rightarrow> a | x # xs \<Rightarrow> b x xs) (case l of [] \<Rightarrow> a' | x # xs \<Rightarrow> b' x xs)"
  by (cases l) simp_all

lemma below_option: "below a a' \<Longrightarrow> (\<And>x. below (b x) (b' x)) \<Longrightarrow>
    below (case l of None \<Rightarrow> a | Some x \<Rightarrow> b x) (case l of None \<Rightarrow> a' | Some x \<Rightarrow> b' x)"
  by (cases l) simp_all

lemma below_prod: "(\<And>x y. below (b x y) (b' x y)) \<Longrightarrow> below (case l of (x, y) \<Rightarrow> b x y) (case l of (x, y) \<Rightarrow> b' x y)"
  by (cases l) simp_all

lemma below_bind: "below l l' \<Longrightarrow> (\<And>x. below (b x) (b' x)) \<Longrightarrow>
    below (case l of None \<Rightarrow> None | Some x \<Rightarrow> b x) (case l' of None \<Rightarrow> None | Some x \<Rightarrow> b' x)"
  by (cases l) (simp_all add: below_def, force)

lemmas below_intros = below_refl below_if below_list below_option below_prod

lemma parse_more_fuel:
  "(\<forall>lines i. below (parse_block fread n lines i) (parse_block fread (Suc n) lines i))
   \<and> (\<forall>out lines i. below (parse_mapping fread n out lines i) (parse_mapping fread (Suc n) out lines i))
   \<and> (\<forall>out lines i. below (parse_sequence fread n out lines i) (parse_sequence fread (Suc n) out lines i))"
proof (induction n)
  case 0
  show ?case by (simp add: below_def)
next
  case (Suc n)
  have IH: "below (parse_block fread n lines i) (parse_block fread (Suc n) lines i)"
    "below (parse_mapping fread n out lines i) (parse_mapping fread (Suc n) out lines i)"
    "below (parse_sequence fread n vs lines i) (parse_sequence fread (Suc n) vs lines i)" for out vs lines i
    using Suc by blast+
  have "below (parse_block fread (Suc n) lines i) (parse_block fread (Suc (Suc n)) lines i)" for lines i
    by (subst parse_block.simps(2), subst parse_block.simps(2)) (intro below_intros IH)
  moreover have "below (parse_mapping fread (Suc n) out lines i) (parse_mapping fread (Suc (Suc n)) out lines i)" for out lines i
    by (subst parse_mapping.simps(2), subst parse_mapping.simps(2)) (intro below_bind below_intros IH)
  moreover have "below (parse_sequence fread (Suc n) out lines i) (parse_sequence fread (Suc (Suc n)) out lines i)" for out lines i
    by (subst parse_sequence.simps(2), subst parse_sequence.simps(2)) (intro below_bind below_intros IH)
  ultimately show ?case by blast
qed

section \<open>Reading as a relation\<close>

definition reads_block :: "(string \<Rightarrow> pyfloat option) \<Rightarrow> toon_line list \<Rightarrow> nat \<Rightarrow> json \<times> toon_line list \<Rightarrow> bool" where
  "reads_block fread lines i r \<longleftrightarrow> (\<exists>n. parse_block fread n lines i = Some r)"

definition reads_mapping :: "(string \<Rightarrow> pyfloat option) \<Rightarrow> (string, json) dict \<Rightarrow> toon_line list \<Rightarrow> nat \<Rightarrow> json \<times> toon_line list \<Rightarrow> bool" where
  "reads_mapping fread out lines i r \<longleftrightarrow> (\<exists>n. parse_mapping fread n out lines i = Some r)"

definition reads_sequence :: "(string \<Rightarrow> pyfloat option) \<Rightarrow> json list \<Rightarrow> toon_line list \<Rightarrow> nat \<Rightarrow> json \<times> toon_line list \<Rightarrow> bool" where
  "reads_sequence fread out lines i r \<longleftrightarrow> (\<exists>n. parse_sequence fread n out lines i = Some r)"

lemma belowD: "below a b \<Longrightarrow> a = Some r \<Longrightarrow> b = Some r"
  by (simp add: below_def)

lemma fuel_suc:
  "parse_block fread n lines i = Some r \<Longrightarrow> parse_block fread (Suc n) lines i = Some r"
  "parse_mapping fread n out lines i = Some r \<Longrightarrow> parse_mapping fread (Suc n) out lines i = Some r"
  "parse_sequence fread n vs lines i = Some r \<Longrightarrow> parse_sequence fread (Suc n) vs lines i = Some r"
  using parse_more_fuel [of fread n] belowD by metis+

lemma fuel_add:
  "parse_block fread n lines i = Some r \<Longrightarrow> parse_block fread (n + k) lines i = Some r"
  "parse_mapping fread n out lines i = Some r \<Longrightarrow> parse_mapping fread (n + k) out lines i = Some r"
  "parse_sequence fread n vs lines i = Some r \<Longrightarrow> parse_sequence fread (n + k) vs lines i = Some r"
  by (induction k) (auto simp del: parse_block.simps parse_mapping.simps parse_sequence.simps intro: fuel_suc)

lemma block_with_enough:
  assumes "reads_block fread lines i r" "2 * length lines + 2 \<le> n"
  shows "parse_block fread n lines i = Some r"
proof -
  obtain m where "parse_block fread m lines i = Some r" using assms(1) by (auto simp: reads_block_def)
  from fuel_add(1) [OF this, of n] have m: "parse_block fread (m + n) lines i = Some r" .
  obtain s where "parse_block fread n lines i = Some s" using parse_total [of n fread] assms(2) by blast
  from fuel_add(1) [OF this, of m] m have "s = r" by (simp add: add.commute)
  with \<open>parse_block fread n lines i = Some s\<close> show ?thesis by simp
qed

lemma mapping_end: "lines = [] \<or> fst (hd lines) \<noteq> i \<or> is_item (snd (hd lines)) \<Longrightarrow> reads_mapping fread out lines i (JObj out, lines)"
  unfolding reads_mapping_def by (rule exI [of _ 1]) (cases lines; auto split: prod.split)

lemma mapping_scalar:
  assumes "\<not> is_item line" "split_head line = Some (path, body, None)" "body \<noteq> []"
    "reads_mapping fread (assign out path (parse_scalar fread body)) rest i r"
  shows "reads_mapping fread out ((i, line) # rest) i r"
proof -
  from assms(4) obtain n where "parse_mapping fread n (assign out path (parse_scalar fread body)) rest i = Some r"
    by (auto simp: reads_mapping_def)
  with assms(1-3) have "parse_mapping fread (Suc n) out ((i, line) # rest) i = Some r" by simp
  then show ?thesis unfolding reads_mapping_def by blast
qed

lemma mapping_table:
  assumes "\<not> is_item line" "split_head line = Some (path, body, Some cols)" "list_all (\<lambda>l. i < fst l) rows" "rest = [] \<or> fst (hd rest) \<le> i"
    "reads_mapping fread (assign out path (JArr (map (\<lambda>l. read_row fread cols (snd l)) rows))) rest i r"
  shows "reads_mapping fread out ((i, line) # rows @ rest) i r"
proof -
  have "takeWhile (\<lambda>l. i < fst l) (rows @ rest) = rows" "dropWhile (\<lambda>l. i < fst l) (rows @ rest) = rest"
    using assms(3,4) by (cases rest; auto simp: takeWhile_append dropWhile_append list_all_iff)+
  moreover from assms(5) obtain n where
    "parse_mapping fread n (assign out path (JArr (map (\<lambda>l. read_row fread cols (snd l)) rows))) rest i = Some r"
    by (auto simp: reads_mapping_def)
  ultimately have "parse_mapping fread (Suc n) out ((i, line) # rows @ rest) i = Some r" using assms(1,2) by simp
  then show ?thesis unfolding reads_mapping_def by blast
qed

lemma mapping_block:
  assumes "\<not> is_item line" "split_head line = Some (path, [], None)" "rest \<noteq> []" "i < fst (hd rest)"
    "reads_block fread rest (fst (hd rest)) (v, rest')" "reads_mapping fread (assign out path v) rest' i r"
  shows "reads_mapping fread out ((i, line) # rest) i r"
proof -
  obtain n m where n: "parse_block fread n rest (fst (hd rest)) = Some (v, rest')" "parse_mapping fread m (assign out path v) rest' i = Some r"
    using assms(5,6) by (auto simp: reads_block_def reads_mapping_def)
  from fuel_add(1) [OF n(1), of m] fuel_add(2) [OF n(2), of n] assms(1-4)
  have "parse_mapping fread (Suc (n + m)) out ((i, line) # rest) i = Some r" by (simp add: add.commute)
  then show ?thesis unfolding reads_mapping_def by blast
qed

lemma sequence_end: "lines = [] \<or> fst (hd lines) \<noteq> i \<Longrightarrow> reads_sequence fread out lines i (JArr out, lines)"
  unfolding reads_sequence_def by (rule exI [of _ 1]) (cases lines; auto split: prod.split)

lemma sequence_scalar:
  assumes "reads_sequence fread (out @ [parse_scalar fread body]) rest i r" "body \<noteq> []"
  shows "reads_sequence fread out ((i, ''- '' @ body) # rest) i r"
proof -
  obtain n where "parse_sequence fread n (out @ [parse_scalar fread body]) rest i = Some r"
    using assms(1) by (auto simp: reads_sequence_def)
  then have "parse_sequence fread (Suc n) out ((i, ''- '' @ body) # rest) i = Some r" using assms(2) by (simp add: numeral_2_eq_2)
  then show ?thesis unfolding reads_sequence_def by blast
qed

lemma sequence_block:
  assumes "rest \<noteq> []" "i < fst (hd rest)" "reads_block fread rest (fst (hd rest)) (v, rest')"
    "reads_sequence fread (out @ [v]) rest' i r"
  shows "reads_sequence fread out ((i, ''-'') # rest) i r"
proof -
  obtain n m where n: "parse_block fread n rest (fst (hd rest)) = Some (v, rest')" "parse_sequence fread m (out @ [v]) rest' i = Some r"
    using assms(3,4) by (auto simp: reads_block_def reads_sequence_def)
  from fuel_add(1) [OF n(1), of m] fuel_add(3) [OF n(2), of n] assms(1,2)
  have "parse_sequence fread (Suc (n + m)) out ((i, ''-'') # rest) i = Some r" by (simp add: add.commute)
  then show ?thesis unfolding reads_sequence_def by blast
qed

lemma block_mapping:
  assumes "lines \<noteq> []" "\<not> is_item (snd (hd lines))" "reads_mapping fread [] lines i r"
  shows "reads_block fread lines i r"
proof -
  obtain n where "parse_mapping fread n [] lines i = Some r" using assms(3) by (auto simp: reads_mapping_def)
  with assms(1,2) have "parse_block fread (Suc n) lines i = Some r" by simp
  then show ?thesis unfolding reads_block_def by blast
qed

lemma block_sequence:
  assumes "lines \<noteq> []" "is_item (snd (hd lines))" "reads_sequence fread [] lines i r"
  shows "reads_block fread lines i r"
proof -
  obtain n where "parse_sequence fread n [] lines i = Some r" using assms(3) by (auto simp: reads_sequence_def)
  with assms(1,2) have "parse_block fread (Suc n) lines i = Some r" by simp
  then show ?thesis unfolding reads_block_def by blast
qed

end
