(* ===== verification/Toon_Theorems.thy ===== *)
theory Toon_Theorems
  imports Toon_Roundtrip
begin

text \<open>
  Which JSON values survive TOON, and the round trip itself; then the values it loses.
\<close>

section \<open>Values that survive\<close>

definition is_table :: "json \<Rightarrow> bool" where
  "is_table v = (case v of JArr xs \<Rightarrow> table_columns xs \<noteq> None | _ \<Rightarrow> False)"

text \<open>A bare key that begins like an item, and a table under a quoted key, are lost.\<close>

definition key_ok :: "string \<Rightarrow> json \<Rightarrow> bool" where
  "key_ok k v \<longleftrightarrow> (if bare_key_ok k then \<not> starts_with k ''- '' else \<not> is_table v)"

fun toon_clean :: "(pyfloat \<Rightarrow> string) \<Rightarrow> (string \<Rightarrow> pyfloat option) \<Rightarrow> json \<Rightarrow> bool" where
  "toon_clean frepr fread (JArr xs) = (\<forall>x \<in> set xs. toon_clean frepr fread x)"
| "toon_clean frepr fread (JObj d) = (distinct (map fst d) \<and> (\<forall>p \<in> set d. key_ok (fst p) (snd p) \<and> toon_clean frepr fread (snd p)))"
| "toon_clean frepr fread v = scalar_ok frepr fread v"

fun nesting :: "json \<Rightarrow> nat" where
  "nesting (JArr xs) = Suc (foldr max (map nesting xs) 0)"
| "nesting (JObj d) = Suc (foldr max (map (\<lambda>p. nesting (snd p)) d) 0)"
| "nesting v = 0"

text \<open>What comes back: the rows of a table have their keys in the order of the header.\<close>

fun column_order :: "bool \<Rightarrow> json \<Rightarrow> json" where
  "column_order keyed (JArr xs) =
     (case (if keyed then table_columns xs else None) of
        Some cols \<Rightarrow> JArr (map (\<lambda>row. JObj (map (\<lambda>c. (c, dget_or (row_of row) c JNull)) cols)) xs)
      | None \<Rightarrow> JArr (map (column_order False) xs))"
| "column_order keyed (JObj d) = JObj (map (\<lambda>p. (fst p, column_order True (snd p))) d)"
| "column_order keyed v = v"

lemma foldr_max: "(x::nat) \<in> set xs \<Longrightarrow> x \<le> foldr max xs 0"
  by (induction xs) (auto simp: le_max_iff_disj)

lemma nesting_item: "x \<in> set xs \<Longrightarrow> nesting x < nesting (JArr xs)"
  using foldr_max [of "nesting x" "map nesting xs"] by simp

lemma nesting_member: "p \<in> set d \<Longrightarrow> nesting (snd p) < nesting (JObj d)"
  using foldr_max [of "nesting (snd p)" "map (\<lambda>p. nesting (snd p)) d"] by simp

section \<open>Folded paths\<close>

fun wrap :: "string list \<Rightarrow> json \<Rightarrow> json" where
  "wrap [] v = v"
| "wrap (k # ks) v = JObj [(k, wrap ks v)]"

lemma fold_path_spec:
  assumes "path \<noteq> []"
  shows "\<exists>ks. fst (fold_path depth path v) = path @ ks \<and> v = wrap ks (snd (fold_path depth path v))
    \<and> (if ks = [] then True else bare_key_ok (last path) \<and> list_all bare_key_ok ks)"
  using assms
proof (induction depth path v rule: fold_path.induct)
  case (1 depth path k v)
  show ?case
  proof (cases "bare_key_ok (last path) \<and> depth + length path < toon_max_depth \<and> bare_key_ok k")
    case True
    from 1(1) [OF True] obtain ks where ks: "fst (fold_path depth (path @ [k]) v) = (path @ [k]) @ ks"
      "v = wrap ks (snd (fold_path depth (path @ [k]) v))" "if ks = [] then True else list_all bare_key_ok ks"
      by (auto split: if_splits)
    with True show ?thesis by (intro exI [of _ "k # ks"]) (auto split: if_splits)
  next
    case False
    then show ?thesis by (intro exI [of _ "[]"]) auto
  qed
qed simp_all

lemma nesting_wrap: "nesting (wrap ks v) = length ks + nesting v"
  by (induction ks) simp_all

lemma clean_wrap: "toon_clean frepr fread (wrap ks v) \<Longrightarrow> toon_clean frepr fread v"
  by (induction ks) simp_all

lemma order_wrap: "column_order True (wrap ks v) = wrap ks (column_order True v)"
  by (induction ks) simp_all

lemma assign_nested: "k \<notin> set (dkeys out) \<Longrightarrow> assign out (k # ks) v = out @ [(k, wrap ks v)]"
proof (induction ks arbitrary: k out)
  case Nil
  then show ?case by (induction out) auto
next
  case (Cons l ks)
  have get: "dget out k = None" using Cons.prems by (simp add: dget_None_iff)
  have set: "dset k w out = out @ [(k, w)]" for w using Cons.prems by (induction out) auto
  show ?case using Cons.IH [of l "[]"] by (simp add: get set)
qed

text \<open>The pair \<open>k: v\<close> of a mapping, once folded.\<close>

lemma folded_pair:
  assumes "toon_clean frepr fread v" "key_ok k v" "depth + nesting v \<le> toon_max_depth"
  obtains ks where "fst (fold_path depth [k] v) = k # ks" "v = wrap ks (snd (fold_path depth [k] v))"
    "path_ok (k # ks)" "bare_key_ok k \<Longrightarrow> \<not> starts_with k ''- ''"
    "is_table (snd (fold_path depth [k] v)) \<Longrightarrow> list_all bare_key_ok (k # ks)"
    "toon_clean frepr fread (snd (fold_path depth [k] v))"
    "depth + length (k # ks) - 1 + nesting (snd (fold_path depth [k] v)) \<le> toon_max_depth"
proof -
  let ?w = "snd (fold_path depth [k] v)"
  obtain ks where ks: "fst (fold_path depth [k] v) = k # ks" "v = wrap ks ?w"
    "if ks = [] then True else bare_key_ok k \<and> list_all bare_key_ok ks"
    using fold_path_spec [of "[k]" depth v] by (auto split: if_splits)
  show thesis
  proof (rule that [OF ks(1,2)])
    show "path_ok (k # ks)" using ks(3) by (auto simp: path_ok_def)
    show "\<not> starts_with k ''- ''" if "bare_key_ok k" using assms(2) that by (simp add: key_ok_def)
    show "list_all bare_key_ok (k # ks)" if "is_table ?w"
      using that assms(2) ks(2,3) by (cases ks) (auto simp: key_ok_def split: if_splits)
    show "toon_clean frepr fread ?w" using assms(1) ks(2) clean_wrap by metis
    show "depth + length (k # ks) - 1 + nesting ?w \<le> toon_max_depth"
      using assms(3) nesting_wrap [of ks ?w] ks(2) by simp
  qed
qed

section \<open>Where the lines stand\<close>

definition place :: "nat \<Rightarrow> toon_line list \<Rightarrow> toon_line list" where
  "place off ls = map (\<lambda>l. (off + 2 * fst l, snd l)) ls"

lemma place_simps [simp]: "place off [] = []" "place off (l # ls) = (off + 2 * fst l, snd l) # place off ls"
  "place off (ls @ ms) = place off ls @ place off ms"
  by (simp_all add: place_def)

lemma emit_pair_first: "emit_pair frepr repr head v level depth \<noteq> [] \<and> fst (hd (emit_pair frepr repr head v level depth)) = level
    \<and> (\<exists>s. s \<noteq> [] \<and> hd s \<noteq> CHR '' '' \<and> snd (hd (emit_pair frepr repr head v level depth)) = head @ s)"
  by (cases v) (auto split: option.split)

lemma emit_mapping_first:
  assumes "d \<noteq> []" "toon_clean frepr fread (JObj d)" "depth + nesting (JObj d) \<le> Suc toon_max_depth"
  shows "emit_mapping frepr repr d level depth \<noteq> []" "fst (hd (emit_mapping frepr repr d level depth)) = level"
    "\<not> is_item (snd (hd (emit_mapping frepr repr d level depth)))"
proof -
  obtain k v e where d: "d = (k, v) # e" using assms(1) by (cases d) auto
  have kv: "toon_clean frepr fread v" "key_ok k v" using assms(2) d by auto
  have "depth + nesting v \<le> toon_max_depth" using assms(3) nesting_member [of "(k, v)" d] d by simp
  then obtain ks where ks: "fst (fold_path depth [k] v) = k # ks" "path_ok (k # ks)" "bare_key_ok k \<Longrightarrow> \<not> starts_with k ''- ''"
    using folded_pair [OF kv] by metis
  let ?p = "emit_pair frepr repr (path_head (k # ks)) (snd (fold_path depth [k] v)) level (depth + length (k # ks) - 1)"
  have lines: "emit_mapping frepr repr d level depth = ?p @ emit_mapping frepr repr e level depth" by (simp add: d ks(1))
  obtain s where first: "?p \<noteq> []" "fst (hd ?p) = level" "s \<noteq> []" "hd s \<noteq> CHR '' ''" "snd (hd ?p) = path_head (k # ks) @ s"
    using emit_pair_first by blast
  show "emit_mapping frepr repr d level depth \<noteq> []" "fst (hd (emit_mapping frepr repr d level depth)) = level"
    using first by (simp_all add: lines)
  have "\<not> is_item (path_head (k # ks) @ s)" using ks(2,3) first(3,4) by (intro head_no_item) simp_all
  then show "\<not> is_item (snd (hd (emit_mapping frepr repr d level depth)))" using first by (simp add: lines)
qed

lemma emit_sequence_first:
  assumes "xs \<noteq> []"
  shows "emit_sequence frepr repr xs level depth \<noteq> [] \<and> fst (hd (emit_sequence frepr repr xs level depth)) = level
    \<and> is_item (snd (hd (emit_sequence frepr repr xs level depth)))"
proof -
  obtain x ys where xs: "xs = x # ys" using assms by (cases xs) auto
  show ?thesis unfolding xs by (cases x) (auto simp: is_item_def)
qed

section \<open>Blocks\<close>

lemma split_head_value:
  "path_ok path \<Longrightarrow> split_head (path_head path @ '': '' @ t) = Some (path, t, None)"
  "path_ok path \<Longrightarrow> split_head (path_head path @ '':'') = Some (path, [], None)"
  using split_head_path [of path "CHR '' '' # t"] split_head_path [of path "[]"] by (simp_all add: drop_space_def)

text \<open>One pair whose value stands on its line.\<close>

lemma read_inline:
  assumes "path_ok path" "bare_key_ok (hd path) \<Longrightarrow> \<not> starts_with (hd path) ''- ''" "t \<noteq> []"
    "reads_mapping fread (assign out path (parse_scalar fread t)) rest i r"
  shows "reads_mapping fread out ((i, path_head path @ '': '' @ t) # rest) i r"
proof (rule mapping_scalar)
  show "\<not> is_item (path_head path @ '': '' @ t)" using assms(1,2) by (rule head_no_item) simp_all
qed (use assms split_head_value in simp_all)

lemma read_nested:
  assumes "path_ok path" "bare_key_ok (hd path) \<Longrightarrow> \<not> starts_with (hd path) ''- ''"
    "lines \<noteq> []" "fst (hd lines) = j" "i < j" "reads_block fread (lines @ rest) j (v, rest)"
    "reads_mapping fread (assign out path v) rest i r"
  shows "reads_mapping fread out ((i, path_head path @ '':'') # lines @ rest) i r"
proof (rule mapping_block)
  show "\<not> is_item (path_head path @ '':'')" using assms(1,2) by (rule head_no_item) simp_all
qed (use assms split_head_value(2) in simp_all)

lemma table_columnsD:
  assumes "table_columns xs = Some cols"
  shows "cols \<noteq> []" "distinct cols" "list_all bare_key_ok cols" "list_all (is_row cols) xs" "xs \<noteq> []"
  using assms by (auto simp: table_columns_def split: list.splits json.splits if_splits)

lemma row_scalars:
  assumes "is_row cols row" "toon_clean frepr fread row" "c \<in> set cols"
  shows "scalar_ok frepr fread (dget_or (row_of row) c JNull)"
proof -
  obtain d where row: "row = JObj d" "set (dkeys d) = set cols" "list_all (\<lambda>p. is_scalar (snd p)) d"
    using assms(1) by (cases row) (auto simp: is_row_def)
  then obtain v where v: "dget d c = Some v" using assms(3) dget_None_iff [of d c] by (cases "dget d c") auto
  then have "(c, v) \<in> set d" by (rule dget_SomeD)
  then have "is_scalar v" "toon_clean frepr fread v" using row assms(2) by (auto simp: list_all_iff)
  with v row(1) show ?thesis by (cases v) (simp_all add: dget_or_def row_of_def is_scalar_def)
qed

lemma read_table:
  assumes path: "list_all bare_key_ok path" "path \<noteq> []" "\<not> starts_with (hd path) ''- ''"
    and cols: "table_columns xs = Some cols" "\<forall>x \<in> set xs. toon_clean frepr fread x"
    and rest: "rest = [] \<or> fst (hd rest) \<le> off + 2 * level"
      "reads_mapping fread (assign out path (column_order True (JArr xs))) rest (off + 2 * level) r"
  shows "reads_mapping fread out (place off ((level, path_head path @ ''['' @ str_nat (length xs) @ '']{'' @ join_with CHR '','' cols @ ''}:'')
      # map (\<lambda>row. (level + 1, table_row frepr cols row)) xs) @ rest) (off + 2 * level) r"
proof -
  note c = table_columnsD [OF cols(1)]
  let ?rows = "place off (map (\<lambda>row. (level + 1, table_row frepr cols row)) xs)"
  have read: "map (\<lambda>l. read_row fread cols (snd l)) ?rows = map (\<lambda>row. JObj (map (\<lambda>c. (c, dget_or (row_of row) c JNull)) cols)) xs"
    using c cols(2) row_scalars by (auto simp: place_def list_all_iff intro!: read_table_row)
  have "reads_mapping fread out ((off + 2 * level, path_head path @ ''['' @ str_nat (length xs) @ '']{'' @ join_with CHR '','' cols @ ''}:'')
      # ?rows @ rest) (off + 2 * level) r"
  proof (rule mapping_table)
    show "\<not> is_item (path_head path @ ''['' @ str_nat (length xs) @ '']{'' @ join_with CHR '','' cols @ ''}:'')"
      using path by (intro head_no_item) (simp_all add: path_ok_def)
    show "split_head (path_head path @ ''['' @ str_nat (length xs) @ '']{'' @ join_with CHR '','' cols @ ''}:'') = Some (path, [], Some cols)"
      using path(2,1) c(1,3) by (rule split_head_table)
    show "list_all (\<lambda>l. off + 2 * level < fst l) ?rows" by (simp add: place_def list_all_iff)
    show "reads_mapping fread (assign out path (JArr (map (\<lambda>l. read_row fread cols (snd l)) ?rows))) rest (off + 2 * level) r"
      unfolding read using rest(2) cols(1) by simp
  qed (rule rest(1))
  then show ?thesis by simp
qed

section \<open>The lines of a value are read as that value\<close>

definition stops :: "toon_line list \<Rightarrow> nat \<Rightarrow> bool" where
  "stops rs i \<longleftrightarrow> rs = [] \<or> fst (hd rs) < i"

definition maps_back :: "(string \<Rightarrow> pyfloat option) \<Rightarrow> (pyfloat \<Rightarrow> string) \<Rightarrow> (json \<Rightarrow> string) \<Rightarrow> (string \<times> json) list \<Rightarrow> nat \<Rightarrow> nat \<Rightarrow> bool" where
  "maps_back fread frepr repr d level depth \<longleftrightarrow>
     (\<forall>out rs off. toon_clean frepr fread (JObj d) \<longrightarrow> (\<forall>p \<in> set d. depth + nesting (snd p) \<le> toon_max_depth)
        \<longrightarrow> set (map fst d) \<inter> set (dkeys out) = {} \<longrightarrow> stops rs (off + 2 * level)
        \<longrightarrow> reads_mapping fread out (place off (emit_mapping frepr repr d level depth) @ rs) (off + 2 * level)
              (JObj (out @ map (\<lambda>p. (fst p, column_order True (snd p))) d), rs))"

definition pairs_back :: "(string \<Rightarrow> pyfloat option) \<Rightarrow> (pyfloat \<Rightarrow> string) \<Rightarrow> (json \<Rightarrow> string) \<Rightarrow> string \<Rightarrow> json \<Rightarrow> nat \<Rightarrow> nat \<Rightarrow> bool" where
  "pairs_back fread frepr repr head v level depth \<longleftrightarrow>
     (\<forall>path out rest off r. head = path_head path \<longrightarrow> path_ok path \<longrightarrow> (bare_key_ok (hd path) \<longrightarrow> \<not> starts_with (hd path) ''- '')
        \<longrightarrow> (is_table v \<longrightarrow> list_all bare_key_ok path) \<longrightarrow> toon_clean frepr fread v \<longrightarrow> depth + nesting v \<le> toon_max_depth
        \<longrightarrow> stops rest (Suc (off + 2 * level)) \<longrightarrow> reads_mapping fread (assign out path (column_order True v)) rest (off + 2 * level) r
        \<longrightarrow> reads_mapping fread out (place off (emit_pair frepr repr head v level depth) @ rest) (off + 2 * level) r)"

definition items_back :: "(string \<Rightarrow> pyfloat option) \<Rightarrow> (pyfloat \<Rightarrow> string) \<Rightarrow> (json \<Rightarrow> string) \<Rightarrow> json list \<Rightarrow> nat \<Rightarrow> nat \<Rightarrow> bool" where
  "items_back fread frepr repr xs level depth \<longleftrightarrow>
     (\<forall>out rs off. (\<forall>x \<in> set xs. toon_clean frepr fread x \<and> depth + nesting x \<le> toon_max_depth) \<longrightarrow> stops rs (off + 2 * level)
        \<longrightarrow> reads_sequence fread out (place off (emit_sequence frepr repr xs level depth) @ rs) (off + 2 * level)
              (JArr (out @ map (column_order False) xs), rs))"

lemma place_first: "ls \<noteq> [] \<Longrightarrow> place off ls \<noteq> [] \<and> fst (hd (place off ls)) = off + 2 * fst (hd ls) \<and> snd (hd (place off ls)) = snd (hd ls)"
  by (cases ls) simp_all

lemma nested_mapping:
  assumes "maps_back fread frepr repr d (level + 1) (depth + 1)" "d \<noteq> []" "toon_clean frepr fread (JObj d)"
    "depth + nesting (JObj d) \<le> toon_max_depth" "stops rest (Suc (off + 2 * level))"
  defines "ls \<equiv> place off (emit_mapping frepr repr d (level + 1) (depth + 1))"
  shows "ls \<noteq> []" "fst (hd ls) = off + 2 * level + 2"
    "reads_block fread (ls @ rest) (off + 2 * level + 2) (column_order True (JObj d), rest)"
proof -
  have members: "\<forall>p \<in> set d. (depth + 1) + nesting (snd p) \<le> toon_max_depth" using assms(4) nesting_member [of _ d] by fastforce
  have "(depth + 1) + nesting (JObj d) \<le> Suc toon_max_depth" using assms(4) by simp
  note first = emit_mapping_first [OF assms(2,3) this, of repr "level + 1"]
  then show ls: "ls \<noteq> []" "fst (hd ls) = off + 2 * level + 2" using place_first [OF first(1), of off] by (simp_all add: ls_def)
  have quiet: "stops rest (off + 2 * (level + 1))" using assms(5) by (auto simp: stops_def)
  have "reads_mapping fread [] (ls @ rest) (off + 2 * (level + 1)) (JObj ([] @ map (\<lambda>p. (fst p, column_order True (snd p))) d), rest)"
    unfolding ls_def by (rule assms(1) [unfolded maps_back_def, rule_format]) (use assms(3) members quiet in simp_all)
  then show "reads_block fread (ls @ rest) (off + 2 * level + 2) (column_order True (JObj d), rest)"
    using ls first place_first [OF first(1), of off] by (intro block_mapping) (simp_all add: ls_def)
qed

lemma nested_sequence:
  assumes "items_back fread frepr repr xs (level + 1) (depth + 1)" "xs \<noteq> []" "toon_clean frepr fread (JArr xs)"
    "depth + nesting (JArr xs) \<le> toon_max_depth" "stops rest (Suc (off + 2 * level))"
  defines "ls \<equiv> place off (emit_sequence frepr repr xs (level + 1) (depth + 1))"
  shows "ls \<noteq> []" "fst (hd ls) = off + 2 * level + 2"
    "reads_block fread (ls @ rest) (off + 2 * level + 2) (column_order False (JArr xs), rest)"
proof -
  have members: "\<forall>x \<in> set xs. toon_clean frepr fread x \<and> (depth + 1) + nesting x \<le> toon_max_depth"
    using assms(3,4) nesting_item [of _ xs] by fastforce
  note first = emit_sequence_first [OF assms(2), of frepr repr "level + 1" "depth + 1"]
  show ls: "ls \<noteq> []" "fst (hd ls) = off + 2 * level + 2" using place_first [of _ off] first by (simp_all add: ls_def)
  have "stops rest (off + 2 * (level + 1))" using assms(5) by (auto simp: stops_def)
  then have "reads_sequence fread [] (ls @ rest) (off + 2 * (level + 1)) (JArr ([] @ map (column_order False) xs), rest)"
    using assms(1) members unfolding items_back_def ls_def by blast
  then show "reads_block fread (ls @ rest) (off + 2 * level + 2) (column_order False (JArr xs), rest)"
    using ls first place_first [of _ off] by (intro block_sequence) (simp_all add: ls_def)
qed

lemma pair_scalar:
  assumes "is_scalar v"
  shows "pairs_back fread frepr repr head v level depth"
proof -
  have lines: "emit_pair frepr repr h v level depth = [(level, h @ '': '' @ toon_scalar frepr False v)]" for h
    using assms by (cases v) (simp_all add: is_scalar_def)
  have same: "column_order True v = v" and ok: "toon_clean frepr fread v = scalar_ok frepr fread v"
    using assms by (cases v; simp add: is_scalar_def)+
  show ?thesis
    unfolding pairs_back_def lines
  proof (intro allI impI)
    fix path out rest off r
    assume *: "head = path_head path" "path_ok path" "bare_key_ok (hd path) \<longrightarrow> \<not> starts_with (hd path) ''- ''" "toon_clean frepr fread v"
      "reads_mapping fread (assign out path (column_order True v)) rest (off + 2 * level) r"
    have "scalar_ok frepr fread v" using *(4) ok by simp
    then have "parse_scalar fread (toon_scalar frepr False v) = v" "toon_scalar frepr False v \<noteq> []"
      using parse_toon_scalar solid_toon_scalar [of frepr fread v False] by (auto simp: solid_def)
    with * same show "reads_mapping fread out (place off [(level, head @ '': '' @ toon_scalar frepr False v)] @ rest) (off + 2 * level) r"
      using read_inline [of path "toon_scalar frepr False v" fread out rest "off + 2 * level" r] by simp
  qed
qed

lemma pair_object:
  assumes "d \<noteq> [] \<Longrightarrow> \<not> toon_max_depth \<le> depth \<Longrightarrow> maps_back fread frepr repr d (level + 1) (depth + 1)"
  shows "pairs_back fread frepr repr head (JObj d) level depth"
  unfolding pairs_back_def
proof (intro allI impI)
  fix path out rest off r
  assume *: "head = path_head path" "path_ok path" "bare_key_ok (hd path) \<longrightarrow> \<not> starts_with (hd path) ''- ''"
    "toon_clean frepr fread (JObj d)" "depth + nesting (JObj d) \<le> toon_max_depth" "stops rest (Suc (off + 2 * level))"
    "reads_mapping fread (assign out path (column_order True (JObj d))) rest (off + 2 * level) r"
  have shallow: "\<not> toon_max_depth \<le> depth" using *(5) by simp
  show "reads_mapping fread out (place off (emit_pair frepr repr head (JObj d) level depth) @ rest) (off + 2 * level) r"
  proof (cases "d = []")
    case True
    have "reads_mapping fread out ((off + 2 * level, path_head path @ '': '' @ ''{}'') # rest) (off + 2 * level) r"
      by (rule read_inline) (use * True in \<open>simp_all add: parse_words\<close>)
    then show ?thesis using True *(1) shallow by simp
  next
    case False
    note nested = nested_mapping [OF assms [OF False shallow] False *(4,5,6)]
    have "reads_mapping fread out ((off + 2 * level, path_head path @ '':'')
        # place off (emit_mapping frepr repr d (level + 1) (depth + 1)) @ rest) (off + 2 * level) r"
      by (rule read_nested [OF *(2) _ nested(1,2) _ nested(3) *(7)]) (use *(3) in simp_all)
    then show ?thesis using False *(1) shallow by simp
  qed
qed

lemma pair_array:
  assumes "xs \<noteq> [] \<Longrightarrow> \<not> toon_max_depth \<le> depth \<Longrightarrow> table_columns xs = None \<Longrightarrow> items_back fread frepr repr xs (level + 1) (depth + 1)"
  shows "pairs_back fread frepr repr head (JArr xs) level depth"
  unfolding pairs_back_def
proof (intro allI impI)
  fix path out rest off r
  assume *: "head = path_head path" "path_ok path" "bare_key_ok (hd path) \<longrightarrow> \<not> starts_with (hd path) ''- ''"
    "is_table (JArr xs) \<longrightarrow> list_all bare_key_ok path"
    "toon_clean frepr fread (JArr xs)" "depth + nesting (JArr xs) \<le> toon_max_depth" "stops rest (Suc (off + 2 * level))"
    "reads_mapping fread (assign out path (column_order True (JArr xs))) rest (off + 2 * level) r"
  have shallow: "\<not> toon_max_depth \<le> depth" using *(6) by simp
  show "reads_mapping fread out (place off (emit_pair frepr repr head (JArr xs) level depth) @ rest) (off + 2 * level) r"
  proof (cases "table_columns xs")
    case (Some cols)
    have path: "list_all bare_key_ok path" "path \<noteq> []" using *(2,4) Some by (auto simp: is_table_def path_ok_def)
    then have "\<not> starts_with (hd path) ''- ''" using *(3) by (cases path) auto
    from read_table [OF path this Some _ _ *(8)] *(5,7) show ?thesis
      using Some shallow *(1) table_columnsD(5) [OF Some] by (simp add: stops_def less_Suc_eq_le)
  next
    case None
    show ?thesis
    proof (cases "xs = []")
      case True
      have "reads_mapping fread out ((off + 2 * level, path_head path @ '': '' @ ''[]'') # rest) (off + 2 * level) r"
        by (rule read_inline) (use * True in \<open>simp_all add: parse_words table_columns_def\<close>)
      then show ?thesis using True *(1) shallow by simp
    next
      case False
      note nested = nested_sequence [OF assms [OF False shallow None] False *(5,6,7)]
      have "reads_mapping fread (assign out path (column_order False (JArr xs))) rest (off + 2 * level) r" using *(8) None by simp
      from read_nested [OF *(2) _ nested(1,2) _ nested(3) this]
      have "reads_mapping fread out ((off + 2 * level, path_head path @ '':'')
          # place off (emit_sequence frepr repr xs (level + 1) (depth + 1)) @ rest) (off + 2 * level) r"
        using *(3) by simp
      then show ?thesis using False None *(1) shallow by simp
    qed
  qed
qed

lemma mapping_next:
  assumes "toon_clean frepr fread (JObj d)" "\<forall>p \<in> set d. depth + nesting (snd p) \<le> toon_max_depth" "stops rs (off + 2 * level)"
  shows "stops (place off (emit_mapping frepr repr d level depth) @ rs) (Suc (off + 2 * level))"
proof (cases "d = []")
  case False
  have "foldr max (map (\<lambda>p. nesting (snd p)) d) 0 \<le> toon_max_depth - depth" using assms(2) by (induction d) auto
  moreover have "depth \<le> toon_max_depth" using assms(2) False by (cases d) auto
  ultimately have "depth + nesting (JObj d) \<le> Suc toon_max_depth" by simp
  from emit_mapping_first [OF False assms(1) this, of repr level] place_first [of "emit_mapping frepr repr d level depth" off]
  show ?thesis by (simp add: stops_def)
qed (use assms(3) in \<open>auto simp: stops_def\<close>)

lemma sequence_next:
  assumes "stops rs (off + 2 * level)"
  shows "stops (place off (emit_sequence frepr repr xs level depth) @ rs) (Suc (off + 2 * level))"
  using assms emit_sequence_first [of xs frepr repr level depth] place_first [of "emit_sequence frepr repr xs level depth" off]
  by (cases "xs = []") (auto simp: stops_def)

lemma maps_back_cons:
  assumes "pairs_back fread frepr repr (path_head (fst (fold_path depth [k] v))) (snd (fold_path depth [k] v)) level
      (depth + length (fst (fold_path depth [k] v)) - 1)"
    "maps_back fread frepr repr d level depth"
  shows "maps_back fread frepr repr ((k, v) # d) level depth"
  unfolding maps_back_def
proof (intro allI impI)
  fix out :: "(string, json) dict" and rs off
  assume *: "toon_clean frepr fread (JObj ((k, v) # d))" "\<forall>p \<in> set ((k, v) # d). depth + nesting (snd p) \<le> toon_max_depth"
    "set (map fst ((k, v) # d)) \<inter> set (dkeys out) = {}" "stops rs (off + 2 * level)"
  let ?w = "snd (fold_path depth [k] v)"
  let ?rest = "place off (emit_mapping frepr repr d level depth) @ rs"
  let ?r = "(JObj (out @ map (\<lambda>p. (fst p, column_order True (snd p))) ((k, v) # d)), rs)"
  have d: "toon_clean frepr fread (JObj d)" "\<forall>p \<in> set d. depth + nesting (snd p) \<le> toon_max_depth" using * by simp_all
  have kv: "toon_clean frepr fread v" "key_ok k v" "depth + nesting v \<le> toon_max_depth" using * by simp_all
  from folded_pair [OF kv] obtain ks where ks: "fst (fold_path depth [k] v) = k # ks" "v = wrap ks ?w" "path_ok (k # ks)"
    "bare_key_ok k \<Longrightarrow> \<not> starts_with k ''- ''" "is_table ?w \<Longrightarrow> list_all bare_key_ok (k # ks)" "toon_clean frepr fread ?w"
    "depth + length (k # ks) - 1 + nesting ?w \<le> toon_max_depth" by metis
  have set: "assign out (k # ks) (column_order True ?w) = out @ [(k, column_order True v)]"
    using assign_nested [of k out ks "column_order True ?w"] order_wrap [of ks ?w] ks(2) *(3) by simp
  have after: "reads_mapping fread (assign out (k # ks) (column_order True ?w)) ?rest (off + 2 * level) ?r"
    using assms(2) [unfolded maps_back_def, rule_format, of "out @ [(k, column_order True v)]" rs off] d *(1,3,4) by (simp add: set)
  have "reads_mapping fread out (place off (emit_pair frepr repr (path_head (k # ks)) ?w level (depth + length (k # ks) - 1)) @ ?rest)
      (off + 2 * level) ?r"
  proof (rule assms(1) [unfolded pairs_back_def ks(1), rule_format, OF refl ks(3)])
    show "stops ?rest (Suc (off + 2 * level))" using mapping_next [OF d *(4)] .
  qed (use ks after in \<open>simp_all only: list.sel simp_thms\<close>)
  then show "reads_mapping fread out (place off (emit_mapping frepr repr ((k, v) # d) level depth) @ rs) (off + 2 * level) ?r"
    by (simp add: ks(1))
qed

lemma items_back_scalar:
  assumes "is_scalar v" "items_back fread frepr repr xs level depth"
  shows "items_back fread frepr repr (v # xs) level depth"
  unfolding items_back_def
proof (intro allI impI)
  fix out rs off
  assume *: "\<forall>x \<in> set (v # xs). toon_clean frepr fread x \<and> depth + nesting x \<le> toon_max_depth" "stops rs (off + 2 * level)"
  have lines: "emit_sequence frepr repr (v # xs) level depth = (level, ''- '' @ toon_scalar frepr False v) # emit_sequence frepr repr xs level depth"
    using assms(1) by (cases v) (simp_all add: is_scalar_def)
  have same: "column_order False v = v" and "scalar_ok frepr fread v" using assms(1) * by (cases v; simp add: is_scalar_def)+
  then have v: "parse_scalar fread (toon_scalar frepr False v) = v" "toon_scalar frepr False v \<noteq> []"
    using parse_toon_scalar solid_toon_scalar [of frepr fread v False] by (auto simp: solid_def)
  show "reads_sequence fread out (place off (emit_sequence frepr repr (v # xs) level depth) @ rs) (off + 2 * level)
      (JArr (out @ map (column_order False) (v # xs)), rs)"
    using sequence_scalar [OF _ v(2), of fread out] v(1) same * assms(2) [unfolded items_back_def, rule_format, of rs off "out @ [v]"]
    by (simp add: lines)
qed

lemma items_back_object:
  assumes "\<not> toon_max_depth \<le> depth \<Longrightarrow> d \<noteq> [] \<Longrightarrow> maps_back fread frepr repr d (level + 1) (depth + 1)"
    "items_back fread frepr repr xs level depth"
  shows "items_back fread frepr repr (JObj d # xs) level depth"
  unfolding items_back_def
proof (intro allI impI)
  fix out rs off
  assume *: "\<forall>x \<in> set (JObj d # xs). toon_clean frepr fread x \<and> depth + nesting x \<le> toon_max_depth" "stops rs (off + 2 * level)"
  have v: "toon_clean frepr fread (JObj d)" "depth + nesting (JObj d) \<le> toon_max_depth" and shallow: "\<not> toon_max_depth \<le> depth" using * by auto
  note next' = sequence_next [OF *(2), of frepr repr xs depth]
  have after: "reads_sequence fread (out @ [column_order True (JObj d)]) (place off (emit_sequence frepr repr xs level depth) @ rs) (off + 2 * level)
      (JArr (out @ map (column_order False) (JObj d # xs)), rs)"
    using assms(2) [unfolded items_back_def, rule_format, of rs off "out @ [column_order True (JObj d)]"] * by simp
  show "reads_sequence fread out (place off (emit_sequence frepr repr (JObj d # xs) level depth) @ rs) (off + 2 * level)
      (JArr (out @ map (column_order False) (JObj d # xs)), rs)"
  proof (cases "d = []")
    case True
    with after show ?thesis using shallow sequence_scalar [of fread out "''{}''"] by (simp add: parse_words)
  next
    case False
    note nested = nested_mapping [OF assms(1) [OF shallow False] False v next']
    show ?thesis using sequence_block [OF _ _ _ after] nested False shallow by (simp add: hd_append)
  qed
qed

lemma items_back_array:
  assumes "\<not> toon_max_depth \<le> depth \<Longrightarrow> ys \<noteq> [] \<Longrightarrow> items_back fread frepr repr ys (level + 1) (depth + 1)"
    "items_back fread frepr repr xs level depth"
  shows "items_back fread frepr repr (JArr ys # xs) level depth"
  unfolding items_back_def
proof (intro allI impI)
  fix out rs off
  assume *: "\<forall>x \<in> set (JArr ys # xs). toon_clean frepr fread x \<and> depth + nesting x \<le> toon_max_depth" "stops rs (off + 2 * level)"
  have v: "toon_clean frepr fread (JArr ys)" "depth + nesting (JArr ys) \<le> toon_max_depth" and shallow: "\<not> toon_max_depth \<le> depth" using * by auto
  note next' = sequence_next [OF *(2), of frepr repr xs depth]
  have after: "reads_sequence fread (out @ [column_order False (JArr ys)]) (place off (emit_sequence frepr repr xs level depth) @ rs) (off + 2 * level)
      (JArr (out @ map (column_order False) (JArr ys # xs)), rs)"
    using assms(2) [unfolded items_back_def, rule_format, of rs off "out @ [column_order False (JArr ys)]"] * by simp
  show "reads_sequence fread out (place off (emit_sequence frepr repr (JArr ys # xs) level depth) @ rs) (off + 2 * level)
      (JArr (out @ map (column_order False) (JArr ys # xs)), rs)"
  proof (cases "ys = []")
    case True
    with after show ?thesis using shallow sequence_scalar [of fread out "''[]''"] by (simp add: parse_words)
  next
    case False
    note nested = nested_sequence [OF assms(1) [OF shallow False] False v next']
    show ?thesis using sequence_block [OF _ _ _ after] nested False shallow by (simp add: hd_append)
  qed
qed

lemma lines_back:
  "maps_back fread frepr repr d level depth"
  "pairs_back fread frepr repr head v level depth"
  "items_back fread frepr repr xs level depth"
proof (induction frepr repr d level depth and frepr repr head v level depth and frepr repr xs level depth
    rule: emit_mapping_emit_pair_emit_sequence.induct)
  case (1 frepr repr level depth)
  show ?case by (auto simp: maps_back_def stops_def intro!: mapping_end)
next
  case (2 frepr repr k v d level depth)
  then show ?case by (rule maps_back_cons)
next
  case (3 frepr repr head d level depth)
  then show ?case by (intro pair_object) blast
next
  case (4 frepr repr head xs level depth)
  then show ?case by (intro pair_array) blast
next
  case (6 frepr repr level depth)
  show ?case by (auto simp: items_back_def stops_def intro!: sequence_end)
next
  case (7 frepr repr d xs level depth)
  then show ?case by (intro items_back_object) blast+
next
  case (8 frepr repr ys xs level depth)
  then show ?case by (intro items_back_array) blast+
qed (intro pair_scalar items_back_scalar; simp add: is_scalar_def)+

section \<open>Every line of a document stands on its own\<close>

lemma solid_append: "solid a \<Longrightarrow> b \<noteq> [] \<Longrightarrow> \<not> is_space (last b) \<Longrightarrow> newline \<notin> set b \<Longrightarrow> solid (a @ b)"
  by (auto simp: solid_def)

lemma solid_join: "ts \<noteq> [] \<Longrightarrow> list_all solid ts \<Longrightarrow> c \<noteq> newline \<Longrightarrow> solid (join_with c ts)"
proof (induction c ts rule: join_with.induct)
  case (3 c t u ts)
  then have "solid (join_with c (u # ts))" "solid t" by simp_all
  then show ?case using 3(4) by (auto simp: solid_def)
qed simp_all

lemma solid_key: "solid (key_text k)"
  by (simp add: key_text_def bare_key_facts)

lemma solid_head:
  assumes "path_ok path"
  shows "solid (path_head path)"
  using assms bare_key_facts(2) solid_key
  by (auto simp: path_head_def path_ok_def list_all_iff toon_chars intro!: solid_join)

lemma solid_text: "solid (text_scalar cell t)"
  by (cases rule: text_scalar_cases [of cell t]) (simp_all add: bare_value_facts)

definition all_solid :: "toon_line list \<Rightarrow> bool" where
  "all_solid ls = list_all (\<lambda>l. solid (snd l)) ls"

lemma all_solid_simps [simp]: "all_solid []" "all_solid (l # ls) \<longleftrightarrow> solid (snd l) \<and> all_solid ls"
  "all_solid (ls @ ms) \<longleftrightarrow> all_solid ls \<and> all_solid ms"
  by (simp_all add: all_solid_def)

lemma solid_ends: "\<not> is_space CHR '':''" "\<not> is_space CHR ''}''" "\<not> is_space CHR '']''" "CHR '':'' \<noteq> newline" "CHR '' '' \<noteq> newline" "CHR '','' \<noteq> newline"
  by (simp_all add: is_space_def toon_chars Let_def)

lemma solid_colon: "solid head \<Longrightarrow> solid (head @ '':'')" "solid head \<Longrightarrow> solid t \<Longrightarrow> solid (head @ '': '' @ t)"
  "solid t \<Longrightarrow> solid (''- '' @ t)"
  using solid_ends by (auto simp: solid_def is_space_def toon_chars Let_def)

lemma solid_table_head:
  assumes "solid head" "cols \<noteq> []" "list_all bare_key_ok cols"
  shows "solid (head @ ''['' @ str_nat n @ '']{'' @ join_with CHR '','' cols @ ''}:'')"
proof -
  have "solid (join_with CHR '','' cols)" using assms(2,3) bare_key_facts(2) solid_ends by (auto simp: list_all_iff intro!: solid_join)
  moreover have "newline \<notin> set (str_nat n)" using str_nat_digits [of n] by (auto simp: digits_def list_all_iff is_digit_def toon_chars)
  ultimately show ?thesis using assms(1) solid_ends by (intro solid_append) (auto simp: solid_def toon_chars)
qed

lemma solid_row:
  assumes "is_row cols row" "toon_clean frepr fread row" "cols \<noteq> []"
  shows "solid (table_row frepr cols row)"
proof -
  have "solid (toon_scalar frepr True (dget_or (row_of row) c JNull))" if "c \<in> set cols" for c
    using row_scalars [OF assms(1,2) that] by (rule solid_toon_scalar)
  then show ?thesis using assms(3) solid_ends by (auto simp: table_row_def list_all_iff intro!: solid_join)
qed

lemma folded_clean:
  assumes "toon_clean frepr fread v"
  shows "path_ok (fst (fold_path depth [k] v))" "toon_clean frepr fread (snd (fold_path depth [k] v))"
proof -
  obtain ks where ks: "fst (fold_path depth [k] v) = k # ks" "v = wrap ks (snd (fold_path depth [k] v))"
    "if ks = [] then True else bare_key_ok k \<and> list_all bare_key_ok ks"
    using fold_path_spec [of "[k]" depth v] by (auto split: if_splits)
  then show "path_ok (fst (fold_path depth [k] v))" by (auto simp: path_ok_def)
  show "toon_clean frepr fread (snd (fold_path depth [k] v))" using assms ks(2) clean_wrap by metis
qed

lemma solid_table:
  assumes "table_columns xs = Some cols" "\<forall>x \<in> set xs. toon_clean frepr fread x" "solid head"
  shows "all_solid ((level, head @ ''['' @ str_nat (length xs) @ '']{'' @ join_with CHR '','' cols @ ''}:'')
    # map (\<lambda>row. (level + 1, table_row frepr cols row)) xs)"
proof -
  note c = table_columnsD [OF assms(1)]
  have "solid (table_row frepr cols row)" if "row \<in> set xs" for row
    using solid_row [of cols row frepr fread] c(1,4) assms(2) that by (auto simp: list_all_iff)
  with solid_table_head [OF assms(3) c(1,3)] show ?thesis by (auto simp: all_solid_def list_all_iff)
qed

lemma solid_marks: "solid ''-''" "solid ''- {}''" "solid ''- []''" "solid head \<Longrightarrow> solid (head @ '': {}'')" "solid head \<Longrightarrow> solid (head @ '': []'')"
  using solid_colon(2) [of head "''{}''"] solid_colon(2) [of head "''[]''"] solid_words
  by (simp_all add: solid_def is_space_def toon_chars Let_def)

lemma solid_lines:
  "toon_clean frepr fread (JObj d) \<Longrightarrow> all_solid (emit_mapping frepr repr d level depth)"
  "solid head \<Longrightarrow> toon_clean frepr fread v \<Longrightarrow> all_solid (emit_pair frepr repr head v level depth)"
  "\<forall>x \<in> set xs. toon_clean frepr fread x \<Longrightarrow> all_solid (emit_sequence frepr repr xs level depth)"
proof (induction frepr repr d level depth and frepr repr head v level depth and frepr repr xs level depth
    rule: emit_mapping_emit_pair_emit_sequence.induct)
  case (2 frepr repr k v d level depth)
  then have "toon_clean frepr fread v" "toon_clean frepr fread (JObj d)" by simp_all
  with 2 folded_clean [of frepr fread v depth k] solid_head show ?case by simp
next
  case (3 frepr repr head d level depth)
  then show ?case using solid_marks solid_colon solid_text by auto
next
  case (4 frepr repr head xs level depth)
  show ?case
  proof (cases "table_columns xs")
    case None
    with 4 show ?thesis using solid_marks solid_colon solid_text by auto
  next
    case (Some cols)
    with 4(3) solid_table [OF Some _ 4(2), of frepr fread] show ?thesis using solid_marks solid_colon solid_text 4(2) by auto
  qed
next
  case (7 frepr repr d xs level depth)
  then show ?case using solid_marks solid_colon solid_text by auto
next
  case (8 frepr repr ys xs level depth)
  then show ?case using solid_marks solid_colon solid_text by auto
qed (use solid_colon solid_toon_scalar in \<open>auto simp del: toon_scalar.simps\<close>)

section \<open>Whole documents\<close>

lemma parse_lone_line:
  assumes "\<not> is_item line" "split_head line = None" "reads_block fread [(i, line)] i (v, rest)"
  shows "v = JObj []"
proof -
  obtain n where "parse_block fread n [(i, line)] i = Some (v, rest)" using assms(3) by (auto simp: reads_block_def)
  then have "parse_block fread (n + 3) [(i, line)] i = Some (v, rest)" by (rule fuel_add)
  then show ?thesis using assms(1,2) by (simp add: numeral_3_eq_3)
qed

lemma decode_block:
  assumes "ls \<noteq> []" "all_solid ls" "fst (hd ls) = 0" "v \<noteq> JObj []"
    "reads_block fread (place (nat (max 0 indent)) ls) (nat (max 0 indent)) (v, rest)"
  shows "toon_decode fread (join_with newline (map (render_line indent) ls)) = v"
proof -
  let ?n = "nat (max 0 indent)"
  let ?rows = "place ?n ls"
  have rows: "concat (map read_line (split_on newline (join_with newline (map (render_line indent) ls)))) = ?rows"
    unfolding place_def using assms(1,2) by (intro read_document) (simp_all add: all_solid_def)
  have first: "?rows \<noteq> []" "fst (hd ?rows) = ?n" using place_first [OF assms(1)] assms(3) by simp_all
  have parsed: "parse_block fread (2 * length ?rows + 2) ?rows ?n = Some (v, rest)"
    using assms(5) by (rule block_with_enough) simp
  have many: "\<not> (length ?rows = 1 \<and> \<not> is_item (snd (hd ?rows)) \<and> split_head (snd (hd ?rows)) = None)"
  proof
    assume one: "length ?rows = 1 \<and> \<not> is_item (snd (hd ?rows)) \<and> split_head (snd (hd ?rows)) = None"
    then have "?rows = [(?n, snd (hd ?rows))]" using first by (cases ?rows) auto
    with parse_lone_line [of "snd (hd ?rows)" fread ?n v rest] one assms(4,5) show False by metis
  qed
  show ?thesis unfolding toon_decode_def rows Let_def if_not_P [OF first(1)] if_not_P [OF many] first(2) parsed by simp
qed

lemma decode_line:
  assumes "solid line" "\<not> is_item line" "split_head line = None"
  shows "toon_decode fread (join_with newline (map (render_line indent) [(0, line)])) = parse_scalar fread line"
proof -
  have "concat (map read_line (split_on newline (join_with newline (map (render_line indent) [(0, line)])))) = [(nat (max 0 indent), line)]"
    using read_document [of "[(0, line)]" indent] assms(1) by simp
  then show ?thesis unfolding toon_decode_def Let_def using assms(2,3) by simp
qed

lemma split_head_none: "CHR '':'' \<notin> set line \<Longrightarrow> line \<noteq> [] \<Longrightarrow> hd line \<noteq> dquote \<Longrightarrow> split_head line = None"
  "split_head (toon_quote t) = None"
  subgoal by (cases line) (simp_all add: split_head_def dropWhile_eq_Nil_conv)
  subgoal using read_quoted_quote [of t "[]"] by (simp add: split_head_def toon_quote_def)
  done

lemma decode_scalar:
  assumes "scalar_ok frepr fread v" "v \<noteq> JStr ''-''"
  shows "toon_decode fread (join_with newline (map (render_line indent) [(0, root_scalar frepr v)])) = v"
proof -
  let ?t = "toon_scalar frepr False v"
  have quoted: "toon_decode fread (join_with newline (map (render_line indent) [(0, toon_quote s)])) = JStr s" for s
    using decode_line [of "toon_quote s" fread indent] quote_no_item [of s "[]"] split_head_none(2) [of s] parse_quote by simp
  have plain: "toon_decode fread (join_with newline (map (render_line indent) [(0, ?t)])) = v"
    if "solid ?t" "\<not> is_item ?t" "split_head ?t = None"
    using decode_line [OF that] parse_toon_scalar [OF assms(1), of False] by simp
  show ?thesis
  proof (cases rule: toon_scalar_cases [OF assms(1), of False])
    case (1 s)
    then have "root_scalar frepr v = ?t" by (simp add: root_scalar_def toon_quote_def)
    with plain 1 quote_no_item [of s "[]"] split_head_none(2) [of s] show ?thesis by simp
  next
    case 2
    have head: "take 1 ?t \<noteq> [dquote]" using 2(1,2) by (cases ?t) (simp_all add: solid_def)
    show ?thesis
    proof (cases "CHR '':'' \<in> set ?t")
      case True
      then obtain s where "v = JStr s" using 2(4) by blast
      moreover from this have "root_scalar frepr v = toon_quote s" using head True by (simp add: root_scalar_def)
      ultimately show ?thesis using quoted by simp
    next
      case False
      then have "root_scalar frepr v = ?t" by (simp add: root_scalar_def)
      moreover have "split_head ?t = None" using False 2(1,2) by (intro split_head_none(1)) (simp_all add: solid_def)
      ultimately show ?thesis using plain 2(1,5) assms(2) by auto
    qed
  qed
qed

lemma decode_encode:
  assumes "toon_clean frepr fread v" "nesting v \<le> Suc toon_max_depth" "v \<noteq> JStr ''-''"
  shows "toon_decode fread (toon_encode frepr repr indent v) = column_order False v"
proof -
  let ?n = "nat (max 0 indent)"
  have empty: "toon_decode fread (join_with newline (map (render_line indent) [(0, ''[]'')])) = JArr []"
    "toon_decode fread (join_with newline (map (render_line indent) [(0, ''{}'')])) = JObj []"
    using decode_line [of "''[]''" fread indent] decode_line [of "''{}''" fread indent] solid_words split_head_none(1) [of "''[]''"]
      split_head_none(1) [of "''{}''"] parse_words by (simp_all add: is_item_def toon_chars)
  have scalar: ?thesis if "is_scalar v"
  proof -
    have "column_order False v = v" "scalar_ok frepr fread v" "toon_lines frepr repr v = [(0, root_scalar frepr v)]"
      using that assms(1) by (cases v; simp add: is_scalar_def toon_lines_def)+
    with decode_scalar [of frepr fread v indent] assms(3) show ?thesis by (simp add: toon_encode_def)
  qed
  show ?thesis
  proof (cases v)
    case (JArr xs)
    show ?thesis
    proof (cases "xs = []")
      case True
      with JArr empty show ?thesis by (simp add: toon_encode_def toon_lines_def)
    next
      case False
      let ?ls = "emit_sequence frepr repr xs 0 0"
      have members: "toon_clean frepr fread x \<and> 0 + nesting x \<le> toon_max_depth" if "x \<in> set xs" for x
        using assms(1,2) nesting_item [of x xs] that JArr by simp
      have "reads_sequence fread [] (place ?n ?ls @ []) (?n + 2 * 0) (JArr ([] @ map (column_order False) xs), [])"
        by (rule lines_back(3) [unfolded items_back_def, rule_format, OF members]) (simp_all add: stops_def)
      then have "reads_sequence fread [] (place ?n ?ls) ?n (JArr (map (column_order False) xs), [])" by simp
      moreover have first: "?ls \<noteq> []" "fst (hd ?ls) = 0" "is_item (snd (hd ?ls))" using emit_sequence_first [OF False] by simp_all
      ultimately have "reads_block fread (place ?n ?ls) ?n (JArr (map (column_order False) xs), [])"
        using place_first [OF first(1), of ?n] by (intro block_sequence) simp_all
      moreover have "all_solid ?ls" using assms(1) JArr by (intro solid_lines) simp
      ultimately show ?thesis
        using decode_block [OF first(1) _ first(2), of "JArr (map (column_order False) xs)" fread indent "[]"] JArr False
        by (simp add: toon_encode_def toon_lines_def)
    qed
  next
    case (JObj d)
    show ?thesis
    proof (cases "d = []")
      case True
      with JObj empty show ?thesis by (simp add: toon_encode_def toon_lines_def)
    next
      case False
      let ?ls = "emit_mapping frepr repr d 0 0"
      let ?v = "JObj (map (\<lambda>p. (fst p, column_order True (snd p))) d)"
      have members: "\<forall>p \<in> set d. 0 + nesting (snd p) \<le> toon_max_depth" using assms(2) nesting_member [of _ d] JObj by fastforce
      have clean: "toon_clean frepr fread (JObj d)" using assms(1) JObj by simp
      have "reads_mapping fread [] (place ?n ?ls @ []) (?n + 2 * 0) (JObj ([] @ map (\<lambda>p. (fst p, column_order True (snd p))) d), [])"
        by (rule lines_back(1) [unfolded maps_back_def, rule_format, OF clean])
           (use members in \<open>simp_all add: stops_def\<close>)
      then have "reads_mapping fread [] (place ?n ?ls) ?n (?v, [])" by simp
      moreover have first: "?ls \<noteq> []" "fst (hd ?ls) = 0" "\<not> is_item (snd (hd ?ls))"
        using emit_mapping_first [OF False clean, of 0 repr 0] assms(2) JObj by simp_all
      ultimately have "reads_block fread (place ?n ?ls) ?n (?v, [])"
        using place_first [OF first(1), of ?n] by (intro block_mapping) simp_all
      moreover have "all_solid ?ls" using clean by (rule solid_lines)
      ultimately show ?thesis
        using decode_block [OF first(1) _ first(2), of ?v fread indent "[]"] JObj False
        by (simp add: toon_encode_def toon_lines_def)
    qed
  qed (use scalar in \<open>simp_all add: is_scalar_def\<close>)
qed

section \<open>Equality of values\<close>

text \<open>Python's equality of the values: the order of a dictionary's keys does not count.\<close>

function (sequential) same_json :: "json \<Rightarrow> json \<Rightarrow> bool" where
  "same_json (JArr xs) w = (case w of JArr ys \<Rightarrow> length xs = length ys \<and> list_all (\<lambda>(x, y). same_json x y) (zip xs ys) | _ \<Rightarrow> False)"
| "same_json (JObj d) w = (case w of
     JObj e \<Rightarrow> length d = length e \<and> list_all (\<lambda>p. case dget e (fst p) of Some v \<Rightarrow> same_json (snd p) v | None \<Rightarrow> False) d
   | _ \<Rightarrow> False)"
| "same_json v w = (v = w)"
  by pat_completeness auto

termination
  by (relation "measure (\<lambda>p. size (fst p))") (auto dest!: set_zip_leftD simp: less_Suc_eq_le intro: size_list_estimation')

lemma same_scalar: "is_scalar v \<Longrightarrow> same_json v v"
  by (cases v) (simp_all add: is_scalar_def)

lemma same_row:
  assumes "is_row cols row" "toon_clean frepr fread row" "distinct cols"
  shows "same_json (JObj (map (\<lambda>c. (c, dget_or (row_of row) c JNull)) cols)) row"
proof -
  obtain d where row: "row = JObj d" "set (dkeys d) = set cols" "list_all (\<lambda>p. is_scalar (snd p)) d"
    using assms(1) by (cases row) (auto simp: is_row_def)
  have "length d = length cols"
    using assms(2,3) row(1,2) distinct_card [of "map fst d"] distinct_card [of cols] by (simp del: set_map)
  moreover have "\<exists>v. dget d c = Some v \<and> same_json (dget_or d c JNull) v" if c: "c \<in> set cols" for c
  proof -
    obtain v where v: "dget d c = Some v" using c row(2) dget_None_iff [of d c] by (cases "dget d c") auto
    then have "is_scalar v" using row(3) dget_SomeD [OF v] by (auto simp: list_all_iff)
    with v show ?thesis by (simp add: dget_or_def same_scalar)
  qed
  ultimately show ?thesis by (fastforce simp: row(1) row_of_def list_all_iff split: option.splits)
qed

lemma same_order: "toon_clean frepr fread v \<Longrightarrow> same_json (column_order keyed v) v"
proof (induction keyed v rule: column_order.induct)
  case (1 keyed xs)
  show ?case
  proof (cases "if keyed then table_columns xs else None")
    case None
    with 1 show ?thesis by (auto simp: list_all_iff in_set_zip set_zip)
  next
    case (Some cols)
    then have c: "table_columns xs = Some cols" by (simp split: if_splits)
    have "same_json (JObj (map (\<lambda>c. (c, dget_or (row_of x) c JNull)) cols)) x" if "x \<in> set xs" for x
      using table_columnsD(2,4) [OF c] 1(2) that by (intro same_row) (auto simp: list_all_iff)
    then show ?thesis using Some by (auto simp: list_all_iff set_zip)
  qed
next
  case (2 keyed d)
  then show ?case by (auto simp: list_all_iff dget_in_set split: option.splits)
qed simp_all

section \<open>The properties\<close>

text \<open>C4: what the encoder prints for a value, the decoder reads back as that value.\<close>

theorem toon_roundtrip:
  assumes "toon_clean frepr fread v" "nesting v \<le> Suc toon_max_depth" "v \<noteq> JStr ''-''"
  shows "toon_decode fread (toon_encode frepr repr indent v) = column_order False v
    \<and> same_json (toon_decode fread (toon_encode frepr repr indent v)) v"
  using decode_encode [OF assms, of repr indent] same_order [OF assms(1), of False] by simp

text \<open>C30: the reader ends on every list of lines.\<close>

theorem toon_reader_terminates:
  "(\<exists>v rest. parse_block fread (2 * length lines + 2) lines i = Some (v, rest) \<and> length rest \<le> length lines)
   \<and> parse_block fread (2 * length lines + 2 + k) lines i = parse_block fread (2 * length lines + 2) lines i"
proof -
  obtain v rest where "parse_block fread (2 * length lines + 2) lines i = Some (v, rest)" "length rest \<le> length lines"
    using parse_total [of "2 * length lines + 2" fread] by blast
  with fuel_add(1) [OF this(1), of k] show ?thesis by simp
qed

lemma decode_gives_up:
  assumes "concat (map read_line (split_on newline t)) = (i, head) # (j, row) # rest" "split_head head = None" "\<not> is_item head" "j \<noteq> i"
  shows "toon_decode fread t = JObj []"
  unfolding toon_decode_def Let_def assms(1) using assms(2-4) by (simp add: numeral_2_eq_2)

text \<open>
  a table under a key that has to be quoted is not read, and neither is anything after it.
\<close>

theorem table_under_quoted_key_is_lost:
  assumes "\<not> bare_key_ok k" "table_columns xs = Some cols"
    "\<forall>x \<in> set xs. toon_clean frepr fread x" "toon_clean frepr fread (JObj d)"
  shows "toon_decode fread (toon_encode frepr repr indent (JObj ((k, JArr xs) # d))) = JObj []"
proof -
  let ?n = "nat (max 0 indent)"
  let ?head = "toon_quote k @ ''['' @ str_nat (length xs) @ '']{'' @ join_with CHR '','' cols @ ''}:''"
  let ?rows = "map (\<lambda>row. (1, table_row frepr cols row)) xs @ emit_mapping frepr repr d 0 0"
  note c = table_columnsD [OF assms(2)]
  have lines: "toon_lines frepr repr (JObj ((k, JArr xs) # d)) = (0, ?head) # ?rows"
    using assms(1,2) c(5) by (simp add: toon_lines_def path_head_def key_text_def toon_max_depth_def)
  have "all_solid ((0, ?head) # ?rows)"
    using solid_table [OF assms(2,3), of "toon_quote k" 0] solid_lines(1) [OF assms(4), of repr 0 0] by simp
  then have read: "concat (map read_line (split_on newline (toon_encode frepr repr indent (JObj ((k, JArr xs) # d)))))
      = (?n, ?head) # place ?n ?rows"
    unfolding toon_encode_def lines place_def by (subst read_document) (simp_all add: all_solid_def)
  have head: "split_head ?head = None" "\<not> is_item ?head"
    using read_quoted_quote [of k "''['' @ str_nat (length xs) @ '']{'' @ join_with CHR '','' cols @ ''}:''"]
      quote_no_item [of k "''['' @ str_nat (length xs) @ '']{'' @ join_with CHR '','' cols @ ''}:''"]
    by (simp_all add: split_head_def toon_quote_def)
  obtain row where "place ?n ?rows = (?n + 2, row) # tl (place ?n ?rows)" using c(5) by (cases xs) auto
  with read have "concat (map read_line (split_on newline (toon_encode frepr repr indent (JObj ((k, JArr xs) # d)))))
      = (?n, ?head) # (?n + 2, row) # tl (place ?n ?rows)" by metis
  then show ?thesis by (rule decode_gives_up) (use head in simp_all)
qed

section \<open>Witnesses\<close>

definition demo_payload :: json where
  "demo_payload = JObj [(''plan'', JObj [(''steps'', JArr [JObj [(''id'', JInt 7), (''title'', JStr ''a, b'')],
      JObj [(''title'', JStr ''42''), (''id'', JNull)]])]), (''odd:key'', JStr ''- x'')]"

lemma demo_payload_clean: "toon_clean (\<lambda>x. ''1.5'') (\<lambda>t. None) demo_payload" "nesting demo_payload \<le> Suc toon_max_depth"
  by (simp_all add: demo_payload_def key_ok_def is_table_def scalar_ok_def bare_key_ok_def key_forbidden_def toon_chars py_strip_def lstrip_def
      rstrip_def is_space_def toon_max_depth_def Let_def str_nat.simps)

lemma toon_roundtrip_witness:
  "same_json (toon_decode (\<lambda>t. None) (toon_encode (\<lambda>x. ''1.5'') (\<lambda>v. []) 2 demo_payload)) demo_payload"
  by (rule conjunct2 [OF toon_roundtrip [OF demo_payload_clean]]) (simp add: demo_payload_def)

lemma table_under_quoted_key_is_lost_witness:
  "toon_decode (\<lambda>t. None) (toon_encode (\<lambda>x. ''1.5'') (\<lambda>v. []) 0
     (JObj [(''odd:key'', JArr [JObj [(''id'', JNull)], JObj [(''id'', JBool True)]]), (''kept'', JStr ''x'')])) = JObj []"
proof -
  have "\<not> bare_key_ok ''odd:key''" "table_columns [JObj [(''id'', JNull)], JObj [(''id'', JBool True)]] = Some [''id'']"
    "\<forall>x \<in> set [JObj [(''id'', JNull)], JObj [(''id'', JBool True)]]. toon_clean (\<lambda>x. ''1.5'') (\<lambda>t. None) x"
    "toon_clean (\<lambda>x. ''1.5'') (\<lambda>t. None) (JObj [(''kept'', JStr ''x'')])"
    by (simp_all add: key_ok_def is_table_def scalar_ok_def bare_key_ok_def key_forbidden_def toon_chars py_strip_def lstrip_def
      rstrip_def is_space_def Let_def table_columns_def is_row_def is_scalar_def)
  then show ?thesis by (rule table_under_quoted_key_is_lost)
qed

end
