(* ===== verification/Loop_Policy.thy ===== *)
theory Loop_Policy
  imports Py_Values "HOL-Library.Char_ord" "HOL-Library.List_Lexorder"
begin

text \<open>
  The loop breaker of a turn, \<open>src/loop_breaker.py\<close>, class \<open>LoopPolicy\<close>: the streak of identical calls,
  the detector of short cycles, the revisit track, and the ladder nudge / block / stop they climb.

  \<open>json.loads\<close>, \<open>json.dumps\<close>, \<open>repr\<close>, \<open>float\<close>, SHA-256 and \<open>difflib\<close>'s ratio are the fields of a library
  record. Floats are exact reals. A string is a list of 8-bit characters; codes 129, 130 and 131 stand
  for the separator U+241F, the dash and the arrow.
\<close>

section \<open>Fingerprints of calls\<close>

record call_lib =
  cl_loads :: "string \<Rightarrow> json option"
  cl_dumps :: "json \<Rightarrow> string"
  cl_dump_result :: "json \<Rightarrow> string"
  cl_repr :: "json \<Rightarrow> string"
  cl_float :: "string \<Rightarrow> real"
  cl_similar :: "string \<Rightarrow> string \<Rightarrow> bool"
  cl_digest :: "string \<Rightarrow> string"

text \<open>A text that holds JSON is read and normalised again, until a text is not JSON.\<close>

partial_function (option) normalize_args :: "call_lib \<Rightarrow> json \<Rightarrow> string option" where
  "normalize_args L v =
     (case v of
        JArr xs \<Rightarrow> Some (cl_dumps L v)
      | JObj d \<Rightarrow> Some (cl_dumps L v)
      | JStr s \<Rightarrow> (case cl_loads L (py_strip s) of None \<Rightarrow> Some (py_strip s) | Some w \<Rightarrow> normalize_args L w)
      | _ \<Rightarrow> Some (cl_repr L v))"

definition hash_result :: "call_lib \<Rightarrow> json \<Rightarrow> string" where
  "hash_result L v =
     (let t = (case v of JArr xs \<Rightarrow> cl_dump_result L v | JObj d \<Rightarrow> cl_dump_result L v | _ \<Rightarrow> py_str (cl_repr L) v)
      in take 16 (cl_digest L (take 4000 t)))"

text \<open>The revision of a plan update is not progress.\<close>

definition observation_for_tool :: "call_lib \<Rightarrow> string \<Rightarrow> json \<Rightarrow> json \<Rightarrow> json \<times> string" where
  "observation_for_tool L tool args result =
     (let plain = (args, hash_result L result)
      in case result of
           JObj r \<Rightarrow>
             if tool = ''update_plan''
             then (case dget r ''plan_update'' of
                     Some (JObj u) \<Rightarrow>
                       (case dget u ''plan'' of
                          Some (JStr s) \<Rightarrow>
                            let meaningful = JObj (filter (\<lambda>p. fst p \<noteq> ''revision'') u)
                            in (meaningful, hash_result L (JObj
                                 [(''plan_update'', meaningful), (''exit_code'', dget_or r ''exit_code'' JNull)]))
                        | _ \<Rightarrow> plain)
                   | _ \<Rightarrow> plain)
             else plain
         | _ \<Rightarrow> plain)"

section \<open>Numbers and free text of a call\<close>

text \<open>\<open>-?\d+(?:\.\d+)?\<close> at the front of a text.\<close>

definition number_at :: "string \<Rightarrow> (string \<times> string) option" where
  "number_at t =
     (let (sign, r) = (case t of c # cs \<Rightarrow> if c = CHR ''-'' then ([c], cs) else ([], t) | [] \<Rightarrow> ([], t));
          whole = takeWhile is_digit r; after = dropWhile is_digit r
      in if whole = [] then None
         else case after of
                c # f \<Rightarrow>
                  if c = CHR ''.'' \<and> takeWhile is_digit f \<noteq> []
                  then Some (sign @ whole @ c # takeWhile is_digit f, dropWhile is_digit f) else Some (sign @ whole, after)
              | [] \<Rightarrow> Some (sign @ whole, after))"

lemma dropWhile_shorter: "takeWhile P t \<noteq> [] \<Longrightarrow> length (dropWhile P t) < length t"
  by (cases t) (auto split: if_splits simp: length_dropWhile_le less_Suc_eq_le)

lemma number_at_shorter: "number_at t = Some (n, rest) \<Longrightarrow> length rest < length t"
proof -
  assume some: "number_at t = Some (n, rest)"
  have step: "length rest < length r" if whole: "takeWhile is_digit r \<noteq> []" and rest: "rest = dropWhile is_digit r \<or>
      (\<exists>c f. dropWhile is_digit r = c # f \<and> rest = dropWhile is_digit f)" for r :: string
  proof -
    have "length rest \<le> length (dropWhile is_digit r)" using rest length_dropWhile_le [of is_digit] le_SucI by fastforce
    then show ?thesis using dropWhile_shorter [OF whole] by simp
  qed
  show "length rest < length t"
  proof (cases "t \<noteq> [] \<and> hd t = CHR ''-''")
    case True
    then obtain cs where "t = CHR ''-'' # cs" by (cases t) auto
    then show ?thesis using some step [of cs] dropWhile_shorter [of is_digit cs] by (auto simp: number_at_def Let_def less_Suc_eq_le length_dropWhile_le split: list.splits if_splits)
  next
    case False
    then have "(case t of c # cs \<Rightarrow> if c = CHR ''-'' then ([c], cs) else ([], t) | [] \<Rightarrow> ([], t)) = ([], t)" by (cases t) auto
    then show ?thesis using some step [of t] dropWhile_shorter [of is_digit t] by (auto simp: number_at_def Let_def split: list.splits if_splits)
  qed
qed

function mask_numbers :: "string \<Rightarrow> string list \<times> string" where
  "mask_numbers t =
     (case number_at t of
        Some (n, rest) \<Rightarrow> (n # fst (mask_numbers rest), CHR ''#'' # snd (mask_numbers rest))
      | None \<Rightarrow> (case t of [] \<Rightarrow> ([], []) | c # cs \<Rightarrow> (fst (mask_numbers cs), c # snd (mask_numbers cs))))"
  by pat_completeness auto

termination
  by (relation "measure length") (auto dest: number_at_shorter)

declare mask_numbers.simps [simp del]

definition values_of :: "call_lib \<Rightarrow> string \<Rightarrow> real list \<times> bool list" where
  "values_of L t =
     (let ns = fst (mask_numbers t) in (map (cl_float L) ns, map (\<lambda>n. CHR ''.'' \<notin> set n) ns))"

definition free_text_min_chars :: nat where "free_text_min_chars = 40"

definition free_text :: "json \<Rightarrow> string option" where
  "free_text v = (case v of JStr s \<Rightarrow> if free_text_min_chars \<le> length s then Some s else None | _ \<Rightarrow> None)"

definition split_free_text :: "call_lib \<Rightarrow> string \<Rightarrow> string \<times> string list" where
  "split_free_text L nargs =
     (case cl_loads L nargs of
        Some (JObj d) \<Rightarrow>
          let ks = sort (dkeys d); val = (\<lambda>k. dget_or d k JNull)
          in (cl_dumps L (JObj (map (\<lambda>k. (k, case free_text (val k) of Some s \<Rightarrow> JStr ''<text>'' | None \<Rightarrow> val k)) ks)),
              List.map_filter (\<lambda>k. free_text (val k)) ks)
      | _ \<Rightarrow> (nargs, []))"

definition has_identity :: "call_lib \<Rightarrow> string \<Rightarrow> bool" where
  "has_identity L exact_part =
     (case cl_loads L exact_part of
        Some (JObj d) \<Rightarrow> list_ex (\<lambda>p. case snd p of JStr s \<Rightarrow> s \<noteq> ''<text>'' \<and> 5 \<le> length s | _ \<Rightarrow> False) d
      | _ \<Rightarrow> False)"

definition revisit_tolerance :: real where "revisit_tolerance = 12 / 100"

definition close_values :: "real list \<Rightarrow> real list \<Rightarrow> bool list \<Rightarrow> bool" where
  "close_values a b ints \<longleftrightarrow> length a = length b
     \<and> list_all (\<lambda>((x, y), int). if int then x = y else \<not> \<bar>x - y\<bar> > revisit_tolerance) (zip (zip a b) ints)"

section \<open>The policy\<close>

datatype lp_action = LpNone | LpNudge | LpBlock | LpStop

datatype lp_trigger = ByStreak | ByCycle | ByRevisit

type_synonym call_sig = "string \<times> string \<times> string"

record loop_policy =
  lp_nudge_after :: int
  lp_block_after :: int
  lp_stop_after :: int
  lp_cycle_detection :: bool
  lp_min_p2 :: int
  lp_min_long :: int
  lp_last :: "string option"
  lp_streak :: int
  lp_nudged_at :: "int option"
  lp_blocked_at :: "int option"
  lp_blocked :: "string set"
  lp_history :: "call_sig list"
  lp_trigger :: "lp_trigger option"
  lp_period :: "nat option"
  lp_repeats :: "int option"
  lp_reason :: "string option"
  lp_revisit_detection :: bool
  lp_rv_key :: "string option"
  lp_rv_texts :: "string list"
  lp_rv_vectors :: "real list list"
  lp_rv_count :: nat
  lp_rv_nudged :: bool
  lp_rv_run :: "nat option"

definition or_default :: "int \<Rightarrow> int \<Rightarrow> int" where
  "or_default x d = (if x = 0 then d else x)"

text \<open>The constructor with its clamps.\<close>

definition new_loop_policy :: "int \<Rightarrow> int \<Rightarrow> int \<Rightarrow> bool \<Rightarrow> int \<Rightarrow> int \<Rightarrow> bool \<Rightarrow> loop_policy" where
  "new_loop_policy nudge block stop cycles p2 long revisits =
     (let n = max 1 (or_default nudge 3); b = max (n + 1) (or_default block 6); s = max (b + 1) (or_default stop 10)
      in \<lparr>lp_nudge_after = n, lp_block_after = b, lp_stop_after = s, lp_cycle_detection = cycles,
          lp_min_p2 = max 2 (or_default p2 3), lp_min_long = max 2 (or_default long 2),
          lp_last = None, lp_streak = 0, lp_nudged_at = None, lp_blocked_at = None, lp_blocked = {},
          lp_history = [], lp_trigger = None, lp_period = None, lp_repeats = None, lp_reason = None,
          lp_revisit_detection = revisits, lp_rv_key = None, lp_rv_texts = [], lp_rv_vectors = [],
          lp_rv_count = 0, lp_rv_nudged = False, lp_rv_run = None\<rparr>)"

definition default_policy :: loop_policy where
  "default_policy = new_loop_policy 3 6 10 True 3 2 True"

section \<open>The streak of identical calls\<close>

definition unit_sep :: char where "unit_sep = char_of (129::nat)"

definition skipped :: string where "skipped = ''<skipped>''"

definition call_prefix :: "string \<Rightarrow> string \<Rightarrow> string" where
  "call_prefix tool nargs = tool @ unit_sep # nargs @ [unit_sep]"

definition lp_restart :: "string \<Rightarrow> loop_policy \<Rightarrow> loop_policy" where
  "lp_restart sig p = p\<lparr>lp_last := Some sig, lp_streak := 1, lp_nudged_at := None, lp_blocked_at := None\<rparr>"

definition streak_action :: "string \<Rightarrow> loop_policy \<Rightarrow> lp_action \<times> loop_policy" where
  "streak_action tool p =
     (if lp_stop_after p \<le> lp_streak p then (LpStop, p)
      else if lp_block_after p \<le> lp_streak p
        then (LpBlock, if lp_blocked_at p = None
                       then p\<lparr>lp_blocked_at := Some (lp_streak p), lp_blocked := insert tool (lp_blocked p)\<rparr> else p)
      else if lp_nudge_after p \<le> lp_streak p
        then (LpNudge, if lp_nudged_at p = None then p\<lparr>lp_nudged_at := Some (lp_streak p)\<rparr> else p)
      else (LpNone, p))"

definition history_size :: nat where "history_size = 24"

definition remember :: "call_sig \<Rightarrow> loop_policy \<Rightarrow> loop_policy" where
  "remember sig p =
     (let h = lp_history p @ [sig] in p\<lparr>lp_history := drop (length h - history_size) h\<rparr>)"

section \<open>Cycles\<close>

definition min_repeats_for :: "loop_policy \<Rightarrow> nat \<Rightarrow> int" where
  "min_repeats_for p period = (if period = 2 then lp_min_p2 p else lp_min_long p)"

fun step_matches :: "call_sig \<Rightarrow> call_sig \<Rightarrow> bool" where
  "step_matches (t, a, h) (t', a', h') \<longleftrightarrow> t = t' \<and> a = a' \<and> (h = h' \<or> h = skipped \<or> h' = skipped)"

definition chunk_matches :: "call_sig list \<Rightarrow> call_sig list \<Rightarrow> bool" where
  "chunk_matches chunk unit \<longleftrightarrow> length chunk = length unit \<and> list_all (\<lambda>(c, u). step_matches c u) (zip chunk unit)"

definition nth_chunk :: "call_sig list \<Rightarrow> nat \<Rightarrow> nat \<Rightarrow> call_sig list" where
  "nth_chunk hist period i = take period (drop (length hist - i * period) hist)"

text \<open>The loop over \<open>i\<close> from 2 on, left at the first chunk that does not match.\<close>

definition cycle_repeats :: "call_sig list \<Rightarrow> nat \<Rightarrow> nat" where
  "cycle_repeats hist period =
     1 + length (takeWhile (\<lambda>i. chunk_matches (nth_chunk hist period i) (nth_chunk hist period 1)) [2..<length hist div period + 1])"

definition one_call :: "call_sig list \<Rightarrow> bool" where
  "one_call unit \<longleftrightarrow> length (remdups (map (\<lambda>(t, a, h). (t, a)) unit)) \<le> 1"

fun detect_in :: "loop_policy \<Rightarrow> call_sig list \<Rightarrow> nat list \<Rightarrow> (nat \<times> nat \<times> call_sig list) option" where
  "detect_in p hist [] = None"
| "detect_in p hist (period # periods) =
     (if int (length hist div period) < min_repeats_for p period then detect_in p hist periods
      else if one_call (nth_chunk hist period 1) then detect_in p hist periods
      else if min_repeats_for p period \<le> int (cycle_repeats hist period)
        then Some (period, cycle_repeats hist period, nth_chunk hist period 1)
      else detect_in p hist periods)"

definition detect_cycle :: "loop_policy \<Rightarrow> (nat \<times> nat \<times> call_sig list) option" where
  "detect_cycle p = detect_in p (lp_history p) [2, 3, 4]"

definition describe_step :: "call_sig \<Rightarrow> string" where
  "describe_step sig =
     (let (tool, args, h) = sig; short = (if length args \<le> 40 then args else take 37 args @ ''...'')
      in if short \<noteq> [] then tool @ ''('' @ short @ '')'' else tool)"

definition describe_cycle :: "nat \<Rightarrow> nat \<Rightarrow> call_sig list \<Rightarrow> string" where
  "describe_cycle period repeats unit =
     (let steps = map describe_step unit; dash = [char_of (130::nat)]; arrow = [char_of (131::nat)];
          end = '' times with the same results '' @ dash @ '' change approach''
      in if period = 2 then ''alternating between '' @ steps ! 0 @ '' and '' @ steps ! 1 @ '' '' @ str_nat repeats @ end
         else ''cycling through '' @ str_nat period @ '' repeated actions (''
           @ hd steps @ concat (map (\<lambda>s. '' '' @ arrow @ '' '' @ s) (tl steps)) @ '') '' @ str_nat repeats @ end)"

definition cycle_action :: "loop_policy \<Rightarrow> lp_action \<times> loop_policy" where
  "cycle_action p =
     (case detect_cycle p of
        None \<Rightarrow> (LpNone, p)
      | Some (period, repeats, unit) \<Rightarrow>
          let least = min_repeats_for p period;
              block_min = least + (lp_block_after p - lp_nudge_after p);
              stop_min = least + (lp_stop_after p - lp_nudge_after p);
              q = p\<lparr>lp_period := Some period, lp_repeats := Some (int repeats), lp_reason := Some (describe_cycle period repeats unit)\<rparr>
          in if stop_min \<le> int repeats then (LpStop, q)
             else if block_min \<le> int repeats then (LpBlock, q\<lparr>lp_blocked := lp_blocked q \<union> fst ` set unit\<rparr>)
             else if least \<le> int repeats then (LpNudge, q) else (LpNone, q))"

definition forget_cycle :: "loop_policy \<Rightarrow> loop_policy" where
  "forget_cycle p = p\<lparr>lp_period := None, lp_repeats := None, lp_reason := None\<rparr>"

definition lp_finalize :: "lp_action \<Rightarrow> loop_policy \<Rightarrow> lp_action \<times> loop_policy" where
  "lp_finalize action p =
     (if action \<noteq> LpNone then (action, forget_cycle (p\<lparr>lp_trigger := Some ByStreak\<rparr>))
      else if \<not> lp_cycle_detection p then (LpNone, p\<lparr>lp_trigger := None\<rparr>)
      else case cycle_action p of (act, q) \<Rightarrow>
             if act \<noteq> LpNone then (act, q\<lparr>lp_trigger := Some ByCycle\<rparr>)
             else (LpNone, forget_cycle (q\<lparr>lp_trigger := None\<rparr>)))"

section \<open>Revisits\<close>

definition run_to_nudge :: nat where "run_to_nudge = 4"
definition revisits_to_nudge :: nat where "revisits_to_nudge = 2"

definition same_revisit :: "call_lib \<Rightarrow> string \<Rightarrow> string \<Rightarrow> string list \<Rightarrow> loop_policy \<Rightarrow> bool" where
  "same_revisit L key exact_raw texts p \<longleftrightarrow> lp_rv_key p = Some key \<and> length texts = length (lp_rv_texts p)
     \<and> (has_identity L exact_raw \<or> list_all (\<lambda>(a, b). cl_similar L a b) (zip texts (lp_rv_texts p)))"

definition observe_revisit :: "call_lib \<Rightarrow> string \<Rightarrow> string \<Rightarrow> loop_policy \<Rightarrow> bool \<times> loop_policy" where
  "observe_revisit L tool nargs p =
     (if \<not> lp_revisit_detection p then (False, p)
      else
        let (values, ints) = values_of L nargs;
            (exact_raw, texts) = split_free_text L nargs;
            key = tool @ unit_sep # snd (mask_numbers exact_raw)
        in if \<not> same_revisit L key exact_raw texts p \<or> values = []
           then (False, p\<lparr>lp_rv_key := (if values = [] then None else Some key), lp_rv_texts := texts,
                          lp_rv_vectors := (if values = [] then [] else [values]), lp_rv_count := 0, lp_rv_nudged := False\<rparr>)
           else
             let count = (if list_ex (\<lambda>earlier. close_values values earlier ints) (lp_rv_vectors p) then lp_rv_count p + 1 else lp_rv_count p);
                 vectors = lp_rv_vectors p @ [values];
                 q = p\<lparr>lp_rv_count := count, lp_rv_vectors := vectors\<rparr>
             in if \<not> lp_rv_nudged p \<and> run_to_nudge \<le> length vectors \<and> revisits_to_nudge \<le> count
                then (True, q\<lparr>lp_rv_nudged := True, lp_rv_run := Some (length vectors)\<rparr>) else (False, q))"

section \<open>Observing\<close>

text \<open>The arguments are already normalised: see \<open>normalize_args\<close>.\<close>

definition lp_observe :: "call_lib \<Rightarrow> string \<Rightarrow> string \<Rightarrow> string \<Rightarrow> loop_policy \<Rightarrow> lp_action \<times> loop_policy" where
  "lp_observe L tool nargs h p =
     (let pre = call_prefix tool nargs; sig = pre @ h;
          p1 = (if lp_last p = Some sig \<or> lp_last p = Some (pre @ skipped)
                then p\<lparr>lp_last := Some sig, lp_streak := lp_streak p + 1\<rparr> else lp_restart sig p);
          (act, p2) = streak_action tool p1;
          (revisit, p3) = observe_revisit L tool nargs (remember (tool, nargs, h) p2);
          (act', p4) = lp_finalize act p3
      in if act' = LpNone \<and> revisit then (LpNudge, p4\<lparr>lp_trigger := Some ByRevisit\<rparr>) else (act', p4))"

definition lp_observe_skipped :: "string \<Rightarrow> string \<Rightarrow> loop_policy \<Rightarrow> lp_action \<times> loop_policy" where
  "lp_observe_skipped tool nargs p =
     (let pre = call_prefix tool nargs;
          p1 = (if (case lp_last p of None \<Rightarrow> False | Some s \<Rightarrow> s \<noteq> [] \<and> starts_with s pre)
                then p\<lparr>lp_streak := lp_streak p + 1\<rparr> else lp_restart (pre @ skipped) p);
          (act, p2) = streak_action tool p1
      in lp_finalize act (remember (tool, nargs, skipped) p2))"

definition lp_reset :: "loop_policy \<Rightarrow> loop_policy" where
  "lp_reset p = forget_cycle (p\<lparr>lp_last := None, lp_streak := 0, lp_nudged_at := None, lp_blocked_at := None,
     lp_blocked := {}, lp_history := [], lp_trigger := None\<rparr>)"

end
