(* ===== verification/Loop_Theorems.thy ===== *)
theory Loop_Theorems
  imports Loop_Policy
begin

text \<open>
  What the loop breaker guarantees: the ladder for identical calls, silence for calls that move on,
  the exact meaning of a detected cycle, and how far the cycle ladder can be climbed.
\<close>

section \<open>What each stage leaves alone\<close>

text \<open>The settings, the signature, the streak and the history: what the next observation depends on.\<close>

definition lp_core :: "loop_policy \<Rightarrow> int \<times> int \<times> int \<times> bool \<times> int \<times> int \<times> string option \<times> int \<times> call_sig list \<times> bool" where
  "lp_core p = (lp_nudge_after p, lp_block_after p, lp_stop_after p, lp_cycle_detection p, lp_min_p2 p, lp_min_long p,
     lp_last p, lp_streak p, lp_history p, lp_revisit_detection p)"

lemma core_streak: "lp_core (snd (streak_action tool p)) = lp_core p"
  by (simp add: streak_action_def lp_core_def)

lemma core_cycle: "lp_core (snd (cycle_action p)) = lp_core p"
  by (auto simp: cycle_action_def lp_core_def Let_def split: option.split)

lemma core_forget: "lp_core (forget_cycle p) = lp_core p"
  by (simp add: forget_cycle_def lp_core_def)

lemma core_trigger: "lp_core (p\<lparr>lp_trigger := t\<rparr>) = lp_core p"
  by (simp add: lp_core_def)

lemma core_finalize: "lp_core (snd (lp_finalize act p)) = lp_core p"
  using core_cycle [of p] by (cases "cycle_action p") (simp add: lp_finalize_def core_forget core_trigger)

lemma core_revisit: "lp_core (snd (observe_revisit L tool nargs p)) = lp_core p"
  by (simp add: observe_revisit_def lp_core_def Let_def split: prod.split)

lemma blocked_streak: "lp_blocked p \<subseteq> lp_blocked (snd (streak_action tool p))"
  by (auto simp: streak_action_def)

lemma blocked_finalize: "lp_blocked p \<subseteq> lp_blocked (snd (lp_finalize act p))"
  by (auto simp: lp_finalize_def forget_cycle_def cycle_action_def Let_def split: prod.splits option.splits if_splits)

lemma blocked_revisit: "lp_blocked (snd (observe_revisit L tool nargs p)) = lp_blocked p"
  by (simp add: observe_revisit_def Let_def split: prod.split)

lemma blocked_remember: "lp_blocked (remember sig p) = lp_blocked p"
  by (simp add: remember_def Let_def)

section \<open>One observation\<close>

text \<open>The policy as the verdict sees it: the streak advanced, the call remembered.\<close>

definition lp_advanced :: "string \<Rightarrow> string \<Rightarrow> string \<Rightarrow> loop_policy \<Rightarrow> loop_policy" where
  "lp_advanced tool nargs h p =
     (let pre = call_prefix tool nargs; sig = pre @ h
      in if lp_last p = Some sig \<or> lp_last p = Some (pre @ skipped)
         then p\<lparr>lp_last := Some sig, lp_streak := lp_streak p + 1\<rparr> else lp_restart sig p)"

definition lp_noted :: "call_lib \<Rightarrow> string \<Rightarrow> string \<Rightarrow> string \<Rightarrow> loop_policy \<Rightarrow> loop_policy" where
  "lp_noted L tool nargs h p =
     snd (observe_revisit L tool nargs (remember (tool, nargs, h) (snd (streak_action tool (lp_advanced tool nargs h p)))))"

definition lp_revisits :: "call_lib \<Rightarrow> string \<Rightarrow> string \<Rightarrow> string \<Rightarrow> loop_policy \<Rightarrow> bool" where
  "lp_revisits L tool nargs h p =
     fst (observe_revisit L tool nargs (remember (tool, nargs, h) (snd (streak_action tool (lp_advanced tool nargs h p)))))"

lemma observe_eq:
  "lp_observe L tool nargs h p =
     (let act = fst (streak_action tool (lp_advanced tool nargs h p)); r = lp_finalize act (lp_noted L tool nargs h p)
      in if fst r = LpNone \<and> lp_revisits L tool nargs h p then (LpNudge, snd r\<lparr>lp_trigger := Some ByRevisit\<rparr>) else r)"
  unfolding lp_observe_def lp_noted_def lp_revisits_def lp_advanced_def Let_def by (simp split: prod.split)

definition ladder_ok :: "loop_policy \<Rightarrow> bool" where
  "ladder_ok p \<longleftrightarrow> 1 \<le> lp_nudge_after p \<and> lp_nudge_after p < lp_block_after p \<and> lp_block_after p < lp_stop_after p
     \<and> 2 \<le> lp_min_p2 p \<and> 2 \<le> lp_min_long p \<and> length (lp_history p) \<le> history_size"

lemma loop_policy_ok: "ladder_ok (new_loop_policy n b s c p2 l r)"
  by (auto simp: new_loop_policy_def ladder_ok_def Let_def max_def)

lemma core_advanced:
  "lp_core (lp_advanced tool nargs h p) =
     (lp_nudge_after p, lp_block_after p, lp_stop_after p, lp_cycle_detection p, lp_min_p2 p, lp_min_long p,
      Some (call_prefix tool nargs @ h),
      if lp_last p = Some (call_prefix tool nargs @ h) \<or> lp_last p = Some (call_prefix tool nargs @ skipped) then lp_streak p + 1 else 1,
      lp_history p, lp_revisit_detection p)"
  by (simp add: lp_advanced_def lp_core_def lp_restart_def Let_def)

lemma core_remember:
  "lp_core p = (n, b, s, c, p2, l, latest, st, h, r) \<Longrightarrow>
     lp_core (remember sig p) = (n, b, s, c, p2, l, latest, st, drop (length h + 1 - history_size) (h @ [sig]), r)"
  by (auto simp: lp_core_def remember_def Let_def)

lemma core_noted:
  "lp_core (lp_noted L tool nargs h p) =
     (lp_nudge_after p, lp_block_after p, lp_stop_after p, lp_cycle_detection p, lp_min_p2 p, lp_min_long p,
      Some (call_prefix tool nargs @ h),
      if lp_last p = Some (call_prefix tool nargs @ h) \<or> lp_last p = Some (call_prefix tool nargs @ skipped) then lp_streak p + 1 else 1,
      drop (length (lp_history p) + 1 - history_size) (lp_history p @ [(tool, nargs, h)]), lp_revisit_detection p)"
  unfolding lp_noted_def core_revisit by (rule core_remember) (simp only: core_streak core_advanced)

lemma core_observe: "lp_core (snd (lp_observe L tool nargs h p)) = lp_core (lp_noted L tool nargs h p)"
  by (simp add: observe_eq Let_def core_trigger core_finalize)

lemmas observe_fields = core_noted [of L tool nargs h p, unfolded core_observe [symmetric]] for L tool nargs h p

lemma blocked_at_frames:
  "lp_blocked_at (snd (lp_finalize act p)) = lp_blocked_at p"
  "lp_blocked_at (snd (observe_revisit L tool nargs p)) = lp_blocked_at p"
  "lp_blocked_at (remember sig p) = lp_blocked_at p"
  by (auto simp: lp_finalize_def forget_cycle_def cycle_action_def observe_revisit_def remember_def Let_def split: prod.splits option.splits if_splits)

lemma observe_verdict:
  fixes L tool nargs h p
  defines "q \<equiv> snd (lp_observe L tool nargs h p)"
  shows "lp_stop_after q \<le> lp_streak q \<Longrightarrow> fst (lp_observe L tool nargs h p) = LpStop"
    "lp_block_after q \<le> lp_streak q \<Longrightarrow> lp_streak q < lp_stop_after q \<Longrightarrow> fst (lp_observe L tool nargs h p) = LpBlock"
    "lp_nudge_after q \<le> lp_streak q \<Longrightarrow> lp_streak q < lp_block_after q \<Longrightarrow> lp_streak q < lp_stop_after q \<Longrightarrow> fst (lp_observe L tool nargs h p) = LpNudge"
proof -
  let ?a = "lp_advanced tool nargs h p"
  have same: "lp_streak ?a = lp_streak q" "lp_stop_after ?a = lp_stop_after q" "lp_block_after ?a = lp_block_after q" "lp_nudge_after ?a = lp_nudge_after q"
    using core_advanced [of tool nargs h p] observe_fields [of L tool nargs h p] by (auto simp: lp_core_def q_def)
  have "fst (lp_observe L tool nargs h p) = act" if "fst (streak_action tool ?a) = act" "act \<noteq> LpNone" for act
    using that by (simp add: observe_eq Let_def lp_finalize_def)
  then show "lp_stop_after q \<le> lp_streak q \<Longrightarrow> fst (lp_observe L tool nargs h p) = LpStop"
    "lp_block_after q \<le> lp_streak q \<Longrightarrow> lp_streak q < lp_stop_after q \<Longrightarrow> fst (lp_observe L tool nargs h p) = LpBlock"
    "lp_nudge_after q \<le> lp_streak q \<Longrightarrow> lp_streak q < lp_block_after q \<Longrightarrow> lp_streak q < lp_stop_after q \<Longrightarrow> fst (lp_observe L tool nargs h p) = LpNudge"
    by (simp_all add: streak_action_def same)
qed

text \<open>The streak is named as the trigger exactly when it has reached the first rung.\<close>

lemma streak_acts: "ladder_ok p \<Longrightarrow> fst (streak_action tool p) \<noteq> LpNone \<longleftrightarrow> lp_nudge_after p \<le> lp_streak p"
  by (auto simp: streak_action_def ladder_ok_def)

lemma finalize_trigger:
  "lp_trigger (snd (lp_finalize act p)) = Some ByStreak \<longleftrightarrow> act \<noteq> LpNone"
  "act \<noteq> LpNone \<Longrightarrow> fst (lp_finalize act p) = act"
  by (auto simp: lp_finalize_def forget_cycle_def split: prod.splits)

lemma observe_trigger:
  assumes "ladder_ok p"
  shows "lp_trigger (snd (lp_observe L tool nargs h p)) = Some ByStreak
    \<longleftrightarrow> lp_nudge_after p \<le> lp_streak (snd (lp_observe L tool nargs h p))"
proof -
  let ?a = "lp_advanced tool nargs h p"
  have same: "lp_streak (snd (lp_observe L tool nargs h p)) = lp_streak ?a" "lp_nudge_after ?a = lp_nudge_after p"
    using core_advanced [of tool nargs h p] observe_fields [of L tool nargs h p] by (auto simp: lp_core_def)
  have "ladder_ok ?a" using core_advanced [of tool nargs h p] assms by (auto simp: lp_core_def ladder_ok_def)
  then have acts: "fst (streak_action tool ?a) \<noteq> LpNone \<longleftrightarrow> lp_nudge_after p \<le> lp_streak ?a"
    using streak_acts [of ?a tool] same(2) by simp
  have "lp_trigger (snd (lp_observe L tool nargs h p)) = Some ByStreak \<longleftrightarrow> fst (streak_action tool ?a) \<noteq> LpNone"
    using finalize_trigger [of "fst (streak_action tool ?a)" "lp_noted L tool nargs h p"]
    by (auto simp: observe_eq Let_def)
  then show ?thesis unfolding acts same(1) .
qed

lemma observe_gives:
  "fst (lp_observe L tool nargs h p) = LpNone \<longleftrightarrow> lp_trigger (snd (lp_observe L tool nargs h p)) = None"
proof -
  have fin: "fst (lp_finalize act q) = LpNone \<longleftrightarrow> lp_trigger (snd (lp_finalize act q)) = None" for act q
    by (auto simp: lp_finalize_def forget_cycle_def split: prod.splits)
  show ?thesis
    using fin [of "fst (streak_action tool (lp_advanced tool nargs h p))" "lp_noted L tool nargs h p"] by (auto simp: observe_eq Let_def)
qed

lemma observe_blocked:
  "lp_blocked (snd (streak_action tool (lp_advanced tool nargs h p))) \<subseteq> lp_blocked (snd (lp_observe L tool nargs h p))"
  using blocked_finalize [of "lp_noted L tool nargs h p"]
  by (auto simp: observe_eq Let_def lp_noted_def blocked_revisit blocked_remember)

lemma observe_blocked_at:
  "lp_blocked_at (snd (lp_observe L tool nargs h p)) = lp_blocked_at (snd (streak_action tool (lp_advanced tool nargs h p)))"
  by (simp add: observe_eq Let_def blocked_at_frames lp_noted_def)

section \<open>A run of observations\<close>

fun lp_run :: "call_lib \<Rightarrow> call_sig list \<Rightarrow> loop_policy \<Rightarrow> lp_action list \<times> loop_policy" where
  "lp_run L [] p = ([], p)"
| "lp_run L ((tool, nargs, h) # cs) p =
     (let r = lp_observe L tool nargs h p; s = lp_run L cs (snd r) in (fst r # fst s, snd s))"

lemma run_append: "lp_run L (cs @ ds) p =
    (fst (lp_run L cs p) @ fst (lp_run L ds (snd (lp_run L cs p))), snd (lp_run L ds (snd (lp_run L cs p))))"
  by (induction L cs p rule: lp_run.induct) (simp_all add: Let_def)

lemma run_snoc: "snd (lp_run L (cs @ [(t, a, h)]) p) = snd (lp_observe L t a h (snd (lp_run L cs p)))"
  "fst (lp_run L (cs @ [(t, a, h)]) p) = fst (lp_run L cs p) @ [fst (lp_observe L t a h (snd (lp_run L cs p)))]"
  by (simp_all add: run_append Let_def)

lemma run_length: "length (fst (lp_run L cs p)) = length cs"
  by (induction L cs p rule: lp_run.induct) (simp_all add: Let_def)

definition lp_settings :: "loop_policy \<Rightarrow> int \<times> int \<times> int \<times> bool \<times> int \<times> int \<times> bool" where
  "lp_settings p = (lp_nudge_after p, lp_block_after p, lp_stop_after p, lp_cycle_detection p, lp_min_p2 p, lp_min_long p, lp_revisit_detection p)"

lemma observe_settings: "lp_settings (snd (lp_observe L t a h p)) = lp_settings p"
  using observe_fields [of L t a h p] by (simp add: lp_core_def lp_settings_def)

lemma run_settings: "lp_settings (snd (lp_run L cs p)) = lp_settings p"
  by (induction L cs p rule: lp_run.induct) (simp_all add: Let_def observe_settings)

lemma keep_last: "0 < k \<Longrightarrow>
    drop (length (drop (length xs - k) xs) + 1 - k) (drop (length xs - k) xs @ [x]) = drop (length (xs @ [x]) - k) (xs @ [x])"
proof (cases "length xs < k")
  case False
  assume "0 < k"
  moreover from False obtain y ys where "drop (length xs - k) xs = y # ys" using \<open>0 < k\<close> by (cases "drop (length xs - k) xs") auto
  moreover from this have "drop (Suc (length xs) - k) xs = ys" using False drop_Suc [of "length xs - k" xs]
    by (metis Suc_diff_le drop_Suc_Cons drop_drop drop0 linorder_not_less plus_1_eq_Suc)
  moreover have "length (drop (length xs - k) xs) = k" using False by simp
  ultimately show ?thesis using False by simp
qed simp

lemma run_history:
  "length (lp_history p) \<le> history_size \<Longrightarrow>
     lp_history (snd (lp_run L cs p)) = drop (length (lp_history p @ cs) - history_size) (lp_history p @ cs)"
proof (induction cs rule: rev_induct)
  case (snoc c cs)
  obtain t a h where c: "c = (t, a, h)" by (cases c)
  let ?q = "snd (lp_run L cs p)"
  have "lp_history (snd (lp_observe L t a h ?q)) = drop (length (lp_history ?q) + 1 - history_size) (lp_history ?q @ [(t, a, h)])"
    using observe_fields [of L t a h ?q] by (simp add: lp_core_def)
  then show ?case
    using snoc keep_last [of history_size "lp_history p @ cs" c] unfolding c run_snoc by (simp add: history_size_def del: drop_append)
qed simp

lemma identical_run:
  fixes L t a h p
  assumes "lp_last p \<noteq> Some (call_prefix t a @ h)" "lp_last p \<noteq> Some (call_prefix t a @ skipped)" "0 < n"
  defines "q \<equiv> snd (lp_run L (replicate n (t, a, h)) p)"
  shows "lp_last q = Some (call_prefix t a @ h) \<and> lp_streak q = int n"
  using assms(3) unfolding q_def
proof (induction n)
  case (Suc n)
  let ?q = "snd (lp_run L (replicate n (t, a, h)) p)"
  have "replicate (Suc n) (t, a, h) = replicate n (t, a, h) @ [(t, a, h)]" by (simp add: replicate_append_same)
  then have next': "snd (lp_run L (replicate (Suc n) (t, a, h)) p) = snd (lp_observe L t a h ?q)" using run_snoc(1) by metis
  show ?case
  proof (cases "n = 0")
    case True
    then show ?thesis using observe_fields [of L t a h p] assms(1,2) by (simp add: lp_core_def Let_def)
  next
    case False
    with Suc show ?thesis unfolding next' using observe_fields [of L t a h ?q] by (simp add: lp_core_def)
  qed
qed simp

lemma identical_blocked:
  fixes L t a h p
  assumes "lp_last p \<noteq> Some (call_prefix t a @ h)" "lp_last p \<noteq> Some (call_prefix t a @ skipped)" "0 < n" "ladder_ok p"
  defines "q \<equiv> snd (lp_run L (replicate n (t, a, h)) p)"
  shows "if int n < lp_block_after p then lp_blocked_at q = None else t \<in> lp_blocked q"
  using assms(3) unfolding q_def
proof (induction n)
  case (Suc n)
  let ?q = "snd (lp_run L (replicate n (t, a, h)) p)"
  let ?a = "lp_advanced t a h ?q"
  have "replicate (Suc n) (t, a, h) = replicate n (t, a, h) @ [(t, a, h)]" by (simp add: replicate_append_same)
  then have next': "snd (lp_run L (replicate (Suc n) (t, a, h)) p) = snd (lp_observe L t a h ?q)" using run_snoc(1) by metis
  have order: "1 \<le> lp_nudge_after p" "lp_nudge_after p < lp_block_after p" "lp_block_after p < lp_stop_after p"
    using assms(4) by (simp_all add: ladder_ok_def)
  have settings: "lp_block_after ?a = lp_block_after p" "lp_stop_after ?a = lp_stop_after p" "lp_nudge_after ?a = lp_nudge_after p"
    using core_advanced [of t a h ?q] run_settings [of L "replicate n (t, a, h)" p] by (simp_all add: lp_core_def lp_settings_def)
  have streak: "lp_streak ?a = int (Suc n)"
    and old: "lp_blocked_at ?a = (if n = 0 then None else lp_blocked_at ?q)" "lp_blocked ?a = lp_blocked ?q"
    using identical_run [OF assms(1,2), of n L] assms(1,2)
    by (cases "n = 0"; simp add: lp_advanced_def lp_restart_def Let_def)+
  have hit: "t \<in> lp_blocked (snd (streak_action t ?a))" if "int (Suc n) = lp_block_after p"
    using that order streak settings old Suc.IH by (auto simp: streak_action_def)
  show ?case
  proof (cases "int (Suc n) < lp_block_after p")
    case True
    then have "lp_blocked_at (snd (streak_action t ?a)) = lp_blocked_at ?a" using streak settings order by (simp add: streak_action_def)
    then show ?thesis using True Suc.IH old unfolding next' by (auto simp: observe_blocked_at)
  next
    case False
    have "t \<in> lp_blocked (snd (streak_action t ?a))"
    proof (cases "int (Suc n) = lp_block_after p")
      case True
      then show ?thesis by (rule hit)
    next
      case no: False
      then have "t \<in> lp_blocked ?q" using Suc.IH False order by (cases "n = 0") auto
      then show ?thesis using blocked_streak [of ?a t] old by auto
    qed
    then show ?thesis using False observe_blocked [of t a h ?q L] unfolding next' by auto
  qed
qed simp

text \<open>
  C38: With the rungs in increasing order, the same call with the same result climbs the ladder rung
  by rung, whatever came before it, if only the call just before was another one: the n-th in a row is nudged, blocked or stopped exactly as n reaches the rung, the tool is
  blocked from the second rung on, and the streak is named as the trigger of a verdict exactly
  from the first rung on. Below it the streak blocks nothing, and a verdict there is the cycle
  track's or the revisit track's and names it.
\<close>
theorem identical_calls_climb_the_ladder:
  fixes L t a h p
  assumes "ladder_ok p" "lp_last p \<noteq> Some (call_prefix t a @ h)" "lp_last p \<noteq> Some (call_prefix t a @ skipped)" "0 < n"
  defines "r \<equiv> lp_run L (replicate n (t, a, h)) p"
  shows "lp_streak (snd r) = int n
    \<and> (lp_trigger (snd r) = Some ByStreak \<longleftrightarrow> lp_nudge_after p \<le> int n) \<and> (last (fst r) = LpNone \<longleftrightarrow> lp_trigger (snd r) = None)
    \<and> (if lp_stop_after p \<le> int n then last (fst r) = LpStop \<and> t \<in> lp_blocked (snd r)
       else if lp_block_after p \<le> int n then last (fst r) = LpBlock \<and> t \<in> lp_blocked (snd r)
       else if lp_nudge_after p \<le> int n then last (fst r) = LpNudge else lp_blocked_at (snd r) = None)"
proof -
  obtain m where n: "n = Suc m" using assms(4) by (cases n) auto
  let ?q = "snd (lp_run L (replicate m (t, a, h)) p)"
  have "replicate n (t, a, h) = replicate m (t, a, h) @ [(t, a, h)]" by (simp add: n replicate_append_same)
  then have r: "snd r = snd (lp_observe L t a h ?q)" "last (fst r) = fst (lp_observe L t a h ?q)" by (simp_all add: r_def run_snoc)
  have streak: "lp_streak (snd r) = int n" using identical_run [OF assms(2,3,4)] by (simp add: r_def)
  have settings: "lp_stop_after (snd r) = lp_stop_after p" "lp_block_after (snd r) = lp_block_after p" "lp_nudge_after (snd r) = lp_nudge_after p"
    using run_settings [of L "replicate n (t, a, h)" p] by (simp_all add: lp_settings_def r_def)
  have before: "lp_settings ?q = lp_settings p" by (rule run_settings)
  have "length (lp_history ?q) \<le> history_size" using run_history [of p L "replicate m (t, a, h)"] assms(1) by (simp add: ladder_ok_def)
  then have "ladder_ok ?q" "lp_nudge_after ?q = lp_nudge_after p" using before assms(1) by (simp_all add: lp_settings_def ladder_ok_def)
  then have trigger: "lp_trigger (snd r) = Some ByStreak \<longleftrightarrow> lp_nudge_after p \<le> int n"
    using observe_trigger [of ?q L t a h] streak by (simp add: r(1))
  show ?thesis
    using observe_verdict [of L t a h ?q] identical_blocked [OF assms(2,3,4,1), of L] streak settings assms(1) trigger observe_gives [of L t a h ?q]
    by (auto simp: r [symmetric] r_def [symmetric] ladder_ok_def)
qed

section \<open>What a detected cycle is\<close>

text \<open>Each of the last \<open>r * period\<close> calls matches the call at its place in the last period.\<close>

definition repeats_at :: "call_sig list \<Rightarrow> nat \<Rightarrow> nat \<Rightarrow> bool" where
  "repeats_at hist period r \<longleftrightarrow> r * period \<le> length hist
     \<and> (\<forall>j. length hist - r * period \<le> j \<and> j < length hist \<longrightarrow>
          step_matches (hist ! j) (hist ! (length hist - period + (j - (length hist - r * period)) mod period)))"

definition same_call :: "call_sig \<Rightarrow> call_sig \<Rightarrow> bool" where
  "same_call x y \<longleftrightarrow> fst x = fst y \<and> fst (snd x) = fst (snd y)"

definition cycle_spec :: "loop_policy \<Rightarrow> nat \<Rightarrow> nat \<Rightarrow> bool" where
  "cycle_spec p period r \<longleftrightarrow> repeats_at (lp_history p) period r \<and> \<not> repeats_at (lp_history p) period (Suc r)
     \<and> min_repeats_for p period \<le> int r
     \<and> (\<exists>x \<in> set (drop (length (lp_history p) - period) (lp_history p)).
          \<exists>y \<in> set (drop (length (lp_history p) - period) (lp_history p)). \<not> same_call x y)"

lemma step_matches_refl: "step_matches c c"
  by (cases c) simp

lemma takeWhile_reaches: "r \<le> length (takeWhile P xs) \<longleftrightarrow> r \<le> length xs \<and> (\<forall>i < r. P (xs ! i))"
proof (induction xs arbitrary: r)
  case (Cons x xs)
  show ?case
  proof (cases r)
    case (Suc k)
    then show ?thesis using Cons.IH [of k] by (auto simp: less_Suc_eq_0_disj)
  qed simp
qed auto

lemma chunk_matches_iff:
  assumes "1 \<le> i" "i * period \<le> length hist" "0 < period"
  shows "chunk_matches (nth_chunk hist period i) (nth_chunk hist period 1)
    \<longleftrightarrow> (\<forall>k < period. step_matches (hist ! (length hist - i * period + k)) (hist ! (length hist - period + k)))"
proof -
  have "period \<le> i * period" using assms(1) by (cases i) simp_all
  then have "period \<le> length hist" using assms(2) by (rule le_trans)
  with assms have len: "length (nth_chunk hist period i) = period" "length (nth_chunk hist period 1) = period"
    by (simp_all add: nth_chunk_def min_def)
  moreover have "nth_chunk hist period i ! k = hist ! (length hist - i * period + k)" "nth_chunk hist period 1 ! k = hist ! (length hist - period + k)"
    if "k < period" for k using that assms(2) by (simp_all add: nth_chunk_def)
  ultimately show ?thesis by (auto simp: chunk_matches_def list_all_length)
qed

lemma repeats_at_chunks:
  assumes "0 < period"
  shows "repeats_at hist period r \<longleftrightarrow> r * period \<le> length hist
    \<and> (\<forall>i. 1 \<le> i \<and> i \<le> r \<longrightarrow> chunk_matches (nth_chunk hist period i) (nth_chunk hist period 1))"
    (is "_ \<longleftrightarrow> ?len \<and> ?chunks")
proof (cases ?len)
  case True
  let ?n = "length hist"
  have rows: "chunk_matches (nth_chunk hist period i) (nth_chunk hist period 1)
      \<longleftrightarrow> (\<forall>k < period. step_matches (hist ! (?n - i * period + k)) (hist ! (?n - period + k)))" if "1 \<le> i" "i \<le> r" for i
    using that(1) assms le_trans [OF mult_le_mono1 [OF that(2), of period] True] by (intro chunk_matches_iff)
  have place: "(?n - i * period + k - (?n - r * period)) mod period = k" if "1 \<le> i" "i \<le> r" "k < period" for i k
  proof -
    have "i * period \<le> r * period" using that by simp
    then have "?n - i * period + k - (?n - r * period) = (r * period - i * period) + k" using True by linarith
    then have "?n - i * period + k - (?n - r * period) = (r - i) * period + k" by (simp only: diff_mult_distrib)
    then show ?thesis using that(3) by simp
  qed
  show ?thesis
  proof
    assume spec: "repeats_at hist period r"
    have "chunk_matches (nth_chunk hist period i) (nth_chunk hist period 1)" if i: "1 \<le> i" "i \<le> r" for i
      unfolding rows [OF i]
    proof (intro allI impI)
      fix k assume k: "k < period"
      have "period \<le> i * period" "i * period \<le> r * period" using mult_le_mono1 [OF i(1), of period] mult_le_mono1 [OF i(2), of period] by simp_all
      then have "?n - r * period \<le> ?n - i * period + k" "?n - i * period + k < ?n" using True k by linarith+
      with spec place [OF i k] show "step_matches (hist ! (?n - i * period + k)) (hist ! (?n - period + k))"
        unfolding repeats_at_def by metis
    qed
    with True show "?len \<and> ?chunks" by blast
  next
    assume chunks: "?len \<and> ?chunks"
    have "step_matches (hist ! j) (hist ! (?n - period + (j - (?n - r * period)) mod period))"
      if j: "?n - r * period \<le> j" "j < ?n" for j
    proof -
      define d where "d = j - (?n - r * period)"
      have d: "d < r * period" "j = ?n - r * period + d" using j True by (simp_all add: d_def)
      define q where "q = d div period"
      have q: "q < r" using d(1) assms by (simp add: q_def div_less_iff_less_mult)
      have split: "d = q * period + d mod period" by (simp add: q_def)
      have "j = ?n - (r - q) * period + d mod period"
        using d(2) split True q mult_le_mono1 [of q r period] by (simp add: diff_mult_distrib)
      moreover have "step_matches (hist ! (?n - (r - q) * period + d mod period)) (hist ! (?n - period + d mod period))"
        using chunks rows [of "r - q"] q assms by simp
      ultimately show ?thesis by (simp add: d_def)
    qed
    with True show "repeats_at hist period r" by (simp add: repeats_at_def)
  qed
qed (simp add: repeats_at_def)

lemma chunk_one: "chunk_matches (nth_chunk hist period 1) (nth_chunk hist period 1)"
  by (simp add: chunk_matches_def list_all_length step_matches_refl)

lemma cycle_repeats_reach:
  assumes "0 < period" "period \<le> length hist" "1 \<le> r"
  shows "r \<le> cycle_repeats hist period \<longleftrightarrow> repeats_at hist period r"
proof -
  let ?M = "length hist div period"
  let ?Q = "\<lambda>i. chunk_matches (nth_chunk hist period i) (nth_chunk hist period 1)"
  have M: "1 \<le> ?M" using assms(1,2) by (simp add: Suc_le_eq div_greater_zero_iff)
  have "r \<le> cycle_repeats hist period \<longleftrightarrow> r - 1 \<le> length (takeWhile ?Q [2..<?M + 1])"
    using assms(3) by (auto simp: cycle_repeats_def)
  also have "\<dots> \<longleftrightarrow> r - 1 \<le> ?M - 1 \<and> (\<forall>i < r - 1. ?Q (i + 2))" using M by (auto simp: takeWhile_reaches nth_upt simp del: upt_Suc)
  also have "\<dots> \<longleftrightarrow> r \<le> ?M \<and> (\<forall>i. 1 \<le> i \<and> i \<le> r \<longrightarrow> ?Q i)"
  proof -
    have "(\<forall>i < r - 1. ?Q (i + 2)) \<longleftrightarrow> (\<forall>i. 1 \<le> i \<and> i \<le> r \<longrightarrow> ?Q i)"
    proof
      assume all: "\<forall>i < r - 1. ?Q (i + 2)"
      show "\<forall>i. 1 \<le> i \<and> i \<le> r \<longrightarrow> ?Q i"
      proof (intro allI impI)
        fix i assume i: "1 \<le> i \<and> i \<le> r"
        show "?Q i"
        proof (cases "i = 1")
          case False
          then obtain j where "i = j + 2" using i by (metis add_2_eq_Suc' le_Suc_ex One_nat_def not_less_eq_eq le_antisym Suc_1 add.commute)
          with all i show ?thesis by auto
        qed (simp only: chunk_one)
      qed
    qed auto
    then show ?thesis using M assms(3) by auto
  qed
  also have "\<dots> \<longleftrightarrow> repeats_at hist period r"
    using assms(1) by (simp add: repeats_at_chunks less_eq_div_iff_mult_less_eq)
  finally show ?thesis .
qed

lemma last_chunk: "nth_chunk hist period 1 = drop (length hist - period) hist"
  unfolding nth_chunk_def mult_1 by (rule take_all) simp

lemma one_call_iff: "one_call unit \<longleftrightarrow> (\<forall>x \<in> set unit. \<forall>y \<in> set unit. same_call x y)"
proof -
  let ?f = "\<lambda>(t :: string, a :: string, h :: string). (t, a)"
  have "one_call unit \<longleftrightarrow> card (?f ` set unit) \<le> Suc 0" by (simp add: one_call_def length_remdups_card_conv)
  also have "\<dots> \<longleftrightarrow> (\<forall>x \<in> set unit. \<forall>y \<in> set unit. ?f x = ?f y)" by (subst card_le_Suc0_iff_eq) auto
  finally show ?thesis by (simp add: same_call_def split_beta)
qed

definition cycle_found :: "loop_policy \<Rightarrow> nat \<Rightarrow> bool" where
  "cycle_found p period \<longleftrightarrow> min_repeats_for p period \<le> int (length (lp_history p) div period)
     \<and> \<not> one_call (nth_chunk (lp_history p) period 1) \<and> min_repeats_for p period \<le> int (cycle_repeats (lp_history p) period)"

lemma detect_in_find: "detect_in p (lp_history p) periods =
    map_option (\<lambda>q. (q, cycle_repeats (lp_history p) q, drop (length (lp_history p) - q) (lp_history p))) (find (cycle_found p) periods)"
  by (induction periods) (auto simp: cycle_found_def last_chunk [symmetric] simp del: One_nat_def)

lemma min_repeats: "ladder_ok p \<Longrightarrow> 2 \<le> min_repeats_for p period"
  by (simp add: ladder_ok_def min_repeats_for_def)

lemma cycle_spec_iff:
  assumes "ladder_ok p" "0 < period"
  shows "cycle_spec p period r \<longleftrightarrow> cycle_found p period \<and> r = cycle_repeats (lp_history p) period"
proof
  let ?h = "lp_history p"
  assume spec: "cycle_spec p period r"
  then have r: "2 \<le> r" "r * period \<le> length ?h" using min_repeats [OF assms(1), of period] by (auto simp: cycle_spec_def repeats_at_def)
  then have len: "period \<le> length ?h" using mult_le_mono1 [of 1 r period] by linarith
  have "r = cycle_repeats ?h period"
    using spec cycle_repeats_reach [OF assms(2) len, of r] cycle_repeats_reach [OF assms(2) len, of "Suc r"] r(1) by (auto simp: cycle_spec_def)
  moreover have "r \<le> length ?h div period" using r(2) assms(2) by (simp add: less_eq_div_iff_mult_less_eq)
  ultimately show "cycle_found p period \<and> r = cycle_repeats ?h period"
    using spec by (auto simp: cycle_found_def cycle_spec_def one_call_iff last_chunk simp del: One_nat_def)
next
  let ?h = "lp_history p"
  assume found: "cycle_found p period \<and> r = cycle_repeats ?h period"
  then have "2 \<le> length ?h div period" using min_repeats [OF assms(1), of period] by (auto simp: cycle_found_def)
  then have len: "period \<le> length ?h" using assms(2) by (metis div_less linorder_not_less not_numeral_le_zero)
  have "1 \<le> r" "\<not> Suc r \<le> cycle_repeats ?h period" using found by (auto simp: cycle_repeats_def)
  then show "cycle_spec p period r"
    using found cycle_repeats_reach [OF assms(2) len, of r] cycle_repeats_reach [OF assms(2) len, of "Suc r"]
    by (auto simp: cycle_found_def cycle_spec_def one_call_iff last_chunk simp del: One_nat_def)
qed

text \<open>
  C18: the detector answers with the least period of 2, 3 or 4 at which the end of the history repeats
  often enough, and with how often it does.
\<close>

theorem detector_finds_the_cycle:
  assumes "ladder_ok p"
  shows "detect_cycle p = Some (period, r, unit) \<longleftrightarrow>
    period \<in> {2, 3, 4} \<and> cycle_spec p period r \<and> (\<forall>q s. q \<in> {2, 3, 4} \<longrightarrow> q < period \<longrightarrow> \<not> cycle_spec p q s)
    \<and> unit = drop (length (lp_history p) - period) (lp_history p)"
proof -
  have spec: "cycle_spec p q s \<longleftrightarrow> cycle_found p q \<and> s = cycle_repeats (lp_history p) q" if "q \<in> {2, 3, 4}" for q s
    using cycle_spec_iff [OF assms, of q] that by auto
  have least: "(\<forall>q s. q \<in> {2, 3, 4} \<longrightarrow> q < period \<longrightarrow> \<not> cycle_spec p q s) \<longleftrightarrow> (\<forall>q. q \<in> {2, 3, 4} \<longrightarrow> q < period \<longrightarrow> \<not> cycle_found p q)"
    using spec by blast
  show ?thesis
    unfolding least detect_cycle_def detect_in_find using spec by (auto split: if_splits)
qed

section \<open>Calls that move on\<close>

definition sep_free :: "call_sig \<Rightarrow> bool" where
  "sep_free c \<longleftrightarrow> unit_sep \<notin> set (fst c) \<and> unit_sep \<notin> set (fst (snd c))"

definition call_text :: "call_sig \<Rightarrow> string" where
  "call_text c = call_prefix (fst c) (fst (snd c)) @ snd (snd c)"

text \<open>No call is the same, with the same result, as one of the four before it.\<close>

definition moves_at :: "call_sig list \<Rightarrow> nat \<Rightarrow> bool" where
  "moves_at cs i = list_all (\<lambda>d. i < d \<or> \<not> step_matches (cs ! (i - d)) (cs ! i)) [1, 2, 3, 4]"

definition moving :: "call_sig list \<Rightarrow> bool" where
  "moving cs = list_all (moves_at cs) [0..<length cs]"

lemma cut_unique: "x \<notin> set u \<Longrightarrow> x \<notin> set v \<Longrightarrow> u @ x # r = v @ x # s \<Longrightarrow> u = v \<and> r = s"
proof (induction u arbitrary: v)
  case Nil
  then show ?case by (cases v) auto
next
  case (Cons y u)
  then show ?case by (cases v) auto
qed

lemma call_text_inj:
  assumes "sep_free c" "sep_free d" "call_text c = call_text d"
  shows "c = d"
proof -
  obtain t a h u b k where c: "c = (t, a, h)" "d = (u, b, k)" by (cases c; cases d)
  have "t @ unit_sep # a @ unit_sep # h = u @ unit_sep # b @ unit_sep # k" using assms(3) by (simp add: c call_text_def call_prefix_def)
  then have *: "t = u" "a @ unit_sep # h = b @ unit_sep # k" using assms(1,2) cut_unique [of unit_sep t u] by (simp_all add: c sep_free_def)
  with cut_unique [of unit_sep a b h k] assms(1,2) show ?thesis by (simp add: c sep_free_def)
qed

lemma moves_at_old: "i < length cs \<Longrightarrow> moves_at (cs @ [c]) i = moves_at cs i"
  by (simp add: moves_at_def nth_append less_imp_diff_less)

lemma moves_at_new: "moves_at (cs @ [c]) (length cs) \<longleftrightarrow> (\<forall>d \<in> {1, 2, 3, 4}. d \<le> length cs \<longrightarrow> \<not> step_matches (cs ! (length cs - d)) c)"
proof -
  have "(length cs < d \<or> \<not> step_matches ((cs @ [c]) ! (length cs - d)) ((cs @ [c]) ! length cs))
      \<longleftrightarrow> (d \<le> length cs \<longrightarrow> \<not> step_matches (cs ! (length cs - d)) c)" if "0 < d" for d
    using that by (cases "d \<le> length cs") (auto simp: nth_append)
  from this [of 1] this [of 2] this [of 3] this [of 4] show ?thesis by (simp add: moves_at_def)
qed

lemma moving_snoc: "moving (cs @ [c]) \<longleftrightarrow> moving cs \<and> (\<forall>d \<in> {1, 2, 3, 4}. d \<le> length cs \<longrightarrow> \<not> step_matches (cs ! (length cs - d)) c)"
proof -
  have "list_all (moves_at (cs @ [c])) [0..<length cs] = list_all (moves_at cs) [0..<length cs]"
    by (rule list_all_cong) (simp_all add: moves_at_old)
  then show ?thesis by (simp add: moving_def moves_at_new)
qed

lemma nth_from_end: "0 < d \<Longrightarrow> d \<le> length (drop k cs) \<Longrightarrow> drop k cs ! (length (drop k cs) - d) = cs ! (length cs - d)"
  by (simp add: nth_drop)

lemma no_cycle:
  assumes "ladder_ok p" "lp_history p = hs @ [c]" "\<And>d. d \<in> {2, 3, 4} \<Longrightarrow> d \<le> length hs \<Longrightarrow> \<not> step_matches (hs ! (length hs - d)) c"
  shows "detect_cycle p = None"
proof -
  have "\<not> cycle_found p q" if q: "q \<in> {2, 3, 4}" for q
  proof
    let ?h = "lp_history p"
    assume found: "cycle_found p q"
    have pos: "0 < q" using q by auto
    from found pos have "cycle_spec p q (cycle_repeats ?h q)" using cycle_spec_iff [OF assms(1) pos] by blast
    then have r: "repeats_at ?h q (cycle_repeats ?h q)" "2 \<le> cycle_repeats ?h q"
      using min_repeats [OF assms(1), of q] by (auto simp: cycle_spec_def)
    then have "chunk_matches (nth_chunk ?h q 2) (nth_chunk ?h q 1)" "cycle_repeats ?h q * q \<le> length ?h"
      by (auto simp: repeats_at_chunks [OF pos])
    moreover have len: "2 * q \<le> length ?h" using mult_le_mono1 [OF r(2), of q] calculation(2) by (rule le_trans)
    ultimately have all: "\<forall>k < q. step_matches (?h ! (length ?h - 2 * q + k)) (?h ! (length ?h - q + k))"
      using chunk_matches_iff [of 2 q ?h] pos by simp
    have "step_matches (?h ! (length ?h - 2 * q + (q - 1))) (?h ! (length ?h - q + (q - 1)))"
      by (rule all [rule_format]) (use pos in simp)
    moreover have "length ?h - 2 * q + (q - 1) = length hs - q" "length ?h - q + (q - 1) = length hs" "length hs - q < length hs" "q \<le> length hs"
      using len pos assms(2) by simp_all
    ultimately have "step_matches (hs ! (length hs - q)) c" using assms(2) pos by (simp add: nth_append)
    with assms(3) [OF q \<open>q \<le> length hs\<close>] show False by simp
  qed
  then have "find (cycle_found p) [2, 3, 4] = None" by simp
  then show ?thesis unfolding detect_cycle_def detect_in_find by simp
qed

lemma quiet_observation:
  assumes "ladder_ok q" "1 < lp_nudge_after q"
    "lp_last q \<noteq> Some (call_prefix t a @ h)" "lp_last q \<noteq> Some (call_prefix t a @ skipped)"
    "\<And>d. d \<in> {2, 3, 4} \<Longrightarrow> d \<le> length (lp_history q) \<Longrightarrow> \<not> step_matches (lp_history q ! (length (lp_history q) - d)) (t, a, h)"
  shows "fst (lp_observe L t a h q) = (if lp_revisits L t a h q then LpNudge else LpNone)
    \<and> lp_blocked (snd (lp_observe L t a h q)) = lp_blocked q"
proof -
  let ?a = "lp_advanced t a h q" and ?n = "lp_noted L t a h q"
  have restart: "?a = lp_restart (call_prefix t a @ h) q" using assms(3,4) by (simp add: lp_advanced_def Let_def)
  have quiet: "streak_action t ?a = (LpNone, ?a)"
    using assms(1,2) by (simp add: restart streak_action_def lp_restart_def ladder_ok_def)
  have blocked: "lp_blocked ?n = lp_blocked q"
    by (simp add: lp_noted_def quiet blocked_revisit blocked_remember) (simp add: restart lp_restart_def)
  let ?k = "length (lp_history q) + 1 - history_size"
  have hist: "lp_history ?n = drop ?k (lp_history q) @ [(t, a, h)]"
    using core_noted [of L t a h q] by (simp add: lp_core_def history_size_def)
  have ok: "ladder_ok ?n" using core_noted [of L t a h q] assms(1) hist by (auto simp: lp_core_def ladder_ok_def history_size_def)
  have "detect_cycle ?n = None"
  proof (rule no_cycle [OF ok hist])
    fix d :: nat assume d: "d \<in> {2, 3, 4}" "d \<le> length (drop ?k (lp_history q))"
    then show "\<not> step_matches (drop ?k (lp_history q) ! (length (drop ?k (lp_history q)) - d)) (t, a, h)"
      using assms(5) [of d] nth_from_end [of d ?k "lp_history q"] by auto
  qed
  then have "cycle_action ?n = (LpNone, ?n)" by (simp add: cycle_action_def)
  then show ?thesis
    using quiet blocked by (auto simp: observe_eq Let_def lp_finalize_def forget_cycle_def)
qed

text \<open>The vectors of the revisit track are those of its run of calls, at most one for each.\<close>

lemma vectors_advanced:
  "lp_rv_vectors (remember sig (snd (streak_action t (lp_advanced t a h q)))) = lp_rv_vectors q"
  by (simp add: remember_def streak_action_def lp_advanced_def lp_restart_def Let_def)

lemma vectors_revisit: "length (lp_rv_vectors (snd (observe_revisit L t a q))) \<le> length (lp_rv_vectors q) + 1"
  by (simp add: observe_revisit_def Let_def split: prod.split)

lemma vectors_finalize: "lp_rv_vectors (snd (lp_finalize act q)) = lp_rv_vectors q"
  by (auto simp: lp_finalize_def forget_cycle_def cycle_action_def Let_def split: prod.splits option.splits if_splits)

lemma vectors_observe: "length (lp_rv_vectors (snd (lp_observe L t a h q))) \<le> length (lp_rv_vectors q) + 1"
  using vectors_revisit [of L t a "remember (t, a, h) (snd (streak_action t (lp_advanced t a h q)))"]
  by (simp add: observe_eq Let_def vectors_finalize lp_noted_def vectors_advanced)

lemma vectors_run: "length (lp_rv_vectors (snd (lp_run L cs p))) \<le> length (lp_rv_vectors p) + length cs"
proof (induction cs rule: rev_induct)
  case (snoc c cs)
  obtain t a h where c: "c = (t, a, h)" by (cases c)
  show ?case using snoc vectors_observe [of L t a h "snd (lp_run L cs p)"] by (simp add: c run_snoc)
qed simp

lemma revisits_late: "lp_revisits L t a h q \<Longrightarrow> 3 \<le> length (lp_rv_vectors q)"
  unfolding lp_revisits_def
  by (auto simp: observe_revisit_def Let_def run_to_nudge_def vectors_advanced split: prod.splits if_splits)

text \<open>What the revisit track alone says of the call at place \<open>i\<close>.\<close>

definition revisit_verdict :: "call_lib \<Rightarrow> call_sig list \<Rightarrow> loop_policy \<Rightarrow> nat \<Rightarrow> lp_action" where
  "revisit_verdict L cs p i =
     (case cs ! i of (t, a, h) \<Rightarrow> if lp_revisits L t a h (snd (lp_run L (take i cs) p)) then LpNudge else LpNone)"

lemma revisit_verdict_append:
  "i < length cs \<Longrightarrow> revisit_verdict L (cs @ ds) p i = revisit_verdict L cs p i"
  by (simp add: revisit_verdict_def nth_append)

lemma revisit_verdict_early:
  assumes "lp_rv_vectors p = []" "i < 3" "i \<le> length cs"
  shows "revisit_verdict L cs p i = LpNone"
proof -
  have "length (lp_rv_vectors (snd (lp_run L (take i cs) p))) < 3"
    using vectors_run [of L "take i cs" p] assms by simp
  then show ?thesis using revisits_late by (auto simp: revisit_verdict_def split: prod.split) (meson leD)
qed

lemma moving_run:
  assumes "ladder_ok p" "1 < lp_nudge_after p" "lp_last p = None" "lp_history p = []"
    and "moving cs" "list_all sep_free cs"
  shows "fst (lp_run L cs p) = map (revisit_verdict L cs p) [0..<length cs] \<and> lp_blocked (snd (lp_run L cs p)) = lp_blocked p
      \<and> lp_last (snd (lp_run L cs p)) = (if cs = [] then None else Some (call_text (last cs)))"
  using assms(5,6)
proof (induction cs rule: rev_induct)
  case Nil
  then show ?case using assms(3) by simp
next
  case (snoc c cs)
  obtain t a h where c: "c = (t, a, h)" by (cases c)
  let ?q = "snd (lp_run L cs p)"
  have apart: "\<not> step_matches (cs ! (length cs - d)) c" if "d \<in> {1, 2, 3, 4}" "d \<le> length cs" for d
    using snoc.prems(1) that unfolding moving_snoc by blast
  have IH: "fst (lp_run L cs p) = map (revisit_verdict L cs p) [0..<length cs]" "lp_blocked ?q = lp_blocked p"
    "lp_last ?q = (if cs = [] then None else Some (call_text (last cs)))"
    using snoc by (auto simp: moving_snoc)
  have settings: "lp_settings ?q = lp_settings p" by (rule run_settings)
  have fresh: "\<not> (lp_last ?q = Some (call_prefix t a @ h) \<or> lp_last ?q = Some (call_prefix t a @ skipped))"
  proof (cases "cs = []")
    case False
    have apart': "\<not> step_matches (last cs) c" using apart [of 1] False by (cases cs rule: rev_cases) simp_all
    have free: "sep_free (last cs)" using snoc.prems(2) False by (simp add: list_all_iff)
    have "call_text (last cs) \<noteq> call_prefix t a @ k" if "k = h \<or> k = skipped" for k
    proof
      assume "call_text (last cs) = call_prefix t a @ k"
      then have "last cs = (t, a, k)"
        using call_text_inj [OF free, of "(t, a, k)"] snoc.prems(2) by (simp add: c sep_free_def call_text_def)
      with apart' that show False by (auto simp: c)
    qed
    then show ?thesis using IH(3) False by auto
  qed (simp add: IH(3) assms(3))
  have hist: "lp_history ?q = drop (length cs - history_size) cs" using run_history [of p L cs] assms(1,4) by (simp add: ladder_ok_def)
  have verdict: "fst (lp_observe L t a h ?q) = (if lp_revisits L t a h ?q then LpNudge else LpNone)
      \<and> lp_blocked (snd (lp_observe L t a h ?q)) = lp_blocked ?q"
  proof (rule quiet_observation)
    show "ladder_ok ?q" "1 < lp_nudge_after ?q"
      using settings assms(1,2) hist by (simp_all add: lp_settings_def ladder_ok_def history_size_def)
    show "\<not> step_matches (lp_history ?q ! (length (lp_history ?q) - d)) (t, a, h)" if "d \<in> {2, 3, 4}" "d \<le> length (lp_history ?q)" for d
      using that apart [of d] nth_from_end [of d "length cs - history_size" cs] by (auto simp: hist c)
  qed (use fresh in simp_all)
  have here: "fst (lp_observe L t a h ?q) = revisit_verdict L (cs @ [c]) p (length cs)"
    using verdict by (simp add: revisit_verdict_def c)
  have "lp_last (snd (lp_observe L t a h ?q)) = Some (call_text c)"
    using observe_fields [of L t a h ?q] by (simp add: lp_core_def c call_text_def)
  with verdict here IH(1,2) show ?case by (simp add: c run_snoc revisit_verdict_append)
qed

text \<open>
  C36: With the rungs in increasing order and the first one above 1, a turn from a fresh policy whose calls
  move on (none is the same call with the same result as one of the four before it; neither tool
  names nor arguments hold the separator of signatures) is never blocked or stopped and no tool is hidden from it, with or without revisit
  detection; a call is nudged only when the revisit track, which follows near-repeats of one
  call with other numbers, fires on it, never among the first three calls, and not at all
  when that detection is off.
\<close>
theorem progress_is_left_alone:
  assumes "ladder_ok p" "1 < lp_nudge_after p" "lp_last p = None" "lp_history p = []" "lp_rv_vectors p = []"
    and "moving cs" "list_all sep_free cs"
  shows "fst (lp_run L cs p) = map (revisit_verdict L cs p) [0..<length cs]
    \<and> set (fst (lp_run L cs p)) \<subseteq> {LpNone, LpNudge} \<and> lp_blocked (snd (lp_run L cs p)) = lp_blocked p
    \<and> take 3 (fst (lp_run L cs p)) = replicate (min 3 (length cs)) LpNone
    \<and> (lp_revisit_detection p \<or> fst (lp_run L cs p) = replicate (length cs) LpNone)"
proof -
  have run: "fst (lp_run L cs p) = map (revisit_verdict L cs p) [0..<length cs]" "lp_blocked (snd (lp_run L cs p)) = lp_blocked p"
    using moving_run [OF assms(1-4,6,7), of L] by simp_all
  have "revisit_verdict L cs p i \<in> {LpNone, LpNudge}" for i by (simp add: revisit_verdict_def split: prod.split)
  then have "set (fst (lp_run L cs p)) \<subseteq> {LpNone, LpNudge}" unfolding run(1) by auto
  moreover have "take 3 (fst (lp_run L cs p)) = replicate (min 3 (length cs)) LpNone"
    unfolding run(1) by (rule nth_equalityI) (simp_all add: revisit_verdict_early [OF assms(5)])
  moreover have "revisit_verdict L cs p i = LpNone" if "\<not> lp_revisit_detection p" for i
  proof -
    have "lp_settings (snd (lp_run L (take i cs) p)) = lp_settings p" by (rule run_settings)
    then have "\<not> lp_revisits L t a h (snd (lp_run L (take i cs) p))" for t a h
      using that core_remember [of "snd (streak_action t (lp_advanced t a h (snd (lp_run L (take i cs) p))))"]
        core_streak [of t "lp_advanced t a h (snd (lp_run L (take i cs) p))"] core_advanced [of t a h "snd (lp_run L (take i cs) p)"]
      by (simp add: lp_revisits_def observe_revisit_def lp_settings_def lp_core_def remember_def Let_def)
    then show ?thesis by (simp add: revisit_verdict_def split: prod.split)
  qed
  then have "lp_revisit_detection p \<or> fst (lp_run L cs p) = replicate (length cs) LpNone"
    unfolding run(1) by (auto intro: nth_equalityI)
  ultimately show ?thesis using run by blast
qed

section \<open>How far a cycle climbs\<close>

datatype lp_event = Seen string string string | Refused string string | Progress

fun lp_step :: "call_lib \<Rightarrow> lp_event \<Rightarrow> loop_policy \<Rightarrow> lp_action \<times> loop_policy" where
  "lp_step L (Seen t a h) p = lp_observe L t a h p"
| "lp_step L (Refused t a) p = lp_observe_skipped t a p"
| "lp_step L Progress p = (LpNone, lp_reset p)"

definition lp_steps :: "call_lib \<Rightarrow> lp_event list \<Rightarrow> loop_policy \<Rightarrow> loop_policy" where
  "lp_steps L es p = fold (\<lambda>e q. snd (lp_step L e q)) es p"

text \<open>The streak verdict and the policy that \<open>lp_observe_skipped\<close> hands to \<open>lp_finalize\<close>.\<close>

definition skip_noted :: "string \<Rightarrow> string \<Rightarrow> loop_policy \<Rightarrow> lp_action \<times> loop_policy" where
  "skip_noted t a p =
     (let pre = call_prefix t a;
          p1 = (if (case lp_last p of None \<Rightarrow> False | Some s \<Rightarrow> s \<noteq> [] \<and> starts_with s pre)
                then p\<lparr>lp_streak := lp_streak p + 1\<rparr> else lp_restart (pre @ skipped) p);
          (act, p2) = streak_action t p1
      in (act, remember (t, a, skipped) p2))"

lemma skipped_eq: "lp_observe_skipped t a p = (let r = skip_noted t a p in lp_finalize (fst r) (snd r))"
  by (simp add: lp_observe_skipped_def skip_noted_def Let_def split: prod.split)

lemma core_fields:
  assumes "lp_core p = lp_core q"
  shows "lp_nudge_after p = lp_nudge_after q" "lp_block_after p = lp_block_after q" "lp_stop_after p = lp_stop_after q"
    "lp_min_p2 p = lp_min_p2 q" "lp_min_long p = lp_min_long q" "lp_streak p = lp_streak q" "lp_history p = lp_history q" "lp_settings p = lp_settings q"
  using assms by (simp_all add: lp_core_def lp_settings_def)

lemma skip_noted_facts:
  assumes "ladder_ok p"
  shows "lp_settings (snd (skip_noted t a p)) = lp_settings p" "ladder_ok (snd (skip_noted t a p))"
    "fst (skip_noted t a p) = LpStop \<Longrightarrow> lp_stop_after p \<le> lp_streak (snd (skip_noted t a p))"
proof -
  define p1 where "p1 = (if (case lp_last p of None \<Rightarrow> False | Some s \<Rightarrow> s \<noteq> [] \<and> starts_with s (call_prefix t a))
      then p\<lparr>lp_streak := lp_streak p + 1\<rparr> else lp_restart (call_prefix t a @ skipped) p)"
  have r: "skip_noted t a p = (fst (streak_action t p1), remember (t, a, skipped) (snd (streak_action t p1)))"
    by (simp add: skip_noted_def p1_def Let_def split: prod.split)
  have p1: "lp_settings p1 = lp_settings p" "lp_history p1 = lp_history p"
    by (simp_all add: p1_def lp_settings_def lp_restart_def split: option.split)
  note same = core_fields [OF core_streak [of t p1]]
  show "lp_settings (snd (skip_noted t a p)) = lp_settings p"
    using same p1 by (simp add: r remember_def Let_def lp_settings_def)
  then show "ladder_ok (snd (skip_noted t a p))"
    using assms same p1 by (auto simp: r remember_def Let_def lp_settings_def ladder_ok_def history_size_def)
  show "lp_stop_after p \<le> lp_streak (snd (skip_noted t a p))" if "fst (skip_noted t a p) = LpStop"
    using that same(6) p1(1) by (auto simp: r remember_def Let_def streak_action_def lp_settings_def split: if_splits)
qed

lemma noted_facts:
  assumes "ladder_ok p"
  shows "lp_settings (lp_noted L t a h p) = lp_settings p" "ladder_ok (lp_noted L t a h p)"
    "fst (streak_action t (lp_advanced t a h p)) = LpStop \<Longrightarrow> lp_stop_after p \<le> lp_streak (lp_noted L t a h p)"
proof -
  show "lp_settings (lp_noted L t a h p) = lp_settings p" using core_noted [of L t a h p] by (simp add: lp_core_def lp_settings_def)
  show "ladder_ok (lp_noted L t a h p)"
    using core_noted [of L t a h p] assms by (auto simp: lp_core_def ladder_ok_def history_size_def)
  show "lp_stop_after p \<le> lp_streak (lp_noted L t a h p)" if "fst (streak_action t (lp_advanced t a h p)) = LpStop"
    using that core_noted [of L t a h p] core_advanced [of t a h p] by (auto simp: streak_action_def lp_core_def split: if_splits)
qed

lemma cycle_stop_room:
  assumes "ladder_ok p" "fst (cycle_action p) = LpStop"
  shows "\<exists>period. lp_period (snd (cycle_action p)) = Some period
    \<and> int period * (min_repeats_for p period + (lp_stop_after p - lp_nudge_after p)) \<le> int history_size \<and> period \<in> {2, 3, 4}"
proof -
  obtain period r unit where found: "detect_cycle p = Some (period, r, unit)"
    using assms(2) by (cases "detect_cycle p") (auto simp: cycle_action_def)
  from found have spec: "period \<in> {2, 3, 4}" "cycle_spec p period r" using detector_finds_the_cycle [OF assms(1)] by blast+
  have "min_repeats_for p period + (lp_stop_after p - lp_nudge_after p) \<le> int r" and per: "lp_period (snd (cycle_action p)) = Some period"
    using assms(2) found by (auto simp: cycle_action_def Let_def split: if_splits)
  then have "int period * (min_repeats_for p period + (lp_stop_after p - lp_nudge_after p)) \<le> int (r * period)"
    by (simp add: mult.commute mult_left_mono)
  moreover have "r * period \<le> history_size" using spec(2) assms(1) by (auto simp: cycle_spec_def repeats_at_def ladder_ok_def)
  ultimately show ?thesis using per spec(1) by (intro exI [of _ period]) linarith
qed

text \<open>When the answer is to stop, either the streak is long enough or a short cycle is.\<close>

definition stop_reasons :: "loop_policy \<Rightarrow> bool" where
  "stop_reasons p \<longleftrightarrow> lp_stop_after p \<le> lp_streak p
     \<or> (\<exists>period. lp_period p = Some period
          \<and> int period * (min_repeats_for p period + (lp_stop_after p - lp_nudge_after p)) \<le> int history_size \<and> period \<in> {2, 3, 4})"

lemma finalize_stop:
  assumes "ladder_ok p" "act = LpStop \<Longrightarrow> lp_stop_after p \<le> lp_streak p" "fst (lp_finalize act p) = LpStop"
  shows "stop_reasons (snd (lp_finalize act p))"
proof (cases "act = LpNone")
  case True
  obtain a q where aq: "cycle_action p = (a, q)" by (cases "cycle_action p")
  have same: "lp_core q = lp_core p" using core_cycle [of p] aq by simp
  have fin: "a = LpStop" "snd (lp_finalize act p) = q\<lparr>lp_trigger := Some ByCycle\<rparr>"
    using assms(3) True aq by (auto simp: lp_finalize_def split: if_splits)
  with cycle_stop_room [OF assms(1)] aq obtain period where "lp_period q = Some period" "period \<in> {2, 3, 4}"
    "int period * (min_repeats_for p period + (lp_stop_after p - lp_nudge_after p)) \<le> int history_size" by auto
  then show ?thesis unfolding fin(2) stop_reasons_def using core_fields [OF same] by (auto simp: min_repeats_for_def)
next
  case False
  then have "act = LpStop" using assms(3) by (simp add: lp_finalize_def)
  then show ?thesis using assms(2) by (simp add: lp_finalize_def stop_reasons_def forget_cycle_def)
qed

lemma step_stop:
  assumes "ladder_ok p" "fst (lp_step L e p) = LpStop"
  shows "stop_reasons (snd (lp_step L e p))"
proof (cases e)
  case (Seen t a h)
  note facts = noted_facts [OF assms(1), where L = L and t = t and a = a and h = h]
  have "lp_stop_after (lp_noted L t a h p) = lp_stop_after p" using facts(1) by (simp add: lp_settings_def)
  with finalize_stop [OF facts(2), of "fst (streak_action t (lp_advanced t a h p))"] facts(3) assms(2) show ?thesis
    by (auto simp: Seen observe_eq Let_def split: if_splits)
next
  case (Refused t a)
  note facts = skip_noted_facts [OF assms(1), where t = t and a = a]
  have "lp_stop_after (snd (skip_noted t a p)) = lp_stop_after p" using facts(1) by (simp add: lp_settings_def)
  with finalize_stop [OF facts(2), of "fst (skip_noted t a p)"] facts(3) assms(2) show ?thesis by (simp add: Refused skipped_eq Let_def)
qed (use assms(2) in simp)

lemma step_keeps:
  assumes "ladder_ok p"
  shows "lp_settings (snd (lp_step L e p)) = lp_settings p \<and> ladder_ok (snd (lp_step L e p))"
proof (cases e)
  case (Seen t a h)
  have "lp_core (snd (lp_observe L t a h p)) = lp_core (lp_noted L t a h p)" by (rule core_observe)
  from core_fields [OF this] noted_facts [OF assms, where L = L and t = t and a = a and h = h] show ?thesis by (simp add: Seen ladder_ok_def)
next
  case (Refused t a)
  have "lp_core (snd (lp_step L e p)) = lp_core (snd (skip_noted t a p))" by (simp add: Refused skipped_eq Let_def core_finalize)
  from core_fields [OF this] skip_noted_facts [OF assms, where t = t and a = a] show ?thesis by (simp add: ladder_ok_def)
qed (use assms in \<open>simp add: lp_reset_def forget_cycle_def lp_settings_def ladder_ok_def\<close>)

lemma steps_keep: "ladder_ok p \<Longrightarrow> lp_settings (lp_steps L es p) = lp_settings p \<and> ladder_ok (lp_steps L es p)"
  unfolding lp_steps_def by (induction es arbitrary: p) (use step_keeps in force)+

text \<open>
  C29: with the default settings a turn that is stopped repeated one call ten times or went back and
  forth between two; a cycle of three or four calls is never stopped, however long it runs.
\<close>

theorem longer_cycles_are_never_stopped:
  assumes "fst (lp_step L e (lp_steps L es default_policy)) = LpStop"
  defines "q \<equiv> snd (lp_step L e (lp_steps L es default_policy))"
  shows "10 \<le> lp_streak q \<or> lp_period q = Some 2"
proof -
  have ok: "ladder_ok default_policy" by (simp add: default_policy_def loop_policy_ok)
  note steps = steps_keep [OF ok, of L es]
  from steps have "ladder_ok (lp_steps L es default_policy)" by simp
  from step_stop [OF this assms(1)] have "stop_reasons q" by (simp add: q_def)
  moreover have "lp_settings q = lp_settings default_policy" using step_keeps [of "lp_steps L es default_policy" L e] steps by (simp add: q_def)
  then have "lp_stop_after q = 10" "lp_nudge_after q = 3" "lp_min_long q = 2"
    by (simp_all add: lp_settings_def default_policy_def new_loop_policy_def or_default_def Let_def)
  ultimately show ?thesis by (auto simp: stop_reasons_def history_size_def min_repeats_for_def)
qed

section \<open>Going back and forth\<close>

lemma run_last: "lp_last (snd (lp_run L (cs @ [c]) p)) = Some (call_text c)"
proof -
  obtain t a h where c: "c = (t, a, h)" by (cases c)
  show ?thesis using observe_fields [of L t a h "snd (lp_run L cs p)"] by (simp add: c run_snoc lp_core_def call_text_def)
qed

lemma alternating: "length (concat (replicate n [x, y])) = 2 * n" "j < 2 * n \<Longrightarrow> concat (replicate n [x, y]) ! j = (if even j then x else y)"
proof -
  show len: "length (concat (replicate n [x, y])) = 2 * n" for n by (induction n) simp_all
  show "j < 2 * n \<Longrightarrow> concat (replicate n [x, y]) ! j = (if even j then x else y)"
  proof (induction n arbitrary: j)
    case (Suc n)
    consider "j = 0" | "j = 1" | i where "j = Suc (Suc i)" by (metis One_nat_def not0_implies_Suc)
    then show ?case using Suc by cases auto
  qed simp
qed

lemma alternating_spec:
  assumes "lp_history p = concat (replicate 10 [x, y])" "\<not> same_call x y" "min_repeats_for p 2 = 3"
  shows "cycle_spec p 2 10"
proof -
  let ?h = "concat (replicate 10 [x, y])"
  have len: "length ?h = 20" by (simp only: alternating(1))
  have at: "?h ! j = (if even j then x else y)" if "j < 20" for j using alternating(2) [of j 10 x y] that by simp
  have "step_matches (?h ! j) (?h ! (18 + j mod 2))" if "j < 20" for j
  proof -
    have "even (18 + j mod 2) \<longleftrightarrow> even j" by presburger
    moreover have "18 + j mod 2 < 20" by simp
    ultimately have "?h ! j = ?h ! (18 + j mod 2)" using at that by simp
    then show ?thesis by (simp only: step_matches_refl)
  qed
  then have "repeats_at ?h 2 10" "\<not> repeats_at ?h 2 11" unfolding repeats_at_def len by auto
  moreover have "drop 18 ?h = [x, y]" by (simp add: numeral_eq_Suc)
  ultimately show ?thesis using assms(2,3) len by (simp add: cycle_spec_def assms(1) del: concat_replicate_trivial)
qed

lemma settings_fields:
  assumes "lp_settings p = lp_settings default_policy"
  shows "lp_nudge_after p = 3" "lp_block_after p = 6" "lp_stop_after p = 10" "lp_cycle_detection p" "lp_min_p2 p = 3" "lp_min_long p = 2"
  using assms by (simp_all add: lp_settings_def default_policy_def new_loop_policy_def or_default_def Let_def)

text \<open>
  C28: with the default settings two calls repeated in turn, neither of which ever returns anything
  new, stop the turn at the twentieth call.
\<close>

theorem oscillation_is_stopped:
  assumes "sep_free x" "sep_free y" "\<not> same_call x y"
  shows "last (fst (lp_run L (concat (replicate 10 [x, y])) default_policy)) = LpStop
    \<and> lp_period (snd (lp_run L (concat (replicate 10 [x, y])) default_policy)) = Some 2
    \<and> lp_repeats (snd (lp_run L (concat (replicate 10 [x, y])) default_policy)) = Some 10"
proof -
  obtain t a h where y: "y = (t, a, h)" by (cases y)
  let ?cs = "concat (replicate 9 [x, y]) @ [x]"
  let ?q = "snd (lp_run L ?cs default_policy)"
  let ?n = "lp_noted L t a h ?q"
  have calls: "concat (replicate 10 [x, y]) = ?cs @ [y]" by (simp add: numeral_eq_Suc)
  have ok: "ladder_ok default_policy" "lp_history default_policy = []"
    by (simp add: default_policy_def loop_policy_ok) (simp add: default_policy_def new_loop_policy_def Let_def)
  have latest: "lp_last ?q = Some (call_text x)" by (rule run_last)
  have "call_text x \<noteq> call_prefix t a @ k" for k
  proof
    assume "call_text x = call_prefix t a @ k"
    then have "x = (t, a, k)" using call_text_inj [OF assms(1), of "(t, a, k)"] assms(2) by (simp add: y sep_free_def call_text_def)
    with assms(3) show False by (simp add: y same_call_def)
  qed
  with latest have restart: "lp_advanced t a h ?q = lp_restart (call_prefix t a @ h) ?q" by (simp add: lp_advanced_def Let_def)
  have settings: "lp_settings ?n = lp_settings default_policy"
    using core_noted [of L t a h ?q] run_settings [of L ?cs default_policy] by (simp add: lp_core_def lp_settings_def)
  note s = settings_fields [OF settings] settings_fields [OF run_settings [of L ?cs default_policy]]
  have "lp_history ?n = drop (length (lp_history ?q) + 1 - history_size) (lp_history ?q @ [y])"
    using core_noted [of L t a h ?q] by (simp add: lp_core_def y)
  moreover have "lp_history ?q = ?cs" using run_history [of default_policy L ?cs] ok by (simp add: alternating(1) history_size_def)
  ultimately have hist: "lp_history ?n = concat (replicate 10 [x, y])" unfolding calls by (simp add: alternating(1) history_size_def)
  have "ladder_ok ?n" using s hist by (simp add: ladder_ok_def alternating(1) history_size_def del: concat.simps replicate.simps)
  moreover have "cycle_spec ?n 2 10" using hist assms(3) by (rule alternating_spec) (simp add: min_repeats_for_def s)
  ultimately have "detect_cycle ?n = Some (2, 10, drop (length (lp_history ?n) - 2) (lp_history ?n))"
    using detector_finds_the_cycle [of ?n 2 10] by auto
  then have act: "fst (cycle_action ?n) = LpStop" "lp_period (snd (cycle_action ?n)) = Some 2" "lp_repeats (snd (cycle_action ?n)) = Some 10"
    using s by (simp_all add: cycle_action_def min_repeats_for_def Let_def)
  have "fst (streak_action t (lp_advanced t a h ?q)) = LpNone" using s by (simp add: restart streak_action_def lp_restart_def)
  then have "lp_observe L t a h ?q = (LpStop, snd (cycle_action ?n)\<lparr>lp_trigger := Some ByCycle\<rparr>)"
    using act(1) s by (auto simp: observe_eq Let_def lp_finalize_def split: prod.split)
  then show ?thesis unfolding calls using run_snoc [of L ?cs t a h default_policy] act(2,3) by (simp add: y)
qed

section \<open>Witnesses\<close>

lemma unit_sep_char: "unit_sep = CHR 0x81"
  by code_simp

definition demo_call_lib :: call_lib where
  "demo_call_lib = \<lparr>cl_loads = (\<lambda>t. None), cl_dumps = (\<lambda>v. []), cl_dump_result = (\<lambda>v. []), cl_repr = (\<lambda>v. []),
     cl_float = (\<lambda>t. 0), cl_similar = (=), cl_digest = id\<rparr>"

lemma default_ok: "ladder_ok default_policy" "lp_last default_policy = None" "lp_history default_policy = []"
  by (simp add: default_policy_def loop_policy_ok) (simp_all add: default_policy_def new_loop_policy_def Let_def)

lemma identical_calls_climb_the_ladder_witness:
  "last (fst (lp_run demo_call_lib (replicate 7 (''ls'', ''src'', ''h'')) default_policy)) = LpBlock
   \<and> lp_trigger (snd (lp_run demo_call_lib (replicate 2 (''ls'', ''src'', ''h'')) default_policy)) \<noteq> Some ByStreak"
proof -
  have rungs: "lp_nudge_after default_policy = 3" "lp_block_after default_policy = 6" "lp_stop_after default_policy = 10"
    by (simp_all add: default_policy_def new_loop_policy_def or_default_def Let_def)
  have last: "lp_last default_policy \<noteq> Some x" for x by (simp add: default_ok)
  have pos: "0 < (7::nat)" "0 < (2::nat)" by simp_all
  from identical_calls_climb_the_ladder [OF default_ok(1) last last pos(1), of demo_call_lib "''ls''" "''src''" "''h''"]
    identical_calls_climb_the_ladder [OF default_ok(1) last last pos(2), of demo_call_lib "''ls''" "''src''" "''h''"]
  show ?thesis by (simp add: rungs)
qed

definition demo_policy :: loop_policy where
  "demo_policy = default_policy\<lparr>lp_history := concat (replicate 10 [(''read'', ''a'', ''1''), (''read'', ''b'', ''2'')])\<rparr>"

lemma demo_policy_ok: "ladder_ok demo_policy" "lp_history demo_policy = concat (replicate 10 [(''read'', ''a'', ''1''), (''read'', ''b'', ''2'')])"
    "min_repeats_for demo_policy 2 = 3"
  by (simp_all add: demo_policy_def ladder_ok_def default_policy_def new_loop_policy_def or_default_def Let_def history_size_def
      alternating(1) min_repeats_for_def del: concat.simps replicate.simps)

lemma detector_finds_the_cycle_witness:
  "detect_cycle demo_policy = Some (2, 10, [(''read'', ''a'', ''1''), (''read'', ''b'', ''2'')])"
proof -
  have "cycle_spec demo_policy 2 10"
    using demo_policy_ok(2) _ demo_policy_ok(3) by (rule alternating_spec) (simp add: same_call_def)
  moreover have "drop (length (lp_history demo_policy) - 2) (lp_history demo_policy) = [(''read'', ''a'', ''1''), (''read'', ''b'', ''2'')]"
    by (simp add: demo_policy_ok(2) numeral_eq_Suc)
  ultimately show ?thesis using detector_finds_the_cycle [OF demo_policy_ok(1), of 2 10] by auto
qed

lemma progress_is_left_alone_witness:
  "lp_revisit_detection default_policy \<and> take 3 (fst (lp_run demo_call_lib
     [(''read'', ''a'', ''1''), (''read'', ''b'', ''2''), (''edit'', ''a'', ''3''), (''read'', ''a'', ''4'')] default_policy))
     = [LpNone, LpNone, LpNone]"
proof -
  let ?cs = "[(''read'', ''a'', ''1''), (''read'', ''b'', ''2''), (''edit'', ''a'', ''3''), (''read'', ''a'', ''4'')]"
  have "moving ?cs" by (simp add: moving_def moves_at_def skipped_def upt_rec)
  moreover have "list_all sep_free ?cs" by (simp add: sep_free_def unit_sep_char)
  moreover have "lp_rv_vectors default_policy = []" "1 < lp_nudge_after default_policy" "lp_last default_policy = None"
    "lp_history default_policy = []" "lp_revisit_detection default_policy"
    by (simp_all add: default_policy_def new_loop_policy_def or_default_def Let_def)
  ultimately have "take 3 (fst (lp_run demo_call_lib ?cs default_policy)) = replicate (min 3 (length ?cs)) LpNone"
    using progress_is_left_alone [OF default_ok(1), of ?cs demo_call_lib] by blast
  then show ?thesis
    using \<open>lp_revisit_detection default_policy\<close> by (simp add: numeral_eq_Suc del: lp_run.simps)
qed

lemma steps_of_calls: "lp_steps L (map (\<lambda>(t, a, h). Seen t a h) cs) p = snd (lp_run L cs p)"
  by (induction L cs p rule: lp_run.induct) (simp_all add: lp_steps_def Let_def)

lemma longer_cycles_are_never_stopped_witness:
  "10 \<le> lp_streak (snd (lp_step demo_call_lib (Seen ''ls'' ''src'' ''h'') (lp_steps demo_call_lib (map (\<lambda>(t, a, h). Seen t a h) (replicate 9 (''ls'', ''src'', ''h''))) default_policy)))
   \<or> lp_period (snd (lp_step demo_call_lib (Seen ''ls'' ''src'' ''h'') (lp_steps demo_call_lib (map (\<lambda>(t, a, h). Seen t a h) (replicate 9 (''ls'', ''src'', ''h''))) default_policy))) = Some 2"
proof (rule longer_cycles_are_never_stopped)
  let ?q = "snd (lp_run demo_call_lib (replicate 9 (''ls'', ''src'', ''h'')) default_policy)"
  have q: "lp_last ?q = Some (call_prefix ''ls'' ''src'' @ ''h'') \<and> lp_streak ?q = int 9"
    by (rule identical_run) (simp_all add: default_ok)
  have "lp_settings ?q = lp_settings default_policy" by (rule run_settings)
  then have "lp_stop_after ?q = 10" by (rule settings_fields)
  then have "fst (lp_observe demo_call_lib ''ls'' ''src'' ''h'' ?q) = LpStop"
    using q observe_fields [of demo_call_lib "''ls''" "''src''" "''h''" ?q] by (intro observe_verdict(1)) (simp add: lp_core_def)
  then show "fst (lp_step demo_call_lib (Seen ''ls'' ''src'' ''h'') (lp_steps demo_call_lib (map (\<lambda>(t, a, h). Seen t a h) (replicate 9 (''ls'', ''src'', ''h''))) default_policy)) = LpStop"
    unfolding steps_of_calls by simp
qed

lemma oscillation_is_stopped_witness:
  "last (fst (lp_run demo_call_lib (concat (replicate 10 [(''read'', ''a'', ''1''), (''read'', ''b'', ''2'')])) default_policy)) = LpStop"
  by (rule conjunct1 [OF oscillation_is_stopped]) (simp_all add: sep_free_def same_call_def unit_sep_char)

end
