(* ===== verification/Stuck_Watch.thy ===== *)
theory Stuck_Watch
  imports Py_Values
begin

text \<open>
  The other ways a turn gets stuck, \<open>src/loop_breaker.py\<close>: \<open>StuckWatch\<close> (monologue, context errors, a
  failing path) and \<open>AdvisoryGuard\<close> (hints appended to tool results).

  \<open>json\<close>, \<open>str\<close> and \<open>difflib\<close> are the fields of a library record, and so are the two regular
  expressions of the guard: where \<open>_SHELL_SEARCH_RE\<close> matches, and whether \<open>_SHELL_PIPELINE_RE\<close> does.
\<close>

section \<open>Reading errors and results\<close>

definition context_error_patterns :: "string list" where
  "context_error_patterns =
     [''context length'', ''context_length'', ''context window'', ''maximum context'',
      ''exceeds the context'', ''exceeded the context'', ''exceed the context'',
      ''prompt is too long'', ''prompt too long'', ''input is too long'', ''input too long'',
      ''too many tokens'', ''maximum prompt length'', ''max_model_len'', ''reduce the length'',
      ''request too large'', ''request_too_large'', ''tokens exceed'', ''token limit'',
      ''n_ctx'', ''exceeds available context'', ''context size'', ''longer than the maximum'',
      ''demasiado larg'', ''ventana de contexto'']"

definition str_or_empty :: "(json \<Rightarrow> string) \<Rightarrow> json \<Rightarrow> string" where
  "str_or_empty repr v = (if py_truth v then py_str repr v else [])"

fun join_space :: "string list \<Rightarrow> string" where
  "join_space [] = []"
| "join_space [t] = t"
| "join_space (t # ts) = t @ CHR '' '' # join_space ts"

definition error_text :: "(json \<Rightarrow> string) \<Rightarrow> json \<Rightarrow> string" where
  "error_text repr e =
     (case e of
        JObj d \<Rightarrow> join_space (map (\<lambda>k. str_or_empty repr (dget_or d k JNull))
                    [''error'', ''message'', ''error_class'', ''code'', ''detail'', ''type''])
      | _ \<Rightarrow> str_or_empty repr e)"

definition is_context_length_error :: "(json \<Rightarrow> string) \<Rightarrow> json \<Rightarrow> bool" where
  "is_context_length_error repr e = list_ex (contains (py_lower (error_text repr e))) context_error_patterns"

definition is_failed_result :: "json \<Rightarrow> bool" where
  "is_failed_result r =
     (case r of
        JObj d \<Rightarrow>
          if list_ex (\<lambda>k. py_truth (dget_or d k JNull)) [''blocked'', ''approval_required'', ''ask_user''] then False
          else if py_truth (dget_or d ''error'' JNull) then True
          else (case dget_or d ''exit_code'' JNull of JInt i \<Rightarrow> i \<noteq> 0 | _ \<Rightarrow> False)
      | _ \<Rightarrow> False)"

section \<open>The watch\<close>

type_synonym call_key = "string \<times> string"

record stuck_watch =
  sw_monologue_rounds :: int
  sw_context_limit :: int
  sw_path_limit :: int
  sw_monologue_streak :: int
  sw_monologue_nudges :: int
  sw_context_streak :: int
  sw_failures :: "(call_key, int) dict"
  sw_closed :: "call_key set"
  sw_closed_total :: int

definition floor_limit :: "int \<Rightarrow> int" where
  "floor_limit n = (if n \<le> 0 then 0 else max 2 n)"

definition new_stuck_watch :: "int \<Rightarrow> int \<Rightarrow> int \<Rightarrow> stuck_watch" where
  "new_stuck_watch rounds errors failures =
     \<lparr>sw_monologue_rounds = floor_limit rounds, sw_context_limit = floor_limit errors, sw_path_limit = floor_limit failures,
      sw_monologue_streak = 0, sw_monologue_nudges = 0, sw_context_streak = 0, sw_failures = [], sw_closed = {}, sw_closed_total = 0\<rparr>"

datatype sw_action = SwNone | SwNudge | SwCompact | SwStop

definition observe_round :: "int \<Rightarrow> bool \<Rightarrow> stuck_watch \<Rightarrow> sw_action \<times> stuck_watch" where
  "observe_round tool_calls has_text w =
     (if 0 < tool_calls then (SwNone, w\<lparr>sw_monologue_streak := 0\<rparr>)
      else if \<not> has_text then (SwNone, w)
      else
        let streak = sw_monologue_streak w + 1; w1 = w\<lparr>sw_monologue_streak := streak\<rparr>
        in if sw_monologue_rounds w \<noteq> 0 \<and> sw_monologue_rounds w \<le> streak
           then if sw_monologue_nudges w = 0 then (SwNudge, w\<lparr>sw_monologue_nudges := 1, sw_monologue_streak := 0\<rparr>) else (SwStop, w1)
           else (SwNone, w1))"

definition observe_provider_error :: "(json \<Rightarrow> string) \<Rightarrow> json \<Rightarrow> stuck_watch \<Rightarrow> sw_action \<times> stuck_watch" where
  "observe_provider_error repr e w =
     (if \<not> is_context_length_error repr e then (SwNone, w\<lparr>sw_context_streak := 0\<rparr>)
      else
        let streak = sw_context_streak w + 1
        in (if sw_context_limit w \<noteq> 0 \<and> sw_context_limit w \<le> streak then SwStop else SwCompact, w\<lparr>sw_context_streak := streak\<rparr>))"

definition observe_provider_ok :: "stuck_watch \<Rightarrow> stuck_watch" where
  "observe_provider_ok w = w\<lparr>sw_context_streak := 0\<rparr>"

definition max_tracked_paths :: nat where "max_tracked_paths = 64"

text \<open>The key is the tool and its normalised arguments.\<close>

definition observe_call :: "call_key \<Rightarrow> bool \<Rightarrow> stuck_watch \<Rightarrow> bool \<times> stuck_watch" where
  "observe_call key failed w =
     (if sw_path_limit w = 0 then (False, w)
      else if \<not> failed then (False, w\<lparr>sw_failures := dpop key (sw_failures w), sw_closed := sw_closed w - {key}\<rparr>)
      else
        let kept = (if max_tracked_paths \<le> length (sw_failures w) \<and> dget (sw_failures w) key = None
                    then tl (sw_failures w) else sw_failures w);
            count = dget_or kept key 0 + 1;
            w1 = w\<lparr>sw_failures := dset key count kept\<rparr>
        in if sw_path_limit w \<le> count \<and> key \<notin> sw_closed w
           then (True, w1\<lparr>sw_closed := insert key (sw_closed w), sw_closed_total := sw_closed_total w + 1\<rparr>) else (False, w1))"

definition path_closed :: "call_key \<Rightarrow> stuck_watch \<Rightarrow> bool" where
  "path_closed key w \<longleftrightarrow> key \<in> sw_closed w"

definition failures_for :: "call_key \<Rightarrow> stuck_watch \<Rightarrow> int" where
  "failures_for key w = dget_or (sw_failures w) key 0"

section \<open>Advisories\<close>

record guard_lib =
  gl_loads :: "string \<Rightarrow> json option"
  gl_str :: "json \<Rightarrow> string"
  gl_shape :: "json \<Rightarrow> string"
  gl_alike :: "string \<Rightarrow> string \<Rightarrow> bool"
  gl_search_at :: "string \<Rightarrow> nat option"
  gl_pipeline :: "string \<Rightarrow> bool"

datatype advisory = NoAdvisory | Rescan | BatchEdits | ShellPipeline

record advisory_guard =
  ag_fired :: "advisory set"
  ag_last_search :: "(int \<times> string) option"
  ag_edit_tool :: string
  ag_edit_shape :: string
  ag_edit_paths :: "string list"

definition new_advisory_guard :: advisory_guard where
  "new_advisory_guard = \<lparr>ag_fired = {}, ag_last_search = None, ag_edit_tool = [], ag_edit_shape = [], ag_edit_paths = []\<rparr>"

definition edit_tools :: "string list" where "edit_tools = [''edit_file'', ''write_file'']"
definition shell_tools :: "string list" where "shell_tools = [''bash'', ''powershell'']"
definition search_window_rounds :: int where "search_window_rounds = 2"
definition edit_streak :: nat where "edit_streak = 3"

definition no_result_prefixes :: "string list" where
  "no_result_prefixes = [''(no output)'', ''no matches'', ''no files'', ''no results'', ''0 matches'']"

definition call_args :: "guard_lib \<Rightarrow> string \<Rightarrow> json \<Rightarrow> (string, json) dict" where
  "call_args L tool content =
     (case content of
        JObj d \<Rightarrow> d
      | _ \<Rightarrow>
          let t = py_strip (str_or_empty (gl_str L) content)
          in case gl_loads L t of
               Some (JObj d) \<Rightarrow> d
             | _ \<Rightarrow> if tool \<in> set shell_tools then [(''command'', JStr t)] else [(''raw'', JStr t)])"

definition first_truthy :: "(string, json) dict \<Rightarrow> string list \<Rightarrow> json" where
  "first_truthy d ks = (case find (\<lambda>k. py_truth (dget_or d k JNull)) ks of Some k \<Rightarrow> dget_or d k JNull | None \<Rightarrow> JStr [])"

definition shell_text :: "guard_lib \<Rightarrow> (string, json) dict \<Rightarrow> string" where
  "shell_text L args = py_str (gl_str L) (first_truthy args [''command'', ''script'', ''cmd'', ''raw''])"

definition strip_of :: "string \<Rightarrow> string \<Rightarrow> string" where
  "strip_of cs t = rev (dropWhile (\<lambda>c. c \<in> set cs) (rev (dropWhile (\<lambda>c. c \<in> set cs) t)))"

definition quotes :: string where "quotes = [char_of (34::nat), char_of (39::nat)]"

fun drop_here :: "string \<Rightarrow> string" where
  "drop_here (c # d # t) = (if c = CHR ''.'' \<and> d = CHR ''/'' then drop_here t else c # d # t)"
| "drop_here t = t"

definition rstrip_slash :: "string \<Rightarrow> string" where
  "rstrip_slash t = rev (dropWhile (\<lambda>c. c = CHR ''/'') (rev t))"

definition norm_root :: "guard_lib \<Rightarrow> json \<Rightarrow> string" where
  "norm_root L v =
     (let p = map (\<lambda>c. if c = char_of (92::nat) then CHR ''/'' else c) (str_or_empty (gl_str L) v);
          r = rstrip_slash (drop_here (strip_of quotes (py_strip p)))
      in if r = [] then ''.'' else r)"

definition looks_like_file :: "string \<Rightarrow> bool" where
  "looks_like_file r =
     (let base = rev (takeWhile (\<lambda>c. c \<noteq> CHR ''/'') (rev r))
      in r \<noteq> ''.'' \<and> CHR ''.'' \<in> set (dropWhile (\<lambda>c. c = CHR ''.'') base) \<and> \<not> ends_with base ''.'')"

lemma words_shorter:
  assumes "dropWhile P t \<noteq> []"
  shows "length (dropWhile (\<lambda>c. \<not> P c) (dropWhile P t)) < length t"
proof -
  obtain c r where r: "dropWhile P t = c # r" using assms by (cases "dropWhile P t") auto
  then have "\<not> P c" by (metis hd_dropWhile list.sel(1) list.simps(3))
  then have "length (dropWhile (\<lambda>c. \<not> P c) (dropWhile P t)) \<le> length r" by (simp add: r length_dropWhile_le)
  also have "length r < length (dropWhile P t)" by (simp add: r)
  finally show ?thesis using length_dropWhile_le [of P t] by simp
qed

text \<open>\<open>text.split()\<close>\<close>

function words_of :: "string \<Rightarrow> string list" where
  "words_of t =
     (let r = dropWhile is_space t
      in if r = [] then [] else takeWhile (\<lambda>c. \<not> is_space c) r # words_of (dropWhile (\<lambda>c. \<not> is_space c) r))"
  by pat_completeness auto

termination
  by (relation "measure length") (use words_shorter in \<open>simp_all\<close>)

declare words_of.simps [simp del]

definition option_word :: "string \<Rightarrow> bool" where "option_word t = starts_with t ''-''"

text \<open>The word after \<open>-path\<close>, if there is one.\<close>

fun path_option :: "string list \<Rightarrow> string option" where
  "path_option (t # u # ts) = (if py_lower t \<in> {''-path'', ''-literalpath''} then Some u else path_option (u # ts))"
| "path_option ts = None"

definition shell_search_root :: "guard_lib \<Rightarrow> string \<Rightarrow> string option" where
  "shell_search_root L cmd =
     (case gl_search_at L cmd of
        None \<Rightarrow> None
      | Some n \<Rightarrow>
          let from_match = dropWhile (\<lambda>c. c \<in> set '';&|( '' \<or> c = char_of (9::nat)) (drop n cmd);
              toks = map (strip_of quotes) (words_of (takeWhile (\<lambda>c. c \<notin> set ''|;&'') from_match))
          in case toks of
               [] \<Rightarrow> Some ''.''
             | t # args \<Rightarrow>
                 let head = py_lower t; pos = filter (\<lambda>w. \<not> option_word w) args; rooted = (\<lambda>w. norm_root L (JStr w))
                 in if head = ''find''
                    then (if args \<noteq> [] \<and> \<not> option_word (hd args) then Some (rooted (hd args)) else Some ''.'')
                    else if head = ''get-childitem''
                    then (case path_option args of
                            Some w \<Rightarrow> Some (rooted w)
                          | None \<Rightarrow> if pos \<noteq> [] then Some (rooted (hd pos)) else Some ''.'')
                    else if head \<in> {''grep'', ''rg'', ''git'', ''select-string''}
                    then (let ps = (if head = ''git'' then drop 1 pos else pos)
                          in if 2 \<le> length ps then Some (rooted (last ps)) else Some ''.'')
                    else if pos \<noteq> [] then Some (rooted (last pos)) else Some ''.'')"

definition result_has_output :: "guard_lib \<Rightarrow> json \<Rightarrow> bool" where
  "result_has_output L result =
     (case result of
        JObj d \<Rightarrow>
          if py_truth (dget_or d ''error'' JNull) \<or> py_truth (dget_or d ''blocked'' JNull) then False
          else if (case dget_or d ''exit_code'' JNull of JInt i \<Rightarrow> i \<notin> {0, 1} | _ \<Rightarrow> False) then False
          else
            let parts = filter py_truth (map (\<lambda>k. dget_or d k JNull) [''output'', ''results'', ''matches'', ''stdout'', ''files'']);
                t = py_strip (join_space (map (py_str (gl_str L)) parts))
            in t \<noteq> [] \<and> \<not> list_ex (starts_with (py_lower t)) no_result_prefixes
      | _ \<Rightarrow> py_truth result)"

definition covers_root :: "string \<Rightarrow> string \<Rightarrow> bool" where
  "covers_root new_root old_root \<longleftrightarrow> new_root = ''.'' \<or> new_root = old_root \<or> starts_with old_root (rstrip_slash new_root @ ''/'')"

definition edit_rule :: "guard_lib \<Rightarrow> string \<Rightarrow> (string, json) dict \<Rightarrow> advisory_guard \<Rightarrow> advisory \<times> advisory_guard" where
  "edit_rule L tool args g =
     (let path = str_or_empty (gl_str L) (dget_or args ''path'' JNull);
          shape = take 3000 (gl_shape L (JObj (filter (\<lambda>p. fst p \<notin> {''path'', ''base_revision''}) args)));
          g1 = (if path \<noteq> [] \<and> tool = ag_edit_tool g \<and> path \<notin> set (ag_edit_paths g)
                   \<and> (shape = ag_edit_shape g \<or> gl_alike L shape (ag_edit_shape g))
                then g\<lparr>ag_edit_paths := ag_edit_paths g @ [path]\<rparr>
                else g\<lparr>ag_edit_tool := tool, ag_edit_shape := shape, ag_edit_paths := (if path \<noteq> [] then [path] else [])\<rparr>)
      in if edit_streak \<le> length (ag_edit_paths g1) \<and> BatchEdits \<notin> ag_fired g1
         then (BatchEdits, g1\<lparr>ag_fired := insert BatchEdits (ag_fired g1)\<rparr>) else (NoAdvisory, g1))"

definition search_root :: "guard_lib \<Rightarrow> string \<Rightarrow> (string, json) dict \<Rightarrow> string option" where
  "search_root L tool args =
     (let broad = (\<lambda>r. if looks_like_file r then None else Some r)
      in if tool = ''grep'' then broad (norm_root L (dget_or args ''path'' JNull))
         else if tool = ''glob''
           then (if \<not> list_ex (\<lambda>c. c \<in> set ''*?['') (str_or_empty (gl_str L) (dget_or args ''pattern'' JNull)) then None
                 else broad (norm_root L (dget_or args ''path'' JNull)))
         else if tool \<in> set shell_tools
           then (case shell_search_root L (shell_text L args) of None \<Rightarrow> None | Some r \<Rightarrow> broad r)
         else None)"

definition search_rule :: "guard_lib \<Rightarrow> string \<Rightarrow> (string, json) dict \<Rightarrow> json \<Rightarrow> int \<Rightarrow> advisory_guard \<Rightarrow> advisory \<times> advisory_guard" where
  "search_rule L tool args result round_num g =
     (case search_root L tool args of
        None \<Rightarrow> (NoAdvisory, g)
      | Some r \<Rightarrow>
          let again = (case ag_last_search g of
                         None \<Rightarrow> False
                       | Some (n, old) \<Rightarrow> Rescan \<notin> ag_fired g \<and> round_num - n \<le> search_window_rounds \<and> covers_root r old);
              g1 = (if again then g\<lparr>ag_fired := insert Rescan (ag_fired g)\<rparr> else g)
          in (if again then Rescan else NoAdvisory,
              g1\<lparr>ag_last_search := (if result_has_output L result then Some (round_num, r) else None)\<rparr>))"

definition advise :: "guard_lib \<Rightarrow> string \<Rightarrow> json \<Rightarrow> json \<Rightarrow> int \<Rightarrow> advisory_guard \<Rightarrow> advisory \<times> advisory_guard" where
  "advise L tool content result round_num g =
     (let args = call_args L tool content
      in if tool \<in> set edit_tools then edit_rule L tool args g
         else
           let g1 = g\<lparr>ag_edit_tool := [], ag_edit_shape := [], ag_edit_paths := []\<rparr>;
               piped = tool \<in> set shell_tools \<and> ShellPipeline \<notin> ag_fired g1 \<and> gl_pipeline L (shell_text L args);
               g2 = (if piped then g1\<lparr>ag_fired := insert ShellPipeline (ag_fired g1)\<rparr> else g1);
               (search, g3) = search_rule L tool args result round_num g2
           in (if piped then ShellPipeline else search, g3))"

end
