(* ===== verification/Stuck_Theorems.thy ===== *)
theory Stuck_Theorems
  imports Stuck_Watch
begin

text \<open>
  What the watch and the advisory guard guarantee over a whole turn.
\<close>

section \<open>Failing paths\<close>

type_synonym call_event = "call_key \<times> bool"

definition run_calls :: "call_event list \<Rightarrow> stuck_watch \<Rightarrow> stuck_watch" where
  "run_calls es w = fold (\<lambda>e w. snd (observe_call (fst e) (snd e) w)) es w"

text \<open>The failures of a call since it last succeeded.\<close>

definition fails_since :: "call_key \<Rightarrow> call_event list \<Rightarrow> nat" where
  "fails_since k es = length (filter (\<lambda>e. fst e = k) (takeWhile (\<lambda>e. e \<noteq> (k, False)) (rev es)))"

definition failing_calls :: "call_event list \<Rightarrow> call_key list" where
  "failing_calls es = remdups (map fst (filter snd es))"

lemma fails_since_snoc: "fails_since k (es @ [(j, f)]) =
    (if j = k then if f then Suc (fails_since k es) else 0 else fails_since k es)"
  by (auto simp: fails_since_def)

lemma failing_since: "0 < fails_since k es \<Longrightarrow> k \<in> set (failing_calls es)"
proof (induction es rule: rev_induct)
  case (snoc e es)
  then show ?case by (cases e) (auto simp: fails_since_snoc failing_calls_def split: if_splits)
qed (simp add: fails_since_def)

lemma failing_snoc: "set (failing_calls (es @ [(j, f)])) = (if f then insert j (set (failing_calls es)) else set (failing_calls es))"
  by (auto simp: failing_calls_def)

text \<open>The table holds the count of every call, and the closed calls are those at the limit.\<close>

definition tracks :: "int \<Rightarrow> call_event list \<Rightarrow> stuck_watch \<Rightarrow> bool" where
  "tracks limit es w \<longleftrightarrow> sw_path_limit w = limit \<and> dwf (sw_failures w)
     \<and> (\<forall>k. dget (sw_failures w) k = (if fails_since k es = 0 then None else Some (int (fails_since k es))))
     \<and> sw_closed w = {k. limit \<le> int (fails_since k es)}"

lemma tracksD:
  assumes "tracks limit es w"
  shows "sw_path_limit w = limit" "dwf (sw_failures w)" "sw_closed w = {k. limit \<le> int (fails_since k es)}"
    "dget (sw_failures w) j = (if fails_since j es = 0 then None else Some (int (fails_since j es)))"
  using assms unfolding tracks_def by blast+

lemma tracksI:
  assumes "sw_path_limit w = limit" "dwf (sw_failures w)" "\<And>k. k \<in> sw_closed w \<longleftrightarrow> limit \<le> int (fails_since k es)"
    "\<And>j. dget (sw_failures w) j = (if fails_since j es = 0 then None else Some (int (fails_since j es)))"
  shows "tracks limit es w"
  unfolding tracks_def using assms by blast

lemma tracked_keys:
  assumes "tracks limit es w"
  shows "set (dkeys (sw_failures w)) \<subseteq> set (failing_calls es)"
proof
  fix k assume "k \<in> set (dkeys (sw_failures w))"
  then have "dget (sw_failures w) k \<noteq> None" using dget_None_iff by metis
  then have "0 < fails_since k es" using tracksD(4) [OF assms, of k] by (simp split: if_splits)
  then show "k \<in> set (failing_calls es)" by (rule failing_since)
qed

lemma room_for_call:
  assumes "tracks limit es w" "length (failing_calls (es @ [(k, True)])) \<le> max_tracked_paths" "dget (sw_failures w) k = None"
  shows "length (sw_failures w) < max_tracked_paths"
proof -
  have "k \<notin> set (dkeys (sw_failures w))" using assms(3) dget_None_iff by metis
  then have "set (dkeys (sw_failures w)) \<subset> set (failing_calls (es @ [(k, True)]))" using tracked_keys [OF assms(1)] by (auto simp: failing_snoc)
  then have "card (set (dkeys (sw_failures w))) < card (set (failing_calls (es @ [(k, True)])))" by (intro psubset_card_mono) simp_all
  moreover have "length (dkeys (sw_failures w)) = card (set (dkeys (sw_failures w)))"
    using tracksD(2) [OF assms(1)] by (rule distinct_card [symmetric])
  moreover have "card (set (failing_calls (es @ [(k, True)]))) \<le> max_tracked_paths" using assms(2) card_length le_trans by blast
  ultimately show ?thesis by simp
qed

lemma observe_failed:
  assumes "sw_path_limit w \<noteq> 0" "\<not> (max_tracked_paths \<le> length (sw_failures w) \<and> dget (sw_failures w) k = None)"
  defines "c \<equiv> dget_or (sw_failures w) k 0 + 1"
  shows "fst (observe_call k True w) \<longleftrightarrow> sw_path_limit w \<le> c \<and> k \<notin> sw_closed w"
    "sw_path_limit (snd (observe_call k True w)) = sw_path_limit w"
    "sw_failures (snd (observe_call k True w)) = dset k c (sw_failures w)"
    "sw_closed (snd (observe_call k True w)) = (if sw_path_limit w \<le> c then insert k (sw_closed w) else sw_closed w)"
  using assms(1) unfolding c_def observe_call_def Let_def if_not_P [OF assms(2)] by auto

lemma tracks_call:
  assumes "tracks limit es w" "2 \<le> limit" "length (failing_calls (es @ [(k, f)])) \<le> max_tracked_paths"
  shows "tracks limit (es @ [(k, f)]) (snd (observe_call k f w))"
    "fst (observe_call k f w) \<longleftrightarrow> f \<and> int (fails_since k (es @ [(k, f)])) = limit"
proof -
  note w = tracksD [OF assms(1)]
  have "tracks limit (es @ [(k, f)]) (snd (observe_call k f w)) \<and> (fst (observe_call k f w) \<longleftrightarrow> f \<and> int (fails_since k (es @ [(k, f)])) = limit)"
  proof (cases f)
    case True
    have full: "\<not> (max_tracked_paths \<le> length (sw_failures w) \<and> dget (sw_failures w) k = None)"
      using room_for_call [OF assms(1)] assms(3) True by fastforce
    have "sw_path_limit w \<noteq> 0" using w(1) assms(2) by simp
    note step = observe_failed [OF this full]
    have count: "dget_or (sw_failures w) k 0 + 1 = int (Suc (fails_since k es))" by (simp add: dget_or_def w(4))
    have "tracks limit (es @ [(k, True)]) (snd (observe_call k True w))"
      by (rule tracksI) (use w step in \<open>auto simp: count fails_since_snoc split: if_splits\<close>)
    moreover have "fst (observe_call k True w) \<longleftrightarrow> int (Suc (fails_since k es)) = limit" using w step(1) by (auto simp: count)
    ultimately show ?thesis using True by (simp add: fails_since_snoc)
  next
    case False
    have "tracks limit (es @ [(k, False)]) (snd (observe_call k False w))"
      by (rule tracksI) (use w assms(2) in \<open>auto simp: observe_call_def fails_since_snoc\<close>)
    with False show ?thesis by (simp add: observe_call_def)
  qed
  then show "tracks limit (es @ [(k, f)]) (snd (observe_call k f w))"
    "fst (observe_call k f w) \<longleftrightarrow> f \<and> int (fails_since k (es @ [(k, f)])) = limit" by simp_all
qed

lemma failing_prefix: "length (failing_calls es) \<le> length (failing_calls (es @ [e]))"
proof -
  have "length (failing_calls es) = card (set (failing_calls es))" "length (failing_calls (es @ [e])) = card (set (failing_calls (es @ [e])))"
    by (simp_all add: failing_calls_def length_remdups_card_conv)
  then show ?thesis by (cases e) (auto simp: failing_snoc card_insert_if)
qed

lemma run_tracks:
  assumes "0 < limit" "length (failing_calls es) \<le> max_tracked_paths"
  shows "tracks (max 2 limit) es (run_calls es (new_stuck_watch rounds errors limit))"
  using assms(2)
proof (induction es rule: rev_induct)
  case Nil
  show ?case by (rule tracksI) (use assms(1) in \<open>simp_all add: run_calls_def new_stuck_watch_def floor_limit_def fails_since_def\<close>)
next
  case (snoc e es)
  obtain k f where e: "e = (k, f)" by (cases e)
  have "tracks (max 2 limit) es (run_calls es (new_stuck_watch rounds errors limit))"
    using snoc failing_prefix [of es e] by simp
  from tracks_call(1) [OF this _ snoc.prems [unfolded e]] show ?case by (simp add: e run_calls_def)
qed

text \<open>
  C35: while at most 64 calls fail in a turn, a call's path is closed exactly when it failed as often
  as the limit since it last succeeded, and the closing call is the one that reaches the limit.
\<close>

theorem failing_path_closes_at_the_limit:
  assumes "0 < limit" "length (failing_calls (es @ [(k, f)])) \<le> max_tracked_paths"
  shows "(path_closed j (run_calls es (new_stuck_watch rounds errors limit)) \<longleftrightarrow> max 2 limit \<le> int (fails_since j es))
    \<and> failures_for j (run_calls es (new_stuck_watch rounds errors limit)) = int (fails_since j es)
    \<and> (fst (observe_call k f (run_calls es (new_stuck_watch rounds errors limit))) \<longleftrightarrow> f \<and> int (fails_since k (es @ [(k, f)])) = max 2 limit)"
proof -
  have "tracks (max 2 limit) es (run_calls es (new_stuck_watch rounds errors limit))"
    using assms failing_prefix [of es "(k, f)"] by (intro run_tracks) simp_all
  from tracksD [OF this] tracks_call(2) [OF this _ assms(2)] show ?thesis
    by (simp add: path_closed_def failures_for_def dget_or_def)
qed

section \<open>Monologue\<close>

fun run_rounds :: "(int \<times> bool) list \<Rightarrow> stuck_watch \<Rightarrow> sw_action list \<times> stuck_watch" where
  "run_rounds [] w = ([], w)"
| "run_rounds ((calls, said) # rs) w =
     (let r = observe_round calls said w; s = run_rounds rs (snd r) in (fst r # fst s, snd s))"

lemma rounds_append: "run_rounds (rs @ ss) w =
    (fst (run_rounds rs w) @ fst (run_rounds ss (snd (run_rounds rs w))), snd (run_rounds ss (snd (run_rounds rs w))))"
  by (induction rs w rule: run_rounds.induct) (simp_all add: Let_def)

lemma rounds_limit: "sw_monologue_rounds (snd (run_rounds rs w)) = sw_monologue_rounds w"
  by (induction rs w rule: run_rounds.induct) (simp_all add: observe_round_def Let_def)

text \<open>
  a turn that only talks is nudged at the limit and stopped at twice the limit; no other round is
  answered.
\<close>

theorem monologue_is_nudged_then_stopped:
  assumes "0 < rounds"
  shows "fst (run_rounds (replicate n (0, True)) (new_stuck_watch rounds errors failures)) =
    map (\<lambda>k. if int k = max 2 rounds then SwNudge else if 2 * max 2 rounds \<le> int k then SwStop else SwNone) [1..<n + 1]"
proof -
  define w where "w = new_stuck_watch rounds errors failures"
  define m where "m = max 2 rounds"
  have start: "sw_monologue_rounds w = m" "sw_monologue_nudges w = 0" "sw_monologue_streak w = 0" "2 \<le> m"
    using assms by (simp_all add: w_def m_def new_stuck_watch_def floor_limit_def)
  have "fst (run_rounds (replicate n (0, True)) w) = map (\<lambda>k. if int k = m then SwNudge else if 2 * m \<le> int k then SwStop else SwNone) [1..<n + 1]
    \<and> sw_monologue_nudges (snd (run_rounds (replicate n (0, True)) w)) = (if int n < m then 0 else 1)
    \<and> sw_monologue_streak (snd (run_rounds (replicate n (0, True)) w)) = (if int n < m then int n else int n - m)"
  proof (induction n)
    case 0
    then show ?case using start by simp
  next
    case (Suc n)
    define q where "q = snd (run_rounds (replicate n (0, True)) w)"
    have q: "sw_monologue_rounds q = m" "sw_monologue_nudges q = (if int n < m then 0 else 1)"
      "sw_monologue_streak q = (if int n < m then int n else int n - m)"
      using Suc start(1) by (simp_all add: q_def rounds_limit)
    have answer: "fst (observe_round 0 True q) = (if int (Suc n) = m then SwNudge else if 2 * m \<le> int (Suc n) then SwStop else SwNone)"
      using q start(4) by (simp add: observe_round_def Let_def)
    have nudges: "sw_monologue_nudges (snd (observe_round 0 True q)) = (if int (Suc n) < m then 0 else 1)"
      and streak: "sw_monologue_streak (snd (observe_round 0 True q)) = (if int (Suc n) < m then int (Suc n) else int (Suc n) - m)"
      using q start(4) by (simp_all add: observe_round_def Let_def)
    have more: "replicate (Suc n) (0::int, True) = replicate n (0, True) @ [(0, True)]" by (simp add: replicate_append_same)
    show ?case
      unfolding more rounds_append q_def [symmetric] using Suc.IH [unfolded q_def [symmetric]] answer nudges streak
      by (simp add: Let_def del: of_nat_Suc)
  qed
  then show ?thesis by (simp add: w_def m_def)
qed

section \<open>Advisories\<close>

type_synonym advised_call = "string \<times> json \<times> json \<times> int"

fun run_advice :: "guard_lib \<Rightarrow> advised_call list \<Rightarrow> advisory_guard \<Rightarrow> advisory list \<times> advisory_guard" where
  "run_advice L [] g = ([], g)"
| "run_advice L ((tool, content, result, n) # cs) g =
     (let r = advise L tool content result n g; s = run_advice L cs (snd r) in (fst r # fst s, snd s))"

definition fires :: "advisory_guard \<Rightarrow> advisory \<times> advisory_guard \<Rightarrow> bool" where
  "fires g r \<longleftrightarrow> ag_fired g \<subseteq> ag_fired (snd r) \<and> (fst r = NoAdvisory \<or> fst r \<notin> ag_fired g \<and> fst r \<in> ag_fired (snd r))"

lemma edit_fires: "fires g (edit_rule L tool args g)"
  by (auto simp: fires_def edit_rule_def Let_def)

lemma search_fires: "fires g (search_rule L tool args result n g)"
  by (cases "ag_last_search g") (auto simp: fires_def search_rule_def Let_def split: option.split)

lemma advise_fires: "fires g (advise L tool content result n g)"
proof (cases "tool \<in> set edit_tools")
  case True
  then show ?thesis by (simp add: advise_def edit_fires)
next
  case False
  define args where "args = call_args L tool content"
  define g1 where "g1 = g\<lparr>ag_edit_tool := [], ag_edit_shape := [], ag_edit_paths := []\<rparr>"
  define piped where "piped \<longleftrightarrow> tool \<in> set shell_tools \<and> ShellPipeline \<notin> ag_fired g1 \<and> gl_pipeline L (shell_text L args)"
  define g2 where "g2 = (if piped then g1\<lparr>ag_fired := insert ShellPipeline (ag_fired g1)\<rparr> else g1)"
  have r: "advise L tool content result n g = (if piped then ShellPipeline else fst (search_rule L tool args result n g2), snd (search_rule L tool args result n g2))"
    using False by (simp add: advise_def args_def g1_def piped_def g2_def Let_def split: prod.split)
  have "fires g2 (search_rule L tool args result n g2)" by (rule search_fires)
  moreover have "ag_fired g1 = ag_fired g" by (simp add: g1_def)
  ultimately show ?thesis by (auto simp: r fires_def g2_def piped_def)
qed

lemma advise_fired:
  "ag_fired g \<subseteq> ag_fired (snd (advise L tool content result n g))"
  "fst (advise L tool content result n g) \<noteq> NoAdvisory \<Longrightarrow>
     fst (advise L tool content result n g) \<notin> ag_fired g \<and> fst (advise L tool content result n g) \<in> ag_fired (snd (advise L tool content result n g))"
  using advise_fires [unfolded fires_def] by metis+

lemma fired_stays_quiet: "a \<in> ag_fired g \<Longrightarrow> a \<noteq> NoAdvisory \<Longrightarrow> a \<notin> set (fst (run_advice L cs g))"
proof (induction L cs g rule: run_advice.induct)
  case (2 L tool content result n cs g)
  then show ?case using advise_fired [where L = L and tool = tool and content = content and result = result and n = n and g = g]
    by (auto simp: Let_def)
qed simp

text \<open>an advisory costs its text at most once in a run.\<close>

theorem advisories_appear_once:
  "count_list (fst (run_advice L cs g)) Rescan \<le> 1 \<and> count_list (fst (run_advice L cs g)) BatchEdits \<le> 1
   \<and> count_list (fst (run_advice L cs g)) ShellPipeline \<le> 1"
proof -
  have "count_list (fst (run_advice L cs g)) a \<le> 1" if "a \<noteq> NoAdvisory" for a
  proof (induction L cs g rule: run_advice.induct)
    case (2 L tool content result n cs g)
    let ?r = "advise L tool content result n g"
    show ?case
    proof (cases "fst ?r = a")
      case True
      with that advise_fired(2) have "a \<in> ag_fired (snd ?r)" by metis
      from fired_stays_quiet [OF this that, of L cs] True show ?thesis by (simp add: Let_def count_list_0_iff)
    next
      case False
      with 2 show ?thesis by (simp add: Let_def)
    qed
  qed simp
  then show ?thesis by simp
qed

text \<open>
  when one shell call earns both the pipeline and the rescan advisory, only the first is shown,
  and the second is spent: it is never shown in that run.
\<close>

theorem rescan_advisory_is_swallowed:
  assumes "tool \<in> set shell_tools" "ShellPipeline \<notin> ag_fired g" "gl_pipeline L (shell_text L (call_args L tool content))"
    "search_root L tool (call_args L tool content) = Some r" "ag_last_search g = Some (m, old)" "Rescan \<notin> ag_fired g"
    "n - m \<le> search_window_rounds" "covers_root r old"
  shows "fst (advise L tool content result n g) = ShellPipeline
    \<and> Rescan \<notin> set (fst (run_advice L ((tool, content, result, n) # cs) g))"
proof -
  let ?r = "advise L tool content result n g"
  have "tool \<notin> set edit_tools" using assms(1) by (auto simp: shell_tools_def edit_tools_def)
  with assms have "fst ?r = ShellPipeline" "Rescan \<in> ag_fired (snd ?r)"
    by (auto simp: advise_def search_rule_def Let_def split: prod.splits option.splits)
  with fired_stays_quiet [OF this(2), of L cs] show ?thesis by (simp add: Let_def)
qed

section \<open>Witnesses\<close>

definition demo_guard_lib :: guard_lib where
  "demo_guard_lib = \<lparr>gl_loads = (\<lambda>t. None), gl_str = (\<lambda>v. []), gl_shape = (\<lambda>v. []), gl_alike = (=),
     gl_search_at = (\<lambda>t. Some 0), gl_pipeline = (\<lambda>t. True)\<rparr>"

lemma failing_path_closes_at_the_limit_witness:
  "path_closed (''bash'', ''make'') (run_calls (replicate 3 ((''bash'', ''make''), True)) (new_stuck_watch 3 2 3))"
proof -
  let ?es = "replicate 3 ((''bash'', ''make''), True)"
  have "length (failing_calls (?es @ [((''bash'', ''make''), True)])) \<le> max_tracked_paths"
    by (simp add: failing_calls_def max_tracked_paths_def numeral_3_eq_3)
  from failing_path_closes_at_the_limit [of 3 ?es "(''bash'', ''make'')" True "(''bash'', ''make'')" 3 2, OF _ this]
  show ?thesis by (simp add: fails_since_def numeral_3_eq_3)
qed

lemma monologue_is_nudged_then_stopped_witness:
  "fst (run_rounds (replicate 6 (0, True)) (new_stuck_watch 3 2 3)) = [SwNone, SwNone, SwNudge, SwNone, SwNone, SwStop]"
  using monologue_is_nudged_then_stopped [of 3 6 2 3] by (simp add: upt_rec numeral_eq_Suc)

lemma rescan_advisory_is_swallowed_witness:
  "Rescan \<notin> set (fst (run_advice demo_guard_lib [(''bash'', JObj [(''command'', JStr ''find . | wc -l'')], JNull, 2)]
     (new_advisory_guard\<lparr>ag_last_search := Some (1, ''.'')\<rparr>)))"
proof -
  have root': "search_root demo_guard_lib ''bash'' (call_args demo_guard_lib ''bash'' (JObj [(''command'', JStr ''find . | wc -l'')])) = Some ''.''"
    by code_simp
  from rescan_advisory_is_swallowed [OF _ _ _ root', of "new_advisory_guard\<lparr>ag_last_search := Some (1, ''.'')\<rparr>" 1 "''.''" 2 JNull "[]"]
  show ?thesis by (simp add: shell_tools_def new_advisory_guard_def demo_guard_lib_def search_window_rounds_def covers_root_def)
qed

end
