(* ===== verification/Mail_Theorems.thy ===== *)
theory Mail_Theorems
  imports Agent_Mailbox
begin

text \<open>
  The mailbox under every interleaving of its callers: senders, turns, workers, wakes and readers.
\<close>

section \<open>The system\<close>

text \<open>
  \<open>handed\<close> is the history of hand-overs, a message's id with the chat it went to. New ids are new: no
  message has them, none replies to them (not even their own), and they are shorter than a stored \<open>reply_to\<close> may be. Every
  setting of the cap is at most \<open>cap\<close>.
\<close>

definition empty_mailbox :: mailbox where
  "empty_mailbox = \<lparr>mb_messages = [], mb_wakes = [], mb_urgent = {}\<rparr>"

definition new_id :: "string \<Rightarrow> mailbox \<Rightarrow> bool" where
  "new_id mid mb \<longleftrightarrow> length mid < 64 \<and> mid \<noteq> [] \<and> list_all (\<lambda>m. am_id m \<noteq> mid \<and> am_reply_to m \<noteq> mid) (mb_messages mb)"

text \<open>
  The steps are what happens under the lock, and what happens without it: \<open>send\<close> marks its recipient for the polls after the message
  is committed, and \<open>take_for_turn\<close> looks at the marks before it takes the lock, so a \<open>drain\<close> may come at any time after the look.
  \<open>pending\<close> are the sends that have not made their mark yet, with the message's id; \<open>unseen\<close> the urgent messages whose chat was not marked since: their
  own send is still to do it, or they were there when the process started.
\<close>

definition marks_due :: "send_result \<Rightarrow> (string \<times> string) set" where
  "marks_due r = (case r of SendQueued m _ \<Rightarrow> if am_urgent m then {(am_id m, am_recipient m)} else {} | _ \<Rightarrow> {})"

definition urgent_ids :: "string \<Rightarrow> mailbox \<Rightarrow> string set" where
  "urgent_ids chat mb = set (map am_id (filter am_urgent (queued_for chat mb)))"

inductive mail_steps :: "int \<Rightarrow> mailbox \<Rightarrow> (string \<times> string) list \<Rightarrow> (string \<times> string) set \<Rightarrow> string set \<Rightarrow> bool" for cap :: int where
  start: "mail_steps cap empty_mailbox [] {} {}"
| post: "mail_steps cap mb handed pending unseen \<Longrightarrow> wakes_per_hour e \<le> cap \<Longrightarrow> new_id mid mb \<Longrightarrow> py_strip reply_to \<noteq> mid
    \<Longrightarrow> mail_post e mid now owner s recipient body urgent reply_to mb = (r, mb')
    \<Longrightarrow> mail_steps cap mb' handed (pending \<union> marks_due r) (unseen \<union> fst ` marks_due r)"
| mark: "mail_steps cap mb handed pending unseen \<Longrightarrow> (i, chat) \<in> pending
    \<Longrightarrow> mail_steps cap (note_urgent chat mb) handed (pending - {(i, chat)}) (unseen - urgent_ids chat mb)"
| drain: "mail_steps cap mb handed pending unseen \<Longrightarrow> drain_chat now chat u mb = (rows, mb')
    \<Longrightarrow> mail_steps cap mb' (handed @ map (\<lambda>m. (am_id m, chat)) rows) pending unseen"
| worker: "mail_steps cap mb handed pending unseen \<Longrightarrow> mail_steps cap (mark_delivered now mid mb) handed pending unseen"
| wake: "mail_steps cap mb handed pending unseen \<Longrightarrow> wakes_per_hour e \<le> cap \<Longrightarrow> mail_steps cap (snd (consume_wake e now chat mb)) handed pending unseen"
| read: "mail_steps cap mb handed pending unseen \<Longrightarrow> mail_steps cap (snd (mark_read now owner chat ids mb)) handed pending unseen"
| restart: "mail_steps cap mb handed pending unseen \<Longrightarrow> mail_steps cap (mail_restart mb) handed {} (\<Union>chat. urgent_ids chat mb)"

inductive_cases mail_stepsE: "mail_steps cap mb handed pending unseen"

definition mail_reach :: "int \<Rightarrow> mailbox \<Rightarrow> (string \<times> string) list \<Rightarrow> bool" where
  "mail_reach cap mb handed \<longleftrightarrow> (\<exists>pending unseen. mail_steps cap mb handed pending unseen)"

section \<open>Invariants\<close>

definition accepted :: "agent_msg \<Rightarrow> bool" where
  "accepted m \<longleftrightarrow> am_state m \<noteq> MsRefused"

text \<open>\<open>p\<close> is the message that \<open>m\<close> replies to, in the eyes of \<open>m\<close>'s owner.\<close>

definition replies_to :: "agent_msg \<Rightarrow> agent_msg \<Rightarrow> bool" where
  "replies_to m p \<longleftrightarrow> am_reply_to m = am_id p \<and> (am_owner m = [] \<or> am_owner p = [] \<or> am_owner p = am_owner m)"

definition wakes_between :: "real \<Rightarrow> string \<Rightarrow> mailbox \<Rightarrow> nat" where
  "wakes_between x chat mb = length (filter (\<lambda>w. snd w = chat \<and> x < fst w \<and> fst w \<le> x + wake_window_s) (mb_wakes mb))"

text \<open>What the messages alone satisfy.\<close>

definition messages_ok :: "agent_msg list \<Rightarrow> bool" where
  "messages_ok ms \<longleftrightarrow> distinct (map am_id ms) \<and> (\<forall>m \<in> set ms. am_id m \<noteq> [] \<and> length (am_id m) < 64)
     \<and> (\<forall>chat. length (filter (\<lambda>m. am_recipient m = chat \<and> am_state m = MsQueued) ms) \<le> max_queued)
     \<and> (\<forall>m \<in> set ms. accepted m \<longrightarrow> 1 \<le> am_hops m \<and> am_hops m \<le> max_hops)
     \<and> (\<forall>m \<in> set ms. \<forall>p \<in> set ms. accepted m \<longrightarrow> replies_to m p \<longrightarrow> am_hops p < am_hops m)"

definition handed_ok :: "agent_msg list \<Rightarrow> (string \<times> string) list \<Rightarrow> bool" where
  "handed_ok ms handed \<longleftrightarrow> distinct (map fst handed)
     \<and> (\<forall>(i, chat) \<in> set handed. \<exists>m \<in> set ms. am_id m = i \<and> am_recipient m = chat \<and> am_state m \<in> {MsDelivered, MsRead})"

definition mail_inv :: "int \<Rightarrow> mailbox \<Rightarrow> (string \<times> string) list \<Rightarrow> bool" where
  "mail_inv cap mb handed \<longleftrightarrow> messages_ok (mb_messages mb) \<and> handed_ok (mb_messages mb) handed
     \<and> (\<forall>x chat. int (wakes_between x chat mb) \<le> max 0 cap)"

text \<open>Changes that only move a message forward: delivered, read, never queued or accepted again.\<close>

definition moves_on :: "(agent_msg \<Rightarrow> agent_msg) \<Rightarrow> bool" where
  "moves_on f \<longleftrightarrow> (\<forall>m. am_id (f m) = am_id m \<and> am_recipient (f m) = am_recipient m \<and> am_hops (f m) = am_hops m
     \<and> am_owner (f m) = am_owner m \<and> am_reply_to (f m) = am_reply_to m \<and> am_urgent (f m) = am_urgent m
     \<and> (am_state (f m) = MsQueued \<longrightarrow> am_state m = MsQueued) \<and> (am_state (f m) = MsRefused \<longleftrightarrow> am_state m = MsRefused)
     \<and> (am_state m \<in> {MsDelivered, MsRead} \<longrightarrow> am_state (f m) \<in> {MsDelivered, MsRead}))"

lemma moves_onD:
  assumes "moves_on f"
  shows "am_id (f m) = am_id m" "am_recipient (f m) = am_recipient m" "am_hops (f m) = am_hops m"
    "am_owner (f m) = am_owner m" "am_reply_to (f m) = am_reply_to m" "am_urgent (f m) = am_urgent m"
    "am_state (f m) = MsQueued \<Longrightarrow> am_state m = MsQueued" "am_state (f m) = MsRefused \<longleftrightarrow> am_state m = MsRefused"
    "am_state m \<in> {MsDelivered, MsRead} \<Longrightarrow> am_state (f m) \<in> {MsDelivered, MsRead}"
  using assms unfolding moves_on_def by blast+

lemma moves_on_replies: "moves_on f \<Longrightarrow> replies_to (f m) (f p) = replies_to m p"
  by (simp add: replies_to_def moves_onD)

lemma filter_moved:
  assumes "moves_on f"
  shows "length (filter (\<lambda>m. am_recipient m = chat \<and> am_state m = MsQueued) (map f ms))
    \<le> length (filter (\<lambda>m. am_recipient m = chat \<and> am_state m = MsQueued) ms)"
  using assms by (induction ms) (auto simp: moves_onD)

lemma messages_ok_moved:
  assumes "moves_on f" "messages_ok ms"
  shows "messages_ok (map f ms)"
proof -
  have "length (filter (\<lambda>m. am_recipient m = chat \<and> am_state m = MsQueued) (map f ms)) \<le> max_queued" for chat
    using filter_moved [OF assms(1)] assms(2) le_trans unfolding messages_ok_def by blast
  then show ?thesis
    using assms by (auto simp: messages_ok_def accepted_def moves_onD moves_on_replies comp_def)
qed

lemma handed_ok_moved: "moves_on f \<Longrightarrow> handed_ok ms handed \<Longrightarrow> handed_ok (map f ms) handed"
  unfolding handed_ok_def
proof (elim conjE, intro conjI ballI)
  fix x assume f: "moves_on f" and all: "\<forall>(i, chat) \<in> set handed. \<exists>m \<in> set ms. am_id m = i \<and> am_recipient m = chat \<and> am_state m \<in> {MsDelivered, MsRead}"
    and x: "x \<in> set handed"
  obtain i chat where ic: "x = (i, chat)" by (cases x)
  from all x ic obtain m where m: "m \<in> set ms" "am_id m = i" "am_recipient m = chat" "am_state m \<in> {MsDelivered, MsRead}" by auto
  then have "f m \<in> set (map f ms)" "am_id (f m) = i" "am_recipient (f m) = chat" "am_state (f m) \<in> {MsDelivered, MsRead}"
    using moves_onD [OF f, of m] by auto
  then show "case x of (i, chat) \<Rightarrow> \<exists>m \<in> set (map f ms). am_id m = i \<and> am_recipient m = chat \<and> am_state m \<in> {MsDelivered, MsRead}"
    unfolding ic by blast
qed

lemma mail_inv_moved:
  assumes "moves_on f" "mail_inv cap mb handed"
  shows "mail_inv cap (mb\<lparr>mb_messages := map f (mb_messages mb)\<rparr>) handed"
  using assms messages_ok_moved [OF assms(1)] handed_ok_moved [OF assms(1)]
  by (auto simp: mail_inv_def wakes_between_def moves_onD)

lemma moves_deliver: "(\<And>m. sel m \<Longrightarrow> am_state m = MsQueued) \<Longrightarrow> moves_on (\<lambda>m. if sel m then deliver_at now m else m)"
  unfolding moves_on_def deliver_at_def by auto

lemma mail_inv_worker: "mail_inv cap mb handed \<Longrightarrow> mail_inv cap (mark_delivered now mid mb) handed"
  unfolding mark_delivered_def update_messages_def by (rule mail_inv_moved [OF moves_deliver]) simp_all

lemma mail_inv_read: "mail_inv cap mb handed \<Longrightarrow> mail_inv cap (snd (mark_read now owner chat ids mb)) handed"
  unfolding mark_read_def update_messages_def Let_def snd_conv
  by (rule mail_inv_moved) (auto simp: moves_on_def)

lemma wakes_in_add:
  assumes "int (wakes_between x chat mb) \<le> max 0 cap" "int (wakes_in_window chat' now mb) < cap"
  shows "int (wakes_between x chat (add_wake now chat' mb)) \<le> max 0 cap"
proof (cases "chat = chat' \<and> x < now \<and> now \<le> x + wake_window_s")
  case True
  have "wakes_between x chat mb \<le> wakes_in_window chat' now mb"
    unfolding wakes_between_def wakes_in_window_def using True
    by (intro length_filter_impl) auto
  then show ?thesis using assms(2) True by (simp add: wakes_between_def add_wake_def)
next
  case False
  then show ?thesis using assms(1) by (auto simp: wakes_between_def add_wake_def)
qed

lemma mail_inv_add_wake: "mail_inv cap mb handed \<Longrightarrow> int (wakes_in_window chat now mb) < cap \<Longrightarrow> mail_inv cap (add_wake now chat mb) handed"
  using wakes_in_add by (auto simp: mail_inv_def add_wake_def)

lemma mail_inv_wake: "mail_inv cap mb handed \<Longrightarrow> wakes_per_hour e \<le> cap \<Longrightarrow> mail_inv cap (snd (consume_wake e now chat mb)) handed"
  by (auto simp: consume_wake_def intro: mail_inv_add_wake)

section \<open>Handing over\<close>

lemma order_set: "set (hand_over_order ms) = set ms"
  by (auto simp: hand_over_order_def)

lemma order_ids: "distinct (map am_id ms) \<Longrightarrow> distinct (map am_id (hand_over_order ms))"
  by (auto simp: hand_over_order_def distinct_map inj_on_def)

definition taken_rows :: "string \<Rightarrow> bool \<Rightarrow> mailbox \<Rightarrow> agent_msg list" where
  "taken_rows chat urgent_only mb = hand_over_order (filter (\<lambda>m. urgent_only \<longrightarrow> am_urgent m) (queued_for chat mb))"

lemma taken_set: "set (taken_rows chat u mb) = {m \<in> set (mb_messages mb). am_recipient m = chat \<and> am_state m = MsQueued \<and> (u \<longrightarrow> am_urgent m)}"
  by (auto simp: taken_rows_def order_set queued_for_def)

lemma drain_facts:
  "fst (drain_chat now chat u mb) = map (deliver_at now) (taken_rows chat u mb)"
  "mb_messages (snd (drain_chat now chat u mb))
     = map (\<lambda>m. if am_id m \<in> set (map am_id (taken_rows chat u mb)) then deliver_at now m else m) (mb_messages mb)"
  "mb_wakes (snd (drain_chat now chat u mb)) = mb_wakes mb"
  "mb_urgent (snd (drain_chat now chat u mb))
     = (if list_ex am_urgent (queued_for chat (snd (drain_chat now chat u mb))) then mb_urgent mb else mb_urgent mb - {chat})"
proof -
  have "queued_for chat (mb'\<lparr>mb_urgent := z\<rparr>) = queued_for chat mb'" for mb' z by (simp add: queued_for_def)
  then show "fst (drain_chat now chat u mb) = map (deliver_at now) (taken_rows chat u mb)"
    "mb_messages (snd (drain_chat now chat u mb))
       = map (\<lambda>m. if am_id m \<in> set (map am_id (taken_rows chat u mb)) then deliver_at now m else m) (mb_messages mb)"
    "mb_wakes (snd (drain_chat now chat u mb)) = mb_wakes mb"
    "mb_urgent (snd (drain_chat now chat u mb))
       = (if list_ex am_urgent (queued_for chat (snd (drain_chat now chat u mb))) then mb_urgent mb else mb_urgent mb - {chat})"
    by (simp_all add: drain_chat_def Let_def taken_rows_def [symmetric] update_messages_def)
qed

lemma take_cases:
  obtains "take_for_turn e now chat u mb = ([], mb)" "(u \<and> chat \<notin> mb_urgent mb) \<or> info_is_comparison (me_info e chat)"
  | "take_for_turn e now chat u mb = drain_chat now chat u mb" "\<not> (u \<and> chat \<notin> mb_urgent mb)" "\<not> info_is_comparison (me_info e chat)"
  by (cases "(u \<and> chat \<notin> mb_urgent mb) \<or> info_is_comparison (me_info e chat)") (auto simp: take_for_turn_def)

lemma row_of_id:
  assumes "messages_ok (mb_messages mb)" "m \<in> set (mb_messages mb)"
  shows "am_id m \<in> set (map am_id (taken_rows chat u mb)) \<longleftrightarrow> m \<in> set (taken_rows chat u mb)"
proof
  assume "am_id m \<in> set (map am_id (taken_rows chat u mb))"
  then obtain r where r: "r \<in> set (taken_rows chat u mb)" "am_id r = am_id m" by auto
  then have "r \<in> set (mb_messages mb)" by (simp add: taken_set)
  then have "r = m" using assms r(2) by (auto simp: messages_ok_def distinct_map inj_on_def)
  with r(1) show "m \<in> set (taken_rows chat u mb)" by simp
qed simp

lemma handed_ok_more:
  assumes "messages_ok ms" "handed_ok ms handed" "rows = taken_rows chat u mb" "mb_messages mb = ms"
  shows "handed_ok (map (\<lambda>m. if m \<in> set rows then deliver_at now m else m) ms) (handed @ map (\<lambda>m. (am_id m, chat)) rows)"
proof -
  let ?f = "\<lambda>m. if m \<in> set rows then deliver_at now m else m"
  have rows: "set rows \<subseteq> set ms" "\<And>m. m \<in> set rows \<Longrightarrow> am_state m = MsQueued \<and> am_recipient m = chat"
    using assms(3,4) taken_set [of chat u mb] by auto
  have "moves_on ?f" using rows(2) by (intro moves_deliver) simp
  then have old: "handed_ok (map ?f ms) handed" using assms(2) by (rule handed_ok_moved)
  have ids: "distinct (map am_id rows)"
    using assms(1,3,4) by (auto simp: taken_rows_def queued_for_def messages_ok_def intro!: order_ids distinct_map_filter)
  have fresh: "am_id m \<notin> set (map fst handed)" if "m \<in> set rows" for m
  proof
    assume "am_id m \<in> set (map fst handed)"
    then obtain c where "(am_id m, c) \<in> set handed" by auto
    then obtain r where r: "r \<in> set ms" "am_id r = am_id m" "am_state r \<in> {MsDelivered, MsRead}" using assms(2) by (auto simp: handed_ok_def)
    moreover have "m \<in> set ms" using that rows(1) by blast
    ultimately have "r = m" using assms(1) by (auto simp: messages_ok_def distinct_map inj_on_def)
    with r(3) rows(2) [OF that] show False by simp
  qed
  have new: "\<exists>m' \<in> set (map ?f ms). am_id m' = am_id m \<and> am_recipient m' = chat \<and> am_state m' \<in> {MsDelivered, MsRead}" if "m \<in> set rows" for m
    using that rows by (intro bexI [of _ "?f m"]) (auto simp: deliver_at_def)
  have "distinct (map fst (handed @ map (\<lambda>m. (am_id m, chat)) rows))"
    using old ids fresh by (force simp: handed_ok_def comp_def)
  moreover have "\<exists>m' \<in> set (map ?f ms). am_id m' = i \<and> am_recipient m' = c \<and> am_state m' \<in> {MsDelivered, MsRead}"
    if "(i, c) \<in> set (handed @ map (\<lambda>m. (am_id m, chat)) rows)" for i c
    using that old new by (auto simp: handed_ok_def)
  ultimately show ?thesis unfolding handed_ok_def by blast
qed

lemma drain_messages:
  assumes "messages_ok (mb_messages mb)"
  shows "mb_messages (snd (drain_chat now chat u mb)) = map (\<lambda>m. if m \<in> set (taken_rows chat u mb) then deliver_at now m else m) (mb_messages mb)"
  using row_of_id [OF assms] by (simp add: drain_facts(2))

lemma moves_drain: "moves_on (\<lambda>m. if m \<in> set (taken_rows chat u mb) then deliver_at now m else m)"
  by (rule moves_deliver) (simp add: taken_set)

lemma mail_inv_drain:
  assumes "mail_inv cap mb handed" and d: "drain_chat now chat u mb = (rows, mb')"
  shows "mail_inv cap mb' (handed @ map (\<lambda>m. (am_id m, chat)) rows)"
proof -
  have mb': "mb' = snd (drain_chat now chat u mb)" and r: "rows = map (deliver_at now) (taken_rows chat u mb)" using d drain_facts(1) [of now chat u mb] by simp_all
  have ok: "messages_ok (mb_messages mb)" "handed_ok (mb_messages mb) handed" using assms(1) by (simp_all add: mail_inv_def)
  have handed: "map (\<lambda>m. (am_id m, chat)) rows = map (\<lambda>m. (am_id m, chat)) (taken_rows chat u mb)"
    by (simp add: r comp_def deliver_at_def)
  have "handed_ok (mb_messages mb') (handed @ map (\<lambda>m. (am_id m, chat)) (taken_rows chat u mb))"
    unfolding mb' drain_messages [OF ok(1)] using handed_ok_more [OF ok refl refl] by simp
  moreover have "messages_ok (mb_messages mb')" unfolding mb' drain_messages [OF ok(1)] using moves_drain ok(1) by (rule messages_ok_moved)
  moreover have "wakes_between x c mb' = wakes_between x c mb" for x c by (simp add: mb' wakes_between_def drain_facts(3))
  ultimately show ?thesis using assms(1) unfolding handed mail_inv_def by simp
qed

section \<open>Sending\<close>

lemma wake_cases:
  obtains "snd (decide_wake e owner chat info now mb) = mb" "\<not> wk_woken (fst (decide_wake e owner chat info now mb))"
  | "snd (decide_wake e owner chat info now mb) = add_wake now chat mb" "int (wakes_in_window chat now mb) < wakes_per_hour e"
    "\<not> info_is_comparison (Some info)" "chat_status e chat owner = ChatIdle"
proof (cases "info_is_comparison (Some info) \<or> chat_status e chat owner \<noteq> ChatIdle \<or> wakes_per_hour e \<le> int (wakes_in_window chat now mb)")
  case True
  then have "snd (decide_wake e owner chat info now mb) = mb \<and> \<not> wk_woken (fst (decide_wake e owner chat info now mb))"
    by (auto simp: decide_wake_def not_woken_def Let_def split: chat_state.split)
  with that(1) show ?thesis by blast
next
  case False
  then have "snd (decide_wake e owner chat info now mb) = add_wake now chat mb" by (simp add: decide_wake_def Let_def)
  with False that(2) show ?thesis by auto
qed

text \<open>A message that was queued, as the row and the store show it.\<close>

definition queues :: "mail_env \<Rightarrow> string \<Rightarrow> real \<Rightarrow> string \<Rightarrow> sender \<Rightarrow> string \<Rightarrow> mailbox \<Rightarrow> agent_msg \<Rightarrow> mailbox \<Rightarrow> bool" where
  "queues e mid now owner s reply_to mb m mb' \<longleftrightarrow> am_id m = mid \<and> am_state m = MsQueued \<and> am_owner m = owner
     \<and> am_hops m = hops_for owner s reply_to now mb \<and> am_hops m \<le> max_hops \<and> am_reply_to m = take 64 reply_to
     \<and> length (queued_for (am_recipient m) mb) < max_queued \<and> mb_messages mb' = mb_messages mb @ [m]
     \<and> mb_urgent mb' = mb_urgent mb
     \<and> (mb_wakes mb' = mb_wakes mb
        \<or> int (wakes_in_window (am_recipient m) now mb) < wakes_per_hour e \<and> mb_wakes mb' = mb_wakes mb @ [(now, am_recipient m)])"

lemma queue_cases:
  fixes e mid now owner s r t0 u rt i mb
  defines "q \<equiv> queue_message e mid now owner s r t0 u rt i mb"
  obtains (refused) m where "fst q = SendRefused m" "am_id m = mid" "am_state m = MsRefused" "snd q = add_message m mb"
  | (queued) m wake where "fst q = SendQueued m wake" "queues e mid now owner s rt mb m (snd q)" "am_recipient m = r" "am_urgent m = u"
      "(wake, snd (if u then decide_wake e owner r i now mb else (not_woken ''not_urgent'', mb))) = (if u then decide_wake e owner r i now mb else (not_woken ''not_urgent'', mb))"
      "mb_wakes (snd q) = mb_wakes (snd (if u then decide_wake e owner r i now mb else (not_woken ''not_urgent'', mb)))"
proof -
  define h where "h = hops_for owner s rt now mb"
  define m where "m = new_message mid now owner s (sender_label e s) r t0 u h rt"
  define w where "w = (if u then decide_wake e owner r i now mb else (not_woken ''not_urgent'', mb))"
  let ?m1 = "m\<lparr>am_wake := (if wk_woken (fst w) then ''woken'' else wk_reason (fst w))\<rparr>"
  let ?mb2 = "add_message ?m1 (snd w)"
  have m: "am_id m = mid" "am_state m = MsQueued" "am_owner m = owner" "am_hops m = h" "am_reply_to m = take 64 rt" "am_recipient m = r" "am_urgent m = u"
    by (simp_all add: m_def new_message_def)
  have w: "mb_messages (snd w) = mb_messages mb" "mb_urgent (snd w) = mb_urgent mb"
    "mb_wakes (snd w) = mb_wakes mb \<or> int (wakes_in_window r now mb) < wakes_per_hour e \<and> mb_wakes (snd w) = mb_wakes mb @ [(now, r)]"
    by (cases rule: wake_cases [of e owner r i now mb]; simp add: w_def add_wake_def)+
  have eq: "q = (if max_hops < h then refuse m ''hop_limit'' mb else if max_queued \<le> length (queued_for r mb) then refuse m ''inbox_full'' mb
      else (SendQueued ?m1 (fst w), ?mb2))"
    unfolding q_def queue_message_def Let_def h_def m_def w_def ..
  show thesis
  proof (cases "max_hops < h \<or> max_queued \<le> length (queued_for r mb)")
    case True
    then have "q = refuse m (if max_hops < h then ''hop_limit'' else ''inbox_full'') mb" unfolding eq by auto
    then obtain reason where "q = refuse m reason mb" by blast
    with refused [of "m\<lparr>am_state := MsRefused, am_reason := reason, am_wake := []\<rparr>"] show thesis by (simp add: refuse_def Let_def m)
  next
    case False
    then have q: "q = (SendQueued ?m1 (fst w), ?mb2)" unfolding eq by simp
    have "queues e mid now owner s rt mb ?m1 (snd q)"
      unfolding queues_def q snd_conv using False m w by (simp add: h_def add_message_def)
    moreover have "(fst w, snd w) = w" "mb_wakes (snd q) = mb_wakes (snd w)" by (simp_all add: q add_message_def)
    ultimately show thesis using queued [of ?m1 "fst w"] m(6,7) unfolding q w_def by simp
  qed
qed

lemma post_cases:
  obtains (rejected) reason where "mail_post e mid now owner s recipient body urgent reply_to mb = (SendRejected reason, mb)"
  | (went) u i where "mail_post e mid now owner s recipient body urgent reply_to mb
        = queue_message e mid now owner s (py_strip recipient) (py_strip body) u (py_strip reply_to) i mb"
      "me_info e (py_strip recipient) = Some i" "parse_urgent urgent = Some u"
proof -
  define r t0 rt where "r = py_strip recipient" and "t0 = py_strip body" and "rt = py_strip reply_to"
  let ?post = "mail_post e mid now owner s recipient body urgent reply_to mb"
  note post = mail_post_def [of e mid now owner s recipient body urgent reply_to mb, folded r_def t0_def rt_def, unfolded Let_def]
  have "(\<exists>reason. ?post = (SendRejected reason, mb))
    \<or> (\<exists>u i. ?post = queue_message e mid now owner s r t0 u rt i mb \<and> me_info e r = Some i \<and> parse_urgent urgent = Some u)"
    unfolding post by (auto split: option.split)
  with that show thesis unfolding r_def t0_def rt_def by blast
qed

lemma take_short: "take n xs = ys \<Longrightarrow> length ys < n \<Longrightarrow> xs = ys"
  by (metis length_take min_less_iff_disj nat_less_le not_le take_all)

lemma foldr_base: "base \<le> foldr (\<lambda>m. max (am_hops m)) ms base"
  by (induction ms) (auto simp: le_max_iff_disj)

lemma hops_after_parent: "parent_hops owner reply_to mb < hops_for owner s reply_to now mb"
  using foldr_base [of "parent_hops owner reply_to mb" "heard_lately owner (sn_id s) now mb"] by (simp add: hops_for_def Let_def less_Suc_eq_le)

lemma find_by_id:
  assumes "distinct (map am_id (mb_messages mb))" "p \<in> set (mb_messages mb)"
  shows "find_msg (am_id p) mb = Some p"
proof -
  have "\<exists>q. find_msg (am_id p) mb = Some q" using assms(2) by (auto simp: find_msg_def find_None_iff not_None_eq [symmetric] simp del: not_None_eq)
  then obtain q where q: "find_msg (am_id p) mb = Some q" by blast
  then have "q \<in> set (mb_messages mb)" "am_id q = am_id p" by (auto simp: find_msg_def find_Some_iff in_set_conv_nth)
  with assms have "q = p" by (auto simp: distinct_map inj_on_def)
  with q show ?thesis by simp
qed

lemma reply_exceeds_parent:
  assumes "messages_ok (mb_messages mb)" "queues e mid now owner s reply_to mb m mb'" "p \<in> set (mb_messages mb)" "replies_to m p"
  shows "am_hops p < am_hops m"
proof -
  have id: "length (am_id p) < 64" "am_id p \<noteq> []" using assms(1,3) by (auto simp: messages_ok_def)
  have m: "am_reply_to m = take 64 reply_to" "am_owner m = owner" "am_hops m = hops_for owner s reply_to now mb"
    using assms(2) by (simp_all add: queues_def)
  then have "take 64 reply_to = am_id p" using assms(4) by (simp add: replies_to_def)
  then have rt: "reply_to = am_id p" using id(1) by (rule take_short)
  have "find_msg reply_to mb = Some p" unfolding rt using assms(1,3) by (intro find_by_id) (simp_all add: messages_ok_def)
  then have "parent_hops owner reply_to mb = am_hops p"
    using assms(4) id(2) rt m(2) by (auto simp: parent_hops_def replies_to_def)
  with hops_after_parent [of owner reply_to mb s now] m(3) show ?thesis by simp
qed

lemma mail_inv_queue:
  assumes "mail_inv cap mb handed" "wakes_per_hour e \<le> cap" "new_id mid mb" "rt \<noteq> mid"
  shows "mail_inv cap (snd (queue_message e mid now owner s r t0 u rt i mb)) handed"
proof (cases rule: queue_cases [of e mid now owner s r t0 u rt i mb])
  case (refused m)
  have "messages_ok (mb_messages mb)" "handed_ok (mb_messages mb) handed" using assms(1) by (simp_all add: mail_inv_def)
  then have "messages_ok (mb_messages mb @ [m])" "handed_ok (mb_messages mb @ [m]) handed"
    using assms(3) refused(2,3) by (auto simp: messages_ok_def handed_ok_def new_id_def list_all_iff accepted_def replies_to_def)
  then show ?thesis using assms(1) refused(3) unfolding refused(4) by (auto simp: mail_inv_def add_message_def wakes_between_def)
next
  case (queued m wake)
  let ?mb = "snd (queue_message e mid now owner s r t0 u rt i mb)"
  have ok: "messages_ok (mb_messages mb)" "handed_ok (mb_messages mb) handed" using assms(1) by (simp_all add: mail_inv_def)
  have m: "am_id m = mid" "am_state m = MsQueued" "am_hops m \<le> max_hops" "am_reply_to m = take 64 rt"
    "mb_messages ?mb = mb_messages mb @ [m]" "length (queued_for (am_recipient m) mb) < max_queued"
    using queued(2) by (simp_all add: queues_def)
  have "1 \<le> am_hops m" using queued(2) by (simp add: queues_def hops_for_def Let_def)
  moreover have "am_reply_to m \<noteq> mid" using m(4) assms(3,4) take_short [of 64 rt mid] by (auto simp: new_id_def)
  moreover have "am_hops p < am_hops m" if "p \<in> set (mb_messages mb)" "replies_to m p" for p
    using reply_exceeds_parent [OF ok(1) queued(2) that] .
  ultimately have "messages_ok (mb_messages mb @ [m])"
    using ok(1) m assms(3) by (auto simp: messages_ok_def new_id_def list_all_iff accepted_def replies_to_def queued_for_def)
  moreover have "handed_ok (mb_messages mb @ [m]) handed" using ok(2) by (auto simp: handed_ok_def)
  moreover have "int (wakes_between x chat ?mb) \<le> max 0 cap" for x chat
  proof -
    have old: "int (wakes_between x chat mb) \<le> max 0 cap" using assms(1) by (simp add: mail_inv_def)
    consider "mb_wakes ?mb = mb_wakes mb" | "int (wakes_in_window (am_recipient m) now mb) < cap" "mb_wakes ?mb = mb_wakes (add_wake now (am_recipient m) mb)"
      using queued(2) assms(2) by (auto simp: queues_def add_wake_def)
    then show ?thesis using old wakes_in_add [OF old] by cases (simp_all add: wakes_between_def)
  qed
  ultimately show ?thesis using assms(1) m(5) queued(2) by (auto simp: mail_inv_def queues_def)
qed

lemma mail_inv_post:
  assumes "mail_inv cap mb handed" "wakes_per_hour e \<le> cap" "new_id mid mb" "py_strip reply_to \<noteq> mid"
    "mail_post e mid now owner s recipient body urgent reply_to mb = (r, mb')"
  shows "mail_inv cap mb' handed"
proof -
  have "mail_inv cap (snd (mail_post e mid now owner s recipient body urgent reply_to mb)) handed"
    by (cases rule: post_cases [of e mid now owner s recipient body urgent reply_to mb]) (use assms(1-4) mail_inv_queue in simp_all)
  with assms(5) show ?thesis by simp
qed

lemma mail_inv_marks: "mail_inv cap (mb\<lparr>mb_urgent := z\<rparr>) handed = mail_inv cap mb handed"
  by (simp add: mail_inv_def wakes_between_def)

theorem mail_steps_inv: "mail_steps cap mb handed pending unseen \<Longrightarrow> mail_inv cap mb handed"
proof (induction rule: mail_steps.induct)
  case start
  show ?case by (simp add: mail_inv_def empty_mailbox_def messages_ok_def handed_ok_def wakes_between_def)
qed (auto simp: note_urgent_def mail_restart_def mail_inv_marks intro: mail_inv_post mail_inv_drain mail_inv_worker mail_inv_wake mail_inv_read)

lemma mail_reach_inv: "mail_reach cap mb handed \<Longrightarrow> mail_inv cap mb handed"
  unfolding mail_reach_def using mail_steps_inv by blast

section \<open>The marks\<close>

text \<open>Every urgent message that waits is unseen, or its chat is marked.\<close>

definition marked :: "mailbox \<Rightarrow> string set \<Rightarrow> bool" where
  "marked mb unseen \<longleftrightarrow> (\<forall>chat. urgent_ids chat mb \<subseteq> unseen \<or> chat \<in> mb_urgent mb)"

lemma urgent_idsE:
  assumes "i \<in> urgent_ids chat mb"
  obtains m where "m \<in> set (mb_messages mb)" "am_id m = i" "am_recipient m = chat" "am_state m = MsQueued" "am_urgent m"
  using assms by (auto simp: urgent_ids_def queued_for_def)

lemma urgent_ids_moved: "moves_on f \<Longrightarrow> mb_messages mb' = map f (mb_messages mb) \<Longrightarrow> urgent_ids chat mb' \<subseteq> urgent_ids chat mb"
  by (auto simp: urgent_ids_def queued_for_def moves_onD image_iff intro: moves_onD(7))

lemma marked_updated:
  assumes "moves_on (\<lambda>m. if sel m then f m else m)" "marked mb unseen"
  shows "marked (update_messages sel f mb) unseen"
  using urgent_ids_moved [OF assms(1), of "update_messages sel f mb" mb] assms(2)
  unfolding marked_def by (simp add: update_messages_def) (meson subset_trans)

lemma urgent_ids_apart:
  assumes "messages_ok (mb_messages mb)" "chat \<noteq> chat'"
  shows "urgent_ids chat mb \<inter> urgent_ids chat' mb = {}"
proof (rule equals0I)
  fix i assume "i \<in> urgent_ids chat mb \<inter> urgent_ids chat' mb"
  then obtain m m' where "m \<in> set (mb_messages mb)" "m' \<in> set (mb_messages mb)" "am_id m = am_id m'" "am_recipient m = chat" "am_recipient m' = chat'"
    by (auto elim!: urgent_idsE)
  with assms show False by (auto simp: messages_ok_def distinct_map inj_on_def)
qed

lemma marked_note:
  assumes "messages_ok (mb_messages mb)" "marked mb unseen"
  shows "marked (note_urgent chat mb) (unseen - urgent_ids chat mb)"
proof -
  have "urgent_ids c (note_urgent chat mb) = urgent_ids c mb" for c by (simp add: urgent_ids_def queued_for_def note_urgent_def)
  then show ?thesis using assms(2) urgent_ids_apart [OF assms(1)] unfolding marked_def by (fastforce simp: note_urgent_def)
qed

lemma marked_drain:
  assumes "messages_ok (mb_messages mb)" "marked mb unseen" and d: "drain_chat now chat u mb = (rows, mb')"
  shows "marked mb' unseen"
proof -
  have mb': "mb' = snd (drain_chat now chat u mb)" using d by simp
  have less: "urgent_ids c mb' \<subseteq> urgent_ids c mb" for c
    by (rule urgent_ids_moved [OF moves_drain [of chat u mb now]]) (simp add: mb' drain_messages [OF assms(1)])
  have "urgent_ids c mb' = {}" if "c \<in> mb_urgent mb" "c \<notin> mb_urgent mb'" for c
    using that drain_facts(4) [of now chat u mb] by (auto simp: mb' [symmetric] urgent_ids_def list_ex_iff filter_empty_conv split: if_splits)
  with less assms(2) show ?thesis unfolding marked_def by blast
qed

lemma queued_marks:
  assumes "queues e mid now owner s rt mb m mb'" "marked mb unseen"
  shows "marked mb' (unseen \<union> fst ` marks_due (SendQueued m w))"
proof -
  have "urgent_ids chat mb' \<subseteq> urgent_ids chat mb \<union> fst ` marks_due (SendQueued m w)" "mb_urgent mb' = mb_urgent mb" for chat
    using assms(1) by (auto simp: queues_def urgent_ids_def queued_for_def marks_due_def)
  with assms(2) show ?thesis unfolding marked_def by blast
qed

lemma marked_more: "marked mb unseen \<Longrightarrow> marked mb (unseen \<union> x)"
  unfolding marked_def by blast

lemma marked_post:
  assumes "marked mb unseen" "mail_post e mid now owner s recipient body urgent reply_to mb = (r, mb')"
  shows "marked mb' (unseen \<union> fst ` marks_due r)"
proof (cases rule: post_cases [of e mid now owner s recipient body urgent reply_to mb])
  case (rejected reason)
  with assms show ?thesis by (simp add: marked_more)
next
  case (went u i)
  then have q: "queue_message e mid now owner s (py_strip recipient) (py_strip body) u (py_strip reply_to) i mb = (r, mb')" using assms(2) by simp
  show ?thesis
  proof (cases rule: queue_cases [of e mid now owner s "py_strip recipient" "py_strip body" u "py_strip reply_to" i mb])
    case (refused m)
    then have "urgent_ids c mb' = urgent_ids c mb" "mb_urgent mb' = mb_urgent mb" for c
      by (simp_all add: q add_message_def urgent_ids_def queued_for_def)
    with assms(1) have "marked mb' unseen" by (simp add: marked_def)
    then show ?thesis by (rule marked_more)
  next
    case (queued m wake)
    then show ?thesis using queued_marks [OF queued(2) assms(1)] by (simp add: q)
  qed
qed

lemma marked_reached: "mail_steps cap mb handed pending unseen \<Longrightarrow> marked mb unseen"
proof (induction rule: mail_steps.induct)
  case start
  show ?case by (simp add: marked_def empty_mailbox_def urgent_ids_def queued_for_def)
next
  case (post mb handed pending unseen e mid reply_to now owner s recipient body urgent r mb')
  show ?case by (rule marked_post [OF post.IH post.hyps(5)])
next
  case (mark mb handed pending unseen i chat)
  have "messages_ok (mb_messages mb)" using mail_steps_inv [OF mark.hyps(1)] by (simp add: mail_inv_def)
  then show ?case using mark.IH by (rule marked_note)
next
  case (drain mb handed pending unseen now chat u rows mb')
  have "messages_ok (mb_messages mb)" using mail_steps_inv [OF drain.hyps(1)] by (simp add: mail_inv_def)
  then show ?case using drain.IH drain.hyps(2) by (rule marked_drain)
next
  case (worker mb handed pending unseen now mid)
  have "moves_on (\<lambda>m. if am_id m = mid \<and> am_state m = MsQueued then deliver_at now m else m)" by (rule moves_deliver) simp
  then show ?case unfolding mark_delivered_def by (rule marked_updated [OF _ worker.IH])
next
  case (wake mb handed pending unseen e now chat)
  then show ?case by (auto simp: marked_def consume_wake_def add_wake_def urgent_ids_def queued_for_def)
next
  case (read mb handed pending unseen now owner chat ids)
  show ?case unfolding mark_read_def Let_def snd_conv by (rule marked_updated [OF _ read.IH]) (auto simp: moves_on_def)
next
  case (restart mb handed pending unseen)
  have "urgent_ids c (mail_restart mb) = urgent_ids c mb" for c by (simp add: urgent_ids_def queued_for_def mail_restart_def)
  then show ?case unfolding marked_def by blast
qed

section \<open>The properties\<close>

text \<open>
  C7: no message is handed to a turn twice, whoever polls and in whatever order, and only its recipient
  is handed it; a refused message is handed to nobody.
\<close>

theorem messages_are_handed_over_once:
  assumes "mail_reach cap mb handed"
  shows "distinct (map fst handed)
    \<and> (\<forall>(i, chat) \<in> set handed. \<exists>m \<in> set (mb_messages mb). am_id m = i \<and> am_recipient m = chat \<and> am_state m \<in> {MsDelivered, MsRead})"
  using mail_reach_inv [OF assms] by (simp add: mail_inv_def handed_ok_def)

fun reply_chain :: "agent_msg list \<Rightarrow> bool" where
  "reply_chain (m # p # ms) = (replies_to m p \<and> reply_chain (p # ms))"
| "reply_chain ms = True"

lemma chain_hops:
  assumes "messages_ok ms"
  shows "reply_chain (c # cs) \<Longrightarrow> set (c # cs) \<subseteq> set ms \<Longrightarrow> list_all accepted (c # cs) \<Longrightarrow> length (c # cs) \<le> am_hops c"
proof (induction cs arbitrary: c)
  case Nil
  then show ?case using assms by (simp add: messages_ok_def)
next
  case (Cons p cs)
  then have "am_hops p < am_hops c" using assms by (simp add: messages_ok_def)
  moreover have "length (p # cs) \<le> am_hops p" using Cons by simp
  ultimately show ?case by simp
qed

text \<open>C19: a chain of replies ends: at most three messages in a row, each answering the one before, are accepted.\<close>

theorem reply_chains_are_short:
  assumes "mail_reach cap mb handed" "set ms \<subseteq> set (mb_messages mb)" "list_all accepted ms" "reply_chain ms"
  shows "length ms \<le> max_hops"
proof (cases ms)
  case (Cons c cs)
  have ok: "messages_ok (mb_messages mb)" using mail_reach_inv [OF assms(1)] by (simp add: mail_inv_def)
  have "am_hops c \<le> max_hops" using ok assms(2,3) Cons by (simp add: messages_ok_def)
  moreover have "length ms \<le> am_hops c" using chain_hops [OF ok, of c cs] assms(2-4) Cons by simp
  ultimately show ?thesis by simp
qed simp

text \<open>C26: in no hour, wherever it begins, is a chat woken more often than the cap.\<close>

theorem wakes_stay_under_the_cap:
  assumes "mail_reach cap mb handed"
  shows "int (wakes_between x chat mb) \<le> max 0 cap \<and> length (queued_for chat mb) \<le> max_queued"
  using mail_reach_inv [OF assms] by (simp add: mail_inv_def messages_ok_def queued_for_def)

lemma drain_ids: "set (map am_id (fst (drain_chat now chat u mb))) = set (map am_id (filter (\<lambda>m. u \<longrightarrow> am_urgent m) (queued_for chat mb)))"
  by (auto simp: drain_facts(1) taken_set queued_for_def deliver_at_def image_iff)

text \<open>
  C34: the cheap poll in the middle of a generation, which looks at the marks in memory before the store, is all or nothing: it
  hands over exactly the chat's urgent queued messages, or none of them; and none only when every one of them is unseen, which is
  when its own send has committed it and not yet made the mark, or it was queued when the process started, and no other urgent
  message to the chat was marked since. The drain at a turn's safe point looks at no mark and hands over every queued message.
\<close>

theorem urgent_poll_misses_nothing:
  assumes "mail_steps cap mb handed pending unseen" "\<not> info_is_comparison (me_info e chat)"
  shows "(let ids = set (map am_id (fst (take_for_turn e now chat True mb)))
          in if chat \<in> mb_urgent mb then ids = urgent_ids chat mb else ids = {} \<and> urgent_ids chat mb \<subseteq> unseen)
    \<and> set (map am_id (fst (take_for_turn e now chat False mb))) = set (map am_id (queued_for chat mb))"
proof -
  have m: "urgent_ids chat mb \<subseteq> unseen \<or> chat \<in> mb_urgent mb" using marked_reached [OF assms(1)] by (simp add: marked_def)
  have "take_for_turn e now chat u mb = (if u \<and> chat \<notin> mb_urgent mb then ([], mb) else drain_chat now chat u mb)" for u
    using assms(2) by (simp add: take_for_turn_def)
  then show ?thesis using m drain_ids [of now chat _ mb] by (auto simp: urgent_ids_def Let_def)
qed

text \<open>
  After a restart the marks are gone while the messages are still there: the poll hands over nothing, and the urgent messages wait
  for the turn's next safe point or for another urgent message to the chat.
\<close>

theorem restart_hides_urgent:
  assumes "\<not> info_is_comparison (me_info e chat)"
  shows "fst (take_for_turn e now chat True (mail_restart mb)) = [] \<and> urgent_ids chat (mail_restart mb) = urgent_ids chat mb
    \<and> set (map am_id (fst (take_for_turn e now chat True (note_urgent chat (mail_restart mb))))) = urgent_ids chat mb"
proof -
  have ids: "urgent_ids chat (mail_restart mb) = urgent_ids chat mb" by (simp add: urgent_ids_def queued_for_def mail_restart_def)
  have "set (map am_id (fst (take_for_turn e now chat True (note_urgent chat (mail_restart mb))))) = urgent_ids chat (note_urgent chat (mail_restart mb))"
    using assms drain_ids [of now chat True] by (simp add: take_for_turn_def note_urgent_def urgent_ids_def)
  moreover have "urgent_ids chat (note_urgent chat (mail_restart mb)) = urgent_ids chat mb"
    by (simp add: urgent_ids_def queued_for_def note_urgent_def mail_restart_def)
  ultimately show ?thesis using ids by (simp add: take_for_turn_def mail_restart_def)
qed

lemma update_recipients: "(\<And>m. am_recipient (f m) = am_recipient m) \<Longrightarrow> map am_recipient (mb_messages (update_messages sel f mb)) = map am_recipient (mb_messages mb)"
  by (auto simp: update_messages_def)

lemma drain_recipients: "map am_recipient (mb_messages (snd (drain_chat now chat u mb))) = map am_recipient (mb_messages mb)"
  by (simp add: drain_facts(2) deliver_at_def)

lemma take_recipients: "map am_recipient (mb_messages (snd (take_for_turn e now chat u mb))) = map am_recipient (mb_messages mb)"
  by (cases rule: take_cases [of e now chat u mb]) (simp_all add: drain_recipients)

lemma strip_twice: "py_strip (py_strip t) = py_strip t"
  by (rule py_strip_id) simp

lemma queue_recipients:
  "set (map am_recipient (mb_messages (snd (queue_message e mid now owner s r t0 u rt i mb)))) \<subseteq> insert r (set (map am_recipient (mb_messages mb)))"
proof -
  have new: "am_recipient (new_message mid now owner s l r t0 u h rt) = r" for l u h by (simp add: new_message_def)
  have "mb_messages (snd (if u then decide_wake e owner r i now mb else (not_woken ''not_urgent'', mb))) = mb_messages mb"
    by (cases rule: wake_cases [of e owner r i now mb]; simp add: add_wake_def)
  then show ?thesis by (auto simp: queue_message_def refuse_def add_message_def new Let_def)
qed

lemma post_recipients:
  assumes "mail_post e mid now owner s recipient body urgent reply_to mb = (r, mb')" and "\<forall>r \<in> set (map am_recipient (mb_messages mb)). py_strip r = r"
  shows "\<forall>r \<in> set (map am_recipient (mb_messages mb')). py_strip r = r"
proof (cases rule: post_cases [of e mid now owner s recipient body urgent reply_to mb])
  case (went u i)
  have "set (map am_recipient (mb_messages mb')) \<subseteq> insert (py_strip recipient) (set (map am_recipient (mb_messages mb)))"
    using queue_recipients [of e mid now owner s "py_strip recipient" "py_strip body" u "py_strip reply_to" i mb] went(1) assms(1) by (metis snd_conv)
  with assms(2) strip_twice show ?thesis by blast
qed (use assms in simp)

lemma steps_recipients: "mail_steps cap mb handed pending unseen \<Longrightarrow> \<forall>r \<in> set (map am_recipient (mb_messages mb)). py_strip r = r"
proof (induction rule: mail_steps.induct)
  case start
  show ?case by (simp add: empty_mailbox_def)
next
  case (post mb handed pending unseen e mid reply_to now owner s recipient body urgent r mb')
  show ?case by (rule post_recipients [OF post.hyps(5) post.IH])
next
  case (mark mb handed pending unseen i chat)
  then show ?case by (simp add: note_urgent_def)
next
  case (drain mb handed pending unseen now chat u rows mb')
  have "map am_recipient (mb_messages mb') = map am_recipient (mb_messages mb)" using drain_recipients [of now chat u mb] drain.hyps(2) by simp
  with drain.IH show ?case by (simp only:)
next
  case (worker mb handed pending unseen now mid)
  have "map am_recipient (mb_messages (mark_delivered now mid mb)) = map am_recipient (mb_messages mb)"
    unfolding mark_delivered_def by (rule update_recipients) (simp add: deliver_at_def)
  with worker show ?case by (simp only:)
next
  case (wake mb handed pending unseen e now chat)
  then show ?case by (simp add: consume_wake_def add_wake_def)
next
  case (read mb handed pending unseen now owner chat ids)
  have "map am_recipient (mb_messages (snd (mark_read now owner chat ids mb))) = map am_recipient (mb_messages mb)"
    unfolding mark_read_def Let_def snd_conv by (rule update_recipients) simp
  with read.IH show ?case by (simp only:)
next
  case (restart mb handed pending unseen)
  then show ?case by (simp add: mail_restart_def)
qed

lemma reach_recipients: "mail_reach cap mb handed \<Longrightarrow> \<forall>r \<in> set (map am_recipient (mb_messages mb)). py_strip r = r"
  unfolding mail_reach_def using steps_recipients by blast

text \<open>
  \<open>deliver\<close> wakes the recipient as the caller spelled it, not as \<open>send\<close> read it: a name with spaces
  around it is charged a wake, no turn is started, and the message stays in the queue.
\<close>

theorem padded_recipient_is_charged_not_woken:
  assumes "mail_reach cap mb handed" "new_id mid mb" "py_strip recipient \<noteq> recipient"
    "mail_deliver e mid now owner s recipient body urgent reply_to started steer later mb = (SendQueued m wake, Some chat, mb1)"
  shows "mb_wakes mb1 = mb_wakes mb @ [(now, py_strip recipient)] \<and> m \<in> set (queued_for (py_strip recipient) mb1)
    \<and> (\<exists>mb2. run_wake e clock turn chat max_chained_wakes 0 mb1 = (0, mb2) \<and> m \<in> set (queued_for (py_strip recipient) mb2))"
proof -
  let ?send = "mail_send e mid now owner s recipient body urgent reply_to mb"
  have sent: "?send = (SendQueued m wake, mb1)" "wk_woken wake" "chat = recipient"
    using assms(4) by (auto simp: mail_deliver_def Let_def split: prod.splits send_result.splits if_splits option.splits)
  from sent(1) obtain mb0 where p: "mail_post e mid now owner s recipient body urgent reply_to mb = (SendQueued m wake, mb0)"
    and same: "mb_messages mb1 = mb_messages mb0" "mb_wakes mb1 = mb_wakes mb0"
    by (auto simp: mail_send_def note_urgent_def split: prod.splits send_result.splits if_splits)
  from p obtain u i where q: "queue_message e mid now owner s (py_strip recipient) (py_strip body) u (py_strip reply_to) i mb = (SendQueued m wake, mb0)"
    by (cases rule: post_cases [of e mid now owner s recipient body urgent reply_to mb]) auto
  have facts: "queues e mid now owner s (py_strip reply_to) mb m mb0" "am_recipient m = py_strip recipient"
    and w: "(wake, snd (if u then decide_wake e owner (py_strip recipient) i now mb else (not_woken ''not_urgent'', mb)))
      = (if u then decide_wake e owner (py_strip recipient) i now mb else (not_woken ''not_urgent'', mb))"
    and books: "mb_wakes mb0 = mb_wakes (snd (if u then decide_wake e owner (py_strip recipient) i now mb else (not_woken ''not_urgent'', mb)))"
    by (cases rule: queue_cases [of e mid now owner s "py_strip recipient" "py_strip body" u "py_strip reply_to" i mb]; simp add: q)+
  have u: "u" "wake = fst (decide_wake e owner (py_strip recipient) i now mb)"
    using w sent(2) by (auto simp: not_woken_def split: if_splits) (metis fst_conv)+
  have mb1: "mb_messages mb1 = mb_messages mb @ [m]" "am_state m = MsQueued" using facts(1) same(1) by (simp_all add: queues_def)
  have wakes: "mb_wakes mb1 = mb_wakes mb @ [(now, py_strip recipient)]"
    using books same(2) u sent(2) by (cases rule: wake_cases [of e owner "py_strip recipient" i now mb]) (simp_all add: add_wake_def)
  have here: "m \<in> set (queued_for (py_strip recipient) mb1)" using mb1 facts(2) by (simp add: queued_for_def)
  have "\<forall>r \<in> set (map am_recipient (mb_messages mb1)). py_strip r = r"
    using reach_recipients [OF assms(1)] mb1(1) facts(2) strip_twice by auto
  then have none: "queued_for recipient mb1 = []" using assms(3) by (auto simp: queued_for_def filter_empty_conv)
  have "\<exists>mb2. run_wake e clock turn recipient max_chained_wakes 0 mb1 = (0, mb2) \<and> mb_messages mb2 = mb_messages mb1"
    using none by (auto simp: max_chained_wakes_def numeral_3_eq_3 take_for_turn_def drain_chat_def update_messages_def hand_over_order_def Let_def)
  then show ?thesis using wakes here sent(3) by (auto simp: queued_for_def)
qed

section \<open>A run\<close>

definition demo_mail_env :: mail_env where
  "demo_mail_env = \<lparr>me_enabled = True, me_wakes_setting = JInt 2, me_info = (\<lambda>i. Some \<lparr>ci_owner = [], ci_name = []\<rparr>),
     me_worker = (\<lambda>i. False), me_running = (\<lambda>i. False), me_pending = (\<lambda>o' i. False)\<rparr>"

definition demo_sender :: sender where
  "demo_sender = \<lparr>sn_kind = ''session'', sn_id = ''a'', sn_label = ''A''\<rparr>"

definition demo_message :: agent_msg where
  "demo_message = \<lparr>am_id = ''m'', am_ts = 1, am_owner = [], am_sender_kind = ''session'', am_sender_id = ''a'', am_sender_label = ''A'',
     am_recipient = ''b'', am_body = ''hi'', am_urgent = True, am_hops = 1, am_reply_to = [], am_state = MsQueued, am_reason = [],
     am_wake = ''woken'', am_delivered_at = None, am_read_at = None\<rparr>"

definition demo_mailbox :: mailbox where
  "demo_mailbox = \<lparr>mb_messages = [demo_message], mb_wakes = [(1, ''b'')], mb_urgent = {''b''}\<rparr>"

lemma demo_strip: "py_strip ''b'' = ''b''" "py_strip '' b'' = ''b''" "py_strip ''hi'' = ''hi''" "py_strip [] = []"
  by code_simp+

lemma demo_comparison: "info_is_comparison (Some \<lparr>ci_owner = [], ci_name = []\<rparr>) = False"
  by code_simp

lemma demo_cap: "wakes_per_hour demo_mail_env = 2"
  by (simp add: wakes_per_hour_def demo_mail_env_def)

lemmas demo_send_defs = mail_send_def mail_post_def note_urgent_def queue_message_def hops_for_def parent_hops_def heard_lately_def decide_wake_def chat_status_def
  new_message_def sender_label_def wakes_in_window_def queued_for_def add_message_def add_wake_def max_hops_def max_queued_def max_body_def
  parse_urgent_def sender_kinds_def owner_ok_def empty_mailbox_def

lemma demo_send:
  assumes "py_strip r = ''b''"
  shows "mail_send demo_mail_env ''m'' 1 [] demo_sender r ''hi'' (JBool True) [] empty_mailbox
    = (SendQueued demo_message \<lparr>wk_woken = True, wk_reason = ''idle'', wk_limit = Some (2, 1)\<rparr>, demo_mailbox)"
proof -
  have env: "me_enabled demo_mail_env" "me_info demo_mail_env i = Some \<lparr>ci_owner = [], ci_name = []\<rparr>" "\<not> me_worker demo_mail_env i"
    "\<not> me_running demo_mail_env i" "\<not> me_pending demo_mail_env o' i" for i o' by (simp_all add: demo_mail_env_def)
  show ?thesis
    by (simp add: demo_send_defs assms env demo_strip demo_comparison demo_cap demo_sender_def demo_message_def demo_mailbox_def Let_def)
qed

text \<open>The send as its two steps: between them, the poll does not see the message.\<close>

definition demo_unmarked :: mailbox where
  "demo_unmarked = demo_mailbox\<lparr>mb_urgent := {}\<rparr>"

lemma demo_post:
  "mail_post demo_mail_env ''m'' 1 [] demo_sender ''b'' ''hi'' (JBool True) [] empty_mailbox
    = (SendQueued demo_message \<lparr>wk_woken = True, wk_reason = ''idle'', wk_limit = Some (2, 1)\<rparr>, demo_unmarked)"
proof -
  have env: "me_enabled demo_mail_env" "me_info demo_mail_env i = Some \<lparr>ci_owner = [], ci_name = []\<rparr>" "\<not> me_worker demo_mail_env i"
    "\<not> me_running demo_mail_env i" "\<not> me_pending demo_mail_env o' i" for i o' by (simp_all add: demo_mail_env_def)
  show ?thesis
    by (simp add: demo_send_defs env demo_strip demo_comparison demo_cap demo_sender_def demo_message_def demo_unmarked_def demo_mailbox_def Let_def)
qed

lemma demo_posted: "mail_steps 2 demo_unmarked [] {(''m'', ''b'')} {''m''}"
  using mail_steps.post [OF mail_steps.start _ _ _ demo_post, of 2]
  by (simp add: demo_strip new_id_def empty_mailbox_def demo_cap marks_due_def demo_message_def)

lemma demo_marked: "mail_steps 2 demo_mailbox [] {} {}"
proof -
  have "note_urgent ''b'' demo_unmarked = demo_mailbox" by (simp add: note_urgent_def demo_unmarked_def demo_mailbox_def)
  moreover have "urgent_ids ''b'' demo_unmarked = {''m''}"
    by (simp add: urgent_ids_def queued_for_def demo_unmarked_def demo_mailbox_def demo_message_def)
  ultimately show ?thesis using mail_steps.mark [OF demo_posted, of "''m''" "''b''"] by simp
qed

lemma demo_reach: "mail_reach 2 demo_mailbox []"
  using demo_marked unfolding mail_reach_def by blast

lemma demo_taken: "take_for_turn demo_mail_env 5 ''b'' True demo_mailbox = drain_chat 5 ''b'' True demo_mailbox"
  by (simp add: take_for_turn_def demo_mailbox_def demo_comparison demo_mail_env_def)

lemma demo_take: "mail_reach 2 (snd (take_for_turn demo_mail_env 5 ''b'' True demo_mailbox)) [(''m'', ''b'')]"
proof -
  have "map (\<lambda>m. (am_id m, ''b'')) (fst (drain_chat 5 ''b'' True demo_mailbox)) = [(''m'', ''b'')]"
    by (simp add: drain_chat_def Let_def demo_mailbox_def queued_for_def hand_over_order_def demo_message_def deliver_at_def)
  then have "mail_steps 2 (snd (drain_chat 5 ''b'' True demo_mailbox)) [(''m'', ''b'')] {} {}"
    using mail_steps.drain [OF demo_marked prod.collapse [symmetric], of 5 "''b''" True] by simp
  then show ?thesis unfolding demo_taken mail_reach_def by blast
qed

lemma messages_are_handed_over_once_witness:
  "\<exists>m \<in> set (mb_messages (snd (take_for_turn demo_mail_env 5 ''b'' True demo_mailbox))). am_id m = ''m'' \<and> am_recipient m = ''b''"
  using messages_are_handed_over_once [OF demo_take] by fastforce

lemma reply_chains_are_short_witness: "length [demo_message] \<le> max_hops"
  by (rule reply_chains_are_short [OF demo_reach]) (simp_all add: demo_mailbox_def accepted_def demo_message_def)

lemma wakes_stay_under_the_cap_witness: "int (wakes_between 0 ''b'' demo_mailbox) \<le> 2"
  using wakes_stay_under_the_cap [OF demo_reach, of 0 "''b''"] by simp

lemma urgent_poll_misses_nothing_witness:
  "set (map am_id (fst (take_for_turn demo_mail_env 5 ''b'' True demo_mailbox))) = {''m''}
   \<and> take_for_turn demo_mail_env 5 ''b'' True demo_unmarked = ([], demo_unmarked)"
proof -
  have "\<not> info_is_comparison (me_info demo_mail_env ''b'')" by (simp add: demo_mail_env_def demo_comparison)
  moreover have b: "''b'' \<in> mb_urgent demo_mailbox" by (simp add: demo_mailbox_def)
  moreover have "urgent_ids ''b'' demo_mailbox = {''m''}" by (simp add: urgent_ids_def queued_for_def demo_mailbox_def demo_message_def)
  ultimately have "set (map am_id (fst (take_for_turn demo_mail_env 5 ''b'' True demo_mailbox))) = {''m''}"
    using urgent_poll_misses_nothing [OF demo_marked, of demo_mail_env "''b''" 5] b by (simp add: Let_def)
  then show ?thesis by (simp add: take_for_turn_def demo_unmarked_def)
qed

lemma demo_start: "mail_reach 2 empty_mailbox []"
  unfolding mail_reach_def using mail_steps.start by blast

lemma padded_recipient_is_charged_not_woken_witness:
  "\<exists>mb2. run_wake demo_mail_env (\<lambda>i. 2) (\<lambda>i mb. Some mb) '' b'' max_chained_wakes 0 demo_mailbox = (0, mb2)
     \<and> demo_message \<in> set (queued_for ''b'' mb2)"
proof -
  have "mail_deliver demo_mail_env ''m'' 1 [] demo_sender '' b'' ''hi'' (JBool True) [] True (\<lambda>m. False) 2 empty_mailbox
    = (SendQueued demo_message \<lparr>wk_woken = True, wk_reason = ''idle'', wk_limit = Some (2, 1)\<rparr>, Some '' b'', demo_mailbox)"
    by (simp add: mail_deliver_def demo_send [OF demo_strip(2)])
  from padded_recipient_is_charged_not_woken [OF demo_start _ _ this, where clock = "\<lambda>i. 2" and turn = "\<lambda>i mb. Some mb"]
  show ?thesis by (simp add: new_id_def empty_mailbox_def demo_strip)
qed

end
