(* ===== verification/Civil_Time.thy ===== *)
theory Civil_Time
  imports Py_Values
begin

text \<open>
  Dates, clocks and time zones as \<open>datetime\<close> and \<open>zoneinfo\<close> of the standard library compute them,
  for the scheduler.

  A naive datetime is its number of microseconds since day 0 of the proleptic Gregorian calendar, so
  that \<open>m div day_us\<close> is \<open>toordinal()\<close>. A month is \<open>12 * year + month - 1\<close>. The years are not
  bounded by 9999. A zone is the offset before its first change and its changes (the instant and the
  offset from then on), which is what \<open>ZoneInfo\<close> reads from the database; a reading of a zone's clock is a
  naive datetime with its \<open>fold\<close>.
\<close>

section \<open>The calendar\<close>

type_synonym moment = int
type_synonym reading = "moment \<times> bool"

definition second_us :: int where "second_us = 1000000"
definition minute_us :: int where "minute_us = 60000000"
definition day_us :: int where "day_us = 86400000000"

lemmas units = second_us_def minute_us_def day_us_def

definition is_leap :: "int \<Rightarrow> bool" where
  "is_leap y \<longleftrightarrow> y mod 4 = 0 \<and> (y mod 100 \<noteq> 0 \<or> y mod 400 = 0)"

definition days_before_year :: "int \<Rightarrow> int" where
  "days_before_year year = (let y = year - 1 in y * 365 + y div 4 - y div 100 + y div 400)"

definition month_len :: "int \<Rightarrow> int" where
  "month_len k =
     (let m = k mod 12
      in if m = 1 then (if is_leap (k div 12) then 29 else 28) else if m \<in> {3, 5, 8, 10} then 30 else 31)"

text \<open>The ordinal of a month's first day.\<close>

definition month_start :: "int \<Rightarrow> int" where
  "month_start k =
     (let m = k mod 12
      in days_before_year (k div 12) + 1
         + [0, 31, 59, 90, 120, 151, 181, 212, 243, 273, 304, 334] ! nat m
         + (if 2 \<le> m \<and> is_leap (k div 12) then 1 else 0))"

text \<open>Counting on from a number and from the last of a period.\<close>

lemma count_on:
  fixes k n :: int
  assumes "0 < n"
  shows "k mod n \<noteq> n - 1 \<Longrightarrow> (k + 1) div n = k div n \<and> (k + 1) mod n = k mod n + 1"
    and "k mod n = n - 1 \<Longrightarrow> (k + 1) div n = k div n + 1 \<and> (k + 1) mod n = 0"
proof -
  have k: "k = n * (k div n) + k mod n" "0 \<le> k mod n" "k mod n < n" using assms by simp_all
  show "(k + 1) div n = k div n \<and> (k + 1) mod n = k mod n + 1" if "k mod n \<noteq> n - 1"
  proof -
    have "k + 1 = n * (k div n) + (k mod n + 1)" using k(1) by linarith
    moreover have "0 \<le> k mod n + 1" "k mod n + 1 < n" using k that by linarith+
    ultimately show ?thesis by (metis int_div_pos_eq int_mod_pos_eq)
  qed
  show "(k + 1) div n = k div n + 1 \<and> (k + 1) mod n = 0" if "k mod n = n - 1"
  proof -
    have "k + 1 = n * (k div n + 1) + 0" using k(1) that by (simp add: algebra_simps)
    then show ?thesis using assms by (metis int_div_pos_eq int_mod_pos_eq order_refl)
  qed
qed

lemma div_before:
  fixes y n :: int
  assumes "0 < n"
  shows "y div n = (y - 1) div n + (if y mod n = 0 then 1 else 0)"
proof (cases "(y - 1) mod n = n - 1")
  case False
  moreover have "0 \<le> (y - 1) mod n" using assms by simp
  ultimately show ?thesis using count_on(1) [OF assms, of "y - 1"] by simp
qed (use count_on(2) [OF assms, of "y - 1"] in simp)

lemma add_three:
  fixes y a b c p q r a' b' c' :: int
  assumes "a = a' + p" "b = b' + q" "c = c' + r"
  shows "y * 365 + a - b + c = (y - 1) * 365 + a' - b' + c' + (365 + p - q + r)"
proof -
  have "(y - 1) * 365 = y * 365 - 365" by simp
  then show ?thesis using assms by linarith
qed

lemma leap_cases:
  assumes "C \<Longrightarrow> B" "B \<Longrightarrow> A"
  shows "(if A \<and> (\<not> B \<or> C) then 366 else 365) = 365 + (if A then 1 else 0) - (if B then 1 else 0) + (if C then 1 else (0::int))"
  using assms by (cases A; cases B; cases C) simp_all

lemma year_step: "days_before_year (y + 1) = days_before_year y + (if is_leap y then 366 else 365)"
proof -
  have "y mod 400 = 0 \<Longrightarrow> y mod 100 = 0" "y mod 100 = 0 \<Longrightarrow> y mod 4 = 0"
    using mod_mod_cancel [of 100 400 y] mod_mod_cancel [of 4 100 y] by simp_all
  then have leap: "(if is_leap y then 366 else 365) = 365 + (if y mod 4 = 0 then 1 else 0) - (if y mod 100 = 0 then 1 else 0) + (if y mod 400 = 0 then 1 else (0::int))"
    unfolding is_leap_def by (rule leap_cases)
  have "days_before_year (y + 1) = y * 365 + y div 4 - y div 100 + y div 400" by (simp add: days_before_year_def)
  also have "\<dots> = days_before_year y + (365 + (if y mod 4 = 0 then 1 else 0) - (if y mod 100 = 0 then 1 else 0) + (if y mod 400 = 0 then 1 else (0::int)))"
    unfolding days_before_year_def Let_def by (rule add_three [OF div_before div_before div_before]) simp_all
  finally show ?thesis unfolding leap .
qed

lemma month_number: "(k::int) mod 12 \<in> {0, 1, 2, 3, 4, 5, 6, 7, 8, 9, 10, 11}"
  by (simp only: insert_iff empty_iff) presburger

lemma month_step: "month_start (k + 1) = month_start k + month_len k"
proof (cases "k mod 12 = 11")
  case True
  then have "(k + 1) mod 12 = 0" "(k + 1) div 12 = k div 12 + 1" using count_on(2) [of 12 k] by simp_all
  with True show ?thesis by (simp add: month_start_def month_len_def year_step)
next
  case False
  then have m: "(k + 1) mod 12 = k mod 12 + 1" "(k + 1) div 12 = k div 12" using count_on(1) [of 12 k] by simp_all
  have "k mod 12 \<in> {0, 1, 2, 3, 4, 5, 6, 7, 8, 9, 10}" using False month_number [of k] by simp
  then show ?thesis by (auto simp: month_start_def month_len_def m)
qed

lemma month_len_bounds: "28 \<le> month_len k" "month_len k \<le> 31"
  by (simp_all add: month_len_def Let_def)

lemma month_start_less: "month_start k < month_start (k + 1)"
  using month_len_bounds(1) [of k] by (simp add: month_step)

text \<open>The month of an ordinal, looked for from the start of a year that is not too late.\<close>

function month_from :: "int \<Rightarrow> int \<Rightarrow> int" where
  "month_from d k = (if d < month_start (k + 1) then k else month_from d (k + 1))"
  by pat_completeness auto

termination
  by (relation "measure (\<lambda>(d, k). nat (d - month_start k))") (auto simp: not_less intro: less_le_trans [OF month_start_less])

declare month_from.simps [simp del]

definition month_of :: "int \<Rightarrow> int" where
  "month_of d = month_from d (12 * (400 * (d - 1) div 146097))"

lemma year_estimate: "month_start (12 * (400 * (d - 1) div 146097)) \<le> d"
proof -
  define y where "y = 400 * (d - 1) div 146097"
  have y: "146097 * y \<le> 400 * (d - 1)" by (simp add: y_def)
  have "4 * ((y - 1) div 4) \<le> y - 1" "100 * ((y - 1) div 100) > y - 101" "400 * ((y - 1) div 400) \<le> y - 1" by presburger+
  then have "400 * days_before_year y \<le> 146097 * y - 146097 + 400" by (simp add: days_before_year_def Let_def)
  then have "400 * (days_before_year y + 1) \<le> 400 * d" using y by (simp add: algebra_simps)
  then have "days_before_year y + 1 \<le> d" by simp
  then show ?thesis by (simp add: month_start_def y_def)
qed

lemma month_from_bounds: "month_start k \<le> d \<Longrightarrow> month_start (month_from d k) \<le> d \<and> d < month_start (month_from d k + 1)"
  by (induction d k rule: month_from.induct) (subst (1 2) month_from.simps, auto simp: not_less)

lemma month_of_bounds: "month_start (month_of d) \<le> d" "d < month_start (month_of d + 1)"
  using month_from_bounds [OF year_estimate] by (simp_all add: month_of_def)

lemma month_start_mono: "j \<le> k \<Longrightarrow> month_start j \<le> month_start k"
proof (induction rule: int_ge_induct)
  case (step i)
  then show ?case using month_start_less [of i] by simp
qed simp

lemma month_of_unique:
  assumes "month_start k \<le> d" "d < month_start (k + 1)"
  shows "month_of d = k"
proof (rule antisym)
  show "month_of d \<le> k" using assms(2) month_of_bounds(1) [of d] month_start_mono [of "k + 1" "month_of d"] by linarith
  show "k \<le> month_of d" using assms(1) month_of_bounds(2) [of d] month_start_mono [of "month_of d + 1" k] by linarith
qed

definition year_of :: "int \<Rightarrow> int" where "year_of d = month_of d div 12"
definition month_no :: "int \<Rightarrow> int" where "month_no d = month_of d mod 12 + 1"
definition month_day :: "int \<Rightarrow> int" where "month_day d = d - month_start (month_of d) + 1"

text \<open>\<open>replace(day=...)\<close> within a month; outside the month it raises \<open>ValueError\<close>.\<close>

definition on_day :: "int \<Rightarrow> int \<Rightarrow> int option" where
  "on_day k d = (if 1 \<le> d \<and> d \<le> month_len k then Some (month_start k + d - 1) else None)"

text \<open>\<open>weekday()\<close>, Monday being 0.\<close>

definition weekday :: "int \<Rightarrow> int" where "weekday d = (d + 6) mod 7"

definition ordinal :: "moment \<Rightarrow> int" where "ordinal m = m div day_us"

text \<open>\<open>replace(hour=h, minute=mi, second=0, microsecond=0)\<close> on day \<open>d\<close>.\<close>

definition clock_us :: "int \<times> int \<Rightarrow> int" where
  "clock_us c = (fst c * 60 + snd c) * minute_us"

definition at_clock :: "int \<Rightarrow> int \<times> int \<Rightarrow> moment" where
  "at_clock d c = d * day_us + clock_us c"

definition clock_ok :: "int \<times> int \<Rightarrow> bool" where
  "clock_ok c \<longleftrightarrow> 0 \<le> fst c \<and> fst c \<le> 23 \<and> 0 \<le> snd c \<and> snd c \<le> 59"

lemma clock_us_bounds: "clock_ok c \<Longrightarrow> 0 \<le> clock_us c \<and> clock_us c < day_us"
  by (simp add: clock_ok_def clock_us_def units)

lemma ordinal_at_clock: "clock_ok c \<Longrightarrow> ordinal (at_clock d c) = d"
  using clock_us_bounds [of c] by (simp add: ordinal_def at_clock_def day_us_def)

lemma ordinal_bounds: "ordinal m * day_us \<le> m" "m < (ordinal m + 1) * day_us"
  by (simp_all add: ordinal_def day_us_def)

section \<open>ISO weeks\<close>

definition iso_monday :: "int \<Rightarrow> int" where
  "iso_monday y =
     (let first = days_before_year y + 1; wd = (first + 6) mod 7; monday = first - wd
      in if 3 < wd then monday + 7 else monday)"

text \<open>\<open>isocalendar()\<close>: the ISO year and week.\<close>

definition iso_week :: "int \<Rightarrow> int \<times> int" where
  "iso_week d =
     (let y = year_of d; w = (d - iso_monday y) div 7
      in if w < 0 then (y - 1, (d - iso_monday (y - 1)) div 7 + 1)
         else if 52 \<le> w \<and> iso_monday (y + 1) \<le> d then (y + 1, 1) else (y, w + 1))"

lemma year_start: "month_start (12 * y) = days_before_year y + 1"
  by (simp add: month_start_def)

lemma year_bounds: "days_before_year (year_of d) + 1 \<le> d" "d < days_before_year (year_of d + 1) + 1"
proof -
  have m: "12 * year_of d \<le> month_of d" "month_of d + 1 \<le> 12 * (year_of d + 1)" unfolding year_of_def by simp_all
  show "days_before_year (year_of d) + 1 \<le> d"
    using month_start_mono [OF m(1)] month_of_bounds(1) [of d] by (simp add: year_start)
  show "d < days_before_year (year_of d + 1) + 1"
    using month_start_mono [OF m(2)] month_of_bounds(2) [of d] unfolding year_start by linarith
qed

lemma iso_monday_near: "\<bar>iso_monday y - (days_before_year y + 1)\<bar> \<le> 3" "7 dvd iso_monday y - 1"
proof -
  let ?f = "days_before_year y + 1"
  have wd: "0 \<le> (?f + 6) mod 7" "(?f + 6) mod 7 < 7" by simp_all
  show "\<bar>iso_monday y - ?f\<bar> \<le> 3" using wd by (simp add: iso_monday_def Let_def)
  have "?f - (?f + 6) mod 7 - 1 = 7 * ((?f + 6) div 7) - 7" using minus_mod_eq_mult_div [of "?f + 6" 7] by simp
  then have "7 dvd ?f - (?f + 6) mod 7 - 1" by simp
  then show "7 dvd iso_monday y - 1" by (auto simp: iso_monday_def Let_def elim!: dvdE)
qed

lemma iso_year_len: "iso_monday y + 364 \<le> iso_monday (y + 1)"
proof -
  have "7 dvd iso_monday (y + 1) - iso_monday y" using iso_monday_near(2) [of "y + 1"] iso_monday_near(2) [of y] by presburger
  moreover have "359 \<le> iso_monday (y + 1) - iso_monday y"
    using iso_monday_near(1) [of "y + 1"] iso_monday_near(1) [of y] year_step [of y] by (simp split: if_splits)
  ultimately show ?thesis by presburger
qed

lemma iso_week_bounds:
  assumes "iso_week d = (y, w)"
  shows "iso_monday y \<le> d" "d < iso_monday (y + 1)" "w = (d - iso_monday y) div 7 + 1"
proof -
  let ?y = "year_of d"
  have yr: "days_before_year ?y + 1 \<le> d" "d < days_before_year (?y + 1) + 1" by (fact year_bounds)+
  have near: "\<bar>iso_monday z - (days_before_year z + 1)\<bar> \<le> 3" for z by (fact iso_monday_near)
  have len: "iso_monday z + 364 \<le> iso_monday (z + 1)" for z by (fact iso_year_len)
  have early: "(d - iso_monday ?y) div 7 < 0 \<longleftrightarrow> d < iso_monday ?y" by (simp add: div_int_pos_iff pos_imp_zdiv_neg_iff)
  have late: "52 \<le> (d - iso_monday ?y) div 7" if "iso_monday (?y + 1) \<le> d"
    using that len [of ?y] zdiv_mono1 [of 364 "d - iso_monday ?y" 7] by simp
  define W where "W = (d - iso_monday ?y) div 7"
  have eq: "(y, w) = (if W < 0 then (?y - 1, (d - iso_monday (?y - 1)) div 7 + 1)
      else if 52 \<le> W \<and> iso_monday (?y + 1) \<le> d then (?y + 1, 1) else (?y, W + 1))"
    using assms unfolding iso_week_def Let_def W_def by (rule sym)
  note early = early [folded W_def] and late = late [folded W_def]
  consider "d < iso_monday ?y" "y = ?y - 1" "w = (d - iso_monday (?y - 1)) div 7 + 1"
    | "iso_monday (?y + 1) \<le> d" "y = ?y + 1" "w = 1"
    | "iso_monday ?y \<le> d" "d < iso_monday (?y + 1)" "y = ?y" "w = W + 1"
  proof (cases "W < 0")
    case True
    then show ?thesis using eq early that(1) by simp
  next
    case pos: False
    show ?thesis
    proof (cases "iso_monday (?y + 1) \<le> d")
      case True
      then show ?thesis using eq pos late that(2) by simp
    next
      case False
      then show ?thesis using eq pos early that(3) by simp
    qed
  qed
  then have "iso_monday y \<le> d \<and> d < iso_monday (y + 1) \<and> w = (d - iso_monday y) div 7 + 1"
  proof cases
    case 1
    then show ?thesis using yr(1) near [of "?y - 1"] near [of ?y] year_step [of "?y - 1"] by (simp split: if_splits)
  next
    case 2
    then have "0 \<le> d - iso_monday y" "d - iso_monday y < 7" using yr(2) near [of "?y + 1"] by simp_all
    then show ?thesis using 2 len [of y] by simp
  qed (simp add: W_def)
  then show "iso_monday y \<le> d" "d < iso_monday (y + 1)" "w = (d - iso_monday y) div 7 + 1" by simp_all
qed

lemma iso_monday_mono: "y < z \<Longrightarrow> iso_monday (y + 1) \<le> iso_monday z"
proof (induction z rule: int_gr_induct)
  case (step z)
  then show ?case using iso_year_len [of z] by simp
qed simp

lemma iso_week_same: "iso_week d = iso_week e \<longleftrightarrow> (d + 6) div 7 = (e + 6) div 7"
proof -
  obtain y w z v where yw: "iso_week d = (y, w)" "iso_week e = (z, v)" by (metis surj_pair)
  note d = iso_week_bounds [OF yw(1)] and e = iso_week_bounds [OF yw(2)]
  have weeks: "(x - iso_monday u) div 7 = (x + 6) div 7 - (iso_monday u + 6) div 7" for x u
  proof -
    obtain k where k: "iso_monday u - 1 = 7 * k" using iso_monday_near(2) [of u] by (elim dvdE)
    then have "x - iso_monday u = x + 6 + (- k - 1) * 7" "iso_monday u + 6 = (k + 1) * 7" by simp_all
    then show ?thesis by (simp only: div_mult_self1) simp
  qed
  have same: "y = z" if eq: "(d + 6) div 7 = (e + 6) div 7"
  proof (rule ccontr)
    assume "y \<noteq> z"
    then consider "iso_monday (y + 1) \<le> e" "d < iso_monday (y + 1)" | "iso_monday (z + 1) \<le> d" "e < iso_monday (z + 1)"
      using iso_monday_mono [of y z] iso_monday_mono [of z y] d e by linarith
    then show False
    proof cases
      case 1
      then have "0 \<le> (e - iso_monday (y + 1)) div 7" "(d - iso_monday (y + 1)) div 7 < 0" by (simp_all add: pos_imp_zdiv_neg_iff)
      with eq show False by (simp add: weeks)
    next
      case 2
      then have "0 \<le> (d - iso_monday (z + 1)) div 7" "(e - iso_monday (z + 1)) div 7 < 0" by (simp_all add: pos_imp_zdiv_neg_iff)
      with eq show False by (simp add: weeks)
    qed
  qed
  show ?thesis using same d(3) e(3) weeks by (auto simp: yw)
qed

end
