(* ===== verification/Time_Zone.thy ===== *)
theory Time_Zone
  imports Civil_Time
begin

text \<open>
  Time zones as \<open>zoneinfo\<close> reads them: a reading of the clock from an instant (\<open>astimezone\<close>, with its
  fold), and back (\<open>utcoffset\<close>, by the local times of the changes, one list for each fold).
\<close>

section \<open>The clock of a zone\<close>

type_synonym changes = "(int \<times> int) list"

record zone =
  zn_offset :: int
  zn_changes :: changes

fun offset_at :: "int \<Rightarrow> changes \<Rightarrow> moment \<Rightarrow> int" where
  "offset_at a [] u = a"
| "offset_at a ((t, b) # cs) u = (if u < t then a else offset_at b cs u)"

fun fold_at :: "bool \<Rightarrow> int \<Rightarrow> changes \<Rightarrow> moment \<Rightarrow> bool" where
  "fold_at f a [] u = f"
| "fold_at f a ((t, b) # cs) u = (if u < t then f else fold_at (u - t < a - b) b cs u)"

fun local_offset :: "int \<Rightarrow> changes \<Rightarrow> bool \<Rightarrow> moment \<Rightarrow> int" where
  "local_offset a [] f l = a"
| "local_offset a ((t, b) # cs) f l = (if l < t + (if f then min a b else max a b) then a else local_offset b cs f l)"

definition from_utc :: "zone \<Rightarrow> moment \<Rightarrow> reading" where
  "from_utc z u = (u + offset_at (zn_offset z) (zn_changes z) u, fold_at False (zn_offset z) (zn_changes z) u)"

definition to_utc :: "zone \<Rightarrow> reading \<Rightarrow> moment" where
  "to_utc z r = fst r - local_offset (zn_offset z) (zn_changes z) (snd r) (fst r)"

text \<open>
  Changes far enough apart that no reading is affected by two of them: \<open>x\<close> is the end of what the
  change before affects.
\<close>

fun changes_ok :: "int \<Rightarrow> int \<Rightarrow> changes \<Rightarrow> bool" where
  "changes_ok x a [] = True"
| "changes_ok x a ((t, b) # cs) = (x \<le> t + min a b \<and> changes_ok (t + max a b) b cs)"

definition zone_ok :: "zone \<Rightarrow> bool" where
  "zone_ok z \<longleftrightarrow> (case zn_changes z of [] \<Rightarrow> True | (t, b) # cs \<Rightarrow> changes_ok (t + max (zn_offset z) b) b cs)"

section \<open>Readings and instants\<close>

lemma changes_ok_less: "changes_ok x a cs \<Longrightarrow> y \<le> x \<Longrightarrow> changes_ok y a cs"
  by (cases cs) auto

lemma after_change: "changes_ok x a ((t, b) # cs) \<Longrightarrow> t \<le> u \<Longrightarrow> x \<le> u + offset_at b cs u"
proof (induction cs arbitrary: x a t b)
  case (Cons c cs)
  obtain t' b' where c: "c = (t', b')" by (cases c)
  show ?case
  proof (cases "u < t'")
    case False
    then have "t + max a b \<le> u + offset_at b' cs u" using Cons.IH [of "t + max a b" b t' b'] Cons.prems c by simp
    then show ?thesis using Cons.prems c False by (simp add: min_def max_def split: if_splits)
  qed (use Cons.prems c in \<open>auto simp: min_def split: if_splits\<close>)
qed (auto simp: min_def split: if_splits)

lemma reading_offset:
  assumes "changes_ok x a cs" "f \<Longrightarrow> u + a < x"
  shows "local_offset a cs (fold_at f a cs u) (u + offset_at a cs u) = offset_at a cs u"
  using assms
proof (induction cs arbitrary: x a f)
  case (Cons c cs)
  obtain t b where c: "c = (t, b)" by (cases c)
  show ?case
  proof (cases "u < t")
    case True
    then show ?thesis using Cons.prems c by (auto simp: max_def)
  next
    case False
    let ?f = "u - t < a - b"
    have IH: "local_offset b cs (fold_at ?f b cs u) (u + offset_at b cs u) = offset_at b cs u"
      by (rule Cons.IH [of "t + max a b"]) (use Cons.prems(1) c in \<open>auto simp: max_def\<close>)
    have "t + (if fold_at ?f b cs u then min a b else max a b) \<le> u + offset_at b cs u"
    proof (cases cs)
      case Nil
      then show ?thesis using False by (auto simp: min_def max_def)
    next
      case (Cons c' cs')
      obtain t' b' where c': "c' = (t', b')" by (cases c')
      show ?thesis
      proof (cases "u < t'")
        case True
        then show ?thesis using False Cons c' by (auto simp: min_def max_def)
      next
        case late: False
        then have "t + max a b \<le> u + offset_at b cs u"
          using after_change [of "t + max a b" b t' b' cs' u] Cons.prems(1) c Cons c' by simp
        then show ?thesis by (auto simp: min_def max_def)
      qed
    qed
    then show ?thesis using IH False c by (simp add: not_less)
  qed
qed simp

theorem to_from_utc: "zone_ok z \<Longrightarrow> to_utc z (from_utc z u) = u"
proof -
  assume z: "zone_ok z"
  have "local_offset (zn_offset z) (zn_changes z) (fold_at False (zn_offset z) (zn_changes z) u) (u + offset_at (zn_offset z) (zn_changes z) u)
    = offset_at (zn_offset z) (zn_changes z) u"
  proof (cases "zn_changes z")
    case (Cons c cs)
    then show ?thesis using z reading_offset [of "fst c + min (zn_offset z) (snd c)" "zn_offset z" "zn_changes z" False u]
      by (cases c) (simp add: zone_ok_def)
  qed simp
  then show ?thesis by (simp add: to_utc_def from_utc_def)
qed

lemma changes_of_zone: "zone_ok z \<Longrightarrow> \<exists>x \<le> l. changes_ok x (zn_offset z) (zn_changes z)"
proof (cases "zn_changes z")
  case (Cons c cs)
  obtain t b where c: "c = (t, b)" by (cases c)
  assume "zone_ok z"
  then have "changes_ok (t + min (zn_offset z) b) (zn_offset z) (zn_changes z)" using Cons c by (simp add: zone_ok_def)
  then have "changes_ok (min l (t + min (zn_offset z) b)) (zn_offset z) (zn_changes z)" by (rule changes_ok_less) simp
  then show ?thesis by (intro exI [of _ "min l (t + min (zn_offset z) b)"]) simp
qed (use order_refl in auto)

text \<open>A reading past a change belongs to an instant after it.\<close>

lemma change_before: "changes_ok (t + max a b) b cs \<Longrightarrow> t + max a b \<le> l \<Longrightarrow> u + offset_at b cs u = l \<Longrightarrow> t \<le> u"
  by (cases cs) (auto simp: min_def max_def split: if_splits)

lemma resolved_after: "changes_ok (t + max a b) b cs \<Longrightarrow> t + max a b \<le> l \<Longrightarrow> t \<le> l - local_offset b cs False l"
proof (induction cs arbitrary: t a b)
  case (Cons c cs)
  obtain t' b' where c: "c = (t', b')" by (cases c)
  show ?case
  proof (cases "l < t' + max b b'")
    case False
    then have "t' \<le> l - local_offset b' cs False l" using Cons.IH [of t' b b'] Cons.prems c by simp
    then show ?thesis using Cons.prems c False by (auto simp: min_def max_def split: if_splits)
  qed (use Cons.prems c in \<open>auto simp: max_def split: if_splits\<close>)
qed (auto simp: max_def split: if_splits)

text \<open>How the two offsets of a reading tell whether it happens once, never or twice.\<close>

definition happens :: "int \<Rightarrow> changes \<Rightarrow> moment \<Rightarrow> int \<Rightarrow> bool" where
  "happens a cs l d \<longleftrightarrow> offset_at a cs (l - d) = d"

lemma early_reading:
  assumes "changes_ok x a ((t, b) # cs)" "l < t + max a b" "\<not> l < t + min a b"
  shows "local_offset b cs True l = b" "happens b cs l b" "u + offset_at b cs u = l \<Longrightarrow> t \<le> u \<Longrightarrow> offset_at b cs u = b"
proof -
  show "local_offset b cs True l = b" using assms by (cases cs) (auto split: if_splits)
  show "happens b cs l b" using assms by (cases cs) (auto simp: happens_def min_def split: if_splits)
  show "offset_at b cs u = b" if u: "u + offset_at b cs u = l" "t \<le> u"
  proof (cases cs)
    case (Cons c cs')
    obtain t' b' where c: "c = (t', b')" by (cases c)
    have "u < t'"
    proof (rule ccontr)
      assume "\<not> u < t'"
      then have "t + max a b \<le> u + offset_at b cs u"
        using after_change [of "t + max a b" b t' b' cs' u] assms(1) Cons c by simp
      with u(1) assms(2) show False by simp
    qed
    then show ?thesis by (simp add: Cons c)
  qed simp
qed

definition clock_case :: "int \<Rightarrow> changes \<Rightarrow> moment \<Rightarrow> int \<Rightarrow> int \<Rightarrow> bool" where
  "clock_case a cs l p q \<longleftrightarrow> p = q \<and> happens a cs l p \<or> p < q \<and> (\<forall>u. u + offset_at a cs u \<noteq> l)
     \<or> q < p \<and> happens a cs l p \<and> happens a cs l q"

lemma reading_cases: "changes_ok x a cs \<Longrightarrow> clock_case a cs l (local_offset a cs False l) (local_offset a cs True l)"
proof (induction cs arbitrary: x a)
  case (Cons c cs)
  obtain t b where c: "c = (t, b)" by (cases c)
  have ok: "changes_ok x a ((t, b) # cs)" using Cons.prems c by simp
  consider "l < t + min a b" | "\<not> l < t + min a b" "l < t + max a b" | "\<not> l < t + max a b" by linarith
  then show ?case
  proof cases
    case 1
    then show ?thesis using c by (auto simp: clock_case_def happens_def)
  next
    case 2
    have p: "local_offset a (c # cs) False l = a" "local_offset a (c # cs) True l = b"
      using 2 c early_reading(1) [OF ok 2(2,1)] by simp_all
    show ?thesis
    proof (cases "a < b")
      case True
      have "u + offset_at a (c # cs) u \<noteq> l" for u
        using 2 True c early_reading(3) [OF ok 2(2,1), of u] by (auto simp: min_def max_def)
      then show ?thesis unfolding clock_case_def p using True by blast
    next
      case False
      then have "happens a (c # cs) l a" "happens a (c # cs) l b"
        using 2 c early_reading(2) [OF ok 2(2,1)] by (auto simp: happens_def min_def max_def split: if_splits)
      then show ?thesis unfolding clock_case_def p using False by auto
    qed
  next
    case 3
    have p: "local_offset a (c # cs) f l = local_offset b cs f l" for f using 3 c by (auto simp: min_def max_def)
    have "happens b cs l d \<Longrightarrow> happens a (c # cs) l d" for d
      using change_before [of t a b cs l "l - d"] 3 ok c by (auto simp: happens_def)
    moreover have "u + offset_at a (c # cs) u \<noteq> l" if "\<forall>u. u + offset_at b cs u \<noteq> l" for u
      using that 3 c by (auto simp: max_def split: if_splits)
    ultimately show ?thesis
      using Cons.IH [of "t + max a b" b] ok unfolding clock_case_def p by auto
  qed
qed (simp add: clock_case_def happens_def)

text \<open>A later reading is a later instant, unless the clock is in its second pass of an hour that the reading is in too.\<close>

lemma later_reading:
  assumes "changes_ok x a cs" "f \<Longrightarrow> u + a < x" "x \<le> l" "u + offset_at a cs u < l"
  shows "u < l - local_offset a cs False l
    \<or> fold_at f a cs u \<and> local_offset a cs True l < local_offset a cs False l"
  using assms
proof (induction cs arbitrary: x a f)
  case (Cons c cs)
  obtain t b where c: "c = (t, b)" by (cases c)
  have ok: "changes_ok x a ((t, b) # cs)" "changes_ok (t + max a b) b cs" using Cons.prems(1) c by simp_all
  show ?case
  proof (cases "u < t")
    case True
    then show ?thesis using Cons.prems(4) c resolved_after [OF ok(2), of l] by (auto simp: not_less)
  next
    case False
    show ?thesis
    proof (cases "l < t + max a b")
      case True
      have here: "offset_at b cs u = b" "fold_at g b cs u = g" for g
      proof -
        have "u < t'" if cs: "cs = (t', b') # cs'" for t' b' cs'
        proof (rule ccontr)
          assume "\<not> u < t'"
          then have "t + max a b \<le> u + offset_at b cs u"
            using after_change [of "t + max a b" b t' b' cs' u] ok(2) cs by simp
          then show False using Cons.prems(4) c False True by simp
        qed
        then show "offset_at b cs u = b" "fold_at g b cs u = g" by (cases cs; force)+
      qed
      have l: "u + b < l" using Cons.prems(4) c False here(1) by simp
      then have ab: "b < a" using True False by (auto simp: max_def split: if_splits)
      then have "local_offset b cs True l = b" using early_reading(1) [OF ok(1) True] l False by simp
      then show ?thesis using c False True ab l here(2) by (auto simp: max_def min_def)
    next
      case late: False
      have "u < l - local_offset b cs False l \<or> fold_at (u - t < a - b) b cs u \<and> local_offset b cs True l < local_offset b cs False l"
        by (rule Cons.IH [OF ok(2)]) (use Cons.prems(4) c False late in \<open>auto simp: max_def\<close>)
      then show ?thesis using c False late by (auto simp: min_def max_def)
    qed
  qed
qed simp

section \<open>What a reading means\<close>

lemma reading_of: "fst (from_utc z u) = u + offset_at (zn_offset z) (zn_changes z) u"
  by (simp add: from_utc_def)

lemma shows_reading: "zone_ok z \<Longrightarrow> fst (from_utc z u) = l \<Longrightarrow> u = to_utc z (l, snd (from_utc z u))"
  using to_from_utc [of z u] by (cases "from_utc z u") simp

definition clock_shows :: "zone \<Rightarrow> moment \<Rightarrow> moment \<Rightarrow> bool" where
  "clock_shows z u l \<longleftrightarrow> fst (from_utc z u) = l"

lemma one_none_two:
  fixes u v :: int
  assumes "p = q \<and> P u \<or> v < u \<and> (\<forall>w. \<not> P w) \<or> u < v \<and> P u \<and> P v" "\<And>w. P w \<Longrightarrow> w \<in> {u, v}" "u = l - p" "v = l - q"
  shows "{w. P w} = (if v < u then {} else {u, v})"
  using assms(1,2) unfolding assms(3,4) by auto

theorem reading_times:
  assumes "zone_ok z"
  shows "{u. clock_shows z u l}
    = (if to_utc z (l, True) < to_utc z (l, False) then {} else {to_utc z (l, False), to_utc z (l, True)})"
proof -
  obtain x where x: "changes_ok x (zn_offset z) (zn_changes z)" using changes_of_zone [OF assms, of l] by blast
  let ?p = "local_offset (zn_offset z) (zn_changes z) False l" and ?q = "local_offset (zn_offset z) (zn_changes z) True l"
  have two: "u \<in> {l - ?p, l - ?q}" if "clock_shows z u l" for u
    using shows_reading [OF assms, of u l] that by (cases "snd (from_utc z u)") (auto simp: clock_shows_def to_utc_def)
  have iff: "clock_shows z (l - d) l \<longleftrightarrow> happens (zn_offset z) (zn_changes z) l d" for d
    by (auto simp: clock_shows_def reading_of happens_def)
  have none: "(\<forall>u. u + offset_at (zn_offset z) (zn_changes z) u \<noteq> l) \<longleftrightarrow> (\<forall>u. \<not> clock_shows z u l)"
    by (simp only: clock_shows_def reading_of)
  have "clock_case (zn_offset z) (zn_changes z) l ?p ?q" using x by (rule reading_cases)
  then have "?p = ?q \<and> clock_shows z (l - ?p) l \<or> ?p < ?q \<and> (\<forall>u. \<not> clock_shows z u l)
      \<or> ?q < ?p \<and> clock_shows z (l - ?p) l \<and> clock_shows z (l - ?q) l"
    by (simp only: clock_case_def none iff)
  then have "?p = ?q \<and> clock_shows z (l - ?p) l \<or> l - ?q < l - ?p \<and> (\<forall>u. \<not> clock_shows z u l)
      \<or> l - ?p < l - ?q \<and> clock_shows z (l - ?p) l \<and> clock_shows z (l - ?q) l" by simp
  then have "{u. clock_shows z u l} = (if l - ?q < l - ?p then {} else {l - ?p, l - ?q})"
    by (rule one_none_two) (use two in blast)+
  then show ?thesis by (simp only: to_utc_def fst_conv snd_conv)
qed

theorem later_reading_is_later:
  assumes "zone_ok z" "fst (from_utc z u) < l"
  shows "u < to_utc z (l, False) \<or> snd (from_utc z u) \<and> to_utc z (l, False) < to_utc z (l, True)"
proof -
  obtain x where x: "x \<le> l" "changes_ok x (zn_offset z) (zn_changes z)" using changes_of_zone [OF assms(1), of l] by blast
  show ?thesis
    using later_reading [OF x(2) _ x(1), of False u] assms(2) by (auto simp: from_utc_def to_utc_def)
qed

end
