(* ===== verification/Task_Schedule.thy ===== *)
theory Task_Schedule
  imports Time_Zone
begin

text \<open>
  When a scheduled task runs next, \<open>compute_next_run\<close> of \<open>src/task_scheduler.py\<close>, with what it does in
  the hour a clock skips and in the one it repeats.

  An empty text stands for a missing one. The zone database and croniter are the two fields of
  \<open>sched_lib\<close>: a zone's name to its changes, and an expression with the reading it starts from to the
  readings that successive \<open>get_next\<close> calls answer, \<open>None\<close> where one raises.
\<close>

section \<open>The hour that never was, and the one that comes twice\<close>

definition dst_policies :: "string list" where
  "dst_policies = [''skip'', ''run_once'', ''run_all'']"

definition default_dst_policy :: string where "default_dst_policy = ''run_once''"

datatype dst_status = DstNormal | DstNonexistent | DstAmbiguous

definition dst_resolve :: "moment \<Rightarrow> zone \<Rightarrow> string \<Rightarrow> dst_status \<times> reading option" where
  "dst_resolve l z policy =
     (let back = fst (from_utc z (to_utc z (l, False)))
      in if back div minute_us \<noteq> l div minute_us
         then (DstNonexistent, if policy = ''skip'' then None else Some (l, False))
         else if l - to_utc z (l, False) = l - to_utc z (l, True) then (DstNormal, Some (l, False))
         else (DstAmbiguous, if policy = ''skip'' then None else Some (l, False)))"

text \<open>
  \<open>cand k\<close> is the candidate after \<open>k\<close> steps, \<open>None\<close> where the step raised; after four of them the next
  is taken as it is.
\<close>

fun advance_past_dst :: "nat \<Rightarrow> nat \<Rightarrow> (nat \<Rightarrow> reading option) \<Rightarrow> zone \<Rightarrow> string \<Rightarrow> reading option" where
  "advance_past_dst 0 k cand z policy = cand k"
| "advance_past_dst (Suc tries) k cand z policy =
     (case cand k of
        None \<Rightarrow> None
      | Some c \<Rightarrow>
          case snd (dst_resolve (fst c) z policy) of
            Some r \<Rightarrow> Some r
          | None \<Rightarrow> advance_past_dst tries (Suc k) cand z policy)"

section \<open>The next run\<close>

record sched_lib =
  sl_zone :: "string \<Rightarrow> zone option"
  sl_cron :: "string \<Rightarrow> reading \<Rightarrow> nat \<Rightarrow> reading option"

record task_timing =
  tt_schedule :: string
  tt_time :: string
  tt_day :: "int option"
  tt_date :: "moment option"
  tt_cron :: string

text \<open>\<open>HH:MM\<close>; what follows a second colon is ignored.\<close>

definition clock_of :: "string \<Rightarrow> (int \<times> int) option" where
  "clock_of t =
     (case dropWhile (\<lambda>c. c \<noteq> CHR '':'') t of
        [] \<Rightarrow> None
      | _ # r \<Rightarrow>
          case (int_of_text (takeWhile (\<lambda>c. c \<noteq> CHR '':'') t), int_of_text (takeWhile (\<lambda>c. c \<noteq> CHR '':'') r)) of
            (Some h, Some m) \<Rightarrow> if 0 \<le> h \<and> h \<le> 23 \<and> 0 \<le> m \<and> m \<le> 59 then Some (h, m) else None
          | _ \<Rightarrow> None)"

text \<open>The \<open>k\<close>-th candidate when each step is a number of days; adding to a datetime drops its fold.\<close>

definition every_days :: "int \<Rightarrow> reading \<Rightarrow> nat \<Rightarrow> reading option" where
  "every_days n c k = Some (if k = 0 then c else (fst c + int k * n * day_us, False))"

text \<open>The day of a month, or its last one when the month has no such day.\<close>

definition clamped_day :: "int \<Rightarrow> int \<Rightarrow> int" where
  "clamped_day k d = (case on_day k d of Some o' \<Rightarrow> o' | None \<Rightarrow> month_start (k + 1) - 1)"

definition clamped_reading :: "int \<Rightarrow> int \<Rightarrow> int \<times> int \<Rightarrow> bool \<Rightarrow> reading" where
  "clamped_reading k d c f = (at_clock (clamped_day k d) c, f \<and> on_day k d \<noteq> None)"

definition month_after :: "reading \<Rightarrow> int" where
  "month_after r = month_of (month_start (month_of (ordinal (fst r))) + 32)"

fun monthly_steps :: "int \<Rightarrow> int \<times> int \<Rightarrow> reading \<Rightarrow> nat \<Rightarrow> reading option" where
  "monthly_steps d c r 0 = Some r"
| "monthly_steps d c r (Suc k) = monthly_steps d c (clamped_reading (month_after r) d c False) k"

definition daily_candidate :: "int \<times> int \<Rightarrow> reading \<Rightarrow> reading" where
  "daily_candidate c now =
     (let today = at_clock (ordinal (fst now)) c
      in if today \<le> fst now then (today + day_us, False) else (today, snd now))"

definition weekly_candidate :: "int option \<Rightarrow> int \<times> int \<Rightarrow> reading \<Rightarrow> reading" where
  "weekly_candidate day c now =
     (let d = (case day of Some d \<Rightarrow> d | None \<Rightarrow> 0); today = at_clock (ordinal (fst now)) c;
          ahead0 = d - weekday (ordinal today);
          ahead = (if ahead0 < 0 \<or> ahead0 = 0 \<and> today \<le> fst now then ahead0 + 7 else ahead0)
      in (today + ahead * day_us, False))"

definition monthly_day :: "int option \<Rightarrow> int" where
  "monthly_day day = (case day of Some d \<Rightarrow> d | None \<Rightarrow> 1)"

definition monthly_candidate :: "int option \<Rightarrow> int \<times> int \<Rightarrow> reading \<Rightarrow> reading" where
  "monthly_candidate day c now =
     (let k = month_of (ordinal (fst now)); this = clamped_reading k (monthly_day day) c (snd now)
      in if fst this \<le> fst now then clamped_reading (k + 1) (monthly_day day) c (snd now) else this)"

text \<open>The candidates of a schedule, one after another.\<close>

definition candidates_of :: "sched_lib \<Rightarrow> task_timing \<Rightarrow> reading \<Rightarrow> nat \<Rightarrow> reading option" where
  "candidates_of L t now k =
     (if tt_schedule t = ''cron'' \<and> tt_cron t \<noteq> [] then sl_cron L (tt_cron t) now k
      else case clock_of (tt_time t) of
             None \<Rightarrow> None
           | Some c \<Rightarrow>
               if tt_schedule t = ''daily'' then every_days 1 (daily_candidate c now) k
               else if tt_schedule t = ''weekly'' then every_days 7 (weekly_candidate (tt_day t) c now) k
               else if tt_schedule t = ''monthly'' then monthly_steps (monthly_day (tt_day t)) c (monthly_candidate (tt_day t) c now) k
               else None)"

definition compute_next_run :: "sched_lib \<Rightarrow> task_timing \<Rightarrow> moment \<Rightarrow> string \<Rightarrow> string \<Rightarrow> moment option" where
  "compute_next_run L t after tz_name policy0 =
     (let policy = (if policy0 \<in> set dst_policies then policy0 else default_dst_policy);
          tz = (if tz_name = [] then None else sl_zone L tz_name);
          now = (case tz of Some z \<Rightarrow> from_utc z after | None \<Rightarrow> (after, False))
      in if tt_schedule t = ''once''
         then (case tt_date t of
                 None \<Rightarrow> None
               | Some d \<Rightarrow> if (case tz of Some z \<Rightarrow> to_utc z now | None \<Rightarrow> fst now) < d then Some d else None)
         else case tz of
                Some z \<Rightarrow> map_option (to_utc z) (advance_past_dst 4 0 (candidates_of L t now) z policy)
              | None \<Rightarrow> map_option fst (candidates_of L t now 0))"

section \<open>Resolving a reading\<close>

text \<open>Offsets of whole minutes: then a gap always shows in the minutes.\<close>

definition whole_minutes :: "zone \<Rightarrow> bool" where
  "whole_minutes z \<longleftrightarrow> zn_offset z mod minute_us = 0 \<and> list_all (\<lambda>(t, b). b mod minute_us = 0) (zn_changes z)"

lemma offset_minutes: "a mod minute_us = 0 \<Longrightarrow> list_all (\<lambda>(t, b). b mod minute_us = 0) cs \<Longrightarrow> offset_at a cs u mod minute_us = 0"
  by (induction cs arbitrary: a) auto

lemma local_minutes: "a mod minute_us = 0 \<Longrightarrow> list_all (\<lambda>(t, b). b mod minute_us = 0) cs \<Longrightarrow> local_offset a cs f l mod minute_us = 0"
  by (induction cs arbitrary: a) auto

lemma same_minute: "whole_minutes z \<Longrightarrow> fst (from_utc z (to_utc z (l, f))) div minute_us = l div minute_us \<longleftrightarrow> fst (from_utc z (to_utc z (l, f))) = l"
proof -
  assume z: "whole_minutes z"
  let ?p = "local_offset (zn_offset z) (zn_changes z) f l"
  let ?q = "offset_at (zn_offset z) (zn_changes z) (l - ?p)"
  have "?p mod minute_us = 0" "?q mod minute_us = 0"
    using z by (simp_all add: whole_minutes_def local_minutes offset_minutes)
  then have "(?q - ?p) mod minute_us = 0" by (simp add: mod_diff_eq [symmetric])
  then obtain k where k: "?q - ?p = minute_us * k" by (auto simp: mod_eq_0_iff_dvd)
  have "fst (from_utc z (to_utc z (l, f))) = l + minute_us * k" using k by (simp add: reading_of to_utc_def)
  then show ?thesis by (simp add: minute_us_def)
qed

text \<open>
  C14: the status of a wall-clock reading is true: it tells whether the clock shows the reading at no
  instant, at one, or at several.
\<close>

theorem dst_status_counts_instants:
  assumes "zone_ok z" "whole_minutes z"
  shows "fst (dst_resolve l z policy) =
    (case card {u. clock_shows z u l} of 0 \<Rightarrow> DstNonexistent | Suc n \<Rightarrow> if n = 0 then DstNormal else DstAmbiguous)"
proof -
  let ?u = "to_utc z (l, False)" and ?v = "to_utc z (l, True)"
  have times: "{u. clock_shows z u l} = (if ?v < ?u then {} else {?u, ?v})" by (rule reading_times [OF assms(1)])
  have shows_iff: "fst (from_utc z ?u) = l \<longleftrightarrow> \<not> ?v < ?u"
    using times by (auto simp: clock_shows_def set_eq_iff split: if_splits)
  consider "?v < ?u" | "?u = ?v" | "?u < ?v" by linarith
  then show ?thesis
    unfolding dst_resolve_def Let_def same_minute [OF assms(2)] times shows_iff by cases simp_all
qed

section \<open>Candidates lie ahead\<close>

definition clock_schedule :: "task_timing \<Rightarrow> bool" where
  "clock_schedule t \<longleftrightarrow> tt_schedule t \<in> {''daily'', ''weekly'', ''monthly''}
     \<and> (tt_schedule t = ''weekly'' \<longrightarrow> (case tt_day t of None \<Rightarrow> True | Some d \<Rightarrow> 0 \<le> d \<and> d \<le> 6))"

text \<open>\<open>c\<close> is ahead of \<open>now\<close>, and only the first candidate may carry the fold of \<open>now\<close>.\<close>

definition ahead_of :: "reading \<Rightarrow> (nat \<Rightarrow> reading option) \<Rightarrow> bool" where
  "ahead_of now cand \<longleftrightarrow> (\<forall>k r. cand k = Some r \<longrightarrow> fst now < fst r \<and> (0 < k \<longrightarrow> \<not> snd r))"

lemma ahead_ofI: "(\<And>k r. cand k = Some r \<Longrightarrow> fst now < fst r \<and> (0 < k \<longrightarrow> \<not> snd r)) \<Longrightarrow> ahead_of now cand"
  by (simp add: ahead_of_def)

lemma ahead_ofD: "ahead_of now cand \<Longrightarrow> cand k = Some r \<Longrightarrow> fst now < fst r \<and> (0 < k \<longrightarrow> \<not> snd r)"
  unfolding ahead_of_def by blast

lemma every_days_ahead: "0 \<le> n \<Longrightarrow> fst now < fst c \<Longrightarrow> ahead_of now (every_days n c)"
  by (auto simp: ahead_of_def every_days_def day_us_def intro: less_le_trans)

lemma daily_ahead: "clock_ok c \<Longrightarrow> fst now < fst (daily_candidate c now)"
  using clock_us_bounds [of c] ordinal_bounds [of "fst now"]
  by (auto simp: daily_candidate_def Let_def at_clock_def algebra_simps)

lemma clock_of_ok: "clock_of t = Some c \<Longrightarrow> clock_ok c"
  by (auto simp: clock_of_def clock_ok_def split: list.splits option.splits if_splits)

lemma weekly_ahead:
  assumes "clock_ok c" "case day of None \<Rightarrow> True | Some d \<Rightarrow> 0 \<le> d \<and> d \<le> 6"
  shows "fst now < fst (weekly_candidate day c now)"
proof -
  define d where "d = (case day of Some d \<Rightarrow> d | None \<Rightarrow> 0)"
  define today where "today = at_clock (ordinal (fst now)) c"
  have d: "0 \<le> d" "d \<le> 6" using assms(2) by (auto simp: d_def split: option.splits)
  have wd: "0 \<le> weekday (ordinal today)" "weekday (ordinal today) \<le> 6" by (simp_all add: weekday_def)
  have "fst now < today + day_us" using clock_us_bounds [OF assms(1)] ordinal_bounds(2) [of "fst now"] by (simp add: today_def at_clock_def algebra_simps)
  then have far: "fst now < today + a * day_us" if "1 \<le> a" for a
    using mult_right_mono [OF that, of day_us] by (simp add: day_us_def)
  have "d = weekday (ordinal today) \<or> d - weekday (ordinal today) < 0 \<or> 1 \<le> d - weekday (ordinal today)" by linarith
  then show ?thesis
    using far [of "d - weekday (ordinal today) + 7"] far [of "d - weekday (ordinal today)"] d wd
    by (auto simp: weekly_candidate_def Let_def d_def [symmetric] today_def [symmetric] not_le)
qed

lemma clamped_day_bounds: "month_start k \<le> clamped_day k d" "clamped_day k d < month_start (k + 1)"
  using month_len_bounds(1) [of k] by (auto simp: clamped_day_def on_day_def month_step)

lemma month_of_clamped: "month_of (clamped_day k d) = k"
  by (rule month_of_unique) (fact clamped_day_bounds)+

lemma later_month:
  assumes "clock_ok c" "month_of (ordinal m) < k"
  shows "m < fst (clamped_reading k d c f)"
proof -
  have "month_start (month_of (ordinal m) + 1) \<le> month_start k" using assms(2) by (intro month_start_mono) simp
  then have "ordinal m + 1 \<le> clamped_day k d" using month_of_bounds(2) [of "ordinal m"] clamped_day_bounds(1) [of k d] by linarith
  then have "(ordinal m + 1) * day_us \<le> clamped_day k d * day_us" by (simp add: day_us_def)
  then show ?thesis
    using ordinal_bounds(2) [of m] clock_us_bounds [OF assms(1)] unfolding clamped_reading_def at_clock_def fst_conv by linarith
qed

lemma month_of_reading: "clock_ok c \<Longrightarrow> month_of (ordinal (fst (clamped_reading k d c f))) = k"
  by (simp add: clamped_reading_def ordinal_at_clock month_of_clamped)

lemma monthly_ahead: "clock_ok c \<Longrightarrow> fst now < fst (monthly_candidate day c now)"
  using later_month [of c "fst now" "month_of (ordinal (fst now)) + 1"]
  by (auto simp: monthly_candidate_def Let_def)

text \<open>The first of a month and 32 days is in the next month.\<close>

lemma month_after_next: "month_after r = month_of (ordinal (fst r)) + 1"
proof -
  let ?k = "month_of (ordinal (fst r))"
  have "month_start (?k + 1 + 1) = month_start ?k + month_len ?k + month_len (?k + 1)" by (simp only: month_step)
  then show ?thesis
    unfolding month_after_def using month_len_bounds [of ?k] month_len_bounds(1) [of "?k + 1"] by (intro month_of_unique) (simp_all only: month_step)
qed

lemma monthly_steps_ahead: "clock_ok c \<Longrightarrow> fst now < fst r \<Longrightarrow> r = clamped_reading j d c f
    \<Longrightarrow> monthly_steps d c r k = Some s \<Longrightarrow> fst now < fst s \<and> (0 < k \<longrightarrow> \<not> snd s)"
proof (induction k arbitrary: r j f)
  case (Suc k)
  let ?r = "clamped_reading (month_after r) d c False"
  have "fst r < fst ?r" using Suc.prems(1) by (intro later_month) (simp_all add: month_after_next)
  then have "fst now < fst s \<and> (0 < k \<longrightarrow> \<not> snd s)"
    using Suc.IH [of ?r "month_after r" False] Suc.prems by simp
  then show ?case using Suc.prems(4) by (cases k) (auto simp: clamped_reading_def)
qed simp

lemma monthly_candidate_clamped: "\<exists>k f. monthly_candidate day c now = clamped_reading k (monthly_day day) c f"
  by (auto simp: monthly_candidate_def Let_def)

lemma candidates_ahead:
  assumes "clock_schedule t"
  shows "ahead_of now (candidates_of L t now)"
proof (cases "clock_of (tt_time t)")
  case None
  then show ?thesis using assms by (auto simp: ahead_of_def candidates_of_def clock_schedule_def)
next
  case (Some c)
  have c: "clock_ok c" using Some by (rule clock_of_ok)
  consider "tt_schedule t = ''daily''" | "tt_schedule t = ''weekly''" | "tt_schedule t = ''monthly''" using assms by (auto simp: clock_schedule_def)
  then show ?thesis
  proof cases
    case 1
    then have "candidates_of L t now = every_days 1 (daily_candidate c now)" by (intro ext) (simp add: candidates_of_def Some)
    then show ?thesis using every_days_ahead [of 1, OF _ daily_ahead [OF c]] by simp
  next
    case 2
    then have "candidates_of L t now = every_days 7 (weekly_candidate (tt_day t) c now)" by (intro ext) (simp add: candidates_of_def Some)
    moreover have "case tt_day t of None \<Rightarrow> True | Some d \<Rightarrow> 0 \<le> d \<and> d \<le> 6" using assms 2 by (simp add: clock_schedule_def)
    ultimately show ?thesis using every_days_ahead [of 7, OF _ weekly_ahead [OF c]] by simp
  next
    case 3
    then have "candidates_of L t now = monthly_steps (monthly_day (tt_day t)) c (monthly_candidate (tt_day t) c now)"
      by (intro ext) (simp add: candidates_of_def Some)
    moreover obtain j f where j: "monthly_candidate (tt_day t) c now = clamped_reading j (monthly_day (tt_day t)) c f"
      using monthly_candidate_clamped by blast
    ultimately show ?thesis
      using monthly_steps_ahead [OF c monthly_ahead [OF c] j] by (simp only: ahead_of_def) blast
  qed
qed

section \<open>The next run is ahead\<close>

lemma resolved_reading: "snd (dst_resolve l z policy) = Some r \<Longrightarrow> r = (l, False)"
  by (auto simp: dst_resolve_def Let_def split: if_splits)

lemma advance_ahead:
  assumes "ahead_of now cand" "0 < k + tries"
  shows "advance_past_dst tries k cand z policy = Some r \<Longrightarrow> fst now < fst r \<and> \<not> snd r"
  using assms(2)
proof (induction tries arbitrary: k)
  case 0
  then show ?case using ahead_ofD [OF assms(1)] by simp
next
  case (Suc tries)
  obtain c where c: "cand k = Some c" using Suc.prems by (auto split: option.splits)
  then have "fst now < fst c" using ahead_ofD [OF assms(1)] by blast
  then show ?case using Suc c by (auto dest: resolved_reading split: option.splits)
qed

text \<open>The zone that a name selects, if any.\<close>

definition zone_named :: "sched_lib \<Rightarrow> string \<Rightarrow> zone option" where
  "zone_named L name = (if name = [] then None else sl_zone L name)"

lemma next_run_with_zone:
  assumes "clock_schedule t" "zone_named L name = Some z" "compute_next_run L t after name policy = Some r"
  shows "\<exists>l. fst (from_utc z after) < l \<and> r = to_utc z (l, False)"
proof -
  let ?policy = "if policy \<in> set dst_policies then policy else default_dst_policy"
  have "tt_schedule t \<noteq> ''once''" using assms(1) by (auto simp: clock_schedule_def)
  then obtain s where s: "advance_past_dst 4 0 (candidates_of L t (from_utc z after)) z ?policy = Some s" "r = to_utc z s"
    using assms(2,3) by (auto simp: compute_next_run_def zone_named_def Let_def split: if_splits)
  have "fst (from_utc z after) < fst s \<and> \<not> snd s"
    by (rule advance_ahead [OF candidates_ahead [OF assms(1)] _ s(1)]) simp
  then show ?thesis using s(2) by (intro exI [of _ "fst s"]) (cases s; simp)
qed

lemma next_run_without_zone:
  assumes "clock_schedule t" "zone_named L name = None" "compute_next_run L t after name policy = Some r"
  shows "after < r"
proof -
  have "tt_schedule t \<noteq> ''once''" using assms(1) by (auto simp: clock_schedule_def)
  then obtain s where s: "candidates_of L t (after, False) 0 = Some s" "r = fst s"
    using assms(2,3) by (auto simp: compute_next_run_def zone_named_def Let_def split: if_splits)
  show ?thesis using ahead_ofD [OF candidates_ahead [OF assms(1)] s(1)] s(2) by simp
qed

text \<open>
  C13: the next run of a daily, weekly or monthly task lies after the moment it is computed for, in any
  zone and under any policy, unless the clock is then in its second pass of a repeated hour.
\<close>

theorem next_run_is_later:
  assumes "clock_schedule t" "compute_next_run L t after name policy = Some r"
    and "\<And>z. zone_named L name = Some z \<Longrightarrow> zone_ok z \<and> \<not> snd (from_utc z after)"
  shows "after < r"
proof (cases "zone_named L name")
  case None
  then show ?thesis by (rule next_run_without_zone [OF assms(1) _ assms(2)])
next
  case (Some z)
  then obtain l where "fst (from_utc z after) < l" "r = to_utc z (l, False)" using next_run_with_zone [OF assms(1) _ assms(2)] by blast
  then show ?thesis using later_reading_is_later [of z after l] assms(3) [OF Some] by auto
qed

text \<open>
  the task runs again what it already ran: in the second pass of a repeated hour the next run of a daily task
  is the first pass of its own time, which is over.
\<close>

theorem repeated_hour_runs_again:
  assumes "zone_named L name = Some z" "tt_schedule t = ''daily''" "clock_of (tt_time t) = Some c" "policy \<noteq> ''skip''"
    and "l = at_clock (ordinal (fst (from_utc z after))) c" "fst (from_utc z after) < l"
    and "zone_ok z" "from_utc z first = (l, False)" "first \<le> after"
  shows "compute_next_run L t after name policy = Some first"
proof -
  let ?policy = "if policy \<in> set dst_policies then policy else default_dst_policy"
  have cand: "candidates_of L t (from_utc z after) 0 = Some (l, snd (from_utc z after))"
    using assms(2,3,5,6) by (simp add: candidates_of_def every_days_def daily_candidate_def Let_def)
  have "?policy \<noteq> ''skip''" using assms(4) by (simp add: default_dst_policy_def)
  moreover have "to_utc z (l, False) = first" using to_from_utc [OF assms(7), of first] assms(8) by simp
  moreover from this have "snd (dst_resolve l z ?policy) = Some (l, False)"
    using assms(8) calculation(1) by (auto simp: dst_resolve_def Let_def)
  then have "advance_past_dst 4 0 (candidates_of L t (from_utc z after)) z ?policy = Some (l, False)"
    by (simp add: numeral_eq_Suc cand)
  ultimately show ?thesis
    using assms(1,2) by (simp add: compute_next_run_def zone_named_def Let_def split: if_splits)
qed

text \<open>
  without a zone a daily task runs at its time of day within the next 24 hours: at the first moment
  after the given one at which the clock shows it.
\<close>

theorem daily_run_is_the_first:
  assumes "zone_named L name = None" "tt_schedule t = ''daily''" "clock_of (tt_time t) = Some c"
  shows "\<exists>r. compute_next_run L t after name policy = Some r \<and> after < r \<and> r mod day_us = clock_us c
    \<and> (\<forall>m. after < m \<longrightarrow> m mod day_us = clock_us c \<longrightarrow> r \<le> m)"
proof -
  let ?today = "at_clock (ordinal after) c" and ?r = "fst (daily_candidate c (after, False))"
  have c: "0 \<le> clock_us c" "clock_us c < day_us" using clock_us_bounds [OF clock_of_ok [OF assms(3)]] by simp_all
  have "compute_next_run L t after name policy = Some ?r"
    using assms by (simp add: compute_next_run_def zone_named_def Let_def candidates_of_def every_days_def split: if_splits)
  moreover have "after < ?r" using daily_ahead [OF clock_of_ok [OF assms(3)], of "(after, False)"] by simp
  moreover have r: "?r mod day_us = clock_us c" "?r - after \<le> day_us"
    using c ordinal_bounds [of after] by (auto simp: daily_candidate_def Let_def at_clock_def algebra_simps)
  moreover have "?r \<le> m" if "after < m" "m mod day_us = clock_us c" for m
  proof (rule ccontr)
    assume "\<not> ?r \<le> m"
    then have "?r - m > 0" "?r - m < day_us" using r(2) that(1) by linarith+
    moreover have "(?r - m) mod day_us = 0" using r(1) that(2) by (simp add: mod_diff_eq [symmetric])
    ultimately show False by simp
  qed
  ultimately show ?thesis by blast
qed

section \<open>A night in October\<close>

text \<open>Madrid, 25 October 2026: at 01:00 UTC the clock goes back from 03:00 to 02:00.\<close>

definition demo_zone :: zone where
  "demo_zone = \<lparr>zn_offset = 7200000000, zn_changes = [(63928573200000000, 3600000000)]\<rparr>"

definition demo_sched :: sched_lib where
  "demo_sched = \<lparr>sl_zone = (\<lambda>n. if n = ''Europe/Madrid'' then Some demo_zone else None), sl_cron = (\<lambda>e r k. None)\<rparr>"

definition demo_timing :: task_timing where
  "demo_timing = \<lparr>tt_schedule = ''daily'', tt_time = ''02:30'', tt_day = None, tt_date = None, tt_cron = []\<rparr>"

lemma demo_clock: "clock_of ''02:30'' = Some (2, 30)"
  by code_simp

lemma demo_zone_ok: "zone_ok demo_zone" "whole_minutes demo_zone"
  by (simp_all add: zone_ok_def whole_minutes_def demo_zone_def minute_us_def)

lemma demo_named: "zone_named demo_sched ''Europe/Madrid'' = Some demo_zone"
  by (simp add: zone_named_def demo_sched_def)

text \<open>At 02:10, second pass, the next 02:30 is the one of forty minutes ago.\<close>

lemma repeated_hour_runs_again_witness:
  "compute_next_run demo_sched demo_timing 63928573800000000 ''Europe/Madrid'' ''run_once'' = Some 63928571400000000"
  by (rule repeated_hour_runs_again [OF demo_named, where c = "(2, 30)" and l = 63928578600000000])
    (simp_all add: demo_timing_def demo_clock demo_zone_ok, simp_all add: from_utc_def demo_zone_def ordinal_def at_clock_def clock_us_def units)

lemma next_run_is_later_witness:
  "63928573800000000 < fst (daily_candidate (2, 30) (63928573800000000, False))"
proof -
  have "compute_next_run demo_sched demo_timing 63928573800000000 [] ''skip'' = Some (fst (daily_candidate (2, 30) (63928573800000000, False)))"
    by (simp add: compute_next_run_def demo_timing_def candidates_of_def demo_clock every_days_def Let_def)
  from next_run_is_later [OF _ this] show ?thesis by (simp add: clock_schedule_def demo_timing_def zone_named_def)
qed

lemma dst_status_counts_instants_witness: "fst (dst_resolve 63928578600000000 demo_zone ''run_once'') = DstAmbiguous
    \<and> card {u. clock_shows demo_zone u 63928578600000000} \<noteq> 1"
  using dst_status_counts_instants [OF demo_zone_ok, of 63928578600000000 "''run_once''"]
  by (auto simp: dst_resolve_def Let_def to_utc_def from_utc_def demo_zone_def minute_us_def)

lemma daily_run_is_the_first_witness: "\<exists>r. compute_next_run demo_sched demo_timing 0 [] ''skip'' = Some r \<and> 0 < r"
  using daily_run_is_the_first [of demo_sched "[]" demo_timing "(2, 30)" 0 "''skip''"]
  by (auto simp: zone_named_def demo_timing_def demo_clock)

end
