(* ===== verification/Task_Windows.thy ===== *)
theory Task_Windows
  imports Time_Zone
begin

text \<open>
  Run windows, period keys and the closed statuses of runs, \<open>src/task_windows.py\<close>. A missing text or zone
  name is the empty one; \<open>repr\<close> prints the values that are no text; the ellipsis is code 128.
\<close>

section \<open>Dates as text\<close>

definition dash :: char where "dash = CHR ''-''"

text \<open>\<open>isoformat\<close> of a moment without its microseconds, \<open>sep\<close> between date and clock.\<close>

definition iso_text :: "char \<Rightarrow> moment \<Rightarrow> string" where
  "iso_text sep m =
     (let d = ordinal m; s = m mod day_us div second_us
      in zero_pad 4 (nat (year_of d)) @ dash # zero_pad 2 (nat (month_no d)) @ dash # zero_pad 2 (nat (month_day d))
         @ sep # zero_pad 2 (nat (s div 3600)) @ CHR '':'' # zero_pad 2 (nat (s div 60 mod 60)) @ CHR '':'' # zero_pad 2 (nat (s mod 60)))"

definition month_text :: "int \<Rightarrow> string" where
  "month_text d = str_nat (nat (year_of d)) @ dash # zero_pad 2 (nat (month_no d))"

definition day_text :: "int \<Rightarrow> string" where
  "day_text d = month_text d @ dash # zero_pad 2 (nat (month_day d))"

definition week_text :: "int \<Rightarrow> string" where
  "week_text d = (case iso_week d of (y, w) \<Rightarrow> str_nat (nat y) @ ''-W'' @ zero_pad 2 (nat w))"

section \<open>Windows and periods\<close>

definition period_keys :: "string list" where "period_keys = [''day'', ''iso_week'', ''month'']"

definition max_window_minutes :: int where "max_window_minutes = 30 * 24 * 60"

definition run_ok :: string where "run_ok = ''ok''"
definition run_partial :: string where "run_partial = ''partial''"
definition run_failed :: string where "run_failed = ''failed''"
definition skipped_window :: string where "skipped_window = ''skipped-window''"
definition skipped_period :: string where "skipped_period = ''skipped-period''"
definition skipped_paused :: string where "skipped_paused = ''skipped-paused''"
definition blocked_login :: string where "blocked_login = ''blocked-login''"

definition closed_statuses :: "string list" where
  "closed_statuses = [run_ok, run_partial, run_failed, skipped_window, skipped_period, skipped_paused, blocked_login]"

definition period_consuming :: "string list" where "period_consuming = [run_ok, run_partial, run_failed]"

lemmas status_words = run_ok_def run_partial_def run_failed_def skipped_window_def skipped_period_def skipped_paused_def blocked_login_def

definition normalize_window_minutes :: "json \<Rightarrow> pyerr + int option" where
  "normalize_window_minutes v =
     (if v = JNull \<or> v = JStr [] \<or> v = JBool False then Inr None
      else case py_int v of
             Inl OverflowError \<Rightarrow> Inl OverflowError
           | Inl _ \<Rightarrow> Inl ValueError
           | Inr m \<Rightarrow> if m = 0 then Inr None else if m < 0 \<or> max_window_minutes < m then Inl ValueError else Inr (Some m))"

definition normalize_period_key :: "(json \<Rightarrow> string) \<Rightarrow> json \<Rightarrow> pyerr + string option" where
  "normalize_period_key repr v =
     (if v = JNull \<or> v = JStr [] then Inr None
      else let key = py_lower (py_strip (py_str repr v)) in if key \<in> set period_keys then Inr (Some key) else Inl ValueError)"

text \<open>The zone database as a function of the name; a name it does not know is UTC.\<close>

definition to_local :: "(string \<Rightarrow> zone option) \<Rightarrow> moment \<Rightarrow> string \<Rightarrow> moment" where
  "to_local zones anchor name =
     (if name = [] then anchor else case zones name of Some z \<Rightarrow> fst (from_utc z anchor) | None \<Rightarrow> anchor)"

definition period_value :: "(string \<Rightarrow> zone option) \<Rightarrow> moment \<Rightarrow> string \<Rightarrow> string \<Rightarrow> pyerr + string" where
  "period_value zones anchor name key =
     (let d = ordinal (to_local zones anchor name)
      in if key = ''day'' then Inr (day_text d) else if key = ''iso_week'' then Inr (week_text d)
         else if key = ''month'' then Inr (month_text d) else Inl ValueError)"

definition minutes_late :: "moment \<Rightarrow> moment \<Rightarrow> real" where
  "minutes_late anchor now = real_of_int (now - anchor) / real_of_int minute_us"

definition window_violation :: "moment \<Rightarrow> moment \<Rightarrow> int option \<Rightarrow> string option" where
  "window_violation anchor now window =
     (case window of
        None \<Rightarrow> None
      | Some w \<Rightarrow>
          if w = 0 then None
          else let late = minutes_late anchor now
               in if late \<le> of_int w then None
                  else Some (''Due '' @ iso_text CHR '' '' anchor @ '' UTC; reached ''
                         @ str_int (if 0 \<le> late then \<lfloor>late\<rfloor> else \<lceil>late\<rceil>) @ '' min late, the window is '' @ str_int w @ '' min''))"

definition guard_anchor :: "moment option \<Rightarrow> moment \<Rightarrow> moment" where
  "guard_anchor origin due = (case origin of Some a \<Rightarrow> if a \<le> due then a else due | None \<Rightarrow> due)"

section \<open>Closed statuses\<close>

text \<open>The part of regular expressions that the search for a refused login uses.\<close>

datatype rx = RxText string | RxOneOf string | RxOpt rx | RxSeq rx rx | RxAlt rx rx | RxEdge

definition is_word :: "char \<Rightarrow> bool" where
  "is_word c =
     (let n = (of_char c :: nat)
      in 48 \<le> n \<and> n \<le> 57 \<or> 65 \<le> n \<and> n \<le> 90 \<or> n = 95 \<or> 97 \<le> n \<and> n \<le> 122
         \<or> n \<in> {170, 178, 179, 181, 185, 186, 188, 189, 190} \<or> 192 \<le> n \<and> n \<noteq> 215 \<and> n \<noteq> 247)"

fun word_before :: "string \<Rightarrow> nat \<Rightarrow> bool" where
  "word_before t 0 = False"
| "word_before t (Suc i) = is_word (t ! i)"

text \<open>Where a match that starts at a position of the (lower-case) text may end.\<close>

fun rx_ends :: "rx \<Rightarrow> string \<Rightarrow> nat \<Rightarrow> nat list" where
  "rx_ends (RxText s) t i = (if starts_with (drop i t) s then [i + length s] else [])"
| "rx_ends (RxOneOf cs) t i = (if i < length t \<and> t ! i \<in> set cs then [Suc i] else [])"
| "rx_ends (RxOpt r) t i = rx_ends r t i @ [i]"
| "rx_ends (RxSeq r s) t i = concat (map (rx_ends s t) (rx_ends r t i))"
| "rx_ends (RxAlt r s) t i = rx_ends r t i @ rx_ends s t i"
| "rx_ends RxEdge t i = (if word_before t i \<noteq> (i < length t \<and> is_word (t ! i)) then [i] else [])"

definition rx_search :: "rx \<Rightarrow> string \<Rightarrow> bool" where
  "rx_search r t = list_ex (\<lambda>i. rx_ends r t i \<noteq> []) [0..<Suc (length t)]"

definition one_of_words :: "string list \<Rightarrow> rx" where
  "one_of_words ws = foldr (\<lambda>w r. RxAlt (RxText w) r) (butlast ws) (RxText (last ws))"

definition login_rx :: rx where
  "login_rx = foldr RxAlt
     [RxSeq (RxText ''authentication '') (one_of_words [''failed'', ''error'', ''required'']),
      RxSeq (RxSeq (RxText ''auth'') (RxOpt (RxText ''entication''))) (RxText '' failure''),
      RxSeq (RxText ''login '') (one_of_words [''failed'', ''required'', ''error'']),
      RxSeq (RxText ''log'') (RxSeq (RxOpt (RxText '' '')) (RxSeq (RxText ''in '') (one_of_words [''failed'', ''required'']))),
      RxSeq (RxText ''sign'') (RxSeq (RxOpt (RxOneOf ''- '')) (RxSeq (RxText ''in '') (one_of_words [''failed'', ''required'']))),
      RxSeq (RxText ''invalid '') (one_of_words [''credentials'', ''password'', ''token'']),
      RxText ''bad credentials'', RxText ''wrong password'',
      RxSeq (RxText ''unauthori'') (RxSeq (RxOneOf ''sz'') (RxText ''ed'')),
      RxSeq RxEdge (RxSeq (RxText ''401'') RxEdge),
      RxSeq (RxText ''app'') (RxSeq (RxOneOf ''- '') (RxText ''specific password'')),
      RxSeq (RxText ''session '') (one_of_words [''expired'', ''has expired'']),
      RxSeq (RxText ''not '') (RxSeq (one_of_words [''logged'', ''signed'']) (RxText '' in'')),
      RxSeq (RxText ''please '') (RxSeq (one_of_words [''log'', ''sign'']) (RxSeq (RxOpt (RxText '' '')) (RxText ''in''))),
      RxSeq (RxText ''credential'') (RxSeq (RxOpt (RxText ''s'')) (RxSeq (RxText '' '') (one_of_words [''rejected'', ''expired'', ''missing''])))]
     (RxText ''authenticationfailed'')"

definition login_refused :: "string \<Rightarrow> bool" where
  "login_refused t = rx_search login_rx (py_lower t)"

fun first_nonblank :: "string list \<Rightarrow> string" where
  "first_nonblank [] = []"
| "first_nonblank (l # ls) =
     (let r = py_strip l
      in if r \<noteq> [] then (if length r \<le> 160 then r else rstrip (take 159 r) @ [char_of (128::nat)]) else first_nonblank ls)"

definition first_line :: "string \<Rightarrow> string" where
  "first_line t = first_nonblank (splitlines t)"

definition or_text :: "string \<Rightarrow> string \<Rightarrow> string" where
  "or_text a b = (if a \<noteq> [] then a else b)"

definition closed_status_for :: "string \<Rightarrow> string \<Rightarrow> string \<Rightarrow> string option \<times> string" where
  "closed_status_for status result error =
     (let s = py_lower (py_strip status); body = py_strip (or_text error result); line = first_line body
      in if s \<in> set closed_statuses \<and> starts_with s ''skipped-'' then (Some s, line)
         else if s \<in> {run_partial, blocked_login, run_failed, run_ok} then (Some s, line)
         else if s = ''success''
         then (if error \<noteq> [] \<and> py_strip error \<noteq> [] then (Some run_partial, first_line error)
               else (Some run_ok, or_text (first_line result) ''completed''))
         else if s \<in> {''error'', ''failed'', ''failure''}
         then (if login_refused body then (Some blocked_login, line) else (Some run_failed, or_text line ''failed''))
         else if s = ''aborted'' then (Some run_failed, or_text line ''aborted'')
         else if s = ''fenced'' then (Some skipped_period, or_text line ''duplicate occurrence'')
         else if s = ''skipped''
         then (if contains (py_lower body) ''paused'' then (Some skipped_paused, line) else (Some run_ok, or_text line ''nothing to do''))
         else (None, line))"

section \<open>One text for one period\<close>

lemma split_digits:
  "list_all is_digit a \<Longrightarrow> list_all is_digit b \<Longrightarrow> \<not> is_digit c \<Longrightarrow> a @ c # r = b @ c # r' \<longleftrightarrow> a = b \<and> r = r'"
proof (induction a arbitrary: b)
  case Nil
  then show ?case by (cases b) auto
next
  case (Cons x a)
  then show ?case by (cases b) auto
qed

lemma dash_digit: "\<not> is_digit dash" "\<not> is_digit CHR '':''"
  by (simp_all add: is_digit_def dash_def)

lemma str_nat_inj: "str_nat n = str_nat m \<longleftrightarrow> n = m"
  by (metis str_nat_value)

lemma year_pos: "1 \<le> d \<Longrightarrow> 1 \<le> year_of d"
proof (rule ccontr)
  assume d: "1 \<le> d" and "\<not> 1 \<le> year_of d"
  then have "12 * (year_of d + 1) \<le> 12 * 1" by simp
  from month_start_mono [OF this] have "month_start (12 * (year_of d + 1)) \<le> 1" by (simp add: year_start [of 1, simplified] days_before_year_def)
  then show False using year_bounds(2) [of d] d unfolding year_start by linarith
qed

lemma month_no_bounds: "1 \<le> month_no d" "month_no d \<le> 12"
  by (simp_all add: month_no_def)

lemma month_day_bounds: "1 \<le> month_day d" "month_day d \<le> 31"
  using month_of_bounds [of d] month_len_bounds(2) [of "month_of d"] by (simp_all add: month_day_def month_step)

lemma month_of_parts: "month_of d = 12 * year_of d + (month_no d - 1)"
  by (simp add: year_of_def month_no_def)

lemma day_of_parts: "d = month_start (month_of d) + month_day d - 1"
  by (simp add: month_day_def)

lemma nat_same: "0 \<le> a \<Longrightarrow> 0 \<le> b \<Longrightarrow> nat a = nat b \<longleftrightarrow> a = b"
  by auto

lemma month_text_same:
  assumes "1 \<le> d" "1 \<le> e"
  shows "month_text d = month_text e \<longleftrightarrow> month_of d = month_of e"
proof -
  have "month_text d = month_text e \<longleftrightarrow> year_of d = year_of e \<and> month_no d = month_no e"
    using year_pos [OF assms(1)] year_pos [OF assms(2)] month_no_bounds(1) [of d] month_no_bounds(1) [of e]
    by (simp add: month_text_def split_digits [OF str_nat_is_digits str_nat_is_digits dash_digit(1)] str_nat_inj zero_pad_inj nat_same)
  also have "\<dots> \<longleftrightarrow> month_of d = month_of e"
    by (auto simp: month_of_parts [of d] month_of_parts [of e] simp del: mult_eq_0_iff) (simp_all add: year_of_def month_no_def)
  finally show ?thesis .
qed

lemma day_text_same:
  assumes "1 \<le> d" "1 \<le> e"
  shows "day_text d = day_text e \<longleftrightarrow> d = e"
proof -
  have split: "day_text x = str_nat (nat (year_of x)) @ dash # zero_pad 2 (nat (month_no x)) @ dash # zero_pad 2 (nat (month_day x))" for x
    by (simp add: day_text_def month_text_def)
  have "day_text d = day_text e \<longleftrightarrow> year_of d = year_of e \<and> month_no d = month_no e \<and> month_day d = month_day e"
    using year_pos [OF assms(1)] year_pos [OF assms(2)] month_no_bounds(1) [of d] month_no_bounds(1) [of e] month_day_bounds(1) [of d] month_day_bounds(1) [of e]
    by (simp add: split split_digits [OF str_nat_is_digits str_nat_is_digits dash_digit(1)]
        split_digits [OF zero_pad_digits zero_pad_digits dash_digit(1)] str_nat_inj zero_pad_inj nat_same)
  also have "\<dots> \<longleftrightarrow> d = e"
    using month_of_parts [of d] month_of_parts [of e] day_of_parts [of d] day_of_parts [of e] by auto
  finally show ?thesis .
qed

lemma iso_year_pos:
  assumes "1 \<le> d" "iso_week d = (y, w)"
  shows "1 \<le> y" "1 \<le> w"
proof -
  have "iso_monday 1 = 1" by (simp add: iso_monday_def days_before_year_def)
  then show "1 \<le> y" using iso_week_bounds(2) [OF assms(2)] assms(1) iso_monday_mono [of y 1] by (cases "y < 1") auto
  show "1 \<le> w" using iso_week_bounds(1,3) [OF assms(2)] by (simp add: pos_imp_zdiv_nonneg_iff)
qed

lemma week_text_same:
  assumes "1 \<le> d" "1 \<le> e"
  shows "week_text d = week_text e \<longleftrightarrow> (d + 6) div 7 = (e + 6) div 7"
proof -
  obtain y w z v where yw: "iso_week d = (y, w)" "iso_week e = (z, v)" by (metis surj_pair)
  have "week_text d = week_text e \<longleftrightarrow> y = z \<and> w = v"
    using iso_year_pos [OF assms(1) yw(1)] iso_year_pos [OF assms(2) yw(2)]
    by (simp add: week_text_def yw split_digits [OF str_nat_is_digits str_nat_is_digits dash_digit(1) [unfolded dash_def]] str_nat_inj zero_pad_inj nat_same)
  then show ?thesis using iso_week_same [of d e] by (simp add: yw)
qed

text \<open>The calendar period of a local day, as a set of days.\<close>

definition same_period :: "string \<Rightarrow> int \<Rightarrow> int \<Rightarrow> bool" where
  "same_period key d e \<longleftrightarrow>
     (if key = ''day'' then d = e else if key = ''iso_week'' then (d + 6) div 7 = (e + 6) div 7 else month_of d = month_of e)"

text \<open>
  C22: two occurrences have the same period value exactly when their local days lie in the same day, in the
  same Monday-to-Sunday week (over the turn of the year too), or in the same month.
\<close>

theorem period_values_name_periods:
  assumes "key \<in> set period_keys" "1 \<le> ordinal (to_local zones a name)" "1 \<le> ordinal (to_local zones b name)"
  shows "period_value zones a name key = period_value zones b name key
    \<longleftrightarrow> same_period key (ordinal (to_local zones a name)) (ordinal (to_local zones b name))"
  using assms by (auto simp: period_keys_def period_value_def same_period_def Let_def day_text_same week_text_same month_text_same)

text \<open>
  a run is inside its window exactly up to the given number of minutes after the moment it was first due.
\<close>

theorem window_closes_on_time:
  "window_violation a now w = None \<longleftrightarrow> (case w of None \<Rightarrow> True | Some m \<Rightarrow> m = 0 \<or> now \<le> a + m * minute_us)"
proof -
  have "minutes_late a now \<le> of_int m \<longleftrightarrow> now \<le> a + m * minute_us" for m
  proof -
    have "minutes_late a now \<le> of_int m \<longleftrightarrow> real_of_int (now - a) \<le> real_of_int (m * minute_us)"
      by (simp add: minutes_late_def minute_us_def divide_le_eq)
    also have "\<dots> \<longleftrightarrow> now \<le> a + m * minute_us" unfolding of_int_le_iff by auto
    finally show ?thesis .
  qed
  then show ?thesis by (auto simp: window_violation_def Let_def split: option.split)
qed

text \<open>every closed status is one of the seven words, and a run refused at a login never uses up its period.\<close>

theorem closed_vocabulary:
  assumes "closed_status_for status result error = (Some c, line)"
  shows "c \<in> set closed_statuses \<and> (c \<in> set period_consuming \<longrightarrow> py_lower (py_strip status) \<in> {''error'', ''failure''}
     \<longrightarrow> \<not> login_refused (py_strip (or_text error result)))"
  using assms by (auto simp: closed_status_for_def Let_def closed_statuses_def period_consuming_def status_words split: if_splits)

lemma period_values_name_periods_witness:
  "period_value (\<lambda>n. None) (739914 * day_us) [] ''iso_week'' = period_value (\<lambda>n. None) (739913 * day_us) [] ''iso_week''"
  using period_values_name_periods [of "''iso_week''" "\<lambda>n. None" "739914 * day_us" "[]" "739913 * day_us"]
  by (simp add: period_keys_def to_local_def ordinal_def same_period_def day_us_def)

lemma demo_closed: "closed_status_for ''error'' [] ''boom'' = (Some ''failed'', ''boom'')"
  by code_simp

lemma closed_vocabulary_witness: "''failed'' \<in> set closed_statuses \<and> \<not> login_refused (py_strip (or_text ''boom'' []))"
proof -
  have "''failed'' \<in> set period_consuming" "py_lower (py_strip ''error'') = ''error''" by code_simp+
  then show ?thesis using closed_vocabulary [OF demo_closed] by simp
qed

end
