(* ===== verification/Task_Store.thy ===== *)
theory Task_Store
  imports Task_Schedule Task_Windows
begin

text \<open>
  What the scheduler keeps beside its task table, \<open>src/task_scheduler.py\<close>: the declared policy of a task,
  the moments it still owes, its run window and period key, the periods that ran, and the log of fire keys.

  The SQLite file is the record \<open>task_store\<close>, one dictionary per table. A moment stored as ISO text reads
  back as itself; so does a list stored as JSON. A column that is NULL is an empty text or \<open>None\<close>.
  A catch-up number of more than 4300 digits, which \<open>int\<close> refuses, is left out.
\<close>

section \<open>Policies\<close>

record policy_row =
  pr_dst :: string
  pr_misfire :: string
  pr_preset :: string
  pr_permissions :: "string list option"
  pr_connectors :: "string list option"
  pr_run_all :: "moment option"
  pr_catchup :: "moment list"

record guard_row =
  gr_window :: "int option"
  gr_period :: string
  gr_origin :: "moment option"
  gr_applies :: "moment option"

record task_store =
  st_policies :: "(string, policy_row) dict"
  st_guards :: "(string, guard_row) dict"
  st_periods :: "(string \<times> string, string) dict"
  st_fired :: "(string, moment option) dict"

definition empty_policy :: policy_row where
  "empty_policy = \<lparr>pr_dst = [], pr_misfire = [], pr_preset = [], pr_permissions = None, pr_connectors = None, pr_run_all = None, pr_catchup = []\<rparr>"

definition empty_guard :: guard_row where
  "empty_guard = \<lparr>gr_window = None, gr_period = [], gr_origin = None, gr_applies = None\<rparr>"

definition misfire_policies :: "string list" where
  "misfire_policies = [''fire_immediately'', ''fire_once'', ''skip'']"

definition default_misfire :: string where "default_misfire = ''fire_immediately''"

definition budget_presets :: "string list" where
  "budget_presets = [''supervised'', ''bounded_autonomous'', ''read_only'']"

definition catch_up_prefix :: string where "catch_up_prefix = ''catch_up_max:''"

text \<open>\<open>^catch_up_max:([1-9]\d*)$\<close>; \<open>$\<close> also matches before a final newline.\<close>

definition catch_up_max :: "string \<Rightarrow> nat option" where
  "catch_up_max p =
     (let r = drop (length catch_up_prefix) p;
          ds = (if r \<noteq> [] \<and> last r = newline then butlast r else r)
      in if starts_with p catch_up_prefix \<and> ds \<noteq> [] \<and> list_all is_digit ds \<and> hd ds \<noteq> CHR ''0'' then Some (digits_value ds) else None)"

datatype misfire_kind = FireOnce | SkipMissed | CatchUp nat

definition parse_misfire_policy :: "string \<Rightarrow> misfire_kind" where
  "parse_misfire_policy p =
     (if p \<in> {''fire_immediately'', ''fire_once''} then FireOnce
      else if p = ''skip'' then SkipMissed
      else case catch_up_max p of Some k \<Rightarrow> CatchUp k | None \<Rightarrow> FireOnce)"

definition valid_misfire_policy :: "string \<Rightarrow> bool" where
  "valid_misfire_policy p \<longleftrightarrow> p \<in> set misfire_policies \<or> catch_up_max p \<noteq> None"

text \<open>A policy as it is returned, with its defaults.\<close>

record task_policy =
  tp_dst :: string
  tp_misfire :: string
  tp_preset :: string
  tp_permissions :: "string list option"
  tp_connectors :: "string list option"

definition get_task_policy :: "string \<Rightarrow> task_store \<Rightarrow> task_policy" where
  "get_task_policy tid s =
     (let r = dget_or (st_policies s) tid empty_policy
      in \<lparr>tp_dst = or_text (pr_dst r) default_dst_policy, tp_misfire = or_text (pr_misfire r) default_misfire,
          tp_preset = or_text (pr_preset r) ''supervised'', tp_permissions = pr_permissions r, tp_connectors = pr_connectors r\<rparr>)"

definition update_policy :: "string \<Rightarrow> (policy_row \<Rightarrow> policy_row) \<Rightarrow> task_store \<Rightarrow> task_store" where
  "update_policy tid f s = s\<lparr>st_policies := dset tid (f (dget_or (st_policies s) tid empty_policy)) (st_policies s)\<rparr>"

definition set_task_policy :: "string \<Rightarrow> string option \<Rightarrow> string option \<Rightarrow> string option \<Rightarrow> string list option \<Rightarrow> string list option \<Rightarrow> bool
    \<Rightarrow> task_store \<Rightarrow> pyerr + task_policy \<times> task_store" where
  "set_task_policy tid dst misfire preset permissions connectors clear s =
     (if (case dst of Some d \<Rightarrow> d \<notin> set dst_policies | None \<Rightarrow> False)
         \<or> (case misfire of Some m \<Rightarrow> \<not> valid_misfire_policy m | None \<Rightarrow> False)
         \<or> (case preset of Some p \<Rightarrow> p \<notin> set budget_presets | None \<Rightarrow> False)
      then Inl ValueError
      else
        let cur = get_task_policy tid s;
            new = \<lparr>tp_dst = (case dst of Some d \<Rightarrow> d | None \<Rightarrow> tp_dst cur), tp_misfire = (case misfire of Some m \<Rightarrow> m | None \<Rightarrow> tp_misfire cur),
                   tp_preset = (case preset of Some p \<Rightarrow> p | None \<Rightarrow> tp_preset cur),
                   tp_permissions = (case permissions of Some l \<Rightarrow> Some l | None \<Rightarrow> tp_permissions cur),
                   tp_connectors = (if clear then None else case connectors of Some l \<Rightarrow> Some l | None \<Rightarrow> tp_connectors cur)\<rparr>
        in Inr (new, update_policy tid (\<lambda>r. r\<lparr>pr_dst := tp_dst new, pr_misfire := tp_misfire new, pr_preset := tp_preset new,
                 pr_permissions := tp_permissions new, pr_connectors := tp_connectors new\<rparr>) s))"

text \<open>What a task still owes.\<close>

definition set_run_all_pending :: "string \<Rightarrow> moment option \<Rightarrow> task_store \<Rightarrow> task_store" where
  "set_run_all_pending tid w = update_policy tid (\<lambda>r. r\<lparr>pr_run_all := w\<rparr>)"

definition get_run_all_pending :: "string \<Rightarrow> task_store \<Rightarrow> moment option" where
  "get_run_all_pending tid s = pr_run_all (dget_or (st_policies s) tid empty_policy)"

definition set_catchup_pending :: "string \<Rightarrow> moment list \<Rightarrow> task_store \<Rightarrow> task_store" where
  "set_catchup_pending tid ws = update_policy tid (\<lambda>r. r\<lparr>pr_catchup := ws\<rparr>)"

definition pop_catchup_pending :: "string \<Rightarrow> task_store \<Rightarrow> moment option \<times> task_store" where
  "pop_catchup_pending tid s =
     (case pr_catchup (dget_or (st_policies s) tid empty_policy) of
        [] \<Rightarrow> (None, s)
      | w # ws \<Rightarrow> (Some w, set_catchup_pending tid ws s))"

section \<open>Guards and periods\<close>

definition get_task_schedule_guard :: "string \<Rightarrow> task_store \<Rightarrow> guard_row" where
  "get_task_schedule_guard tid s =
     (let r = dget_or (st_guards s) tid empty_guard in r\<lparr>gr_window := (if gr_window r = Some 0 then None else gr_window r)\<rparr>)"

text \<open>\<open>None\<close> is a field that was not given.\<close>

definition set_task_schedule_guard :: "(json \<Rightarrow> string) \<Rightarrow> string \<Rightarrow> json option \<Rightarrow> json option \<Rightarrow> task_store
    \<Rightarrow> pyerr + (int option \<times> string) \<times> task_store" where
  "set_task_schedule_guard repr tid window period s =
     (let cur = get_task_schedule_guard tid s
      in case (case window of None \<Rightarrow> Inr (gr_window cur) | Some v \<Rightarrow> normalize_window_minutes v) of
           Inl e \<Rightarrow> Inl e
         | Inr w \<Rightarrow>
             case (case period of None \<Rightarrow> Inr (gr_period cur)
                   | Some v \<Rightarrow> (case normalize_period_key repr v of Inl e \<Rightarrow> Inl e | Inr None \<Rightarrow> Inr [] | Inr (Some k) \<Rightarrow> Inr k)) of
               Inl e \<Rightarrow> Inl e
             | Inr p \<Rightarrow> Inr ((w, p), s\<lparr>st_guards :=
                   dset tid ((dget_or (st_guards s) tid empty_guard)\<lparr>gr_window := w, gr_period := p\<rparr>) (st_guards s)\<rparr>))"

definition guarded_task_ids :: "task_store \<Rightarrow> string list" where
  "guarded_task_ids s = map fst (filter (\<lambda>(t, r). gr_window r \<noteq> None \<or> gr_period r \<noteq> []) (st_guards s))"

definition postpone_due :: "string \<Rightarrow> moment option \<Rightarrow> moment option \<Rightarrow> task_store \<Rightarrow> task_store" where
  "postpone_due tid old new s =
     (case (old, new, dget (st_guards s) tid) of
        (Some a, Some b, Some r) \<Rightarrow>
          if (gr_window r = None \<or> gr_window r = Some 0) \<and> gr_period r = [] then s
          else s\<lparr>st_guards := dset tid (r\<lparr>gr_origin := (if gr_applies r = Some a \<and> gr_origin r \<noteq> None then gr_origin r else Some a),
                 gr_applies := Some b\<rparr>) (st_guards s)\<rparr>
      | _ \<Rightarrow> s)"

definition period_taken :: "string \<Rightarrow> string \<Rightarrow> task_store \<Rightarrow> bool" where
  "period_taken tid v s \<longleftrightarrow> dget (st_periods s) (tid, v) \<noteq> None"

definition consume_period :: "string \<Rightarrow> string \<Rightarrow> string \<Rightarrow> task_store \<Rightarrow> bool \<times> task_store" where
  "consume_period tid v word s =
     (if dget (st_periods s) (tid, v) \<noteq> None then (False, s) else (True, s\<lparr>st_periods := dset (tid, v) word (st_periods s)\<rparr>))"

section \<open>Fire keys\<close>

definition occurrence_key :: "string \<Rightarrow> moment option \<Rightarrow> string" where
  "occurrence_key tid due =
     ''task:'' @ tid @ CHR '':'' # (case due of Some m \<Rightarrow> iso_text CHR ''T'' m | None \<Rightarrow> ''unscheduled'')"

definition claim_fire_key_literal :: "string \<Rightarrow> moment option \<Rightarrow> task_store \<Rightarrow> bool \<times> task_store" where
  "claim_fire_key_literal key due s =
     (if dget (st_fired s) key \<noteq> None then (False, s) else (True, s\<lparr>st_fired := dset key due (st_fired s)\<rparr>))"

definition claim_fire_key :: "string \<Rightarrow> moment option \<Rightarrow> task_store \<Rightarrow> bool \<times> task_store" where
  "claim_fire_key tid due = claim_fire_key_literal (occurrence_key tid due) due"

section \<open>Delivery\<close>

datatype semantics = AtMostOnce | AtLeastOnce | EffectivelyOnce

definition in_house_targets :: "string list" where
  "in_house_targets = [[], ''session'', ''notification'', ''activity'']"

definition idempotent_sinks :: "string list" where "idempotent_sinks = []"

definition delivery_semantics :: "string \<Rightarrow> semantics" where
  "delivery_semantics target0 =
     (let target = py_lower (py_strip target0)
      in if target \<in> set idempotent_sinks then EffectivelyOnce
         else if target \<in> set in_house_targets then AtLeastOnce else AtMostOnce)"

section \<open>Registers\<close>

text \<open>
  The fire log and the period log promise the same: a key is granted once, a grant is remembered, and claiming one key says nothing of
  the others.
\<close>

locale claim_register =
  fixes claim :: "'k \<Rightarrow> 's \<Rightarrow> bool \<times> 's" and taken :: "'k \<Rightarrow> 's \<Rightarrow> bool"
  assumes grants: "fst (claim k s) \<longleftrightarrow> \<not> taken k s"
    and marks: "taken j (snd (claim k s)) \<longleftrightarrow> j = k \<or> taken j s"
begin

lemma kept: "taken j s \<Longrightarrow> taken j (snd (claim k s))"
  by (simp add: marks)

lemma taken_after: "taken j (fold (\<lambda>k s. snd (claim k s)) ks s) \<longleftrightarrow> j \<in> set ks \<or> taken j s"
  by (induction ks arbitrary: s) (auto simp: marks)

lemma granted_once: "j \<in> set ks \<Longrightarrow> \<not> fst (claim j (fold (\<lambda>k s. snd (claim k s)) ks s))"
  by (simp add: grants taken_after)

end

interpretation fire_log: claim_register "\<lambda>k. claim_fire_key_literal k due" "\<lambda>k s. dget (st_fired s) k \<noteq> None" for due
  by unfold_locales (auto simp: claim_fire_key_literal_def)

interpretation period_log: claim_register "\<lambda>(tid, v). consume_period tid v word" "\<lambda>(tid, v) s. period_taken tid v s" for word
  by unfold_locales (auto simp: consume_period_def period_taken_def split: if_splits)

end
