(* ===== verification/Scheduler.thy ===== *)
theory Scheduler
  imports Task_Store
begin

text \<open>
  The dispatch of scheduled tasks, \<open>src/task_scheduler.py\<close>: the claim of a due task and its lease, the
  fence before an effect and before its result is written, recovery of expired leases, what happens to
  the next run, the sweep at start-up, and chains of tasks.

  The database is the record \<open>sched_db\<close>: tasks, run rows and the scheduler's own store. A process is a
  \<open>scheduler\<close>: its worker id and what it keeps in memory. An execution is cut where it awaits:
  \<open>exec_check\<close> before the wait for a quiet foreground, \<open>exec_begin\<close> up to the effect, \<open>exec_end\<close> after it;
  what the effect did is an \<open>exec_outcome\<close>. New run ids and the clock are arguments. Notifications, the
  delivery of results and progress texts are left out, and so is an installation without lease columns.
\<close>

section \<open>State\<close>

record sched_task =
  tk_owner :: "string option"
  tk_status :: string
  tk_trigger :: string
  tk_timing :: task_timing
  tk_timezone :: string
  tk_crew_zone :: string
  tk_next :: "moment option"
  tk_last :: "moment option"
  tk_runs :: nat
  tk_output :: string
  tk_then :: string
  tk_lease_owner :: "string option"
  tk_expires :: "moment option"
  tk_heartbeat :: "moment option"
  tk_key :: "string option"
  tk_attempt :: nat
  tk_generation :: nat

record task_run =
  rn_task :: string
  rn_status :: string
  rn_result :: string
  rn_error :: string
  rn_started :: moment
  rn_finished :: "moment option"

record sched_db =
  sd_tasks :: "(string, sched_task) dict"
  sd_runs :: "(string, task_run) dict"
  sd_store :: task_store

record scheduler =
  sc_id :: string
  sc_executing :: "string list"
  sc_generations :: "(string, nat) dict"
  sc_anchors :: "(string, moment \<times> string) dict"
  sc_defers :: "(string, nat) dict"

definition lease_us :: int where "lease_us = 900 * second_us"

definition update_task :: "string \<Rightarrow> (sched_task \<Rightarrow> sched_task) \<Rightarrow> sched_db \<Rightarrow> sched_db" where
  "update_task tid f db =
     (case dget (sd_tasks db) tid of None \<Rightarrow> db | Some t \<Rightarrow> db\<lparr>sd_tasks := dset tid (f t) (sd_tasks db)\<rparr>)"

definition update_run :: "string \<Rightarrow> (task_run \<Rightarrow> task_run) \<Rightarrow> sched_db \<Rightarrow> sched_db" where
  "update_run rid f db =
     (case dget (sd_runs db) rid of None \<Rightarrow> db | Some r \<Rightarrow> db\<lparr>sd_runs := dset rid (f r) (sd_runs db)\<rparr>)"

definition add_run :: "string \<Rightarrow> task_run \<Rightarrow> sched_db \<Rightarrow> sched_db" where
  "add_run rid r db = db\<lparr>sd_runs := dset rid r (sd_runs db)\<rparr>"

definition run_status :: "string \<Rightarrow> sched_db \<Rightarrow> string" where
  "run_status rid db = (case dget (sd_runs db) rid of None \<Rightarrow> [] | Some r \<Rightarrow> rn_status r)"

definition on_store :: "(task_store \<Rightarrow> task_store) \<Rightarrow> sched_db \<Rightarrow> sched_db" where
  "on_store f db = db\<lparr>sd_store := f (sd_store db)\<rparr>"

definition scheduled_trigger :: "sched_task \<Rightarrow> bool" where
  "scheduled_trigger t \<longleftrightarrow> or_text (tk_trigger t) ''schedule'' = ''schedule''"

section \<open>The lease\<close>

definition lease_free :: "moment \<Rightarrow> sched_task \<Rightarrow> bool" where
  "lease_free now t \<longleftrightarrow> tk_lease_owner t = None \<or> (case tk_expires t of None \<Rightarrow> True | Some e \<Rightarrow> e \<le> now)"

definition is_due :: "moment \<Rightarrow> sched_task \<Rightarrow> bool" where
  "is_due now t \<longleftrightarrow> tk_status t = ''active'' \<and> (case tk_next t of None \<Rightarrow> False | Some n \<Rightarrow> n \<le> now)"

definition claimed_task :: "string \<Rightarrow> string \<Rightarrow> moment \<Rightarrow> sched_task \<Rightarrow> sched_task" where
  "claimed_task worker key now t =
     t\<lparr>tk_lease_owner := Some worker, tk_expires := Some (now + lease_us), tk_heartbeat := Some now,
       tk_key := (case tk_key t of Some k \<Rightarrow> Some k | None \<Rightarrow> Some key), tk_attempt := tk_attempt t + 1, tk_generation := tk_generation t + 1\<rparr>"

text \<open>
  \<open>_claim_due_task\<close> commits an \<open>UPDATE\<close> that takes the lease, \<open>claim_update\<close>, and then reads the row's
  generation in a later statement, \<open>claim_read\<close>; the process may stall between the two. A row that is gone by
  then counts as generation 0.
\<close>

definition generation_of :: "string \<Rightarrow> sched_db \<Rightarrow> nat" where
  "generation_of tid db = (case dget (sd_tasks db) tid of None \<Rightarrow> 0 | Some t \<Rightarrow> tk_generation t)"

definition claim_update :: "string \<Rightarrow> moment option \<Rightarrow> moment \<Rightarrow> scheduler \<Rightarrow> sched_db \<Rightarrow> bool \<times> sched_db" where
  "claim_update tid due now s db =
     (case dget (sd_tasks db) tid of
        None \<Rightarrow> (False, db)
      | Some t \<Rightarrow>
          if is_due now t \<and> lease_free now t
          then (True, update_task tid (claimed_task (sc_id s) (occurrence_key tid due) now) db)
          else (False, db))"

definition claim_read :: "string \<Rightarrow> scheduler \<Rightarrow> sched_db \<Rightarrow> scheduler" where
  "claim_read tid s db = s\<lparr>sc_generations := dset tid (generation_of tid db) (sc_generations s)\<rparr>"

definition claim_due_task :: "string \<Rightarrow> moment option \<Rightarrow> moment \<Rightarrow> scheduler \<Rightarrow> sched_db \<Rightarrow> bool \<times> scheduler \<times> sched_db" where
  "claim_due_task tid due now s db =
     (case claim_update tid due now s db of
        (True, db1) \<Rightarrow> (True, claim_read tid s db1, db1)
      | (False, db1) \<Rightarrow> (False, s, db1))"

definition unleased :: "sched_task \<Rightarrow> sched_task" where
  "unleased t = t\<lparr>tk_lease_owner := None, tk_expires := None, tk_heartbeat := None, tk_key := None, tk_attempt := 0\<rparr>"

definition holds_lease :: "string \<Rightarrow> string \<Rightarrow> sched_db \<Rightarrow> bool" where
  "holds_lease worker tid db \<longleftrightarrow> (case dget (sd_tasks db) tid of None \<Rightarrow> False | Some t \<Rightarrow> tk_lease_owner t = Some worker)"

definition release_lease :: "string \<Rightarrow> scheduler \<Rightarrow> sched_db \<Rightarrow> bool \<times> scheduler \<times> sched_db" where
  "release_lease tid s db =
     (let held = holds_lease (sc_id s) tid db
      in (held, s\<lparr>sc_generations := dpop tid (sc_generations s)\<rparr>, if held then update_task tid unleased db else db))"

definition heartbeat_lease :: "string \<Rightarrow> moment \<Rightarrow> scheduler \<Rightarrow> sched_db \<Rightarrow> bool \<times> sched_db" where
  "heartbeat_lease tid now s db =
     (let held = holds_lease (sc_id s) tid db
      in (held, if held then update_task tid (\<lambda>t. t\<lparr>tk_heartbeat := Some now, tk_expires := Some (now + lease_us)\<rparr>) db else db))"

definition still_owner :: "string \<Rightarrow> nat \<Rightarrow> scheduler \<Rightarrow> sched_db \<Rightarrow> bool" where
  "still_owner tid generation s db \<longleftrightarrow>
     (case dget (sd_tasks db) tid of None \<Rightarrow> False | Some t \<Rightarrow> tk_lease_owner t = Some (sc_id s) \<and> tk_generation t = generation)"

definition still_owner_or_fenced :: "string \<Rightarrow> scheduler \<Rightarrow> sched_db \<Rightarrow> bool" where
  "still_owner_or_fenced tid s db \<longleftrightarrow>
     (case dget (sc_generations s) tid of None \<Rightarrow> True | Some g \<Rightarrow> still_owner tid g s db)"

record occurrence =
  oc_key :: string
  oc_attempt :: nat
  oc_semantics :: semantics
  oc_owner :: "string option"
  oc_expires :: "moment option"

definition current_occurrence :: "string \<Rightarrow> sched_db \<Rightarrow> occurrence option" where
  "current_occurrence tid db =
     (case dget (sd_tasks db) tid of
        None \<Rightarrow> None
      | Some t \<Rightarrow> Some \<lparr>oc_key = (case tk_key t of Some k \<Rightarrow> if k \<noteq> [] then k else occurrence_key tid (tk_next t) | None \<Rightarrow> occurrence_key tid (tk_next t)),
          oc_attempt = tk_attempt t, oc_semantics = delivery_semantics (tk_output t), oc_owner = tk_lease_owner t, oc_expires = tk_expires t\<rparr>)"

section \<open>The next moment\<close>

definition resolve_task_timezone :: "sched_task \<Rightarrow> string" where
  "resolve_task_timezone t = (if tk_timezone t \<noteq> [] then tk_timezone t else tk_crew_zone t)"

definition queue_run_all_followup :: "sched_lib \<Rightarrow> string \<Rightarrow> moment \<Rightarrow> string \<Rightarrow> task_store \<Rightarrow> task_store" where
  "queue_run_all_followup L tid n name s =
     (case sl_zone L name of
        None \<Rightarrow> s
      | Some z \<Rightarrow>
          let l = fst (from_utc z n); second = to_utc z (l, True)
          in if fst (dst_resolve l z ''run_once'') = DstAmbiguous \<and> n < second then set_run_all_pending tid (Some second) s else s)"

definition next_moment_after :: "sched_lib \<Rightarrow> string \<Rightarrow> sched_task \<Rightarrow> moment \<Rightarrow> task_store \<Rightarrow> moment option \<times> task_store" where
  "next_moment_after L tid t after s =
     (case pop_catchup_pending tid s of
        (Some w, s1) \<Rightarrow> (Some w, s1)
      | (None, s1) \<Rightarrow>
          case get_run_all_pending tid s1 of
            Some w \<Rightarrow> (Some w, set_run_all_pending tid None s1)
          | None \<Rightarrow>
              let name = resolve_task_timezone t; policy = tp_dst (get_task_policy tid s1);
                  n = compute_next_run L (tk_timing t) after name policy
              in (n, case n of
                       Some m \<Rightarrow> if policy = ''run_all'' \<and> name \<noteq> [] then queue_run_all_followup L tid m name s1 else s1
                     | None \<Rightarrow> s1))"

text \<open>Setting \<open>next_run\<close> from it; a task that runs once and has no more moment is completed.\<close>

definition advance_task :: "sched_lib \<Rightarrow> string \<Rightarrow> moment \<Rightarrow> bool \<Rightarrow> sched_db \<Rightarrow> sched_db" where
  "advance_task L tid now close_once db =
     (case dget (sd_tasks db) tid of
        None \<Rightarrow> db
      | Some t \<Rightarrow>
          case next_moment_after L tid t now (sd_store db) of
            (n, s1) \<Rightarrow>
              update_task tid (\<lambda>t. t\<lparr>tk_next := n,
                  tk_status := (if n = None \<and> tt_schedule (tk_timing t) = ''once'' \<and> close_once then ''completed'' else tk_status t)\<rparr>)
                (db\<lparr>sd_store := s1\<rparr>))"

fun missed_after :: "sched_lib \<Rightarrow> task_timing \<Rightarrow> string \<Rightarrow> string \<Rightarrow> moment \<Rightarrow> nat \<Rightarrow> moment \<Rightarrow> moment list" where
  "missed_after L t name policy now 0 cursor = []"
| "missed_after L t name policy now (Suc n) cursor =
     (case compute_next_run L t cursor name policy of
        None \<Rightarrow> []
      | Some m \<Rightarrow> if now \<le> m then [] else m # missed_after L t name policy now n m)"

definition enumerate_missed_occurrences :: "sched_lib \<Rightarrow> string \<Rightarrow> sched_task \<Rightarrow> moment \<Rightarrow> moment \<Rightarrow> nat \<Rightarrow> task_store \<Rightarrow> moment list" where
  "enumerate_missed_occurrences L tid t missed now cap s =
     missed # missed_after L (tk_timing t) (resolve_task_timezone t) (tp_dst (get_task_policy tid s)) now (cap - 1) missed"

section \<open>Windows, periods and skips\<close>

definition sweep_grace_us :: int where "sweep_grace_us = 120 * second_us"

definition guard_origin :: "guard_row \<Rightarrow> moment \<Rightarrow> moment option" where
  "guard_origin g due = (if gr_applies g = Some due then gr_origin g else None)"

definition sweep_window_reason :: "string \<Rightarrow> moment \<Rightarrow> moment \<Rightarrow> task_store \<Rightarrow> string option" where
  "sweep_window_reason tid due now s =
     (let g = get_task_schedule_guard tid s
      in if gr_window g = None then None
         else window_violation (guard_anchor (guard_origin g due) due) (now + sweep_grace_us) (gr_window g))"

definition closed_run :: "string \<Rightarrow> string \<Rightarrow> string \<Rightarrow> moment \<Rightarrow> task_run" where
  "closed_run tid status reason now =
     \<lparr>rn_task = tid, rn_status = status, rn_result = reason, rn_error = [], rn_started = now, rn_finished = Some now\<rparr>"

definition skip_key :: "string \<Rightarrow> string \<Rightarrow> moment \<Rightarrow> string" where
  "skip_key status tid due = ''skip:'' @ status @ CHR '':'' # tid @ CHR '':'' # iso_text CHR ''T'' due"

definition record_closed_skip :: "sched_lib \<Rightarrow> string \<Rightarrow> string \<Rightarrow> string \<Rightarrow> string \<Rightarrow> moment \<Rightarrow> moment \<Rightarrow> bool \<Rightarrow> sched_db \<Rightarrow> sched_db" where
  "record_closed_skip L rid tid status reason due now close_once db =
     (case claim_fire_key_literal (skip_key status tid due) (Some due) (sd_store db) of
        (first, s1) \<Rightarrow>
          let db1 = db\<lparr>sd_store := s1\<rparr>;
              db2 = (if first then add_run rid (closed_run tid status reason now) db1 else db1)
          in case dget (sd_tasks db2) tid of
               None \<Rightarrow> db2
             | Some t \<Rightarrow> if scheduled_trigger t then advance_task L tid now close_once db2 else db2)"

definition guard_gate :: "sched_lib \<Rightarrow> string \<Rightarrow> string \<Rightarrow> moment \<Rightarrow> moment \<Rightarrow> scheduler \<Rightarrow> sched_db \<Rightarrow> bool \<times> scheduler \<times> sched_db" where
  "guard_gate L rid tid due now s db =
     (let s1 = s\<lparr>sc_anchors := dpop tid (sc_anchors s)\<rparr>; g = get_task_schedule_guard tid (sd_store db)
      in if gr_window g = None \<and> gr_period g = [] then (True, s1, db)
         else case dget (sd_tasks db) tid of
                None \<Rightarrow> (True, s1, db)
              | Some t \<Rightarrow>
                  if tk_status t \<noteq> ''active'' \<or> \<not> scheduled_trigger t then (True, s1, db)
                  else
                    let anchor = guard_anchor (guard_origin g due) due
                    in case window_violation anchor now (gr_window g) of
                         Some reason \<Rightarrow> (False, s1, record_closed_skip L rid tid skipped_window reason due now True db)
                       | None \<Rightarrow>
                           if gr_period g = [] then (True, s1, db)
                           else case period_value (sl_zone L) anchor (resolve_task_timezone t) (gr_period g) of
                                  Inl _ \<Rightarrow> (True, s1, db)
                                | Inr pv \<Rightarrow>
                                    if period_taken tid pv (sd_store db)
                                    then (False, s1, record_closed_skip L rid tid skipped_period
                                           (''Period '' @ pv @ '' ('' @ gr_period g @ '') already ran'') due now True db)
                                    else (True, s1\<lparr>sc_anchors := dset tid (anchor, pv) (sc_anchors s1)\<rparr>, db))"

definition close_period :: "bool \<Rightarrow> string \<Rightarrow> string \<Rightarrow> string \<Rightarrow> string \<Rightarrow> scheduler \<Rightarrow> sched_db \<Rightarrow> scheduler \<times> sched_db" where
  "close_period manual tid status result error s db =
     (if manual then (s, db)
      else case dget (sc_anchors s) tid of
             None \<Rightarrow> (s, db)
           | Some (anchor, pv) \<Rightarrow>
               (s\<lparr>sc_anchors := dpop tid (sc_anchors s)\<rparr>,
                case fst (closed_status_for status result error) of
                  Some c \<Rightarrow> if c \<in> set period_consuming then on_store (\<lambda>st. snd (consume_period tid pv c st)) db else db
                | None \<Rightarrow> db))"

definition paused_skip :: "sched_lib \<Rightarrow> (string \<Rightarrow> string) \<Rightarrow> moment \<Rightarrow> string \<Rightarrow> sched_db \<Rightarrow> sched_db" where
  "paused_skip L new_id now tid db =
     (case dget (sd_tasks db) tid of
        None \<Rightarrow> db
      | Some t \<Rightarrow>
          case tk_next t of
            None \<Rightarrow> db
          | Some due \<Rightarrow>
              if tk_status t = ''paused'' \<and> due \<le> now \<and> scheduled_trigger t
              then record_closed_skip L (new_id tid) tid skipped_paused
                     (''Paused; the '' @ iso_text CHR '' '' due @ '' UTC slot did not run'') due now False db
              else db)"

definition record_paused_skips :: "sched_lib \<Rightarrow> (string \<Rightarrow> string) \<Rightarrow> moment \<Rightarrow> sched_db \<Rightarrow> sched_db" where
  "record_paused_skips L new_id now db = fold (paused_skip L new_id now) (guarded_task_ids (sd_store db)) db"

section \<open>Recovery\<close>

definition is_stale :: "moment \<Rightarrow> sched_task \<Rightarrow> bool" where
  "is_stale now t \<longleftrightarrow> tk_status t = ''active'' \<and> tk_lease_owner t \<noteq> None \<and> (case tk_expires t of None \<Rightarrow> False | Some e \<Rightarrow> e \<le> now)"

definition abandoned_text :: "string \<Rightarrow> string" where
  "abandoned_text key = ''occurrence '' @ key @ '' was claimed by a worker that stopped answering; at_most_once means it is abandoned rather than repeated''"

definition recover_lease :: "sched_lib \<Rightarrow> (string \<Rightarrow> string) \<Rightarrow> moment \<Rightarrow> string \<Rightarrow> sched_db \<Rightarrow> sched_db" where
  "recover_lease L new_id now tid db =
     (case dget (sd_tasks db) tid of
        None \<Rightarrow> db
      | Some t \<Rightarrow>
          if \<not> is_stale now t then db
          else if delivery_semantics (tk_output t) = AtMostOnce
          then
            let key = (case tk_key t of Some k \<Rightarrow> or_text k (occurrence_key tid (tk_next t)) | None \<Rightarrow> occurrence_key tid (tk_next t))
            in case next_moment_after L tid t now (sd_store db) of
                 (n, s1) \<Rightarrow>
                   add_run (new_id tid) ((closed_run tid ''aborted'' [] now)\<lparr>rn_error := abandoned_text key\<rparr>)
                     (update_task tid (\<lambda>t. (unleased t)\<lparr>
                        tk_next := (if n = None \<and> tt_schedule (tk_timing t) \<noteq> ''once'' then Some (now + 15 * minute_us) else n),
                        tk_status := (if n = None \<and> tt_schedule (tk_timing t) = ''once'' then ''completed'' else tk_status t)\<rparr>)
                       (db\<lparr>sd_store := s1\<rparr>))
          else update_task tid (\<lambda>t. t\<lparr>tk_lease_owner := None, tk_expires := None, tk_heartbeat := None\<rparr>) db)"

definition recover_expired_leases :: "sched_lib \<Rightarrow> (string \<Rightarrow> string) \<Rightarrow> moment \<Rightarrow> sched_db \<Rightarrow> sched_db" where
  "recover_expired_leases L new_id now db = fold (recover_lease L new_id now) (map fst (sd_tasks db)) db"

section \<open>The tick\<close>

definition note_postponed :: "string \<Rightarrow> moment option \<Rightarrow> moment \<Rightarrow> sched_db \<Rightarrow> sched_db" where
  "note_postponed tid old new = on_store (postpone_due tid old (Some new))"

definition postpone_task :: "string \<Rightarrow> moment \<Rightarrow> sched_db \<Rightarrow> sched_db" where
  "postpone_task tid new db =
     (case dget (sd_tasks db) tid of
        None \<Rightarrow> db
      | Some t \<Rightarrow> update_task tid (\<lambda>t. t\<lparr>tk_next := Some new\<rparr>) (note_postponed tid (tk_next t) new db))"

definition dispatch_one :: "sched_lib \<Rightarrow> (string \<Rightarrow> string) \<Rightarrow> moment \<Rightarrow> string \<times> moment option \<Rightarrow> string list \<times> scheduler \<times> sched_db
    \<Rightarrow> string list \<times> scheduler \<times> sched_db" where
  "dispatch_one L new_id now c state =
     (case (c, state) of ((tid, due), (out, s, db)) \<Rightarrow>
        if tid \<in> set (sc_executing s) then (out, s, db)
        else case claim_due_task tid due now s db of
               (False, s1, db1) \<Rightarrow> (out, s1, db1)
             | (True, s1, db1) \<Rightarrow>
                 case (case due of Some d \<Rightarrow> guard_gate L (new_id tid) tid d now s1 db1 | None \<Rightarrow> (True, s1, db1)) of
                   (True, s2, db2) \<Rightarrow> (out @ [tid], s2\<lparr>sc_executing := sc_executing s2 @ [tid]\<rparr>, db2)
                 | (False, s2, db2) \<Rightarrow> (out, snd (release_lease tid s2 db2)))"

definition due_tasks :: "moment \<Rightarrow> scheduler \<Rightarrow> sched_db \<Rightarrow> (string \<times> moment option) list" where
  "due_tasks now s db =
     map (\<lambda>(tid, t). (tid, tk_next t)) (filter (\<lambda>(tid, t). is_due now t \<and> tid \<notin> set (sc_executing s)) (sd_tasks db))"

text \<open>
  \<open>busy\<close>: the moment to postpone to, when the foreground is active or the failure breaker open; \<open>reaped\<close> is the clock of
  the recovery.
\<close>

definition check_due_tasks :: "sched_lib \<Rightarrow> (string \<Rightarrow> string) \<Rightarrow> moment \<Rightarrow> moment \<Rightarrow> moment option \<Rightarrow> scheduler \<Rightarrow> sched_db
    \<Rightarrow> string list \<times> scheduler \<times> sched_db" where
  "check_due_tasks L new_id now reaped busy s db =
     (let db1 = record_paused_skips L new_id now (recover_expired_leases L new_id reaped db); due = due_tasks now s db1
      in case busy of
           Some until \<Rightarrow> ([], s, fold (\<lambda>c. postpone_task (fst c) until) due db1)
         | None \<Rightarrow> fold (dispatch_one L new_id now) due ([], s, db1))"

section \<open>One execution\<close>

datatype begin_answer = FencedAway string | GoAhead "string option"

datatype exec_outcome =
  Finished bool string
| FencedLater string
| DeferredBy int
| Noop string
| CancelledFor string bool
| Raised string bool

definition queued_run :: "string \<Rightarrow> moment \<Rightarrow> task_run" where
  "queued_run tid now = \<lparr>rn_task = tid, rn_status = ''queued'', rn_result = ''Queued '' @ char_of (130::nat) # '' waiting for a free slot'' @ [char_of (128::nat)], rn_error = [], rn_started = now, rn_finished = None\<rparr>"

definition end_run :: "string \<Rightarrow> string \<Rightarrow> string \<Rightarrow> moment \<Rightarrow> task_run \<Rightarrow> task_run" where
  "end_run status result error now r = r\<lparr>rn_status := status, rn_result := result, rn_error := error, rn_finished := Some now\<rparr>"

text \<open>
  Before the wait: a task that is gone or not active, and one whose owner lacks the privileges its action
  needs (\<open>blocked\<close>: the refusal), do not run.
\<close>

definition exec_check :: "string \<Rightarrow> string \<Rightarrow> moment \<Rightarrow> string option \<Rightarrow> sched_db \<Rightarrow> bool \<times> sched_db" where
  "exec_check tid rid now blocked db =
     (case dget (sd_tasks db) tid of
        None \<Rightarrow> (False, if run_status rid db = ''queued''
            then update_run rid (\<lambda>r. r\<lparr>rn_status := ''skipped'', rn_error := ''Task no longer active (status=deleted)'', rn_finished := Some now\<rparr>) db else db)
      | Some t \<Rightarrow>
          if tk_status t \<noteq> ''active''
          then (False, if run_status rid db \<noteq> ''queued'' then db
              else if tk_status t = ''paused''
              then update_run rid (\<lambda>r. r\<lparr>rn_status := skipped_paused, rn_result := ''Task is paused; nothing ran'', rn_finished := Some now\<rparr>) db
              else update_run rid (\<lambda>r. r\<lparr>rn_status := ''skipped'', rn_error := ''Task no longer active (status='' @ tk_status t @ '')'', rn_finished := Some now\<rparr>) db)
          else case blocked of
                 Some msg \<Rightarrow> (False, update_task tid (\<lambda>t. t\<lparr>tk_status := ''paused'', tk_next := None, tk_last := Some now\<rparr>)
                     (update_run rid (end_run ''error'' msg msg now) db))
               | None \<Rightarrow> (True, db))"

definition mark_fenced :: "string \<Rightarrow> string \<Rightarrow> moment \<Rightarrow> sched_db \<Rightarrow> sched_db" where
  "mark_fenced rid msg now = update_run rid (\<lambda>r. end_run ''fenced'' (or_text (rn_result r) msg) msg now r)"

definition start_run :: "string \<Rightarrow> string \<Rightarrow> moment \<Rightarrow> sched_db \<Rightarrow> sched_db" where
  "start_run tid rid now db =
     (if dget (sd_runs db) rid = None
      then add_run rid \<lparr>rn_task = tid, rn_status = ''running'', rn_result = ''Starting'' @ [char_of (128::nat)], rn_error = [], rn_started = now, rn_finished = None\<rparr> db
      else update_run rid (\<lambda>r. r\<lparr>rn_status := ''running'', rn_started := now, rn_result := ''Starting'' @ [char_of (128::nat)]\<rparr>) db)"

text \<open>After the wait: the fence, then the fire key; \<open>GoAhead\<close> is the effect, with the key it runs under.\<close>

definition exec_begin :: "string \<Rightarrow> string \<Rightarrow> moment \<Rightarrow> scheduler \<Rightarrow> sched_db \<Rightarrow> begin_answer \<times> sched_db" where
  "exec_begin tid rid now s db0 =
     (let db = start_run tid rid now db0
      in if \<not> still_owner_or_fenced tid s db
         then let msg = ''lease generation for task '' @ tid @ '' changed before dispatch; another worker took over this occurrence''
              in (FencedAway msg, mark_fenced rid msg now db)
         else case dget (sd_tasks db) tid of
                None \<Rightarrow> (GoAhead None, db)
              | Some t \<Rightarrow>
                  case tk_key t of
                    None \<Rightarrow> (GoAhead None, db)
                  | Some key \<Rightarrow>
                      if key = [] then (GoAhead None, db)
                      else case claim_fire_key_literal key None (sd_store db) of
                             (True, s1) \<Rightarrow> (GoAhead (Some key), db\<lparr>sd_store := s1\<rparr>)
                           | (False, s1) \<Rightarrow>
                               let msg = ''occurrence '' @ key @ '' for task '' @ tid @ '' already produced a result; not dispatching a duplicate''
                               in (FencedAway msg, mark_fenced rid msg now (db\<lparr>sd_store := s1\<rparr>)))"

text \<open>Chains: \<open>visited\<close> are the tasks walked through; ten links are followed.\<close>

fun chain_cycle :: "(string, sched_task) dict \<Rightarrow> string option \<Rightarrow> nat \<Rightarrow> string set \<Rightarrow> string \<Rightarrow> bool" where
  "chain_cycle ts owner 0 visited cur = True"
| "chain_cycle ts owner (Suc n) visited cur =
     (if cur \<in> visited then True
      else case dget ts cur of
             None \<Rightarrow> False
           | Some t \<Rightarrow>
               if owner \<noteq> None \<and> tk_owner t \<noteq> owner then True
               else if tk_then t = [] then False else chain_cycle ts owner n (insert cur visited) (tk_then t))"

definition has_chain_cycle :: "(string, sched_task) dict \<Rightarrow> string option \<Rightarrow> string \<Rightarrow> bool" where
  "has_chain_cycle ts owner start = chain_cycle ts owner 10 {} start"

definition chain_target :: "sched_task \<Rightarrow> sched_db \<Rightarrow> string option" where
  "chain_target t db =
     (if tk_then t = [] then None
      else case dget (sd_tasks db) (tk_then t) of
             None \<Rightarrow> None
           | Some c \<Rightarrow> if tk_owner c \<noteq> tk_owner t \<or> has_chain_cycle (sd_tasks db) (tk_owner t) (tk_then t) then None else Some (tk_then t))"

text \<open>The schedule moves on, or a task that is not scheduled loses its next run.\<close>

definition move_on :: "sched_lib \<Rightarrow> string \<Rightarrow> moment \<Rightarrow> bool \<Rightarrow> sched_db \<Rightarrow> sched_db" where
  "move_on L tid now close_once db =
     (case dget (sd_tasks db) tid of
        None \<Rightarrow> db
      | Some t \<Rightarrow> if scheduled_trigger t then advance_task L tid now close_once db else update_task tid (\<lambda>t. t\<lparr>tk_next := None\<rparr>) db)"

definition note_last :: "string \<Rightarrow> moment \<Rightarrow> sched_db \<Rightarrow> sched_db" where
  "note_last tid now = update_task tid (\<lambda>t. t\<lparr>tk_last := Some now\<rparr>)"

definition fenced_mid_run :: string where
  "fenced_mid_run = ''Lease generation changed while this attempt was running; another worker took over this occurrence.''"

definition finish_success :: "sched_lib \<Rightarrow> string \<Rightarrow> string \<Rightarrow> moment \<Rightarrow> bool \<Rightarrow> bool \<Rightarrow> string \<Rightarrow> scheduler \<Rightarrow> sched_db
    \<Rightarrow> string option \<times> scheduler \<times> sched_db" where
  "finish_success L tid rid now manual ok result s db =
     (let status = (if ok then ''success'' else ''error''); error = (if ok then [] else result);
          db1 = update_run rid (end_run status result error now) db;
          db2 = move_on L tid now True (update_task tid (\<lambda>t. t\<lparr>tk_last := Some now, tk_runs := tk_runs t + 1\<rparr>) db1);
          (s3, db3) = close_period manual tid status result error (s\<lparr>sc_defers := dpop tid (sc_defers s)\<rparr>) db2
      in (case dget (sd_tasks db3) tid of Some t \<Rightarrow> if ok then chain_target t db3 else None | None \<Rightarrow> None, s3, db3))"

definition finish_deferred :: "string \<Rightarrow> string \<Rightarrow> moment \<Rightarrow> int \<Rightarrow> scheduler \<Rightarrow> sched_db \<Rightarrow> scheduler \<times> sched_db" where
  "finish_deferred tid rid now secs s db =
     (let count = dget_or (sc_defers s) tid 0 + 1; d = (if secs = 0 then 20 * 60 else secs);
          delay = (if 2 < count then max d (40 * 60) else d)
      in (s\<lparr>sc_defers := dset tid count (sc_defers s)\<rparr>,
          postpone_task tid (now + delay * second_us) (db\<lparr>sd_runs := dpop rid (sd_runs db)\<rparr>)))"

text \<open>
  An exception: the run is an error, and the next run is computed without the task's policy. When the
  commit fails (\<open>committed\<close>), the run is aborted and the task put off by five minutes.
\<close>

definition finish_raised :: "sched_lib \<Rightarrow> string \<Rightarrow> string \<Rightarrow> moment \<Rightarrow> bool \<Rightarrow> string \<Rightarrow> bool \<Rightarrow> scheduler \<Rightarrow> sched_db \<Rightarrow> scheduler \<times> sched_db" where
  "finish_raised L tid rid now manual err committed s db =
     (let open_run = run_status rid db \<in> {''running'', ''success''};
          (s1, db1) = (if open_run then close_period manual tid ''error'' err [] s db else (s, db))
      in if committed
         then (s1, update_task tid (\<lambda>t. if scheduled_trigger t
                then t\<lparr>tk_last := Some now, tk_next := compute_next_run L (tk_timing t) now (resolve_task_timezone t) default_dst_policy\<rparr> else t)
              (if open_run then update_run rid (\<lambda>r. r\<lparr>rn_status := ''error'', rn_error := take 2000 err, rn_finished := Some now\<rparr>) db1 else db1))
         else (s1, update_task tid (\<lambda>t. if scheduled_trigger t then t\<lparr>tk_next := Some (now + 5 * minute_us), tk_last := Some now\<rparr> else t)
              (if run_status rid db1 \<in> {''running'', ''queued''}
               then update_run rid (\<lambda>r. r\<lparr>rn_status := ''aborted'', rn_error := take 2000 (''commit_failed: '' @ err), rn_finished := Some now\<rparr>) db1 else db1)))"

definition exec_end :: "sched_lib \<Rightarrow> string \<Rightarrow> string \<Rightarrow> moment \<Rightarrow> bool \<Rightarrow> exec_outcome \<Rightarrow> scheduler \<Rightarrow> sched_db
    \<Rightarrow> string option \<times> scheduler \<times> sched_db" where
  "exec_end L tid rid now manual out s db =
     (case out of
        Finished ok result \<Rightarrow>
          if still_owner_or_fenced tid s db then finish_success L tid rid now manual ok result s db
          else (None, s, update_run rid (\<lambda>r. end_run ''fenced'' result fenced_mid_run now r) db)
      | FencedLater msg \<Rightarrow> (None, s, mark_fenced rid msg now db)
      | DeferredBy secs \<Rightarrow> (None, finish_deferred tid rid now secs s db)
      | Noop msg \<Rightarrow>
          (None, close_period manual tid ''skipped'' msg [] s
             (move_on L tid now False (note_last tid now (update_run rid (\<lambda>r. r\<lparr>rn_status := ''skipped'', rn_result := msg, rn_finished := Some now\<rparr>) db))))
      | CancelledFor msg foreground \<Rightarrow>
          let db1 = note_last tid now (update_run rid (\<lambda>r. end_run ''aborted'' (or_text (rn_result r) msg) msg now r) db)
          in (None, s, if foreground then postpone_task tid (now + 15 * minute_us) db1 else move_on L tid now False db1)
      | Raised err committed \<Rightarrow> (None, finish_raised L tid rid now manual err committed s db))"

text \<open>The \<open>finally\<close> of \<open>_execute_task\<close>.\<close>

definition leave_execution :: "string \<Rightarrow> bool \<Rightarrow> scheduler \<Rightarrow> sched_db \<Rightarrow> scheduler \<times> sched_db" where
  "leave_execution tid release_executing s db =
     (case release_lease tid s db of
        (_, s1, db1) \<Rightarrow> (if release_executing then s1\<lparr>sc_executing := filter (\<lambda>x. x \<noteq> tid) (sc_executing s1)\<rparr> else s1, db1))"

section \<open>Stopping and starting by hand\<close>

definition enter_execution :: "string \<Rightarrow> scheduler \<Rightarrow> bool \<times> scheduler" where
  "enter_execution tid s =
     (if tid \<in> set (sc_executing s) then (False, s) else (True, s\<lparr>sc_executing := sc_executing s @ [tid]\<rparr>))"

definition run_task_now :: "string \<Rightarrow> bool \<Rightarrow> scheduler \<Rightarrow> bool \<times> scheduler" where
  "run_task_now tid force s = (if force then (True, s) else enter_execution tid s)"

definition active_run :: "task_run \<Rightarrow> bool" where
  "active_run r \<longleftrightarrow> rn_status r \<in> {''queued'', ''running''}"

text \<open>The latest active run of a task.\<close>

definition latest_run :: "string \<Rightarrow> sched_db \<Rightarrow> string option" where
  "latest_run tid db =
     (case filter (\<lambda>(rid, r). rn_task r = tid \<and> active_run r) (sd_runs db) of
        [] \<Rightarrow> None
      | p # ps \<Rightarrow> Some (fst (foldl (\<lambda>a b. if rn_started (snd a) < rn_started (snd b) then b else a) p ps)))"

definition abort_run :: "string \<Rightarrow> string \<Rightarrow> moment \<Rightarrow> sched_db \<Rightarrow> bool \<times> sched_db" where
  "abort_run rid msg now db =
     (case dget (sd_runs db) rid of
        None \<Rightarrow> (False, db)
      | Some r \<Rightarrow>
          if active_run r then (True, update_run rid (\<lambda>r. end_run ''aborted'' (or_text (rn_result r) msg) msg now r) db) else (False, db))"

definition mark_run_aborted :: "string \<Rightarrow> string \<Rightarrow> string \<Rightarrow> moment \<Rightarrow> sched_db \<Rightarrow> bool \<times> sched_db" where
  "mark_run_aborted tid rid msg now db =
     (if rid \<noteq> [] then abort_run rid msg now db
      else case latest_run tid db of None \<Rightarrow> (False, db) | Some r \<Rightarrow> abort_run r msg now db)"

definition defer_immediately_due_task :: "string \<Rightarrow> moment \<Rightarrow> int \<Rightarrow> sched_db \<Rightarrow> sched_db" where
  "defer_immediately_due_task tid now delay db =
     (case dget (sd_tasks db) tid of
        None \<Rightarrow> db
      | Some t \<Rightarrow> if is_due now t then postpone_task tid (now + delay) db else db)"

text \<open>\<open>stop_task\<close>; \<open>running\<close>: there was a coroutine to cancel.\<close>

definition stop_task :: "string \<Rightarrow> bool \<Rightarrow> moment \<Rightarrow> scheduler \<Rightarrow> sched_db \<Rightarrow> bool \<times> scheduler \<times> sched_db" where
  "stop_task tid running now s db =
     (let entered = tid \<in> set (sc_executing s);
          (marked, db1) = mark_run_aborted tid [] ''Stopped by user'' now db
      in (marked \<or> running \<or> entered, s\<lparr>sc_executing := filter (\<lambda>x. x \<noteq> tid) (sc_executing s)\<rparr>, db1))"

section \<open>Starting up\<close>

definition clear_stale_runs :: "moment \<Rightarrow> sched_db \<Rightarrow> sched_db" where
  "clear_stale_runs now db =
     db\<lparr>sd_runs := map (\<lambda>(rid, r). (rid, if active_run r
        then r\<lparr>rn_status := ''aborted'', rn_error := ''Server restarted while task was '' @ rn_status r, rn_finished := Some now\<rparr> else r)) (sd_runs db)\<rparr>"

definition misfire_one :: "sched_lib \<Rightarrow> (string \<Rightarrow> string) \<Rightarrow> moment \<Rightarrow> string \<Rightarrow> sched_db \<Rightarrow> sched_db" where
  "misfire_one L new_id now tid db =
     (case dget (sd_tasks db) tid of
        None \<Rightarrow> db
      | Some t \<Rightarrow>
          case tk_next t of
            None \<Rightarrow> db
          | Some due \<Rightarrow>
              if tk_status t \<noteq> ''active'' \<or> now \<le> due then db
              else case parse_misfire_policy (tp_misfire (get_task_policy tid (sd_store db))) of
                     SkipMissed \<Rightarrow> advance_task L tid now False db
                   | CatchUp k \<Rightarrow>
                       (case take k (enumerate_missed_occurrences L tid t due now k (sd_store db)) of
                          [] \<Rightarrow> advance_task L tid now False db
                        | first # rest \<Rightarrow>
                            update_task tid (\<lambda>t. t\<lparr>tk_next := Some first\<rparr>)
                              (if rest = [] then db else on_store (set_catchup_pending tid rest) db))
                   | FireOnce \<Rightarrow>
                       (case sweep_window_reason tid due now (sd_store db) of
                          Some reason \<Rightarrow> record_closed_skip L (new_id tid) tid skipped_window reason due now True db
                        | None \<Rightarrow> postpone_task tid (now + 60 * second_us) db))"

definition start_sweep :: "sched_lib \<Rightarrow> (string \<Rightarrow> string) \<Rightarrow> moment \<Rightarrow> moment \<Rightarrow> moment \<Rightarrow> sched_db \<Rightarrow> sched_db" where
  "start_sweep L new_id cleared reaped now db =
     (let db1 = recover_expired_leases L new_id reaped (clear_stale_runs cleared db)
      in fold (misfire_one L new_id now) (map fst (sd_tasks db1)) db1)"

section \<open>Notifications\<close>

record notice =
  nc_name :: string
  nc_status :: string
  nc_task :: string
  nc_owner :: "string option"
  nc_body :: string
  nc_at :: moment

definition clip_body :: "string \<Rightarrow> string" where
  "clip_body b = (if 500 < length b then take 500 b @ [char_of (128::nat)] else b)"

definition add_notification :: "notice \<Rightarrow> notice list \<Rightarrow> notice list" where
  "add_notification n ns =
     (let all = ns @ [n\<lparr>nc_body := clip_body (nc_body n)\<rparr>] in drop (length all - 50) all)"

definition pop_notifications :: "string option \<Rightarrow> notice list \<Rightarrow> notice list \<times> notice list" where
  "pop_notifications owner ns =
     (case owner of
        None \<Rightarrow> (ns, [])
      | Some o' \<Rightarrow> (filter (\<lambda>n. nc_owner n = Some o') ns, filter (\<lambda>n. nc_owner n \<noteq> Some o') ns))"

end
