(* ===== verification/Scheduler_Theorems.thy ===== *)
theory Scheduler_Theorems
  imports Scheduler
begin

text \<open>
  The scheduler under every interleaving of its processes: no occurrence is run twice under its key, and only the
  process that holds the lease with the latest claim passes the fence. What catching up, postponing and chaining do,
  and how an occurrence is lost or doubled, is in theory \<open>Scheduler_Faults\<close>.
\<close>

section \<open>What every step keeps\<close>

definition fired_keys :: "sched_db \<Rightarrow> string set" where
  "fired_keys db = {k. dget (st_fired (sd_store db)) k \<noteq> None}"

text \<open>Fire keys are never forgotten, and generations never fall.\<close>

definition known :: "string \<Rightarrow> sched_db \<Rightarrow> bool" where
  "known tid db \<longleftrightarrow> dget (sd_tasks db) tid \<noteq> None"

definition grows :: "sched_db \<Rightarrow> sched_db \<Rightarrow> bool" where
  "grows db db' \<longleftrightarrow> fired_keys db \<subseteq> fired_keys db' \<and>
     (\<forall>tid. generation_of tid db \<le> generation_of tid db' \<and> known tid db' = known tid db)"

named_theorems grow

lemma grows_refl [grow]: "grows db db"
  by (simp add: grows_def)

lemma grows_trans: "grows db1 db2 \<Longrightarrow> grows db2 db3 \<Longrightarrow> grows db1 db3"
  unfolding grows_def using le_trans by blast

lemma generation_update: "(\<And>t. tk_generation t \<le> tk_generation (f t)) \<Longrightarrow> generation_of tid db \<le> generation_of tid (update_task i f db)"
  by (auto simp: generation_of_def update_task_def split: option.splits)

lemma grows_update [grow]: "(\<And>t. tk_generation t \<le> tk_generation (f t)) \<Longrightarrow> grows db (update_task tid f db)"
  using generation_update by (auto simp: grows_def fired_keys_def update_task_def known_def split: option.splits)

lemma grows_run [grow]: "grows db (add_run rid r db)" "grows db (update_run rid f db)" "grows db (db\<lparr>sd_runs := rs\<rparr>)"
  by (auto simp: grows_def fired_keys_def generation_of_def known_def add_run_def update_run_def split: option.splits)

lemma grows_store [grow]: "(\<And>k. dget (st_fired (sd_store db)) k \<noteq> None \<Longrightarrow> dget (st_fired s) k \<noteq> None) \<Longrightarrow> grows db (db\<lparr>sd_store := s\<rparr>)"
  by (auto simp: grows_def fired_keys_def generation_of_def known_def)

lemma fired_policy [simp]: "st_fired (update_policy tid f s) = st_fired s"
  by (simp add: update_policy_def)

lemma fired_pending [simp]:
  "st_fired (set_run_all_pending tid w s) = st_fired s" "st_fired (set_catchup_pending tid ws s) = st_fired s"
  "st_fired (queue_run_all_followup L tid n name s) = st_fired s" "st_fired (snd (pop_catchup_pending tid s)) = st_fired s"
  "st_fired (postpone_due tid a b s) = st_fired s" "st_fired (snd (consume_period tid v c s)) = st_fired s"
  by (auto simp: set_run_all_pending_def set_catchup_pending_def queue_run_all_followup_def pop_catchup_pending_def postpone_due_def
      consume_period_def Let_def split: option.splits list.splits)

lemma fired_next [simp]: "st_fired (snd (next_moment_after L tid t after s)) = st_fired s"
proof -
  obtain w s1 where pop: "pop_catchup_pending tid s = (w, s1)" by (cases "pop_catchup_pending tid s")
  then have "st_fired s1 = st_fired s" by (metis fired_pending(4) snd_conv)
  then show ?thesis by (auto simp: next_moment_after_def pop Let_def split: option.splits)
qed

lemma claimed_fired: "dget (st_fired s) k \<noteq> None \<Longrightarrow> dget (st_fired (snd (claim_fire_key_literal key w s))) k \<noteq> None"
  by (rule fire_log.kept)

lemma grows_advance [grow]: "grows db (advance_task L tid now c db)"
proof (cases "dget (sd_tasks db) tid")
  case (Some t)
  obtain n s1 where n: "next_moment_after L tid t now (sd_store db) = (n, s1)" by fastforce
  have "st_fired s1 = st_fired (sd_store db)" using fired_next [of L tid t now "sd_store db"] by (simp add: n)
  then have "grows db (db\<lparr>sd_store := s1\<rparr>)" by (intro grow) simp
  moreover have "advance_task L tid now c db = update_task tid (\<lambda>t. t\<lparr>tk_next := n,
      tk_status := (if n = None \<and> tt_schedule (tk_timing t) = ''once'' \<and> c then ''completed'' else tk_status t)\<rparr>) (db\<lparr>sd_store := s1\<rparr>)"
    by (simp add: advance_task_def Some n)
  ultimately show ?thesis by (simp only:) (erule grows_trans, rule grow, simp)
qed (simp add: advance_task_def grow)

lemma grows_then_update: "grows db db1 \<Longrightarrow> (\<And>t. tk_generation t \<le> tk_generation (f t)) \<Longrightarrow> grows db (update_task tid f db1)"
  using grows_trans grows_update by blast

lemma grows_then_run: "grows db db1 \<Longrightarrow> grows db (add_run rid r db1)" "grows db db1 \<Longrightarrow> grows db (update_run rid g db1)"
  using grows_trans grows_run by blast+

lemma grows_fold: "(\<And>x db. grows db (f x db)) \<Longrightarrow> grows db (fold f xs db)"
proof (induction xs arbitrary: db)
  case (Cons x xs)
  then show ?case using grows_trans [of db "f x db"] by simp
qed (simp add: grow)

lemma grows_on_store: "(\<And>s. st_fired (f s) = st_fired s) \<Longrightarrow> grows db (on_store f db)"
  unfolding on_store_def by (rule grow) simp

lemma grows_skip [grow]: "grows db (record_closed_skip L rid tid status reason due now c db)"
proof -
  obtain first s1 where f: "claim_fire_key_literal (skip_key status tid due) (Some due) (sd_store db) = (first, s1)" by fastforce
  define db2 where "db2 = (if first then add_run rid (closed_run tid status reason now) (db\<lparr>sd_store := s1\<rparr>) else db\<lparr>sd_store := s1\<rparr>)"
  have "grows db (db\<lparr>sd_store := s1\<rparr>)" using claimed_fired [of "sd_store db" _ "skip_key status tid due" "Some due"] by (intro grow) (simp add: f)
  then have "grows db db2" using grows_then_run(1) by (simp add: db2_def)
  moreover have "record_closed_skip L rid tid status reason due now c db
      = (case dget (sd_tasks db2) tid of None \<Rightarrow> db2 | Some t \<Rightarrow> if scheduled_trigger t then advance_task L tid now c db2 else db2)"
    unfolding record_closed_skip_def f prod.case Let_def db2_def ..
  ultimately show ?thesis using grows_trans [OF _ grows_advance] by (simp split: option.split)
qed

lemma grows_postpone [grow]: "grows db (postpone_task tid new db)"
  unfolding postpone_task_def note_postponed_def by (auto split: option.split intro!: grows_then_update grows_on_store grow)

lemma grows_claim_update [grow]: "grows db (snd (claim_update tid due now s db))"
  by (auto simp: claim_update_def claimed_task_def split: option.split intro!: grow)

lemma claim_db: "snd (snd (claim_due_task tid due now s db)) = snd (claim_update tid due now s db)"
  by (simp add: claim_due_task_def split: prod.split bool.split)

lemma grows_claim [grow]: "grows db (snd (snd (claim_due_task tid due now s db)))"
  unfolding claim_db by (rule grows_claim_update)

lemma grows_release [grow]: "grows db (snd (snd (release_lease tid s db)))"
  by (auto simp: release_lease_def Let_def unleased_def intro!: grow)

lemma grows_gate [grow]: "grows db (snd (snd (guard_gate L rid tid due now s db)))"
  by (auto simp: guard_gate_def Let_def split: option.split sum.split intro!: grow)

lemma grows_close [grow]: "grows db (snd (close_period manual tid status result error s db))"
  by (auto simp: close_period_def split: option.split prod.split intro!: grow grows_on_store)

lemma grows_recover [grow]: "grows db (recover_lease L new_id now tid db)"
proof (cases "dget (sd_tasks db) tid")
  case (Some t)
  obtain n s1 where n: "next_moment_after L tid t now (sd_store db) = (n, s1)" by fastforce
  have "st_fired s1 = st_fired (sd_store db)" using fired_next [of L tid t now "sd_store db"] by (simp add: n)
  then have "grows db (db\<lparr>sd_store := s1\<rparr>)" by (intro grow) simp
  then show ?thesis by (auto simp: recover_lease_def Some n Let_def unleased_def intro!: grow grows_then_run grows_then_update)
qed (simp add: recover_lease_def grow)

lemma grows_recover_all [grow]: "grows db (recover_expired_leases L new_id now db)"
  unfolding recover_expired_leases_def by (intro grows_fold grow)

lemma grows_paused_one: "grows db (paused_skip L new_id now tid db)"
  by (auto simp: paused_skip_def split: option.split intro!: grow)

lemma grows_paused [grow]: "grows db (record_paused_skips L new_id now db)"
  unfolding record_paused_skips_def by (intro grows_fold grows_paused_one)

lemma grows_misfire [grow]: "grows db (misfire_one L new_id now tid db)"
  by (auto simp: misfire_one_def split: option.split misfire_kind.split list.split intro!: grow grows_then_update grows_on_store)

lemma grows_sweep [grow]: "grows db (start_sweep L new_id cleared reaped now db)"
proof -
  have "grows db (recover_expired_leases L new_id reaped (clear_stale_runs cleared db))"
    by (rule grows_trans [OF _ grows_recover_all]) (simp add: clear_stale_runs_def grow)
  then show ?thesis unfolding start_sweep_def Let_def by (rule grows_trans) (intro grows_fold grow)
qed

lemma grows_dispatch: "grows (snd (snd state)) (snd (snd (dispatch_one L new_id now c state)))"
proof -
  obtain tid due where c: "c = (tid, due)" by (cases c)
  obtain out s db where state: "state = (out, s, db)" by (cases state)
  obtain b s1 db1 where claim: "claim_due_task tid due now s db = (b, s1, db1)" by (metis surj_pair)
  have g1: "grows db db1" using grows_claim [of db tid due now s] by (simp add: claim)
  define gate where "gate = (case due of Some d \<Rightarrow> guard_gate L (new_id tid) tid d now s1 db1 | None \<Rightarrow> (True, s1, db1))"
  have g2: "grows db1 (snd (snd gate))" by (auto simp: gate_def split: option.split intro!: grow)
  obtain a s2 db2 where gate2: "gate = (a, s2, db2)" by (metis surj_pair)
  then have g3: "grows db db2" using grows_trans [OF g1 g2] by simp
  have "dispatch_one L new_id now c state = (if tid \<in> set (sc_executing s) then (out, s, db) else if \<not> b then (out, s1, db1)
      else if a then (out @ [tid], s2\<lparr>sc_executing := sc_executing s2 @ [tid]\<rparr>, db2) else (out, snd (release_lease tid s2 db2)))"
    unfolding dispatch_one_def c state claim prod.case gate_def [symmetric] gate2 by (cases b; cases a; simp)
  then show ?thesis using g1 g3 grows_trans [OF g3 grows_release [of db2 tid s2]] by (simp add: state grow)
qed

lemma grows_dispatch_all: "grows (snd (snd state)) (snd (snd (fold (dispatch_one L new_id now) cs state)))"
proof (induction cs arbitrary: state)
  case (Cons c cs)
  show ?case unfolding fold_simps comp_apply by (rule grows_trans [OF grows_dispatch Cons.IH])
qed (simp add: grow)

lemma grows_check: "grows db (snd (snd (check_due_tasks L new_id now reaped busy s db)))"
proof -
  define db1 where "db1 = record_paused_skips L new_id now (recover_expired_leases L new_id reaped db)"
  have g: "grows db db1" unfolding db1_def by (rule grows_trans [OF grows_recover_all grows_paused])
  show ?thesis
  proof (cases busy)
    case None
    have "grows db1 (snd (snd (fold (dispatch_one L new_id now) (due_tasks now s db1) ([], s, db1))))"
      using grows_dispatch_all [of "([], s, db1)"] by simp
    with g show ?thesis by (simp add: check_due_tasks_def db1_def [symmetric] Let_def None grows_trans [OF g])
  next
    case (Some until)
    have "grows db1 (fold (\<lambda>c. postpone_task (fst c) until) (due_tasks now s db1) db1)" by (intro grows_fold grow)
    with g show ?thesis by (simp add: check_due_tasks_def db1_def [symmetric] Let_def Some grows_trans [OF g])
  qed
qed

section \<open>The execution\<close>

lemma grows_exec_check [grow]: "grows db (snd (exec_check tid rid now blocked db))"
  by (auto simp: exec_check_def split: option.split intro!: grow grows_then_update)

lemma grows_move_on [grow]: "grows db (move_on L tid now c db)"
  by (auto simp: move_on_def split: option.split intro!: grow)

lemma grows_start_run: "grows db (start_run tid rid now db)"
  by (auto simp: start_run_def intro!: grow)

lemma grows_note [grow]: "grows db (note_last tid now db)"
  by (auto simp: note_last_def intro!: grow)

lemma grows_success [grow]: "grows db (snd (snd (finish_success L tid rid now manual ok r s db)))"
proof -
  define st er where "st = (if ok then ''success'' else ''error'')" and "er = (if ok then [] else r)"
  define s' where "s' = s\<lparr>sc_defers := dpop tid (sc_defers s)\<rparr>"
  define db1 where "db1 = update_task tid (\<lambda>t. t\<lparr>tk_last := Some now, tk_runs := tk_runs t + 1\<rparr>) (update_run rid (end_run st r er now) db)"
  define db2 where "db2 = move_on L tid now True db1"
  obtain s3 db3 where c: "close_period manual tid st r er s' db2 = (s3, db3)" by fastforce
  have "grows db db1" unfolding db1_def by (intro grows_then_update grow) simp
  then have "grows db db2" unfolding db2_def by (rule grows_trans [OF _ grows_move_on])
  moreover have "grows db2 db3" using grows_close [of db2 manual tid st r er s'] by (simp add: c)
  moreover have "snd (snd (finish_success L tid rid now manual ok r s db)) = db3"
    unfolding finish_success_def Let_def st_def [symmetric] er_def [symmetric] db1_def [symmetric] db2_def [symmetric]
      s'_def [symmetric] c prod.case snd_conv ..
  ultimately show ?thesis using grows_trans by metis
qed

lemma grows_deferred [grow]: "grows db (snd (finish_deferred tid rid now secs s db))"
proof -
  have "grows db (postpone_task tid n (db\<lparr>sd_runs := rs\<rparr>))" for n rs
    using grows_trans [OF grows_run(3) grows_postpone] .
  then show ?thesis by (simp add: finish_deferred_def Let_def)
qed

lemma grows_raised [grow]: "grows db (snd (finish_raised L tid rid now manual err committed s db))"
proof -
  define op where "op = (run_status rid db \<in> {''running'', ''success''})"
  obtain s1 db1 where c: "(if op then close_period manual tid ''error'' err [] s db else (s, db)) = (s1, db1)" by fastforce
  have g: "grows db db1"
    using grows_close [of db manual tid "''error''" err "[]" s] c by (auto split: if_splits intro: grow)
  then have g2: "grows db (if b then update_run rid f db1 else db1)" for b f using grows_then_run(2) by simp
  show ?thesis unfolding finish_raised_def Let_def op_def [symmetric] c prod.case
    by (cases committed) (simp_all only: if_True if_False snd_conv, (rule grows_then_update [OF g2], simp)+)
qed

lemma grows_exec_end: "grows db (snd (snd (exec_end L tid rid now manual out s db)))"
proof (cases out)
  case (Noop msg)
  have "grows db (move_on L tid now False (note_last tid now (update_run rid f db)))" for f
    using grows_trans [OF grows_run(2)] grows_trans [OF grows_note grows_move_on] by blast
  then show ?thesis by (simp add: exec_end_def Noop grows_trans [OF _ grows_close])
next
  case (CancelledFor msg fg)
  have "grows db (note_last tid now (update_run rid f db))" for f using grows_trans [OF grows_run(2) grows_note] .
  then show ?thesis by (simp add: exec_end_def CancelledFor Let_def grows_trans [OF _ grows_postpone] grows_trans [OF _ grows_move_on])
qed (auto simp: exec_end_def mark_fenced_def grow)

section \<open>What a process keeps\<close>

text \<open>What a process keeps of a task after a step is what it kept before, nothing, or a generation the row had reached.\<close>

definition claims_ok :: "scheduler \<Rightarrow> sched_db \<Rightarrow> scheduler \<Rightarrow> sched_db \<Rightarrow> bool" where
  "claims_ok s db s' db' \<longleftrightarrow> sc_id s' = sc_id s \<and> grows db db' \<and>
     (\<forall>tid g. dget (sc_generations s') tid = Some g \<longrightarrow> dget (sc_generations s) tid = Some g
        \<or> g \<le> generation_of tid db')"

lemma claims_kept: "grows db db' \<Longrightarrow> sc_id s' = sc_id s \<Longrightarrow> sc_generations s' = sc_generations s \<Longrightarrow> claims_ok s db s' db'"
  by (simp add: claims_ok_def)

lemma claims_popped: "grows db db' \<Longrightarrow> sc_id s' = sc_id s \<Longrightarrow> sc_generations s' = dpop tid (sc_generations s) \<Longrightarrow> claims_ok s db s' db'"
  by (simp add: claims_ok_def)

lemma claims_grows: "claims_ok s db s' db' \<Longrightarrow> grows db db'"
  by (simp add: claims_ok_def)

lemma claims_trans:
  assumes "claims_ok s db s1 db1" and "claims_ok s1 db1 s2 db2"
  shows "claims_ok s db s2 db2"
proof -
  have g: "grows db db1" "grows db1 db2" using assms claims_grows by blast+
  have "dget (sc_generations s) tid = Some n \<or> n \<le> generation_of tid db2" if "dget (sc_generations s2) tid = Some n" for tid n
    using assms that le_trans [of n "generation_of tid db1" "generation_of tid db2"] g(2)
    unfolding claims_ok_def grows_def by blast
  then show ?thesis using assms grows_trans [OF g] by (simp add: claims_ok_def)
qed

lemma claims_read: "claims_ok s db (claim_read tid s db) db"
  by (simp add: claims_ok_def claim_read_def grow)

lemma claims_claim: "claim_due_task tid due now s db = (b, s1, db1) \<Longrightarrow> claims_ok s db s1 db1"
proof -
  assume c: "claim_due_task tid due now s db = (b, s1, db1)"
  have "grows db db1" using grows_claim [of db tid due now s] by (simp add: c)
  then have "claims_ok s db s db1" by (rule claims_kept) simp_all
  moreover have "s1 = s \<or> s1 = claim_read tid s db1" using c by (auto simp: claim_due_task_def split: prod.splits bool.splits)
  ultimately show ?thesis using claims_trans [OF _ claims_read] by blast
qed

lemma claims_release: "release_lease tid s db = (b, s1, db1) \<Longrightarrow> claims_ok s db s1 db1"
  using grows_release [of db tid s] by (intro claims_popped) (auto simp: release_lease_def Let_def)

lemma gate_keeps: "sc_generations (fst (snd (guard_gate L rid tid d now s db))) = sc_generations s \<and> sc_id (fst (snd (guard_gate L rid tid d now s db))) = sc_id s"
  by (auto simp: guard_gate_def Let_def split: option.split sum.split)

lemma claims_gate: "guard_gate L rid tid d now s db = (b, s1, db1) \<Longrightarrow> claims_ok s db s1 db1"
  using grows_gate [of db L rid tid d now s] gate_keeps [of L rid tid d now s db] by (intro claims_kept) simp_all

lemma claims_entered: "claims_ok s db s1 db1 \<Longrightarrow> claims_ok s db (s1\<lparr>sc_executing := e\<rparr>) db1"
  by (simp add: claims_ok_def)

lemma claims_dispatch:
  assumes "dispatch_one L new_id now c (out, s, db) = (out', s', db')"
  shows "claims_ok s db s' db'"
proof -
  obtain tid due where c: "c = (tid, due)" by (cases c)
  obtain b s1 db1 where claim: "claim_due_task tid due now s db = (b, s1, db1)" by (metis surj_pair)
  define gate where "gate = (case due of Some d \<Rightarrow> guard_gate L (new_id tid) tid d now s1 db1 | None \<Rightarrow> (True, s1, db1))"
  obtain a s2 db2 where gate2: "gate = (a, s2, db2)" by (metis surj_pair)
  obtain r s3 db3 where rel: "release_lease tid s2 db2 = (r, s3, db3)" by (metis surj_pair)
  have g1: "claims_ok s db s1 db1" using claims_claim [OF claim] .
  have "claims_ok s1 db1 s2 db2"
    using gate2 claims_gate unfolding gate_def by (cases due) (auto intro: claims_kept grows_refl)
  then have g2: "claims_ok s db s2 db2" using claims_trans [OF g1] by simp
  have g3: "claims_ok s db s3 db3" using claims_trans [OF g2 claims_release [OF rel]] .
  have "dispatch_one L new_id now c (out, s, db) = (if tid \<in> set (sc_executing s) then (out, s, db) else if \<not> b then (out, s1, db1)
      else if a then (out @ [tid], s2\<lparr>sc_executing := sc_executing s2 @ [tid]\<rparr>, db2) else (out, s3, db3))"
    unfolding dispatch_one_def c claim prod.case gate_def [symmetric] gate2 by (cases b; cases a; simp add: rel)
  with assms g1 g3 claims_entered [OF g2] show ?thesis by (auto split: if_splits intro: claims_kept grows_refl)
qed

lemma claims_dispatch_all: "fold (dispatch_one L new_id now) cs (out, s, db) = (out', s', db') \<Longrightarrow> claims_ok s db s' db'"
proof (induction cs arbitrary: out s db)
  case (Cons c cs)
  obtain out1 s1 db1 where d: "dispatch_one L new_id now c (out, s, db) = (out1, s1, db1)" by (metis surj_pair)
  with Cons show ?case using claims_trans [OF claims_dispatch [OF d]] by simp
qed (auto intro: claims_kept grows_refl)

lemma claims_check: "check_due_tasks L new_id now reaped busy s db = (out, s', db') \<Longrightarrow> claims_ok s db s' db'"
proof -
  assume c: "check_due_tasks L new_id now reaped busy s db = (out, s', db')"
  define db1 where "db1 = record_paused_skips L new_id now (recover_expired_leases L new_id reaped db)"
  have k: "claims_ok s db s db1" unfolding db1_def by (intro claims_kept grows_trans [OF grows_recover_all grows_paused]) simp_all
  show ?thesis
  proof (cases busy)
    case None
    then have "fold (dispatch_one L new_id now) (due_tasks now s db1) ([], s, db1) = (out, s', db')"
      using c by (simp add: check_due_tasks_def db1_def [symmetric] Let_def)
    then show ?thesis using claims_trans [OF k claims_dispatch_all] by blast
  next
    case (Some until)
    then have "s' = s" using c by (simp add: check_due_tasks_def Let_def)
    then show ?thesis using grows_check [of db L new_id now reaped busy s] c by (intro claims_kept) simp_all
  qed
qed

lemma close_keeps:
  "sc_generations (fst (close_period manual tid st r e s db)) = sc_generations s \<and> sc_id (fst (close_period manual tid st r e s db)) = sc_id s"
  by (auto simp: close_period_def split: option.split)

lemma raised_keeps: "sc_generations (fst (finish_raised L tid rid now manual err committed s db)) = sc_generations s
    \<and> sc_id (fst (finish_raised L tid rid now manual err committed s db)) = sc_id s"
proof -
  define op where "op = (run_status rid db \<in> {''running'', ''success''})"
  obtain s1 db1 where c: "(if op then close_period manual tid ''error'' err [] s db else (s, db)) = (s1, db1)" by fastforce
  then have "sc_generations s1 = sc_generations s \<and> sc_id s1 = sc_id s"
    using close_keeps [of manual tid "''error''" err "[]" s db] by (auto split: if_splits)
  then show ?thesis unfolding finish_raised_def Let_def op_def [symmetric] c prod.case by (cases committed) simp_all
qed

lemma success_keeps: "sc_generations (fst (snd (finish_success L tid rid now manual ok r s db))) = sc_generations s
    \<and> sc_id (fst (snd (finish_success L tid rid now manual ok r s db))) = sc_id s"
proof -
  define st er where "st = (if ok then ''success'' else ''error'')" and "er = (if ok then [] else r)"
  define s' where "s' = s\<lparr>sc_defers := dpop tid (sc_defers s)\<rparr>"
  define db2 where "db2 = move_on L tid now True (update_task tid (\<lambda>t. t\<lparr>tk_last := Some now, tk_runs := tk_runs t + 1\<rparr>) (update_run rid (end_run st r er now) db))"
  obtain s3 db3 where c: "close_period manual tid st r er s' db2 = (s3, db3)" by fastforce
  have "fst (snd (finish_success L tid rid now manual ok r s db)) = s3"
    unfolding finish_success_def Let_def st_def [symmetric] er_def [symmetric] db2_def [symmetric] s'_def [symmetric] c prod.case fst_conv snd_conv ..
  moreover have "sc_generations s3 = sc_generations s' \<and> sc_id s3 = sc_id s'" using close_keeps [of manual tid st r er s' db2] by (simp add: c)
  ultimately show ?thesis by (simp add: s'_def)
qed

lemma claims_exec_end: "exec_end L tid rid now manual out s db = (n, s', db') \<Longrightarrow> claims_ok s db s' db'"
proof -
  assume e: "exec_end L tid rid now manual out s db = (n, s', db')"
  have "sc_generations (fst (snd (exec_end L tid rid now manual out s db))) = sc_generations s \<and> sc_id (fst (snd (exec_end L tid rid now manual out s db))) = sc_id s"
    by (cases out) (simp_all add: exec_end_def success_keeps raised_keeps close_keeps finish_deferred_def Let_def)
  then show ?thesis using grows_exec_end [of db L tid rid now manual out s] e by (intro claims_kept) simp_all
qed

lemma claims_leave: "leave_execution tid r s db = (s', db') \<Longrightarrow> claims_ok s db s' db'"
proof -
  assume l: "leave_execution tid r s db = (s', db')"
  obtain b s1 db1 where rel: "release_lease tid s db = (b, s1, db1)" by (metis surj_pair)
  show ?thesis using l claims_release [OF rel] claims_entered [OF claims_release [OF rel]]
    by (auto simp: leave_execution_def rel split: if_splits)
qed

lemma grows_heartbeat: "grows db (snd (heartbeat_lease tid now s db))"
  by (auto simp: heartbeat_lease_def Let_def intro!: grow)

lemma grows_abort: "grows db (snd (mark_run_aborted tid rid msg now db))"
  by (auto simp: mark_run_aborted_def abort_run_def split: option.split intro!: grow)

lemma grows_stop: "grows db (snd (snd (stop_task tid running now s db)))"
  using grows_abort [of db tid "[]" "''Stopped by user''" now] by (simp add: stop_task_def Let_def split_beta)

lemma claims_stop: "stop_task tid running now s db = (b, s', db') \<Longrightarrow> claims_ok s db s' db'"
  using grows_stop [of db tid running now s] by (intro claims_kept) (auto simp: stop_task_def Let_def split_beta)

lemma claims_run_now: "run_task_now tid force s = (b, s') \<Longrightarrow> grows db db' \<Longrightarrow> claims_ok s db s' db'"
  by (intro claims_kept) (auto simp: run_task_now_def enter_execution_def split: if_splits)
section \<open>Every interleaving\<close>

text \<open>
  An edit from outside (a route, a migration) may change, add and delete tasks, runs and the store, but not the fire log, nor the
  generation of a row; a new task has a new id.
\<close>

definition outside_edit :: "(string \<Rightarrow> scheduler) \<Rightarrow> sched_db \<Rightarrow> sched_db \<Rightarrow> bool" where
  "outside_edit ws db db' \<longleftrightarrow> fired_keys db \<subseteq> fired_keys db' \<and>
     (\<forall>tid. known tid db' \<longrightarrow> (known tid db \<and> generation_of tid db' = generation_of tid db)
        \<or> (\<forall>w. dget (sc_generations (ws w)) tid = None))"

text \<open>
  The processes \<open>ws\<close>, by worker id, share the database; \<open>ks\<close> are the fire keys of the effects started, the last first. Of
  the steps that start no effect only the state they leave matters. A tick, a claim and an attempt are several transactions
  each; they are steps as a whole, and so is each of their transactions, with any other step between two of them: the
  \<open>UPDATE\<close> of a claim, its later read of the generation, a guard, a release, a recovery, a postponement, and the insertion
  of the fire key of an attempt that read the key and passed its fence before.
\<close>

inductive sched_reach :: "sched_lib \<Rightarrow> (string \<Rightarrow> scheduler) \<Rightarrow> sched_db \<Rightarrow> string list \<Rightarrow> bool" for L where
  reach_start: "(\<And>w. sc_id (ws w) = w \<and> sc_generations (ws w) = []) \<Longrightarrow> sched_reach L ws db []"
| reach_tick: "sched_reach L ws db ks \<Longrightarrow> check_due_tasks L new_id now reaped busy (ws w) db = (out, s', db') \<Longrightarrow> sched_reach L (ws(w := s')) db' ks"
| reach_check: "sched_reach L ws db ks \<Longrightarrow> exec_check tid rid now blocked db = (b, db') \<Longrightarrow> sched_reach L ws db' ks"
| reach_effect: "sched_reach L ws db ks \<Longrightarrow> exec_begin tid rid now (ws w) db = (GoAhead (Some k), db') \<Longrightarrow> sched_reach L ws db' (k # ks)"
| reach_no_effect: "sched_reach L ws db ks \<Longrightarrow> exec_begin tid rid now (ws w) db = (a, db') \<Longrightarrow> (\<And>k. a \<noteq> GoAhead (Some k)) \<Longrightarrow> sched_reach L ws db' ks"
| reach_end: "sched_reach L ws db ks \<Longrightarrow> exec_end L tid rid now manual outcome (ws w) db = (n, s', db') \<Longrightarrow> sched_reach L (ws(w := s')) db' ks"
| reach_leave: "sched_reach L ws db ks \<Longrightarrow> leave_execution tid b (ws w) db = (s', db') \<Longrightarrow> sched_reach L (ws(w := s')) db' ks"
| reach_enter: "sched_reach L ws db ks \<Longrightarrow> run_task_now tid force (ws w) = (b, s') \<Longrightarrow> sched_reach L (ws(w := s')) (add_run rid (queued_run tid now) db) ks"
| reach_heartbeat: "sched_reach L ws db ks \<Longrightarrow> heartbeat_lease tid now (ws w) db = (b, db') \<Longrightarrow> sched_reach L ws db' ks"
| reach_stop: "sched_reach L ws db ks \<Longrightarrow> stop_task tid running now (ws w) db = (b, s', db') \<Longrightarrow> sched_reach L (ws(w := s')) db' ks"
| reach_sweep: "sched_reach L ws db ks \<Longrightarrow> sched_reach L ws (start_sweep L new_id cleared reaped now db) ks"
| reach_edit: "sched_reach L ws db ks \<Longrightarrow> outside_edit ws db db' \<Longrightarrow> sched_reach L ws db' ks"
| reach_claim: "sched_reach L ws db ks \<Longrightarrow> claim_update tid due now (ws w) db = (b, db') \<Longrightarrow> sched_reach L ws db' ks"
| reach_read: "sched_reach L ws db ks \<Longrightarrow> sched_reach L (ws(w := claim_read tid (ws w) db)) db ks"
| reach_gate: "sched_reach L ws db ks \<Longrightarrow> guard_gate L rid tid due now (ws w) db = (b, s', db') \<Longrightarrow> sched_reach L (ws(w := s')) db' ks"
| reach_release: "sched_reach L ws db ks \<Longrightarrow> release_lease tid (ws w) db = (b, s', db') \<Longrightarrow> sched_reach L (ws(w := s')) db' ks"
| reach_executing: "sched_reach L ws db ks \<Longrightarrow> sched_reach L (ws(w := (ws w)\<lparr>sc_executing := tids\<rparr>)) db ks"
| reach_recover: "sched_reach L ws db ks \<Longrightarrow> sched_reach L ws (recover_lease L new_id now tid db) ks"
| reach_paused: "sched_reach L ws db ks \<Longrightarrow> sched_reach L ws (paused_skip L new_id now tid db) ks"
| reach_postpone: "sched_reach L ws db ks \<Longrightarrow> sched_reach L ws (postpone_task tid until db) ks"
| reach_fire: "sched_reach L ws db ks \<Longrightarrow> claim_fire_key_literal k None (sd_store db) = (True, s1) \<Longrightarrow> sched_reach L ws (db\<lparr>sd_store := s1\<rparr>) (k # ks)"

lemma begin_store: "fired_keys (start_run tid rid now db) = fired_keys db" "sd_store (start_run tid rid now db) = sd_store db"
  by (auto simp: start_run_def add_run_def update_run_def fired_keys_def split: option.split)

lemma begin_effect:
  assumes "exec_begin tid rid now s db = (GoAhead (Some k), db')"
  shows "k \<notin> fired_keys db \<and> fired_keys db' = insert k (fired_keys db)"
proof -
  define db1 where "db1 = start_run tid rid now db"
  obtain f s1 where claim: "claim_fire_key_literal k None (sd_store db1) = (f, s1)" by fastforce
  have "db' = db1\<lparr>sd_store := s1\<rparr> \<and> f"
    using assms claim by (auto simp: exec_begin_def Let_def db1_def [symmetric] split: if_splits option.splits prod.splits bool.splits)
  moreover have "dget (st_fired (sd_store db)) k = None" "dget (st_fired s1) j \<noteq> None \<longleftrightarrow> j = k \<or> dget (st_fired (sd_store db)) j \<noteq> None" for j
    using fire_log.grants [where due = None and k = k and s = "sd_store db1"] fire_log.marks [where due = None and j = j and k = k and s = "sd_store db1"] calculation claim
    by (simp_all add: db1_def begin_store(2))
  ultimately show ?thesis by (auto simp: fired_keys_def)
qed

lemma fire_effect:
  assumes "claim_fire_key_literal k None (sd_store db) = (True, s1)"
  shows "k \<notin> fired_keys db \<and> fired_keys (db\<lparr>sd_store := s1\<rparr>) = insert k (fired_keys db)"
  using fire_log.grants [where due = None and k = k and s = "sd_store db"] assms
    fire_log.marks [where due = None and k = k and s = "sd_store db"]
  by (auto simp: fired_keys_def)

lemma grows_begin: "grows db (snd (exec_begin tid rid now s db))"
proof -
  define db1 where "db1 = start_run tid rid now db"
  have g: "grows db db1" unfolding db1_def by (rule grows_start_run)
  have f: "grows db (mark_fenced rid m now x)" if "grows db x" for m x using that by (simp add: mark_fenced_def grows_then_run)
  have c: "grows db (db1\<lparr>sd_store := s1\<rparr>)" if "claim_fire_key_literal k None (sd_store db1) = (b, s1)" for k b s1
    using claimed_fired [of "sd_store db1" _ k None] that by (intro grows_trans [OF g] grow) simp
  show ?thesis
    by (auto simp: exec_begin_def Let_def db1_def [symmetric] g f c split: option.split prod.split bool.split)
qed

lemma effects_fired: "sched_reach L ws db ks \<Longrightarrow> distinct ks \<and> set ks \<subseteq> fired_keys db"
proof (induction rule: sched_reach.induct)
  case (reach_effect ws db ks tid rid now w k db')
  then show ?case using begin_effect [OF reach_effect.hyps(2)] by auto
next
  case (reach_tick ws db ks new_id now reaped busy w out s' db')
  then show ?case using claims_grows [OF claims_check [OF reach_tick.hyps(2)]] by (auto simp: grows_def)
next
  case (reach_check ws db ks tid rid now blocked b db')
  then show ?case using grows_exec_check [of db tid rid now blocked] by (auto simp: grows_def)
next
  case (reach_no_effect ws db ks tid rid now w a db')
  then show ?case using grows_begin [of db tid rid now "ws w"] by (auto simp: grows_def)
next
  case (reach_end ws db ks tid rid now manual outcome w n s' db')
  then show ?case using claims_grows [OF claims_exec_end [OF reach_end.hyps(2)]] by (auto simp: grows_def)
next
  case (reach_leave ws db ks tid b w s' db')
  then show ?case using claims_grows [OF claims_leave [OF reach_leave.hyps(2)]] by (auto simp: grows_def)
next
  case (reach_heartbeat ws db ks tid now w b db')
  then show ?case using grows_heartbeat [of db tid now "ws w"] by (auto simp: grows_def)
next
  case (reach_stop ws db ks tid running now w b s' db')
  then show ?case using grows_stop [of db tid running now "ws w"] by (auto simp: grows_def)
next
  case (reach_sweep ws db ks new_id cleared reaped now)
  then show ?case using grows_sweep [of db L new_id cleared reaped now] by (auto simp: grows_def)
next
  case (reach_claim ws db ks tid due now w b db')
  then show ?case using grows_claim_update [of db tid due now "ws w"] by (auto simp: grows_def)
next
  case (reach_gate ws db ks rid tid due now w b s' db')
  then show ?case using grows_gate [of db L rid tid due now "ws w"] by (auto simp: grows_def)
next
  case (reach_release ws db ks tid w b s' db')
  then show ?case using grows_release [of db tid "ws w"] by (auto simp: grows_def)
next
  case (reach_recover ws db ks new_id now tid)
  then show ?case using grows_recover [of db L new_id now tid] by (auto simp: grows_def)
next
  case (reach_paused ws db ks new_id now tid)
  then show ?case using grows_paused_one [of db L new_id now tid] by (auto simp: grows_def)
next
  case (reach_postpone ws db ks tid until)
  then show ?case using grows_postpone [of db tid until] by (auto simp: grows_def)
next
  case (reach_fire ws db ks k s1)
  then show ?case using fire_effect [OF reach_fire.hyps(2)] by auto
qed (auto simp: grows_def outside_edit_def add_run_def fired_keys_def)

text \<open>A process never keeps a generation beyond the one of the row.\<close>

definition fence_inv :: "(string \<Rightarrow> scheduler) \<Rightarrow> sched_db \<Rightarrow> bool" where
  "fence_inv ws db \<longleftrightarrow> (\<forall>w. sc_id (ws w) = w) \<and>
     (\<forall>w tid g. dget (sc_generations (ws w)) tid = Some g \<longrightarrow> known tid db \<longrightarrow> g \<le> generation_of tid db)"

lemma fence_bound: "fence_inv ws db \<Longrightarrow> dget (sc_generations (ws w)) tid = Some g \<Longrightarrow> known tid db \<Longrightarrow> g \<le> generation_of tid db"
  unfolding fence_inv_def by blast

lemma fence_grows: "fence_inv ws db \<Longrightarrow> grows db db' \<Longrightarrow> fence_inv ws db'"
  using le_trans unfolding fence_inv_def grows_def by blast

lemma fence_step:
  assumes inv: "fence_inv ws db" and ok: "claims_ok (ws w) db s' db'"
  shows "fence_inv (ws(w := s')) db'"
  unfolding fence_inv_def
proof (intro conjI allI impI)
  show "sc_id ((ws(w := s')) v) = v" for v using inv ok by (simp add: fence_inv_def claims_ok_def)
next
  fix v tid g assume g: "dget (sc_generations ((ws(w := s')) v)) tid = Some g" and k: "known tid db'"
  have gr: "grows db db'" using ok claims_grows by blast
  show "g \<le> generation_of tid db'"
  proof (cases "dget (sc_generations (ws v)) tid = Some g")
    case True
    then show ?thesis using fence_bound [OF fence_grows [OF inv gr] True k] by simp
  next
    case False
    then have "v = w" using g by (metis fun_upd_other)
    with g False ok show ?thesis by (auto simp: claims_ok_def)
  qed
qed

lemma fence_edit: "fence_inv ws db \<Longrightarrow> outside_edit ws db db' \<Longrightarrow> fence_inv ws db'"
  unfolding fence_inv_def outside_edit_def by (metis option.distinct(1))

lemma reach_fence: "sched_reach L ws db ks \<Longrightarrow> fence_inv ws db"
proof (induction rule: sched_reach.induct)
  case (reach_start ws db)
  then show ?case by (simp add: fence_inv_def)
next
  case (reach_tick ws db ks new_id now reaped busy w out s' db')
  show ?case by (rule fence_step [OF reach_tick.IH claims_check [OF reach_tick.hyps(2)]])
next
  case (reach_check ws db ks tid rid now blocked b db')
  show ?case using fence_grows [OF reach_check.IH grows_exec_check] reach_check.hyps(2) by (metis snd_conv)
next
  case (reach_effect ws db ks tid rid now w k db')
  show ?case using fence_grows [OF reach_effect.IH grows_begin] reach_effect.hyps(2) by (metis snd_conv)
next
  case (reach_no_effect ws db ks tid rid now w a db')
  show ?case using fence_grows [OF reach_no_effect.IH grows_begin] reach_no_effect.hyps(2) by (metis snd_conv)
next
  case (reach_end ws db ks tid rid now manual outcome w n s' db')
  show ?case by (rule fence_step [OF reach_end.IH claims_exec_end [OF reach_end.hyps(2)]])
next
  case (reach_leave ws db ks tid b w s' db')
  show ?case by (rule fence_step [OF reach_leave.IH claims_leave [OF reach_leave.hyps(2)]])
next
  case (reach_enter ws db ks tid force w b s' rid now)
  show ?case by (rule fence_step [OF reach_enter.IH claims_run_now [OF reach_enter.hyps(2) grows_run(1)]])
next
  case (reach_heartbeat ws db ks tid now w b db')
  show ?case using fence_grows [OF reach_heartbeat.IH grows_heartbeat] reach_heartbeat.hyps(2) by (metis snd_conv)
next
  case (reach_stop ws db ks tid running now w b s' db')
  show ?case by (rule fence_step [OF reach_stop.IH claims_stop [OF reach_stop.hyps(2)]])
next
  case (reach_sweep ws db ks new_id cleared reaped now)
  show ?case by (rule fence_grows [OF reach_sweep.IH grows_sweep])
next
  case (reach_edit ws db ks db')
  show ?case by (rule fence_edit [OF reach_edit.IH reach_edit.hyps(2)])
next
  case (reach_claim ws db ks tid due now w b db')
  show ?case using fence_grows [OF reach_claim.IH grows_claim_update] reach_claim.hyps(2) by (metis snd_conv)
next
  case (reach_read ws db ks w tid)
  show ?case by (rule fence_step [OF reach_read.IH claims_read])
next
  case (reach_gate ws db ks rid tid due now w b s' db')
  show ?case by (rule fence_step [OF reach_gate.IH claims_gate [OF reach_gate.hyps(2)]])
next
  case (reach_release ws db ks tid w b s' db')
  show ?case by (rule fence_step [OF reach_release.IH claims_release [OF reach_release.hyps(2)]])
next
  case (reach_executing ws db ks w tids)
  show ?case by (rule fence_step [OF reach_executing.IH claims_entered [OF claims_kept [OF grows_refl refl refl]]])
next
  case (reach_recover ws db ks new_id now tid)
  show ?case by (rule fence_grows [OF reach_recover.IH grows_recover])
next
  case (reach_paused ws db ks new_id now tid)
  show ?case by (rule fence_grows [OF reach_paused.IH grows_paused_one])
next
  case (reach_postpone ws db ks tid until)
  show ?case by (rule fence_grows [OF reach_postpone.IH grows_postpone])
next
  case (reach_fire ws db ks k s1)
  have "grows db (db\<lparr>sd_store := s1\<rparr>)" using claimed_fired [of "sd_store db" _ k None] reach_fire.hyps(2) by (intro grow) simp
  then show ?case by (rule fence_grows [OF reach_fire.IH])
qed

lemma passing_is_latest: "dget (sc_generations s) tid = Some g \<Longrightarrow> still_owner_or_fenced tid s db \<longleftrightarrow>
    known tid db \<and> g = generation_of tid db \<and> holds_lease (sc_id s) tid db"
  by (auto simp: still_owner_or_fenced_def still_owner_def known_def generation_of_def holds_lease_def split: option.split)

section \<open>Safety\<close>

text \<open>
  C3: whatever the processes do in turn (ticks, stalls, recoveries, restarts, forced runs, edits), no occurrence's effect is
  started twice under its key, and an attempt under the key of one that was started is not let through.
\<close>

theorem effects_start_once:
  assumes "sched_reach L ws db ks"
  shows "distinct ks \<and> (\<forall>tid rid now s. \<forall>k \<in> set ks. fst (exec_begin tid rid now s db) \<noteq> GoAhead (Some k))"
proof -
  have "fst (exec_begin tid rid now s db) \<noteq> GoAhead (Some k)" if k: "k \<in> set ks" for tid rid now s k
  proof
    assume "fst (exec_begin tid rid now s db) = GoAhead (Some k)"
    then have "k \<notin> fired_keys db" using begin_effect [of tid rid now s db k] by (metis prod.collapse)
    with k effects_fired [OF assms] show False by blast
  qed
  with effects_fired [OF assms] show ?thesis by blast
qed

text \<open>
  C11: the fence of a process that recorded a generation for a task lets it through exactly when it holds the task's lease and
  that generation is the row's, which every recorded generation has at most reached; every other process that recorded one is
  then turned away, also one that stalled inside its claim and read the same generation. From the \<open>UPDATE\<close> of a later claim on,
  by any process and before that process has read its own generation, the old record never passes again.
\<close>

theorem fence_admits_latest_claim:
  assumes "sched_reach L ws db ks" and "dget (sc_generations (ws w)) tid = Some g"
  shows "(still_owner_or_fenced tid (ws w) db \<longleftrightarrow> holds_lease w tid db \<and> g = generation_of tid db)
    \<and> (still_owner_or_fenced tid (ws w) db \<longrightarrow>
         (\<forall>w' g'. w' \<noteq> w \<longrightarrow> dget (sc_generations (ws w')) tid = Some g' \<longrightarrow> g' \<le> g \<and> \<not> still_owner_or_fenced tid (ws w') db))
    \<and> (\<forall>w' due now db1 db2. claim_update tid due now (ws w') db = (True, db1) \<longrightarrow> grows db1 db2 \<longrightarrow> \<not> still_owner_or_fenced tid (ws w) db2)"
proof -
  have inv: "fence_inv ws db" by (rule reach_fence [OF assms(1)])
  then have id: "sc_id (ws v) = v" for v by (simp add: fence_inv_def)
  have known: "holds_lease v tid x \<Longrightarrow> known tid x" for v x by (auto simp: holds_lease_def known_def split: option.splits)
  have pass: "still_owner_or_fenced tid (ws v) x \<longleftrightarrow> holds_lease v tid x \<and> h = generation_of tid x"
    if "dget (sc_generations (ws v)) tid = Some h" for v h x
    using passing_is_latest [OF that, of x] known [of v x] by (auto simp: id)
  have apart: "w' = w" if "holds_lease w tid db" "holds_lease w' tid db" for w'
    using that by (auto simp: holds_lease_def split: option.splits)
  have "\<not> still_owner_or_fenced tid (ws w) db2" if c: "claim_update tid due now (ws w') db = (True, db1)" and later: "grows db1 db2"
    for w' due now db1 db2
  proof -
    have "known tid db \<and> generation_of tid db1 = generation_of tid db + 1"
      using c by (auto simp: claim_update_def known_def generation_of_def update_task_def claimed_task_def split: option.splits if_splits)
    moreover have "generation_of tid db1 \<le> generation_of tid db2" using later by (simp add: grows_def)
    ultimately have "g < generation_of tid db2" using fence_bound [OF inv assms(2)] by linarith
    then show ?thesis using pass [OF assms(2), of db2] by simp
  qed
  moreover have "g' \<le> g \<and> \<not> still_owner_or_fenced tid (ws w') db"
    if "still_owner_or_fenced tid (ws w) db" "w' \<noteq> w" "dget (sc_generations (ws w')) tid = Some g'" for w' g'
  proof -
    have h: "holds_lease w tid db" "g = generation_of tid db" using that(1) pass [OF assms(2)] by blast+
    then show ?thesis using pass [OF that(3), of db] apart [OF h(1)] that(2) fence_bound [OF inv that(3) known [OF h(1)]] by blast
  qed
  ultimately show ?thesis using pass [OF assms(2), of db] by blast
qed

section \<open>A run of two processes\<close>

text \<open>\<open>A\<close> claims the task and stalls; when its lease expires, \<open>B\<close> takes the occurrence over.\<close>

definition sched_demo_worker :: "string \<Rightarrow> scheduler" where
  "sched_demo_worker w = \<lparr>sc_id = w, sc_executing = [], sc_generations = [], sc_anchors = [], sc_defers = []\<rparr>"

definition sched_demo_job :: sched_task where
  "sched_demo_job = \<lparr>tk_owner = None, tk_status = ''active'', tk_trigger = [], tk_timing = demo_timing, tk_timezone = [], tk_crew_zone = [], tk_next = Some 0,
     tk_last = None, tk_runs = 0, tk_output = ''session'', tk_then = [], tk_lease_owner = None, tk_expires = None, tk_heartbeat = None, tk_key = None,
     tk_attempt = 0, tk_generation = 0\<rparr>"

definition sched_demo_db :: sched_db where
  "sched_demo_db = \<lparr>sd_tasks = [(''t'', sched_demo_job)], sd_runs = [], sd_store = \<lparr>st_policies = [], st_guards = [], st_periods = [], st_fired = []\<rparr>\<rparr>"

definition sched_demo_tick :: "string \<Rightarrow> moment \<Rightarrow> sched_db \<Rightarrow> string list \<times> scheduler \<times> sched_db" where
  "sched_demo_tick w now db = check_due_tasks demo_sched (\<lambda>t. t) now now None (sched_demo_worker w) db"

definition sched_demo_a :: scheduler where "sched_demo_a = (sched_demo_worker ''A'')\<lparr>sc_executing := [''t''], sc_generations := [(''t'', 1)]\<rparr>"

definition sched_demo_b :: scheduler where "sched_demo_b = (sched_demo_worker ''B'')\<lparr>sc_executing := [''t''], sc_generations := [(''t'', 2)]\<rparr>"

definition sched_demo_leased :: "string \<Rightarrow> moment \<Rightarrow> nat \<Rightarrow> sched_db" where
  "sched_demo_leased w now n = sched_demo_db\<lparr>sd_tasks := [(''t'', sched_demo_job\<lparr>tk_lease_owner := Some w, tk_expires := Some (now + lease_us),
     tk_heartbeat := Some now, tk_key := Some (occurrence_key ''t'' (Some 0)), tk_attempt := n, tk_generation := n\<rparr>)]\<rparr>"

lemma sched_demo_first: "sched_demo_tick ''A'' 0 sched_demo_db = ([''t''], sched_demo_a, sched_demo_leased ''A'' 0 1)"
  by code_simp

lemma sched_demo_second: "sched_demo_tick ''B'' lease_us (sched_demo_leased ''A'' 0 1) = ([''t''], sched_demo_b, sched_demo_leased ''B'' lease_us 2)"
  by code_simp

lemma sched_demo_reach: "sched_reach demo_sched (sched_demo_worker(''A'' := sched_demo_a, ''B'' := sched_demo_b)) (sched_demo_leased ''B'' lease_us 2) []"
proof -
  have "sched_reach demo_sched sched_demo_worker sched_demo_db []" by (rule reach_start) (simp add: sched_demo_worker_def)
  from reach_tick [OF this sched_demo_first [unfolded sched_demo_tick_def]]
  have "sched_reach demo_sched (sched_demo_worker(''A'' := sched_demo_a)) (sched_demo_leased ''A'' 0 1) []" .
  moreover have "check_due_tasks demo_sched (\<lambda>t. t) lease_us lease_us None ((sched_demo_worker(''A'' := sched_demo_a)) ''B'') (sched_demo_leased ''A'' 0 1)
      = ([''t''], sched_demo_b, sched_demo_leased ''B'' lease_us 2)"
    using sched_demo_second by (simp add: sched_demo_tick_def)
  ultimately show ?thesis by (rule reach_tick)
qed

definition sched_demo_fired :: sched_db where
  "sched_demo_fired = snd (exec_begin ''t'' ''r'' lease_us sched_demo_b (sched_demo_leased ''B'' lease_us 2))"

lemma sched_demo_effect: "exec_begin ''t'' ''r'' lease_us sched_demo_b (sched_demo_leased ''B'' lease_us 2) = (GoAhead (Some (occurrence_key ''t'' (Some 0))), sched_demo_fired)"
  by code_simp

lemma effects_start_once_witness:
  "fst (exec_begin ''t'' ''q'' lease_us sched_demo_b sched_demo_fired) \<noteq> GoAhead (Some (occurrence_key ''t'' (Some 0)))"
proof -
  have "exec_begin ''t'' ''r'' lease_us ((sched_demo_worker(''A'' := sched_demo_a, ''B'' := sched_demo_b)) ''B'') (sched_demo_leased ''B'' lease_us 2)
      = (GoAhead (Some (occurrence_key ''t'' (Some 0))), sched_demo_fired)"
    using sched_demo_effect by simp
  from effects_start_once [OF reach_effect [OF sched_demo_reach this]] show ?thesis by simp
qed

text \<open>
  The stall: \<open>A\<close> commits its claim and stops; its lease runs out, \<open>B\<close> takes the occurrence over, and only then \<open>A\<close> reads
  the generation. Both hold generation 2; the fence lets \<open>B\<close> through and turns \<open>A\<close> away.
\<close>

definition sched_demo_late :: scheduler where
  "sched_demo_late = claim_read ''t'' (sched_demo_worker ''A'') (sched_demo_leased ''B'' lease_us 2)"

lemma sched_demo_stalled:
  "sched_reach demo_sched (sched_demo_worker(''B'' := sched_demo_b, ''A'' := sched_demo_late)) (sched_demo_leased ''B'' lease_us 2) []"
proof -
  have s: "sched_reach demo_sched sched_demo_worker sched_demo_db []" by (rule reach_start) (simp add: sched_demo_worker_def)
  have c: "claim_update ''t'' (Some 0) 0 (sched_demo_worker ''A'') sched_demo_db = (True, sched_demo_leased ''A'' 0 1)" by code_simp
  from reach_claim [OF s c] have a: "sched_reach demo_sched sched_demo_worker (sched_demo_leased ''A'' 0 1) []" .
  from reach_tick [OF a sched_demo_second [unfolded sched_demo_tick_def]]
  have b: "sched_reach demo_sched (sched_demo_worker(''B'' := sched_demo_b)) (sched_demo_leased ''B'' lease_us 2) []" .
  show ?thesis using reach_read [OF b, of "''A''" "''t''"] by (simp add: sched_demo_late_def)
qed

lemma fence_admits_latest_claim_witness:
  "dget (sc_generations sched_demo_late) ''t'' = dget (sc_generations sched_demo_b) ''t''
   \<and> still_owner_or_fenced ''t'' sched_demo_b (sched_demo_leased ''B'' lease_us 2)
   \<and> \<not> still_owner_or_fenced ''t'' sched_demo_late (sched_demo_leased ''B'' lease_us 2)"
proof -
  let ?ws = "sched_demo_worker(''B'' := sched_demo_b, ''A'' := sched_demo_late)"
  have g: "dget (sc_generations (?ws ''B'')) ''t'' = Some 2" "dget (sc_generations (?ws ''A'')) ''t'' = Some 2"
    by code_simp+
  have "holds_lease ''B'' ''t'' (sched_demo_leased ''B'' lease_us 2)" "2 = generation_of ''t'' (sched_demo_leased ''B'' lease_us 2)"
    by code_simp+
  moreover note f = fence_admits_latest_claim [OF sched_demo_stalled g(1)]
  ultimately have b: "still_owner_or_fenced ''t'' (?ws ''B'') (sched_demo_leased ''B'' lease_us 2)" by blast
  have "\<forall>w' g'. w' \<noteq> ''B'' \<longrightarrow> dget (sc_generations (?ws w')) ''t'' = Some g'
      \<longrightarrow> \<not> still_owner_or_fenced ''t'' (?ws w') (sched_demo_leased ''B'' lease_us 2)"
    using f b by blast
  from spec [OF this, of "''A''"] g(2) have "\<not> still_owner_or_fenced ''t'' (?ws ''A'') (sched_demo_leased ''B'' lease_us 2)" by simp
  with b g show ?thesis by simp
qed

end
