(* ===== verification/Scheduler_Faults.thy ===== *)
theory Scheduler_Faults
  imports Scheduler_Theorems
begin

text \<open>
  What becomes of one occurrence: catching up, postponing, chaining; and the two ways in which the scheduler loses
  or doubles one, an occurrence fenced away for ever and a forced run that lets the queued one repeat it.
\<close>

section \<open>Chains\<close>

text \<open>The links from a task to the end of its chain: a task without a link, or a link to no task.\<close>

inductive chain_path :: "(string, sched_task) dict \<Rightarrow> string list \<Rightarrow> bool" for ts where
  path_missing: "dget ts c = None \<Longrightarrow> chain_path ts [c]"
| path_ends: "dget ts c = Some t \<Longrightarrow> tk_then t = [] \<Longrightarrow> chain_path ts [c]"
| path_link: "dget ts c = Some t \<Longrightarrow> tk_then t \<noteq> [] \<Longrightarrow> chain_path ts (tk_then t # p) \<Longrightarrow> chain_path ts (c # tk_then t # p)"

inductive_cases path_cases: "chain_path ts (c # p)"

definition chain_owned :: "(string, sched_task) dict \<Rightarrow> string option \<Rightarrow> string \<Rightarrow> bool" where
  "chain_owned ts owner c \<longleftrightarrow> owner = None \<or> (case dget ts c of None \<Rightarrow> True | Some t \<Rightarrow> tk_owner t = owner)"

lemma path_step: "chain_path ts (c # p) \<Longrightarrow>
    p = [] \<and> (case dget ts c of None \<Rightarrow> True | Some t \<Rightarrow> tk_then t = [])
    \<or> (\<exists>t q. dget ts c = Some t \<and> tk_then t \<noteq> [] \<and> p = tk_then t # q \<and> chain_path ts p)"
  by (erule path_cases) simp_all

lemma path_unique: "chain_path ts (c # p) \<Longrightarrow> chain_path ts (c # q) \<Longrightarrow> p = q"
proof (induction p arbitrary: c q)
  case Nil
  from path_step [OF Nil(1)] path_step [OF Nil(2)] show ?case by (auto split: option.splits)
next
  case (Cons d p)
  from path_step [OF Cons.prems(1)] obtain t where t: "dget ts c = Some t" "tk_then t = d" "d \<noteq> []" "chain_path ts (d # p)" by auto
  from path_step [OF Cons.prems(2)] t(1-3) obtain q' where q: "q = d # q'" "chain_path ts (d # q')" by auto
  show ?case using Cons.IH [OF t(4) q(2)] q(1) by simp
qed

lemma path_tail: "chain_path ts (x # c # b) \<Longrightarrow> chain_path ts (c # b)"
  using path_step [of ts x "c # b"] by auto

lemma path_suffix: "chain_path ts (a @ c # b) \<Longrightarrow> chain_path ts (c # b)"
proof (induction a)
  case (Cons x a)
  obtain y ys where "a @ c # b = y # ys" by (cases "a @ c # b") auto
  then have "chain_path ts (a @ c # b)" using Cons.prems path_tail [of ts x y ys] by simp
  then show ?case by (rule Cons.IH)
qed simp

lemma path_distinct: "chain_path ts p \<Longrightarrow> distinct p"
proof (induction p)
  case (Cons c p)
  have "c \<notin> set p"
  proof
    assume "c \<in> set p"
    then obtain a b where p: "p = a @ c # b" by (meson split_list)
    have "chain_path ts (c # b)" using path_suffix [of ts "c # a" c b] Cons.prems p by simp
    from path_unique [OF Cons.prems this] p show False by simp
  qed
  moreover have "distinct p"
  proof (cases p)
    case (Cons d r)
    then show ?thesis using path_tail [of ts c d r] Cons.IH Cons.prems by simp
  qed simp
  ultimately show ?case by simp
qed simp

lemma walk_is_path: "\<not> chain_cycle ts owner n seen c \<Longrightarrow>
    \<exists>p. chain_path ts (c # p) \<and> length p < n \<and> list_all (chain_owned ts owner) (c # p)"
proof (induction n arbitrary: seen c)
  case (Suc n)
  show ?case
  proof (cases "dget ts c")
    case None
    then have "chain_path ts [c] \<and> chain_owned ts owner c" by (simp add: path_missing chain_owned_def)
    then show ?thesis by (intro exI [of _ "[]"]) simp
  next
    case (Some t)
    have o1: "chain_owned ts owner c" using Suc.prems by (auto simp: Some chain_owned_def split: if_splits)
    show ?thesis
    proof (cases "tk_then t = []")
      case True
      then show ?thesis using o1 Some by (intro exI [of _ "[]"]) (simp add: path_ends)
    next
      case False
      then have "\<not> chain_cycle ts owner n (insert c seen) (tk_then t)" using Suc.prems by (auto simp: Some split: if_splits)
      then obtain p where "chain_path ts (tk_then t # p)" "length p < n" "list_all (chain_owned ts owner) (tk_then t # p)"
        using Suc.IH by blast
      with o1 Some False show ?thesis by (intro exI [of _ "tk_then t # p"]) (simp add: path_link)
    qed
  qed
qed simp

lemma path_is_walk: "chain_path ts q \<Longrightarrow> q = c # p \<Longrightarrow> length p < n \<Longrightarrow> list_all (chain_owned ts owner) q
    \<Longrightarrow> set q \<inter> seen = {} \<Longrightarrow> distinct q \<Longrightarrow> \<not> chain_cycle ts owner n seen c"
proof (induction arbitrary: c p n seen rule: chain_path.induct)
  case (path_link d t r)
  then obtain m where n: "n = Suc m" by (cases n) auto
  have "\<not> chain_cycle ts owner m (insert d seen) (tk_then t)"
    using path_link.prems by (intro path_link.IH) (auto simp: n)
  then show ?case using path_link.hyps path_link.prems by (auto simp: n chain_owned_def)
next
  case (path_missing d)
  then show ?case by (cases n) auto
next
  case (path_ends d t)
  then show ?case by (cases n) (auto simp: chain_owned_def)
qed

text \<open>
  C12: a chain is refused exactly when its links do not come to an end within ten tasks, or leave the owner: the walk with its
  visited set decides the existence of such a path.
\<close>

theorem chain_refused_iff_endless:
  "has_chain_cycle ts owner start \<longleftrightarrow>
     \<not> (\<exists>p. chain_path ts (start # p) \<and> length (start # p) \<le> 10 \<and> list_all (chain_owned ts owner) (start # p))"
proof -
  have "\<not> has_chain_cycle ts owner start" if "chain_path ts (start # p)" "length (start # p) \<le> 10" "list_all (chain_owned ts owner) (start # p)" for p
    unfolding has_chain_cycle_def
    by (rule path_is_walk [OF that(1) refl _ that(3) _ path_distinct [OF that(1)]]) (use that(2) in auto)
  moreover have "\<exists>p. chain_path ts (start # p) \<and> length (start # p) \<le> 10 \<and> list_all (chain_owned ts owner) (start # p)"
    if "\<not> has_chain_cycle ts owner start"
    using walk_is_path [of ts owner 10 "{}" start] that unfolding has_chain_cycle_def by force
  ultimately show ?thesis by blast
qed

section \<open>Catching up\<close>

lemma missed_chain:
  "successively (\<lambda>a b. compute_next_run L t a name policy = Some b) (c # missed_after L t name policy now n c)
   \<and> length (missed_after L t name policy now n c) \<le> n
   \<and> list_all (\<lambda>m. m < now) (missed_after L t name policy now n c)
   \<and> (length (missed_after L t name policy now n c) = n
      \<or> (case compute_next_run L t (last (c # missed_after L t name policy now n c)) name policy of None \<Rightarrow> True | Some m \<Rightarrow> now \<le> m))"
proof (induction n arbitrary: c)
  case (Suc n)
  show ?case
  proof (cases "compute_next_run L t c name policy")
    case (Some m)
    then show ?thesis using Suc.IH [of m] by (cases "now \<le> m") (auto simp: successively_Cons)
  qed simp
qed simp

text \<open>
  C23: the occurrences to make up for start with the one that was due, follow each other by the task's own schedule, stay before
  now and within the cap, and stop early only where the schedule ends or reaches now.
\<close>

theorem missed_occurrences_follow_the_schedule:
  "let ms = enumerate_missed_occurrences L tid t due now k s;
       after = (\<lambda>m. compute_next_run L (tk_timing t) m (resolve_task_timezone t) (tp_dst (get_task_policy tid s)))
   in hd ms = due \<and> length ms \<le> max 1 k \<and> list_all (\<lambda>m. m < now) (tl ms) \<and> successively (\<lambda>a b. after a = Some b) ms
      \<and> (length ms = max 1 k \<or> (case after (last ms) of None \<Rightarrow> True | Some m \<Rightarrow> now \<le> m))"
  using missed_chain [of L "tk_timing t" "resolve_task_timezone t" "tp_dst (get_task_policy tid s)" due now "k - 1"]
  unfolding Let_def enumerate_missed_occurrences_def by (auto simp: max_def)

section \<open>Postponing\<close>

text \<open>The row of a guarded task, put off to \<open>m\<close>, remembers \<open>d\<close>.\<close>

definition remembers :: "string \<Rightarrow> moment \<Rightarrow> moment \<Rightarrow> sched_db \<Rightarrow> bool" where
  "remembers tid d m db \<longleftrightarrow> (\<exists>t g. dget (sd_tasks db) tid = Some t \<and> dget (st_guards (sd_store db)) tid = Some g
     \<and> tk_next t = Some m \<and> \<not> ((gr_window g = None \<or> gr_window g = Some 0) \<and> gr_period g = [])
     \<and> (gr_origin g = Some d \<and> gr_applies g = Some m \<or> d = m \<and> (gr_origin g = None \<or> gr_applies g \<noteq> Some m)))"

lemma postpone_remembers: "remembers tid d m db \<Longrightarrow> remembers tid d m' (postpone_task tid m' db)"
proof -
  assume "remembers tid d m db"
  then obtain t g where r: "dget (sd_tasks db) tid = Some t" "dget (st_guards (sd_store db)) tid = Some g" "tk_next t = Some m"
    "\<not> ((gr_window g = None \<or> gr_window g = Some 0) \<and> gr_period g = [])"
    "gr_origin g = Some d \<and> gr_applies g = Some m \<or> d = m \<and> (gr_origin g = None \<or> gr_applies g \<noteq> Some m)"
    unfolding remembers_def by blast
  define g' where "g' = g\<lparr>gr_origin := Some d, gr_applies := Some m'\<rparr>"
  have "postpone_due tid (Some m) (Some m') (sd_store db) = (sd_store db)\<lparr>st_guards := dset tid g' (st_guards (sd_store db))\<rparr>"
    using r(2,4,5) by (cases g) (auto simp: postpone_due_def g'_def)
  then have "postpone_task tid m' db = update_task tid (\<lambda>t. t\<lparr>tk_next := Some m'\<rparr>) (db\<lparr>sd_store := (sd_store db)\<lparr>st_guards := dset tid g' (st_guards (sd_store db))\<rparr>\<rparr>)"
    by (simp add: postpone_task_def r(1,3) note_postponed_def on_store_def)
  then show ?thesis using r(4) by (auto simp: remembers_def update_task_def r(1) g'_def)
qed

lemma postpones_remember: "remembers tid d m x \<Longrightarrow> remembers tid d (last (m # ms)) (fold (postpone_task tid) ms x)"
proof (induction ms arbitrary: m x)
  case (Cons a ms)
  have "remembers tid d (last (a # ms)) (fold (postpone_task tid) ms (postpone_task tid a x))"
    by (rule Cons.IH [OF postpone_remembers [OF Cons.prems]])
  then show ?case by simp
qed simp

text \<open>
  C15: however often a guarded task is put off (a busy foreground, an open breaker, a retry), its window and its period are
  still measured from the moment it was first due.
\<close>

theorem postponing_keeps_the_first_moment:
  assumes "dget (sd_tasks db) tid = Some t" and "tk_next t = Some d" and "dget (st_guards (sd_store db)) tid = Some g"
    and "gr_window g = Some w" and "w \<noteq> 0" and "gr_applies g \<noteq> Some d" and "ms \<noteq> []" and "d \<le> last ms"
  shows "\<exists>g'. dget (st_guards (sd_store (fold (postpone_task tid) ms db))) tid = Some g'
    \<and> guard_anchor (guard_origin g' (last ms)) (last ms) = d
    \<and> tk_next (the (dget (sd_tasks (fold (postpone_task tid) ms db)) tid)) = Some (last ms)"
proof -
  have "remembers tid d d db" using assms(1-6) by (auto simp: remembers_def)
  from postpones_remember [OF this, of ms] have r: "remembers tid d (last ms) (fold (postpone_task tid) ms db)" using assms(7) by simp
  then obtain t' g' where g: "dget (sd_tasks (fold (postpone_task tid) ms db)) tid = Some t'" "tk_next t' = Some (last ms)"
    "dget (st_guards (sd_store (fold (postpone_task tid) ms db))) tid = Some g'"
    "gr_origin g' = Some d \<and> gr_applies g' = Some (last ms) \<or> d = last ms \<and> (gr_origin g' = None \<or> gr_applies g' \<noteq> Some (last ms))"
    unfolding remembers_def by blast
  then have "guard_anchor (guard_origin g' (last ms)) (last ms) = d"
    using assms(8) by (elim disjE conjE) (simp_all add: guard_origin_def guard_anchor_def)
  with g(1-3) show ?thesis by simp
qed

definition sched_demo_guarded :: sched_db where
  "sched_demo_guarded = sched_demo_db\<lparr>sd_store := (sd_store sched_demo_db)\<lparr>st_guards := [(''t'', empty_guard\<lparr>gr_window := Some 30\<rparr>)]\<rparr>\<rparr>"

lemma postponing_keeps_the_first_moment_witness:
  "\<exists>g'. dget (st_guards (sd_store (fold (postpone_task ''t'') [60, 120] sched_demo_guarded))) ''t'' = Some g'
    \<and> guard_anchor (guard_origin g' 120) 120 = 0"
proof -
  have "dget (sd_tasks sched_demo_guarded) ''t'' = Some sched_demo_job" "tk_next sched_demo_job = Some 0"
    and "dget (st_guards (sd_store sched_demo_guarded)) ''t'' = Some (empty_guard\<lparr>gr_window := Some 30\<rparr>)"
    by (simp_all add: sched_demo_guarded_def sched_demo_db_def sched_demo_job_def)
  from postponing_keeps_the_first_moment [OF this, of 30 "[60, 120]"] show ?thesis by (fastforce simp: empty_guard_def)
qed

section \<open>Fenced away for ever\<close>

text \<open>The task is due at \<open>d\<close>, nobody has it, and it has no key or that of \<open>d\<close>.\<close>

definition idle_at :: "string \<Rightarrow> moment \<Rightarrow> sched_db \<Rightarrow> bool" where
  "idle_at tid d db \<longleftrightarrow>
     (case dget (sd_tasks db) tid of
        None \<Rightarrow> False
      | Some t \<Rightarrow> tk_status t = ''active'' \<and> tk_next t = Some d \<and> tk_lease_owner t = None
          \<and> (tk_key t = None \<or> tk_key t = Some (occurrence_key tid (Some d))))"

text \<open>The key it will be claimed under was used.\<close>

definition stuck_at :: "string \<Rightarrow> moment \<Rightarrow> sched_db \<Rightarrow> bool" where
  "stuck_at tid d db \<longleftrightarrow> dget (st_fired (sd_store db)) (occurrence_key tid (Some d)) \<noteq> None \<and> idle_at tid d db"

definition unguarded :: "string \<Rightarrow> sched_db \<Rightarrow> bool" where
  "unguarded tid db \<longleftrightarrow> gr_window (get_task_schedule_guard tid (sd_store db)) = None \<and> gr_period (get_task_schedule_guard tid (sd_store db)) = []"

text \<open>
  What happens to it in one process: the part of a tick that concerns this task, with the run id of the execution it leads to,
  the moment to postpone to when the foreground is active or the breaker open, and the refusal when the owner lacks the privileges;
  or a restart under a new worker id, which sweeps the missed moments. The answer of a tick is that of \<open>exec_begin\<close>, or \<open>None\<close>
  when the tick does not get there. An attempt that is let through is not taken further.
\<close>

datatype event = Tick string moment "moment option" "string option" | Restart string moment

definition run_one :: "string \<Rightarrow> string \<Rightarrow> moment \<Rightarrow> string option \<Rightarrow> scheduler \<Rightarrow> sched_db \<Rightarrow> begin_answer option \<times> scheduler \<times> sched_db" where
  "run_one tid rid now blocked s db =
     (case exec_check tid rid now blocked (add_run rid (queued_run tid now) db) of
        (False, db1) \<Rightarrow> (None, leave_execution tid True s db1)
      | (True, db1) \<Rightarrow> (case exec_begin tid rid now s db1 of (a, db2) \<Rightarrow> (Some a, leave_execution tid True s db2)))"

definition tick_one :: "sched_lib \<Rightarrow> (string \<Rightarrow> string) \<Rightarrow> string \<Rightarrow> string \<Rightarrow> moment \<Rightarrow> moment option \<Rightarrow> string option \<Rightarrow> scheduler \<Rightarrow> sched_db
    \<Rightarrow> begin_answer option \<times> scheduler \<times> sched_db" where
  "tick_one L new_id tid rid now busy blocked s db0 =
     (let db = paused_skip L new_id now tid (recover_lease L new_id now tid db0)
      in case dget (sd_tasks db) tid of
           None \<Rightarrow> (None, s, db)
         | Some t \<Rightarrow>
             if \<not> is_due now t \<or> tid \<in> set (sc_executing s) then (None, s, db)
             else case busy of
                    Some until \<Rightarrow> (None, s, postpone_task tid until db)
                  | None \<Rightarrow>
                      case dispatch_one L new_id now (tid, tk_next t) ([], s, db) of
                        (ids, s1, db1) \<Rightarrow> if ids = [] then (None, s1, db1) else run_one tid rid now blocked s1 db1)"

definition live_one :: "sched_lib \<Rightarrow> (string \<Rightarrow> string) \<Rightarrow> string \<Rightarrow> event
    \<Rightarrow> begin_answer option list \<times> scheduler \<times> sched_db \<Rightarrow> begin_answer option list \<times> scheduler \<times> sched_db" where
  "live_one L new_id tid e state =
     (case (e, state) of
        (Tick rid now busy blocked, (out, s, db)) \<Rightarrow>
          (case tick_one L new_id tid rid now busy blocked s db of (a, s1, db1) \<Rightarrow> (out @ [a], s1, db1))
      | (Restart w now, (out, s, db)) \<Rightarrow>
          (out, \<lparr>sc_id = w, sc_executing = [], sc_generations = [], sc_anchors = [], sc_defers = []\<rparr>,
           misfire_one L new_id now tid (recover_lease L new_id now tid db)))"

definition event_time :: "event \<Rightarrow> moment" where
  "event_time e = (case e of Tick _ now _ _ \<Rightarrow> now | Restart _ now \<Rightarrow> now)"

definition undisturbed :: "event \<Rightarrow> bool" where
  "undisturbed e \<longleftrightarrow> (case e of Tick _ _ busy blocked \<Rightarrow> busy = None \<and> blocked = None | Restart _ _ \<Rightarrow> True)"

definition restarts :: "event \<Rightarrow> bool" where
  "restarts e \<longleftrightarrow> (case e of Restart _ _ \<Rightarrow> True | Tick _ _ _ _ \<Rightarrow> False)"

definition turned_away :: "begin_answer option \<Rightarrow> bool" where
  "turned_away a \<longleftrightarrow> (case a of Some (FencedAway _) \<Rightarrow> True | _ \<Rightarrow> False)"

lemma occurrence_key_nonempty [simp]: "occurrence_key tid due \<noteq> []"
  by (simp add: occurrence_key_def)

lemma leave_after_fence:
  assumes "dget (sd_tasks db) tid = Some t" and "tk_lease_owner t = Some (sc_id s)"
  shows "sd_tasks (snd (leave_execution tid True s db)) = dset tid (unleased t) (sd_tasks db)
    \<and> sd_store (snd (leave_execution tid True s db)) = sd_store db"
  using assms by (simp add: leave_execution_def release_lease_def holds_lease_def update_task_def Let_def)

lemma begin_on_used_key:
  assumes "dget (sd_tasks db) tid = Some t" and "tk_key t = Some k" and "k \<noteq> []" and "dget (st_fired (sd_store db)) k \<noteq> None"
    and "exec_begin tid rid now s db = (a, db')"
  shows "(\<exists>m. a = FencedAway m) \<and> sd_tasks db' = sd_tasks db \<and> sd_store db' = sd_store db"
proof -
  define db1 where "db1 = start_run tid rid now db"
  have b: "sd_tasks db1 = sd_tasks db" "sd_store db1 = sd_store db"
    by (auto simp: db1_def start_run_def add_run_def update_run_def split: option.split)
  have m: "sd_tasks (mark_fenced rid x now y) = sd_tasks y" "sd_store (mark_fenced rid x now y) = sd_store y" for x y
    by (auto simp: mark_fenced_def update_run_def split: option.split)
  have "claim_fire_key_literal k None (sd_store db) = (False, sd_store db)" using assms(4) by (auto simp: claim_fire_key_literal_def)
  then show ?thesis using assms(5) unfolding exec_begin_def Let_def db1_def [symmetric]
    by (cases "still_owner_or_fenced tid s db1") (auto simp: b m assms(1-3))
qed

lemma idle_task:
  assumes "idle_at tid d db"
  obtains t where "dget (sd_tasks db) tid = Some t" and "tk_status t = ''active''" and "tk_next t = Some d" and "tk_lease_owner t = None"
    and "tk_key t = None \<or> tk_key t = Some (occurrence_key tid (Some d))"
  using assms unfolding idle_at_def by (auto split: option.splits)

lemma idle_swept:
  assumes "idle_at tid d db"
  shows "recover_lease L new_id now tid db = db" and "paused_skip L new_id now tid db = db"
  by (rule idle_task [OF assms], simp add: recover_lease_def is_stale_def paused_skip_def)+

lemma unguarded_gate: "unguarded tid db \<Longrightarrow> guard_gate L rid tid due now s db = (True, s\<lparr>sc_anchors := dpop tid (sc_anchors s)\<rparr>, db)"
  by (simp add: unguarded_def guard_gate_def Let_def)

lemma idle_dispatch:
  assumes "idle_at tid d db" and "unguarded tid db" and "d \<le> now" and "tid \<notin> set (sc_executing s)"
    and "dispatch_one L new_id now (tid, Some d) ([], s, db) = (ids, s1, db1)"
  shows "ids = [tid] \<and> sc_id s1 = sc_id s \<and> sd_store db1 = sd_store db
    \<and> (\<exists>t. dget (sd_tasks db1) tid = Some t \<and> tk_status t = ''active'' \<and> tk_next t = Some d \<and> tk_lease_owner t = Some (sc_id s)
        \<and> tk_key t = Some (occurrence_key tid (Some d)) \<and> dget (sc_generations s1) tid = Some (tk_generation t))"
proof (rule idle_task [OF assms(1)])
  fix t assume t: "dget (sd_tasks db) tid = Some t" "tk_status t = ''active''" "tk_next t = Some d" "tk_lease_owner t = None"
    "tk_key t = None \<or> tk_key t = Some (occurrence_key tid (Some d))"
  define t1 where "t1 = claimed_task (sc_id s) (occurrence_key tid (Some d)) now t"
  define x where "x = db\<lparr>sd_tasks := dset tid t1 (sd_tasks db)\<rparr>"
  define s0 where "s0 = claim_read tid s x"
  have "is_due now t \<and> lease_free now t" using t assms(3) by (simp add: is_due_def lease_free_def)
  then have "claim_due_task tid (Some d) now s db = (True, s0, x)"
    using t(1) by (simp add: claim_due_task_def claim_update_def update_task_def x_def s0_def t1_def)
  moreover have "unguarded tid x" using assms(2) by (simp add: unguarded_def x_def)
  ultimately have "dispatch_one L new_id now (tid, Some d) ([], s, db)
      = ([tid], (s0\<lparr>sc_anchors := dpop tid (sc_anchors s0)\<rparr>)\<lparr>sc_executing := sc_executing s0 @ [tid]\<rparr>, x)"
    using assms(4) by (simp add: dispatch_one_def unguarded_gate)
  moreover have "sc_id s0 = sc_id s" "dget (sc_generations s0) tid = Some (tk_generation t1)"
    by (simp_all add: s0_def claim_read_def generation_of_def x_def)
  moreover have "tk_status t1 = ''active''" "tk_next t1 = Some d" "tk_lease_owner t1 = Some (sc_id s)" "tk_key t1 = Some (occurrence_key tid (Some d))"
    using t by (auto simp: t1_def claimed_task_def)
  ultimately show ?thesis using assms(5) by (simp add: x_def)
qed

lemma idle_tick:
  assumes "idle_at tid d db" and "unguarded tid db" and "d \<le> now" and "tid \<notin> set (sc_executing s)"
  shows "\<exists>s1 db1. tick_one L new_id tid rid now None blocked s db = run_one tid rid now blocked s1 db1 \<and> sc_id s1 = sc_id s \<and> sd_store db1 = sd_store db
    \<and> (\<exists>t. dget (sd_tasks db1) tid = Some t \<and> tk_status t = ''active'' \<and> tk_next t = Some d \<and> tk_lease_owner t = Some (sc_id s)
        \<and> tk_key t = Some (occurrence_key tid (Some d)) \<and> dget (sc_generations s1) tid = Some (tk_generation t))"
proof -
  obtain ids s1 db1 where p: "dispatch_one L new_id now (tid, Some d) ([], s, db) = (ids, s1, db1)" by (metis surj_pair)
  note r = idle_dispatch [OF assms p]
  then have ids: "ids = [tid]" by blast
  have "tick_one L new_id tid rid now None blocked s db = run_one tid rid now blocked s1 db1"
    by (rule idle_task [OF assms(1)]) (simp add: tick_one_def Let_def idle_swept [OF assms(1)] is_due_def assms(3,4) p ids)
  with r show ?thesis by blast
qed

lemma run_on_used_key:
  assumes "dget (sd_tasks db) tid = Some t" and "tk_status t = ''active''" and "tk_key t = Some k" and "k \<noteq> []"
    and "dget (st_fired (sd_store db)) k \<noteq> None" and "tk_lease_owner t = Some (sc_id s)"
    and "run_one tid rid now None s db = (a, s', db')"
  shows "turned_away a \<and> sd_tasks db' = dset tid (unleased t) (sd_tasks db) \<and> sd_store db' = sd_store db \<and> tid \<notin> set (sc_executing s')"
proof -
  define x where "x = add_run rid (queued_run tid now) db"
  have x: "sd_tasks x = sd_tasks db" "sd_store x = sd_store db" by (simp_all add: x_def add_run_def)
  have c: "exec_check tid rid now None x = (True, x)" using assms(1,2) by (simp add: exec_check_def x)
  obtain b y where e: "exec_begin tid rid now s x = (b, y)" by fastforce
  from begin_on_used_key [OF _ assms(3,4) _ e] obtain m where b: "b = FencedAway m" "sd_tasks y = sd_tasks db" "sd_store y = sd_store db"
    using assms(1,5) by (auto simp: x)
  have r: "a = Some b" "(s', db') = leave_execution tid True s y" using assms(7) by (simp_all add: run_one_def x_def [symmetric] c e)
  moreover have "tid \<notin> set (sc_executing (fst (leave_execution tid True s y)))" by (simp add: leave_execution_def release_lease_def Let_def)
  moreover have "dget (sd_tasks y) tid = Some t" using b(2) assms(1) by simp
  ultimately show ?thesis using leave_after_fence [of y tid t s] assms(6) b by (metis fst_conv snd_conv turned_away_def option.case(2) begin_answer.case(1))
qed

lemma stuck_tick:
  assumes stuck: "stuck_at tid d db" and "unguarded tid db" and "d \<le> now" and "tid \<notin> set (sc_executing s)"
    and "tick_one L new_id tid rid now None None s db = (a, s', db')"
  shows "turned_away a \<and> stuck_at tid d db' \<and> tid \<notin> set (sc_executing s') \<and> sd_store db' = sd_store db"
proof -
  have f: "dget (st_fired (sd_store db)) (occurrence_key tid (Some d)) \<noteq> None" and "idle_at tid d db" using stuck by (simp_all add: stuck_at_def)
  from idle_tick [OF this(2) assms(2-4), of L new_id rid None] assms(5) obtain s1 db1 t where
    t: "run_one tid rid now None s1 db1 = (a, s', db')" "sc_id s1 = sc_id s" "sd_store db1 = sd_store db"
    "dget (sd_tasks db1) tid = Some t" "tk_status t = ''active''" "tk_next t = Some d" "tk_lease_owner t = Some (sc_id s)"
    "tk_key t = Some (occurrence_key tid (Some d))" by auto
  from run_on_used_key [OF t(4,5,8) _ _ _ t(1)] t(2,3,7) f
  have r: "turned_away a" "sd_tasks db' = dset tid (unleased t) (sd_tasks db1)" "sd_store db' = sd_store db" "tid \<notin> set (sc_executing s')" by simp_all
  moreover have "stuck_at tid d db'" using f t r by (simp add: stuck_at_def idle_at_def unleased_def)
  ultimately show ?thesis by simp
qed

lemma stuck_restart:
  assumes stuck: "stuck_at tid d db" and "d < now" and k: "parse_misfire_policy (tp_misfire (get_task_policy tid (sd_store db))) = CatchUp k" "0 < k"
  shows "stuck_at tid d (misfire_one L new_id now tid db) \<and>
    unguarded tid (misfire_one L new_id now tid db) = unguarded tid db \<and>
    tp_misfire (get_task_policy tid (sd_store (misfire_one L new_id now tid db))) = tp_misfire (get_task_policy tid (sd_store db))"
proof -
  obtain t where t: "dget (sd_tasks db) tid = Some t" "tk_status t = ''active''" "tk_next t = Some d" "tk_lease_owner t = None"
      "tk_key t = None \<or> tk_key t = Some (occurrence_key tid (Some d))"
    using stuck unfolding stuck_at_def idle_at_def by (auto split: option.splits)
  obtain rest where r: "take k (enumerate_missed_occurrences L tid t d now k (sd_store db)) = d # rest"
    using k(2) by (cases k) (auto simp: enumerate_missed_occurrences_def)
  define db1 where "db1 = (if rest = [] then db else on_store (set_catchup_pending tid rest) db)"
  have m: "misfire_one L new_id now tid db = update_task tid (\<lambda>t. t\<lparr>tk_next := Some d\<rparr>) db1"
    using t assms(2) by (simp add: misfire_one_def k(1) r db1_def)
  have s: "sd_tasks db1 = sd_tasks db" "st_fired (sd_store db1) = st_fired (sd_store db)"
    by (simp_all add: db1_def on_store_def)
  have "tp_misfire (get_task_policy tid (sd_store db1)) = tp_misfire (get_task_policy tid (sd_store db))"
    by (simp add: db1_def on_store_def get_task_policy_def set_catchup_pending_def update_policy_def Let_def dget_or_def)
  moreover have "unguarded tid db1 = unguarded tid db"
    by (simp add: db1_def on_store_def unguarded_def get_task_schedule_guard_def set_catchup_pending_def update_policy_def Let_def)
  ultimately show ?thesis using t stuck by (simp add: m s update_task_def stuck_at_def idle_at_def unguarded_def)
qed

text \<open>
  C16: an occurrence whose key is already in the fire log, with the task still due at its moment, is never resolved while nothing
  else moves the task: every later tick of the process claims it, takes it to the fence, and is turned away there, and the next run
  stays where it is; with a catch-up policy a restart puts it back too. The task has no window and no period, and in the ticks
  considered the foreground is quiet, the breaker is closed, nothing cancels the attempt and the owner has the privileges. A task
  reaches this state when a worker dies after the effect started and before the next run was set.
\<close>

theorem used_key_is_never_resolved:
  assumes "stuck_at tid d db" and "unguarded tid db" and "tid \<notin> set (sc_executing s)"
    and "list_all (\<lambda>e. undisturbed e \<and> d < event_time e) es"
    and "list_ex restarts es \<longrightarrow> (\<exists>k>0. parse_misfire_policy (tp_misfire (get_task_policy tid (sd_store db))) = CatchUp k)"
    and "fold (live_one L new_id tid) es (out, s, db) = (out', s', db')"
  shows "stuck_at tid d db' \<and> (\<exists>new. out' = out @ new \<and> length new = length (filter (\<lambda>e. \<not> restarts e) es) \<and> list_all turned_away new)"
  using assms
proof (induction es arbitrary: out s db)
  case (Cons e es)
  obtain o1 s1 db1 where one: "live_one L new_id tid e (out, s, db) = (o1, s1, db1)" by (metis surj_pair)
  have "stuck_at tid d db1 \<and> unguarded tid db1 \<and> tid \<notin> set (sc_executing s1)
      \<and> (\<exists>new. o1 = out @ new \<and> length new = length (filter (\<lambda>e. \<not> restarts e) [e]) \<and> list_all turned_away new)
      \<and> tp_misfire (get_task_policy tid (sd_store db1)) = tp_misfire (get_task_policy tid (sd_store db))"
  proof (cases e)
    case (Tick rid now busy blocked)
    then have e: "d \<le> now" "e = Tick rid now None None" using Cons.prems(4) by (auto simp: event_time_def undisturbed_def)
    obtain a where t: "tick_one L new_id tid rid now None None s db = (a, s1, db1)" "o1 = out @ [a]"
      using one e(2) by (auto simp: live_one_def split: prod.splits)
    from stuck_tick [OF Cons.prems(1,2) e(1) Cons.prems(3) t(1)] Cons.prems(2) t(2) e(2) show ?thesis
      by (simp add: unguarded_def restarts_def)
  next
    case (Restart w now)
    then have n: "d < now" using Cons.prems(4) by (simp add: event_time_def)
    from Restart Cons.prems(5) obtain k where "parse_misfire_policy (tp_misfire (get_task_policy tid (sd_store db))) = CatchUp k" "0 < k"
      by (auto simp: restarts_def)
    from stuck_restart [OF Cons.prems(1) n this, of L new_id] one Cons.prems(2) show ?thesis
      by (auto simp: Restart live_one_def restarts_def idle_swept [OF Cons.prems(1) [unfolded stuck_at_def, THEN conjunct2]])
  qed
  then obtain new where s1: "stuck_at tid d db1" "unguarded tid db1" "tid \<notin> set (sc_executing s1)" "o1 = out @ new"
    "length new = length (filter (\<lambda>e. \<not> restarts e) [e])" "list_all turned_away new"
    "tp_misfire (get_task_policy tid (sd_store db1)) = tp_misfire (get_task_policy tid (sd_store db))" by blast
  have f: "fold (live_one L new_id tid) es (o1, s1, db1) = (out', s', db')" using Cons.prems(6) one by simp
  have es: "list_all (\<lambda>e. undisturbed e \<and> d < event_time e) es"
    "list_ex restarts es \<longrightarrow> (\<exists>k>0. parse_misfire_policy (tp_misfire (get_task_policy tid (sd_store db1))) = CatchUp k)"
    using Cons.prems(4,5) by (simp_all add: s1(7))
  from Cons.IH [OF s1(1-3) es f] obtain more where "stuck_at tid d db'" "out' = o1 @ more"
    "length more = length (filter (\<lambda>e. \<not> restarts e) es)" "list_all turned_away more" by blast
  with s1(4-6) show ?case by (intro conjI exI [of _ "new @ more"]) (simp_all add: list_all_append)
qed simp

lemma begin_claimed:
  assumes "dget (sd_tasks db) tid = Some t" and "tk_key t = Some k" and "k \<noteq> []" and "dget (st_fired (sd_store db)) k = None"
    and "tk_lease_owner t = Some (sc_id s)" and "dget (sc_generations s) tid = Some (tk_generation t)"
    and "exec_begin tid rid now s db = (a, db')"
  shows "a = GoAhead (Some k) \<and> sd_tasks db' = sd_tasks db"
proof -
  define db1 where "db1 = start_run tid rid now db"
  have b: "sd_tasks db1 = sd_tasks db" "sd_store db1 = sd_store db"
    by (auto simp: db1_def start_run_def add_run_def update_run_def split: option.split)
  have "still_owner_or_fenced tid s db1" using assms(1,5,6) by (simp add: still_owner_or_fenced_def still_owner_def b)
  then show ?thesis using assms(4,7) unfolding exec_begin_def Let_def db1_def [symmetric]
    by (auto simp: b assms(1-3) claim_fire_key_literal_def)
qed

lemma postponed_idle:
  assumes "idle_at tid d db" and "tk_key (the (dget (sd_tasks db) tid)) = None" and "unguarded tid db"
  shows "idle_at tid until (postpone_task tid until db) \<and> unguarded tid (postpone_task tid until db) \<and> sd_store (postpone_task tid until db) = sd_store db"
proof (rule idle_task [OF assms(1)])
  fix t assume t: "dget (sd_tasks db) tid = Some t" "tk_status t = ''active''" "tk_next t = Some d" "tk_lease_owner t = None"
  have "postpone_due tid (Some d) (Some until) (sd_store db) = sd_store db"
    using assms(3) by (auto simp: unguarded_def postpone_due_def get_task_schedule_guard_def dget_or_def Let_def split: option.split if_splits)
  then have "postpone_task tid until db = db\<lparr>sd_tasks := dset tid (t\<lparr>tk_next := Some until\<rparr>) (sd_tasks db)\<rparr>"
    using t by (simp add: postpone_task_def note_postponed_def on_store_def update_task_def)
  then show ?thesis using t assms(2,3) by (simp add: idle_at_def unguarded_def)
qed

text \<open>
  A postponement does resolve it, by starting the effect again: once the key was released by an attempt that was turned away, the
  next claim forms its key from the moment put off to, which the fire log does not hold.
\<close>

theorem postponed_used_key_runs_again:
  assumes "stuck_at tid d db" and "tk_key (the (dget (sd_tasks db) tid)) = None" and "unguarded tid db" and "tid \<notin> set (sc_executing s)"
    and "d \<le> now" and "until \<le> later" and "dget (st_fired (sd_store db)) (occurrence_key tid (Some until)) = None"
  shows "fst (fold (live_one L new_id tid) [Tick r1 now (Some until) None, Tick r2 later None None] ([], s, db))
    = [None, Some (GoAhead (Some (occurrence_key tid (Some until))))]"
proof -
  have i: "idle_at tid d db" using assms(1) by (simp add: stuck_at_def)
  let ?db = "postpone_task tid until db"
  note p = postponed_idle [OF i assms(2,3), of until]
  have "tick_one L new_id tid r1 now (Some until) None s db = (None, s, ?db)"
    by (rule idle_task [OF i]) (simp add: tick_one_def Let_def idle_swept [OF i] is_due_def assms(4,5))
  moreover from p obtain s1 db1 t where "tick_one L new_id tid r2 later None None s ?db = run_one tid r2 later None s1 db1"
    and t: "sc_id s1 = sc_id s" "sd_store db1 = sd_store db" "dget (sd_tasks db1) tid = Some t" "tk_status t = ''active''"
    "tk_lease_owner t = Some (sc_id s)" "tk_key t = Some (occurrence_key tid (Some until))" "dget (sc_generations s1) tid = Some (tk_generation t)"
    using idle_tick [OF _ _ assms(6,4), of ?db L new_id r2 None] by metis
  moreover have "fst (run_one tid r2 later None s1 db1) = Some (GoAhead (Some (occurrence_key tid (Some until))))"
  proof -
    define x where "x = add_run r2 (queued_run tid later) db1"
    have x: "dget (sd_tasks x) tid = Some t" "sd_store x = sd_store db" using t(2,3) by (simp_all add: x_def add_run_def)
    obtain a y where e: "exec_begin tid r2 later s1 x = (a, y)" by fastforce
    have "a = GoAhead (Some (occurrence_key tid (Some until)))"
      using begin_claimed [OF x(1) t(6) _ _ _ t(7) e] assms(7) t(1,5) x(2) by simp
    moreover have "exec_check tid r2 later None x = (True, x)" using x(1) t(4) by (simp add: exec_check_def)
    ultimately show ?thesis by (simp add: run_one_def x_def [symmetric] e split_beta)
  qed
  ultimately show ?thesis by (simp add: live_one_def split_beta)
qed

text \<open>
  \<open>A\<close> starts the effect of the moment \<open>0\<close> and dies; a second process starts after the lease ran out, catches up, and is turned
  away, before and after one more restart.
\<close>

definition sched_demo_crashed :: sched_db where
  "sched_demo_crashed = start_sweep demo_sched (\<lambda>t. t) lease_us lease_us lease_us
     (snd (exec_begin ''t'' ''r'' 0 sched_demo_a ((sched_demo_leased ''A'' 0 1)\<lparr>sd_store :=
        (sd_store sched_demo_db)\<lparr>st_policies := [(''t'', empty_policy\<lparr>pr_misfire := ''catch_up_max:3''\<rparr>)]\<rparr>\<rparr>)))"

lemma sched_demo_crashed_stuck: "stuck_at ''t'' 0 sched_demo_crashed \<and> unguarded ''t'' sched_demo_crashed"
  by code_simp

lemma sched_demo_crashed_policy: "parse_misfire_policy (tp_misfire (get_task_policy ''t'' (sd_store sched_demo_crashed))) = CatchUp 3"
  by code_simp

definition sched_demo_life :: "event list" where
  "sched_demo_life = [Tick ''p'' lease_us None None, Restart ''C'' lease_us, Tick ''q'' lease_us None None]"

lemma used_key_is_never_resolved_witness:
  "\<exists>out s db. fold (live_one demo_sched (\<lambda>t. t) ''t'') sched_demo_life ([], sched_demo_worker ''B'', sched_demo_crashed) = (out, s, db)
     \<and> stuck_at ''t'' 0 db \<and> length out = 2 \<and> list_all turned_away out"
proof -
  obtain out s db where f: "fold (live_one demo_sched (\<lambda>t. t) ''t'') sched_demo_life ([], sched_demo_worker ''B'', sched_demo_crashed) = (out, s, db)"
    by (metis surj_pair)
  have "list_all (\<lambda>e. undisturbed e \<and> 0 < event_time e) sched_demo_life"
    by (simp add: sched_demo_life_def undisturbed_def event_time_def lease_us_def second_us_def)
  from used_key_is_never_resolved [OF _ _ _ this _ f] sched_demo_crashed_stuck sched_demo_crashed_policy
  have "stuck_at ''t'' 0 db \<and> (\<exists>new. out = [] @ new \<and> length new = length (filter (\<lambda>e. \<not> restarts e) sched_demo_life) \<and> list_all turned_away new)"
    by (simp add: sched_demo_worker_def)
  with f show ?thesis by (auto simp: sched_demo_life_def restarts_def)
qed

section \<open>A forced run\<close>

text \<open>Whose lease it is does not change while a run ends.\<close>

named_theorems held

lemma holds_update [held]: "(\<And>t. tk_lease_owner (f t) = tk_lease_owner t) \<Longrightarrow> holds_lease w i (update_task tid f db) = holds_lease w i db"
  by (auto simp: holds_lease_def update_task_def split: option.split)

lemma holds_runs [held]: "holds_lease w i (add_run rid r db) = holds_lease w i db" "holds_lease w i (update_run rid f db) = holds_lease w i db"
  "holds_lease w i (on_store g db) = holds_lease w i db" "holds_lease w i (db\<lparr>sd_store := s\<rparr>) = holds_lease w i db"
  by (auto simp: holds_lease_def add_run_def update_run_def on_store_def split: option.split)

lemma holds_move_on [held]: "holds_lease w i (move_on L tid now c db) = holds_lease w i db"
  by (auto simp: move_on_def advance_task_def held split: option.split prod.split)

lemma holds_close [held]: "holds_lease w i (snd (close_period manual tid st r e s db)) = holds_lease w i db"
  by (auto simp: close_period_def held split: option.split prod.split)

lemma holds_success: "holds_lease w i (snd (snd (finish_success L tid rid now manual ok r s db))) = holds_lease w i db"
proof -
  define st er where "st = (if ok then ''success'' else ''error'')" and "er = (if ok then [] else r)"
  define s' where "s' = s\<lparr>sc_defers := dpop tid (sc_defers s)\<rparr>"
  define db2 where "db2 = move_on L tid now True (update_task tid (\<lambda>t. t\<lparr>tk_last := Some now, tk_runs := tk_runs t + 1\<rparr>) (update_run rid (end_run st r er now) db))"
  obtain s3 db3 where c: "close_period manual tid st r er s' db2 = (s3, db3)" by fastforce
  have "snd (snd (finish_success L tid rid now manual ok r s db)) = db3"
    unfolding finish_success_def Let_def st_def [symmetric] er_def [symmetric] db2_def [symmetric] s'_def [symmetric] c prod.case snd_conv ..
  moreover have "holds_lease w i db3 = holds_lease w i db2" using holds_close [of w i manual tid st r er s' db2] by (simp add: c)
  ultimately show ?thesis by (simp add: db2_def held)
qed

lemma begin_unclaimed:
  assumes "dget (sc_generations s) tid = None" and "case dget (sd_tasks db) tid of None \<Rightarrow> True | Some t \<Rightarrow> tk_key t = None"
  shows "fst (exec_begin tid rid now s db) = GoAhead None"
proof -
  define db1 where "db1 = start_run tid rid now db"
  have b: "sd_tasks db1 = sd_tasks db"
    by (auto simp: db1_def start_run_def add_run_def update_run_def split: option.split)
  have "still_owner_or_fenced tid s db1" by (simp add: still_owner_or_fenced_def assms(1))
  then show ?thesis using assms(2) unfolding exec_begin_def Let_def db1_def [symmetric]
    by (auto simp: b split: option.split)
qed

lemma released:
  assumes "holds_lease (sc_id s) tid db"
  shows "dget (sc_generations (fst (leave_execution tid b s db))) tid = None
    \<and> (case dget (sd_tasks (snd (leave_execution tid b s db))) tid of None \<Rightarrow> True | Some t \<Rightarrow> tk_key t = None)"
  using assms by (auto simp: leave_execution_def release_lease_def Let_def update_task_def unleased_def split: option.split)

text \<open>
  C27: a run that a person forces while a claimed attempt of the same task waits in the queue runs under the claim's key, and in
  leaving drops the lease, the key and the generation the attempt relies on; the attempt then finds nothing to check and runs the
  occurrence again.
\<close>

theorem forced_run_repeats_the_queued_one:
  assumes "dget (sd_tasks db) tid = Some t" and "tk_key t = Some k" and "k \<noteq> []" and "dget (st_fired (sd_store db)) k = None"
    and "tk_lease_owner t = Some (sc_id s)" and "dget (sc_generations s) tid = Some (tk_generation t)"
    and "exec_begin tid rid now s db = (a, db1)" and "exec_end L tid rid now' manual (Finished ok r) s db1 = (n, s2, db2)"
    and "leave_execution tid False s2 db2 = (s3, db3)"
  shows "a = GoAhead (Some k) \<and> fst (exec_begin tid rid' now'' s3 db3) = GoAhead None"
proof -
  have b: "a = GoAhead (Some k)" "sd_tasks db1 = sd_tasks db" using begin_claimed [OF assms(1-7)] by blast+
  have h: "holds_lease (sc_id s) tid db1" by (simp add: holds_lease_def b(2) assms(1,5))
  have own: "still_owner_or_fenced tid s db1" using assms(1,5,6) by (simp add: still_owner_or_fenced_def still_owner_def b(2))
  have e: "finish_success L tid rid now' manual ok r s db1 = (n, s2, db2)" using assms(8) own by (simp add: exec_end_def)
  have "holds_lease (sc_id s2) tid db2"
    using holds_success [of "sc_id s" tid L tid rid now' manual ok r s db1] success_keeps [of L tid rid now' manual ok r s db1] h by (simp add: e)
  from released [OF this, of False] show ?thesis using begin_unclaimed b(1) by (simp add: assms(9))
qed

definition sched_demo_forced :: "scheduler \<times> sched_db" where
  "sched_demo_forced = (case exec_begin ''t'' ''r'' 0 sched_demo_a (sched_demo_leased ''A'' 0 1) of (a, db1) \<Rightarrow>
     case exec_end demo_sched ''t'' ''r'' 1 True (Finished True []) sched_demo_a db1 of (n, s2, db2) \<Rightarrow> leave_execution ''t'' False s2 db2)"

lemma sched_demo_forced_check: "fst (exec_check ''t'' ''q'' 2 None (snd sched_demo_forced))"
  by code_simp

text \<open>The queued attempt passes its check, and its effect starts.\<close>

lemma forced_run_repeats_the_queued_one_witness:
  "fst (exec_check ''t'' ''q'' 2 None (snd sched_demo_forced)) \<and> fst (exec_begin ''t'' ''q'' 2 (fst sched_demo_forced) (snd sched_demo_forced)) = GoAhead None"
proof -
  obtain a db1 where b: "exec_begin ''t'' ''r'' 0 sched_demo_a (sched_demo_leased ''A'' 0 1) = (a, db1)" by fastforce
  obtain n s2 db2 where e: "exec_end demo_sched ''t'' ''r'' 1 True (Finished True []) sched_demo_a db1 = (n, s2, db2)" by (metis surj_pair)
  obtain s3 db3 where l: "leave_execution ''t'' False s2 db2 = (s3, db3)" by fastforce
  have t: "dget (sd_tasks (sched_demo_leased ''A'' 0 1)) ''t'' = Some (sched_demo_job\<lparr>tk_lease_owner := Some ''A'', tk_expires := Some (0 + lease_us),
     tk_heartbeat := Some 0, tk_key := Some (occurrence_key ''t'' (Some 0)), tk_attempt := 1, tk_generation := 1\<rparr>)"
    by (simp add: sched_demo_leased_def)
  from forced_run_repeats_the_queued_one [OF t _ _ _ _ _ b e l, of "occurrence_key ''t'' (Some 0)" "''q''" 2]
  have f: "fst (exec_begin ''t'' ''q'' 2 s3 db3) = GoAhead None" by (auto simp: sched_demo_leased_def sched_demo_db_def sched_demo_a_def sched_demo_worker_def)
  have d: "sched_demo_forced = (s3, db3)" unfolding sched_demo_forced_def b prod.case e l ..
  show ?thesis using sched_demo_forced_check f unfolding d fst_conv snd_conv by (rule conjI)
qed

end
