(* ===== verification/Spec2Isabelle.thy ===== *)
theory Spec2Isabelle
  imports Rate_Limiter Retry_Policy Probe_Backoff Work_Lease Budget_Account Outbox_Theorems Resource_Claims Spend_Cap Autonomy_Budget Unattended_Breaker Approvals
    Plan_Theorems Subagent_Permissions Period_Budget Connector_Safety Tool_Call_Assembler Toon_Theorems Loop_Theorems Stuck_Theorems Mail_Theorems Scheduler_Faults
begin

text \<open>
  The execution-governance kernel of Faustus, the part of the agent workstation that decides whether an
  action may happen, when, how often, on whose approval and at what price, with the text formats that
  part reads and writes. Paths below are under the repository's \<open>src/\<close>.

  \<^bold>\<open>How the parts work together.\<close> A turn of the agent loop receives streamed deltas of tool calls
  and puts them together (\<open>tool_call_assembler.py\<close>). Each call passes the turn's budget
  (\<open>autonomy_budget.py\<close>), the loop breaker (\<open>loop_breaker.py\<close>), the rules of the worker that makes it
  (\<open>subagent_permissions.py\<close>) and, when calls run in parallel, the claim broker
  (\<open>resource_claims.py\<close>). A call whose effect cannot be repeated is written ahead and dispatched under
  guard (\<open>effect_outbox.py\<close>); one that leaves the machine needs a person's card (\<open>connector_outbox.py\<close>
  over \<open>approval_store.py\<close> and \<open>contracts/approval.py\<close>). Paid calls pass the daily cap (\<open>spend_cap.py\<close>),
  children are launched against a reservation (\<open>budget_account.py\<close>), providers are retried
  (\<open>retry_policy.py\<close>), probed (\<open>probe_backoff.py\<close>) and throttled (\<open>rate_limiter.py\<close>). Background work
  holds fenced leases (\<open>work_lease.py\<close>), is started by the scheduler (\<open>task_scheduler.py\<close>,
  \<open>task_windows.py\<close>), stops at the failure breaker (\<open>unattended_breaker.py\<close>) and keeps to a pace over the
  day and the week (\<open>period_budget.py\<close>). Plans are checklists (\<open>plan_state.py\<close>), agents write to each other
  (\<open>agent_mailbox.py\<close>), and payloads for models are printed as TOON (\<open>toon.py\<close>).

  \<^bold>\<open>Which theory models what.\<close>

  \<^item> \<open>Prelude\<close>, \<open>Py_Values\<close>: Python's dictionaries, errors, floats, JSON values and string
    methods; the locales \<open>op_system\<close>, \<open>measured_system\<close> and \<open>keyed_store\<close>, interpreted by the components.
  \<^item> \<open>Backoff\<close>, \<open>Retry_Policy\<close>, \<open>Probe_Backoff\<close>: the capped exponential wait of three modules as one locale, with the
    attempt from which its product overflows.
  \<^item> \<open>Rate_Limiter\<close>: one list of admissions per key refines the window specification.
  \<^item> \<open>Work_Lease\<close>, \<open>Budget_Account\<close>, \<open>Spend_Cap\<close>, \<open>Autonomy_Budget\<close>, \<open>Unattended_Breaker\<close>, \<open>Period_Budget\<close>: the books, each
    with its invariant, the exact condition of every grant and refusal, and what a run of operations keeps.
  \<^item> \<open>Effect_Outbox\<close>, \<open>Effect_Dispatch\<close> (model), \<open>Outbox_Safety\<close> (invariant), \<open>Outbox_Runs\<close> (threads and processes on one
    file, each connection a step, writes on rows read any time before), \<open>Outbox_Theorems\<close> (properties): the
    write-ahead record, for every pattern of storage failures. An operation that reads and writes in two connections is
    composed of its read and its \<open>_write\<close> half; moving a row is one transaction, without a retry.
  \<^item> \<open>Approvals\<close>; \<open>Connector_Outbox\<close> (model) and \<open>Connector_Safety\<close> (every interleaving of its callers, cut at their
    transactions, with the operations on approvals).
  \<^item> \<open>Resource_Claims\<close>: conflict rules, the broker's queue, preview and apply.
  \<^item> \<open>Plan_State\<close>, \<open>Plan_Roundtrip\<close>, \<open>Plan_Theorems\<close>: the parser and printer of checklists.
  \<^item> \<open>Subagent_Permissions\<close>: rules, their intersection along a chain of workers, what a delegated task is started with
    (\<open>start_worker\<close>: definition, roots and tool categories, of \<open>agent_tools/subagent_tools.py\<close>), path patterns, the gate.
  \<^item> \<open>Tool_Call_Assembler\<close>: deltas cut anywhere, inside UTF-8 sequences too.
  \<^item> \<open>Toon\<close>, \<open>Toon_Text\<close>, \<open>Toon_Roundtrip\<close>, \<open>Toon_Theorems\<close>: encoder, decoder, and their round trip. The reader's
    recursion runs on fuel of two calls a line and two more, which is proved enough for every list of lines; values
    are followed to 64 levels, as in the code.
  \<^item> \<open>Loop_Policy\<close>, \<open>Loop_Theorems\<close>, \<open>Stuck_Watch\<close>, \<open>Stuck_Theorems\<close>: the ladder for repeated calls and cycles (history of
    24 calls), monologues, failing paths and advisories.
  \<^item> \<open>Agent_Mailbox\<close>, \<open>Mail_Theorems\<close>: messages, hop limits, wakes, hand-over. What \<open>send\<close> and \<open>take_for_turn\<close> do under
    the lock (\<open>mail_post\<close>, \<open>drain_chat\<close>) is a step of its own, apart from the marks in memory (\<open>_URGENT\<close>), which a restart loses.
  \<^item> \<open>Civil_Time\<close>, \<open>Time_Zone\<close>: the calendar and zones of the standard library; \<open>Task_Schedule\<close>:
    when a task runs next, in the skipped and the repeated hour too (4 readings are tried, as in the code).
  \<^item> \<open>Task_Windows\<close>: run windows, calendar periods and closed statuses. \<open>Task_Store\<close>: what the scheduler keeps beside its tasks
    (policies, moments still owed, windows, periods, the log of fire keys). \<open>Scheduler\<close> (model): claims under a lease of 900
    seconds (the \<open>UPDATE\<close> and the later reading of the generation are two steps), the fence, recovery, one execution cut where it
    waits, the sweep at start-up, chains of ten links.
    \<open>Scheduler_Theorems\<close>: every interleaving of the processes that share the database. \<open>Scheduler_Faults\<close>: chains,
    catching up (at most \<open>k\<close> moments, the fuel of the enumeration), postponing, and three ways to lose or double an occurrence.

  \<^bold>\<open>What the lemmas show.\<close> For every component a state invariant that each operation keeps, the
  behaviour of each operation on every branch, and the promises of its documentation: at most one send per
  effect and none without a matching card, budgets never exceeded, leases that cannot publish once
  superseded, permissions that a chain of workers cannot widen, short chains of replies, parsers that read
  back what their printers write. Where a promise does not hold, the theorem states what the code does
  instead, and says so in its text.

  \<^bold>\<open>Conventions.\<close> A store is a record of its tables and every transaction one step; what other
  sessions do between two statements is an argument or a step of an inductive system. Clocks, new ids, random draws,
  digests, settings, the file system and third-party calls are arguments. Strings are lists of 8-bit characters; codes 128
  to 131 stand for the ellipsis, U+241F, the dash and the arrow. Python integers are \<open>int\<close> or \<open>nat\<close> and floats reals, except
  where the code tests for NaN, infinity or overflow.

  \<^bold>\<open>Not modelled.\<close> The language-model clients and the agent loop that call these modules, the web
  routes and pages, research, memory, media and document tools, the bridges to other services, and the
  relational schema of \<open>core/\<close> beyond the columns used here: their logic is input and output, prompts, or
  calls to third-party code. Inside the modelled files: read-outs for the user interface, the wording of
  messages, logging and the migrations of old database files.
\<close>

end
